(* ===== verification/Prelude.thy ===== *)
theory Prelude
  imports Main "HOL-Library.Sublist"
begin

text \<open>
  Shared vocabulary of the development.

  A Rust \<open>char\<close> is a Unicode scalar value; the model writes it as the integer of its code
  point (\<open>uchar\<close>), and a \<open>&str\<close> or \<open>String\<close> as the list of its scalar values (\<open>ustr\<close>),
  so that \<open>chars()\<close>, \<open>chars().count()\<close>, \<open>starts_with\<close> and \<open>concat\<close> are the list operations.
  \<open>usize\<close> values that index or count are \<open>nat\<close>; where the code subtracts with
  \<open>saturating_sub\<close> this is HOL's own subtraction on \<open>nat\<close>, and where the code uses
  \<open>checked_sub\<close> the model writes the test out.

  The theory also fixes \<open>std::cmp::Ordering\<close>, \<open>Iterator::max_by\<close> and the lemmas on lists
  that more than one component uses.
\<close>

section \<open>Characters and strings\<close>

type_synonym uchar = int
type_synonym ustr = "uchar list"
type_synonym grapheme = ustr

text \<open>ASCII literals of the source, as scalar values.\<close>

definition ascii :: "string \<Rightarrow> ustr" where
  "ascii s = map of_char s"

text \<open>The range test behind \<open>char::from_u32\<close>.\<close>

definition is_scalar :: "uchar \<Rightarrow> bool" where
  "is_scalar c \<longleftrightarrow> 0 \<le> c \<and> c \<le> 0x10FFFF \<and> \<not> (0xD800 \<le> c \<and> c \<le> 0xDFFF)"

text \<open>
  \<open>UnicodeSegmentation::graphemes(value, true)\<close> is code of a third-party crate. The model takes
  it as an argument. What the crate documents, and the code relies on, is that the clusters are
  nonempty and that their concatenation is the text.
\<close>

type_synonym segmenter = "ustr \<Rightarrow> grapheme list"

definition segments_text :: "segmenter \<Rightarrow> bool" where
  "segments_text graphemes \<longleftrightarrow>
     (\<forall>s. concat (graphemes s) = s \<and> [] \<notin> set (graphemes s))"

text \<open>The segmenter of text without combining characters: one cluster per scalar value.\<close>

definition scalar_graphemes :: segmenter where
  "scalar_graphemes s = map (\<lambda>c. [c]) s"

lemma segments_text_scalar: "segments_text scalar_graphemes"
  by (simp add: segments_text_def scalar_graphemes_def image_iff)

section \<open>Orderings and maxima\<close>

datatype Ordering = Less | Equal | Greater

text \<open>\<open>Ord::cmp\<close> on a linear order and \<open>Ordering::then_with\<close>.\<close>

definition cmp :: "'a::linorder \<Rightarrow> 'a \<Rightarrow> Ordering" where
  "cmp a b = (if a < b then Less else if a = b then Equal else Greater)"

fun then_with :: "Ordering \<Rightarrow> Ordering \<Rightarrow> Ordering" where
  "then_with Equal other = other"
| "then_with self other = self"

text \<open>
  \<open>Iterator::max_by\<close> reduces from the left and keeps the accumulated element only when it
  compares greater, so that the last of several maximal elements is returned.
\<close>

fun max_by :: "('a \<Rightarrow> 'a \<Rightarrow> Ordering) \<Rightarrow> 'a list \<Rightarrow> 'a option" where
  "max_by compare [] = None"
| "max_by compare (x # xs) =
     Some (fold (\<lambda>y best. if compare best y = Greater then best else y) xs x)"

text \<open>
  The interface of a comparator: it compares by a key into a linear order. The provider states
  the key; the client gets that \<^const>\<open>max_by\<close> returns a maximal element.
\<close>

locale keyed_comparison =
  fixes compare :: "'a \<Rightarrow> 'a \<Rightarrow> Ordering"
    and key :: "'a \<Rightarrow> 'k::linorder"
  assumes compare_key: "compare a b = cmp (key a) (key b)"
begin

lemma fold_max_mem:
  "fold (\<lambda>y best. if compare best y = Greater then best else y) xs x \<in> set (x # xs)"
proof (induction xs arbitrary: x)
  case Nil
  show ?case by simp
next
  case (Cons y ys)
  show ?case using Cons [of x] Cons [of y] by auto
qed

lemma fold_max_ge:
  "z \<in> set (x # xs) \<Longrightarrow>
   key z \<le> key (fold (\<lambda>y best. if compare best y = Greater then best else y) xs x)"
proof (induction xs arbitrary: x z)
  case Nil
  then show ?case by simp
next
  case (Cons y ys)
  let ?b = "if compare x y = Greater then x else y"
  have "key x \<le> key ?b" and "key y \<le> key ?b"
    by (auto simp: compare_key cmp_def split: if_splits)
  moreover have "key ?b \<le> key (fold (\<lambda>y best. if compare best y = Greater then best else y) ys ?b)"
    by (rule Cons.IH) simp
  ultimately show ?case
    using Cons.prems Cons.IH [of z ?b] by (auto simp del: fold_simps simp add: fold_simps(2))
qed

lemma max_by_None [simp]: "max_by compare xs = None \<longleftrightarrow> xs = []"
  by (cases xs) auto

lemma max_by_mem: "max_by compare xs = Some m \<Longrightarrow> m \<in> set xs"
  using fold_max_mem by (cases xs) auto

lemma max_by_ge: "max_by compare xs = Some m \<Longrightarrow> x \<in> set xs \<Longrightarrow> key x \<le> key m"
  using fold_max_ge by (cases xs) auto

text \<open>A maximal element with a key of its own is the one that is returned.\<close>

lemma max_by_unique:
  assumes "m \<in> set xs" and "\<And>x. x \<in> set xs \<Longrightarrow> key x \<le> key m"
    and "\<And>x. x \<in> set xs \<Longrightarrow> key x = key m \<Longrightarrow> x = m"
  shows "max_by compare xs = Some m"
proof -
  from assms(1) obtain w where w: "max_by compare xs = Some w"
    by (cases "max_by compare xs") auto
  have "w \<in> set xs" using w by (rule max_by_mem)
  moreover have "key m \<le> key w" using w assms(1) by (rule max_by_ge)
  ultimately have "w = m" using assms(2,3) [of w] by simp
  with w show ?thesis by simp
qed

text \<open>Restricting the candidates does not change the choice as long as the chosen one stays.\<close>

lemma max_by_filter:
  assumes "max_by compare xs = Some m" and "P m"
    and inj: "\<And>x. x \<in> set xs \<Longrightarrow> key x = key m \<Longrightarrow> x = m"
  shows "max_by compare (filter P xs) = Some m"
  using assms max_by_mem [OF assms(1)] max_by_ge [OF assms(1)]
  by (intro max_by_unique) auto

end

text \<open>\<open>slice::sort_by\<close>: a stable sort by the comparator.\<close>

fun insort_by :: "('a \<Rightarrow> 'a \<Rightarrow> Ordering) \<Rightarrow> 'a \<Rightarrow> 'a list \<Rightarrow> 'a list" where
  "insort_by compare x [] = [x]"
| "insort_by compare x (y # ys) =
     (if compare x y = Greater then y # insort_by compare x ys else x # y # ys)"

definition sort_by :: "('a \<Rightarrow> 'a \<Rightarrow> Ordering) \<Rightarrow> 'a list \<Rightarrow> 'a list" where
  "sort_by compare xs = foldr (insort_by compare) xs []"

lemma set_insort_by [simp]: "set (insort_by compare x xs) = insert x (set xs)"
  by (induction xs) auto

lemma set_sort_by [simp]: "set (sort_by compare xs) = set xs"
  by (induction xs) (simp_all add: sort_by_def)

lemma length_insort_by [simp]: "length (insort_by compare x xs) = Suc (length xs)"
  by (induction xs) auto

lemma length_sort_by [simp]: "length (sort_by compare xs) = length xs"
  by (induction xs) (simp_all add: sort_by_def)

context keyed_comparison
begin

lemma insort_by_key: "insort_by compare x xs = insort_key key x xs"
  by (induction xs) (auto simp: compare_key cmp_def)

text \<open>The library's stable sort by the key.\<close>

lemma sort_by_key: "sort_by compare xs = sort_key key xs"
proof -
  have "insort_by compare = insort_key key" by (intro ext) (rule insort_by_key)
  then show ?thesis by (simp add: sort_by_def sort_key_def)
qed

end

section \<open>Lists\<close>

text \<open>\<open>common_prefix_len\<close> of \<open>composing.rs\<close> and the \<open>take_while\<close> of \<open>suffix_edit_prediction\<close>.\<close>

fun common_prefix_len :: "'a list \<Rightarrow> 'a list \<Rightarrow> nat" where
  "common_prefix_len (x # xs) (y # ys) = (if x = y then Suc (common_prefix_len xs ys) else 0)"
| "common_prefix_len _ _ = 0"

lemma common_prefix_len_le:
  "common_prefix_len xs ys \<le> length xs" "common_prefix_len xs ys \<le> length ys"
  by (induction xs ys rule: common_prefix_len.induct) auto

lemma common_prefix_len_take:
  "take (common_prefix_len xs ys) xs = take (common_prefix_len xs ys) ys"
  by (induction xs ys rule: common_prefix_len.induct) auto

lemma common_prefix_len_maximal:
  "k \<le> length xs \<Longrightarrow> k \<le> length ys \<Longrightarrow> take k xs = take k ys \<Longrightarrow> k \<le> common_prefix_len xs ys"
proof (induction xs ys arbitrary: k rule: common_prefix_len.induct)
  case (1 x xs y ys)
  then show ?case by (cases k) auto
qed auto

text \<open>\<open>str::strip_prefix\<close>.\<close>

definition strip_prefix :: "'a list \<Rightarrow> 'a list \<Rightarrow> 'a list option" where
  "strip_prefix p s = (if prefix p s then Some (drop (length p) s) else None)"

lemma strip_prefix_Some [simp]: "strip_prefix p s = Some r \<longleftrightarrow> s = p @ r"
  by (auto simp: strip_prefix_def prefix_def)

lemma last_append_nth: "xs \<noteq> [] \<Longrightarrow> last xs = (xs @ ys) ! (length xs - 1)"
  by (simp add: last_conv_nth nth_append)

text \<open>\<open>Vec::splice\<close> of the range \<open>i..j\<close>.\<close>

definition splice_range :: "nat \<Rightarrow> nat \<Rightarrow> 'a list \<Rightarrow> 'a list \<Rightarrow> 'a list" where
  "splice_range i j ys xs = take i xs @ ys @ drop j xs"

lemma set_splice_range: "set (splice_range i j ys xs) \<subseteq> set xs \<union> set ys"
  by (auto simp: splice_range_def dest: in_set_takeD in_set_dropD)

section \<open>Results and chunks\<close>

text \<open>\<open>collect\<close> into a \<open>Result\<close>: the first error, or all values.\<close>

fun collect :: "('e + 'a) list \<Rightarrow> 'e + 'a list" where
  "collect [] = Inr []"
| "collect (Inl e # rs) = Inl e"
| "collect (Inr x # rs) = (case collect rs of Inl e \<Rightarrow> Inl e | Inr xs \<Rightarrow> Inr (x # xs))"

lemma collect_map_Inr: "collect (map Inr xs) = Inr xs"
  by (induction xs) simp_all

lemma collect_InrD: "collect rs = Inr xs \<Longrightarrow> rs = map Inr xs"
proof (induction rs arbitrary: xs rule: collect.induct)
  case (3 x rs)
  then show ?case by (cases "collect rs") auto
qed simp_all

lemma collect_Inr: "collect rs = Inr xs \<longleftrightarrow> rs = map Inr xs"
  using collect_InrD collect_map_Inr by metis

text \<open>\<open>slice::chunks\<close>; the last chunk may be shorter.\<close>

function chunks :: "nat \<Rightarrow> 'a list \<Rightarrow> 'a list list" where
  "chunks n xs = (if xs = [] \<or> n = 0 then [] else take n xs # chunks n (drop n xs))"
  by pat_completeness auto

termination
  by (relation "measure (\<lambda>(_, xs). length xs)") auto

declare chunks.simps [simp del]

lemma concat_chunks: "0 < n \<Longrightarrow> concat (chunks n xs) = xs"
  by (induction n xs rule: chunks.induct) (subst chunks.simps, auto)

end
