(* ===== verification/Kana.thy ===== *)
theory Kana
  imports Prelude
begin

text \<open>
  \<open>crates/converter/src/kana.rs\<close>: the two scalar-wise transliterations between hiragana and
  katakana. Every reading of the program (dictionary keys, learning keys, predictions) passes
  through them.
\<close>

definition katakana_char :: "uchar \<Rightarrow> uchar" where
  "katakana_char c = (if 0x3041 \<le> c \<and> c \<le> 0x3096 then c + 96 else c)"

definition hiragana_char :: "uchar \<Rightarrow> uchar" where
  "hiragana_char c = (if 0x30A1 \<le> c \<and> c \<le> 0x30F6 then c - 96 else c)"

definition to_katakana :: "ustr \<Rightarrow> ustr" where
  "to_katakana value = map katakana_char value"

definition to_hiragana :: "ustr \<Rightarrow> ustr" where
  "to_hiragana value = map hiragana_char value"

lemma to_katakana_append [simp]: "to_katakana (a @ b) = to_katakana a @ to_katakana b"
  by (simp add: to_katakana_def)

lemma to_hiragana_append [simp]: "to_hiragana (a @ b) = to_hiragana a @ to_hiragana b"
  by (simp add: to_hiragana_def)

lemma to_katakana_concat: "to_katakana (concat xs) = concat (map to_katakana xs)"
  by (induction xs) (auto simp: to_katakana_def)

lemma length_to_katakana [simp]: "length (to_katakana s) = length s"
  by (simp add: to_katakana_def)

lemma length_to_hiragana [simp]: "length (to_hiragana s) = length s"
  by (simp add: to_hiragana_def)

lemma hiragana_katakana_char: "hiragana_char (katakana_char c) = hiragana_char c"
  by (auto simp: hiragana_char_def katakana_char_def)

lemma katakana_hiragana_char: "katakana_char (hiragana_char c) = katakana_char c"
  by (auto simp: hiragana_char_def katakana_char_def)

lemma katakana_char_idem: "katakana_char (katakana_char c) = katakana_char c"
  by (auto simp: katakana_char_def)

lemma hiragana_char_idem: "hiragana_char (hiragana_char c) = hiragana_char c"
  by (auto simp: hiragana_char_def)

lemma katakana_char_scalar: "is_scalar c \<Longrightarrow> is_scalar (katakana_char c)"
  by (auto simp: is_scalar_def katakana_char_def)

lemma hiragana_char_scalar: "is_scalar c \<Longrightarrow> is_scalar (hiragana_char c)"
  by (auto simp: is_scalar_def hiragana_char_def)

lemma to_katakana_hiragana [simp]: "to_katakana (to_hiragana s) = to_katakana s"
  by (simp add: to_katakana_def to_hiragana_def katakana_hiragana_char)

lemma to_hiragana_katakana [simp]: "to_hiragana (to_katakana s) = to_hiragana s"
  by (simp add: to_katakana_def to_hiragana_def hiragana_katakana_char)

lemma to_katakana_idem [simp]: "to_katakana (to_katakana s) = to_katakana s"
  by (simp add: to_katakana_def katakana_char_idem)

text \<open>Two readings have the same katakana form exactly when they have the same hiragana form.\<close>

lemma to_katakana_eq_iff: "to_katakana a = to_katakana b \<longleftrightarrow> to_hiragana a = to_hiragana b"
  by (metis to_hiragana_katakana to_katakana_hiragana)

end
