(* ===== verification/Input_Table.thy ===== *)
theory Input_Table
  imports Kana "HOL-Library.Product_Lexorder"
begin

text \<open>
  \<open>crates/converter/src/input/table.rs\<close>: input tables. A table is an ordered list of rewriting
  rules; feeding a piece to a table rewrites the tail of a buffer of graphemes. The theory models
  the data types, the construction of a table from entries, the matcher, the choice among matching
  rules and \<open>apply\<close>, \<open>applied\<close>, \<open>combined\<close> and \<open>possible_nexts\<close>.

  The lemmas show that the choice is a maximum of a strict linear order on the matching rules
  (longer keys first, then fewer wildcards, then more exact keys, then the earlier rule), that
  \<open>apply\<close> rewrites a suffix of the buffer and never reads further left than it deletes, and that
  construction keeps one rule per key, the last value given for it.
\<close>

section \<open>Data\<close>

datatype InputModifier = Shift

datatype InputPiece =
    Character grapheme
  | CompositionSeparator
  | Key (intention: "grapheme option") (key_input: grapheme) (modifiers: "InputModifier set")

text \<open>\<open>InputPiece::displayed\<close>.\<close>

fun displayed :: "InputPiece \<Rightarrow> grapheme option" where
  "displayed (Character v) = Some v"
| "displayed CompositionSeparator = None"
| "displayed (Key intent inp mods) = Some (case intent of Some v \<Rightarrow> v | None \<Rightarrow> inp)"

datatype KeyElement = KPiece InputPiece | KAny

datatype ValueElement = VCharacter grapheme | VAny

record Mapping =
  map_key :: "KeyElement list"
  map_value :: "ValueElement list"

record InputTable =
  mappings :: "Mapping list"
  max_key_count :: nat

record Match =
  mapping_index :: nat
  depth :: nat
  wildcard_count :: nat
  exact_key_count :: nat
  resolved_wildcard :: "InputPiece option"

section \<open>Construction\<close>

text \<open>
  The body of the loop of \<open>InputTable::new\<close>: an entry whose key is already present replaces the
  value of that mapping in place, another one is appended.
\<close>

fun upsert_mapping :: "KeyElement list \<Rightarrow> ValueElement list \<Rightarrow> Mapping list \<Rightarrow> Mapping list" where
  "upsert_mapping k v [] = [\<lparr>map_key = k, map_value = v\<rparr>]"
| "upsert_mapping k v (m # ms) =
     (if map_key m = k then m\<lparr>map_value := v\<rparr> # ms else m # upsert_mapping k v ms)"

definition empty_table :: InputTable where
  "empty_table = \<lparr>mappings = [], max_key_count = 0\<rparr>"

definition new_table :: "(KeyElement list \<times> ValueElement list) list \<Rightarrow> InputTable" where
  "new_table entries =
     (let ms = fold (\<lambda>(k, v). upsert_mapping k v) entries []
      in \<lparr>mappings = ms, max_key_count = fold max (map (\<lambda>m. length (map_key m)) ms) 0\<rparr>)"

definition table_entries :: "InputTable \<Rightarrow> (KeyElement list \<times> ValueElement list) list" where
  "table_entries t = map (\<lambda>m. (map_key m, map_value m)) (mappings t)"

text \<open>\<open>InputTable::combined\<close>.\<close>

definition combined :: "InputTable list \<Rightarrow> InputTable" where
  "combined tables = new_table (concat (map table_entries tables))"

section \<open>Matching\<close>

text \<open>\<open>piece_matches\<close>; the second component is the updated \<open>exact_key_count\<close>.\<close>

fun piece_matches :: "InputPiece \<Rightarrow> InputPiece \<Rightarrow> nat \<Rightarrow> bool \<times> nat" where
  "piece_matches (Character e) current n = (displayed current = Some e, n)"
| "piece_matches CompositionSeparator CompositionSeparator n = (True, n)"
| "piece_matches (Key ei ein emods) (Key i inp mods) n =
     (if (case i of Some v \<Rightarrow> v | None \<Rightarrow> inp) = ein \<and> mods = emods
      then (True, Suc n) else (False, n))"
| "piece_matches _ _ n = (False, n)"

text \<open>
  The loop of \<open>match_mapping\<close> over the reversed key. Position 0 is the added piece, position
  \<open>d > 0\<close> the \<open>d\<close>-th grapheme from the end of the buffer; a buffer that is too short ends the
  match (\<open>checked_sub(depth)?\<close>).
\<close>

definition piece_at :: "grapheme list \<Rightarrow> InputPiece \<Rightarrow> nat \<Rightarrow> InputPiece option" where
  "piece_at buffer added d =
     (if d = 0 then Some added
      else if d \<le> length buffer then Some (Character (buffer ! (length buffer - d)))
      else None)"

fun match_key :: "grapheme list \<Rightarrow> InputPiece \<Rightarrow> nat \<Rightarrow> KeyElement list \<Rightarrow>
    InputPiece option \<Rightarrow> nat \<Rightarrow> nat \<Rightarrow> (InputPiece option \<times> nat \<times> nat) option" where
  "match_key buffer added d [] rw wc ek = Some (rw, wc, ek)"
| "match_key buffer added d (expected # rest) rw wc ek =
     (case piece_at buffer added d of
        None \<Rightarrow> None
      | Some current \<Rightarrow>
          (case expected of
             KAny \<Rightarrow>
               (case rw of
                  Some previous \<Rightarrow>
                    if previous \<noteq> current then None
                    else match_key buffer added (Suc d) rest rw (Suc wc) ek
                | None \<Rightarrow> match_key buffer added (Suc d) rest (Some current) (Suc wc) ek)
           | KPiece e \<Rightarrow>
               (case piece_matches e current ek of
                  (ok, ek') \<Rightarrow>
                    if ok then match_key buffer added (Suc d) rest rw wc ek' else None)))"

definition match_mapping :: "InputTable \<Rightarrow> nat \<Rightarrow> Mapping \<Rightarrow> grapheme list \<Rightarrow> InputPiece \<Rightarrow> Match option" where
  "match_mapping t i m buffer added =
     (if map_key m = [] \<or> length (map_key m) > max_key_count t then None
      else (case match_key buffer added 0 (rev (map_key m)) None 0 0 of
              None \<Rightarrow> None
            | Some (rw, wc, ek) \<Rightarrow>
                Some \<lparr>mapping_index = i, depth = length (map_key m), wildcard_count = wc,
                      exact_key_count = ek, resolved_wildcard = rw\<rparr>))"

definition compare_matches :: "Match \<Rightarrow> Match \<Rightarrow> Ordering" where
  "compare_matches l r =
     then_with (cmp (depth l) (depth r))
       (then_with (cmp (wildcard_count r) (wildcard_count l))
         (then_with (cmp (exact_key_count l) (exact_key_count r))
           (cmp (mapping_index r) (mapping_index l))))"

section \<open>Application\<close>

definition all_matches :: "InputTable \<Rightarrow> grapheme list \<Rightarrow> InputPiece \<Rightarrow> Match list" where
  "all_matches t buffer added =
     List.map_filter (\<lambda>(i, m). match_mapping t i m buffer added)
       (enumerate 0 (mappings t))"

text \<open>The graphemes a matched rule pushes.\<close>

fun push_value :: "InputPiece option \<Rightarrow> ValueElement \<Rightarrow> grapheme list" where
  "push_value rw (VCharacter v) = [v]"
| "push_value rw VAny =
     (case rw of None \<Rightarrow> []
      | Some p \<Rightarrow> (case displayed p of Some v \<Rightarrow> [v] | None \<Rightarrow> []))"

text \<open>\<open>InputTable::apply\<close>: the new buffer and the number of deleted graphemes.\<close>

definition apply_table :: "InputTable \<Rightarrow> grapheme list \<Rightarrow> InputPiece \<Rightarrow> grapheme list \<times> nat" where
  "apply_table t buffer added =
     (case max_by compare_matches (all_matches t buffer added) of
        Some best \<Rightarrow>
          (let delete_count = depth best - 1
           in (take (length buffer - delete_count) buffer @
                 concat (map (push_value (resolved_wildcard best))
                           (map_value (mappings t ! mapping_index best))),
               delete_count))
      | None \<Rightarrow>
          (case displayed added of
             Some v \<Rightarrow> (buffer @ [v], 0)
           | None \<Rightarrow> (buffer, 0)))"

text \<open>\<open>InputTable::applied\<close>; the text is split by the segmenter.\<close>

definition applied :: "segmenter \<Rightarrow> InputTable \<Rightarrow> ustr \<Rightarrow> InputPiece \<Rightarrow> ustr" where
  "applied graphemes t current_text added =
     concat (fst (apply_table t (graphemes current_text) added))"

text \<open>\<open>InputTable::possible_nexts\<close>.\<close>

fun key_text :: "KeyElement list \<Rightarrow> ustr option" where
  "key_text [] = Some []"
| "key_text (KPiece (Character v) # ks) = map_option ((@) v) (key_text ks)"
| "key_text (_ # ks) = None"

fun value_text :: "ValueElement list \<Rightarrow> ustr option" where
  "value_text [] = Some []"
| "value_text (VCharacter v # vs) = map_option ((@) v) (value_text vs)"
| "value_text (VAny # vs) = None"

definition possible_nexts :: "InputTable \<Rightarrow> ustr \<Rightarrow> ustr list" where
  "possible_nexts t pre =
     List.map_filter
       (\<lambda>m. case key_text (map_key m) of
              None \<Rightarrow> None
            | Some k \<Rightarrow>
                if pre = [] \<or> length pre \<ge> length k \<or> \<not> prefix pre k then None
                else map_option to_katakana (value_text (map_value m)))
       (mappings t)"

section \<open>Construction keeps one rule per key, the last one given\<close>

text \<open>The well-formedness of a table: one rule per key, and \<open>max_key_count\<close> bounds every key.\<close>

definition table_ok :: "InputTable \<Rightarrow> bool" where
  "table_ok t \<longleftrightarrow>
     distinct (map map_key (mappings t)) \<and>
     (\<forall>m \<in> set (mappings t). length (map_key m) \<le> max_key_count t)"

abbreviation rule_pairs :: "Mapping list \<Rightarrow> (KeyElement list \<times> ValueElement list) list" where
  "rule_pairs ms \<equiv> map (\<lambda>m. (map_key m, map_value m)) ms"

lemma map_of_upsert: "map_of (rule_pairs (upsert_mapping k v ms)) = (map_of (rule_pairs ms))(k \<mapsto> v)"
  by (induction k v ms rule: upsert_mapping.induct) auto

lemma keys_upsert: "set (map map_key (upsert_mapping k v ms)) = insert k (set (map map_key ms))"
  by (induction k v ms rule: upsert_mapping.induct) auto

lemma distinct_upsert:
  "distinct (map map_key ms) \<Longrightarrow> distinct (map map_key (upsert_mapping k v ms))"
proof (induction k v ms rule: upsert_mapping.induct)
  case (2 k v m ms)
  then show ?case using keys_upsert [of k v ms] by auto
qed simp

lemma map_of_upserts:
  "map_of (rule_pairs (fold (\<lambda>(k, v). upsert_mapping k v) es ms)) =
   map_of (rule_pairs ms) ++ map_of (rev es)"
proof (induction es arbitrary: ms)
  case (Cons e es)
  then show ?case by (cases e) (auto simp: map_of_upsert map_add_def fun_eq_iff split: option.splits)
qed simp

lemma distinct_upserts:
  "distinct (map map_key ms) \<Longrightarrow>
   distinct (map map_key (fold (\<lambda>(k, v). upsert_mapping k v) es ms))"
  by (induction es arbitrary: ms) (auto simp: distinct_upsert)

lemma fold_max_upper: "x \<in> set (a # xs) \<Longrightarrow> x \<le> fold max xs (a :: nat)"
proof (induction xs arbitrary: a x)
  case (Cons y ys)
  have "max y a \<le> fold max ys (max y a)" by (rule Cons.IH) simp
  then show ?case using Cons.prems Cons.IH [of x "max y a"] by auto
qed simp

lemma new_table_ok: "table_ok (new_table es)"
  by (auto simp: table_ok_def new_table_def Let_def distinct_upserts intro!: fold_max_upper)

lemma new_table_lookup: "map_of (table_entries (new_table es)) = map_of (rev es)"
  by (simp add: table_entries_def new_table_def Let_def map_of_upserts)

lemma new_table_entries_distinct: "distinct (map fst (table_entries (new_table es)))"
  using new_table_ok [of es] by (simp add: table_ok_def table_entries_def comp_def)

text \<open>An entry list without duplicate keys is kept as it is, in its order.\<close>

lemma upsert_fresh:
  "k \<notin> set (map map_key ms) \<Longrightarrow> upsert_mapping k v ms = ms @ [\<lparr>map_key = k, map_value = v\<rparr>]"
  by (induction k v ms rule: upsert_mapping.induct) auto

lemma upserts_distinct:
  "distinct (map fst es) \<Longrightarrow> set (map fst es) \<inter> set (map map_key ms) = {} \<Longrightarrow>
   fold (\<lambda>(k, v). upsert_mapping k v) es ms = ms @ map (\<lambda>(k, v). \<lparr>map_key = k, map_value = v\<rparr>) es"
proof (induction es arbitrary: ms)
  case (Cons e es)
  obtain k v where e: "e = (k, v)" by (cases e)
  with Cons.prems have "upsert_mapping k v ms = ms @ [\<lparr>map_key = k, map_value = v\<rparr>]"
    by (intro upsert_fresh) auto
  with Cons.prems Cons.IH [of "ms @ [\<lparr>map_key = k, map_value = v\<rparr>]"] e
  show ?case by auto
qed simp

lemma table_entries_new_distinct: "distinct (map fst es) \<Longrightarrow> table_entries (new_table es) = es"
  using upserts_distinct [of es "[]"]
  by (simp add: table_entries_def new_table_def Let_def comp_def case_prod_unfold)

section \<open>The choice among matching rules\<close>

text \<open>The key by which \<^const>\<open>compare_matches\<close> compares: a lexicographic order.\<close>

definition match_rank :: "Match \<Rightarrow> int \<times> int \<times> int \<times> int" where
  "match_rank m =
     (int (depth m), - int (wildcard_count m), int (exact_key_count m), - int (mapping_index m))"

interpretation match_order: keyed_comparison compare_matches match_rank
  by unfold_locales (auto simp: compare_matches_def cmp_def match_rank_def)

lemma map_filter_mem: "y \<in> set (List.map_filter f xs) \<longleftrightarrow> (\<exists>x \<in> set xs. f x = Some y)"
  by (force simp: List.map_filter_def)

lemma match_mapping_SomeD:
  "match_mapping t i m buffer added = Some mt \<Longrightarrow>
   mapping_index mt = i \<and> depth mt = length (map_key m) \<and> map_key m \<noteq> []"
  by (auto simp: match_mapping_def split: if_splits option.splits)

lemma all_matches_mem:
  "mt \<in> set (all_matches t buffer added) \<longleftrightarrow>
   (\<exists>i < length (mappings t). match_mapping t i (mappings t ! i) buffer added = Some mt)"
proof -
  have "mt \<in> set (all_matches t buffer added) \<longleftrightarrow>
      (\<exists>x \<in> set (enumerate 0 (mappings t)). match_mapping t (fst x) (snd x) buffer added = Some mt)"
    by (simp add: all_matches_def map_filter_mem case_prod_unfold)
  moreover have "set (enumerate 0 (mappings t)) = (\<lambda>i. (i, mappings t ! i)) ` {..<length (mappings t)}"
    by (force simp: enumerate_eq_zip set_zip)
  ultimately show ?thesis by auto
qed

lemma all_matches_index_inj:
  assumes "x \<in> set (all_matches t buffer added)" and "y \<in> set (all_matches t buffer added)"
    and "mapping_index x = mapping_index y"
  shows "x = y"
proof -
  from assms(1) obtain i where i: "match_mapping t i (mappings t ! i) buffer added = Some x"
    by (auto simp: all_matches_mem)
  from assms(2) obtain j where j: "match_mapping t j (mappings t ! j) buffer added = Some y"
    by (auto simp: all_matches_mem)
  from i j assms(3) have "i = j" by (auto dest!: match_mapping_SomeD)
  with i j show ?thesis by simp
qed

lemma match_rank_inj:
  "x \<in> set (all_matches t b a) \<Longrightarrow> y \<in> set (all_matches t b a) \<Longrightarrow>
   match_rank x = match_rank y \<Longrightarrow> x = y"
  by (rule all_matches_index_inj) (auto simp: match_rank_def)

section \<open>A rule reads no further left than it deletes\<close>

lemma piece_at_append: "d \<le> length b \<Longrightarrow> piece_at (q @ b) added d = piece_at b added d"
  by (auto simp: piece_at_def nth_append)

lemma match_key_append:
  "d + length ks \<le> Suc (length b) \<Longrightarrow>
   match_key (q @ b) added d ks rw wc ek = match_key b added d ks rw wc ek"
  by (induction ks arbitrary: d rw wc ek)
     (simp_all add: piece_at_append split: option.split KeyElement.split prod.split)

lemma match_key_short:
  "ks \<noteq> [] \<Longrightarrow> Suc (length b) < d + length ks \<Longrightarrow> match_key b added d ks rw wc ek = None"
proof (induction ks arbitrary: d rw wc ek)
  case (Cons k ks)
  show ?case
  proof (cases "ks = []")
    case True
    with Cons.prems have "piece_at b added d = None" by (auto simp: piece_at_def)
    then show ?thesis by simp
  next
    case False
    with Cons have "\<And>rw wc ek. match_key b added (Suc d) ks rw wc ek = None" by simp
    then show ?thesis by (simp split: option.split KeyElement.split prod.split)
  qed
qed simp

lemma match_mapping_append:
  "match_mapping t i m b added =
   (case match_mapping t i m (q @ b) added of
      Some mt \<Rightarrow> if depth mt \<le> Suc (length b) then Some mt else None
    | None \<Rightarrow> None)"
proof (cases "length (map_key m) \<le> Suc (length b)")
  case True
  then show ?thesis
    by (auto simp: match_mapping_def match_key_append split: option.splits)
next
  case False
  then have "map_key m \<noteq> [] \<Longrightarrow> match_key b added 0 (rev (map_key m)) None 0 0 = None"
    by (intro match_key_short) auto
  with False show ?thesis by (auto simp: match_mapping_def split: option.splits)
qed

lemma match_depth_le: "match_mapping t i m b added = Some mt \<Longrightarrow> depth mt \<le> Suc (length b)"
  by (subst (asm) match_mapping_append [of t i m b added "[]"]) (auto split: option.splits if_splits)

lemma map_filter_filter:
  assumes "\<And>x. g x = (case f x of Some y \<Rightarrow> if P y then Some y else None | None \<Rightarrow> None)"
  shows "List.map_filter g xs = filter P (List.map_filter f xs)"
  by (induction xs) (auto simp: List.map_filter_def assms split: option.splits)

lemma all_matches_append:
  "all_matches t b added = filter (\<lambda>mt. depth mt \<le> Suc (length b)) (all_matches t (q @ b) added)"
  unfolding all_matches_def
proof (rule map_filter_filter)
  fix x :: "nat \<times> Mapping"
  show "(case x of (i, m) \<Rightarrow> match_mapping t i m b added) =
    (case case x of (i, m) \<Rightarrow> match_mapping t i m (q @ b) added of
       Some y \<Rightarrow> if depth y \<le> Suc (length b) then Some y else None | None \<Rightarrow> None)"
    by (cases x) (simp only: prod.case, rule match_mapping_append)
qed

section \<open>Suffix rewriting: the contract of a table towards the composing text\<close>

text \<open>
  What a client may assume of a rewriting step on a buffer: it deletes at most the buffer, keeps
  everything before the deleted part, and its effect depends only on the part of the buffer it
  deletes.
\<close>

locale suffix_rewriter =
  fixes step :: "'p \<Rightarrow> 'g list \<Rightarrow> 'g list \<times> nat"
  assumes deletes_le: "snd (step p b) \<le> length b"
    and keeps: "take (length b - snd (step p b)) (fst (step p b)) =
                take (length b - snd (step p b)) b"
    and local_step: "snd (step p (q @ b)) \<le> length b \<Longrightarrow>
                     step p (q @ b) = (q @ fst (step p b), snd (step p b))"
begin

lemma step_from_empty: "snd (step p b) = 0 \<Longrightarrow> step p b = (b @ fst (step p []), 0)"
  using local_step [of p b "[]"] deletes_le [of p "[]"] by simp

lemma kept_length: "length b - snd (step p b) \<le> length (fst (step p b))"
  using arg_cong [OF keeps [of b p], of length] by simp

end

definition best_match :: "InputTable \<Rightarrow> grapheme list \<Rightarrow> InputPiece \<Rightarrow> Match option" where
  "best_match t b a = max_by compare_matches (all_matches t b a)"

lemma best_match_depth: "best_match t b a = Some mt \<Longrightarrow> depth mt \<le> Suc (length b)"
  unfolding best_match_def
  by (drule match_order.max_by_mem) (auto simp: all_matches_mem dest: match_depth_le)

lemma best_match_local:
  assumes "best_match t (q @ b) a = Some mt" and "depth mt \<le> Suc (length b)"
  shows "best_match t b a = Some mt"
  unfolding best_match_def all_matches_append [of t b a q]
  using assms unfolding best_match_def
  by (intro match_order.max_by_filter)
     (auto intro: match_rank_inj dest: match_order.max_by_mem)

lemma best_match_None_local: "best_match t (q @ b) a = None \<Longrightarrow> best_match t b a = None"
  by (simp add: best_match_def all_matches_append [of t b a q])

lemma apply_table_best:
  "apply_table t b a =
     (case best_match t b a of
        Some mt \<Rightarrow> (take (length b - (depth mt - 1)) b @
                    concat (map (push_value (resolved_wildcard mt))
                              (map_value (mappings t ! mapping_index mt))), depth mt - 1)
      | None \<Rightarrow> (b @ (case displayed a of Some v \<Rightarrow> [v] | None \<Rightarrow> []), 0))"
  by (simp add: apply_table_def best_match_def Let_def split: option.split)

lemma apply_table_local:
  assumes "snd (apply_table t (q @ b) a) \<le> length b"
  shows "apply_table t (q @ b) a = (q @ fst (apply_table t b a), snd (apply_table t b a))"
proof (cases "best_match t (q @ b) a")
  case None
  then show ?thesis using best_match_None_local [OF None] by (simp add: apply_table_best)
next
  case (Some mt)
  with assms have "depth mt \<le> Suc (length b)" by (simp add: apply_table_best)
  with Some have "best_match t b a = Some mt" by (rule best_match_local)
  with Some assms show ?thesis by (simp add: apply_table_best)
qed

interpretation table_rewriter: suffix_rewriter "\<lambda>p b. apply_table t b p" for t
proof unfold_locales
  fix p q b
  show "snd (apply_table t b p) \<le> length b"
    by (auto simp: apply_table_best split: option.split dest: best_match_depth)
  show "take (length b - snd (apply_table t b p)) (fst (apply_table t b p)) =
        take (length b - snd (apply_table t b p)) b"
    by (auto simp: apply_table_best split: option.split)
  show "snd (apply_table t (q @ b) p) \<le> length b \<Longrightarrow>
        apply_table t (q @ b) p = (q @ fst (apply_table t b p), snd (apply_table t b p))"
    by (rule apply_table_local)
qed

lemma all_matches_empty_table [simp]: "all_matches empty_table b a = []"
  by (simp add: all_matches_def empty_table_def List.map_filter_def)

lemma apply_empty_table [simp]:
  "apply_table empty_table b a = (b @ (case displayed a of Some v \<Rightarrow> [v] | None \<Rightarrow> []), 0)"
  by (simp add: apply_table_best best_match_def)

section \<open>What a rule matches\<close>

text \<open>
  The declarative reading of a rule: the pieces it looks at are the last graphemes of the buffer
  followed by the added piece; all wildcards stand for one and the same piece.
\<close>

definition pieces_read :: "grapheme list \<Rightarrow> InputPiece \<Rightarrow> nat \<Rightarrow> InputPiece list" where
  "pieces_read buffer added n = map Character (drop (length buffer - (n - 1)) buffer) @ [added]"

fun element_fits :: "InputPiece \<Rightarrow> KeyElement \<Rightarrow> InputPiece \<Rightarrow> bool" where
  "element_fits w KAny p \<longleftrightarrow> p = w"
| "element_fits w (KPiece e) p \<longleftrightarrow> fst (piece_matches e p 0)"

definition rule_fits :: "Mapping \<Rightarrow> grapheme list \<Rightarrow> InputPiece \<Rightarrow> InputPiece \<Rightarrow> bool" where
  "rule_fits m buffer added w \<longleftrightarrow>
     map_key m \<noteq> [] \<and> length (map_key m) \<le> Suc (length buffer) \<and>
     list_all2 (element_fits w) (map_key m) (pieces_read buffer added (length (map_key m)))"

fun key_weight :: "KeyElement \<Rightarrow> nat \<times> nat" where
  "key_weight KAny = (1, 0)"
| "key_weight (KPiece (Key _ _ _)) = (0, 1)"
| "key_weight (KPiece _) = (0, 0)"

definition wildcards :: "KeyElement list \<Rightarrow> nat" where
  "wildcards ks = sum_list (map (fst \<circ> key_weight) ks)"

definition exact_keys :: "KeyElement list \<Rightarrow> nat" where
  "exact_keys ks = sum_list (map (snd \<circ> key_weight) ks)"

lemma weight_simps [simp]:
  "wildcards [] = 0" "wildcards (k # ks) = fst (key_weight k) + wildcards ks"
  "exact_keys [] = 0" "exact_keys (k # ks) = snd (key_weight k) + exact_keys ks"
  "wildcards (rev ks) = wildcards ks" "exact_keys (rev ks) = exact_keys ks"
  by (simp_all add: wildcards_def exact_keys_def flip: rev_map)

lemma piece_matches_fst: "fst (piece_matches e p n) = fst (piece_matches e p 0)"
  by (cases e; cases p) simp_all

lemma piece_matches_snd:
  "fst (piece_matches e p 0) \<Longrightarrow> snd (piece_matches e p n) = n + snd (key_weight (KPiece e))"
  by (cases e; cases p) (simp_all split: if_splits)

lemmas piece_matches_count = piece_matches_fst piece_matches_snd

lemma key_weight_piece [simp]: "fst (key_weight (KPiece e)) = 0"
  by (cases e) auto

fun fits_from :: "grapheme list \<Rightarrow> InputPiece \<Rightarrow> InputPiece \<Rightarrow> nat \<Rightarrow> KeyElement list \<Rightarrow> bool" where
  "fits_from b a w d [] \<longleftrightarrow> True"
| "fits_from b a w d (k # ks) \<longleftrightarrow>
     (case piece_at b a d of None \<Rightarrow> False | Some p \<Rightarrow> element_fits w k p \<and> fits_from b a w (Suc d) ks)"

lemma match_key_bound:
  "match_key b a d ks (Some w) wc ek =
   (if fits_from b a w d ks then Some (Some w, wc + wildcards ks, ek + exact_keys ks) else None)"
proof (induction ks arbitrary: d wc ek)
  case (Cons k ks)
  show ?case
  proof (cases k)
    case (KPiece e)
    show ?thesis
      using piece_matches_count [of e _ ek]
      by (auto simp: KPiece Cons.IH split: option.split prod.split)
         (metis add.assoc fst_conv snd_conv)+
  qed (auto simp: Cons.IH split: option.split)
qed simp

lemma match_key_free:
  "fits_from b a w d ks \<Longrightarrow>
   match_key b a d ks None wc ek =
     Some (if wildcards ks = 0 then None else Some w, wc + wildcards ks, ek + exact_keys ks)"
proof (induction ks arbitrary: d wc ek)
  case (Cons k ks)
  show ?case
  proof (cases k)
    case (KPiece e)
    with Cons.prems show ?thesis
      using piece_matches_count [of e _ ek]
      by (auto simp: Cons.IH split: option.splits prod.split)
         (metis add.assoc fst_conv snd_conv)+
  qed (use Cons.prems in \<open>auto simp: match_key_bound split: option.splits\<close>)
qed simp

lemma match_key_fits: "match_key b a d ks None wc ek = Some r \<Longrightarrow> \<exists>w. fits_from b a w d ks"
proof (induction ks arbitrary: d wc ek)
  case (Cons k ks)
  show ?case
  proof (cases k)
    case (KPiece e)
    with Cons.prems Cons.IH show ?thesis
      using piece_matches_count(1) [of e _ ek]
      by (auto split: option.splits prod.splits if_splits) (metis fst_conv)+
  qed (use Cons.prems in \<open>auto simp: match_key_bound split: option.splits if_splits\<close>)
qed simp

lemma fits_from_list_all2:
  "ks \<noteq> [] \<Longrightarrow> d + length ks \<le> Suc (length b) \<Longrightarrow>
   fits_from b a w d ks \<longleftrightarrow>
   list_all2 (element_fits w) ks (map (\<lambda>i. the (piece_at b a i)) [d..<d + length ks])"
proof (induction ks arbitrary: d)
  case (Cons k ks)
  have "[d..<d + length (k # ks)] = d # [Suc d..<Suc d + length ks]" by (simp add: upt_rec)
  moreover have "piece_at b a d \<noteq> None" using Cons.prems by (simp add: piece_at_def)
  ultimately show ?case using Cons by (cases "ks = []") (auto simp del: upt_Suc)
qed simp

lemma fits_from_short: "ks \<noteq> [] \<Longrightarrow> fits_from b a w d ks \<Longrightarrow> d + length ks \<le> Suc (length b)"
proof (induction ks arbitrary: d)
  case (Cons k ks)
  from Cons.prems(2) have "fits_from b a w (Suc d) ks" and "d \<le> length b"
    by (auto simp: piece_at_def split: option.splits if_splits)
  with Cons.IH [of "Suc d"] show ?case by (cases "ks = []") auto
qed simp

lemma rev_pieces_read:
  assumes "0 < n" and "n \<le> Suc (length b)"
  shows "rev (pieces_read b a n) = map (\<lambda>i. the (piece_at b a i)) [0..<n]"
  using assms
  by (intro nth_equalityI) (auto simp: pieces_read_def piece_at_def nth_append rev_nth)

lemma fits_from_rule_fits:
  assumes "map_key m \<noteq> []"
  shows "fits_from b a w 0 (rev (map_key m)) \<longleftrightarrow> rule_fits m b a w"
proof (cases "length (map_key m) \<le> Suc (length b)")
  case True
  with assms have "fits_from b a w 0 (rev (map_key m)) \<longleftrightarrow>
      list_all2 (element_fits w) (rev (map_key m)) (rev (pieces_read b a (length (map_key m))))"
    using fits_from_list_all2 [of "rev (map_key m)" 0 b a w] by (simp add: rev_pieces_read)
  with assms True show ?thesis by (simp only: list_all2_rev) (simp add: rule_fits_def)
next
  case False
  with assms fits_from_short [of "rev (map_key m)" b a w 0] show ?thesis by (auto simp: rule_fits_def)
qed

lemma match_mapping_fits:
  assumes "length (map_key m) \<le> max_key_count t" and "rule_fits m b a w"
  shows "match_mapping t i m b a =
         Some \<lparr>mapping_index = i, depth = length (map_key m), wildcard_count = wildcards (map_key m),
               exact_key_count = exact_keys (map_key m),
               resolved_wildcard = (if wildcards (map_key m) = 0 then None else Some w)\<rparr>"
proof -
  have "map_key m \<noteq> []" using assms(2) by (simp add: rule_fits_def)
  then have "fits_from b a w 0 (rev (map_key m))" using assms(2) by (simp add: fits_from_rule_fits)
  from match_key_free [OF this, of 0 0] \<open>map_key m \<noteq> []\<close> assms(1) show ?thesis
    by (simp add: match_mapping_def)
qed

lemma match_mapping_rule_fits: "match_mapping t i m b a = Some mt \<Longrightarrow> \<exists>w. rule_fits m b a w"
  using match_key_fits [of b a 0 "rev (map_key m)" 0 0]
  by (auto simp: match_mapping_def fits_from_rule_fits split: if_splits option.splits)

section \<open>The rule that is applied\<close>

text \<open>The static rank of a rule: longer keys, then fewer wildcards, then more exact keys, then order.\<close>

definition rule_rank :: "InputTable \<Rightarrow> nat \<Rightarrow> int \<times> int \<times> int \<times> int" where
  "rule_rank t i =
     (let k = map_key (mappings t ! i) in (int (length k), - int (wildcards k), int (exact_keys k), - int i))"

definition match_of :: "InputTable \<Rightarrow> nat \<Rightarrow> InputPiece \<Rightarrow> Match" where
  "match_of t i w =
     \<lparr>mapping_index = i, depth = length (map_key (mappings t ! i)),
      wildcard_count = wildcards (map_key (mappings t ! i)),
      exact_key_count = exact_keys (map_key (mappings t ! i)),
      resolved_wildcard = (if wildcards (map_key (mappings t ! i)) = 0 then None else Some w)\<rparr>"

lemma match_rank_of [simp]: "match_rank (match_of t i w) = rule_rank t i"
  by (simp add: match_rank_def match_of_def rule_rank_def Let_def)

text \<open>
  C1. Applying a well-formed table rewrites with the matching rule of the highest rank: the rule
  with the longest key, among those the fewest wildcards, then the most exact keys, then the
  earliest in the table. The graphemes its key covers before the added piece are replaced by the
  rule's value, in which the wildcard is the piece all wildcards of the key stand for.
\<close>

theorem apply_best_rule:
  assumes "table_ok t" and "i < length (mappings t)" and "rule_fits (mappings t ! i) b a w"
  shows "\<exists>j w. j < length (mappings t) \<and> rule_fits (mappings t ! j) b a w \<and>
     (\<forall>k w'. k < length (mappings t) \<and> rule_fits (mappings t ! k) b a w' \<longrightarrow> rule_rank t k \<le> rule_rank t j) \<and>
     apply_table t b a =
       (take (length b - (length (map_key (mappings t ! j)) - 1)) b @
          concat (map (push_value (if wildcards (map_key (mappings t ! j)) = 0 then None else Some w))
                    (map_value (mappings t ! j))),
        length (map_key (mappings t ! j)) - 1)"
proof -
  have ok: "length (map_key (mappings t ! k)) \<le> max_key_count t" if "k < length (mappings t)" for k
    using assms(1) that by (auto simp: table_ok_def)
  have mem: "match_of t k w' \<in> set (all_matches t b a)"
    if "k < length (mappings t)" "rule_fits (mappings t ! k) b a w'" for k w'
    using that match_mapping_fits [OF ok that(2), of k] by (auto simp: all_matches_mem match_of_def Let_def intro!: exI [of _ k])
  with assms(2,3) obtain best where best: "best_match t b a = Some best"
    by (cases "best_match t b a") (auto simp: best_match_def)
  then have "best \<in> set (all_matches t b a)" unfolding best_match_def by (rule match_order.max_by_mem)
  then obtain j where j: "j < length (mappings t)" "match_mapping t j (mappings t ! j) b a = Some best"
    by (auto simp: all_matches_mem)
  then obtain v where v: "rule_fits (mappings t ! j) b a v" by (blast dest: match_mapping_rule_fits)
  have bj: "best = match_of t j v"
    using match_mapping_fits [OF ok [OF j(1)] v, of j] j(2) by (simp add: match_of_def)
  have "rule_rank t k \<le> rule_rank t j"
    if "k < length (mappings t)" "rule_fits (mappings t ! k) b a w'" for k w'
    using match_order.max_by_ge [OF best [unfolded best_match_def] mem [OF that]] by (simp add: bj)
  moreover have "apply_table t b a =
       (take (length b - (length (map_key (mappings t ! j)) - 1)) b @
          concat (map (push_value (if wildcards (map_key (mappings t ! j)) = 0 then None else Some v))
                    (map_value (mappings t ! j))),
        length (map_key (mappings t ! j)) - 1)"
    by (simp add: apply_table_best best bj match_of_def)
  ultimately show ?thesis using j(1) v by blast
qed

text \<open>A small table with a wildcard rule, for concrete inputs: \<open>n\<close> before anything, \<open>nn\<close> and \<open>na\<close>.\<close>

definition sample_table :: InputTable where
  "sample_table =
     new_table
       [([KPiece (Character [0x6E]), KAny], [VCharacter [0x3093], VAny]),
        ([KPiece (Character [0x6E]), KPiece (Character [0x6E])], [VCharacter [0x3093]]),
        ([KPiece (Character [0x6E]), KPiece (Character [0x61])], [VCharacter [0x306A]]),
        ([KPiece (Character [0x61])], [VCharacter [0x3042]]),
        ([KPiece (Character [0x6E]), KPiece CompositionSeparator], [VCharacter [0x3093]])]"

theorem apply_best_rule_witness:
  "rule_fits (mappings sample_table ! 3) [[0x6E]] (Character [0x61]) CompositionSeparator \<and>
   (\<exists>j w. j < length (mappings sample_table) \<and>
     rule_fits (mappings sample_table ! j) [[0x6E]] (Character [0x61]) w \<and>
     (\<forall>k w'. k < length (mappings sample_table) \<and>
        rule_fits (mappings sample_table ! k) [[0x6E]] (Character [0x61]) w' \<longrightarrow>
        rule_rank sample_table k \<le> rule_rank sample_table j)) \<and>
   apply_table sample_table [[0x6E]] (Character [0x61]) = ([[0x306A]], 1)"
proof -
  have ok: "table_ok sample_table" unfolding sample_table_def by (rule new_table_ok)
  have i: "3 < length (mappings sample_table)"
    and f: "rule_fits (mappings sample_table ! 3) [[0x6E]] (Character [0x61]) CompositionSeparator"
    and a: "apply_table sample_table [[0x6E]] (Character [0x61]) = ([[0x306A]], 1)"
    by code_simp+
  from apply_best_rule [OF ok i f] f a show ?thesis by blast
qed

end
