(* ===== verification/Composing.thy ===== *)
theory Composing
  imports Input_Table
begin

text \<open>
  \<open>crates/converter/src/input/composing.rs\<close>: the composing text. The state is the history of
  input elements, the surface (a list of graphemes) and a cursor into the surface. Editing inside
  the surface first finds or makes an input position for a surface position
  (\<open>force_input_cursor\<close>, which freezes a run of input into plain characters) and then edits the
  history; the surface is the history rewritten by the input tables.

  The data types and operations are below; the correctness of the operations is in
  \<open>Composing_Edit\<close>. A stack \<open>Vec\<close> that is only pushed and popped at its end (\<open>boundaries\<close>) is
  modelled with its end as the head of the list.
\<close>

section \<open>Styles and tables\<close>

datatype InputTableId =
    EmptyId
  | DefaultRomanToKana
  | DefaultAzik
  | DefaultKanaJis
  | DefaultKanaUs
  | Named ustr

datatype InputStyle = Direct | RomanToKana | Mapped InputTableId

text \<open>\<open>InputStyle::frozen\<close>.\<close>

definition frozen :: InputStyle where
  "frozen = Mapped EmptyId"

record InputTableRegistry =
  empty_input :: InputTable
  roman_to_kana :: InputTable
  azik :: InputTable
  kana_jis :: InputTable
  kana_us :: InputTable
  custom :: "ustr \<rightharpoonup> InputTable"

definition register :: "ustr \<Rightarrow> InputTable \<Rightarrow> InputTableRegistry \<Rightarrow> InputTableRegistry" where
  "register name table tables = tables\<lparr>custom := (custom tables)(name \<mapsto> table)\<rparr>"

definition contains_table :: "InputTableRegistry \<Rightarrow> ustr \<Rightarrow> bool" where
  "contains_table tables name \<longleftrightarrow> custom tables name \<noteq> None"

fun resolve :: "InputTableRegistry \<Rightarrow> InputStyle \<Rightarrow> InputTable option" where
  "resolve tables Direct = None"
| "resolve tables RomanToKana = Some (roman_to_kana tables)"
| "resolve tables (Mapped EmptyId) = Some (empty_input tables)"
| "resolve tables (Mapped DefaultRomanToKana) = Some (roman_to_kana tables)"
| "resolve tables (Mapped DefaultAzik) = Some (azik tables)"
| "resolve tables (Mapped DefaultKanaJis) = Some (kana_jis tables)"
| "resolve tables (Mapped DefaultKanaUs) = Some (kana_us tables)"
| "resolve tables (Mapped (Named name)) =
     Some (case custom tables name of Some t \<Rightarrow> t | None \<Rightarrow> empty_input tables)"

section \<open>State\<close>

record InputElement =
  piece :: InputPiece
  input_style :: InputStyle

definition character_element :: "grapheme \<Rightarrow> InputStyle \<Rightarrow> InputElement" where
  "character_element v style = \<lparr>piece = Character v, input_style = style\<rparr>"

definition frozen_separator :: InputElement where
  "frozen_separator = \<lparr>piece = CompositionSeparator, input_style = frozen\<rparr>"

datatype ComposingCount =
    InputCount nat
  | SurfaceCount nat
  | Composite ComposingCount ComposingCount

record ComposingText =
  cursor :: nat
  input :: "InputElement list"
  surface :: "grapheme list"

record IndexPair =
  ip_input :: nat
  ip_surface :: nat

record SurfaceSegment =
  seg_graphemes :: "grapheme list"
  seg_style :: InputStyle

record DifferenceSuffix =
  deleted_input :: nat
  added_input :: nat
  deleted_surface :: nat
  added_surface :: nat

definition new_composing :: ComposingText where
  "new_composing = \<lparr>cursor = 0, input = [], surface = []\<rparr>"

definition surface_text :: "ComposingText \<Rightarrow> ustr" where
  "surface_text c = concat (surface c)"

definition surface_before_cursor :: "ComposingText \<Rightarrow> ustr" where
  "surface_before_cursor c = concat (take (cursor c) (surface c))"

definition is_empty_composing :: "ComposingText \<Rightarrow> bool" where
  "is_empty_composing c \<longleftrightarrow> surface c = []"

definition is_at_end :: "ComposingText \<Rightarrow> bool" where
  "is_at_end c \<longleftrightarrow> cursor c = length (surface c)"

definition is_at_start :: "ComposingText \<Rightarrow> bool" where
  "is_at_start c \<longleftrightarrow> cursor c = 0"

section \<open>Rewriting the history\<close>

definition update_surface ::
  "InputTableRegistry \<Rightarrow> grapheme list \<Rightarrow> InputPiece \<Rightarrow> InputStyle \<Rightarrow> grapheme list \<times> nat" where
  "update_surface tables surf p style =
     (case resolve tables style of
        Some table \<Rightarrow> apply_table table surf p
      | None \<Rightarrow> (case displayed p of Some v \<Rightarrow> (surf @ [v], 0) | None \<Rightarrow> (surf, 0)))"

text \<open>The new segments and the number of deleted graphemes.\<close>

definition update_segments ::
  "InputTableRegistry \<Rightarrow> SurfaceSegment list \<Rightarrow> InputElement \<Rightarrow> SurfaceSegment list \<times> nat" where
  "update_segments tables segments e =
     (if segments \<noteq> [] \<and> seg_style (last segments) = input_style e
      then (let (g, d) = update_surface tables (seg_graphemes (last segments)) (piece e) (input_style e)
            in (butlast segments @ [(last segments)\<lparr>seg_graphemes := g\<rparr>], d))
      else if segments = [] \<and> piece e = CompositionSeparator then (segments, 0)
      else (let (g, d) = update_surface tables [] (piece e) (input_style e)
            in (segments @ [\<lparr>seg_graphemes = g, seg_style = input_style e\<rparr>], 0)))"

definition run_segments ::
  "InputTableRegistry \<Rightarrow> SurfaceSegment list \<Rightarrow> InputElement list \<Rightarrow> SurfaceSegment list" where
  "run_segments tables segments es = fold (\<lambda>e segs. fst (update_segments tables segs e)) es segments"

definition segments_text_of :: "SurfaceSegment list \<Rightarrow> grapheme list" where
  "segments_text_of segments = concat (map seg_graphemes segments)"

definition convert_elements :: "InputTableRegistry \<Rightarrow> InputElement list \<Rightarrow> grapheme list" where
  "convert_elements tables es = segments_text_of (run_segments tables [] es)"

section \<open>Independent boundaries\<close>

definition tail_len :: "SurfaceSegment list \<Rightarrow> nat" where
  "tail_len segments = (if segments = [] then 0 else length (seg_graphemes (last segments)))"

fun pop_boundaries :: "nat \<Rightarrow> IndexPair list \<Rightarrow> IndexPair list" where
  "pop_boundaries kept [] = []"
| "pop_boundaries kept (b # bs) = (if ip_surface b \<le> kept then b # bs else pop_boundaries kept bs)"

fun boundary_loop ::
  "InputTableRegistry \<Rightarrow> nat \<Rightarrow> InputElement list \<Rightarrow> IndexPair list \<Rightarrow> SurfaceSegment list \<Rightarrow> nat \<Rightarrow>
   IndexPair list" where
  "boundary_loop tables i [] boundaries converting converted_len = boundaries"
| "boundary_loop tables i (e # es) boundaries converting converted_len =
     (let previous_segment_count = length converting;
          previous_tail_len = tail_len converting;
          (converting', deleted) = update_segments tables converting e;
          previous_converted_len = converted_len;
          current_tail_len = tail_len converting';
          converted_len' =
            (if length converting' = previous_segment_count
             then converted_len - previous_tail_len + current_tail_len
             else converted_len + current_tail_len)
      in boundary_loop tables (Suc i) es
           (\<lparr>ip_input = Suc i, ip_surface = converted_len'\<rparr> #
              pop_boundaries (previous_converted_len - deleted) boundaries)
           converting' converted_len')"

text \<open>The boundaries as the code stacks them, the last one at the head.\<close>

definition independent_boundaries :: "InputTableRegistry \<Rightarrow> ComposingText \<Rightarrow> IndexPair list" where
  "independent_boundaries tables c =
     boundary_loop tables 0 (input c) [\<lparr>ip_input = 0, ip_surface = 0\<rparr>] [] 0"

definition has_identity_mapping :: "ComposingText \<Rightarrow> bool" where
  "has_identity_mapping c \<longleftrightarrow>
     length (input c) = length (surface c) \<and>
     list_all (\<lambda>e. input_style e = Direct \<and> (case piece e of Character _ \<Rightarrow> True | _ \<Rightarrow> False)) (input c)"

text \<open>
  \<open>input_to_surface_map\<close>, a \<open>HashMap\<close> collected from pairs: for equal input indices the last
  pair would win; the input indices of the stack are distinct.
\<close>

definition input_to_surface_map :: "InputTableRegistry \<Rightarrow> ComposingText \<Rightarrow> (nat \<rightharpoonup> nat)" where
  "input_to_surface_map tables c =
     (if has_identity_mapping c
      then map_of (map (\<lambda>index. (index, index)) [0..<Suc (length (input c))])
      else map_of (map (\<lambda>b. (ip_input b, ip_surface b)) (independent_boundaries tables c)))"

text \<open>The \<open>while let Some(start) = boundaries.pop()\<close> loop of \<open>force_input_cursor\<close>.\<close>

datatype Located = At nat | Between IndexPair IndexPair

fun locate :: "nat \<Rightarrow> IndexPair list \<Rightarrow> IndexPair \<Rightarrow> Located" where
  "locate target [] segment_end = Between \<lparr>ip_input = 0, ip_surface = 0\<rparr> segment_end"
| "locate target (start # boundaries) segment_end =
     (if ip_surface start = target then At (ip_input start)
      else if ip_surface start < target then Between start segment_end
      else locate target boundaries
             (if ip_surface start < ip_surface segment_end then start else segment_end))"

definition force_input_cursor ::
  "InputTableRegistry \<Rightarrow> nat \<Rightarrow> ComposingText \<Rightarrow> ComposingText \<times> nat" where
  "force_input_cursor tables target c =
     (if target = 0 then (c, 0)
      else if target \<ge> length (surface c) then (c, length (input c))
      else (case locate target (independent_boundaries tables c)
                   \<lparr>ip_input = length (input c), ip_surface = length (surface c)\<rparr> of
              At i \<Rightarrow> (c, i)
            | Between start end \<Rightarrow>
                (c\<lparr>input := splice_range (ip_input start) (ip_input end)
                     (map (\<lambda>v. character_element v frozen)
                        (take (ip_surface end - ip_surface start) (drop (ip_surface start) (surface c))))
                     (input c)\<rparr>,
                 target - ip_surface start + ip_input start)))"

section \<open>Editing\<close>

text \<open>
  \<open>ComposingText::insert\<close>. The check for a frozen separator before the input position is shared
  with \<open>delete_backward\<close>.
\<close>

definition separator_before :: "nat \<Rightarrow> InputElement list \<Rightarrow> bool" where
  "separator_before i es \<longleftrightarrow>
     i > 0 \<and> piece (es ! (i - 1)) = CompositionSeparator \<and> input_style (es ! (i - 1)) = frozen"

definition remove_at :: "nat \<Rightarrow> 'a list \<Rightarrow> 'a list" where
  "remove_at i xs = take i xs @ drop (Suc i) xs"

definition insert_elements ::
  "InputTableRegistry \<Rightarrow> InputElement list \<Rightarrow> ComposingText \<Rightarrow> ComposingText" where
  "insert_elements tables elements c =
     (if elements = [] then c
      else
        (let (c1, input_cursor) = force_input_cursor tables (cursor c) c;
             elements = (if \<not> is_at_end c1 then elements @ [frozen_separator] else elements);
             (input1, input_cursor) =
               (if separator_before input_cursor (input c1)
                then (remove_at (input_cursor - 1) (input c1), input_cursor - 1)
                else (input c1, input_cursor));
             inserted_count = length elements;
             input2 = splice_range input_cursor input_cursor elements input1;
             old_prefix = take (cursor c) (surface c1);
             new_prefix = convert_elements tables (take (input_cursor + inserted_count) input2);
             common = common_prefix_len old_prefix new_prefix;
             deleted = length old_prefix - common;
             added = length new_prefix - common
         in \<lparr>cursor = cursor c - deleted + added,
             input = input2,
             surface = new_prefix @ drop (cursor c) (surface c1)\<rparr>))"

definition insert_str ::
  "segmenter \<Rightarrow> InputTableRegistry \<Rightarrow> ustr \<Rightarrow> InputStyle \<Rightarrow> ComposingText \<Rightarrow> ComposingText" where
  "insert_str graphemes tables value style c =
     insert_elements tables (map (\<lambda>v. character_element v style) (graphemes value)) c"

definition delete_backward :: "InputTableRegistry \<Rightarrow> nat \<Rightarrow> ComposingText \<Rightarrow> ComposingText" where
  "delete_backward tables count c =
     (let count = min count (cursor c)
      in if count = 0 then c
         else
           (let (c1, target) = force_input_cursor tables (cursor c - count) c;
                (c2, current) = force_input_cursor tables (cursor c) c1;
                (input1, target, current) =
                  (if separator_before target (input c2)
                   then (remove_at (target - 1) (input c2), target - 1, current - 1)
                   else (input c2, target, current));
                input2 =
                  (if target = 0 \<or> current = length input1
                   then splice_range target current [] input1
                   else splice_range target current [frozen_separator] input1)
            in \<lparr>cursor = cursor c - count, input = input2,
                surface = convert_elements tables input2\<rparr>))"

definition delete_forward :: "InputTableRegistry \<Rightarrow> nat \<Rightarrow> ComposingText \<Rightarrow> ComposingText" where
  "delete_forward tables count c =
     (let count = min count (length (surface c) - cursor c)
      in if count = 0 then c
         else delete_backward tables count (c\<lparr>cursor := cursor c + count\<rparr>))"

text \<open>\<open>move_cursor\<close>: the new text and the distance moved.\<close>

definition clamp :: "int \<Rightarrow> int \<Rightarrow> int \<Rightarrow> int" where
  "clamp lo hi x = max lo (min hi x)"

definition move_cursor :: "int \<Rightarrow> ComposingText \<Rightarrow> ComposingText \<times> int" where
  "move_cursor count c =
     (let minimum = - int (cursor c);
          maximum = int (length (surface c) - cursor c);
          moved = clamp minimum maximum count
      in (c\<lparr>cursor := nat (int (cursor c) + moved)\<rparr>, moved))"

text \<open>
  \<open>complete_prefix\<close>. The subtraction of the two surface lengths in the \<open>Input\<close> case is unchecked
  in the source; \<^const>\<open>None\<close> is the arithmetic overflow it panics with (builds without overflow
  checks wrap instead).
\<close>

fun complete_prefix ::
  "InputTableRegistry \<Rightarrow> ComposingCount \<Rightarrow> ComposingText \<Rightarrow> ComposingText option" where
  "complete_prefix tables (InputCount count) c =
     (let count = min count (length (input c));
          input1 = drop count (input c);
          new_surface = convert_elements tables input1
      in if length (surface c) < length new_surface then None
         else
           (let cursor_delta = length (surface c) - length new_surface;
                cur = cursor c - cursor_delta
            in Some \<lparr>cursor = (if cur = 0 then length new_surface else cur),
                     input = input1, surface = new_surface\<rparr>))"
| "complete_prefix tables (SurfaceCount count) c =
     (let count = min count (length (surface c));
          (c1, input_index) = force_input_cursor tables count c;
          new_surface = drop count (surface c1);
          cur = cursor c - count
      in Some \<lparr>cursor = (if cur = 0 then length new_surface else cur),
               input = drop input_index (input c1), surface = new_surface\<rparr>)"
| "complete_prefix tables (Composite l r) c =
     (case complete_prefix tables l c of
        None \<Rightarrow> None
      | Some c1 \<Rightarrow> complete_prefix tables r c1)"

text \<open>
  The same operation as the release build runs it: without overflow checks the difference wraps
  around to a number above every cursor, and the saturating subtraction that follows gives 0.
\<close>

fun complete_wrapping ::
  "InputTableRegistry \<Rightarrow> ComposingCount \<Rightarrow> ComposingText \<Rightarrow> ComposingText" where
  "complete_wrapping tables (InputCount count) c =
     (let count = min count (length (input c));
          input1 = drop count (input c);
          new_surface = convert_elements tables input1;
          cur = (if length (surface c) < length new_surface then 0
                 else cursor c - (length (surface c) - length new_surface))
      in \<lparr>cursor = (if cur = 0 then length new_surface else cur), input = input1, surface = new_surface\<rparr>)"
| "complete_wrapping tables (SurfaceCount count) c =
     (let count = min count (length (surface c));
          (c1, input_index) = force_input_cursor tables count c;
          new_surface = drop count (surface c1);
          cur = cursor c - count
      in \<lparr>cursor = (if cur = 0 then length new_surface else cur),
          input = drop input_index (input c1), surface = new_surface\<rparr>)"
| "complete_wrapping tables (Composite l r) c =
     complete_wrapping tables r (complete_wrapping tables l c)"

definition prefix_to_cursor :: "InputTableRegistry \<Rightarrow> ComposingText \<Rightarrow> ComposingText" where
  "prefix_to_cursor tables c =
     (let (c1, input_index) = force_input_cursor tables (cursor c) c
      in c1\<lparr>input := take input_index (input c1), surface := take (cursor c) (surface c1)\<rparr>)"

definition difference_suffix :: "ComposingText \<Rightarrow> ComposingText \<Rightarrow> DifferenceSuffix" where
  "difference_suffix c previous =
     (let input_common = common_prefix_len (input c) (input previous);
          surface_common = common_prefix_len (surface c) (surface previous)
      in \<lparr>deleted_input = length (input previous) - input_common,
          added_input = length (input c) - input_common,
          deleted_surface = length (surface previous) - surface_common,
          added_surface = length (surface c) - surface_common\<rparr>)"

definition input_has_suffix :: "ComposingText \<Rightarrow> ComposingText \<Rightarrow> bool" where
  "input_has_suffix c suff \<longleftrightarrow> suffix (input suff) (input c)"

definition stop_composing :: "ComposingText \<Rightarrow> ComposingText" where
  "stop_composing c = new_composing"

end
