(* ===== verification/F32.thy ===== *)
theory F32
  imports Prelude "HOL-Library.Word" "HOL-Library.Log_Nat"
begin

text \<open>
  The \<open>f32\<close> of the source, as its bit pattern. Scores are added, compared with \<open><\<close> and sorted with
  \<open>f32::total_cmp\<close>; the learning files store the four bytes of the pattern.

  Every finite value is an integer multiple of \<open>2 ^ - 149\<close> (its \<open>units\<close>), so that addition is
  exact addition of integers followed by rounding to nearest, ties to even. A NaN result is the
  canonical NaN: the language leaves its payload open.
\<close>

type_synonym f32 = "32 word"

definition f32_sign :: "f32 \<Rightarrow> bool" where
  "f32_sign x \<longleftrightarrow> uint x \<ge> 2 ^ 31"

text \<open>The pattern without the sign bit: exponent field above fraction field.\<close>

definition magnitude :: "f32 \<Rightarrow> int" where
  "magnitude x = uint x mod 2 ^ 31"

definition f32_is_nan :: "f32 \<Rightarrow> bool" where
  "f32_is_nan x \<longleftrightarrow> magnitude x > 255 * 2 ^ 23"

definition f32_is_infinite :: "f32 \<Rightarrow> bool" where
  "f32_is_infinite x \<longleftrightarrow> magnitude x = 255 * 2 ^ 23"

definition f32_nan :: f32 where
  "f32_nan = 0x7FC00000"

definition f32_zero :: f32 where
  "f32_zero = 0"

text \<open>The absolute value in units of \<open>2 ^ - 149\<close>, from the magnitude.\<close>

definition units_of_magnitude :: "int \<Rightarrow> int" where
  "units_of_magnitude m =
     (let e = m div 2 ^ 23; f = m mod 2 ^ 23
      in if e = 0 then f else (2 ^ 23 + f) * 2 ^ nat (e - 1))"

definition units :: "f32 \<Rightarrow> int" where
  "units x = (if f32_sign x then - units_of_magnitude (magnitude x) else units_of_magnitude (magnitude x))"

text \<open>The magnitude nearest to a number of units; the largest finite one and above round to infinity.\<close>

definition magnitude_of_units :: "int \<Rightarrow> int" where
  "magnitude_of_units a =
     (if a < 2 ^ 24 then a
      else
        (let s = bitlen a - 24;
             q = a div 2 ^ nat s; r = a mod 2 ^ nat s; half = 2 ^ nat (s - 1);
             q' = (if r > half \<or> r = half \<and> odd q then q + 1 else q)
         in min (s * 2 ^ 23 + q') (255 * 2 ^ 23)))"

definition with_sign :: "bool \<Rightarrow> int \<Rightarrow> f32" where
  "with_sign s m = word_of_int (if s then 2 ^ 31 + m else m)"

definition f32_add :: "f32 \<Rightarrow> f32 \<Rightarrow> f32" where
  "f32_add a b =
     (if f32_is_nan a \<or> f32_is_nan b then f32_nan
      else if f32_is_infinite a then (if f32_is_infinite b \<and> f32_sign a \<noteq> f32_sign b then f32_nan else a)
      else if f32_is_infinite b then b
      else
        (let k = units a + units b
         in if k = 0 then with_sign (f32_sign a \<and> f32_sign b) 0
            else with_sign (k < 0) (magnitude_of_units \<bar>k\<bar>)))"

text \<open>The numeric order: \<open><\<close> on \<open>f32\<close> is false as soon as one side is NaN; both zeros are equal.\<close>

definition f32_key :: "f32 \<Rightarrow> int" where
  "f32_key x = (if f32_sign x then - magnitude x else magnitude x)"

definition f32_lt :: "f32 \<Rightarrow> f32 \<Rightarrow> bool" where
  "f32_lt a b \<longleftrightarrow> \<not> f32_is_nan a \<and> \<not> f32_is_nan b \<and> f32_key a < f32_key b"

text \<open>\<open>f32::min\<close>: a NaN argument is ignored.\<close>

definition f32_min :: "f32 \<Rightarrow> f32 \<Rightarrow> f32" where
  "f32_min a b =
     (if f32_is_nan a then b else if f32_is_nan b then a else if f32_lt b a then b else a)"

text \<open>
  \<open>f32::total_cmp\<close> compares the patterns as signed integers after flipping the lower bits of the
  negative ones: a negative pattern ranks at minus one minus its magnitude.
\<close>

definition total_key :: "f32 \<Rightarrow> int" where
  "total_key x = (if f32_sign x then - 1 - magnitude x else magnitude x)"

definition total_cmp :: "f32 \<Rightarrow> f32 \<Rightarrow> Ordering" where
  "total_cmp a b = cmp (total_key a) (total_key b)"

section \<open>Laws\<close>

interpretation total_order: keyed_comparison total_cmp total_key
  by unfold_locales (simp add: total_cmp_def)

lemma magnitude_bounds: "0 \<le> magnitude x" "magnitude x < 2 ^ 31"
  by (simp_all add: magnitude_def)

lemma uint_sign_magnitude: "uint x = (if f32_sign x then 2 ^ 31 + magnitude x else magnitude x)"
proof -
  have "0 \<le> uint x" and "uint x < 2 ^ 32" using uint_lt2p [of x] by simp_all
  moreover have "2 ^ 31 \<le> uint x \<Longrightarrow> uint x mod 2 ^ 31 = uint x - 2 ^ 31"
    using calculation mod_pos_pos_trivial [of "uint x - 2 ^ 31" "2 ^ 31"] by (simp add: minus_mod_self2)
  ultimately show ?thesis by (auto simp: f32_sign_def magnitude_def)
qed

lemma f32_eqI: "f32_sign x = f32_sign y \<Longrightarrow> magnitude x = magnitude y \<Longrightarrow> x = y"
  by (metis uint_sign_magnitude unsigned_word_eqI)

text \<open>\<open>total_cmp\<close> is a linear order on the patterns: it tells apart any two.\<close>

lemma total_key_inj: "total_key x = total_key y \<longleftrightarrow> x = y"
  using magnitude_bounds [of x] magnitude_bounds [of y]
  by (auto simp: total_key_def split: if_splits intro: f32_eqI)

lemma with_sign_parts:
  assumes "0 \<le> m" and "m < 2 ^ 31"
  shows "f32_sign (with_sign s m) = s" and "magnitude (with_sign s m) = m"
proof -
  have "uint (with_sign s m) = (if s then 2 ^ 31 + m else m)"
    using assms by (auto simp: with_sign_def uint_word_of_int)
  with assms show "f32_sign (with_sign s m) = s" and "magnitude (with_sign s m) = m"
    by (auto simp: f32_sign_def magnitude_def split: if_splits)
qed

lemma f32_add_commute: "f32_add a b = f32_add b a"
proof -
  have "f32_is_infinite a \<Longrightarrow> f32_is_infinite b \<Longrightarrow> f32_sign a = f32_sign b \<Longrightarrow> a = b"
    by (rule f32_eqI) (simp_all add: f32_is_infinite_def)
  then show ?thesis by (auto simp: f32_add_def Let_def add.commute)
qed

text \<open>Rounding a value that is representable gives it back: \<open>f32\<close> arithmetic is exact where it can be.\<close>

lemma bitlen_24:
  assumes "2 ^ 23 \<le> q" and "q < 2 ^ 24"
  shows "bitlen q = 24"
proof -
  have "2 ^ nat (bitlen q - 1) \<le> q" and "q < 2 ^ nat (bitlen q)"
    using bitlen_bounds [of q] assms(1) by auto
  with assms have "(2::int) ^ nat (bitlen q - 1) < 2 ^ 24" and "(2::int) ^ 23 < 2 ^ nat (bitlen q)"
    by linarith+
  then have "nat (bitlen q - 1) < 24" and "23 < nat (bitlen q)"
    using power_strict_increasing_iff [of "2::int" "nat (bitlen q - 1)" 24]
      power_strict_increasing_iff [of "2::int" 23 "nat (bitlen q)"] by auto
  then show ?thesis by linarith
qed

lemma magnitude_of_shifted:
  assumes "2 ^ 23 \<le> q" and "q < 2 ^ 24" and "0 < n"
  shows "magnitude_of_units (q * 2 ^ n) = min (int n * 2 ^ 23 + q) (255 * 2 ^ 23)"
proof -
  have "2 ^ 23 * 2 ^ 1 \<le> q * 2 ^ n" using assms by (intro mult_mono power_increasing) auto
  then have "\<not> q * 2 ^ n < 2 ^ 24" by simp
  moreover have "bitlen (q * 2 ^ n) - 24 = int n"
    using assms bitlen_24 [OF assms(1,2)] by simp
  ultimately show ?thesis
    unfolding magnitude_of_units_def by (simp only: if_False Let_def) simp
qed

lemma magnitude_round_trip:
  assumes "0 \<le> m" and "m < 255 * 2 ^ 23"
  shows "magnitude_of_units (units_of_magnitude m) = m"
proof -
  define e where "e = m div 2 ^ 23"
  define f where "f = m mod 2 ^ 23"
  have m: "m = e * 2 ^ 23 + f" and f: "0 \<le> f" "f < 2 ^ 23" by (simp_all add: e_def f_def)
  have e: "0 \<le> e" using assms(1) by (simp add: e_def pos_imp_zdiv_nonneg_iff)
  have u: "units_of_magnitude m = (if e = 0 then f else (2 ^ 23 + f) * 2 ^ nat (e - 1))"
    by (simp add: units_of_magnitude_def Let_def e_def f_def)
  consider "e = 0" | "e = 1" | "e \<ge> 2" using e by linarith
  then show ?thesis
  proof cases
    case 3
    then have "magnitude_of_units (units_of_magnitude m) =
        min (int (nat (e - 1)) * 2 ^ 23 + (2 ^ 23 + f)) (255 * 2 ^ 23)"
      using f magnitude_of_shifted [of "2 ^ 23 + f" "nat (e - 1)"] unfolding u by simp
    also have "int (nat (e - 1)) * 2 ^ 23 + (2 ^ 23 + f) = m" using 3 m by (simp add: algebra_simps)
    finally show ?thesis using assms by simp
  qed (use m f u in \<open>simp_all add: magnitude_of_units_def\<close>)
qed

end
