(* ===== verification/Candidate.thy ===== *)
theory Candidate
  imports Composing F32
begin

text \<open>
  Dictionary entries (\<open>crates/converter/src/dictionary/entry.rs\<close>), candidates and lattice ranges
  (the data types at the top of \<open>crates/converter/src/lattice.rs\<close>) and the width conversions at its
  end. The segmenter and the expansion of templates (which reads the clock) are arguments.
\<close>

unbundle bit_operations_syntax

section \<open>Dictionary entries\<close>

type_synonym DictionaryMetadata = "32 word"

definition LEARNED :: DictionaryMetadata where
  "LEARNED = push_bit 0 1"

definition USER_DICTIONARY :: DictionaryMetadata where
  "USER_DICTIONARY = push_bit 1 1"

definition metadata_contains :: "DictionaryMetadata \<Rightarrow> DictionaryMetadata \<Rightarrow> bool" where
  "metadata_contains self v \<longleftrightarrow> self AND v = v"

definition metadata_insert :: "DictionaryMetadata \<Rightarrow> DictionaryMetadata \<Rightarrow> DictionaryMetadata" where
  "metadata_insert self v = self OR v"

record DictionaryEntry =
  word :: ustr
  ruby :: ustr
  left_id :: "16 word"
  right_id :: "16 word"
  meaning_id :: "16 word"
  base_value :: f32
  adjustment :: f32
  metadata :: DictionaryMetadata

text \<open>\<open>DictionaryEntry::value\<close> and \<open>DictionaryEntry::adjusted\<close>.\<close>

definition entry_value :: "DictionaryEntry \<Rightarrow> f32" where
  "entry_value e = f32_min f32_zero (f32_add (base_value e) (adjustment e))"

definition entry_adjusted :: "f32 \<Rightarrow> DictionaryEntry \<Rightarrow> DictionaryEntry" where
  "entry_adjusted v e = e\<lparr>adjustment := f32_add (adjustment e) v\<rparr>"

section \<open>Lattice ranges\<close>

datatype LatticeRange = InputRange nat nat | SurfaceRange nat nat

text \<open>\<open>LatticeRange::count\<close>; the ranges of a lattice have their ends in order.\<close>

fun range_count :: "LatticeRange \<Rightarrow> ComposingCount" where
  "range_count (InputRange f t) = InputCount (t - f)"
| "range_count (SurfaceRange f t) = SurfaceCount (t - f)"

fun combine_counts :: "ComposingCount \<Rightarrow> ComposingCount \<Rightarrow> ComposingCount" where
  "combine_counts (InputCount l) (InputCount r) = InputCount (l + r)"
| "combine_counts (SurfaceCount l) (SurfaceCount r) = SurfaceCount (l + r)"
| "combine_counts l r = Composite l r"

text \<open>\<open>Iterator::reduce\<close>.\<close>

fun reduce :: "('a \<Rightarrow> 'a \<Rightarrow> 'a) \<Rightarrow> 'a list \<Rightarrow> 'a option" where
  "reduce f [] = None"
| "reduce f (x # xs) = Some (foldl f x xs)"

section \<open>Candidates\<close>

record FirstClause =
  fc_text :: ustr
  fc_value :: f32
  fc_meaning_id :: nat
  fc_ranges :: "LatticeRange list"
  fc_entry_end :: nat

record Candidate =
  cand_text :: ustr
  cand_value :: f32
  composing_count :: ComposingCount
  last_meaning_id :: "16 word"
  entries :: "DictionaryEntry list"
  ruby_count :: nat
  is_learning_target :: bool
  is_typo_correction :: bool
  first_clause :: "FirstClause option"

definition ruby_total :: "segmenter \<Rightarrow> DictionaryEntry list \<Rightarrow> nat" where
  "ruby_total graphemes es = sum_list (map (\<lambda>e. length (graphemes (ruby e))) es)"

text \<open>
  \<open>Candidate::first_clause_candidate\<close>. The slice \<open>entries[..=entry_end]\<close> is written as a prefix: the
  lattice only builds clauses whose end is an entry of the candidate. \<open>u16::try_from\<close> saturates.
\<close>

definition first_clause_candidate :: "segmenter \<Rightarrow> Candidate \<Rightarrow> Candidate option" where
  "first_clause_candidate graphemes c =
     (case first_clause c of
        None \<Rightarrow> None
      | Some fc \<Rightarrow>
          if fc_entry_end fc + 1 = length (entries c) then None
          else
            (let es = take (Suc (fc_entry_end fc)) (entries c)
             in Some
               \<lparr>cand_text = fc_text fc, cand_value = fc_value fc,
                composing_count =
                  (case reduce combine_counts (map range_count (fc_ranges fc)) of
                     Some k \<Rightarrow> k | None \<Rightarrow> InputCount 0),
                last_meaning_id = (if fc_meaning_id fc < 2 ^ 16 then of_nat (fc_meaning_id fc) else - 1),
                entries = es, ruby_count = ruby_total graphemes es,
                is_learning_target = is_learning_target c, is_typo_correction = is_typo_correction c,
                first_clause = None\<rparr>))"

definition single :: "segmenter \<Rightarrow> ustr \<Rightarrow> f32 \<Rightarrow> ComposingCount \<Rightarrow> 16 word \<Rightarrow> DictionaryEntry list \<Rightarrow> Candidate" where
  "single graphemes text v count mid es =
     \<lparr>cand_text = text, cand_value = v, composing_count = count, last_meaning_id = mid, entries = es,
      ruby_count = ruby_total graphemes es, is_learning_target = True, is_typo_correction = False,
      first_clause = None\<rparr>"

definition with_learning_target :: "bool \<Rightarrow> Candidate \<Rightarrow> Candidate" where
  "with_learning_target v c = c\<lparr>is_learning_target := v\<rparr>"

definition expand_candidate :: "(ustr \<Rightarrow> ustr) \<Rightarrow> Candidate \<Rightarrow> Candidate" where
  "expand_candidate expand_templates c =
     (let expanded = expand_templates (cand_text c)
      in if expanded \<noteq> cand_text c then c\<lparr>cand_text := expanded, is_learning_target := False\<rparr> else c)"

text \<open>\<open>candidate_reading\<close> and \<open>candidate_dictionary_text\<close> of \<open>session.rs\<close>.\<close>

definition candidate_reading :: "Candidate \<Rightarrow> ustr" where
  "candidate_reading c = concat (map ruby (entries c))"

definition candidate_dictionary_text :: "Candidate \<Rightarrow> ustr" where
  "candidate_dictionary_text c =
     (let text = concat (map word (entries c)) in if text = [] then cand_text c else text)"

record ConversionContext =
  ctx_right_id :: "16 word"
  ctx_meaning_id :: "16 word"

definition default_context :: ConversionContext where
  "default_context = \<lparr>ctx_right_id = 0, ctx_meaning_id = 500\<rparr>"

section \<open>Full and half width\<close>

definition to_full_width :: "ustr \<Rightarrow> ustr" where
  "to_full_width s =
     map (\<lambda>c. if c = 0x20 then 0x3000 else if c = 0xA5 then 0xFFE5
              else if 0x21 \<le> c \<and> c \<le> 0x7E then c + 0xFEE0 else c) s"

definition half_width_table :: "(uchar \<times> ustr) list" where
  "half_width_table =
   [
    (0x3002, [0xFF61]), (0x300C, [0xFF62]), (0x300D, [0xFF63]), (0x3001, [0xFF64]),
    (0x30FB, [0xFF65]), (0x30F2, [0xFF66]), (0x30A1, [0xFF67]), (0x30A3, [0xFF68]),
    (0x30A5, [0xFF69]), (0x30A7, [0xFF6A]), (0x30A9, [0xFF6B]), (0x30E3, [0xFF6C]),
    (0x30E5, [0xFF6D]), (0x30E7, [0xFF6E]), (0x30C3, [0xFF6F]), (0x30FC, [0xFF70]),
    (0x30A2, [0xFF71]), (0x30A4, [0xFF72]), (0x30A6, [0xFF73]), (0x30A8, [0xFF74]),
    (0x30AA, [0xFF75]), (0x30AB, [0xFF76]), (0x30AD, [0xFF77]), (0x30AF, [0xFF78]),
    (0x30B1, [0xFF79]), (0x30B3, [0xFF7A]), (0x30B5, [0xFF7B]), (0x30B7, [0xFF7C]),
    (0x30B9, [0xFF7D]), (0x30BB, [0xFF7E]), (0x30BD, [0xFF7F]), (0x30BF, [0xFF80]),
    (0x30C1, [0xFF81]), (0x30C4, [0xFF82]), (0x30C6, [0xFF83]), (0x30C8, [0xFF84]),
    (0x30CA, [0xFF85]), (0x30CB, [0xFF86]), (0x30CC, [0xFF87]), (0x30CD, [0xFF88]),
    (0x30CE, [0xFF89]), (0x30CF, [0xFF8A]), (0x30D2, [0xFF8B]), (0x30D5, [0xFF8C]),
    (0x30D8, [0xFF8D]), (0x30DB, [0xFF8E]), (0x30DE, [0xFF8F]), (0x30DF, [0xFF90]),
    (0x30E0, [0xFF91]), (0x30E1, [0xFF92]), (0x30E2, [0xFF93]), (0x30E4, [0xFF94]),
    (0x30E6, [0xFF95]), (0x30E8, [0xFF96]), (0x30E9, [0xFF97]), (0x30EA, [0xFF98]),
    (0x30EB, [0xFF99]), (0x30EC, [0xFF9A]), (0x30ED, [0xFF9B]), (0x30EF, [0xFF9C]),
    (0x30F3, [0xFF9D]), (0x30F4, [0xFF73, 0xFF9E]), (0x30AC, [0xFF76, 0xFF9E]),
    (0x30AE, [0xFF77, 0xFF9E]), (0x30B0, [0xFF78, 0xFF9E]), (0x30B2, [0xFF79, 0xFF9E]),
    (0x30B4, [0xFF7A, 0xFF9E]), (0x30B6, [0xFF7B, 0xFF9E]), (0x30B8, [0xFF7C, 0xFF9E]),
    (0x30BA, [0xFF7D, 0xFF9E]), (0x30BC, [0xFF7E, 0xFF9E]), (0x30BE, [0xFF7F, 0xFF9E]),
    (0x30C0, [0xFF80, 0xFF9E]), (0x30C2, [0xFF81, 0xFF9E]), (0x30C5, [0xFF82, 0xFF9E]),
    (0x30C7, [0xFF83, 0xFF9E]), (0x30C9, [0xFF84, 0xFF9E]), (0x30D0, [0xFF8A, 0xFF9E]),
    (0x30D3, [0xFF8B, 0xFF9E]), (0x30D6, [0xFF8C, 0xFF9E]), (0x30D9, [0xFF8D, 0xFF9E]),
    (0x30DC, [0xFF8E, 0xFF9E]), (0x30D1, [0xFF8A, 0xFF9F]), (0x30D4, [0xFF8B, 0xFF9F]),
    (0x30D7, [0xFF8C, 0xFF9F]), (0x30DA, [0xFF8D, 0xFF9F]), (0x30DD, [0xFF8E, 0xFF9F])
   ]"

definition to_half_width :: "ustr \<Rightarrow> ustr" where
  "to_half_width s =
     concat (map (\<lambda>c. case map_of half_width_table c of Some m \<Rightarrow> m | None \<Rightarrow> [c]) s)"

section \<open>Lemmas\<close>

text \<open>Ranges of one kind add up to a plain count.\<close>

lemma reduce_surface_counts:
  "reduce combine_counts (map SurfaceCount (n # ns)) = Some (SurfaceCount (n + sum_list ns))"
proof -
  have "foldl combine_counts (SurfaceCount n) (map SurfaceCount ns) = SurfaceCount (n + sum_list ns)"
    by (induction ns arbitrary: n) (simp_all add: add.assoc)
  then show ?thesis by simp
qed

lemma entry_value_not_positive:
  assumes "\<not> f32_is_nan (f32_add (base_value e) (adjustment e))"
  shows "f32_key (entry_value e) \<le> 0"
  using assms by (auto simp: entry_value_def f32_min_def f32_lt_def f32_zero_def f32_is_nan_def f32_key_def magnitude_def)

lemma metadata_insert_contains: "metadata_contains (metadata_insert m v) v"
  by (simp add: metadata_contains_def metadata_insert_def and.commute bit.conj_disj_distrib)

end
