(* ===== verification/Session.thy ===== *)
theory Session
  imports Candidate
begin

text \<open>
  \<open>crates/converter/src/session.rs\<close>: a conversion session. It owns the composing text, the
  candidates of the last request and the caches, and assembles the result of a request from what
  the converter proposes.

  What the session calls and this theory does not define is a field of \<open>Services\<close>: the segmenter
  (third party), the lattice conversions of \<open>lattice.rs\<close>, the special and foreign candidates, the
  expansion of templates (they read the clock) and the text generation of the language model. Every
  lemma holds for any such functions. The learning memory is shared between sessions; its state
  \<open>'m\<close> is passed explicitly and a session only records whether it is attached to it.

  A fallible operation returns the updated session together with the result, since the code keeps
  what it changed before an error. Error values are the message the daemon sends.
\<close>

section \<open>Requests and results\<close>

datatype PredictionMode = Automatic | Manual | Disabled

datatype TextTransform = Hiragana | Katakana | HalfWidthKatakana | FullWidthRoman | HalfWidthRoman

datatype TypoCorrectionMode = TypoEnabled | TypoAutomatic | TypoDisabled

datatype KeyboardLanguage = NoLanguage | Japanese | EnglishUs | Greek

record RequestOptions =
  n_best :: nat
  japanese_prediction :: PredictionMode
  full_width_roman :: bool
  half_width_kana :: bool
  version_string :: "ustr option"
  typo_correction :: TypoCorrectionMode
  foreign_prediction :: PredictionMode
  keyboard_language :: KeyboardLanguage
  typography :: bool

definition default_options :: RequestOptions where
  "default_options =
     \<lparr>n_best = 10, japanese_prediction = Disabled, full_width_roman = True, half_width_kana = False,
      version_string = None, typo_correction = TypoAutomatic, foreign_prediction = Disabled,
      keyboard_language = NoLanguage, typography = False\<rparr>"

record ConversionResult =
  main_results :: "Candidate list"
  prediction_results :: "Candidate list"
  english_prediction_results :: "Candidate list"
  first_clause_results :: "Candidate list"

datatype SelectionError = CandidateOutOfRange nat nat | LearningFailed ustr

section \<open>Services\<close>

record 'm Services =
  sv_graphemes :: segmenter
  sv_convert :: "'m option \<Rightarrow> ComposingText \<Rightarrow> nat \<Rightarrow> ConversionContext \<Rightarrow> DictionaryEntry list \<Rightarrow> bool \<Rightarrow>
    ustr + Candidate list"
  sv_predict :: "'m option \<Rightarrow> ComposingText \<Rightarrow> nat \<Rightarrow> ConversionContext \<Rightarrow> DictionaryEntry list \<Rightarrow>
    ustr + Candidate list"
  sv_words :: "'m option \<Rightarrow> ComposingText \<Rightarrow> ustr + Candidate list"
  sv_representations :: "ComposingText \<Rightarrow> bool \<Rightarrow> bool \<Rightarrow> Candidate list"
  sv_special :: "ComposingText \<Rightarrow> ustr option \<Rightarrow> Candidate list"
  sv_typographical :: "ComposingText \<Rightarrow> Candidate list"
  sv_foreign :: "ComposingText \<Rightarrow> KeyboardLanguage \<Rightarrow> Candidate list"
  sv_expand_templates :: "ustr \<Rightarrow> ustr"
  sv_validate :: "'m \<Rightarrow> ustr option"
  sv_commit :: "'m \<Rightarrow> 'm \<times> (ustr + bool)"
  sv_learn :: "'m \<Rightarrow> Candidate \<Rightarrow> 'm \<times> ustr option"
  sv_forget :: "'m \<Rightarrow> Candidate \<Rightarrow> 'm \<times> ustr option"
  sv_reset_memory :: "'m \<Rightarrow> 'm \<times> ustr option"

section \<open>State\<close>

record StablePredictionCache =
  st_original_surface :: ustr
  st_suffix_count :: nat
  st_candidates :: "Candidate list"

record UserDictionary =
  ud_entries :: "DictionaryEntry list"
  ud_shortcuts :: "DictionaryEntry list"

record ZenzV3Config =
  v3_profile :: "ustr option"
  v3_topic :: "ustr option"
  v3_style :: "ustr option"
  v3_preference :: "ustr option"
  v3_left_context :: "ustr option"
  v3_right_context :: "ustr option"
  v3_max_left_context_length :: "nat option"
  v3_max_right_context_length :: "nat option"
  v3_enable_alignment_separator :: bool

record ZenzV2Config =
  v2_profile :: "ustr option"
  v2_left_context :: "ustr option"
  v2_max_left_context_length :: "nat option"

datatype ZenzVersionConfig = V2 ZenzV2Config | V3 ZenzV3Config

record ZenzPredictionCache =
  zc_left_context :: ustr
  zc_version :: ZenzVersionConfig
  zc_input_style :: InputStyle
  zc_original_surface :: ustr
  zc_suffix_count :: nat
  zc_predicted_text :: ustr

record ConversionSession =
  composing :: ComposingText
  full_composing :: "ComposingText option"
  candidates :: "Candidate list"
  conv_context :: ConversionContext
  last_committed :: "Candidate option"
  user_dictionary :: "DictionaryEntry list"
  user_shortcuts :: "DictionaryEntry list"
  file_user_dictionary :: UserDictionary
  learning_attached :: bool
  stable_prediction_cache :: "StablePredictionCache option"
  zenz_prediction_cache :: "ZenzPredictionCache option"
  accepted_prediction_of :: "Candidate option"
  foreign_attached :: bool

definition new_session :: ConversionSession where
  "new_session =
     \<lparr>composing = new_composing, full_composing = None, candidates = [], conv_context = default_context,
      last_committed = None, user_dictionary = [], user_shortcuts = [],
      file_user_dictionary = \<lparr>ud_entries = [], ud_shortcuts = []\<rparr>, learning_attached = False,
      stable_prediction_cache = None, zenz_prediction_cache = None, accepted_prediction_of = None,
      foreign_attached = False\<rparr>"

text \<open>The memory a converter of the session sees.\<close>

definition session_memory :: "'m \<Rightarrow> ConversionSession \<Rightarrow> 'm option" where
  "session_memory mem s = (if learning_attached s then Some mem else None)"

section \<open>Accepted predictions and segments\<close>

definition zenz_model_composing :: "ConversionSession \<Rightarrow> ComposingText" where
  "zenz_model_composing s = (case full_composing s of Some c \<Rightarrow> c | None \<Rightarrow> composing s)"

definition accepted_prediction :: "ConversionSession \<Rightarrow> Candidate option" where
  "accepted_prediction s =
     (case accepted_prediction_of s of
        Some c \<Rightarrow> if prefix (candidate_reading c) (to_katakana (surface_text (composing s))) then Some c else None
      | None \<Rightarrow> None)"

definition retain_prediction_prefix :: "ConversionSession \<Rightarrow> ConversionSession" where
  "retain_prediction_prefix s =
     (if accepted_prediction s = None then s\<lparr>accepted_prediction_of := None\<rparr> else s)"

definition begin_segment_request :: "InputTableRegistry \<Rightarrow> ConversionSession \<Rightarrow> ConversionSession" where
  "begin_segment_request tables s =
     (if full_composing s \<noteq> None \<or> is_at_end (composing s) then s
      else retain_prediction_prefix
             (s\<lparr>full_composing := Some (composing s), composing := prefix_to_cursor tables (composing s)\<rparr>))"

definition end_segment_request :: "ConversionSession \<Rightarrow> ConversionSession" where
  "end_segment_request s =
     (case full_composing s of
        Some full \<Rightarrow> s\<lparr>composing := full, full_composing := None\<rparr>
      | None \<Rightarrow> s)"

record PredictiveInputSource =
  base_surface :: ustr
  possible_nexts_of :: "ustr list"
  dropped_suffix_count :: nat

definition is_ascii_alphabetic :: "uchar \<Rightarrow> bool" where
  "is_ascii_alphabetic c \<longleftrightarrow> 0x41 \<le> c \<and> c \<le> 0x5A \<or> 0x61 \<le> c \<and> c \<le> 0x7A"

text \<open>The trailing letters are ASCII, so the byte offset \<open>suffix_start\<close> is an offset in scalars.\<close>

definition predictive_input_source :: "ComposingText \<Rightarrow> InputTableRegistry \<Rightarrow> PredictiveInputSource" where
  "predictive_input_source c tables =
     (let surf = surface_text c;
          whole = \<lparr>base_surface = surf, possible_nexts_of = [], dropped_suffix_count = 0\<rparr>
      in if input c = [] then whole
         else
           (let style = input_style (last (input c))
            in if style = Direct then whole
               else
                 (let suffix_count = length (takeWhile is_ascii_alphabetic (rev surf));
                      suffix_start = length surf - suffix_count
                  in if suffix_count = 0 then whole
                     else
                       (let nexts = (case resolve tables style of
                                       Some table \<Rightarrow> possible_nexts table (drop suffix_start surf)
                                     | None \<Rightarrow> [])
                        in if nexts = [] then whole
                           else \<lparr>base_surface = take suffix_start surf, possible_nexts_of = nexts,
                                 dropped_suffix_count = suffix_count\<rparr>))))"

definition pending_zenz_suffix_count :: "InputTableRegistry \<Rightarrow> ConversionSession \<Rightarrow> nat" where
  "pending_zenz_suffix_count tables s =
     dropped_suffix_count (predictive_input_source (zenz_model_composing s) tables)"

text \<open>\<open>accept_prediction_candidate\<close>: the session and whether the prediction was applicable.\<close>

definition accept_prediction_candidate ::
  "segmenter \<Rightarrow> InputTableRegistry \<Rightarrow> Candidate \<Rightarrow> ConversionSession \<Rightarrow> ConversionSession \<times> bool" where
  "accept_prediction_candidate graphemes tables c s =
     (if is_empty_composing (composing s) \<or> \<not> is_at_end (composing s) then (s, False)
      else
        (let reading = to_hiragana (candidate_reading c);
             source = predictive_input_source (composing s) tables
         in case strip_prefix (to_hiragana (base_surface source)) reading of
              None \<Rightarrow> (s, False)
            | Some remaining \<Rightarrow>
                if remaining = [] then (s, False)
                else
                  (let text = (if dropped_suffix_count source > 0
                               then delete_backward tables (dropped_suffix_count source) (composing s)
                               else composing s)
                   in (s\<lparr>composing := insert_str graphemes tables remaining Direct text,
                         candidates := [], last_committed := None, stable_prediction_cache := None,
                         zenz_prediction_cache := None, accepted_prediction_of := Some c\<rparr>, True))))"

section \<open>Dictionaries and learning\<close>

definition mark_user :: "DictionaryEntry \<Rightarrow> DictionaryEntry" where
  "mark_user e = e\<lparr>metadata := metadata_insert (metadata e) USER_DICTIONARY\<rparr>"

definition import_dynamic_user_dictionary ::
  "DictionaryEntry list \<Rightarrow> DictionaryEntry list \<Rightarrow> ConversionSession \<Rightarrow> ConversionSession" where
  "import_dynamic_user_dictionary es shortcuts s =
     s\<lparr>user_dictionary := map mark_user es, user_shortcuts := map mark_user shortcuts, candidates := []\<rparr>"

text \<open>The dictionary files are read by \<open>UserDictionary::open\<close>; its result is the argument.\<close>

definition update_user_dictionary ::
  "(ustr + UserDictionary) \<Rightarrow> ConversionSession \<Rightarrow> ustr + ConversionSession" where
  "update_user_dictionary opened s =
     (case opened of
        Inl e \<Rightarrow> Inl e
      | Inr dict \<Rightarrow> Inr (s\<lparr>file_user_dictionary := dict, candidates := []\<rparr>))"

definition set_learning_memory :: "'m Services \<Rightarrow> 'm \<Rightarrow> ConversionSession \<Rightarrow> ustr + ConversionSession" where
  "set_learning_memory sv mem s =
     (case sv_validate sv mem of
        Some e \<Rightarrow> Inl e
      | None \<Rightarrow> Inr (s\<lparr>learning_attached := True, stable_prediction_cache := None, candidates := []\<rparr>))"

definition set_foreign_completion_provider :: "ConversionSession \<Rightarrow> ConversionSession" where
  "set_foreign_completion_provider s = s\<lparr>foreign_attached := True, candidates := []\<rparr>"

definition refresh_learning :: "'m Services \<Rightarrow> 'm \<Rightarrow> ConversionSession \<Rightarrow> ConversionSession \<times> ustr option" where
  "refresh_learning sv mem s =
     (case (if learning_attached s then sv_validate sv mem else None) of
        Some e \<Rightarrow> (s, Some e)
      | None \<Rightarrow> (s\<lparr>candidates := []\<rparr>, None))"

definition commit_learning ::
  "'m Services \<Rightarrow> 'm \<Rightarrow> ConversionSession \<Rightarrow> 'm \<times> ConversionSession \<times> (ustr + bool)" where
  "commit_learning sv mem s =
     (case (if learning_attached s then sv_commit sv mem else (mem, Inr False)) of
        (mem, Inl e) \<Rightarrow> (mem, s, Inl e)
      | (mem, Inr committed) \<Rightarrow>
          (let s = (if committed then s\<lparr>stable_prediction_cache := None\<rparr> else s)
           in case refresh_learning sv mem s of
                (s, Some e) \<Rightarrow> (mem, s, Inl e)
              | (s, None) \<Rightarrow> (mem, s, Inr committed)))"

definition forget_learning ::
  "'m Services \<Rightarrow> Candidate \<Rightarrow> 'm \<Rightarrow> ConversionSession \<Rightarrow> 'm \<times> ConversionSession \<times> ustr option" where
  "forget_learning sv c mem s =
     (let s = s\<lparr>stable_prediction_cache := None\<rparr>
      in case (if learning_attached s then sv_forget sv mem c else (mem, None)) of
           (mem, Some e) \<Rightarrow> (mem, s, Some e)
         | (mem, None) \<Rightarrow> (mem, refresh_learning sv mem s))"

definition session_reset_learning ::
  "'m Services \<Rightarrow> 'm \<Rightarrow> ConversionSession \<Rightarrow> 'm \<times> ConversionSession \<times> ustr option" where
  "session_reset_learning sv mem s =
     (let s = s\<lparr>stable_prediction_cache := None\<rparr>
      in case (if learning_attached s then sv_reset_memory sv mem else (mem, None)) of
           (mem, Some e) \<Rightarrow> (mem, s, Some e)
         | (mem, None) \<Rightarrow> (mem, refresh_learning sv mem s))"

definition additional_dictionary :: "ConversionSession \<Rightarrow> DictionaryEntry list" where
  "additional_dictionary s = user_dictionary s @ ud_entries (file_user_dictionary s)"

section \<open>Editing\<close>

definition session_insert_str ::
  "segmenter \<Rightarrow> InputTableRegistry \<Rightarrow> ustr \<Rightarrow> InputStyle \<Rightarrow> ConversionSession \<Rightarrow> ConversionSession" where
  "session_insert_str graphemes tables v style s =
     (retain_prediction_prefix (s\<lparr>composing := insert_str graphemes tables v style (composing s)\<rparr>))
       \<lparr>candidates := [], last_committed := None\<rparr>"

definition session_insert_key ::
  "InputTableRegistry \<Rightarrow> ustr option \<Rightarrow> ustr \<Rightarrow> InputModifier set \<Rightarrow> InputStyle \<Rightarrow>
   ConversionSession \<Rightarrow> ConversionSession" where
  "session_insert_key tables intent inp mods style s =
     (retain_prediction_prefix
        (s\<lparr>composing := insert_elements tables [\<lparr>piece = Key intent inp mods, input_style = style\<rparr>] (composing s)\<rparr>))
       \<lparr>candidates := [], last_committed := None\<rparr>"

definition insert_composition_separator ::
  "InputTableRegistry \<Rightarrow> InputStyle \<Rightarrow> ConversionSession \<Rightarrow> ConversionSession" where
  "insert_composition_separator tables style s =
     (if input (composing s) \<noteq> [] \<and> piece (last (input (composing s))) = CompositionSeparator then s
      else s\<lparr>composing := insert_elements tables [\<lparr>piece = CompositionSeparator, input_style = style\<rparr>] (composing s),
             candidates := [], last_committed := None\<rparr>)"

text \<open>The common end of \<open>delete_backward\<close> and \<open>delete_forward\<close>.\<close>

definition after_deletion :: "ConversionSession \<Rightarrow> ConversionSession" where
  "after_deletion s =
     (let s = (retain_prediction_prefix s)\<lparr>candidates := [], last_committed := None\<rparr>
      in if is_empty_composing (composing s) then s\<lparr>conv_context := default_context\<rparr> else s)"

definition session_delete_backward :: "InputTableRegistry \<Rightarrow> nat \<Rightarrow> ConversionSession \<Rightarrow> ConversionSession" where
  "session_delete_backward tables count s =
     after_deletion (s\<lparr>composing := delete_backward tables count (composing s)\<rparr>)"

definition session_delete_forward :: "InputTableRegistry \<Rightarrow> nat \<Rightarrow> ConversionSession \<Rightarrow> ConversionSession" where
  "session_delete_forward tables count s =
     after_deletion (s\<lparr>composing := delete_forward tables count (composing s)\<rparr>)"

definition session_move_cursor :: "int \<Rightarrow> ConversionSession \<Rightarrow> ConversionSession" where
  "session_move_cursor count s =
     s\<lparr>composing := fst (move_cursor count (composing s)), candidates := [], last_committed := None\<rparr>"

definition session_reset :: "ConversionSession \<Rightarrow> ConversionSession" where
  "session_reset s =
     s\<lparr>composing := stop_composing (composing s), candidates := [], conv_context := default_context,
       last_committed := None, stable_prediction_cache := None, zenz_prediction_cache := None,
       accepted_prediction_of := None\<rparr>"

section \<open>Representations\<close>

definition raw_input :: "InputElement list \<Rightarrow> ustr" where
  "raw_input es =
     concat (map (\<lambda>e. case piece e of Character v \<Rightarrow> v | Key _ inp _ \<Rightarrow> inp | CompositionSeparator \<Rightarrow> []) es)"

fun transformed_text :: "ConversionSession \<Rightarrow> TextTransform \<Rightarrow> ustr" where
  "transformed_text s Hiragana = to_hiragana (surface_text (composing s))"
| "transformed_text s Katakana = to_katakana (surface_text (composing s))"
| "transformed_text s HalfWidthKatakana = to_half_width (to_katakana (surface_text (composing s)))"
| "transformed_text s FullWidthRoman = to_full_width (raw_input (input (composing s)))"
| "transformed_text s HalfWidthRoman = raw_input (input (composing s))"

definition completed :: "InputTableRegistry \<Rightarrow> Candidate \<Rightarrow> ComposingText \<Rightarrow> ComposingText" where
  "completed tables c text = complete_wrapping tables (composing_count c) text"

text \<open>The five alternative spellings with their annotations.\<close>

definition desktop_additional_candidates ::
  "segmenter \<Rightarrow> InputTableRegistry \<Rightarrow> Candidate option \<Rightarrow> ConversionSession \<Rightarrow> (Candidate \<times> ustr) list" where
  "desktop_additional_candidates graphemes tables selected s =
     (let surf = (case selected of None \<Rightarrow> surface_text (composing s) | Some c \<Rightarrow> candidate_reading c);
          count = (case selected of None \<Rightarrow> InputCount (length (input (composing s))) | Some c \<Rightarrow> composing_count c);
          raw = (case selected of
                   None \<Rightarrow> raw_input (input (composing s))
                 | Some c \<Rightarrow>
                     raw_input (take (length (input (composing s)) - length (input (completed tables c (composing s))))
                                  (input (composing s))));
          kata = to_katakana surf
      in map (\<lambda>(text, annotation).
           (with_learning_target False
              (single graphemes text f32_zero count 501
                 [\<lparr>word = text, ruby = to_katakana surf, left_id = 1288, right_id = 1288, meaning_id = 501,
                   base_value = f32_zero, adjustment = f32_zero, metadata = 0\<rparr>]),
            annotation))
         [(raw, [0x82F1, 0x6570]), (to_full_width raw, [0x5168, 0x89D2, 0x82F1, 0x6570]),
          (to_half_width kata, [0x534A, 0x89D2, 0x30AB, 0x30CA]),
          (kata, [0x30AB, 0x30BF, 0x30AB, 0x30CA]), (to_hiragana surf, [0x3072, 0x3089, 0x304C, 0x306A])])"

section \<open>Lists of candidates\<close>

text \<open>\<open>unique\<close>: one candidate per text, at the place of the first, the better one of each pair kept.\<close>

fun unique_insert :: "Candidate \<Rightarrow> Candidate list \<Rightarrow> Candidate list" where
  "unique_insert c [] = [c]"
| "unique_insert c (d # ds) =
     (if cand_text d = cand_text c
      then (if f32_lt (cand_value d) (cand_value c) \<or> ruby_count d < ruby_count c then c else d) # ds
      else d # unique_insert c ds)"

definition unique :: "Candidate list \<Rightarrow> Candidate list" where
  "unique cs = fold unique_insert (filter (\<lambda>c. cand_text c \<noteq> []) cs) []"

text \<open>
  \<open>filter(|candidate| seen.insert(text))\<close>: keeps the first candidate of each text that has not been
  seen, and records the texts.
\<close>

fun filter_seen :: "ustr set \<Rightarrow> Candidate list \<Rightarrow> Candidate list \<times> ustr set" where
  "filter_seen seen [] = ([], seen)"
| "filter_seen seen (c # cs) =
     (let (kept, seen') = filter_seen (insert (cand_text c) seen) cs
      in if cand_text c \<in> seen then (kept, seen') else (c # kept, seen'))"

text \<open>The sort orders: by descending value, and by descending length of the reading first.\<close>

definition by_value :: "Candidate \<Rightarrow> Candidate \<Rightarrow> Ordering" where
  "by_value l r = total_cmp (cand_value r) (cand_value l)"

definition by_ruby_and_value :: "Candidate \<Rightarrow> Candidate \<Rightarrow> Ordering" where
  "by_ruby_and_value l r = then_with (cmp (ruby_count r) (ruby_count l)) (total_cmp (cand_value r) (cand_value l))"

definition merged_desktop_candidates :: "ConversionResult \<Rightarrow> Candidate list" where
  "merged_desktop_candidates r = fst (filter_seen {} (first_clause_results r @ main_results r))"

definition prepare_candidate :: "(ustr \<Rightarrow> ustr) \<Rightarrow> Candidate option \<Rightarrow> Candidate \<Rightarrow> Candidate" where
  "prepare_candidate expand_templates prefix_candidate c =
     expand_candidate expand_templates
       (case prefix_candidate of
          None \<Rightarrow> c
        | Some p \<Rightarrow>
            (let raw_prefix = candidate_dictionary_text p
             in if raw_prefix \<noteq> cand_text p
                then (case strip_prefix raw_prefix (cand_text c) of
                        Some remaining \<Rightarrow> c\<lparr>cand_text := cand_text p @ remaining, is_learning_target := False\<rparr>
                      | None \<Rightarrow> c)
                else c))"

section \<open>Predictions\<close>

text \<open>\<open>StablePredictionCache::compatible_candidates\<close>.\<close>

definition compatible_candidates ::
  "segmenter \<Rightarrow> StablePredictionCache \<Rightarrow> ComposingText \<Rightarrow> PredictiveInputSource \<Rightarrow> Candidate list" where
  "compatible_candidates graphemes cache c source =
     (let original = graphemes (st_original_surface cache);
          cached_base = concat (take (length original - st_suffix_count cache) original)
      in if \<not> prefix cached_base (base_surface source) then []
         else
           (let current_ruby = to_katakana (surface_text c);
                prefixes =
                  (if possible_nexts_of source = [] then [current_ruby]
                   else map (\<lambda>suff. to_katakana (base_surface source) @ suff) (possible_nexts_of source))
            in map (\<lambda>k. k\<lparr>composing_count := SurfaceCount (length (surface c))\<rparr>)
                 (filter (\<lambda>k. cand_text k \<noteq> [] \<and> candidate_reading k \<noteq> current_ruby \<and>
                              list_ex (\<lambda>p. prefix p (candidate_reading k)) prefixes)
                    (st_candidates cache))))"

text \<open>\<open>ConversionSession::predictions\<close>.\<close>

definition predictions ::
  "'m Services \<Rightarrow> InputTableRegistry \<Rightarrow> nat \<Rightarrow> DictionaryEntry list \<Rightarrow> ustr option \<Rightarrow> 'm \<Rightarrow> ConversionSession \<Rightarrow>
   ConversionSession \<times> (ustr + Candidate list)" where
  "predictions sv tables n additional prefix_text mem s =
     (if n = 0 then (s\<lparr>stable_prediction_cache := None\<rparr>, Inr [])
      else
        (let source = predictive_input_source (composing s) tables;
             stable = (case stable_prediction_cache s of
                         Some cache \<Rightarrow> compatible_candidates (sv_graphemes sv) cache (composing s) source
                       | None \<Rightarrow> [])
         in case sv_predict sv (session_memory mem s) (composing s) n (conv_context s) additional of
              Inl e \<Rightarrow> (s, Inl e)
            | Inr fresh \<Rightarrow>
                (let kept = unique stable;
                     all = kept @ fst (filter_seen (cand_text ` set kept) fresh);
                     matching = (case prefix_text of
                                   Some p \<Rightarrow> filter (\<lambda>c. prefix p (cand_text c)) all
                                 | None \<Rightarrow> all);
                     result = take n matching
                 in if result = [] then (s\<lparr>stable_prediction_cache := None\<rparr>, Inr result)
                    else (s\<lparr>stable_prediction_cache :=
                              Some \<lparr>st_original_surface = surface_text (composing s),
                                    st_suffix_count = dropped_suffix_count source,
                                    st_candidates = result\<rparr>\<rparr>, Inr result))))"

section \<open>Assembling a request\<close>

text \<open>The candidates of the user's shortcuts for the whole reading.\<close>

definition shortcut_candidates :: "segmenter \<Rightarrow> ConversionSession \<Rightarrow> Candidate list" where
  "shortcut_candidates graphemes s =
     (let kata = to_katakana (surface_text (composing s))
      in map (\<lambda>e. with_learning_target False
                    (single graphemes (word e) (entry_value e) (SurfaceCount (length (graphemes kata)))
                       (meaning_id e) [e]))
           (filter (\<lambda>e. ruby e = kata) (user_shortcuts s @ ud_shortcuts (file_user_dictionary s))))"

text \<open>If none of the first three reads as the whole input, the best one that does is put third.\<close>

definition ensure_exact :: "ustr \<Rightarrow> Candidate list \<Rightarrow> Candidate list \<Rightarrow> Candidate list" where
  "ensure_exact kata full leading =
     (if list_ex (\<lambda>c. candidate_reading c = kata) (take 3 leading) then leading
      else (case find (\<lambda>c. candidate_reading c = kata) full of
              None \<Rightarrow> leading
            | Some c \<Rightarrow>
                (let rest = filter (\<lambda>d. cand_text d \<noteq> cand_text c) leading
                 in take 2 rest @ [c] @ drop 2 rest)))"

text \<open>The block of \<open>assemble_request\<close> that builds \<open>leading\<close>.\<close>

definition leading_candidates ::
  "segmenter \<Rightarrow> RequestOptions \<Rightarrow> (Candidate \<Rightarrow> bool) \<Rightarrow> Candidate list \<Rightarrow> Candidate list \<Rightarrow> Candidate list \<Rightarrow>
   ConversionSession \<Rightarrow> Candidate list" where
  "leading_candidates graphemes options matching full preds foreign s =
     (let leading = unique (take 5 full @ shortcut_candidates graphemes s);
          leading = (if japanese_prediction options = Automatic then unique (leading @ preds) else leading);
          leading = (if foreign_prediction options = Automatic then unique (leading @ foreign) else leading);
          leading = take 5 (sort_by by_value (filter matching leading))
      in ensure_exact (to_katakana (surface_text (composing s))) full leading)"

text \<open>
  The rest of \<open>assemble_request\<close>: the result from the proposals that keep the accepted prefix. The
  session is only read here; its composing text and dictionaries decide.
\<close>

definition matches_prefix :: "Candidate option \<Rightarrow> Candidate \<Rightarrow> bool" where
  "matches_prefix prefix_candidate c =
     (case prefix_candidate of None \<Rightarrow> True | Some p \<Rightarrow> prefix (candidate_dictionary_text p) (cand_text c))"

definition first_clauses_of :: "segmenter \<Rightarrow> Candidate option \<Rightarrow> Candidate list \<Rightarrow> Candidate list" where
  "first_clauses_of graphemes pc full =
     take 5 (filter (matches_prefix pc)
       (sort_by by_ruby_and_value (unique (List.map_filter (first_clause_candidate graphemes) full))))"

definition main_candidates ::
  "'m Services \<Rightarrow> RequestOptions \<Rightarrow> Candidate option \<Rightarrow> Candidate list \<Rightarrow> Candidate list \<Rightarrow> Candidate list \<Rightarrow>
   ConversionSession \<Rightarrow> Candidate list" where
  "main_candidates sv options pc leading first_clauses words s =
     (let (first_for_main, seen) = filter_seen (cand_text ` set leading) first_clauses;
          words = sort_by by_ruby_and_value
            (unique (words @ sv_representations sv (composing s)
                               (full_width_roman options) (half_width_kana options)));
          (words, seen) = filter_seen seen words;
          special = sv_special sv (composing s) (version_string options) @
            (if typography options then sv_typographical sv (composing s) else []);
          (special, seen) = filter_seen seen special;
          words = take 5 words @ special @ drop 5 words
      in filter (matches_prefix pc) (leading @ first_for_main @ words))"

definition assemble_results ::
  "'m Services \<Rightarrow> RequestOptions \<Rightarrow> Candidate option \<Rightarrow> Candidate list \<Rightarrow> Candidate list \<Rightarrow> 'm \<Rightarrow>
   ConversionSession \<Rightarrow> ustr + ConversionResult" where
  "assemble_results sv options pc full preds mem s =
     (let first_clauses = first_clauses_of (sv_graphemes sv) pc full;
          preds = filter (matches_prefix pc) preds;
          foreign =
            (if foreign_prediction options = Disabled \<or> \<not> foreign_attached s then []
             else sv_foreign sv (composing s) (keyboard_language options));
          leading = leading_candidates (sv_graphemes sv) options (matches_prefix pc) full preds foreign s;
          prepare = prepare_candidate (sv_expand_templates sv) pc
      in case sv_words sv (session_memory mem s) (composing s) of
           Inl e \<Rightarrow> Inl e
         | Inr words \<Rightarrow>
             Inr \<lparr>main_results = map prepare (main_candidates sv options pc leading first_clauses words s),
                  prediction_results = map prepare preds,
                  english_prediction_results = foreign,
                  first_clause_results = map prepare first_clauses\<rparr>)"

definition requested_predictions ::
  "'m Services \<Rightarrow> InputTableRegistry \<Rightarrow> RequestOptions \<Rightarrow> Candidate list option \<Rightarrow> Candidate option \<Rightarrow>
   'm \<Rightarrow> ConversionSession \<Rightarrow> ConversionSession \<times> (ustr + Candidate list)" where
  "requested_predictions sv tables options prediction_override pc mem s =
     (if japanese_prediction options = Disabled then (s\<lparr>stable_prediction_cache := None\<rparr>, Inr [])
      else (case prediction_override of
              Some preds \<Rightarrow> (s, Inr preds)
            | None \<Rightarrow>
                predictions sv tables 3 (additional_dictionary s) (map_option candidate_dictionary_text pc) mem s))"

definition assemble_request ::
  "'m Services \<Rightarrow> InputTableRegistry \<Rightarrow> RequestOptions \<Rightarrow> Candidate list \<Rightarrow> Candidate list option \<Rightarrow>
   Candidate option \<Rightarrow> 'm \<Rightarrow> ConversionSession \<Rightarrow> ConversionSession \<times> (ustr + ConversionResult)" where
  "assemble_request sv tables options full prediction_override pc mem s =
     (let full = filter (matches_prefix pc) full
      in case requested_predictions sv tables options prediction_override pc mem s of
           (s, Inl e) \<Rightarrow> (s, Inl e)
         | (s, Inr preds) \<Rightarrow>
             (case assemble_results sv options pc full preds mem s of
                Inl e \<Rightarrow> (s, Inl e)
              | Inr r \<Rightarrow> (s\<lparr>candidates := main_results r\<rparr>, Inr r)))"

definition session_request ::
  "'m Services \<Rightarrow> InputTableRegistry \<Rightarrow> RequestOptions \<Rightarrow> 'm \<Rightarrow> ConversionSession \<Rightarrow>
   ConversionSession \<times> (ustr + ConversionResult)" where
  "session_request sv tables options mem s =
     (case sv_convert sv (session_memory mem s) (composing s) (n_best options) (conv_context s)
             (additional_dictionary s) (typo_correction options = TypoEnabled) of
        Inl e \<Rightarrow> (s, Inl e)
      | Inr full \<Rightarrow> assemble_request sv tables options full None None mem s)"

text \<open>
  \<open>finalize_zenz_request_with_prediction_override\<close>: the candidates the evaluation left are used up;
  the five best values are handed to the first five in descending order.
\<close>

definition finalize_zenz_request ::
  "'m Services \<Rightarrow> InputTableRegistry \<Rightarrow> RequestOptions \<Rightarrow> Candidate list option \<Rightarrow> 'm \<Rightarrow> ConversionSession \<Rightarrow>
   ConversionSession \<times> (ustr + ConversionResult)" where
  "finalize_zenz_request sv tables options prediction_override mem s =
     (let full = candidates s;
          leading_values = sort_by (\<lambda>l r. total_cmp r l) (map cand_value (take 5 full));
          full = map2 (\<lambda>c v. c\<lparr>cand_value := v\<rparr>) (take 5 full) leading_values @ drop 5 full
      in assemble_request sv tables options full prediction_override (accepted_prediction s) mem
           (s\<lparr>candidates := []\<rparr>))"

definition discard_zenz_inference_state :: "ConversionSession \<Rightarrow> ConversionSession" where
  "discard_zenz_inference_state s = s\<lparr>candidates := [], zenz_prediction_cache := None\<rparr>"

section \<open>Selection\<close>

text \<open>\<open>select_candidate_value\<close>: the committed text, or the learning error.\<close>

definition select_candidate_value ::
  "'m Services \<Rightarrow> InputTableRegistry \<Rightarrow> Candidate \<Rightarrow> 'm \<Rightarrow> ConversionSession \<Rightarrow>
   'm \<times> ConversionSession \<times> (SelectionError + ustr)" where
  "select_candidate_value sv tables c mem s =
     (let s = s\<lparr>composing := completed tables c (composing s), accepted_prediction_of := None\<rparr>;
          s = (if entries c = [] then s
               else s\<lparr>conv_context := \<lparr>ctx_right_id = right_id (last (entries c)), ctx_meaning_id = last_meaning_id c\<rparr>\<rparr>);
          s = s\<lparr>candidates := []\<rparr>
      in case (if is_learning_target c \<and> learning_attached s then sv_learn sv mem c else (mem, None)) of
           (mem, Some e) \<Rightarrow> (mem, s, Inl (LearningFailed e))
         | (mem, None) \<Rightarrow>
             (let s = s\<lparr>last_committed := Some c\<rparr>;
                  s = (if is_empty_composing (composing s)
                       then s\<lparr>composing := stop_composing (composing s), conv_context := default_context,
                              stable_prediction_cache := None, zenz_prediction_cache := None\<rparr>
                       else s)
              in (mem, s, Inr (cand_text c))))"

definition session_select_candidate ::
  "'m Services \<Rightarrow> InputTableRegistry \<Rightarrow> nat \<Rightarrow> 'm \<Rightarrow> ConversionSession \<Rightarrow>
   'm \<times> ConversionSession \<times> (SelectionError + ustr)" where
  "session_select_candidate sv tables index mem s =
     (if index < length (candidates s) then select_candidate_value sv tables (candidates s ! index) mem s
      else (mem, s, Inl (CandidateOutOfRange index (length (candidates s)))))"

definition remaining_after_candidate :: "InputTableRegistry \<Rightarrow> ConversionSession \<Rightarrow> Candidate \<Rightarrow> ustr" where
  "remaining_after_candidate tables s c = surface_text (completed tables c (composing s))"

definition desktop_candidates :: "InputTableRegistry \<Rightarrow> ConversionResult \<Rightarrow> ConversionSession \<Rightarrow> Candidate list" where
  "desktop_candidates tables r s =
     (if list_ex (\<lambda>c. remaining_after_candidate tables s c = []) (first_clause_results r) then main_results r
      else merged_desktop_candidates r)"

definition consumed_surface_count :: "InputTableRegistry \<Rightarrow> ConversionSession \<Rightarrow> Candidate \<Rightarrow> nat" where
  "consumed_surface_count tables s c =
     length (surface (composing s)) - length (surface (completed tables c (composing s)))"

end
