(* ===== verification/Composing_Stable.thy ===== *)
theory Composing_Stable
  imports Composing
begin

text \<open>
  What an independent boundary of \<open>input/composing.rs\<close> means: no later input element rewrites
  anything to its left. Two layers:
  \<^item> one rewriting step of the whole history against the same step of a part of it that starts at
    a boundary (\<open>extends\<close>, \<open>separated\<close>);
  \<^item> the stack of \<open>independent_boundaries\<close> holds exactly the stable positions, and the history
    can be cut there.
\<close>

section \<open>Rewriting steps\<close>

definition registry_ok :: "InputTableRegistry \<Rightarrow> bool" where
  "registry_ok tables \<longleftrightarrow> empty_input tables = empty_table"

text \<open>A separator that a table turns into nothing when there is nothing before it.\<close>

definition quiet :: "InputTableRegistry \<Rightarrow> InputElement \<Rightarrow> bool" where
  "quiet tables e \<longleftrightarrow>
     (piece e = CompositionSeparator \<longrightarrow>
      fst (update_surface tables [] CompositionSeparator (input_style e)) = [])"

interpretation surface_rewriter:
  suffix_rewriter "\<lambda>p b. update_surface tables b p style" for tables style
proof (cases "resolve tables style")
  case None
  then show "suffix_rewriter (\<lambda>p b. update_surface tables b p style)"
    by unfold_locales (auto simp: update_surface_def split: option.split)
next
  case (Some t)
  then show "suffix_rewriter (\<lambda>p b. update_surface tables b p style)"
    using table_rewriter.suffix_rewriter_axioms [of t] by (simp add: update_surface_def)
qed

lemma update_surface_frozen [simp]:
  "registry_ok tables \<Longrightarrow>
   update_surface tables b p frozen = (b @ (case displayed p of Some v \<Rightarrow> [v] | None \<Rightarrow> []), 0)"
  by (simp add: update_surface_def frozen_def registry_ok_def)

lemma update_surface_direct [simp]:
  "update_surface tables b p Direct = (b @ (case displayed p of Some v \<Rightarrow> [v] | None \<Rightarrow> []), 0)"
  by (simp add: update_surface_def split: option.split)

lemma quiet_frozen: "registry_ok tables \<Longrightarrow> input_style e = frozen \<Longrightarrow> quiet tables e"
  by (simp add: quiet_def)

lemma quiet_frozen_separator: "registry_ok tables \<Longrightarrow> quiet tables frozen_separator"
  by (rule quiet_frozen) (simp_all add: frozen_separator_def)

lemma quiet_character [simp]: "quiet tables (character_element v style)"
  by (simp add: quiet_def character_element_def)

lemma text_simps [simp]:
  "segments_text_of [] = []"
  "segments_text_of (a @ b) = segments_text_of a @ segments_text_of b"
  "segments_text_of [s] = seg_graphemes s"
  by (simp_all add: segments_text_of_def)

lemma text_last: "segs \<noteq> [] \<Longrightarrow> segments_text_of segs = segments_text_of (butlast segs) @ seg_graphemes (last segs)"
  by (metis append_butlast_last_id text_simps(2,3))

text \<open>The four ways a step can go.\<close>

lemma update_same:
  "segs \<noteq> [] \<Longrightarrow> seg_style (last segs) = input_style e \<Longrightarrow>
   update_segments tables segs e =
     (butlast segs @ [(last segs)\<lparr>seg_graphemes :=
        fst (update_surface tables (seg_graphemes (last segs)) (piece e) (input_style e))\<rparr>],
      snd (update_surface tables (seg_graphemes (last segs)) (piece e) (input_style e)))"
  by (simp add: update_segments_def case_prod_unfold Let_def)

lemma update_skip:
  "piece e = CompositionSeparator \<Longrightarrow> update_segments tables [] e = ([], 0)"
  by (simp add: update_segments_def)

lemma update_push:
  "segs \<noteq> [] \<and> seg_style (last segs) \<noteq> input_style e \<or> segs = [] \<and> piece e \<noteq> CompositionSeparator \<Longrightarrow>
   update_segments tables segs e =
     (segs @ [\<lparr>seg_graphemes = fst (update_surface tables [] (piece e) (input_style e)),
               seg_style = input_style e\<rparr>], 0)"
  by (auto simp add: update_segments_def case_prod_unfold Let_def)

lemmas update_cases = update_same update_skip update_push

lemma step_cases:
  obtains (same) "segs \<noteq> []" "seg_style (last segs) = input_style e"
  | (skip) "segs = []" "piece e = CompositionSeparator"
  | (push) "segs \<noteq> [] \<and> seg_style (last segs) \<noteq> input_style e \<or> segs = [] \<and> piece e \<noteq> CompositionSeparator"
  by blast

lemma step_deletes_le: "snd (update_segments tables segs e) \<le> tail_len segs"
  by (cases segs e rule: step_cases)
     (auto simp: update_cases tail_len_def surface_rewriter.deletes_le)

lemma tail_len_le: "tail_len segs \<le> length (segments_text_of segs)"
  by (simp add: tail_len_def text_last)

lemma step_kept_le:
  "length (segments_text_of segs) - snd (update_segments tables segs e) \<le>
   length (segments_text_of (fst (update_segments tables segs e)))"
proof (cases segs e rule: step_cases)
  case same
  then show ?thesis
    using surface_rewriter.kept_length [where b = "seg_graphemes (last segs)" and tables = tables
      and style = "input_style e" and p = "piece e"]
    by (simp add: update_same text_last [of segs])
qed (auto simp: update_cases)

lemma step_style:
  "fst (update_segments tables segs e) \<noteq> [] \<Longrightarrow>
   seg_style (last (fst (update_segments tables segs e))) = input_style e"
  by (cases segs e rule: step_cases) (auto simp: update_cases)

lemma step_frozen:
  assumes "registry_ok tables" and "input_style e = frozen"
  shows "snd (update_segments tables segs e) = 0"
    and "segments_text_of (fst (update_segments tables segs e)) =
         segments_text_of segs @ (case displayed (piece e) of Some v \<Rightarrow> [v] | None \<Rightarrow> [])"
  using assms
  by (cases segs e rule: step_cases, auto simp: update_cases text_last [of segs])+

section \<open>A history against a part of it\<close>

text \<open>
  \<open>extends p segs segs'\<close>: the segments \<open>segs\<close> of a longer history show \<open>p\<close> and then what the
  segments \<open>segs'\<close> of its end show, and the next rewriting of the last segment of \<open>segs'\<close> is a
  rewriting of the last segment of \<open>segs\<close>.
\<close>

definition extends :: "grapheme list \<Rightarrow> SurfaceSegment list \<Rightarrow> SurfaceSegment list \<Rightarrow> bool" where
  "extends p segs segs' \<longleftrightarrow>
     segments_text_of segs = p @ segments_text_of segs' \<and>
     (segs' \<noteq> [] \<longrightarrow>
        segs \<noteq> [] \<and> seg_style (last segs) = seg_style (last segs') \<and>
        (\<exists>q. seg_graphemes (last segs) = q @ seg_graphemes (last segs') \<and> (q = [] \<or> length segs' = 1)))"

lemma extends_start: "extends (segments_text_of segs) segs []"
  by (simp add: extends_def)

lemma extends_text: "extends p segs segs' \<Longrightarrow> segments_text_of segs = p @ segments_text_of segs'"
  by (simp add: extends_def)

lemma length_one_text: "length segs = 1 \<Longrightarrow> segments_text_of segs = seg_graphemes (last segs)"
  by (auto simp: length_Suc_conv segments_text_of_def)

lemma extends_step_same:
  assumes "extends p segs segs'" and "segs' \<noteq> []" and "seg_style (last segs') = input_style e"
    and "snd (update_segments tables segs e) \<le> length (segments_text_of segs')"
  shows "extends p (fst (update_segments tables segs e)) (fst (update_segments tables segs' e))"
proof -
  let ?g' = "seg_graphemes (last segs')"
  from assms(1-3) obtain q where s: "segs \<noteq> []" "seg_style (last segs) = input_style e"
    and q: "seg_graphemes (last segs) = q @ ?g'" "q = [] \<or> length segs' = 1"
    by (auto simp: extends_def)
  have d: "snd (update_surface tables (q @ ?g') (piece e) (input_style e)) \<le> length ?g'"
  proof (cases "q = []")
    case True
    then show ?thesis by (simp add: surface_rewriter.deletes_le)
  next
    case False
    with q(2) have "segments_text_of segs' = ?g'" by (simp add: length_one_text)
    with assms(4) s q(1) show ?thesis by (simp add: update_same)
  qed
  then have u: "update_surface tables (q @ ?g') (piece e) (input_style e) =
      (q @ fst (update_surface tables ?g' (piece e) (input_style e)),
       snd (update_surface tables ?g' (piece e) (input_style e)))"
    by (rule surface_rewriter.local_step)
  have "segments_text_of (butlast segs) @ q = p @ segments_text_of (butlast segs')"
    using extends_text [OF assms(1)] q(1) by (simp add: text_last [OF s(1)] text_last [OF assms(2)])
  with s q u assms(2,3) show ?thesis by (auto simp: update_same extends_def)
qed

lemma extends_step_push:
  assumes "extends p segs segs'" and "segs' \<noteq> []" and "seg_style (last segs') \<noteq> input_style e"
  shows "extends p (fst (update_segments tables segs e)) (fst (update_segments tables segs' e))"
  using assms by (auto simp: extends_def update_push)

lemma extends_step_first:
  assumes "extends p segs []" and "quiet tables e" and "snd (update_segments tables segs e) = 0"
  shows "extends p (fst (update_segments tables segs e)) (fst (update_segments tables [] e))"
proof (cases segs e rule: step_cases)
  case same
  with assms(3) have u: "fst (update_surface tables (seg_graphemes (last segs)) (piece e) (input_style e)) =
      seg_graphemes (last segs) @ fst (update_surface tables [] (piece e) (input_style e))"
    by (simp add: update_same surface_rewriter.step_from_empty)
  with same assms(1,2) show ?thesis
    by (cases "piece e = CompositionSeparator")
       (auto simp: update_cases extends_def text_last [of segs] quiet_def)
next
  case skip
  with assms(1) show ?thesis by (simp add: update_skip)
next
  case push
  with assms(1,2) show ?thesis
    by (cases "piece e = CompositionSeparator") (auto simp: update_cases extends_def quiet_def)
qed

text \<open>A step that deletes nothing of \<open>p\<close> keeps the relation.\<close>

lemma extends_step:
  assumes "extends p segs segs'" and "quiet tables e"
    and "snd (update_segments tables segs e) \<le> length (segments_text_of segs')"
  shows "extends p (fst (update_segments tables segs e)) (fst (update_segments tables segs' e))"
proof (cases "segs' = []")
  case True
  with assms show ?thesis by (simp add: extends_step_first)
next
  case False
  with assms show ?thesis
    by (cases "seg_style (last segs') = input_style e")
       (simp_all add: extends_step_same extends_step_push)
qed

text \<open>
  \<open>separated\<close>: beyond \<^const>\<open>extends\<close>, the last segment of \<open>segs\<close> is either the last segment of
  \<open>segs'\<close> itself or frozen text, which no step deletes. This is the situation on the right of a
  frozen element, and it needs no assumption on the deletions that follow.
\<close>

definition separated :: "grapheme list \<Rightarrow> SurfaceSegment list \<Rightarrow> SurfaceSegment list \<Rightarrow> bool" where
  "separated p segs segs' \<longleftrightarrow>
     extends p segs segs' \<and>
     (segs \<noteq> [] \<longrightarrow> seg_style (last segs) = frozen \<or>
        seg_graphemes (last segs) = (if segs' = [] then [] else seg_graphemes (last segs')))"

lemma separated_deletes:
  assumes "separated p segs segs'" and "registry_ok tables"
  shows "snd (update_segments tables segs e) \<le> length (segments_text_of segs')"
proof (cases segs e rule: step_cases)
  case same
  show ?thesis
  proof (cases "seg_style (last segs) = frozen")
    case True
    with same assms(2) show ?thesis by (simp add: step_frozen)
  next
    case False
    with assms(1) same(1) have g: "seg_graphemes (last segs) = (if segs' = [] then [] else seg_graphemes (last segs'))"
      by (simp add: separated_def)
    have "snd (update_segments tables segs e) \<le> length (seg_graphemes (last segs))"
      using step_deletes_le [of tables segs e] same(1) by (simp add: tail_len_def)
    also have "\<dots> \<le> length (segments_text_of segs')"
      by (auto simp: g text_last [of segs'])
    finally show ?thesis .
  qed
qed (auto simp: update_cases)

lemma separated_step:
  assumes "separated p segs segs'" and "registry_ok tables" and "quiet tables e"
  shows "separated p (fst (update_segments tables segs e)) (fst (update_segments tables segs' e))"
proof -
  let ?t = "fst (update_segments tables segs e)" and ?t' = "fst (update_segments tables segs' e)"
  have x: "extends p ?t ?t'"
    using assms separated_deletes [OF assms(1,2)] by (auto simp: separated_def intro: extends_step)
  moreover have "seg_graphemes (last ?t) = (if ?t' = [] then [] else seg_graphemes (last ?t'))"
    if ne: "?t \<noteq> []" and nf: "input_style e \<noteq> frozen"
  proof (cases segs e rule: step_cases)
    case same
    with assms(1) nf have g: "seg_graphemes (last segs) = (if segs' = [] then [] else seg_graphemes (last segs'))"
      and st: "segs' \<noteq> [] \<Longrightarrow> seg_style (last segs') = input_style e"
      by (auto simp: separated_def extends_def)
    show ?thesis
    proof (cases "segs' = []")
      case True
      with same g assms(3) show ?thesis
        by (cases "piece e = CompositionSeparator") (simp_all add: update_cases quiet_def)
    next
      case False
      with same g st show ?thesis by (simp add: update_same)
    qed
  next
    case skip
    with ne show ?thesis by (simp add: update_skip)
  next
    case push
    then show ?thesis
    proof (cases "segs' = []")
      case True
      with push assms(3) show ?thesis
        by (cases "piece e = CompositionSeparator") (auto simp: update_cases quiet_def)
    next
      case False
      with assms(1) push have "seg_style (last segs') \<noteq> input_style e"
        by (auto simp: separated_def extends_def)
      with push False show ?thesis by (simp add: update_push)
    qed
  qed
  ultimately show ?thesis
    using step_style [of tables segs e] unfolding separated_def by metis
qed

text \<open>Where the separation starts: after a frozen element, or with one.\<close>

lemma separated_start:
  "segs = [] \<or> seg_style (last segs) = frozen \<Longrightarrow> separated (segments_text_of segs) segs []"
  by (auto simp: separated_def extends_start)

lemma separated_first:
  assumes "registry_ok tables" and "input_style e = frozen"
  shows "separated (segments_text_of segs) (fst (update_segments tables segs e))
           (fst (update_segments tables [] e))"
proof -
  have "extends (segments_text_of segs) (fst (update_segments tables segs e)) (fst (update_segments tables [] e))"
    using assms by (intro extends_step_first extends_start) (simp_all add: quiet_frozen step_frozen)
  with assms(2) step_style [of tables segs e] show ?thesis by (auto simp: separated_def)
qed

section \<open>Stable positions and the boundary stack\<close>

lemma run_segments_Nil [simp]: "run_segments tables segs [] = segs"
  by (simp add: run_segments_def)

lemma run_segments_append [simp]:
  "run_segments tables segs (a @ b) = run_segments tables (run_segments tables segs a) b"
  by (simp add: run_segments_def)

lemma run_segments_one [simp]: "run_segments tables segs [e] = fst (update_segments tables segs e)"
  by (simp add: run_segments_def)

lemma run_segments_Cons:
  "run_segments tables segs (e # es) = run_segments tables (fst (update_segments tables segs e)) es"
  by (simp add: run_segments_def)

text \<open>The segments after the first \<open>n\<close> elements, their length, and what step \<open>n\<close> keeps of it.\<close>

definition seg_at :: "InputTableRegistry \<Rightarrow> InputElement list \<Rightarrow> nat \<Rightarrow> SurfaceSegment list" where
  "seg_at tables es n = run_segments tables [] (take n es)"

definition len_at :: "InputTableRegistry \<Rightarrow> InputElement list \<Rightarrow> nat \<Rightarrow> nat" where
  "len_at tables es n = length (segments_text_of (seg_at tables es n))"

definition kept_at :: "InputTableRegistry \<Rightarrow> InputElement list \<Rightarrow> nat \<Rightarrow> nat" where
  "kept_at tables es n = len_at tables es n - snd (update_segments tables (seg_at tables es n) (es ! n))"

definition stable_upto :: "InputTableRegistry \<Rightarrow> InputElement list \<Rightarrow> nat \<Rightarrow> nat \<Rightarrow> bool" where
  "stable_upto tables es i j \<longleftrightarrow> (\<forall>n. i \<le> n \<and> n < j \<longrightarrow> len_at tables es i \<le> kept_at tables es n)"

lemma len_at_convert: "len_at tables es n = length (convert_elements tables (take n es))"
  by (simp add: len_at_def seg_at_def convert_elements_def)

lemma seg_at_0 [simp]: "seg_at tables es 0 = []"
  by (simp add: seg_at_def)

lemma len_at_0 [simp]: "len_at tables es 0 = 0"
  by (simp add: len_at_def)

lemma seg_at_Suc:
  "n < length es \<Longrightarrow> seg_at tables es (Suc n) = fst (update_segments tables (seg_at tables es n) (es ! n))"
  by (simp add: seg_at_def take_Suc_conv_app_nth)

lemma kept_le_next: "n < length es \<Longrightarrow> kept_at tables es n \<le> len_at tables es (Suc n)"
  using step_kept_le [of "seg_at tables es n" tables "es ! n"]
  by (simp add: kept_at_def len_at_def seg_at_Suc)

lemma deleted_le: "snd (update_segments tables (seg_at tables es n) (es ! n)) \<le> len_at tables es n"
  using step_deletes_le [of tables "seg_at tables es n" "es ! n"] tail_len_le [of "seg_at tables es n"]
  by (simp add: len_at_def)

lemma stable_refl [simp]: "stable_upto tables es i i"
  by (simp add: stable_upto_def)

lemma stable_Suc:
  "i \<le> j \<Longrightarrow> stable_upto tables es i (Suc j) \<longleftrightarrow> stable_upto tables es i j \<and> len_at tables es i \<le> kept_at tables es j"
  by (auto simp: stable_upto_def less_Suc_eq)

lemma stable_less: "stable_upto tables es i j \<Longrightarrow> k \<le> j \<Longrightarrow> stable_upto tables es i k"
  by (auto simp: stable_upto_def)

lemma stable_len_mono:
  assumes "stable_upto tables es i j" and "i \<le> k" and "k \<le> j" and "j \<le> length es"
  shows "len_at tables es i \<le> len_at tables es k"
proof (cases "i = k")
  case False
  with assms(2) obtain m where m: "k = Suc m" "i \<le> m" by (cases k) auto
  with assms have "len_at tables es i \<le> kept_at tables es m" by (simp add: stable_upto_def)
  also have "\<dots> \<le> len_at tables es (Suc m)" using assms m by (intro kept_le_next) simp
  finally show ?thesis using m by simp
qed simp

lemma stable_trans:
  "stable_upto tables es i j \<Longrightarrow> stable_upto tables es j k \<Longrightarrow> len_at tables es i \<le> len_at tables es j \<Longrightarrow>
   stable_upto tables es i k"
  unfolding stable_upto_def by (metis leI order_trans)

lemma drop_take_Suc:
  "i \<le> n \<Longrightarrow> n < length es \<Longrightarrow> drop i (take (Suc n) es) = drop i (take n es) @ [es ! n]"
  by (simp add: take_Suc_conv_app_nth)

text \<open>At a stable position the history can be cut.\<close>

lemma stable_extends:
  assumes "i \<le> n" and "n \<le> length es" and "stable_upto tables es i n" and "\<forall>e \<in> set es. quiet tables e"
  shows "extends (segments_text_of (seg_at tables es i)) (seg_at tables es n)
           (run_segments tables [] (drop i (take n es)))"
  using assms
proof (induction rule: dec_induct)
  case base
  show ?case by (simp add: extends_start)
next
  case (step m)
  let ?p = "segments_text_of (seg_at tables es i)" and ?r = "run_segments tables [] (drop i (take m es))"
  from step have x: "extends ?p (seg_at tables es m) ?r" by (simp add: stable_Suc)
  have "len_at tables es m = length ?p + length (segments_text_of ?r)"
    using extends_text [OF x] by (simp add: len_at_def)
  moreover have "length ?p \<le> len_at tables es m - snd (update_segments tables (seg_at tables es m) (es ! m))"
    using step.prems(2) step.hyps by (simp add: stable_Suc kept_at_def len_at_def)
  ultimately have "snd (update_segments tables (seg_at tables es m) (es ! m)) \<le> length (segments_text_of ?r)"
    using deleted_le [of tables es m] by linarith
  with x step.prems step.hyps show ?case
    by (simp add: seg_at_Suc drop_take_Suc extends_step)
qed

lemma stable_cut:
  assumes "i \<le> n" and "n \<le> length es" and "stable_upto tables es i n" and "\<forall>e \<in> set es. quiet tables e"
  shows "convert_elements tables (take n es) =
         convert_elements tables (take i es) @ convert_elements tables (drop i (take n es))"
  using extends_text [OF stable_extends [OF assms]] by (simp add: convert_elements_def seg_at_def)

text \<open>A position next to a frozen element is stable.\<close>

lemma separated_run:
  assumes "separated p (seg_at tables es i) segs'" and "registry_ok tables"
    and "\<forall>e \<in> set es. quiet tables e" and "i \<le> n" and "n \<le> length es"
  shows "\<exists>segs''. separated p (seg_at tables es n) segs''"
  using assms(4,5)
proof (induction rule: dec_induct)
  case base
  show ?case using assms(1) by blast
next
  case (step m)
  then obtain segs'' where "separated p (seg_at tables es m) segs''" by auto
  then have "separated p (fst (update_segments tables (seg_at tables es m) (es ! m)))
      (fst (update_segments tables segs'' (es ! m)))"
    using assms(2,3) step.prems by (intro separated_step) auto
  with step.prems show ?case by (auto simp: seg_at_Suc)
qed

lemma separated_kept:
  assumes "separated p (seg_at tables es n) segs'" and "registry_ok tables"
  shows "length p \<le> kept_at tables es n"
proof -
  have "len_at tables es n = length p + length (segments_text_of segs')"
    using assms(1) by (simp add: len_at_def separated_def extends_def)
  with separated_deletes [OF assms, of "es ! n"] show ?thesis by (simp add: kept_at_def)
qed

lemma seg_at_style:
  "0 < i \<Longrightarrow> i \<le> length es \<Longrightarrow> seg_at tables es i \<noteq> [] \<Longrightarrow>
   seg_style (last (seg_at tables es i)) = input_style (es ! (i - 1))"
  using step_style [of tables "seg_at tables es (i - 1)" "es ! (i - 1)"] seg_at_Suc [of "i - 1" es tables]
  by simp

lemma stable_after_frozen:
  assumes "registry_ok tables" and "\<forall>e \<in> set es. quiet tables e"
    and "i = 0 \<or> i \<le> length es \<and> input_style (es ! (i - 1)) = frozen" and "j \<le> length es"
  shows "stable_upto tables es i j"
proof -
  have "separated (segments_text_of (seg_at tables es i)) (seg_at tables es i) []"
    using assms(3) seg_at_style [of i es tables] by (intro separated_start) (cases "i = 0", auto)
  from separated_run [OF this assms(1,2)] have
    "\<And>n. i \<le> n \<Longrightarrow> n \<le> length es \<Longrightarrow>
       \<exists>segs''. separated (segments_text_of (seg_at tables es i)) (seg_at tables es n) segs''"
    by blast
  with assms(1,4) show ?thesis
    unfolding stable_upto_def len_at_def by (meson order_less_imp_le order_less_le_trans separated_kept)
qed

lemma stable_before_frozen:
  assumes "registry_ok tables" and "\<forall>e \<in> set es. quiet tables e"
    and "i < length es" and "input_style (es ! i) = frozen" and "j \<le> length es"
  shows "stable_upto tables es i j"
proof -
  have "stable_upto tables es i (Suc i)"
    using assms(1,4) by (simp add: stable_Suc kept_at_def step_frozen)
  moreover have "stable_upto tables es (Suc i) j"
    using assms by (intro stable_after_frozen) auto
  moreover have "len_at tables es i \<le> len_at tables es (Suc i)"
    using assms by (simp add: len_at_def seg_at_Suc step_frozen)
  ultimately show ?thesis by (rule stable_trans)
qed

lemma join_frozen:
  assumes "registry_ok tables" and "\<forall>e \<in> set (xs @ ys). quiet tables e"
    and "xs = [] \<or> ys = [] \<or> input_style (last xs) = frozen \<or> input_style (hd ys) = frozen"
  shows "convert_elements tables (xs @ ys) = convert_elements tables xs @ convert_elements tables ys"
proof (cases "xs = [] \<or> ys = []")
  case True
  then show ?thesis by (auto simp: convert_elements_def)
next
  case False
  have "stable_upto tables (xs @ ys) (length xs) (length (xs @ ys))"
  proof (cases "input_style (last xs) = frozen")
    case True
    with False assms show ?thesis
      by (intro stable_after_frozen) (auto simp: nth_append last_conv_nth)
  next
    case nf: False
    with False assms show ?thesis
      by (intro stable_before_frozen) (auto simp: nth_append hd_conv_nth)
  qed
  from stable_cut [OF _ _ this assms(2)] show ?thesis by simp
qed

subsection \<open>The stack is the list of stable positions\<close>

lemma converted_len_step:
  assumes "update_segments tables segs e = (segs', d)"
  shows "(if length segs' = length segs
          then length (segments_text_of segs) - tail_len segs + tail_len segs'
          else length (segments_text_of segs) + tail_len segs') = length (segments_text_of segs')"
  using assms
  by (cases segs e rule: step_cases) (auto simp: update_cases tail_len_def text_last [of segs])

lemma pop_boundaries_filter:
  "sorted_wrt (\<lambda>a b. ip_surface b \<le> ip_surface a) bs \<Longrightarrow>
   pop_boundaries k bs = filter (\<lambda>b. ip_surface b \<le> k) bs"
proof (induction bs)
  case (Cons b bs)
  show ?case
  proof (cases "ip_surface b \<le> k")
    case True
    with Cons.prems have "filter (\<lambda>b. ip_surface b \<le> k) bs = bs"
      by (intro filter_True) (auto intro: le_trans)
    with True show ?thesis by simp
  next
    case False
    with Cons show ?thesis by simp
  qed
qed simp

definition stable_pairs :: "InputTableRegistry \<Rightarrow> InputElement list \<Rightarrow> nat \<Rightarrow> IndexPair list" where
  "stable_pairs tables es i =
     rev (map (\<lambda>j. \<lparr>ip_input = j, ip_surface = len_at tables es j\<rparr>)
            (filter (\<lambda>j. stable_upto tables es j i) [0..<Suc i]))"

lemma stable_pairs_mem:
  "b \<in> set (stable_pairs tables es i) \<longleftrightarrow>
   ip_input b \<le> i \<and> stable_upto tables es (ip_input b) i \<and> ip_surface b = len_at tables es (ip_input b)"
  by (cases b) (auto simp: stable_pairs_def image_iff less_Suc_eq_le)

lemma sorted_wrt_filter_upt:
  "(\<And>j k. P j \<Longrightarrow> P k \<Longrightarrow> j < k \<Longrightarrow> k < n \<Longrightarrow> R j k) \<Longrightarrow> sorted_wrt R (filter P [0..<n])"
  by (induction n) (auto simp: sorted_wrt_append)

lemma stable_pairs_sorted:
  assumes "i \<le> length es"
  shows "sorted_wrt (\<lambda>a b. ip_surface b \<le> ip_surface a \<and> ip_input b < ip_input a) (stable_pairs tables es i)"
proof -
  have "sorted_wrt (\<lambda>j k. len_at tables es j \<le> len_at tables es k \<and> j < k)
          (filter (\<lambda>j. stable_upto tables es j i) [0..<Suc i])"
    using assms by (intro sorted_wrt_filter_upt) (auto intro: stable_len_mono)
  then show ?thesis by (simp add: stable_pairs_def sorted_wrt_rev sorted_wrt_map del: upt_Suc)
qed

lemma stable_pairs_Suc:
  assumes "i < length es"
  shows "stable_pairs tables es (Suc i) =
         \<lparr>ip_input = Suc i, ip_surface = len_at tables es (Suc i)\<rparr> #
         pop_boundaries (kept_at tables es i) (stable_pairs tables es i)"
proof -
  have "sorted_wrt (\<lambda>a b. ip_surface b \<le> ip_surface a) (stable_pairs tables es i)"
    using stable_pairs_sorted [of i es tables] assms by (auto elim: sorted_wrt_mono_rel [rotated])
  moreover have "filter (\<lambda>j. stable_upto tables es j (Suc i)) [0..<Suc i] =
      filter (\<lambda>j. len_at tables es j \<le> kept_at tables es i) (filter (\<lambda>j. stable_upto tables es j i) [0..<Suc i])"
    unfolding filter_filter by (intro filter_cong refl) (auto simp: stable_Suc less_Suc_eq_le)
  ultimately show ?thesis
    by (simp add: stable_pairs_def pop_boundaries_filter rev_filter [symmetric] filter_map comp_def
             del: upt_Suc add: upt_Suc_append [of 0 "Suc i"])
qed

lemma boundary_loop_stable:
  assumes "i \<le> length es"
  shows "boundary_loop tables i (drop i es) (stable_pairs tables es i) (seg_at tables es i) (len_at tables es i) =
         stable_pairs tables es (length es)"
  using assms
proof (induction rule: inc_induct)
  case base
  show ?case by simp
next
  case (step i)
  obtain segs' d where u: "update_segments tables (seg_at tables es i) (es ! i) = (segs', d)"
    by (cases "update_segments tables (seg_at tables es i) (es ! i)")
  with step.hyps have s: "segs' = seg_at tables es (Suc i)" by (simp add: seg_at_Suc)
  have l: "(if length segs' = length (seg_at tables es i)
            then len_at tables es i - tail_len (seg_at tables es i) + tail_len segs'
            else len_at tables es i + tail_len segs') = len_at tables es (Suc i)"
    using converted_len_step [OF u] unfolding len_at_def s [symmetric] .
  have k: "len_at tables es i - d = kept_at tables es i" by (simp add: kept_at_def u)
  have e: "drop i es = es ! i # drop (Suc i) es" using step.hyps by (simp add: Cons_nth_drop_Suc)
  show ?case
    using step.IH stable_pairs_Suc [OF step.hyps(2), of tables]
    by (simp only: e boundary_loop.simps(2) Let_def u prod.case l k) (simp add: s)
qed

lemma independent_boundaries_stable:
  "independent_boundaries tables c = stable_pairs tables (input c) (length (input c))"
proof -
  have "stable_pairs tables (input c) 0 = [\<lparr>ip_input = 0, ip_surface = 0\<rparr>]"
    by (simp add: stable_pairs_def)
  then show ?thesis
    using boundary_loop_stable [of 0 "input c" tables] by (simp add: independent_boundaries_def)
qed

end
