(* ===== verification/Composing_Edit.thy ===== *)
theory Composing_Edit
  imports Composing_Stable
begin

text \<open>
  Correctness of the composing text of \<open>input/composing.rs\<close>: the surface is what the tables make
  of the input history, and the editing operations treat the surface as a plain text with a cursor.
  \<open>force_input_cursor\<close> makes any surface position a cut of the history, and the operations follow.
  The theory ends with the contract towards the session, the locale \<open>edit_buffer\<close>.
\<close>

section \<open>The invariant and cuts\<close>

text \<open>
  The surface is the converted history, the cursor is inside it, and separators of the history
  are quiet.
\<close>

definition composing_ok :: "InputTableRegistry \<Rightarrow> ComposingText \<Rightarrow> bool" where
  "composing_ok tables c \<longleftrightarrow>
     surface c = convert_elements tables (input c) \<and>
     cursor c \<le> length (surface c) \<and>
     (\<forall>e \<in> set (input c). quiet tables e)"

text \<open>Input position \<open>i\<close> cuts the history exactly at surface position \<open>t\<close>.\<close>

definition cut_at :: "InputTableRegistry \<Rightarrow> ComposingText \<Rightarrow> nat \<Rightarrow> nat \<Rightarrow> bool" where
  "cut_at tables c t i \<longleftrightarrow>
     i \<le> length (input c) \<and>
     convert_elements tables (take i (input c)) = take t (surface c) \<and>
     convert_elements tables (drop i (input c)) = drop t (surface c)"

lemma convert_Nil [simp]: "convert_elements tables [] = []"
  by (simp add: convert_elements_def)

lemma composing_ok_surface: "composing_ok tables c \<Longrightarrow> surface c = convert_elements tables (input c)"
  by (simp add: composing_ok_def)

lemma composing_ok_cursor: "composing_ok tables c \<Longrightarrow> cursor c \<le> length (surface c)"
  unfolding composing_ok_def by blast

lemma stable_zero: "stable_upto tables es 0 j"
  by (simp add: stable_upto_def)

lemma cut_at_stable:
  assumes "composing_ok tables c" and "i \<le> length (input c)"
    and "stable_upto tables (input c) i (length (input c))"
  shows "cut_at tables c (len_at tables (input c) i) i"
  using stable_cut [OF assms(2) _ assms(3)] assms(1,2)
  by (simp add: composing_ok_def cut_at_def len_at_convert)

lemma convert_frozen_characters:
  assumes "registry_ok tables"
  shows "convert_elements tables (map (\<lambda>v. character_element v frozen) vs) = vs"
proof (induction vs rule: rev_induct)
  case (snoc v vs)
  then show ?case
    using step_frozen(2) [OF assms, of "character_element v frozen"]
    by (simp add: convert_elements_def) (simp add: character_element_def)
qed simp

lemma locate_At: "locate t bs e = At i \<Longrightarrow> \<exists>b \<in> set bs. ip_surface b = t \<and> ip_input b = i"
  by (induction bs arbitrary: e) (auto split: if_splits)

lemma locate_Between:
  assumes "locate t bs e = Between s e'" and "\<exists>b \<in> set bs. ip_surface b < t"
    and "sorted_wrt (\<lambda>a b. ip_surface b \<le> ip_surface a \<and> ip_input b < ip_input a) bs"
  shows "s \<in> set bs \<and> ip_surface s < t \<and> (e' = e \<or> e' \<in> set bs \<and> t < ip_surface e') \<and>
         (\<forall>b \<in> set bs. ip_surface b < t \<longrightarrow> ip_input b \<le> ip_input s)"
  using assms
proof (induction bs arbitrary: e)
  case (Cons b bs)
  show ?case
  proof (cases "ip_surface b < t")
    case True
    with Cons.prems show ?thesis by auto
  next
    case False
    with Cons.prems(1) have "t < ip_surface b" by (auto split: if_splits)
    with Cons.prems Cons.IH [of "if ip_surface b < ip_surface e then b else e"] show ?thesis
      by (auto split: if_splits)
  qed
qed simp

text \<open>What the search of \<open>force_input_cursor\<close> finds, for a position inside the surface.\<close>

lemma boundary_mem:
  "b \<in> set (independent_boundaries tables c) \<longleftrightarrow>
   ip_input b \<le> length (input c) \<and> stable_upto tables (input c) (ip_input b) (length (input c)) \<and>
   ip_surface b = len_at tables (input c) (ip_input b)"
  by (simp add: independent_boundaries_stable stable_pairs_mem)

lemma boundaries_sorted:
  "sorted_wrt (\<lambda>a b. ip_surface b \<le> ip_surface a \<and> ip_input b < ip_input a)
     (independent_boundaries tables c)"
  by (simp add: independent_boundaries_stable stable_pairs_sorted)

lemma locate_frozen_run:
  assumes ok: "composing_ok tables c" and t: "0 < t" "t < length (surface c)"
    and loc: "locate t (independent_boundaries tables c)
                \<lparr>ip_input = length (input c), ip_surface = length (surface c)\<rparr> = Between s e"
  shows "cut_at tables c (ip_surface s) (ip_input s)" and "cut_at tables c (ip_surface e) (ip_input e)"
    and "ip_surface s < t" and "t < ip_surface e" and "ip_surface e \<le> length (surface c)"
    and "\<And>j. j \<le> length (input c) \<Longrightarrow> stable_upto tables (input c) j (length (input c)) \<Longrightarrow>
           len_at tables (input c) j < t \<Longrightarrow> j \<le> ip_input s"
proof -
  let ?n = "length (input c)"
  have zero: "\<exists>b \<in> set (independent_boundaries tables c). ip_surface b < t"
    using t(1) by (intro bexI [of _ "\<lparr>ip_input = 0, ip_surface = 0\<rparr>"]) (simp_all add: boundary_mem stable_zero)
  note found = locate_Between [OF loc zero boundaries_sorted]
  from found have s: "ip_input s \<le> ?n" "stable_upto tables (input c) (ip_input s) ?n"
      "ip_surface s = len_at tables (input c) (ip_input s)"
    by (auto simp: boundary_mem)
  show "cut_at tables c (ip_surface s) (ip_input s)"
    using cut_at_stable [OF ok s(1,2)] s(3) by simp
  show "ip_surface s < t" using found by simp
  show "j \<le> ip_input s" if "j \<le> ?n" "stable_upto tables (input c) j ?n" "len_at tables (input c) j < t" for j
    using found that boundary_mem [of "\<lparr>ip_input = j, ip_surface = len_at tables (input c) j\<rparr>" tables c]
    by auto
  have "cut_at tables c (ip_surface e) (ip_input e) \<and> t < ip_surface e \<and> ip_surface e \<le> length (surface c)"
  proof (cases "e = \<lparr>ip_input = ?n, ip_surface = length (surface c)\<rparr>")
    case True
    with t(2) composing_ok_surface [OF ok] show ?thesis by (simp add: cut_at_def)
  next
    case False
    with found have e: "ip_input e \<le> ?n" "stable_upto tables (input c) (ip_input e) ?n"
        "ip_surface e = len_at tables (input c) (ip_input e)" "t < ip_surface e"
      by (auto simp: boundary_mem)
    have "len_at tables (input c) (ip_input e) \<le> len_at tables (input c) ?n"
      using e(1,2) stable_len_mono [of tables "input c" "ip_input e" ?n ?n] by simp
    with e cut_at_stable [OF ok e(1,2)] composing_ok_surface [OF ok] show ?thesis
      by (simp add: len_at_convert)
  qed
  then show "cut_at tables c (ip_surface e) (ip_input e)" and "t < ip_surface e"
    and "ip_surface e \<le> length (surface c)" by simp_all
qed

text \<open>A run of frozen characters stands between what is left and right of it.\<close>

abbreviation frozen_characters :: "grapheme list \<Rightarrow> InputElement list" where
  "frozen_characters vs \<equiv> map (\<lambda>v. character_element v frozen) vs"

lemma frozen_characters_style: "e \<in> set (frozen_characters vs) \<Longrightarrow> input_style e = frozen"
  by (auto simp: character_element_def)

lemma convert_frozen_run:
  assumes "registry_ok tables" and "\<forall>e \<in> set (xs @ ys). quiet tables e" and "vs \<noteq> []"
  shows "convert_elements tables (xs @ frozen_characters vs @ ys) =
         convert_elements tables xs @ vs @ convert_elements tables ys"
proof -
  let ?F = "frozen_characters vs"
  have F: "input_style (hd ?F) = frozen" "input_style (last ?F) = frozen"
    using assms(3) by (simp_all add: hd_map last_map character_element_def)
  have "convert_elements tables (xs @ ?F @ ys) = convert_elements tables xs @ convert_elements tables (?F @ ys)"
    using assms F by (intro join_frozen) auto
  also have "convert_elements tables (?F @ ys) = convert_elements tables ?F @ convert_elements tables ys"
    using assms F by (intro join_frozen) auto
  finally show ?thesis by (simp add: convert_frozen_characters [OF assms(1)])
qed

text \<open>Replacing the input between two cuts by the frozen surface between them.\<close>

lemma freeze_run:
  assumes r: "registry_ok tables" and ok: "composing_ok tables c"
    and s: "cut_at tables c ls a" and e: "cut_at tables c le b"
    and t: "ls < t" "t < le" "le \<le> length (surface c)"
    and c': "c' = c\<lparr>input := splice_range a b
               (frozen_characters (take (le - ls) (drop ls (surface c)))) (input c)\<rparr>"
  shows "composing_ok tables c'" and "cut_at tables c' t (t - ls + a)"
    and "stable_upto tables (input c') (t - ls + a) (length (input c'))"
    and "\<And>j. j \<le> a \<Longrightarrow> take j (input c') = take j (input c)"
proof -
  define l where "l = take (t - ls) (drop ls (surface c))"
  define m where "m = take (le - t) (drop t (surface c))"
  let ?xs = "take a (input c)" and ?ys = "drop b (input c)"
  have sl: "take ls (surface c) @ l = take t (surface c)"
    using t unfolding l_def by (metis le_add_diff_inverse less_imp_le take_add)
  have sm: "m @ drop le (surface c) = drop t (surface c)"
    using t unfolding m_def by (metis append_take_drop_id drop_drop le_add_diff_inverse2 less_imp_le)
  have "take (le - ls) (drop ls (surface c)) = l @ m"
    using t take_add [of "t - ls" "le - t" "drop ls (surface c)"] by (simp add: l_def m_def)
  then have inp: "input c' = (?xs @ frozen_characters l) @ frozen_characters m @ ?ys"
    by (simp add: c' splice_range_def)
  have ne: "l \<noteq> []" "m \<noteq> []" using t by (auto simp: l_def m_def)
  have len: "length (?xs @ frozen_characters l) = t - ls + a"
    using t s by (simp add: l_def cut_at_def)
  have q: "\<forall>x \<in> set (?xs @ ?ys). quiet tables x" and qc: "\<forall>x \<in> set (input c'). quiet tables x"
    using ok by (auto simp: composing_ok_def inp dest: in_set_takeD in_set_dropD)
  have "convert_elements tables (input c') = (take ls (surface c) @ l) @ m @ drop le (surface c)"
    using convert_frozen_run [OF r q, of "l @ m"] ne s e by (simp add: inp cut_at_def)
  then have "convert_elements tables (input c') = surface c" unfolding sl sm by simp
  moreover have "surface c' = surface c" "cursor c' = cursor c" by (simp_all add: c')
  ultimately show "composing_ok tables c'" using ok qc unfolding composing_ok_def by metis
  show "cut_at tables c' t (t - ls + a)"
    using convert_frozen_run [OF r, of ?xs "[]" l] convert_frozen_run [OF r, of "[]" ?ys m]
      q ne s e sl sm len inp
    by (simp add: cut_at_def) (auto simp: c')
  have "last (?xs @ frozen_characters l) = input c' ! (t - ls + a - 1)"
    unfolding inp len [symmetric] by (rule last_append_nth) (simp add: ne)
  moreover have "input_style (last (?xs @ frozen_characters l)) = frozen"
    using ne by (simp add: last_map character_element_def)
  ultimately have "input_style (input c' ! (t - ls + a - 1)) = frozen" by simp
  then show "stable_upto tables (input c') (t - ls + a) (length (input c'))"
    using r qc len inp by (intro stable_after_frozen) auto
  show "take j (input c') = take j (input c)" if "j \<le> a" for j
    using that s by (simp add: inp cut_at_def)
qed

text \<open>\<open>force_input_cursor\<close> makes any surface position a cut, without changing what is shown.\<close>

lemma force_input_cursor_cut:
  assumes r: "registry_ok tables" and ok: "composing_ok tables c" and t: "t \<le> length (surface c)"
    and f: "force_input_cursor tables t c = (c', i)"
  shows "composing_ok tables c'" and "cursor c' = cursor c" and "surface c' = surface c"
    and "cut_at tables c' t i"
    and "t < length (surface c) \<Longrightarrow> stable_upto tables (input c') i (length (input c'))"
    and "\<And>j. j \<le> length (input c) \<Longrightarrow> stable_upto tables (input c) j (length (input c)) \<Longrightarrow>
           len_at tables (input c) j < t \<Longrightarrow> j \<le> i \<and> take j (input c') = take j (input c)"
proof -
  let ?all = "composing_ok tables c' \<and> cursor c' = cursor c \<and> surface c' = surface c \<and> cut_at tables c' t i \<and>
    (t < length (surface c) \<longrightarrow> stable_upto tables (input c') i (length (input c'))) \<and>
    (\<forall>j. j \<le> length (input c) \<and> stable_upto tables (input c) j (length (input c)) \<and>
       len_at tables (input c) j < t \<longrightarrow> j \<le> i \<and> take j (input c') = take j (input c))"
  have ?all
  proof (cases "t = 0 \<or> t \<ge> length (surface c)")
    case True
    with f ok t composing_ok_surface [OF ok] show ?thesis
      by (auto simp: force_input_cursor_def cut_at_def stable_zero split: if_splits)
  next
    case False
    show ?thesis
    proof (cases "locate t (independent_boundaries tables c)
        \<lparr>ip_input = length (input c), ip_surface = length (surface c)\<rparr>")
      case (At k)
      with f False have c': "c' = c" "i = k" by (auto simp: force_input_cursor_def)
      from locate_At [OF At] have k: "k \<le> length (input c)"
          "stable_upto tables (input c) k (length (input c))" "len_at tables (input c) k = t"
        by (auto simp: boundary_mem)
      have "j \<le> k" if "j \<le> length (input c)" "len_at tables (input c) j < t" for j
        using that k stable_len_mono [OF k(2), of j] by (meson leD le_refl nle_le)
      with k c' ok cut_at_stable [OF ok k(1,2)] show ?thesis by simp
    next
      case (Between s e)
      note run = locate_frozen_run [OF ok _ _ Between]
      from False have t': "0 < t" "t < length (surface c)" by auto
      note frz = freeze_run [OF r ok run(1,2) run(3-5), OF t' t' t' t' t' refl]
      from f False Between have c': "c' = c\<lparr>input := splice_range (ip_input s) (ip_input e)
          (frozen_characters (take (ip_surface e - ip_surface s) (drop (ip_surface s) (surface c)))) (input c)\<rparr>"
        and i: "i = t - ip_surface s + ip_input s"
        by (auto simp: force_input_cursor_def)
      show ?thesis using frz run(6) [OF t'] unfolding i c' by fastforce
    qed
  qed
  then show "composing_ok tables c'" and "cursor c' = cursor c" and "surface c' = surface c"
    and "cut_at tables c' t i"
    and "t < length (surface c) \<Longrightarrow> stable_upto tables (input c') i (length (input c'))"
    and "\<And>j. j \<le> length (input c) \<Longrightarrow> stable_upto tables (input c) j (length (input c)) \<Longrightarrow>
           len_at tables (input c) j < t \<Longrightarrow> j \<le> i \<and> take j (input c') = take j (input c)"
    by blast+
qed

section \<open>The operations\<close>

lemma convert_snoc_frozen_separator:
  "registry_ok tables \<Longrightarrow> convert_elements tables (xs @ [frozen_separator]) = convert_elements tables xs"
  using step_frozen(2) [of tables frozen_separator "run_segments tables [] xs"]
  by (simp add: convert_elements_def frozen_separator_def)

text \<open>Dropping a frozen separator in front of a cut moves the cut by one.\<close>

lemma separator_before_split:
  assumes "separator_before i es" and "i \<le> length es"
  shows "take i es = take (i - 1) es @ [frozen_separator]"
    and "take (i - 1) (remove_at (i - 1) es) = take (i - 1) es"
    and "drop (j - 1) (remove_at (i - 1) es) = (if i \<le> j then drop j es else drop (j - 1) (remove_at (i - 1) es))"
proof -
  obtain k where k: "i = Suc k" "k < length es"
    using assms by (cases i) (auto simp: separator_before_def)
  with assms(1) have "es ! k = frozen_separator"
    by (cases "es ! k") (auto simp: separator_before_def frozen_separator_def)
  with k show "take i es = take (i - 1) es @ [frozen_separator]"
    by (simp add: take_Suc_conv_app_nth)
  show "take (i - 1) (remove_at (i - 1) es) = take (i - 1) es"
    using k by (simp add: remove_at_def)
  show "drop (j - 1) (remove_at (i - 1) es) = (if i \<le> j then drop j es else drop (j - 1) (remove_at (i - 1) es))"
    using k by (auto simp: remove_at_def min_def)
qed

lemma trim_separator:
  assumes r: "registry_ok tables" and ij: "i \<le> j" "j \<le> length es"
  obtains inp i' where
    "(if separator_before i es then (remove_at (i - 1) es, i - 1) else (es, i)) = (inp, i')"
    "(if separator_before i es then (remove_at (i - 1) es, i - 1, j - 1) else (es, i, j)) =
     (inp, i', j - (i - i'))"
    "i' \<le> length inp" "set inp \<subseteq> set es"
    "convert_elements tables (take i' inp) = convert_elements tables (take i es)"
    "drop (j - (i - i')) inp = drop j es"
proof (cases "separator_before i es")
  case True
  have i: "i \<le> length es" "0 < i" using ij True by (auto simp: separator_before_def)
  note split = separator_before_split [OF True i(1)]
  show thesis
  proof (rule that [of "remove_at (i - 1) es" "i - 1"])
    show "convert_elements tables (take (i - 1) (remove_at (i - 1) es)) =
          convert_elements tables (take i es)"
      by (simp add: split(1,2) convert_snoc_frozen_separator [OF r] del: One_nat_def)
    show "drop (j - (i - (i - 1))) (remove_at (i - 1) es) = drop j es"
      using split(3) [of j] ij i by simp
    show "set (remove_at (i - 1) es) \<subseteq> set es"
      by (auto simp: remove_at_def dest: in_set_takeD in_set_dropD)
  qed (use True i ij in \<open>auto simp: remove_at_def\<close>)
next
  case False
  with ij show thesis by (intro that [of es i]) auto
qed

text \<open>
  \<open>insert\<close> puts the elements into the history at the cursor: what is behind the cursor stays, the
  cursor ends up in front of it, and the surface is again the converted history. A composing text
  whose surface is empty has to have an empty history.
\<close>

lemma insert_elements_result:
  assumes "registry_ok tables" and "elements \<noteq> []" and "cursor c \<le> length (surface c)"
    and f: "force_input_cursor tables (cursor c) c = (c1, i)"
    and ik: "(if separator_before i (input c1) then (remove_at (i - 1) (input c1), i - 1) else (input c1, i)) = (inp, k)"
    and c1: "surface c1 = surface c" "cursor c1 = cursor c" and k: "k \<le> length inp"
    and els: "els = (if is_at_end c then elements else elements @ [frozen_separator])"
    and np: "np = convert_elements tables (take k inp @ elements)"
  shows "insert_elements tables elements c =
         \<lparr>cursor = length np, input = take k inp @ els @ drop k inp, surface = np @ drop (cursor c) (surface c)\<rparr>"
proof -
  let ?old = "take (cursor c) (surface c)"
  have el: "(if \<not> is_at_end c1 then elements @ [frozen_separator] else elements) = els"
    using c1 by (simp add: els is_at_end_def)
  have "take (k + length els) (splice_range k k els inp) = take k inp @ els"
    using k by (simp add: splice_range_def)
  moreover have "convert_elements tables (take k inp @ els) = np"
    using convert_snoc_frozen_separator [OF assms(1), of "take k inp @ elements"] by (simp add: els np)
  moreover have "cursor c - (length ?old - common_prefix_len ?old np) + (length np - common_prefix_len ?old np) = length np"
    using common_prefix_len_le [of ?old np] assms(3) by simp
  ultimately show ?thesis
    using assms(2) unfolding insert_elements_def
    by (simp only: f prod.case Let_def el ik if_False c1) (simp only: splice_range_def)
qed

lemma insert_elements_parts:
  assumes r: "registry_ok tables" and ok: "composing_ok tables c"
    and start: "surface c = [] \<Longrightarrow> input c = []" and ne: "elements \<noteq> []"
  obtains xs ys where
    "convert_elements tables xs = take (cursor c) (surface c)"
    "convert_elements tables ys = drop (cursor c) (surface c)"
    "\<forall>e \<in> set (xs @ ys). quiet tables e"
    "is_at_end c \<Longrightarrow> ys = []"
    "input (insert_elements tables elements c) =
       xs @ (if is_at_end c then elements else elements @ [frozen_separator]) @ ys"
    "surface (insert_elements tables elements c) =
       convert_elements tables (xs @ elements) @ drop (cursor c) (surface c)"
    "cursor (insert_elements tables elements c) = length (convert_elements tables (xs @ elements))"
proof -
  obtain c1 i where f: "force_input_cursor tables (cursor c) c = (c1, i)" by force
  have cur: "cursor c \<le> length (surface c)" using ok by (rule composing_ok_cursor)
  note frc = force_input_cursor_cut [OF r ok cur f]
  have ile: "i \<le> length (input c1)" using frc(4) by (simp add: cut_at_def)
  obtain inp k where t:
    "(if separator_before i (input c1) then (remove_at (i - 1) (input c1), i - 1) else (input c1, i)) = (inp, k)"
    "k \<le> length inp" "set inp \<subseteq> set (input c1)"
    "convert_elements tables (take k inp) = convert_elements tables (take i (input c1))"
    "drop (i - (i - k)) inp = drop i (input c1)"
    by (rule trim_separator [OF r order.refl ile])
  have k: "i - (i - k) = k" using t(1) by (auto split: if_splits)
  note ins = insert_elements_result [OF r ne cur f t(1) frc(3) frc(2) t(2) refl refl]
  have "drop i (input c1) = []" if "is_at_end c"
    using that start f by (auto simp: force_input_cursor_def is_at_end_def split: if_splits)
  then show ?thesis
    using ins t(3-5) k frc(1,3,4)
    by (intro that [of "take k inp" "drop k inp"])
       (auto simp: cut_at_def composing_ok_def dest: in_set_takeD in_set_dropD)
qed

lemma insert_elements_ok:
  assumes r: "registry_ok tables" and ok: "composing_ok tables c"
    and start: "surface c = [] \<Longrightarrow> input c = []"
    and q: "\<forall>e \<in> set elements. quiet tables e"
  shows "composing_ok tables (insert_elements tables elements c)"
    and "drop (cursor (insert_elements tables elements c)) (surface (insert_elements tables elements c)) =
         drop (cursor c) (surface c)"
proof -
  let ?c' = "insert_elements tables elements c"
  have "composing_ok tables ?c' \<and> drop (cursor ?c') (surface ?c') = drop (cursor c) (surface c)"
  proof (cases "elements = []")
    case True
    with ok show ?thesis by (simp add: insert_elements_def)
  next
    case False
    obtain xs ys where p: "convert_elements tables ys = drop (cursor c) (surface c)"
      "\<forall>e \<in> set (xs @ ys). quiet tables e" "is_at_end c \<Longrightarrow> ys = []"
      "input ?c' = xs @ (if is_at_end c then elements else elements @ [frozen_separator]) @ ys"
      "surface ?c' = convert_elements tables (xs @ elements) @ drop (cursor c) (surface c)"
      "cursor ?c' = length (convert_elements tables (xs @ elements))"
      using insert_elements_parts [OF r ok start False] by metis
    have "convert_elements tables (input ?c') = surface ?c'"
    proof (cases "is_at_end c")
      case True
      then show ?thesis using p by (simp add: is_at_end_def)
    next
      case e: False
      have "convert_elements tables ((xs @ elements @ [frozen_separator]) @ ys) =
            convert_elements tables (xs @ elements @ [frozen_separator]) @ convert_elements tables ys"
        using p(2) q by (intro join_frozen [OF r])
          (auto simp: quiet_frozen_separator [OF r], simp add: frozen_separator_def)
      then show ?thesis
        using e p convert_snoc_frozen_separator [OF r, of "xs @ elements"] by simp
    qed
    moreover have "\<forall>e \<in> set (input ?c'). quiet tables e"
      using p(2,4) q quiet_frozen_separator [OF r] by auto
    ultimately show ?thesis using p by (simp add: composing_ok_def)
  qed
  then show "composing_ok tables ?c'" and "drop (cursor ?c') (surface ?c') = drop (cursor c) (surface c)"
    by simp_all
qed

text \<open>Elements that no table rewrites (\<open>Direct\<close> or frozen) appear as they are, at the cursor.\<close>

lemma step_plain:
  assumes "registry_ok tables" and "style = Direct \<or> style = frozen"
  shows "segments_text_of (fst (update_segments tables segs (character_element v style))) =
         segments_text_of segs @ [v]"
  using assms
  by (cases segs "character_element v style" rule: step_cases)
     (auto simp: update_cases text_last [of segs] character_element_def)

lemma convert_plain_run:
  assumes "registry_ok tables" and "style = Direct \<or> style = frozen"
  shows "convert_elements tables (xs @ map (\<lambda>v. character_element v style) vs) =
         convert_elements tables xs @ vs"
proof (induction vs rule: rev_induct)
  case (snoc v vs)
  then show ?case by (simp add: convert_elements_def step_plain [OF assms])
qed simp

lemma insert_plain_surface:
  assumes r: "registry_ok tables" and ok: "composing_ok tables c"
    and start: "surface c = [] \<Longrightarrow> input c = []"
    and style: "style = Direct \<or> style = frozen"
  shows "surface (insert_str graphemes tables value style c) =
         take (cursor c) (surface c) @ graphemes value @ drop (cursor c) (surface c)"
    and "cursor (insert_str graphemes tables value style c) = cursor c + length (graphemes value)"
proof -
  let ?c' = "insert_str graphemes tables value style c"
  have cur: "cursor c \<le> length (surface c)" using ok by (rule composing_ok_cursor)
  have "surface ?c' = take (cursor c) (surface c) @ graphemes value @ drop (cursor c) (surface c) \<and>
        cursor ?c' = cursor c + length (graphemes value)"
  proof (cases "graphemes value = []")
    case True
    then show ?thesis by (simp add: insert_str_def insert_elements_def)
  next
    case False
    let ?els = "map (\<lambda>v. character_element v style) (graphemes value)"
    obtain xs where "convert_elements tables xs = take (cursor c) (surface c)"
      "surface ?c' = convert_elements tables (xs @ ?els) @ drop (cursor c) (surface c)"
      "cursor ?c' = length (convert_elements tables (xs @ ?els))"
      using insert_elements_parts [OF r ok start, where elements = ?els] False
      unfolding insert_str_def by auto
    with convert_plain_run [OF r style, of xs "graphemes value"] cur show ?thesis by simp
  qed
  then show "surface ?c' = take (cursor c) (surface c) @ graphemes value @ drop (cursor c) (surface c)"
    and "cursor ?c' = cursor c + length (graphemes value)" by simp_all
qed

text \<open>Typing at the end appends to the history.\<close>

lemma insert_at_end:
  assumes "registry_ok tables" and "composing_ok tables c" and "surface c \<noteq> [] \<or> input c = []"
    and "is_at_end c" and "\<not> separator_before (length (input c)) (input c)"
    and "\<forall>e \<in> set elements. quiet tables e"
  shows "input (insert_elements tables elements c) = input c @ elements"
    and "surface (insert_elements tables elements c) = convert_elements tables (input c @ elements)"
proof -
  have f: "force_input_cursor tables (cursor c) c = (c, length (input c))"
    using assms(3,4) by (auto simp: force_input_cursor_def is_at_end_def)
  show i: "input (insert_elements tables elements c) = input c @ elements"
    using assms(4,5) by (simp add: insert_elements_def f splice_range_def Let_def)
  have "surface c = [] \<Longrightarrow> input c = []" using assms(3) by blast
  then show "surface (insert_elements tables elements c) = convert_elements tables (input c @ elements)"
    using insert_elements_ok(1) [OF assms(1,2) _ assms(6)] composing_ok_surface i by metis
qed

text \<open>\<open>delete_backward\<close> removes exactly the graphemes in front of the cursor.\<close>

lemma force_two_cuts:
  assumes r: "registry_ok tables" and ok: "composing_ok tables c" and tu: "t < u" "u \<le> length (surface c)"
    and f1: "force_input_cursor tables t c = (c1, i)" and f2: "force_input_cursor tables u c1 = (c2, j)"
  shows "i \<le> j" and "j \<le> length (input c2)" and "composing_ok tables c2"
    and "convert_elements tables (take i (input c2)) = take t (surface c)"
    and "convert_elements tables (drop j (input c2)) = drop u (surface c)"
proof -
  have "t \<le> length (surface c)" using tu by simp
  note one = force_input_cursor_cut [OF r ok this f1]
  have "u \<le> length (surface c1)" using tu one(3) by simp
  note two = force_input_cursor_cut [OF r one(1) this f2]
  have cut1: "i \<le> length (input c1)" "convert_elements tables (take i (input c1)) = take t (surface c)"
    using one(3,4) by (auto simp: cut_at_def)
  then have "len_at tables (input c1) i < u" using tu by (simp add: len_at_convert)
  with one(5) tu show "i \<le> j" "convert_elements tables (take i (input c2)) = take t (surface c)"
    using two(6) [OF cut1(1)] cut1(2) by auto
  show "j \<le> length (input c2)" and "composing_ok tables c2"
    and "convert_elements tables (drop j (input c2)) = drop u (surface c)"
    using two(1,3,4) one(3) by (auto simp: cut_at_def)
qed

text \<open>Two parts of a history meet at a frozen separator, or one of them is empty.\<close>

lemma join_parts:
  assumes r: "registry_ok tables" and q: "\<forall>e \<in> set (xs @ ys). quiet tables e"
    and zs: "zs = (if xs = [] \<or> ys = [] then xs @ ys else xs @ [frozen_separator] @ ys)"
  shows "convert_elements tables zs = convert_elements tables xs @ convert_elements tables ys"
proof (cases "xs = [] \<or> ys = []")
  case False
  have "convert_elements tables ((xs @ [frozen_separator]) @ ys) =
        convert_elements tables (xs @ [frozen_separator]) @ convert_elements tables ys"
    using q quiet_frozen_separator [OF r] by (intro join_frozen [OF r]) (auto, simp add: frozen_separator_def)
  with False show ?thesis by (simp add: zs convert_snoc_frozen_separator [OF r])
qed (auto simp: zs)

lemma delete_backward_parts:
  assumes r: "registry_ok tables" and ok: "composing_ok tables c" and n: "0 < n" "n \<le> cursor c"
  obtains xs ys where
    "convert_elements tables xs = take (cursor c - n) (surface c)"
    "convert_elements tables ys = drop (cursor c) (surface c)"
    "\<forall>e \<in> set (xs @ ys). quiet tables e"
    "delete_backward tables n c =
       (let zs = (if xs = [] \<or> ys = [] then xs @ ys else xs @ [frozen_separator] @ ys)
        in \<lparr>cursor = cursor c - n, input = zs, surface = convert_elements tables zs\<rparr>)"
proof -
  let ?t = "cursor c - n"
  have cur: "cursor c \<le> length (surface c)" using ok by (rule composing_ok_cursor)
  have tl: "?t < cursor c" using n by simp
  obtain c1 i where f1: "force_input_cursor tables ?t c = (c1, i)" by force
  obtain c2 j where f2: "force_input_cursor tables (cursor c) c1 = (c2, j)" by force
  note two = force_two_cuts [OF r ok tl cur f1 f2]
  obtain inp i' where t:
    "(if separator_before i (input c2) then (remove_at (i - 1) (input c2), i - 1, j - 1) else (input c2, i, j)) =
     (inp, i', j - (i - i'))"
    "i' \<le> length inp" "set inp \<subseteq> set (input c2)"
    "convert_elements tables (take i' inp) = convert_elements tables (take i (input c2))"
    "drop (j - (i - i')) inp = drop j (input c2)"
    by (rule trim_separator [OF r two(1,2)])
  let ?j = "j - (i - i')"
  have jl: "?j \<le> length inp"
    using t(1) two(1,2) by (auto simp: remove_at_def separator_before_def split: if_splits)
  have "(i' = 0 \<or> ?j = length inp) \<longleftrightarrow> take i' inp = [] \<or> drop ?j inp = []"
    using t(2) jl by auto
  then have "delete_backward tables n c =
      (let zs = (if take i' inp = [] \<or> drop ?j inp = [] then take i' inp @ drop ?j inp
                 else take i' inp @ [frozen_separator] @ drop ?j inp)
       in \<lparr>cursor = ?t, input = zs, surface = convert_elements tables zs\<rparr>)"
    using n unfolding delete_backward_def Let_def
    by (simp only: min_absorb1 less_not_refl3 if_False f1 f2 prod.case t(1)) (simp add: splice_range_def)
  then show thesis
    using two(3-5) t(3-5)
    by (intro that [of "take i' inp" "drop ?j inp"])
       (auto simp: composing_ok_def dest: in_set_takeD in_set_dropD)
qed

lemma delete_backward_min:
  "delete_backward tables count c = delete_backward tables (min count (cursor c)) c"
  by (simp add: delete_backward_def)

lemma delete_backward_surface:
  assumes r: "registry_ok tables" and ok: "composing_ok tables c"
  shows "surface (delete_backward tables count c) =
         take (cursor c - count) (surface c) @ drop (cursor c) (surface c)"
    and "cursor (delete_backward tables count c) = cursor c - count"
    and "composing_ok tables (delete_backward tables count c)"
proof -
  let ?c' = "delete_backward tables count c"
  define n where "n = min count (cursor c)"
  have cur: "cursor c \<le> length (surface c)" using ok by (rule composing_ok_cursor)
  have c': "?c' = delete_backward tables n c" unfolding n_def by (rule delete_backward_min)
  have n: "n \<le> cursor c" and t_eq: "cursor c - count = cursor c - n" by (simp_all add: n_def)
  have "surface ?c' = take (cursor c - n) (surface c) @ drop (cursor c) (surface c) \<and>
        cursor ?c' = cursor c - n \<and> composing_ok tables ?c'"
  proof (cases "n = 0")
    case True
    then have "?c' = c" unfolding c' by (simp add: delete_backward_def)
    with True ok show ?thesis by simp
  next
    case False
    then obtain xs ys where p: "convert_elements tables xs = take (cursor c - n) (surface c)"
      "convert_elements tables ys = drop (cursor c) (surface c)" "\<forall>e \<in> set (xs @ ys). quiet tables e"
      "?c' = (let zs = (if xs = [] \<or> ys = [] then xs @ ys else xs @ [frozen_separator] @ ys)
              in \<lparr>cursor = cursor c - n, input = zs, surface = convert_elements tables zs\<rparr>)"
      unfolding c' using delete_backward_parts [OF r ok _ n] by blast
    note conv = join_parts [OF r p(3) refl]
    have "\<forall>e \<in> set (input ?c'). quiet tables e" using p(3,4) quiet_frozen_separator [OF r] by (auto simp: Let_def)
    moreover have "surface ?c' = take (cursor c - n) (surface c) @ drop (cursor c) (surface c)"
      unfolding p(4) Let_def by (simp add: conv p(1,2))
    moreover have "surface ?c' = convert_elements tables (input ?c')" "cursor ?c' = cursor c - n"
      by (simp_all add: p(4) Let_def)
    ultimately show ?thesis using cur by (simp add: composing_ok_def)
  qed
  then show "surface ?c' = take (cursor c - count) (surface c) @ drop (cursor c) (surface c)"
    and "cursor ?c' = cursor c - count" and "composing_ok tables ?c'"
    by (simp_all add: t_eq)
qed

lemma composing_ok_cursor_update:
  "composing_ok tables c \<Longrightarrow> k \<le> length (surface c) \<Longrightarrow> composing_ok tables (c\<lparr>cursor := k\<rparr>)"
  by (auto simp: composing_ok_def)

lemma delete_forward_surface:
  assumes "registry_ok tables" and "composing_ok tables c"
  shows "surface (delete_forward tables count c) =
         take (cursor c) (surface c) @ drop (cursor c + count) (surface c)"
    and "cursor (delete_forward tables count c) = cursor c"
    and "composing_ok tables (delete_forward tables count c)"
proof -
  define n where "n = min count (length (surface c) - cursor c)"
  have cur: "cursor c \<le> length (surface c)" using assms(2) by (rule composing_ok_cursor)
  have ok: "composing_ok tables (c\<lparr>cursor := cursor c + n\<rparr>)"
    using assms(2) cur by (intro composing_ok_cursor_update) (auto simp: n_def)
  have e: "delete_forward tables count c = (if n = 0 then c else delete_backward tables n (c\<lparr>cursor := cursor c + n\<rparr>))"
    unfolding delete_forward_def Let_def n_def [symmetric] ..
  have d: "drop (cursor c + count) (surface c) = drop (cursor c + n) (surface c)"
    using cur by (auto simp: n_def min_def)
  show "surface (delete_forward tables count c) =
         take (cursor c) (surface c) @ drop (cursor c + count) (surface c)"
    using delete_backward_surface(1) [OF assms(1) ok, of n] by (simp add: e d)
  show "cursor (delete_forward tables count c) = cursor c"
    using delete_backward_surface(2) [OF assms(1) ok, of n] by (simp add: e)
  show "composing_ok tables (delete_forward tables count c)"
    using delete_backward_surface(3) [OF assms(1) ok, of n] assms(2) by (simp add: e)
qed

lemma move_cursor_ok:
  assumes "composing_ok tables c"
  shows "composing_ok tables (fst (move_cursor k c))"
    and "surface (fst (move_cursor k c)) = surface c"
    and "int (cursor (fst (move_cursor k c))) = clamp 0 (int (length (surface c))) (int (cursor c) + k)"
    and "snd (move_cursor k c) = int (cursor (fst (move_cursor k c))) - int (cursor c)"
proof -
  have cur: "cursor c \<le> length (surface c)" using assms by (rule composing_ok_cursor)
  then show "int (cursor (fst (move_cursor k c))) = clamp 0 (int (length (surface c))) (int (cursor c) + k)"
    and "snd (move_cursor k c) = int (cursor (fst (move_cursor k c))) - int (cursor c)"
    by (auto simp: move_cursor_def clamp_def Let_def)
  have "nat (int (cursor c) + clamp (- int (cursor c)) (int (length (surface c) - cursor c)) k) \<le> length (surface c)"
    using cur by (auto simp: clamp_def)
  then show "composing_ok tables (fst (move_cursor k c))"
    using assms by (simp add: move_cursor_def Let_def composing_ok_cursor_update)
  show "surface (fst (move_cursor k c)) = surface c"
    by (simp add: move_cursor_def Let_def)
qed

text \<open>Completing a surface prefix drops it, whatever input it came from.\<close>

lemma complete_surface_prefix:
  assumes r: "registry_ok tables" and ok: "composing_ok tables c"
  obtains c' where "complete_prefix tables (SurfaceCount n) c = Some c'"
    and "surface c' = drop n (surface c)" and "composing_ok tables c'"
proof -
  let ?n = "min n (length (surface c))"
  obtain c1 i where f: "force_input_cursor tables ?n c = (c1, i)" by force
  note frc = force_input_cursor_cut [OF r ok _ f]
  have cur: "cursor c \<le> length (surface c)" using ok by (rule composing_ok_cursor)
  have d: "drop ?n (surface c) = drop n (surface c)" by (simp add: min_def)
  define c' where "c' = \<lparr>cursor = (if cursor c - ?n = 0 then length (drop ?n (surface c)) else cursor c - ?n),
    input = drop i (input c1), surface = drop ?n (surface c)\<rparr>"
  have "complete_prefix tables (SurfaceCount n) c = Some c'"
    using frc(3) by (simp add: f Let_def c'_def)
  moreover have "surface c' = drop n (surface c)" by (simp add: c'_def d)
  moreover have "composing_ok tables c'"
    using frc(1,3,4) cur by (auto simp: composing_ok_def c'_def cut_at_def dest: in_set_dropD)
  ultimately show thesis by (rule that)
qed

lemma complete_input_ok:
  assumes "composing_ok tables c" and "complete_prefix tables (InputCount n) c = Some c'"
  shows "composing_ok tables c'"
proof -
  have "\<forall>e \<in> set (drop (min n (length (input c))) (input c)). quiet tables e"
    using assms(1) by (auto simp: composing_ok_def dest: in_set_dropD)
  with assms composing_ok_cursor [OF assms(1)] show ?thesis
    by (auto simp: composing_ok_def Let_def split: if_splits)
qed

text \<open>
  A count of input elements is safe where \<open>input_to_surface_map\<close> is defined: the subtraction does
  not overflow and the surface loses exactly the mapped prefix.
\<close>

lemma direct_characters_len:
  assumes "list_all (\<lambda>e. input_style e = Direct \<and> (case piece e of Character _ \<Rightarrow> True | _ \<Rightarrow> False)) es"
  shows "length (convert_elements tables es) = length es"
  using assms
proof (induction es rule: rev_induct)
  case (snoc e es)
  let ?segs = "run_segments tables [] es"
  from snoc.prems obtain v where v: "piece e = Character v" "input_style e = Direct"
    by (auto split: InputPiece.splits)
  then have "segments_text_of (fst (update_segments tables ?segs e)) = segments_text_of ?segs @ [v]"
    by (cases ?segs e rule: step_cases) (auto simp: update_cases text_last [of ?segs])
  with snoc show ?case by (simp add: convert_elements_def)
qed simp

lemma direct_stable:
  assumes "\<forall>e \<in> set es. input_style e = Direct" and "j \<le> length es"
  shows "stable_upto tables es i j"
proof -
  have d0: "kept_at tables es n = len_at tables es n" if "n < length es" for n
  proof -
    have "snd (update_segments tables (seg_at tables es n) (es ! n)) = 0"
      using assms(1) that
      by (cases "seg_at tables es n" "es ! n" rule: step_cases) (simp_all add: update_cases)
    then show ?thesis by (simp add: kept_at_def)
  qed
  have mono: "len_at tables es i \<le> len_at tables es n" if "i \<le> n" "n \<le> length es" for n
    using that
  proof (induction rule: dec_induct)
    case (step m)
    then show ?case using kept_le_next [of m es tables] d0 [of m] by simp
  qed simp
  show ?thesis using assms(2) d0 mono by (simp add: stable_upto_def)
qed

lemma map_of_stack:
  assumes "map_of (map (\<lambda>b. (ip_input b, ip_surface b)) bs) i = Some s"
  shows "\<exists>b \<in> set bs. ip_input b = i \<and> ip_surface b = s"
  using map_of_SomeD [OF assms] by auto

lemma input_to_surface_map_cut:
  assumes "composing_ok tables c" and "input_to_surface_map tables c i = Some s"
  shows "cut_at tables c s i"
proof (cases "has_identity_mapping c")
  case True
  with assms(2) have i: "i \<le> length (input c)" "s = i"
    by (auto simp: input_to_surface_map_def simp del: upt_Suc dest!: map_of_SomeD)
  have direct: "\<forall>e \<in> set (input c). input_style e = Direct"
    using True by (auto simp: has_identity_mapping_def list_all_iff)
  have "len_at tables (input c) i = i"
    using True i direct_characters_len [of "take i (input c)" tables]
    by (auto simp: len_at_convert has_identity_mapping_def list_all_iff dest: in_set_takeD)
  with cut_at_stable [OF assms(1) i(1) direct_stable [OF direct]] i show ?thesis by simp
next
  case False
  with assms(2) obtain b where "b \<in> set (independent_boundaries tables c)" "ip_input b = i" "ip_surface b = s"
    by (auto simp: input_to_surface_map_def dest: map_of_stack)
  with cut_at_stable [OF assms(1), of i] show ?thesis by (auto simp: boundary_mem)
qed

lemma complete_input_prefix:
  assumes ok: "composing_ok tables c" and i: "input_to_surface_map tables c i = Some s"
  obtains c' where "complete_prefix tables (InputCount i) c = Some c'"
    and "surface c' = drop s (surface c)" and "composing_ok tables c'"
proof -
  have cut: "cut_at tables c s i" by (rule input_to_surface_map_cut [OF ok i])
  then have "min i (length (input c)) = i" and "convert_elements tables (drop i (input c)) = drop s (surface c)"
    by (simp_all add: cut_at_def)
  then have "\<exists>c'. complete_prefix tables (InputCount i) c = Some c' \<and> surface c' = drop s (surface c)"
    by (simp add: Let_def)
  then show thesis using that complete_input_ok [OF ok] by blast
qed

lemma complete_prefix_ok:
  assumes "registry_ok tables"
  shows "composing_ok tables c \<Longrightarrow> complete_prefix tables k c = Some c' \<Longrightarrow> composing_ok tables c'"
proof (induction k arbitrary: c c')
  case (InputCount n)
  then show ?case by (rule complete_input_ok)
next
  case (SurfaceCount n)
  obtain d where "complete_prefix tables (SurfaceCount n) c = Some d" "composing_ok tables d"
    by (rule complete_surface_prefix [OF assms SurfaceCount.prems(1), of n])
  with SurfaceCount.prems(2) show ?case by (simp del: complete_prefix.simps)
next
  case (Composite l r)
  from Composite.prems(2) obtain d where "complete_prefix tables l c = Some d" "complete_prefix tables r d = Some c'"
    by (simp split: option.splits)
  then show ?case by (rule Composite.IH(2) [OF Composite.IH(1) [OF Composite.prems(1)]])
qed

lemma prefix_to_cursor_ok:
  assumes r: "registry_ok tables" and ok: "composing_ok tables c"
  shows "surface (prefix_to_cursor tables c) = take (cursor c) (surface c)"
    and "cursor (prefix_to_cursor tables c) = cursor c"
    and "composing_ok tables (prefix_to_cursor tables c)"
proof -
  obtain c1 i where f: "force_input_cursor tables (cursor c) c = (c1, i)" by force
  note frc = force_input_cursor_cut [OF r ok composing_ok_cursor [OF ok] f]
  show "surface (prefix_to_cursor tables c) = take (cursor c) (surface c)"
    and "cursor (prefix_to_cursor tables c) = cursor c"
    using frc(2,3) by (simp_all add: prefix_to_cursor_def f Let_def)
  show "composing_ok tables (prefix_to_cursor tables c)"
    using frc(1-4) composing_ok_cursor [OF ok]
    by (auto simp: prefix_to_cursor_def f Let_def composing_ok_def cut_at_def dest: in_set_takeD)
qed

lemma new_composing_ok: "composing_ok tables new_composing"
  by (simp add: composing_ok_def new_composing_def)

section \<open>The contract towards the session: an edit buffer\<close>

text \<open>
  What the conversion session and the engine rely on: under the invariant the surface is a plain
  text buffer.
\<close>

locale edit_buffer =
  fixes inv :: "'s \<Rightarrow> bool"
    and content :: "'s \<Rightarrow> 'g list"
    and pos :: "'s \<Rightarrow> nat"
    and erase :: "nat \<Rightarrow> 's \<Rightarrow> 's"
    and move :: "int \<Rightarrow> 's \<Rightarrow> 's"
  assumes pos_le: "inv s \<Longrightarrow> pos s \<le> length (content s)"
    and erase_inv: "inv s \<Longrightarrow> inv (erase n s)"
    and erase_content: "inv s \<Longrightarrow> content (erase n s) = take (pos s - n) (content s) @ drop (pos s) (content s)"
    and erase_pos: "inv s \<Longrightarrow> pos (erase n s) = pos s - n"
    and move_inv: "inv s \<Longrightarrow> inv (move k s)"
    and move_content: "inv s \<Longrightarrow> content (move k s) = content s"
    and move_pos: "inv s \<Longrightarrow> int (pos (move k s)) = clamp 0 (int (length (content s))) (int (pos s) + k)"
begin

lemma move_to_end: "inv s \<Longrightarrow> pos (move (int (length (content s) - pos s)) s) = length (content s)"
  using move_pos [of s "int (length (content s) - pos s)"] pos_le [of s] by (simp add: clamp_def)

text \<open>Repeated Backspace at the end takes the graphemes off one by one.\<close>

lemma backspaces:
  assumes "inv s" and "pos s = length (content s)"
  shows "inv ((erase 1 ^^ n) s) \<and> content ((erase 1 ^^ n) s) = take (length (content s) - n) (content s) \<and>
         pos ((erase 1 ^^ n) s) = length (content s) - n"
proof (induction n)
  case 0
  then show ?case using assms by simp
next
  case (Suc n)
  then show ?case by (simp add: erase_inv erase_content erase_pos min_def)
qed

lemma backspaces_empty:
  assumes "inv s" and "pos s = length (content s)"
  shows "content ((erase 1 ^^ n) s) = [] \<longleftrightarrow> length (content s) \<le> n"
  using backspaces [OF assms, of n] by auto

end

definition editable :: "InputTableRegistry \<Rightarrow> ComposingText \<Rightarrow> bool" where
  "editable tables c \<longleftrightarrow> registry_ok tables \<and> composing_ok tables c"

interpretation composing_buffer:
  edit_buffer "editable tables" surface cursor "delete_backward tables" "\<lambda>k c. fst (move_cursor k c)"
  for tables
  by unfold_locales
     (auto simp: editable_def delete_backward_surface move_cursor_ok intro: composing_ok_cursor)

section \<open>Properties\<close>

text \<open>A registry whose romaji table is \<open>sample_table\<close>, for concrete inputs.\<close>

definition sample_registry :: InputTableRegistry where
  "sample_registry =
     \<lparr>empty_input = empty_table, roman_to_kana = sample_table, azik = empty_table,
      kana_jis = empty_table, kana_us = empty_table, custom = Map.empty\<rparr>"

text \<open>The text \<open>na\<close> typed in romaji with \<open>n\<close> appended: two surface graphemes from three elements.\<close>

definition sample_composing :: ComposingText where
  "sample_composing =
     \<lparr>cursor = 2,
      input = map (\<lambda>v. character_element v RomanToKana) [[0x6E], [0x61], [0x6E]],
      surface = [[0x306A], [0x6E]]\<rparr>"

lemma sample_registry_ok: "registry_ok sample_registry"
  by (simp add: registry_ok_def sample_registry_def)

lemma sample_composing_ok: "composing_ok sample_registry sample_composing"
  by code_simp

text \<open>
  C2. Deleting backwards is what a text editor does: exactly the \<open>count\<close> graphemes in front of the
  cursor (or all of them, if there are fewer) disappear, the cursor moves to where they were, the
  text behind the cursor stays, and the remaining history still produces exactly the new surface.
\<close>

theorem delete_backward_text:
  assumes "registry_ok tables" and "composing_ok tables c"
  shows "surface (delete_backward tables count c) =
           take (cursor c - count) (surface c) @ drop (cursor c) (surface c) \<and>
         cursor (delete_backward tables count c) = cursor c - count \<and>
         composing_ok tables (delete_backward tables count c)"
  using delete_backward_surface [OF assms, of count] by blast

theorem delete_backward_text_witness:
  "surface (delete_backward sample_registry 1 sample_composing) =
     take (cursor sample_composing - 1) (surface sample_composing) @
     drop (cursor sample_composing) (surface sample_composing) \<and>
   surface (delete_backward sample_registry 1 sample_composing) = [[0x306A]]"
  using delete_backward_text [OF sample_registry_ok sample_composing_ok, of 1]
  by (simp add: sample_composing_def)

text \<open>
  Deleting forwards removes exactly the \<open>count\<close> graphemes behind the cursor, keeps the cursor and
  the text in front of it, and keeps the history in step with the surface.
\<close>

theorem delete_forward_text:
  assumes "registry_ok tables" and "composing_ok tables c"
  shows "surface (delete_forward tables count c) =
           take (cursor c) (surface c) @ drop (cursor c + count) (surface c) \<and>
         cursor (delete_forward tables count c) = cursor c \<and>
         composing_ok tables (delete_forward tables count c)"
  using delete_forward_surface [OF assms, of count] by blast

theorem delete_forward_text_witness:
  "surface (delete_forward sample_registry 1 (sample_composing\<lparr>cursor := 0\<rparr>)) = [[0x6E]]"
proof -
  have "composing_ok sample_registry (sample_composing\<lparr>cursor := 0\<rparr>)"
    by (rule composing_ok_cursor_update [OF sample_composing_ok]) simp
  from delete_forward_text [OF sample_registry_ok this, of 1] show ?thesis
    by (simp add: sample_composing_def)
qed

text \<open>
  Typing keeps the composing text consistent: whatever the input table makes of the new input,
  the text behind the cursor is untouched, the cursor stands in front of it, and the surface is the
  conversion of the history. (A text whose surface is empty must have an empty history.)
\<close>

theorem insert_str_consistent:
  assumes "registry_ok tables" and "composing_ok tables c" and "surface c = [] \<longrightarrow> input c = []"
  shows "composing_ok tables (insert_str graphemes tables value style c) \<and>
         drop (cursor (insert_str graphemes tables value style c))
              (surface (insert_str graphemes tables value style c)) =
         drop (cursor c) (surface c)"
  unfolding insert_str_def
  using insert_elements_ok [OF assms(1,2), of "map (\<lambda>v. character_element v style) (graphemes value)"] assms(3)
  by auto

theorem insert_str_consistent_witness:
  "composing_ok sample_registry (insert_str scalar_graphemes sample_registry [0x61] RomanToKana sample_composing) \<and>
   surface (insert_str scalar_graphemes sample_registry [0x61] RomanToKana sample_composing) = [[0x306A], [0x306A]]"
proof -
  have "surface (insert_str scalar_graphemes sample_registry [0x61] RomanToKana sample_composing) =
        [[0x306A], [0x306A]]"
    by code_simp
  with insert_str_consistent [OF sample_registry_ok sample_composing_ok, of scalar_graphemes "[0x61]" RomanToKana]
  show ?thesis by (simp add: sample_composing_def)
qed

text \<open>
  Text that no table rewrites (direct input) appears grapheme by grapheme at the cursor, in the
  middle of the text as well as at its end, and the cursor moves behind it.
\<close>

theorem insert_direct_text:
  assumes "registry_ok tables" and "composing_ok tables c" and "surface c = [] \<longrightarrow> input c = []"
  shows "surface (insert_str graphemes tables value Direct c) =
           take (cursor c) (surface c) @ graphemes value @ drop (cursor c) (surface c) \<and>
         cursor (insert_str graphemes tables value Direct c) = cursor c + length (graphemes value)"
  using insert_plain_surface [OF assms(1,2), of Direct graphemes "value"] assms(3) by blast

theorem insert_direct_text_witness:
  "surface (insert_str scalar_graphemes sample_registry [0x61] Direct (sample_composing\<lparr>cursor := 1\<rparr>)) =
   [[0x306A], [0x61], [0x6E]]"
proof -
  have "composing_ok sample_registry (sample_composing\<lparr>cursor := 1\<rparr>)"
    by (rule composing_ok_cursor_update [OF sample_composing_ok]) (simp add: sample_composing_def)
  from insert_direct_text [OF sample_registry_ok this, of scalar_graphemes "[0x61]"] show ?thesis
    by (simp add: sample_composing_def scalar_graphemes_def)
qed

text \<open>
  Committing a candidate that covers \<open>n\<close> surface graphemes leaves exactly the rest of the surface,
  with a history that produces it, even where \<open>n\<close> falls inside what one romaji rule produced.
\<close>

theorem complete_surface_count:
  assumes "registry_ok tables" and "composing_ok tables c"
  shows "\<exists>c'. complete_prefix tables (SurfaceCount n) c = Some c' \<and>
              surface c' = drop n (surface c) \<and> composing_ok tables c'"
  by (rule complete_surface_prefix [OF assms]) blast

theorem complete_surface_count_witness:
  "\<exists>c'. complete_prefix sample_registry (SurfaceCount 1) sample_composing = Some c' \<and>
        surface c' = [[0x6E]] \<and> composing_ok sample_registry c'"
  using complete_surface_count [OF sample_registry_ok sample_composing_ok, of 1]
  by (simp add: sample_composing_def)

text \<open>
  The map from input counts to surface counts, by which the lattice relates nodes to input, only
  has entries where the history can be cut: the first part of the history alone produces the first
  part of the surface and the rest alone produces the rest. Committing an input count of the map
  therefore never overflows the subtraction of lengths and drops exactly the mapped surface.
\<close>

theorem complete_input_count:
  assumes "composing_ok tables c" and "input_to_surface_map tables c i = Some s"
  shows "convert_elements tables (take i (input c)) = take s (surface c) \<and>
         convert_elements tables (drop i (input c)) = drop s (surface c) \<and>
         (\<exists>c'. complete_prefix tables (InputCount i) c = Some c' \<and>
               surface c' = drop s (surface c) \<and> composing_ok tables c')"
proof -
  have "\<exists>c'. complete_prefix tables (InputCount i) c = Some c' \<and>
             surface c' = drop s (surface c) \<and> composing_ok tables c'"
    by (rule complete_input_prefix [OF assms]) blast
  with input_to_surface_map_cut [OF assms] show ?thesis by (simp add: cut_at_def)
qed

theorem complete_input_count_witness:
  "input_to_surface_map sample_registry sample_composing 2 = Some 1 \<and>
   (\<exists>c'. complete_prefix sample_registry (InputCount 2) sample_composing = Some c' \<and> surface c' = [[0x6E]])"
proof -
  have m: "input_to_surface_map sample_registry sample_composing 2 = Some 1" by code_simp
  from complete_input_count [OF sample_composing_ok this] m show ?thesis
    by (auto simp: sample_composing_def)
qed

text \<open>
  Pressing Backspace repeatedly at the end of a composing text takes the graphemes off one at a
  time: the surface is empty after exactly as many presses as it had graphemes, and not earlier.
\<close>

theorem backspaces_clear:
  assumes "editable tables c" and "is_at_end c"
  shows "surface ((delete_backward tables 1 ^^ n) c) = [] \<longleftrightarrow> length (surface c) \<le> n"
  using composing_buffer.backspaces_empty [OF assms(1)] assms(2) by (simp add: is_at_end_def)

theorem backspaces_clear_witness:
  "surface ((delete_backward sample_registry 1 ^^ 2) sample_composing) = []"
proof -
  have "editable sample_registry sample_composing"
    by (simp add: editable_def sample_registry_ok sample_composing_ok)
  then show ?thesis
    using backspaces_clear [of sample_registry sample_composing 2]
    by (simp add: is_at_end_def sample_composing_def)
qed

end
