(* ===== verification/Session_Edit.thy ===== *)
theory Session_Edit
  imports Session Composing_Edit
begin

text \<open>
  The composing text under the operations of a conversion session: the invariant that the surface is
  the conversion of the history, with an empty history when the surface is empty, is kept by every
  operation of \<open>session.rs\<close> that edits the text.
\<close>

section \<open>Tables whose rules produce text\<close>

text \<open>Every rule of the table has a character in its value.\<close>

definition productive_table :: "InputTable \<Rightarrow> bool" where
  "productive_table t \<longleftrightarrow>
     list_all (\<lambda>m. list_ex (\<lambda>v. case v of VCharacter _ \<Rightarrow> True | VAny \<Rightarrow> False) (map_value m)) (mappings t)"

definition productive :: "InputTableRegistry \<Rightarrow> bool" where
  "productive tables \<longleftrightarrow>
     registry_ok tables \<and> productive_table (roman_to_kana tables) \<and> productive_table (azik tables) \<and>
     productive_table (kana_jis tables) \<and> productive_table (kana_us tables) \<and>
     (\<forall>t \<in> ran (custom tables). productive_table t)"

lemma apply_productive:
  assumes "productive_table t"
  shows "fst (apply_table t b p) = [] \<Longrightarrow> b = [] \<and> displayed p = None"
proof (cases "best_match t b p")
  case None
  then show "fst (apply_table t b p) = [] \<Longrightarrow> b = [] \<and> displayed p = None"
    by (auto simp: apply_table_best split: option.splits)
next
  case (Some mt)
  then have "mt \<in> set (all_matches t b p)" unfolding best_match_def by (rule match_order.max_by_mem)
  then have "mappings t ! mapping_index mt \<in> set (mappings t)"
    by (auto simp: all_matches_mem dest: match_mapping_SomeD)
  with assms have "list_ex (\<lambda>v. case v of VCharacter _ \<Rightarrow> True | VAny \<Rightarrow> False) (map_value (mappings t ! mapping_index mt))"
    by (auto simp: productive_table_def list_all_iff)
  then obtain v where "VCharacter v \<in> set (map_value (mappings t ! mapping_index mt))"
    by (metis (no_types, lifting) ValueElement.case(2) ValueElement.exhaust list_ex_iff)
  then have "fst (apply_table t b p) \<noteq> []"
    using Some by (force simp: apply_table_best)
  then show "fst (apply_table t b p) = [] \<Longrightarrow> b = [] \<and> displayed p = None" by simp
qed

lemma resolve_productive:
  assumes "productive tables" and "resolve tables style = Some t"
  shows "productive_table t"
proof -
  have e: "productive_table (empty_input tables)"
    using assms(1) by (simp add: productive_def registry_ok_def productive_table_def empty_table_def)
  show ?thesis
    using assms e
    by (cases "(tables, style)" rule: resolve.cases)
       (auto simp: productive_def intro: ranI split: option.splits)
qed

lemma update_surface_productive:
  assumes "productive tables" and "fst (update_surface tables b p style) = []"
  shows "b = [] \<and> displayed p = None"
proof (cases "resolve tables style")
  case None
  with assms(2) show ?thesis by (auto simp: update_surface_def split: option.splits)
next
  case (Some t)
  then show ?thesis
    using assms(2) apply_productive [OF resolve_productive [OF assms(1) Some]] by (simp add: update_surface_def)
qed

lemma step_productive:
  assumes "productive tables" and "segments_text_of (fst (update_segments tables segs e)) = []"
  shows "displayed (piece e) = None \<and> segments_text_of segs = []"
proof (cases segs e rule: step_cases)
  case same
  with assms(2) have "segments_text_of (butlast segs) = []"
    and "fst (update_surface tables (seg_graphemes (last segs)) (piece e) (input_style e)) = []"
    by (simp_all add: update_cases)
  with update_surface_productive [OF assms(1) this(2)] same show ?thesis by (simp add: text_last)
next
  case push
  with assms(2) have "segments_text_of segs = []" "fst (update_surface tables [] (piece e) (input_style e)) = []"
    by (simp_all add: update_cases)
  with update_surface_productive [OF assms(1) this(2)] show ?thesis by simp
qed (simp add: segments_text_of_def)

lemma convert_productive:
  assumes "productive tables" and "convert_elements tables (xs @ es) = []"
  shows "convert_elements tables xs = [] \<and> (\<forall>e \<in> set es. displayed (piece e) = None)"
  using assms(2)
proof (induction es rule: rev_induct)
  case (snoc e es)
  from snoc.prems have "displayed (piece e) = None \<and> convert_elements tables (xs @ es) = []"
    using step_productive [OF assms(1), of "run_segments tables [] (xs @ es)" e]
    by (simp add: convert_elements_def)
  with snoc.IH show ?case by auto
qed simp

section \<open>The invariant\<close>

text \<open>The composing text is consistent, and an empty surface has an empty history.\<close>

definition text_ok :: "InputTableRegistry \<Rightarrow> ComposingText \<Rightarrow> bool" where
  "text_ok tables c \<longleftrightarrow> composing_ok tables c \<and> (surface c = [] \<longrightarrow> input c = [])"

lemma text_ok_new: "text_ok tables new_composing"
  by (simp add: text_ok_def new_composing_ok) (simp add: new_composing_def)

lemma insert_elements_text_ok:
  assumes p: "productive tables" and ok: "text_ok tables c" and q: "\<forall>e \<in> set elements. quiet tables e"
    and d: "surface c \<noteq> [] \<or> (\<exists>e \<in> set elements. displayed (piece e) \<noteq> None)"
  shows "text_ok tables (insert_elements tables elements c)"
    and "surface (insert_elements tables elements c) \<noteq> []"
proof -
  let ?c' = "insert_elements tables elements c"
  have r: "registry_ok tables" using p by (simp add: productive_def)
  have c: "composing_ok tables c" and start: "surface c = [] \<Longrightarrow> input c = []" using ok by (auto simp: text_ok_def)
  have "surface ?c' \<noteq> []"
  proof (cases "elements = []")
    case True
    with d show ?thesis by (simp add: insert_elements_def)
  next
    case False
    obtain xs where xs: "convert_elements tables xs = take (cursor c) (surface c)"
      "surface ?c' = convert_elements tables (xs @ elements) @ drop (cursor c) (surface c)"
      using insert_elements_parts [OF r c start False] by metis
    show ?thesis
    proof
      assume "surface ?c' = []"
      with xs have "convert_elements tables (xs @ elements) = []" "drop (cursor c) (surface c) = []" by auto
      with convert_productive [OF p this(1)] xs(1) d show False by auto
    qed
  qed
  with insert_elements_ok(1) [OF r c start q]
  show "text_ok tables ?c'" and "surface ?c' \<noteq> []" by (simp_all add: text_ok_def)
qed

text \<open>Deleting leaves an empty history behind when it empties the surface.\<close>

lemma delete_all_history:
  assumes "cursor c - count = 0" and "cursor c = length (surface c)" and "0 < count" and "surface c \<noteq> []"
  shows "input (delete_backward tables count c) = []"
proof -
  have f0: "force_input_cursor tables 0 c = (c, 0)" by (simp add: force_input_cursor_def)
  show ?thesis
    using assms
    by (cases "cursor c = 0")
       (auto simp: delete_backward_def Let_def f0 force_input_cursor_def separator_before_def splice_range_def
             split: if_splits)
qed

lemma delete_backward_text_ok:
  assumes p: "productive tables" and ok: "text_ok tables c"
  shows "text_ok tables (delete_backward tables count c)"
proof -
  let ?c' = "delete_backward tables count c"
  have r: "registry_ok tables" using p by (simp add: productive_def)
  have c: "composing_ok tables c" using ok by (simp add: text_ok_def)
  have cur: "cursor c \<le> length (surface c)" using c by (rule composing_ok_cursor)
  note del = delete_backward_surface [OF r c, of count]
  have "input ?c' = []" if "surface ?c' = []"
  proof -
    from that del(1) cur have e: "cursor c = length (surface c)" "cursor c - count = 0 \<or> surface c = []" by auto
    show ?thesis
    proof (cases "surface c = [] \<or> count = 0")
      case True
      then have "?c' = c" using e by (auto simp: delete_backward_def)
      with that ok show ?thesis by (simp add: text_ok_def)
    next
      case False
      with e show ?thesis by (intro delete_all_history) auto
    qed
  qed
  with del(3) show ?thesis by (simp add: text_ok_def)
qed

lemma text_ok_cursor: "text_ok tables c \<Longrightarrow> k \<le> length (surface c) \<Longrightarrow> text_ok tables (c\<lparr>cursor := k\<rparr>)"
  by (simp add: text_ok_def composing_ok_cursor_update)

lemma delete_forward_text_ok:
  assumes "productive tables" and "text_ok tables c"
  shows "text_ok tables (delete_forward tables count c)"
proof -
  have "cursor c \<le> length (surface c)" using assms(2) composing_ok_cursor unfolding text_ok_def by blast
  then show ?thesis
    using assms unfolding delete_forward_def Let_def
    by (auto intro!: delete_backward_text_ok text_ok_cursor)
qed

lemma move_cursor_text_ok: "text_ok tables c \<Longrightarrow> text_ok tables (fst (move_cursor k c))"
  using move_cursor_ok(1) [of tables c k] by (simp add: text_ok_def move_cursor_def Let_def)

text \<open>The release build's completion agrees with the checked one where that one does not overflow.\<close>

lemma complete_wrapping_prefix: "complete_prefix tables k c = Some c' \<Longrightarrow> complete_wrapping tables k c = c'"
  by (induction k arbitrary: c c')
     (auto simp: Let_def split: if_splits prod.splits option.splits)

lemma complete_wrapping_input_ok:
  assumes "composing_ok tables c"
  shows "composing_ok tables (complete_wrapping tables (InputCount n) c)"
proof -
  have "\<forall>e \<in> set (drop (min n (length (input c))) (input c)). quiet tables e"
    using assms by (auto simp: composing_ok_def dest: in_set_dropD)
  with composing_ok_cursor [OF assms] show ?thesis
    by (auto simp: composing_ok_def Let_def)
qed

lemma complete_wrapping_ok:
  assumes "registry_ok tables"
  shows "composing_ok tables c \<Longrightarrow> composing_ok tables (complete_wrapping tables k c)"
proof (induction k arbitrary: c)
  case (InputCount n)
  then show ?case by (rule complete_wrapping_input_ok)
next
  case (SurfaceCount n)
  obtain d where "complete_prefix tables (SurfaceCount n) c = Some d" "composing_ok tables d"
    by (rule complete_surface_prefix [OF assms SurfaceCount, of n])
  then show ?case using complete_wrapping_prefix by blast
next
  case (Composite l r)
  then show ?case by simp
qed

lemma completed_text_ok:
  assumes "registry_ok tables" and "text_ok tables c" and "surface (completed tables k c) \<noteq> []"
  shows "text_ok tables (completed tables k c)"
  using assms complete_wrapping_ok [OF assms(1), of c] by (simp add: text_ok_def completed_def)

lemma prefix_to_cursor_text_ok:
  assumes "registry_ok tables" and "text_ok tables c"
  shows "text_ok tables (prefix_to_cursor tables c)"
proof -
  have c: "composing_ok tables c" using assms(2) by (simp add: text_ok_def)
  note pre = prefix_to_cursor_ok [OF assms(1) c]
  have "input (prefix_to_cursor tables c) = []" if "take (cursor c) (surface c) = []"
    using that assms(2) by (auto simp: prefix_to_cursor_def force_input_cursor_def text_ok_def)
  with pre show ?thesis by (simp add: text_ok_def)
qed

lemma insert_displayed_text_ok:
  assumes "productive tables" and "text_ok tables c" and "\<forall>e \<in> set elements. displayed (piece e) \<noteq> None"
  shows "text_ok tables (insert_elements tables elements c)"
    and "elements \<noteq> [] \<or> surface c \<noteq> [] \<Longrightarrow> surface (insert_elements tables elements c) \<noteq> []"
proof -
  have q: "\<forall>e \<in> set elements. quiet tables e" using assms(3) by (auto simp: quiet_def)
  show "text_ok tables (insert_elements tables elements c)"
  proof (cases "elements = []")
    case True
    with assms(2) show ?thesis by (simp add: insert_elements_def)
  next
    case False
    then have "\<exists>e \<in> set elements. displayed (piece e) \<noteq> None" using assms(3) by (cases elements) auto
    then show ?thesis using insert_elements_text_ok(1) [OF assms(1,2) q] by blast
  qed
  show "surface (insert_elements tables elements c) \<noteq> []" if "elements \<noteq> [] \<or> surface c \<noteq> []"
  proof -
    have "surface c \<noteq> [] \<or> (\<exists>e \<in> set elements. displayed (piece e) \<noteq> None)"
      using that assms(3) by (cases elements) auto
    then show ?thesis by (rule insert_elements_text_ok(2) [OF assms(1,2) q])
  qed
qed

lemma insert_str_text_ok:
  assumes "productive tables" and "text_ok tables c"
  shows "text_ok tables (insert_str graphemes tables v style c)"
    and "graphemes v \<noteq> [] \<or> surface c \<noteq> [] \<Longrightarrow> surface (insert_str graphemes tables v style c) \<noteq> []"
  unfolding insert_str_def
  using insert_displayed_text_ok [OF assms, of "map (\<lambda>v. character_element v style) (graphemes v)"]
  by (auto simp: character_element_def)

section \<open>Sessions\<close>

definition session_ok :: "InputTableRegistry \<Rightarrow> ConversionSession \<Rightarrow> bool" where
  "session_ok tables s \<longleftrightarrow>
     text_ok tables (composing s) \<and> (\<forall>c. full_composing s = Some c \<longrightarrow> text_ok tables c)"

lemma session_okI:
  "session_ok tables s \<Longrightarrow> text_ok tables (composing s') \<Longrightarrow> full_composing s' = full_composing s \<Longrightarrow>
   session_ok tables s'"
  by (simp add: session_ok_def)

lemma retain_prediction_prefix_simps [simp]:
  "composing (retain_prediction_prefix s) = composing s"
  "full_composing (retain_prediction_prefix s) = full_composing s"
  "learning_attached (retain_prediction_prefix s) = learning_attached s"
  by (simp_all add: retain_prediction_prefix_def)

lemma after_deletion_simps [simp]:
  "composing (after_deletion s) = composing s"
  "full_composing (after_deletion s) = full_composing s"
  by (simp_all add: after_deletion_def Let_def)

lemma session_edit_simps [simp]:
  "composing (session_insert_str g tables v style s) = insert_str g tables v style (composing s)"
  "full_composing (session_insert_str g tables v style s) = full_composing s"
  "composing (session_insert_key tables i n m style s) =
     insert_elements tables [\<lparr>piece = Key i n m, input_style = style\<rparr>] (composing s)"
  "full_composing (session_insert_key tables i n m style s) = full_composing s"
  "composing (session_delete_backward tables k s) = delete_backward tables k (composing s)"
  "full_composing (session_delete_backward tables k s) = full_composing s"
  "composing (session_delete_forward tables k s) = delete_forward tables k (composing s)"
  "full_composing (session_delete_forward tables k s) = full_composing s"
  "composing (session_move_cursor j s) = fst (move_cursor j (composing s))"
  "full_composing (session_move_cursor j s) = full_composing s"
  "composing (session_reset s) = new_composing"
  "full_composing (session_reset s) = full_composing s"
  "full_composing (insert_composition_separator tables style s) = full_composing s"
  by (simp_all add: session_insert_str_def session_insert_key_def session_delete_backward_def
    session_delete_forward_def session_move_cursor_def session_reset_def stop_composing_def
    insert_composition_separator_def)

text \<open>Separators are put behind text only, in a style whose separator rule needs text to work on.\<close>

definition style_quiet :: "InputTableRegistry \<Rightarrow> InputStyle \<Rightarrow> bool" where
  "style_quiet tables style \<longleftrightarrow> quiet tables \<lparr>piece = CompositionSeparator, input_style = style\<rparr>"

text \<open>One operation of a session. The premises are what the callers in the engine check.\<close>

inductive session_step ::
  "'m Services \<Rightarrow> InputTableRegistry \<Rightarrow> ConversionSession \<Rightarrow> ConversionSession \<Rightarrow> bool"
  for sv tables where
  insert_str: "session_step sv tables s (session_insert_str (sv_graphemes sv) tables v style s)"
| insert_key: "session_step sv tables s (session_insert_key tables i n m style s)"
| insert_separator: "surface (composing s) \<noteq> [] \<Longrightarrow> style_quiet tables style \<Longrightarrow>
    session_step sv tables s (insert_composition_separator tables style s)"
| delete_backward: "session_step sv tables s (session_delete_backward tables k s)"
| delete_forward: "session_step sv tables s (session_delete_forward tables k s)"
| move_cursor: "session_step sv tables s (session_move_cursor j s)"
| accept: "session_step sv tables s (fst (accept_prediction_candidate (sv_graphemes sv) tables c s))"
| select: "select_candidate_value sv tables c mem s = (mem', s', Inr text) \<Longrightarrow> session_step sv tables s s'"
| begin_segment: "session_step sv tables s (begin_segment_request tables s)"
| end_segment: "session_step sv tables s (end_segment_request s)"
| request: "session_request sv tables options mem s = (s', r) \<Longrightarrow> session_step sv tables s s'"
| finalize: "finalize_zenz_request sv tables options override mem s = (s', r) \<Longrightarrow> session_step sv tables s s'"
| reset: "session_step sv tables s (session_reset s)"

inductive session_reachable :: "'m Services \<Rightarrow> InputTableRegistry \<Rightarrow> ConversionSession \<Rightarrow> bool"
  for sv tables where
  start: "session_reachable sv tables new_session"
| step: "session_reachable sv tables s \<Longrightarrow> session_step sv tables s s' \<Longrightarrow> session_reachable sv tables s'"

text \<open>Requests do not touch the composing text.\<close>

lemma predictions_text:
  assumes "predictions sv tables n es p mem s = (s', r)"
  shows "composing s' = composing s \<and> full_composing s' = full_composing s \<and>
         learning_attached s' = learning_attached s"
  using assms by (auto simp: predictions_def Let_def split: if_splits sum.splits)

lemma assemble_request_text:
  assumes "assemble_request sv tables options full override pc mem s = (s', r)"
  shows "composing s' = composing s \<and> full_composing s' = full_composing s \<and>
         learning_attached s' = learning_attached s"
proof -
  obtain s1 r1 where p: "requested_predictions sv tables options override pc mem s = (s1, r1)" by force
  then have "composing s1 = composing s \<and> full_composing s1 = full_composing s \<and>
             learning_attached s1 = learning_attached s"
    by (auto simp: requested_predictions_def dest!: predictions_text split: if_splits option.splits)
  moreover from assms p have "\<exists>cs. s' = s1 \<or> s' = s1\<lparr>candidates := cs\<rparr>"
    by (auto simp: assemble_request_def Let_def split: sum.splits)
  ultimately show ?thesis by auto
qed

lemma session_request_text:
  "session_request sv tables options mem s = (s', r) \<Longrightarrow>
   composing s' = composing s \<and> full_composing s' = full_composing s \<and>
   learning_attached s' = learning_attached s"
  by (auto simp: session_request_def split: sum.splits dest: assemble_request_text)

lemma finalize_zenz_request_text:
  "finalize_zenz_request sv tables options override mem s = (s', r) \<Longrightarrow>
   composing s' = composing s \<and> full_composing s' = full_composing s \<and>
   learning_attached s' = learning_attached s"
  by (auto simp: finalize_zenz_request_def Let_def dest: assemble_request_text)

lemma select_candidate_value_ok:
  assumes "productive tables" and "session_ok tables s"
    and "select_candidate_value sv tables c mem s = (mem', s', Inr text)"
  shows "session_ok tables s' \<and> full_composing s' = full_composing s \<and> text = cand_text c \<and>
         surface (composing s') = surface (completed tables c (composing s)) \<and>
         learning_attached s' = learning_attached s"
proof -
  have r: "registry_ok tables" using assms(1) by (simp add: productive_def)
  let ?k = "completed tables c (composing s)"
  have "full_composing s' = full_composing s \<and> text = cand_text c \<and> learning_attached s' = learning_attached s \<and>
        composing s' = (if surface ?k = [] then new_composing else ?k)"
    using assms(3)
    by (auto simp: select_candidate_value_def Let_def is_empty_composing_def stop_composing_def
             split: prod.splits option.splits if_splits)
  moreover have "surface ?k \<noteq> [] \<Longrightarrow> text_ok tables ?k"
    using assms(2) by (intro completed_text_ok [OF r]) (auto simp: session_ok_def)
  ultimately show ?thesis
    using assms(2) text_ok_new [of tables] by (auto simp: session_ok_def) (simp_all add: new_composing_def)
qed

lemma accept_prediction_ok:
  assumes "productive tables" and "session_ok tables s"
  shows "session_ok tables (fst (accept_prediction_candidate g tables c s))"
proof -
  have ok: "text_ok tables (composing s)" using assms(2) by (simp add: session_ok_def)
  have "\<exists>n v. composing (fst (accept_prediction_candidate g tables c s)) \<in>
          {composing s, insert_str g tables v Direct (composing s),
           insert_str g tables v Direct (delete_backward tables n (composing s))} \<and>
        full_composing (fst (accept_prediction_candidate g tables c s)) = full_composing s"
    by (auto simp: accept_prediction_candidate_def Let_def split: option.split)
  then obtain n v where
    "composing (fst (accept_prediction_candidate g tables c s)) \<in>
       {composing s, insert_str g tables v Direct (composing s),
        insert_str g tables v Direct (delete_backward tables n (composing s))}"
    and f: "full_composing (fst (accept_prediction_candidate g tables c s)) = full_composing s" by blast
  then have "text_ok tables (composing (fst (accept_prediction_candidate g tables c s)))"
    using ok delete_backward_text_ok [OF assms(1) ok] insert_str_text_ok(1) [OF assms(1)] by auto
  with f show ?thesis using assms(2) by (auto intro: session_okI)
qed

lemma insert_separator_ok:
  assumes "productive tables" and "session_ok tables s" and "surface (composing s) \<noteq> []" and "style_quiet tables style"
  shows "session_ok tables (insert_composition_separator tables style s)"
    and "surface (composing (insert_composition_separator tables style s)) \<noteq> []"
proof -
  let ?e = "\<lparr>piece = CompositionSeparator, input_style = style\<rparr>"
  have "text_ok tables (composing s)" using assms(2) by (simp add: session_ok_def)
  then have "text_ok tables (insert_elements tables [?e] (composing s))"
    and ne: "surface (insert_elements tables [?e] (composing s)) \<noteq> []"
    using insert_elements_text_ok [OF assms(1), of "composing s" "[?e]"] assms(3,4)
    by (simp_all add: style_quiet_def)
  then show "session_ok tables (insert_composition_separator tables style s)"
    using assms(2) by (auto simp: insert_composition_separator_def intro: session_okI)
  show "surface (composing (insert_composition_separator tables style s)) \<noteq> []"
    using ne assms(3) by (auto simp: insert_composition_separator_def)
qed

lemma begin_segment_ok:
  assumes "registry_ok tables" and "session_ok tables s"
  shows "session_ok tables (begin_segment_request tables s)"
  using assms prefix_to_cursor_text_ok [of tables "composing s"]
  by (auto simp: begin_segment_request_def session_ok_def)

lemma end_segment_ok: "session_ok tables s \<Longrightarrow> session_ok tables (end_segment_request s)"
  by (auto simp: end_segment_request_def session_ok_def split: option.split)

text \<open>A segment request puts the text back.\<close>

lemma segment_round_trip:
  assumes "full_composing s = None"
    and "composing s2 = composing (begin_segment_request tables s)"
    and "full_composing s2 = full_composing (begin_segment_request tables s)"
  shows "composing (end_segment_request s2) = composing s \<and> full_composing (end_segment_request s2) = None"
  using assms by (auto simp: begin_segment_request_def end_segment_request_def split: if_splits option.split)

lemma session_step_ok:
  assumes "productive tables" and "session_step sv tables s s'" and "session_ok tables s"
  shows "session_ok tables s'"
proof -
  have r: "registry_ok tables" using assms(1) by (simp add: productive_def)
  have c: "text_ok tables (composing s)" using assms(3) by (simp add: session_ok_def)
  note edits = insert_str_text_ok(1) [OF assms(1) c] delete_backward_text_ok [OF assms(1) c]
    delete_forward_text_ok [OF assms(1) c] move_cursor_text_ok [OF c]
  have key: "text_ok tables (insert_elements tables [\<lparr>piece = Key i n m, input_style = style\<rparr>] (composing s))"
    for i n m style
    using insert_displayed_text_ok(1) [OF assms(1) c, of "[\<lparr>piece = Key i n m, input_style = style\<rparr>]"]
    by (auto split: option.split)
  note edited = session_okI [OF assms(3), of s']
  from assms(2) show ?thesis
  proof cases
    case (insert_str v style)
    then show ?thesis using edits(1) by (intro edited) simp_all
  next
    case (insert_key i n m style)
    then show ?thesis using key by (intro edited) simp_all
  next
    case (insert_separator style)
    then show ?thesis using insert_separator_ok(1) [OF assms(1,3)] by simp
  next
    case (delete_backward k)
    then show ?thesis using edits(2) by (intro edited) simp_all
  next
    case (delete_forward k)
    then show ?thesis using edits(3) by (intro edited) simp_all
  next
    case (move_cursor j)
    then show ?thesis using edits(4) by (intro edited) simp_all
  next
    case (accept c)
    then show ?thesis using accept_prediction_ok [OF assms(1,3)] by simp
  next
    case (select c mem mem' committed)
    then show ?thesis using select_candidate_value_ok [OF assms(1,3) select] by simp
  next
    case begin_segment
    then show ?thesis using begin_segment_ok [OF r assms(3)] by simp
  next
    case end_segment
    then show ?thesis using end_segment_ok [OF assms(3)] by simp
  next
    case (request options mem r)
    then show ?thesis using c session_request_text [OF request] by (intro edited) simp_all
  next
    case (finalize options override mem r)
    then show ?thesis using c finalize_zenz_request_text [OF finalize] by (intro edited) simp_all
  next
    case reset
    then show ?thesis using text_ok_new by (intro edited) simp_all
  qed
qed

lemma session_reachable_ok:
  assumes "productive tables"
  shows "session_reachable sv tables s \<Longrightarrow> session_ok tables s"
proof (induction rule: session_reachable.induct)
  case start
  show ?case by (simp add: session_ok_def new_session_def text_ok_new)
next
  case (step s s')
  then show ?case using session_step_ok [OF assms] by blast
qed

end
