(* ===== verification/Session_Result.thy ===== *)
theory Session_Result
  imports Session_Edit
begin

text \<open>
  What a request of \<open>session.rs\<close> returns: candidates with distinct texts, and an exact reading of the
  whole input among the first three. The theory ends with the properties of the session.
\<close>

section \<open>Distinct texts\<close>

abbreviation texts :: "Candidate list \<Rightarrow> ustr list" where
  "texts cs \<equiv> map cand_text cs"

lemma texts_unique_insert:
  "texts (unique_insert c ds) = (if cand_text c \<in> set (texts ds) then texts ds else texts ds @ [cand_text c])"
  by (induction ds) auto

lemma set_unique_insert: "set (unique_insert c ds) \<subseteq> insert c (set ds)"
  by (induction ds) auto

lemma fold_unique_distinct: "distinct (texts ds) \<Longrightarrow> distinct (texts (fold unique_insert cs ds))"
proof (induction cs arbitrary: ds)
  case (Cons c cs)
  have "distinct (texts (unique_insert c ds))" using Cons.prems by (simp add: texts_unique_insert)
  then show ?case by (simp add: Cons.IH)
qed simp

lemma fold_unique_texts: "set (texts (fold unique_insert cs ds)) = set (texts ds) \<union> set (texts cs)"
proof (induction cs arbitrary: ds)
  case (Cons c cs)
  have "set (texts (unique_insert c ds)) = insert (cand_text c) (set (texts ds))"
    unfolding texts_unique_insert by auto
  then show ?case using Cons.IH [of "unique_insert c ds"] by auto
qed simp

lemma fold_unique_subset: "set (fold unique_insert cs ds) \<subseteq> set ds \<union> set cs"
proof (induction cs arbitrary: ds)
  case (Cons c cs)
  then show ?case using set_unique_insert [of c ds] Cons.IH [of "unique_insert c ds"] by auto
qed simp

lemma unique_distinct: "distinct (texts (unique cs))"
  by (simp add: unique_def fold_unique_distinct)

lemma unique_texts: "set (texts (unique cs)) = set (texts cs) - {[]}"
  unfolding unique_def fold_unique_texts by auto

lemma unique_subset: "set (unique cs) \<subseteq> set cs"
  using fold_unique_subset [of "filter (\<lambda>c. cand_text c \<noteq> []) cs" "[]"] by (auto simp: unique_def)

lemma filter_seen_facts:
  "filter_seen seen cs = (kept, seen') \<Longrightarrow>
   distinct (texts kept) \<and> set (texts kept) \<inter> seen = {} \<and> seen' = seen \<union> set (texts cs) \<and>
   set kept \<subseteq> set cs \<and> seen \<union> set (texts kept) = seen \<union> set (texts cs)"
proof (induction seen cs arbitrary: kept seen' rule: filter_seen.induct)
  case (2 seen c cs)
  obtain k1 s1 where f: "filter_seen (insert (cand_text c) seen) cs = (k1, s1)" by force
  have "kept = (if cand_text c \<in> seen then k1 else c # k1)" "seen' = s1"
    using "2"(2) by (auto simp: f split: if_splits)
  with "2"(1) [OF f] show ?case
    by (cases "cand_text c \<in> seen") (simp_all add: insert_absorb, auto)
qed simp

lemma filter_seen_result:
  assumes "filter_seen seen cs = (kept, seen')"
  shows "distinct (texts kept)" and "set (texts kept) \<inter> seen = {}"
    and "seen' = seen \<union> set (texts cs)" and "set kept \<subseteq> set cs"
    and "seen \<union> set (texts kept) = seen \<union> set (texts cs)"
  using filter_seen_facts [OF assms] by blast+

lemma sort_by_texts:
  shows "set (texts (sort_by compare cs)) = set (texts cs)"
    and "distinct (texts cs) \<Longrightarrow> distinct (texts (sort_by compare cs))"
proof -
  have ins: "distinct (texts (insort_by compare x ys)) \<longleftrightarrow> cand_text x \<notin> set (texts ys) \<and> distinct (texts ys)" for x ys
    by (induction ys) auto
  show "set (texts (sort_by compare cs)) = set (texts cs)" by simp
  show "distinct (texts cs) \<Longrightarrow> distinct (texts (sort_by compare cs))"
  proof (induction cs)
    case (Cons c cs)
    have "sort_by compare (c # cs) = insort_by compare c (sort_by compare cs)" by (simp add: sort_by_def)
    moreover have "set (texts (sort_by compare cs)) = set (texts cs)" by simp
    ultimately show ?case using Cons ins [of c "sort_by compare cs"] by (simp del: set_map)
  qed (simp add: sort_by_def)
qed

lemma distinct_texts_filter: "distinct (texts cs) \<Longrightarrow> distinct (texts (filter P cs))"
  by (rule distinct_map_filter)

lemma distinct_texts_take: "distinct (texts cs) \<Longrightarrow> distinct (texts (take n cs))"
  by (simp flip: take_map)

lemma distinct_texts_insert_at:
  assumes "distinct (texts r)" and "cand_text c \<notin> set (texts r)"
  shows "distinct (texts (take n r @ [c] @ drop n r))"
proof -
  have "distinct (texts (take n r) @ texts (drop n r))" using assms(1) by (simp flip: map_append)
  with assms(2) show ?thesis by (auto dest: in_set_takeD in_set_dropD)
qed

lemma ensure_exact_distinct:
  assumes "distinct (texts leading)"
  shows "distinct (texts (ensure_exact kata full leading))"
proof (cases "list_ex (\<lambda>c. candidate_reading c = kata) (take 3 leading)")
  case False
  show ?thesis
  proof (cases "find (\<lambda>c. candidate_reading c = kata) full")
    case (Some c)
    have "distinct (texts (take 2 (filter (\<lambda>d. cand_text d \<noteq> cand_text c) leading) @ [c] @
            drop 2 (filter (\<lambda>d. cand_text d \<noteq> cand_text c) leading)))"
      by (rule distinct_texts_insert_at) (auto simp: distinct_texts_filter assms)
    with False Some show ?thesis by (simp add: ensure_exact_def Let_def)
  qed (use False assms in \<open>simp add: ensure_exact_def\<close>)
qed (use assms in \<open>simp add: ensure_exact_def\<close>)

lemma leading_distinct: "distinct (texts (leading_candidates g options P full preds foreign s))"
  unfolding leading_candidates_def Let_def
  by (intro ensure_exact_distinct distinct_texts_take sort_by_texts(2) distinct_texts_filter)
     (simp add: unique_distinct)

lemma main_candidates_distinct:
  assumes "distinct (texts leading)"
  shows "distinct (texts (main_candidates sv options pc leading fcs words s))"
proof -
  obtain firsts seen1 where f1: "filter_seen (cand_text ` set leading) fcs = (firsts, seen1)" by force
  let ?ws = "sort_by by_ruby_and_value (unique (words @ sv_representations sv (composing s)
    (full_width_roman options) (half_width_kana options)))"
  obtain ws seen2 where f2: "filter_seen seen1 ?ws = (ws, seen2)" by force
  let ?sp = "sv_special sv (composing s) (version_string options) @
    (if typography options then sv_typographical sv (composing s) else [])"
  obtain sp seen3 where f3: "filter_seen seen2 ?sp = (sp, seen3)" by force
  note r1 = filter_seen_result [OF f1] and r2 = filter_seen_result [OF f2] and r3 = filter_seen_result [OF f3]
  have w: "distinct (texts (take 5 ws) @ texts (drop 5 ws))" using r2(1) by (simp flip: map_append)
  have ws: "set (texts (take 5 ws)) \<union> set (texts (drop 5 ws)) = set (texts ws)"
    by (metis append_take_drop_id map_append set_append)
  have "distinct (texts (take 5 ws @ sp @ drop 5 ws))"
  proof -
    have "set (texts ws) \<subseteq> seen2" using r2(3,5) by blast
    then have "set (texts sp) \<inter> set (texts ws) = {}" using r3(2) by blast
    with w r3(1) ws show ?thesis by auto
  qed
  moreover have "set (texts (take 5 ws @ sp @ drop 5 ws)) \<inter> seen1 = {}"
    using ws r2(2) r3(2) r2(3) by auto
  moreover have "set (texts leading) \<union> set (texts firsts) \<subseteq> seen1" using r1(3,5) by auto
  moreover have "set (texts firsts) \<inter> set (texts leading) = {}" using r1(2) by simp
  ultimately have "distinct (texts leading @ texts firsts @ texts (take 5 ws @ sp @ drop 5 ws))"
    using assms r1(1) unfolding distinct_append set_append by blast
  then have "distinct (texts (leading @ firsts @ take 5 ws @ sp @ drop 5 ws))" by (simp only: map_append)
  then show ?thesis
    unfolding main_candidates_def Let_def by (simp only: f1 f2 f3 prod.case) (rule distinct_texts_filter)
qed

section \<open>An exact reading in front\<close>

lemma ensure_exact_front:
  assumes "c \<in> set full" and "candidate_reading c = kata"
  shows "\<exists>d \<in> set (take 3 (ensure_exact kata full leading)). candidate_reading d = kata"
proof (cases "list_ex (\<lambda>c. candidate_reading c = kata) (take 3 leading)")
  case True
  then show ?thesis by (auto simp: ensure_exact_def list_ex_iff)
next
  case False
  obtain d where d: "find (\<lambda>c. candidate_reading c = kata) full = Some d"
    using assms by (cases "find (\<lambda>c. candidate_reading c = kata) full") (auto simp: find_None_iff)
  then have "candidate_reading d = kata" by (auto simp: find_Some_iff)
  moreover have "d \<in> set (take 3 (take 2 r @ [d] @ drop 2 r))" for r by (auto simp: min_def)
  ultimately show ?thesis using False d by (auto simp: ensure_exact_def Let_def)
qed

lemma prepare_reading: "candidate_reading (prepare_candidate ex pc c) = candidate_reading c"
  by (simp add: prepare_candidate_def expand_candidate_def candidate_reading_def Let_def split: option.split)

lemma main_candidates_front:
  "take 3 (main_candidates sv options None leading fcs words s) =
   take 3 (leading @ drop (length leading) (main_candidates sv options None leading fcs words s))"
  by (simp add: main_candidates_def matches_prefix_def Let_def case_prod_unfold)

lemma assemble_results_main:
  assumes "assemble_results sv options pc full preds mem s = Inr r"
  shows "\<exists>ps fs ws. main_results r =
    map (prepare_candidate (sv_expand_templates sv) pc)
      (main_candidates sv options pc
         (leading_candidates (sv_graphemes sv) options (matches_prefix pc) full ps fs s)
         (first_clauses_of (sv_graphemes sv) pc full) ws s)"
proof -
  obtain ws where "sv_words sv (session_memory mem s) (composing s) = Inr ws"
    using assms by (auto simp: assemble_results_def Let_def split: sum.splits)
  then show ?thesis using assms unfolding assemble_results_def Let_def by (simp only: sum.case) force
qed

lemma session_request_results:
  assumes "session_request sv tables options mem s = (s', Inr r)" and "sv_graphemes sv = g"
  obtains full preds foreign words s1 where
    "sv_convert sv (session_memory mem s) (composing s) (n_best options) (conv_context s)
       (additional_dictionary s) (typo_correction options = TypoEnabled) = Inr full"
    "composing s1 = composing s"
    "main_results r =
       map (prepare_candidate (sv_expand_templates sv) None)
         (main_candidates sv options None
            (leading_candidates g options (matches_prefix None) full preds foreign s1)
            (first_clauses_of g None full) words s1)"
    "candidates s' = main_results r"
proof -
  from assms(1) obtain full where full:
    "sv_convert sv (session_memory mem s) (composing s) (n_best options) (conv_context s)
       (additional_dictionary s) (typo_correction options = TypoEnabled) = Inr full"
    "assemble_request sv tables options full None None mem s = (s', Inr r)"
    by (auto simp: session_request_def split: sum.splits)
  obtain s1 r1 where p: "requested_predictions sv tables options None None mem s = (s1, r1)" by force
  have f: "filter (matches_prefix None) full = full" by (simp add: matches_prefix_def)
  from full(2) p obtain preds where ar: "assemble_results sv options None full preds mem s1 = Inr r"
    "s' = s1\<lparr>candidates := main_results r\<rparr>"
    by (auto simp: assemble_request_def Let_def f split: sum.splits)
  have "composing s1 = composing s"
    using p by (auto simp: requested_predictions_def dest!: predictions_text split: if_splits)
  moreover obtain ps fs ws where "main_results r =
      map (prepare_candidate (sv_expand_templates sv) None)
        (main_candidates sv options None
           (leading_candidates (sv_graphemes sv) options (matches_prefix None) full ps fs s1)
           (first_clauses_of (sv_graphemes sv) None full) ws s1)"
    using assemble_results_main [OF ar(1)] by blast
  ultimately show thesis
    using full(1) ar(2) assms(2) by (intro that [of full s1 ps fs ws]) simp_all
qed

section \<open>Properties\<close>


text \<open>
  The main candidates of a request have pairwise distinct texts (as long as no text is a template
  whose expansion could collide).
\<close>

theorem main_results_distinct:
  assumes "session_request sv tables options mem s = (s', Inr r)" and "\<forall>t. sv_expand_templates sv t = t"
  shows "distinct (map cand_text (main_results r)) \<and> candidates s' = main_results r"
proof -
  obtain full preds foreign words s1 where m: "main_results r =
      map (prepare_candidate (sv_expand_templates sv) None)
        (main_candidates sv options None
           (leading_candidates (sv_graphemes sv) options (matches_prefix None) full preds foreign s1)
           (first_clauses_of (sv_graphemes sv) None full) words s1)"
    "candidates s' = main_results r"
    by (rule session_request_results [OF assms(1) refl])
  have "prepare_candidate (sv_expand_templates sv) None = id"
    using assms(2) by (auto simp: prepare_candidate_def expand_candidate_def)
  with m show ?thesis by (simp add: main_candidates_distinct leading_distinct)
qed

text \<open>
  If the converter proposes a candidate that reads as the whole input, one of the first three main
  candidates reads as the whole input.
\<close>

theorem exact_reading_in_front:
  assumes "session_request sv tables options mem s = (s', Inr r)"
    and "sv_convert sv (session_memory mem s) (composing s) (n_best options) (conv_context s)
           (additional_dictionary s) (typo_correction options = TypoEnabled) = Inr full"
    and "c \<in> set full" and "candidate_reading c = to_katakana (surface_text (composing s))"
  shows "\<exists>d \<in> set (take 3 (main_results r)). candidate_reading d = to_katakana (surface_text (composing s))"
proof -
  let ?kata = "to_katakana (surface_text (composing s))"
  obtain full' preds foreign words s1 where m:
    "sv_convert sv (session_memory mem s) (composing s) (n_best options) (conv_context s)
       (additional_dictionary s) (typo_correction options = TypoEnabled) = Inr full'"
    "composing s1 = composing s"
    "main_results r = map (prepare_candidate (sv_expand_templates sv) None)
        (main_candidates sv options None
           (leading_candidates (sv_graphemes sv) options (matches_prefix None) full' preds foreign s1)
           (first_clauses_of (sv_graphemes sv) None full') words s1)"
    by (rule session_request_results [OF assms(1) refl])
  let ?l = "leading_candidates (sv_graphemes sv) options (matches_prefix None) full preds foreign s1"
  have "\<exists>d \<in> set (take 3 ?l). candidate_reading d = ?kata"
    unfolding leading_candidates_def Let_def m(2) by (rule ensure_exact_front [OF assms(3,4)])
  then obtain d where d: "d \<in> set (take 3 ?l)" "candidate_reading d = ?kata" by blast
  have "main_results r = map (prepare_candidate (sv_expand_templates sv) None)
      (main_candidates sv options None ?l (first_clauses_of (sv_graphemes sv) None full) words s1)"
    using m(1,3) assms(2) by simp
  then have "prepare_candidate (sv_expand_templates sv) None d \<in> set (take 3 (main_results r))"
    using d(1) by (simp add: take_map main_candidates_front)
  moreover have "candidate_reading (prepare_candidate (sv_expand_templates sv) None d) = ?kata"
    using d(2) by (simp add: prepare_reading)
  ultimately show ?thesis by blast
qed

text \<open>
  A segment request converts exactly the text in front of the cursor, and when it is over the
  session has its whole composing text back.
\<close>

theorem segment_request_restores:
  assumes "registry_ok tables" and "composing_ok tables (composing s)" and "full_composing s = None"
    and "session_request sv tables options mem (begin_segment_request tables s) = (s2, r)"
  shows "surface (composing (begin_segment_request tables s)) = take (cursor (composing s)) (surface (composing s)) \<and>
         composing (end_segment_request s2) = composing s \<and> full_composing (end_segment_request s2) = None"
proof -
  have "surface (composing (begin_segment_request tables s)) = take (cursor (composing s)) (surface (composing s))"
    using prefix_to_cursor_ok(1) [OF assms(1,2)] assms(3)
    by (auto simp: begin_segment_request_def is_at_end_def)
  moreover have "composing (end_segment_request s2) = composing s \<and> full_composing (end_segment_request s2) = None"
    using session_request_text [OF assms(4)] by (intro segment_round_trip [OF assms(3)]) simp_all
  ultimately show ?thesis by blast
qed

text \<open>
  Selecting a candidate that the learning memory accepts commits the candidate's text, leaves the
  text the candidate does not cover, and leaves a clean, empty text when nothing remains.
\<close>

theorem select_candidate_commits:
  assumes "productive tables" and "session_ok tables s"
    and "select_candidate_value sv tables c mem s = (mem', s', Inr committed)"
  shows "committed = cand_text c \<and>
         surface (composing s') = surface (completed tables c (composing s)) \<and>
         session_ok tables s' \<and>
         (surface (composing s') = [] \<longrightarrow> composing s' = new_composing)"
proof -
  have "surface (composing s') = [] \<longrightarrow> composing s' = new_composing"
    using assms(3)
    by (auto simp: select_candidate_value_def Let_def is_empty_composing_def stop_composing_def
             split: prod.splits option.splits if_splits)
  with select_candidate_value_ok [OF assms] show ?thesis by simp
qed

section \<open>Concrete inputs\<close>

text \<open>A converter that proposes the reading itself in two ways, with no memory behind it.\<close>

definition sample_entry :: "ustr \<Rightarrow> ustr \<Rightarrow> DictionaryEntry" where
  "sample_entry w r =
     \<lparr>word = w, ruby = r, left_id = 1288, right_id = 1288, meaning_id = 501, base_value = f32_zero,
      adjustment = f32_zero, metadata = 0\<rparr>"

definition sample_candidate :: "ustr \<Rightarrow> ustr \<Rightarrow> nat \<Rightarrow> Candidate" where
  "sample_candidate w r n = single scalar_graphemes w f32_zero (SurfaceCount n) 501 [sample_entry w r]"

definition sample_services :: "unit Services" where
  "sample_services =
     \<lparr>sv_graphemes = scalar_graphemes,
      sv_convert = (\<lambda>m c n ctx es typo.
        Inr [sample_candidate [0x4E00] [0x30CA] 1,
             sample_candidate (surface_text c) (to_katakana (surface_text c)) (length (surface c))]),
      sv_predict = (\<lambda>m c n ctx es. Inr []),
      sv_words = (\<lambda>m c. Inr [sample_candidate [0x4E00] [0x30CA] 1]),
      sv_representations = (\<lambda>c fw hk. []), sv_special = (\<lambda>c v. []), sv_typographical = (\<lambda>c. []),
      sv_foreign = (\<lambda>c k. []), sv_expand_templates = (\<lambda>t. t), sv_validate = (\<lambda>m. None),
      sv_commit = (\<lambda>m. (m, Inr False)), sv_learn = (\<lambda>m c. (m, None)), sv_forget = (\<lambda>m c. (m, None)),
      sv_reset_memory = (\<lambda>m. (m, None))\<rparr>"

definition sample_session :: ConversionSession where
  "sample_session = session_insert_str scalar_graphemes sample_registry [0x6E, 0x61, 0x6E] RomanToKana new_session"

lemma sample_productive: "productive sample_registry"
proof -
  have "productive_table sample_table" and "productive_table empty_table" by code_simp+
  then show ?thesis by (simp add: productive_def sample_registry_ok) (simp add: sample_registry_def)
qed

lemma sample_reachable: "session_reachable sample_services sample_registry sample_session"
proof -
  have "session_step sample_services sample_registry new_session
      (session_insert_str (sv_graphemes sample_services) sample_registry [0x6E, 0x61, 0x6E] RomanToKana new_session)"
    by (rule session_step.insert_str)
  then have "session_step sample_services sample_registry new_session sample_session"
    by (simp add: sample_session_def sample_services_def)
  with session_reachable.start show ?thesis by (rule session_reachable.step)
qed

lemma sample_session_text: "composing sample_session = sample_composing" "full_composing sample_session = None"
  by code_simp+

lemma sample_session_ok: "session_ok sample_registry sample_session"
  by (rule session_reachable_ok [OF sample_productive sample_reachable])


text \<open>The request on the sample session, evaluated.\<close>

definition sample_response :: "ConversionSession \<times> (ustr + ConversionResult)" where
  "sample_response = session_request sample_services sample_registry default_options () sample_session"

lemma sample_response_texts:
  "case sample_response of (s', Inl e) \<Rightarrow> False
   | (s', Inr r) \<Rightarrow> map cand_text (main_results r) = [[0x4E00], [0x306A, 0x6E]] \<and>
       map candidate_reading (main_results r) = [[0x30CA], [0x30CA, 0x6E]]"
  by code_simp

lemma sample_response_Inr:
  obtains s' r where "session_request sample_services sample_registry default_options () sample_session = (s', Inr r)"
    and "map cand_text (main_results r) = [[0x4E00], [0x306A, 0x6E]]"
  using sample_response_texts unfolding sample_response_def by (auto split: prod.splits sum.splits)

theorem main_results_distinct_witness:
  "\<exists>s' r. session_request sample_services sample_registry default_options () sample_session = (s', Inr r) \<and>
     distinct (map cand_text (main_results r)) \<and> length (main_results r) = 2"
proof -
  obtain s' r where r: "session_request sample_services sample_registry default_options () sample_session = (s', Inr r)"
    and t: "map cand_text (main_results r) = [[0x4E00], [0x306A, 0x6E]]"
    by (rule sample_response_Inr)
  have "\<forall>t. sv_expand_templates sample_services t = t" by (simp add: sample_services_def)
  from main_results_distinct [OF r this] r arg_cong [OF t, of length] show ?thesis by auto
qed

theorem exact_reading_in_front_witness:
  "\<exists>s' r. session_request sample_services sample_registry default_options () sample_session = (s', Inr r) \<and>
     (\<exists>d \<in> set (take 3 (main_results r)). candidate_reading d = [0x30CA, 0x6E])"
proof -
  obtain s' r where r: "session_request sample_services sample_registry default_options () sample_session = (s', Inr r)"
    by (rule sample_response_Inr)
  let ?c = "sample_candidate (surface_text sample_composing) (to_katakana (surface_text sample_composing))
    (length (surface sample_composing))"
  have k: "to_katakana (surface_text (composing sample_session)) = [0x30CA, 0x6E]" by code_simp
  have "sv_convert sample_services (session_memory () sample_session) (composing sample_session)
      (n_best default_options) (conv_context sample_session) (additional_dictionary sample_session)
      (typo_correction default_options = TypoEnabled) =
    Inr [sample_candidate [0x4E00] [0x30CA] 1, ?c]"
    by (simp add: sample_services_def sample_session_text)
  from exact_reading_in_front [OF r this, of ?c] have
    "\<exists>d \<in> set (take 3 (main_results r)). candidate_reading d = to_katakana (surface_text (composing sample_session))"
    by (simp add: sample_session_text) (simp add: sample_candidate_def sample_entry_def single_def candidate_reading_def)
  with r show ?thesis unfolding k by blast
qed

theorem segment_request_restores_witness:
  "\<exists>s2 r. session_request sample_services sample_registry default_options ()
            (begin_segment_request sample_registry (session_move_cursor (- 1) sample_session)) = (s2, r) \<and>
     composing (end_segment_request s2) = sample_composing\<lparr>cursor := 1\<rparr>"
proof -
  let ?s = "session_move_cursor (- 1) sample_session"
  have c: "composing ?s = sample_composing\<lparr>cursor := 1\<rparr>" and f: "full_composing ?s = None" by code_simp+
  have ok: "composing_ok sample_registry (composing ?s)"
    unfolding c by (rule composing_ok_cursor_update [OF sample_composing_ok]) (simp add: sample_composing_def)
  obtain s2 r where r: "session_request sample_services sample_registry default_options ()
      (begin_segment_request sample_registry ?s) = (s2, r)" by force
  from segment_request_restores [OF sample_registry_ok ok f r] r show ?thesis unfolding c by blast
qed

theorem select_candidate_commits_witness:
  "\<exists>s'. select_candidate_value sample_services sample_registry (sample_candidate [0x540D] [0x30CA] 1) () sample_session =
     ((), s', Inr [0x540D]) \<and> surface (composing s') = [[0x6E]]"
proof -
  let ?c = "sample_candidate [0x540D] [0x30CA] 1"
  have "snd (snd (select_candidate_value sample_services sample_registry ?c () sample_session)) = Inr [0x540D]"
    by code_simp
  then obtain s' where s: "select_candidate_value sample_services sample_registry ?c () sample_session =
      ((), s', Inr [0x540D])"
    by (cases "select_candidate_value sample_services sample_registry ?c () sample_session") auto
  have "surface (completed sample_registry ?c (composing sample_session)) = [[0x6E]]" by code_simp
  with select_candidate_commits [OF sample_productive sample_session_ok s] s show ?thesis by auto
qed

end
