(* ===== verification/Protocol.thy ===== *)
theory Protocol
  imports Session "HOL-Library.Word"
begin

text \<open>
  The messages of the daemon (\<open>ipc.proto\<close> of the repository, from which the build generates the Rust
  types). An enumeration field holds an \<open>i32\<close> that need not be one of the declared values: it is an
  \<open>int\<close>, and \<open>try_from\<close> is a partial function. \<open>u32\<close> fields that are offsets and counts are \<open>nat\<close>
  below \<open>2 ^ 32\<close>.
\<close>

section \<open>Enumerations\<close>

datatype UserAction =
    ActUnspecified | ActInput | ActBackspace | ActDeleteForward | ActEnter | ActEscape | ActSpace | ActTab
  | ActLeft | ActRight | ActUp | ActDown | ActPageUp | ActPageDown | ActForget | ActHiragana | ActKatakana
  | ActHalfWidthKatakana | ActFullWidthRoman | ActHalfWidthRoman | ActConsume | ActStartUnicodeInput
  | ActEisu | ActKana

definition user_actions :: "UserAction list" where
  "user_actions =
     [ActUnspecified, ActInput, ActBackspace, ActDeleteForward, ActEnter, ActEscape, ActSpace, ActTab,
      ActLeft, ActRight, ActUp, ActDown, ActPageUp, ActPageDown, ActForget, ActHiragana, ActKatakana,
      ActHalfWidthKatakana, ActFullWidthRoman, ActHalfWidthRoman, ActConsume, ActStartUnicodeInput,
      ActEisu, ActKana]"

definition enum_of :: "'a list \<Rightarrow> int \<Rightarrow> 'a option" where
  "enum_of values i = (if 0 \<le> i \<and> i < int (length values) then Some (values ! nat i) else None)"

definition user_action :: "int \<Rightarrow> UserAction option" where
  "user_action = enum_of user_actions"

datatype ProtoInputStyle =
    StyleUnspecified | StyleDirect | StyleRomanToKana | StyleAzik | StyleKanaJis | StyleKanaUs | StyleCustom

definition proto_input_style :: "int \<Rightarrow> ProtoInputStyle option" where
  "proto_input_style =
     enum_of [StyleUnspecified, StyleDirect, StyleRomanToKana, StyleAzik, StyleKanaJis, StyleKanaUs, StyleCustom]"

datatype ProtoKeyboardLanguage = KbUnspecified | KbJapanese | KbEnglishUs | KbGreek

definition proto_keyboard_language :: "int \<Rightarrow> ProtoKeyboardLanguage option" where
  "proto_keyboard_language = enum_of [KbUnspecified, KbJapanese, KbEnglishUs, KbGreek]"

datatype PageDirection = DirUnspecified | DirPrevious | DirNext

definition page_direction :: "int \<Rightarrow> PageDirection option" where
  "page_direction = enum_of [DirUnspecified, DirPrevious, DirNext]"

datatype Code =
    CodeUnspecified | UnsupportedVersionCode | InvalidPayload | MessageTooLargeCode | UnknownSession
  | OutOfOrderRequest | Internal

datatype InputState = StateUnspecified | StateNone | StateComposing | StatePreviewing | StateSelecting | StateUnicode

datatype ProtoInputLanguage = LangUnspecified | LangJapanese | LangEnglish

datatype CandidateWindow = WindowUnspecified | WindowHidden | WindowPreview | WindowSelecting

section \<open>Messages\<close>

record SurroundingText =
  available :: bool
  sur_text :: ustr
  sur_cursor :: nat
  sur_anchor :: nat

record StartSession =
  st_input_style :: int
  st_surrounding :: "SurroundingText option"
  st_keyboard_language :: int
  st_custom_input_table :: ustr

record KeyEvent =
  ev_action :: int
  ev_shift :: bool
  ev_text :: ustr
  ev_surrounding :: "SurroundingText option"
  ev_input :: ustr
  ev_intention :: ustr
  ev_option :: bool

record PageCandidates =
  pg_direction :: int
  pg_size :: nat

record ProtoCandidate =
  pc_text :: ustr
  pc_value :: f32
  pc_composing_count :: ComposingCount
  pc_annotation :: ustr
  pc_index :: nat

record Prediction =
  pr_display_text :: ustr
  pr_append_text :: ustr
  pr_delete_count :: nat

record StateResponse =
  consumed :: bool
  preedit :: ustr
  preedit_cursor :: nat
  rs_candidates :: "ProtoCandidate list"
  rs_selected :: int
  commit :: ustr
  rs_reset :: bool
  rs_lm_typo_available :: bool
  rs_learning_available :: bool
  rs_learning_writable :: bool
  rs_input_state :: InputState
  candidate_window :: CandidateWindow
  highlighted_preedit_length :: nat
  rs_prediction :: "Prediction option"
  rs_input_language :: ProtoInputLanguage

definition default_response :: StateResponse where
  "default_response =
     \<lparr>consumed = False, preedit = [], preedit_cursor = 0, rs_candidates = [], rs_selected = 0, commit = [],
      rs_reset = False, rs_lm_typo_available = False, rs_learning_available = False,
      rs_learning_writable = False, rs_input_state = StateUnspecified, candidate_window = WindowUnspecified,
      highlighted_preedit_length = 0, rs_prediction = None, rs_input_language = LangUnspecified\<rparr>"

text \<open>\<open>LmTypoCandidate\<close> of \<open>lm_typo.rs\<close>; the message has the same fields.\<close>

record LmTypoCandidate =
  corrected_input :: ustr
  converted_text :: ustr
  score :: f32
  lm_score :: f32
  channel_cost :: f32
  prominence :: f32

datatype Payload =
    StartSessionP StartSession
  | ResetSessionP
  | EndSessionP
  | KeyEventP KeyEvent
  | SelectCandidateP nat
  | PageCandidatesP PageCandidates
  | CommitCompositionP
  | ForgetCandidateP nat
  | ResetLearningP
  | RequestTypoCorrectionsP
  | StateResponseP StateResponse
  | ProtocolErrorP Code ustr
  | TypoCorrectionResponseP "LmTypoCandidate list"
  | SelectTypoCorrectionP nat

record Envelope =
  protocol_version :: "32 word"
  request_id :: "64 word"
  session_id :: ustr
  payload :: "Payload option"
  trace :: "(ustr \<times> ustr \<times> ustr) list"

end
