(* ===== verification/Strings.thy ===== *)
theory Strings
  imports Prelude
begin

text \<open>
  The functions of Rust's \<open>str\<close> the sources call: white space, trimming, lines, splitting, joining and the decimal
  representation of numbers. A string is the list of its scalar values; the byte offsets the sources compute with
  \<open>find\<close> always fall between characters, so they are positions in this list.
\<close>

section \<open>Characters\<close>

definition is_whitespace :: "uchar \<Rightarrow> bool" where
  "is_whitespace c \<longleftrightarrow>
     0x09 \<le> c \<and> c \<le> 0x0D \<or> 0x2000 \<le> c \<and> c \<le> 0x200A \<or>
     List.member [0x20, 0x85, 0xA0, 0x1680, 0x2028, 0x2029, 0x202F, 0x205F, 0x3000] c"

text \<open>\<open>char::is_control\<close>: the general category Cc.\<close>

definition is_control :: "uchar \<Rightarrow> bool" where
  "is_control c \<longleftrightarrow> 0 \<le> c \<and> c \<le> 0x1F \<or> 0x7F \<le> c \<and> c \<le> 0x9F"

definition trim_start :: "ustr \<Rightarrow> ustr" where
  "trim_start s = dropWhile is_whitespace s"

definition trim_end :: "ustr \<Rightarrow> ustr" where
  "trim_end s = rev (dropWhile is_whitespace (rev s))"

definition trim :: "ustr \<Rightarrow> ustr" where
  "trim s = trim_end (trim_start s)"

text \<open>\<open>format!\<close> of a \<open>usize\<close>.\<close>

fun digits :: "nat \<Rightarrow> nat \<Rightarrow> ustr" where
  "digits 0 n = []"
| "digits (Suc fuel) n = (if n < 10 then [0x30 + int n] else digits fuel (n div 10) @ [0x30 + int (n mod 10)])"

definition show_nat :: "nat \<Rightarrow> ustr" where
  "show_nat n = digits (Suc n) n"

section \<open>Splitting\<close>

text \<open>\<open>split_once\<close> at a character, \<open>split\<close> and \<open>join\<close>.\<close>

definition split_once :: "'a \<Rightarrow> 'a list \<Rightarrow> ('a list \<times> 'a list) option" where
  "split_once c s = (if c \<in> set s then Some (takeWhile (\<lambda>d. d \<noteq> c) s, tl (dropWhile (\<lambda>d. d \<noteq> c) s)) else None)"

fun split_on :: "'a \<Rightarrow> 'a list \<Rightarrow> 'a list list" where
  "split_on c [] = [[]]"
| "split_on c (x # xs) = (if x = c then [] # split_on c xs else (x # hd (split_on c xs)) # tl (split_on c xs))"

fun join :: "'a list \<Rightarrow> 'a list list \<Rightarrow> 'a list" where
  "join sep [] = []"
| "join sep [s] = s"
| "join sep (s # ss) = s @ sep @ join sep ss"

definition strip_cr :: "ustr \<Rightarrow> ustr" where
  "strip_cr s = (if s \<noteq> [] \<and> last s = 0x0D then butlast s else s)"

text \<open>
  \<open>lines\<close>: a carriage return belongs to the end of a line that a line feed ends, and no line follows
  a final line feed.
\<close>

definition lines_of :: "ustr \<Rightarrow> ustr list" where
  "lines_of s =
     (let parts = split_on 0x0A s
      in map strip_cr (butlast parts) @ (if last parts = [] then [] else [last parts]))"

lemma split_once_append: "c \<notin> set xs \<Longrightarrow> split_once c (xs @ c # ys) = Some (xs, ys)"
proof -
  assume "c \<notin> set xs"
  then have "takeWhile (\<lambda>d. d \<noteq> c) (xs @ c # ys) = xs" "dropWhile (\<lambda>d. d \<noteq> c) (xs @ c # ys) = c # ys"
    by (induction xs) auto
  then show ?thesis by (simp add: split_once_def)
qed

lemma split_once_SomeD: "split_once c s = Some (xs, ys) \<Longrightarrow> s = xs @ c # ys \<and> c \<notin> set xs"
proof (induction s arbitrary: xs)
  case (Cons d s)
  show ?case
  proof (cases "d = c")
    case False
    with Cons.prems have "split_once c s = Some (tl xs, ys)" "xs = d # tl xs"
      by (auto simp: split_once_def split: if_splits)
    with Cons.IH [of "tl xs"] False show ?thesis by (metis append_Cons set_ConsD)
  qed (use Cons.prems in \<open>auto simp: split_once_def\<close>)
qed (simp add: split_once_def)

lemma split_once_None: "split_once c s = None \<longleftrightarrow> c \<notin> set s"
  by (simp add: split_once_def)

lemma split_on_nonempty [simp]: "split_on c s \<noteq> []"
  by (induction s) auto

lemma split_on_append: "c \<notin> set xs \<Longrightarrow> split_on c (xs @ c # ys) = xs # split_on c ys"
  by (induction xs) auto

lemma split_on_none: "c \<notin> set xs \<Longrightarrow> split_on c xs = [xs]"
  by (induction xs) auto

lemma split_on_parts: "p \<in> set (split_on c s) \<Longrightarrow> c \<notin> set p"
proof (induction s arbitrary: p)
  case (Cons x xs)
  have "hd (split_on c xs) \<in> set (split_on c xs)" "set (tl (split_on c xs)) \<subseteq> set (split_on c xs)"
    by (cases "split_on c xs"; auto)+
  with Cons show ?case by (auto split: if_splits)
qed simp

lemma split_on_join: "ss \<noteq> [] \<Longrightarrow> list_all (\<lambda>s. c \<notin> set s) ss \<Longrightarrow> split_on c (join [c] ss) = ss"
  by (induction "[c]" ss rule: join.induct) (simp_all add: split_on_none split_on_append)

text \<open>Lines that are not empty and contain no line break survive \<open>join\<close> and \<open>lines\<close>.\<close>

lemma lines_of_join:
  assumes "list_all (\<lambda>s. s \<noteq> [] \<and> 0x0A \<notin> set s \<and> last s \<noteq> 0x0D) ss"
  shows "lines_of (join [0x0A] ss) = ss"
proof (cases "ss = []")
  case True
  then show ?thesis by (simp add: lines_of_def)
next
  case False
  have "map strip_cr (butlast ss) = butlast ss"
    by (rule map_idI) (use assms in \<open>auto simp: strip_cr_def list_all_iff dest: in_set_butlastD\<close>)
  moreover have "last ss \<noteq> []" using assms False by (simp add: list_all_iff)
  moreover have "list_all (\<lambda>s. 0x0A \<notin> set s) ss" using assms by (simp add: list_all_iff)
  ultimately show ?thesis using False by (simp add: lines_of_def split_on_join)
qed

lemma trim_empty_iff: "trim s = [] \<longleftrightarrow> list_all is_whitespace s"
proof -
  have "trim s = [] \<longleftrightarrow> list_all is_whitespace (dropWhile is_whitespace s)"
    by (simp add: trim_def trim_end_def trim_start_def list_all_iff)
  also have "\<dots> \<longleftrightarrow> list_all is_whitespace s" by (induction s) auto
  finally show ?thesis .
qed

end
