(* ===== verification/Engine_State.thy ===== *)
theory Engine_State
  imports Protocol Strings
begin

text \<open>
  \<open>crates/daemon/src/engine.rs\<close>, the data: what the engine keeps per session, its configuration, and
  the pure helpers around key events, the surrounding text and the answer to the client.

  The fields of \<open>Engine\<close> that never change after it is opened are in \<open>EngineConfig\<close>; what requests
  change is the map of sessions and the shared state of the learning memory and of the models
  (\<open>World\<close>). The neural conversion (\<open>zenz.rs\<close> of the daemon), the prediction by the language model and
  the typo correction of \<open>lm_typo.rs\<close> are functions of \<open>EngineServices\<close>; a conversion by the model
  changes of a session only its candidates and caches, which is what these functions return.
\<close>

section \<open>State\<close>

datatype InputMode = ModeNone | ModeComposing | ModePreviewing | ModeSelecting | ModeUnicode

datatype InputLanguage = JapaneseInput | EnglishInput

record InputPrediction =
  ip_display_text :: ustr
  ip_append_text :: ustr
  ip_delete_count :: nat
  ip_candidate :: "Candidate option"

datatype PunctuationStyle = KutenAndToten | KutenAndComma | PeriodAndToten | PeriodAndComma

record InputBehavior =
  type_backslash :: bool
  type_half_space :: bool
  option_direct_full_width_input :: bool
  punctuation_style :: PunctuationStyle

record SurroundingContext =
  left :: "ustr option"
  right :: "ustr option"

definition no_surrounding :: SurroundingContext where
  "no_surrounding = \<lparr>left = None, right = None\<rparr>"

record 'c SessionState =
  conversion :: ConversionSession
  session_style :: InputStyle
  last_request_id :: "64 word"
  selected_candidate :: nat
  input_mode :: InputMode
  display_candidates :: "Candidate list"
  candidate_remainders :: "ustr list"
  candidate_annotations :: "ustr list"
  preview_candidate_index :: "nat option"
  additional_candidate_count :: nat
  segment_surface_count :: "nat option"
  last_was_backspace :: bool
  prediction :: "InputPrediction option"
  backspace_correction :: "(ustr \<times> ustr) option"
  live_conversion_enabled :: bool
  surrounding :: SurroundingContext
  request_options :: RequestOptions
  live_candidate :: "Candidate option"
  typo_corrections :: "LmTypoCandidate list"
  lm_typo_available :: bool
  learning_available :: bool
  learning_writable :: bool
  zenz_cache :: 'c
  unicode_input :: ustr
  input_language :: InputLanguage

text \<open>\<open>SessionState::clear_presentation\<close> and \<open>SessionState::reset\<close>.\<close>

definition clear_presentation :: "'c SessionState \<Rightarrow> 'c SessionState" where
  "clear_presentation s =
     s\<lparr>selected_candidate := 0, display_candidates := [], candidate_remainders := [],
       candidate_annotations := [], preview_candidate_index := None, additional_candidate_count := 0,
       prediction := None, live_candidate := None\<rparr>"

definition reset_session :: "'c \<Rightarrow> 'c SessionState \<Rightarrow> 'c SessionState" where
  "reset_session empty_cache s =
     (clear_presentation
        (s\<lparr>conversion := session_reset (conversion s), input_mode := ModeNone, segment_surface_count := None,
           last_was_backspace := False, backspace_correction := None\<rparr>))
       \<lparr>typo_corrections := [], zenz_cache := empty_cache, unicode_input := []\<rparr>"

section \<open>Configuration and services\<close>

datatype ZenzError = ContextCapacityExceeded | ZenzFailed ustr

record ('m, 'z) World =
  memory :: 'm
  models :: 'z

record ('m, 'z, 'c) EngineServices =
  es_session :: "'m Services"
  es_empty_cache :: 'c
  es_zenz_convert :: "'z \<Rightarrow> 'm option \<Rightarrow> ConversionSession \<Rightarrow> 'c \<Rightarrow> ZenzVersionConfig \<Rightarrow> bool \<Rightarrow>
    'z \<times> Candidate list \<times> 'c \<times> (ZenzError + Candidate option)"
  es_zenz_prediction :: "'z \<Rightarrow> 'm option \<Rightarrow> ConversionSession \<Rightarrow> ZenzVersionConfig \<Rightarrow> ustr \<Rightarrow>
    'z \<times> StablePredictionCache option \<times> ZenzPredictionCache option \<times> (ZenzError + Candidate list)"
  es_typo_correction :: "'z \<Rightarrow> ustr \<Rightarrow> ComposingText \<Rightarrow> InputStyle \<Rightarrow>
    'z \<times> (ZenzError + LmTypoCandidate list)"

record ('m, 'z, 'c) EngineConfig =
  services :: "('m, 'z, 'c) EngineServices"
  tables :: InputTableRegistry
  has_zenz_model :: bool
  zenz_version :: ZenzVersionConfig
  zenz_rich_candidates :: bool
  zenz_predictive_input :: bool
  lm_typo_enabled :: bool
  has_lm_typo_ngram :: bool
  has_foreign_provider :: bool
  has_learning_memory :: bool
  cfg_learning_available :: bool
  cfg_learning_writable :: bool
  cfg_user_dictionary :: "DictionaryEntry list"
  user_dictionary_directory :: "(ustr + UserDictionary) option"
  cfg_request_options :: RequestOptions
  live_conversion :: bool
  default_input_style :: InputStyle
  default_keyboard_language :: KeyboardLanguage
  input_behavior :: InputBehavior

record ('m, 'z, 'c) Engine =
  config :: "('m, 'z, 'c) EngineConfig"
  sessions :: "ustr \<rightharpoonup> 'c SessionState"
  world :: "('m, 'z) World"

section \<open>Characters\<close>

definition to_ascii_lowercase :: "ustr \<Rightarrow> ustr" where
  "to_ascii_lowercase s = map (\<lambda>c. if 0x41 \<le> c \<and> c \<le> 0x5A then c + 0x20 else c) s"

definition is_ascii_hexdigit :: "uchar \<Rightarrow> bool" where
  "is_ascii_hexdigit c \<longleftrightarrow> 0x30 \<le> c \<and> c \<le> 0x39 \<or> 0x41 \<le> c \<and> c \<le> 0x46 \<or> 0x61 \<le> c \<and> c \<le> 0x66"

text \<open>\<open>u32::from_str_radix(_, 16)\<close> on a string of hexadecimal digits, and \<open>char::from_u32\<close>.\<close>

definition hex_value :: "uchar \<Rightarrow> int" where
  "hex_value c = (if c \<le> 0x39 then c - 0x30 else if c \<le> 0x46 then c - 0x37 else c - 0x57)"

definition hex_number :: "ustr \<Rightarrow> int" where
  "hex_number s = foldl (\<lambda>n c. 16 * n + hex_value c) 0 s"

definition parse_hex :: "ustr \<Rightarrow> int option" where
  "parse_hex s =
     (if s = [] \<or> \<not> list_all is_ascii_hexdigit s \<or> hex_number s \<ge> 2 ^ 32 then None else Some (hex_number s))"

definition char_from_u32 :: "int \<Rightarrow> uchar option" where
  "char_from_u32 n = (if is_scalar n then Some n else None)"

definition selection_number :: "ustr \<Rightarrow> nat option" where
  "selection_number t =
     (case t of [c] \<Rightarrow> if 0x30 \<le> c \<and> c \<le> 0x39 then Some (nat (c - 0x30)) else None | _ \<Rightarrow> None)"

section \<open>Key events\<close>

definition valid_event_text :: "KeyEvent \<Rightarrow> bool" where
  "valid_event_text e \<longleftrightarrow>
     ev_text e \<noteq> [] \<and> \<not> list_ex is_control (ev_text e) \<and> \<not> list_ex is_control (ev_input e) \<and>
     \<not> list_ex is_control (ev_intention e)"

abbreviation yen_or_backslash :: "ustr \<Rightarrow> bool" where
  "yen_or_backslash s \<equiv> s = [0xA5] \<or> s = [0x5C]"

definition option_direct_input_text :: "KeyEvent \<Rightarrow> bool \<Rightarrow> ustr option" where
  "option_direct_input_text e backslash =
     (let inp = (if ev_intention e \<noteq> [] then ev_intention e else if ev_input e \<noteq> [] then ev_input e else ev_text e)
      in if inp = [] \<or> list_ex is_control inp then None
         else Some (to_full_width
                (if yen_or_backslash inp then (if backslash then [0x5C] else [0xA5]) else inp)))"

fun comma :: "PunctuationStyle \<Rightarrow> bool \<Rightarrow> ustr" where
  "comma style inverted =
     (let comma = (if style = KutenAndComma \<or> style = PeriodAndComma then [0xFF0C] else [0x3001])
      in if inverted then (if comma = [0xFF0C] then [0x3001] else [0xFF0C]) else comma)"

fun period :: "PunctuationStyle \<Rightarrow> bool \<Rightarrow> ustr" where
  "period style inverted =
     (let period = (if style = PeriodAndToten \<or> style = PeriodAndComma then [0xFF0E] else [0x3002])
      in if inverted then (if period = [0xFF0E] then [0x3002] else [0xFF0E]) else period)"

definition japanese_symbols :: "(uchar \<times> uchar) list" where
  "japanese_symbols =
     [(0x21, 0xFF01), (0x22, 0x201D), (0x23, 0xFF03), (0x24, 0xFF04), (0x25, 0xFF05),
      (0x26, 0xFF06), (0x27, 0x2019), (0x28, 0xFF08), (0x29, 0xFF09), (0x3D, 0xFF1D),
      (0x7E, 0x301C), (0x7C, 0xFF5C), (0x60, 0xFF40), (0x7B, 0x300E), (0x2B, 0xFF0B),
      (0x2A, 0xFF0A), (0x7D, 0x300F), (0x3C, 0xFF1C), (0x3E, 0xFF1E), (0x3F, 0xFF1F),
      (0x5F, 0xFF3F), (0x2D, 0x30FC), (0x5E, 0xFF3E), (0x5C, 0xFF3C), (0xA5, 0xFFE5),
      (0x40, 0xFF20), (0x5B, 0x300C), (0x3B, 0xFF1B), (0x3A, 0xFF1A), (0x5D, 0x300D),
      (0x2C, 0x3001), (0x2E, 0x3002), (0x2F, 0x30FB)]"

definition japanese_symbol_intention :: "ustr \<Rightarrow> ustr option" where
  "japanese_symbol_intention s =
     (case s of [c] \<Rightarrow> map_option (\<lambda>v. [v]) (map_of japanese_symbols c) | _ \<Rightarrow> None)"

text \<open>The \<open>match\<close> of \<open>normalize_input_event\<close>, in the order of its arms.\<close>

definition normalized_symbol :: "KeyEvent \<Rightarrow> InputBehavior \<Rightarrow> ustr option" where
  "normalized_symbol e behavior =
     (let inp = (if ev_input e = [] then ev_text e else ev_input e);
          logical = (if ev_option e \<and> ev_intention e \<noteq> [] then ev_intention e else inp)
      in if yen_or_backslash logical \<and> ev_shift e then Some [0xFF5C]
         else if yen_or_backslash logical \<and> type_backslash behavior \<noteq> ev_option e then Some [0xFF3C]
         else if yen_or_backslash logical then Some [0xFFE5]
         else if logical = [0x2C] \<and> \<not> ev_shift e then Some (comma (punctuation_style behavior) (ev_option e))
         else if logical = [0x2E] \<and> \<not> ev_shift e then Some (period (punctuation_style behavior) (ev_option e))
         else if logical = [0x2F] \<and> ev_option e \<and> ev_shift e then Some [0x2026]
         else if logical = [0x2F] \<and> ev_option e then Some [0xFF0F]
         else if logical = [0x5B] \<and> ev_option e \<and> ev_shift e then Some [0xFF5B]
         else if logical = [0x5B] \<and> ev_option e then Some [0xFF3B]
         else if logical = [0x5D] \<and> ev_option e \<and> ev_shift e then Some [0xFF5D]
         else if logical = [0x5D] \<and> ev_option e then Some [0xFF3D]
         else japanese_symbol_intention inp)"

definition normalize_input_event :: "KeyEvent \<Rightarrow> InputBehavior \<Rightarrow> KeyEvent" where
  "normalize_input_event e behavior =
     (if user_action (ev_action e) \<noteq> Some ActInput then e
      else
        (let inp = (if ev_input e = [] then ev_text e else ev_input e)
         in case normalized_symbol e behavior of
              Some n \<Rightarrow> e\<lparr>ev_text := n, ev_intention := n\<rparr>
            | None \<Rightarrow>
                if ev_option e \<and> inp \<noteq> [] \<and> \<not> list_ex is_control inp
                then e\<lparr>ev_text := inp, ev_intention := inp\<rparr> else e))"

section \<open>Surrounding text\<close>

text \<open>
  The text before the selection, cut to its last line without leading white space and to its last 30
  scalar values; the text behind it likewise. \<open>rsplit\<close> and \<open>split\<close> at line feeds are written with
  \<open>takeWhile\<close>.
\<close>

definition last_line :: "ustr \<Rightarrow> ustr" where
  "last_line s = rev (takeWhile (\<lambda>c. c \<noteq> 0x0A) (rev s))"

definition first_line :: "ustr \<Rightarrow> ustr" where
  "first_line s = takeWhile (\<lambda>c. c \<noteq> 0x0A) s"

definition surrounding_context :: "SurroundingText option \<Rightarrow> ustr + SurroundingContext" where
  "surrounding_context sur =
     (case sur of
        None \<Rightarrow> Inr no_surrounding
      | Some t \<Rightarrow>
          if \<not> available t then Inr no_surrounding
          else if sur_cursor t > length (sur_text t) \<or> sur_anchor t > length (sur_text t)
          then Inl (ascii ''surrounding text cursor '' @ show_nat (sur_cursor t) @ ascii '' and anchor '' @
                    show_nat (sur_anchor t) @ ascii '' exceed '' @ show_nat (length (sur_text t)) @
                    ascii '' characters'')
          else
            (let selection_start = min (sur_cursor t) (sur_anchor t);
                 selection_end = max (sur_cursor t) (sur_anchor t);
                 left_line = trim_start (last_line (take selection_start (sur_text t)));
                 right_line = trim_end (first_line (drop selection_end (sur_text t)))
             in Inr \<lparr>left = Some (rev (take 30 (rev left_line))), right = Some (take 30 right_line)\<rparr>))"

definition surrounding_with_left_context :: "SurroundingContext \<Rightarrow> ustr option \<Rightarrow> SurroundingContext" where
  "surrounding_with_left_context sur left_context =
     (case left_context of Some l \<Rightarrow> sur\<lparr>left := Some l\<rparr> | None \<Rightarrow> sur)"

fun version_with_context :: "ZenzVersionConfig \<Rightarrow> SurroundingContext \<Rightarrow> ZenzVersionConfig" where
  "version_with_context (V2 c) sur = V2 (c\<lparr>v2_left_context := left sur\<rparr>)"
| "version_with_context (V3 c) sur = V3 (c\<lparr>v3_left_context := left sur, v3_right_context := right sur\<rparr>)"

section \<open>The session towards the client\<close>

definition current_marked_text :: "'c SessionState \<Rightarrow> ustr" where
  "current_marked_text s =
     (if input_mode s = ModePreviewing then
        (case preview_candidate_index s of
           Some i \<Rightarrow> if i < length (display_candidates s) then cand_text (display_candidates s ! i)
                     else surface_text (composing (conversion s))
         | None \<Rightarrow> surface_text (composing (conversion s)))
      else if input_mode s = ModeSelecting \<and> selected_candidate s < length (display_candidates s) then
        cand_text (display_candidates s ! selected_candidate s) @
        (if selected_candidate s < length (candidate_remainders s)
         then candidate_remainders s ! selected_candidate s else [])
      else (case live_candidate s of
              Some c \<Rightarrow> cand_text c
            | None \<Rightarrow> surface_text (composing (conversion s))))"

text \<open>\<open>suffix_edit_prediction\<close>: what to delete and to append to make one text the other.\<close>

definition suffix_edit_prediction :: "segmenter \<Rightarrow> ustr \<Rightarrow> ustr \<Rightarrow> ustr \<Rightarrow> InputPrediction option" where
  "suffix_edit_prediction graphemes current target display =
     (let current = graphemes current;
          target = graphemes target;
          shared = common_prefix_len current target;
          delete_count = length current - shared;
          append_text = concat (drop shared target)
      in if delete_count > 0 \<or> append_text \<noteq> []
         then Some \<lparr>ip_display_text = display, ip_append_text = append_text, ip_delete_count = delete_count,
                    ip_candidate = None\<rparr>
         else None)"

fun find_map :: "('a \<Rightarrow> 'b option) \<Rightarrow> 'a list \<Rightarrow> 'b option" where
  "find_map f [] = None"
| "find_map f (x # xs) = (case f x of Some y \<Rightarrow> Some y | None \<Rightarrow> find_map f xs)"

definition input_prediction :: "segmenter \<Rightarrow> 'c SessionState \<Rightarrow> ConversionResult \<Rightarrow> InputPrediction option" where
  "input_prediction graphemes s result =
     (let surf = surface_text (composing (conversion s))
      in case (case backspace_correction s of
                 Some (display, target) \<Rightarrow> suffix_edit_prediction graphemes surf target display
               | None \<Rightarrow> None) of
           Some p \<Rightarrow> Some p
         | None \<Rightarrow>
             if japanese_prediction (request_options s) \<noteq> Manual then None
             else
               (let delete_last = (surf \<noteq> [] \<and> is_ascii_alphabetic (last surf));
                    target = (if delete_last then butlast surf else surf)
                in if length target < 2 then None
                   else find_map
                     (\<lambda>c. case strip_prefix (to_hiragana target) (to_hiragana (candidate_reading c)) of
                            None \<Rightarrow> None
                          | Some append_text \<Rightarrow>
                              if append_text = [] then None
                              else Some \<lparr>ip_display_text = cand_text c, ip_append_text = append_text,
                                         ip_delete_count = (if delete_last then 1 else 0), ip_candidate = Some c\<rparr>)
                     (prediction_results result)))"

definition u32_max :: nat where
  "u32_max = 2 ^ 32 - 1"

fun composing_count_to_protocol :: "ComposingCount \<Rightarrow> ComposingCount" where
  "composing_count_to_protocol (InputCount n) = InputCount (min n u32_max)"
| "composing_count_to_protocol (SurfaceCount n) = SurfaceCount (min n u32_max)"
| "composing_count_to_protocol (Composite l r) =
     Composite (composing_count_to_protocol l) (composing_count_to_protocol r)"

definition candidate_to_protocol :: "nat \<Rightarrow> Candidate \<Rightarrow> ustr \<Rightarrow> ProtoCandidate" where
  "candidate_to_protocol index c annotation =
     \<lparr>pc_text = cand_text c, pc_value = cand_value c,
      pc_composing_count = composing_count_to_protocol (composing_count c),
      pc_annotation = annotation, pc_index = min index u32_max\<rparr>"

text \<open>The first part of \<open>make_state\<close>: the marked text and how much of it is highlighted.\<close>

definition preedit_of :: "'c SessionState \<Rightarrow> ustr \<times> nat" where
  "preedit_of s =
     (case input_mode s of
        ModePreviewing \<Rightarrow>
          (case preview_candidate_index s of
             Some i \<Rightarrow> if i < length (display_candidates s) then (cand_text (display_candidates s ! i), 0)
                       else (surface_text (composing (conversion s)), 0)
           | None \<Rightarrow> (surface_text (composing (conversion s)), 0))
      | ModeSelecting \<Rightarrow>
          if selected_candidate s < length (display_candidates s) then
            (let c = display_candidates s ! selected_candidate s;
                 remaining = (if selected_candidate s < length (candidate_remainders s)
                              then candidate_remainders s ! selected_candidate s else [])
             in (cand_text c @ remaining, min (length (cand_text c)) u32_max))
          else (surface_text (composing (conversion s)), 0)
      | ModeComposing \<Rightarrow>
          (case live_candidate s of
             Some c \<Rightarrow> (cand_text c, 0)
           | None \<Rightarrow> (surface_text (composing (conversion s)), 0))
      | ModeNone \<Rightarrow> ([], 0)
      | ModeUnicode \<Rightarrow> (ascii ''U+'' @ unicode_input s, 0))"

definition window_of :: "'c SessionState \<Rightarrow> CandidateWindow" where
  "window_of s =
     (if input_mode s = ModeSelecting then WindowSelecting
      else if input_mode s = ModeComposing \<and> input_language s = JapaneseInput \<and> \<not> live_conversion_enabled s
      then WindowPreview else WindowHidden)"

text \<open>The order in which the candidates are sent.\<close>

definition candidate_indices :: "'c SessionState \<Rightarrow> nat list" where
  "candidate_indices s =
     (let n = length (display_candidates s)
      in if window_of s = WindowPreview
         then (case preview_candidate_index s of Some i \<Rightarrow> [i] | None \<Rightarrow> []) @
              filter (\<lambda>i. Some i \<noteq> preview_candidate_index s) [0..<n]
         else [0..<n])"

definition sent_candidates :: "'c SessionState \<Rightarrow> ProtoCandidate list" where
  "sent_candidates s =
     List.map_filter
       (\<lambda>i. if i < length (display_candidates s)
            then Some (candidate_to_protocol i (display_candidates s ! i)
                         (if i < length (candidate_annotations s) then candidate_annotations s ! i else []))
            else None)
       (candidate_indices s)"

fun state_of_mode :: "InputMode \<Rightarrow> InputState" where
  "state_of_mode ModeNone = StateNone"
| "state_of_mode ModeComposing = StateComposing"
| "state_of_mode ModePreviewing = StatePreviewing"
| "state_of_mode ModeSelecting = StateSelecting"
| "state_of_mode ModeUnicode = StateUnicode"

text \<open>The cast of the selected index to \<open>i32\<close> keeps its lower 32 bits.\<close>

definition make_state :: "'c SessionState \<Rightarrow> bool \<Rightarrow> ustr \<Rightarrow> bool \<Rightarrow> StateResponse" where
  "make_state s is_consumed committed is_reset =
     \<lparr>consumed = is_consumed,
      preedit = fst (preedit_of s),
      preedit_cursor = min (length (fst (preedit_of s))) u32_max,
      rs_candidates = sent_candidates s,
      rs_selected = (if input_mode s = ModeSelecting then sint (word_of_nat (selected_candidate s) :: 32 word) else - 1),
      commit = committed, rs_reset = is_reset,
      rs_lm_typo_available = lm_typo_available s, rs_learning_available = learning_available s,
      rs_learning_writable = learning_writable s,
      rs_input_state = state_of_mode (input_mode s),
      candidate_window = window_of s,
      highlighted_preedit_length = snd (preedit_of s),
      rs_prediction =
        (if input_mode s = ModeComposing
         then map_option (\<lambda>p. \<lparr>pr_display_text = ip_display_text p, pr_append_text = ip_append_text p,
                              pr_delete_count = min (ip_delete_count p) u32_max\<rparr>) (prediction s)
         else None),
      rs_input_language = (case input_language s of JapaneseInput \<Rightarrow> LangJapanese | EnglishInput \<Rightarrow> LangEnglish)\<rparr>"

text \<open>The responses the code writes out: everything reset.\<close>

definition reset_response :: "'c SessionState \<Rightarrow> StateResponse" where
  "reset_response s =
     default_response\<lparr>rs_reset := True, rs_input_state := StateNone, candidate_window := WindowHidden,
       rs_lm_typo_available := lm_typo_available s, rs_learning_available := learning_available s,
       rs_learning_writable := learning_writable s\<rparr>"

definition page_candidates :: "PageCandidates \<Rightarrow> 'c SessionState \<Rightarrow> 'c SessionState \<times> bool" where
  "page_candidates page s =
     (let count = length (display_candidates s)
      in if pg_size page = 0 then (s, False)
         else if count = 0 then (s, True)
         else (case page_direction (pg_direction page) of
                 Some DirPrevious \<Rightarrow> (s\<lparr>selected_candidate := selected_candidate s - pg_size page\<rparr>, True)
               | Some DirNext \<Rightarrow> (s\<lparr>selected_candidate := min (selected_candidate s + pg_size page) (count - 1)\<rparr>, True)
               | _ \<Rightarrow> (s, False)))"

text \<open>\<open>insert_event\<close>: how a key goes into the composing text.\<close>

definition insert_event ::
  "segmenter \<Rightarrow> InputTableRegistry \<Rightarrow> KeyEvent \<Rightarrow> 'c SessionState \<Rightarrow> 'c SessionState" where
  "insert_event graphemes tabs e s =
     (let inp = (if ev_input e = [] then ev_text e else ev_input e)
      in if input_language s = EnglishInput
         then s\<lparr>conversion := session_insert_str graphemes tabs inp Direct (conversion s)\<rparr>
         else if (case session_style s of Mapped _ \<Rightarrow> True | _ \<Rightarrow> False) \<and> (ev_input e \<noteq> [] \<or> ev_intention e \<noteq> [])
         then s\<lparr>conversion :=
                session_insert_key tabs (if ev_intention e \<noteq> [] then Some (ev_intention e) else None) inp
                  (if ev_shift e then {Shift} else {}) (session_style s) (conversion s)\<rparr>
         else s\<lparr>conversion := session_insert_str graphemes tabs (ev_text e) (session_style s) (conversion s)\<rparr>)"

section \<open>Starting a session\<close>

definition start_input_style :: "('m, 'z, 'c) EngineConfig \<Rightarrow> StartSession \<Rightarrow> InputStyle option" where
  "start_input_style cfg start =
     (case proto_input_style (st_input_style start) of
        None \<Rightarrow> None
      | Some StyleUnspecified \<Rightarrow> Some (default_input_style cfg)
      | Some StyleDirect \<Rightarrow> Some Direct
      | Some StyleRomanToKana \<Rightarrow> Some RomanToKana
      | Some StyleAzik \<Rightarrow> Some (Mapped DefaultAzik)
      | Some StyleKanaJis \<Rightarrow> Some (Mapped DefaultKanaJis)
      | Some StyleKanaUs \<Rightarrow> Some (Mapped DefaultKanaUs)
      | Some StyleCustom \<Rightarrow>
          if contains_table (tables cfg) (st_custom_input_table start)
          then Some (Mapped (Named (st_custom_input_table start))) else None)"

definition start_keyboard_language :: "('m, 'z, 'c) EngineConfig \<Rightarrow> StartSession \<Rightarrow> KeyboardLanguage option" where
  "start_keyboard_language cfg start =
     (case proto_keyboard_language (st_keyboard_language start) of
        None \<Rightarrow> None
      | Some KbUnspecified \<Rightarrow> Some (default_keyboard_language cfg)
      | Some KbJapanese \<Rightarrow> Some Japanese
      | Some KbEnglishUs \<Rightarrow> Some EnglishUs
      | Some KbGreek \<Rightarrow> Some Greek)"

definition new_session_state ::
  "('m, 'z, 'c) EngineConfig \<Rightarrow> 64 word \<Rightarrow> ConversionSession \<Rightarrow> InputStyle \<Rightarrow> SurroundingContext \<Rightarrow>
   KeyboardLanguage \<Rightarrow> 'c SessionState" where
  "new_session_state cfg rid conv style sur language =
     \<lparr>conversion = conv, session_style = style, last_request_id = rid, selected_candidate = 0,
      input_mode = ModeNone, display_candidates = [], candidate_remainders = [], candidate_annotations = [],
      preview_candidate_index = None, additional_candidate_count = 0, segment_surface_count = None,
      last_was_backspace = False, prediction = None, backspace_correction = None,
      live_conversion_enabled = live_conversion cfg, surrounding = sur,
      request_options = (cfg_request_options cfg)\<lparr>keyboard_language := language\<rparr>,
      live_candidate = None, typo_corrections = [], lm_typo_available = lm_typo_enabled cfg,
      learning_available = cfg_learning_available cfg, learning_writable = cfg_learning_writable cfg,
      zenz_cache = es_empty_cache (services cfg), unicode_input = [], input_language = JapaneseInput\<rparr>"

section \<open>Envelopes\<close>

definition answer :: "64 word \<Rightarrow> ustr \<Rightarrow> Payload \<Rightarrow> Envelope" where
  "answer rid sid p = \<lparr>protocol_version = 1, request_id = rid, session_id = sid, payload = Some p, trace = []\<rparr>"

definition state_envelope :: "64 word \<Rightarrow> ustr \<Rightarrow> StateResponse \<Rightarrow> Envelope" where
  "state_envelope rid sid r = answer rid sid (StateResponseP r)"

definition typo_correction_envelope :: "64 word \<Rightarrow> ustr \<Rightarrow> LmTypoCandidate list \<Rightarrow> Envelope" where
  "typo_correction_envelope rid sid cs = answer rid sid (TypoCorrectionResponseP cs)"

definition error_envelope :: "64 word \<Rightarrow> ustr \<Rightarrow> Code \<Rightarrow> ustr \<Rightarrow> Envelope" where
  "error_envelope rid sid code message = answer rid sid (ProtocolErrorP code message)"

end
