(* ===== verification/Engine.thy ===== *)
theory Engine
  imports Engine_State
begin

text \<open>
  \<open>crates/daemon/src/engine.rs\<close>, the handlers: the state machine behind every key, the selection of
  candidates, the requests to the converter and the dispatch of envelopes.

  A handler works on the shared world and one session. It returns both together with its answer or a
  failure (the \<open>?\<close> of the source): what it changed before a failure stays changed.
\<close>

section \<open>Handlers\<close>

type_synonym Failure = "Code \<times> ustr"
type_synonym ('m, 'z, 'c) Run = "('m, 'z) World \<times> 'c SessionState"
type_synonym ('m, 'z, 'c, 'a) handler = "('m, 'z, 'c) Run \<Rightarrow> ('m, 'z, 'c) Run \<times> (Failure + 'a)"

definition succeed :: "'a \<Rightarrow> ('m, 'z, 'c, 'a) handler" where
  "succeed x run = (run, Inr x)"

definition fail :: "Code \<Rightarrow> ustr \<Rightarrow> ('m, 'z, 'c, 'a) handler" where
  "fail code message run = (run, Inl (code, message))"

definition and_then ::
  "('m, 'z, 'c, 'a) handler \<Rightarrow> ('a \<Rightarrow> ('m, 'z, 'c, 'b) handler) \<Rightarrow> ('m, 'z, 'c, 'b) handler" where
  "and_then m f run = (case m run of (run', Inl e) \<Rightarrow> (run', Inl e) | (run', Inr x) \<Rightarrow> f x run')"

definition update :: "('c SessionState \<Rightarrow> 'c SessionState) \<Rightarrow> ('m, 'z, 'c, unit) handler" where
  "update f run = ((fst run, f (snd run)), Inr ())"

definition inspect :: "('c SessionState \<Rightarrow> ('m, 'z, 'c, 'a) handler) \<Rightarrow> ('m, 'z, 'c, 'a) handler" where
  "inspect f run = f (snd run) run"

text \<open>\<open>Ok(make_state(session, ..))\<close> after a change of the session.\<close>

definition reply ::
  "('c SessionState \<Rightarrow> 'c SessionState) \<Rightarrow> bool \<Rightarrow> ustr \<Rightarrow> bool \<Rightarrow> ('m, 'z, 'c, StateResponse) handler" where
  "reply f is_consumed committed is_reset run =
     ((fst run, f (snd run)), Inr (make_state (f (snd run)) is_consumed committed is_reset))"

text \<open>Running on a copy of the session that is thrown away.\<close>

definition on_copy ::
  "('c SessionState \<Rightarrow> 'c SessionState) \<Rightarrow> ('m, 'z, 'c, unit) handler \<Rightarrow> ('c SessionState \<Rightarrow> 'a) \<Rightarrow>
   ('m, 'z, 'c, 'a) handler" where
  "on_copy f m get run =
     (case m (fst run, f (snd run)) of
        ((w, s), Inl e) \<Rightarrow> ((w, snd run), Inl e)
      | ((w, s), Inr _) \<Rightarrow> ((w, snd run), Inr (get s)))"

abbreviation reset_of :: "('m, 'z, 'c) EngineConfig \<Rightarrow> 'c SessionState \<Rightarrow> 'c SessionState" where
  "reset_of cfg \<equiv> reset_session (es_empty_cache (services cfg))"

abbreviation graphemes_of :: "('m, 'z, 'c) EngineConfig \<Rightarrow> segmenter" where
  "graphemes_of cfg \<equiv> sv_graphemes (es_session (services cfg))"

section \<open>Requesting candidates\<close>

definition remainders :: "('m, 'z, 'c) EngineConfig \<Rightarrow> 'c SessionState \<Rightarrow> ustr list" where
  "remainders cfg s = map (remaining_after_candidate (tables cfg) (conversion s)) (display_candidates s)"

text \<open>
  The neural part of \<open>request_candidates_for_active_target\<close>: the result and the evaluated candidate,
  or the model's error.
\<close>

definition zenz_attempt ::
  "('m, 'z, 'c) EngineConfig \<Rightarrow> bool \<Rightarrow> ustr option \<Rightarrow> ('m, 'z, 'c) Run \<Rightarrow>
   ('m, 'z, 'c) Run \<times> (ZenzError + (ConversionResult \<times> Candidate option))" where
  "zenz_attempt cfg rich left_context run =
     (let w = fst run; s = snd run; sv = services cfg;
          sur = surrounding_with_left_context (surrounding s) left_context;
          version = version_with_context (zenz_version cfg) sur
      in case es_zenz_convert sv (models w) (session_memory (memory w) (conversion s)) (conversion s)
                (zenz_cache s) version (zenz_rich_candidates cfg \<or> rich) of
           (z, cands, cache, evaluated) \<Rightarrow>
             (let w = w\<lparr>models := z\<rparr>;
                  s = s\<lparr>conversion := (conversion s)\<lparr>candidates := cands\<rparr>, zenz_cache := cache\<rparr>
              in case evaluated of
                   Inl e \<Rightarrow> ((w, s), Inl e)
                 | Inr evaluated \<Rightarrow>
                     (let (z, stab, zpred, override) =
                        (if zenz_predictive_input cfg \<and> japanese_prediction (request_options s) \<noteq> Disabled
                         then (case es_zenz_prediction sv (models w) (session_memory (memory w) (conversion s))
                                      (conversion s) version (case left sur of Some l \<Rightarrow> l | None \<Rightarrow> []) of
                                 (z, stab, zpred, Inl e) \<Rightarrow> (z, stab, zpred, Inl e)
                               | (z, stab, zpred, Inr preds) \<Rightarrow> (z, stab, zpred, Inr (Some preds)))
                         else (models w, stable_prediction_cache (conversion s),
                               zenz_prediction_cache (conversion s), Inr None));
                        w = w\<lparr>models := z\<rparr>;
                        s = s\<lparr>conversion := (conversion s)\<lparr>stable_prediction_cache := stab,
                                                         zenz_prediction_cache := zpred\<rparr>\<rparr>
                      in case override of
                           Inl e \<Rightarrow> ((w, s), Inl e)
                         | Inr override \<Rightarrow>
                             (case finalize_zenz_request (es_session sv) (tables cfg) (request_options s) override
                                     (memory w) (conversion s) of
                                (conv, Inl e) \<Rightarrow> ((w, s\<lparr>conversion := conv\<rparr>), Inl (ZenzFailed e))
                              | (conv, Inr r) \<Rightarrow> ((w, s\<lparr>conversion := conv\<rparr>), Inr (r, evaluated))))))"

text \<open>The dictionary conversion, used without a model and when the model's context is too small.\<close>

definition plain_request ::
  "('m, 'z, 'c) EngineConfig \<Rightarrow> ('m, 'z, 'c, ConversionResult \<times> Candidate option) handler" where
  "plain_request cfg run =
     (case session_request (es_session (services cfg)) (tables cfg) (request_options (snd run))
             (memory (fst run)) (conversion (snd run)) of
        (conv, Inl e) \<Rightarrow>
          ((fst run, (snd run)\<lparr>conversion := conv\<rparr>), Inl (Internal, ascii ''candidate generation failed: '' @ e))
      | (conv, Inr r) \<Rightarrow> ((fst run, (snd run)\<lparr>conversion := conv\<rparr>), Inr (r, None)))"

definition generate ::
  "('m, 'z, 'c) EngineConfig \<Rightarrow> bool \<Rightarrow> ustr option \<Rightarrow>
   ('m, 'z, 'c, ConversionResult \<times> Candidate option) handler" where
  "generate cfg rich left_context run =
     (if \<not> has_zenz_model cfg then plain_request cfg run
      else
        (case zenz_attempt cfg rich left_context run of
           (run, Inr r) \<Rightarrow> (run, Inr r)
         | (run, Inl ContextCapacityExceeded) \<Rightarrow>
             and_then
               (update (\<lambda>s. s\<lparr>zenz_cache := es_empty_cache (services cfg),
                              conversion := discard_zenz_inference_state (conversion s)\<rparr>))
               (\<lambda>_. plain_request cfg) run
         | (run, Inl (ZenzFailed e)) \<Rightarrow>
             (run, Inl (Internal, ascii ''Zenz candidate generation failed: '' @ e))))"

definition same_candidate :: "Candidate \<Rightarrow> Candidate \<Rightarrow> bool" where
  "same_candidate a b \<longleftrightarrow> cand_text a = cand_text b \<and> composing_count a = composing_count b"

fun position :: "('a \<Rightarrow> bool) \<Rightarrow> 'a list \<Rightarrow> nat option" where
  "position P [] = None"
| "position P (x # xs) = (if P x then Some 0 else map_option Suc (position P xs))"

definition head_option :: "'a list \<Rightarrow> 'a option" where
  "head_option xs = (case xs of [] \<Rightarrow> None | x # _ \<Rightarrow> Some x)"

text \<open>What the session keeps of a result.\<close>

definition live_candidate_of ::
  "('m, 'z, 'c) EngineConfig \<Rightarrow> ConversionResult \<Rightarrow> 'c SessionState \<Rightarrow> Candidate option" where
  "live_candidate_of cfg r s =
     (if live_conversion cfg \<and> input_mode s = ModeComposing \<and> input_language s = JapaneseInput \<and>
         segment_surface_count s = None \<and> is_at_end (composing (conversion s)) \<and>
         \<not> last_was_backspace s \<and> length (surface (composing (conversion s))) > 1
      then head_option (main_results r) else None)"

definition annotation_of :: "Candidate option \<Rightarrow> Candidate \<Rightarrow> ustr" where
  "annotation_of evaluated c =
     (case evaluated of
        Some e \<Rightarrow> if composing_count c = composing_count e \<and> entries c = entries e then ascii ''Zenzai'' else []
      | None \<Rightarrow> [])"

definition preview_index_of ::
  "('m, 'z, 'c) EngineConfig \<Rightarrow> ConversionResult \<Rightarrow> 'c SessionState \<Rightarrow> nat option" where
  "preview_index_of cfg r s =
     (case main_results r of
        [] \<Rightarrow> None
      | preview # _ \<Rightarrow>
          if remaining_after_candidate (tables cfg) (conversion s) preview = []
          then position (\<lambda>c. same_candidate c preview) (display_candidates s) else None)"

definition present ::
  "('m, 'z, 'c) EngineConfig \<Rightarrow> ConversionResult \<Rightarrow> Candidate option \<Rightarrow> 'c SessionState \<Rightarrow> 'c SessionState" where
  "present cfg r evaluated s =
     (let live = live_candidate_of cfg r s;
          s = s\<lparr>display_candidates :=
                  (if segment_surface_count s \<noteq> None then main_results r
                   else desktop_candidates (tables cfg) r (conversion s))\<rparr>;
          s = s\<lparr>candidate_remainders := remainders cfg s\<rparr>;
          s = s\<lparr>candidate_annotations := map (annotation_of evaluated) (display_candidates s)\<rparr>;
          s = s\<lparr>preview_candidate_index := preview_index_of cfg r s, additional_candidate_count := 0\<rparr>;
          s = s\<lparr>prediction := input_prediction (graphemes_of cfg) s r\<rparr>;
          s = (case live of
                 Some c \<Rightarrow> (case position (\<lambda>d. same_candidate d c) (display_candidates s) of
                              Some i \<Rightarrow> s\<lparr>selected_candidate := i\<rparr> | None \<Rightarrow> s)
               | None \<Rightarrow> s)
      in s\<lparr>live_candidate := live\<rparr>)"

definition request_for_active_target ::
  "('m, 'z, 'c) EngineConfig \<Rightarrow> bool \<Rightarrow> ustr option \<Rightarrow> ('m, 'z, 'c, unit) handler" where
  "request_for_active_target cfg rich left_context run =
     (case refresh_learning (es_session (services cfg)) (memory (fst run)) (conversion (snd run)) of
        (conv, Some e) \<Rightarrow>
          ((fst run, (snd run)\<lparr>conversion := conv\<rparr>), Inl (Internal, ascii ''learning memory refresh failed: '' @ e))
      | (conv, None) \<Rightarrow>
          and_then (generate cfg rich left_context)
            (\<lambda>(r, evaluated). update (present cfg r evaluated))
            (fst run, (snd run)\<lparr>conversion := conv\<rparr>))"

text \<open>\<open>request_candidates_with_context\<close>: a segment request ends whether it succeeds or not.\<close>

definition request_with_context ::
  "('m, 'z, 'c) EngineConfig \<Rightarrow> bool \<Rightarrow> ustr option \<Rightarrow> ('m, 'z, 'c, unit) handler" where
  "request_with_context cfg rich left_context run =
     (let s = snd run;
          s = (if last_was_backspace s then s else s\<lparr>backspace_correction := None\<rparr>)
      in if segment_surface_count s = None then request_for_active_target cfg rich left_context (fst run, s)
         else
           (case request_for_active_target cfg rich left_context
                   (fst run, s\<lparr>conversion := begin_segment_request (tables cfg) (conversion s)\<rparr>) of
              ((w, s), Inl e) \<Rightarrow> ((w, s\<lparr>conversion := end_segment_request (conversion s)\<rparr>), Inl e)
            | ((w, s), Inr u) \<Rightarrow>
                (let s = s\<lparr>conversion := end_segment_request (conversion s)\<rparr>
                 in ((w, s\<lparr>candidate_remainders := remainders cfg s\<rparr>), Inr u))))"

definition request_candidates :: "('m, 'z, 'c) EngineConfig \<Rightarrow> ('m, 'z, 'c, unit) handler" where
  "request_candidates cfg = request_with_context cfg False None"

definition request_rich_candidates :: "('m, 'z, 'c) EngineConfig \<Rightarrow> ('m, 'z, 'c, unit) handler" where
  "request_rich_candidates cfg = request_with_context cfg True None"

section \<open>Selecting\<close>

definition select_and_stage_learning ::
  "('m, 'z, 'c) EngineConfig \<Rightarrow> Candidate \<Rightarrow> ('m, 'z, 'c, ustr) handler" where
  "select_and_stage_learning cfg c run =
     (case select_candidate_value (es_session (services cfg)) (tables cfg) c (memory (fst run)) (conversion (snd run)) of
        (mem, conv, r) \<Rightarrow>
          (((fst run)\<lparr>memory := mem\<rparr>, (snd run)\<lparr>conversion := conv\<rparr>),
           (case r of
              Inr committed \<Rightarrow> Inr committed
            | Inl (CandidateOutOfRange index count) \<Rightarrow>
                Inl (InvalidPayload, ascii ''candidate selection failed: candidate index '' @ show_nat index @
                  ascii '' is outside the current '' @ show_nat count @ ascii '' candidates'')
            | Inl (LearningFailed e) \<Rightarrow> Inl (Internal, ascii ''candidate selection failed: '' @ e))))"

definition commit_candidate ::
  "('m, 'z, 'c) EngineConfig \<Rightarrow> Candidate \<Rightarrow> InputMode \<Rightarrow> ('m, 'z, 'c, StateResponse) handler" where
  "commit_candidate cfg selected remainder_mode =
     and_then (select_and_stage_learning cfg selected) (\<lambda>committed.
       inspect (\<lambda>s.
         let left_context = (case left (surrounding s) of Some l \<Rightarrow> l | None \<Rightarrow> []) @ committed;
             finished = is_empty_composing (composing (conversion s))
         in and_then
              (update (\<lambda>s. (clear_presentation s)\<lparr>last_was_backspace := False, backspace_correction := None\<rparr>))
              (\<lambda>_. and_then
                (if \<not> finished
                 then and_then (update (\<lambda>s. s\<lparr>segment_surface_count := None, input_mode := remainder_mode\<rparr>))
                        (\<lambda>_. request_with_context cfg True (Some left_context))
                 else update (\<lambda>s. s\<lparr>input_mode := ModeNone\<rparr>))
                (\<lambda>_. inspect (\<lambda>s. reply (\<lambda>s. s) True committed (is_empty_composing (composing (conversion s))))))))"

definition outside_message :: "string \<Rightarrow> nat \<Rightarrow> ustr" where
  "outside_message what index = ascii what @ show_nat index @ ascii '' is outside the current candidates''"

definition select_with_remainder_mode ::
  "('m, 'z, 'c) EngineConfig \<Rightarrow> nat \<Rightarrow> InputMode \<Rightarrow> ('m, 'z, 'c, StateResponse) handler" where
  "select_with_remainder_mode cfg index remainder_mode =
     and_then (update (\<lambda>s. s\<lparr>typo_corrections := []\<rparr>)) (\<lambda>_.
       inspect (\<lambda>s.
         if index < length (display_candidates s)
         then commit_candidate cfg (display_candidates s ! index) remainder_mode
         else fail InvalidPayload (outside_message ''candidate index '' index)))"

definition select_candidate :: "('m, 'z, 'c) EngineConfig \<Rightarrow> nat \<Rightarrow> ('m, 'z, 'c, StateResponse) handler" where
  "select_candidate cfg index = select_with_remainder_mode cfg index ModePreviewing"

text \<open>\<open>learn_current_marked_candidate\<close>: the candidate whose text is what is marked, if there is one.\<close>

definition marked_candidate :: "ustr \<Rightarrow> 'c SessionState \<Rightarrow> Candidate option" where
  "marked_candidate marked s =
     (case (case live_candidate s of Some c \<Rightarrow> if cand_text c = marked then Some c else None | None \<Rightarrow> None) of
        Some c \<Rightarrow> Some c
      | None \<Rightarrow>
          find_map (\<lambda>(c, remaining). if remaining = [] \<and> cand_text c = marked then Some c else None)
            (zip (display_candidates s) (candidate_remainders s)))"

definition learn_current_marked_candidate ::
  "('m, 'z, 'c) EngineConfig \<Rightarrow> ustr \<Rightarrow> ('m, 'z, 'c, unit) handler" where
  "learn_current_marked_candidate cfg marked =
     inspect (\<lambda>s. case marked_candidate marked s of
        None \<Rightarrow> succeed ()
      | Some c \<Rightarrow> and_then (select_and_stage_learning cfg c) (\<lambda>_. succeed ()))"

definition select_typo_correction ::
  "('m, 'z, 'c) EngineConfig \<Rightarrow> nat \<Rightarrow> ('m, 'z, 'c, StateResponse) handler" where
  "select_typo_correction cfg index =
     inspect (\<lambda>s.
       if index < length (typo_corrections s)
       then and_then (update (reset_of cfg)) (\<lambda>_. inspect (\<lambda>s'.
              succeed ((reset_response s')\<lparr>consumed := True, commit := converted_text (typo_corrections s ! index)\<rparr>)))
       else fail InvalidPayload (outside_message ''typo correction index '' index))"

definition forget_candidate :: "('m, 'z, 'c) EngineConfig \<Rightarrow> nat \<Rightarrow> ('m, 'z, 'c, StateResponse) handler" where
  "forget_candidate cfg index =
     and_then (update (\<lambda>s. s\<lparr>typo_corrections := []\<rparr>)) (\<lambda>_.
       inspect (\<lambda>s.
         if index < length (display_candidates s) then
           and_then
             (\<lambda>run. case forget_learning (es_session (services cfg)) (display_candidates s ! index)
                          (memory (fst run)) (conversion (snd run)) of
                (mem, conv, Some e) \<Rightarrow>
                  (((fst run)\<lparr>memory := mem\<rparr>, (snd run)\<lparr>conversion := conv\<rparr>),
                   Inl (Internal, ascii ''learning memory forget failed: '' @ e))
              | (mem, conv, None) \<Rightarrow> (((fst run)\<lparr>memory := mem\<rparr>, (snd run)\<lparr>conversion := conv\<rparr>), Inr ()))
             (\<lambda>_. and_then (update (\<lambda>s. s\<lparr>selected_candidate := 0, live_candidate := None\<rparr>))
               (\<lambda>_. and_then (request_candidates cfg) (\<lambda>_. reply (\<lambda>s. s) True [] False)))
         else fail InvalidPayload (outside_message ''candidate index '' index)))"

definition reset_learning :: "('m, 'z, 'c) EngineConfig \<Rightarrow> ('m, 'z, 'c, StateResponse) handler" where
  "reset_learning cfg =
     and_then (update (\<lambda>s. s\<lparr>typo_corrections := []\<rparr>)) (\<lambda>_.
       and_then
         (\<lambda>run. case session_reset_learning (es_session (services cfg)) (memory (fst run)) (conversion (snd run)) of
            (mem, conv, Some e) \<Rightarrow>
              (((fst run)\<lparr>memory := mem\<rparr>, (snd run)\<lparr>conversion := conv\<rparr>),
               Inl (Internal, ascii ''learning memory reset failed: '' @ e))
          | (mem, conv, None) \<Rightarrow> (((fst run)\<lparr>memory := mem\<rparr>, (snd run)\<lparr>conversion := conv\<rparr>), Inr ()))
         (\<lambda>_. and_then (update (\<lambda>s. s\<lparr>selected_candidate := 0, live_candidate := None\<rparr>))
           (\<lambda>_. and_then
             (inspect (\<lambda>s. if is_empty_composing (composing (conversion s)) then succeed () else request_candidates cfg))
             (\<lambda>_. reply (\<lambda>s. s) True [] False))))"

section \<open>Typo corrections\<close>

definition request_typo_corrections ::
  "('m, 'z, 'c) EngineConfig \<Rightarrow> ComposingText \<Rightarrow> ('m, 'z, 'c, LmTypoCandidate list) handler" where
  "request_typo_corrections cfg text run =
     (if \<not> lm_typo_enabled cfg then fail InvalidPayload (ascii ''LM typo correction is disabled'') run
      else if \<not> has_lm_typo_ngram cfg
      then fail Internal (ascii ''N-gram model is unavailable for LM typo correction'') run
      else
        (let s = snd run;
             style = (if input text = [] then session_style s else input_style (last (input text)))
         in case es_typo_correction (services cfg) (models (fst run))
                   (case left (surrounding s) of Some l \<Rightarrow> l | None \<Rightarrow> []) text style of
              (z, r) \<Rightarrow>
                (((fst run)\<lparr>models := z\<rparr>, s),
                 (case r of
                    Inr cs \<Rightarrow> Inr cs
                  | Inl ContextCapacityExceeded \<Rightarrow> Inr []
                  | Inl (ZenzFailed e) \<Rightarrow> Inl (Internal, ascii ''LM typo correction failed: '' @ e)))))"

definition converted_reading :: "('m, 'z, 'c) EngineConfig \<Rightarrow> ustr \<Rightarrow> ('m, 'z, 'c, ustr) handler" where
  "converted_reading cfg reading =
     on_copy
       (\<lambda>s. let s = reset_of cfg s;
                s = s\<lparr>surrounding := (surrounding s)\<lparr>right := None\<rparr>,
                      request_options := (request_options s)\<lparr>japanese_prediction := Disabled,
                                                             foreign_prediction := Disabled\<rparr>\<rparr>
            in s\<lparr>conversion := session_insert_str (graphemes_of cfg) (tables cfg) reading Direct (conversion s)\<rparr>)
       (request_candidates cfg)
       (\<lambda>s. case candidates (conversion s) of [] \<Rightarrow> reading | c # _ \<Rightarrow> cand_text c)"

definition update_backspace_correction ::
  "('m, 'z, 'c) EngineConfig \<Rightarrow> ComposingText \<Rightarrow> ('m, 'z, 'c, unit) handler" where
  "update_backspace_correction cfg previous =
     and_then (request_typo_corrections cfg previous) (\<lambda>cs.
       case find (\<lambda>reading. reading \<noteq> []) (map (\<lambda>c. to_hiragana (converted_text c)) cs) of
         None \<Rightarrow> succeed ()
       | Some reading \<Rightarrow>
           and_then (converted_reading cfg reading) (\<lambda>display.
             and_then (converted_reading cfg (surface_text previous)) (\<lambda>previous_display.
               if display \<noteq> previous_display
               then update (\<lambda>s. s\<lparr>backspace_correction := Some (display, reading)\<rparr>)
               else succeed ())))"

section \<open>Unicode input\<close>

definition enter_unicode_input :: "('m, 'z, 'c) EngineConfig \<Rightarrow> ('m, 'z, 'c, StateResponse) handler" where
  "enter_unicode_input cfg =
     inspect (\<lambda>s.
       let enter = (\<lambda>committed. reply (\<lambda>s. s\<lparr>input_mode := ModeUnicode, unicode_input := []\<rparr>) True committed False)
       in (case input_mode s of
             ModeComposing \<Rightarrow>
               (let committed = current_marked_text s
                in and_then (learn_current_marked_candidate cfg committed)
                     (\<lambda>_. and_then (update (reset_of cfg)) (\<lambda>_. enter committed)))
           | ModePreviewing \<Rightarrow>
               (let committed = current_marked_text s
                in and_then (learn_current_marked_candidate cfg committed)
                     (\<lambda>_. and_then (update (reset_of cfg)) (\<lambda>_. enter committed)))
           | ModeSelecting \<Rightarrow>
               if selected_candidate s < length (display_candidates s) then
                 and_then (select_and_stage_learning cfg (display_candidates s ! selected_candidate s)) (\<lambda>committed.
                   inspect (\<lambda>s.
                     let committed = committed @ surface_text (composing (conversion s))
                     in and_then (update (reset_of cfg)) (\<lambda>_. enter committed)))
               else fail InvalidPayload (ascii ''selected candidate is outside the current candidates'')
           | _ \<Rightarrow> enter []))"

definition handle_unicode_input ::
  "('m, 'z, 'c) EngineConfig \<Rightarrow> UserAction \<Rightarrow> KeyEvent \<Rightarrow> ('m, 'z, 'c, StateResponse) handler" where
  "handle_unicode_input cfg action e =
     (case action of
        ActInput \<Rightarrow>
          reply (\<lambda>s. s\<lparr>unicode_input := unicode_input s @
                         filter is_ascii_hexdigit (to_ascii_lowercase (ev_input e))\<rparr>) True [] False
      | ActBackspace \<Rightarrow>
          inspect (\<lambda>s. if unicode_input s = [] then reply (reset_of cfg) True [] True
                       else reply (\<lambda>s. s\<lparr>unicode_input := butlast (unicode_input s)\<rparr>) True [] False)
      | ActEnter \<Rightarrow>
          inspect (\<lambda>s. reply (reset_of cfg) True
            (case Option.bind (parse_hex (unicode_input s)) char_from_u32 of Some c \<Rightarrow> [c] | None \<Rightarrow> []) True)
      | ActSpace \<Rightarrow>
          inspect (\<lambda>s. reply (reset_of cfg) True
            (case Option.bind (parse_hex (unicode_input s)) char_from_u32 of Some c \<Rightarrow> [c] | None \<Rightarrow> []) True)
      | ActEscape \<Rightarrow> reply (reset_of cfg) True [] True
      | _ \<Rightarrow> reply (\<lambda>s. s) True [] False)"

section \<open>Keys\<close>

definition move_text_cursor :: "int \<Rightarrow> 'c SessionState \<Rightarrow> 'c SessionState" where
  "move_text_cursor k s = s\<lparr>conversion := session_move_cursor k (conversion s)\<rparr>"

text \<open>\<open>reveal_additional_candidate\<close>; the slices start inside the lists.\<close>

definition reveal_additional_candidate ::
  "('m, 'z, 'c) EngineConfig \<Rightarrow> 'c SessionState \<Rightarrow> 'c SessionState" where
  "reveal_additional_candidate cfg s =
     (let base_start = additional_candidate_count s;
          selected = (if base_start < length (display_candidates s)
                      then Some (display_candidates s ! base_start) else None);
          additional = desktop_additional_candidates (graphemes_of cfg) (tables cfg) selected (conversion s);
          shown = min (additional_candidate_count s + 1) (length additional);
          revealed = drop (length additional - shown) additional;
          s = s\<lparr>display_candidates := map fst revealed @ drop base_start (display_candidates s),
                candidate_annotations := map snd revealed @ drop base_start (candidate_annotations s)\<rparr>
      in s\<lparr>candidate_remainders := remainders cfg s, additional_candidate_count := shown,
           selected_candidate := 0\<rparr>)"

text \<open>A correction found by Backspace is offered again as an edit of the text that is left.\<close>

definition renew_correction :: "('m, 'z, 'c) EngineConfig \<Rightarrow> 'c SessionState \<Rightarrow> 'c SessionState" where
  "renew_correction cfg s =
     (case backspace_correction s of
        None \<Rightarrow> s
      | Some (display, target) \<Rightarrow>
          (case suffix_edit_prediction (graphemes_of cfg) (surface_text (composing (conversion s))) target display of
             Some p \<Rightarrow> s\<lparr>prediction := Some p\<rparr>
           | None \<Rightarrow> s\<lparr>backspace_correction := None\<rparr>))"

definition handle_backspace :: "('m, 'z, 'c) EngineConfig \<Rightarrow> ('m, 'z, 'c, StateResponse) handler" where
  "handle_backspace cfg =
     and_then
       (update (\<lambda>s. move_text_cursor
                 (int (length (surface (composing (conversion s))) - cursor (composing (conversion s)))) s))
       (\<lambda>_. inspect (\<lambda>s.
         let previous = (if lm_typo_enabled cfg \<and> backspace_correction s = None
                         then Some (composing (conversion s)) else None)
         in and_then
              (update (\<lambda>s. s\<lparr>conversion := session_delete_backward (tables cfg) 1 (conversion s),
                             segment_surface_count := None, last_was_backspace := True\<rparr>))
              (\<lambda>_. inspect (\<lambda>s.
                if is_empty_composing (composing (conversion s)) then reply (reset_of cfg) True [] True
                else
                  and_then (update (\<lambda>s. clear_presentation (s\<lparr>input_mode := ModeComposing\<rparr>)))
                   (\<lambda>_. and_then (request_candidates cfg)
                    (\<lambda>_. and_then (update (\<lambda>s. s\<lparr>live_candidate := None\<rparr>))
                     (\<lambda>_. and_then (case previous of Some p \<Rightarrow> update_backspace_correction cfg p | None \<Rightarrow> succeed ())
                      (\<lambda>_. and_then
                        (update (renew_correction cfg))
                        (\<lambda>_. reply (\<lambda>s. s) True [] False)))))))))"

definition handle_escape :: "('m, 'z, 'c) EngineConfig \<Rightarrow> ('m, 'z, 'c, StateResponse) handler" where
  "handle_escape cfg =
     inspect (\<lambda>s. case input_mode s of
        ModeNone \<Rightarrow> reply (\<lambda>s. s) False [] False
      | ModeComposing \<Rightarrow> reply (reset_of cfg) True [] True
      | ModePreviewing \<Rightarrow> reply (\<lambda>s. s\<lparr>input_mode := ModeComposing\<rparr>) True [] False
      | ModeSelecting \<Rightarrow>
          reply (\<lambda>s. s\<lparr>input_mode := (if live_conversion cfg then ModeComposing else ModePreviewing)\<rparr>) True [] False
      | ModeUnicode \<Rightarrow> reply (\<lambda>s. s) False [] False)"

definition handle_enter :: "('m, 'z, 'c) EngineConfig \<Rightarrow> ('m, 'z, 'c, StateResponse) handler" where
  "handle_enter cfg =
     inspect (\<lambda>s.
       if input_mode s = ModeSelecting then select_candidate cfg (selected_candidate s)
       else
         (let committed = current_marked_text s
          in and_then (learn_current_marked_candidate cfg committed)
               (\<lambda>_. reply (reset_of cfg) True committed True)))"

definition next_selected :: "bool \<Rightarrow> 'c SessionState \<Rightarrow> 'c SessionState" where
  "next_selected backwards s =
     (let count = length (display_candidates s)
      in if count > 0
         then s\<lparr>selected_candidate :=
                  (if backwards then selected_candidate s - 1 else min (selected_candidate s + 1) (count - 1))\<rparr>
         else s)"

definition separate :: "('m, 'z, 'c) EngineConfig \<Rightarrow> 'c SessionState \<Rightarrow> 'c SessionState" where
  "separate cfg s =
     s\<lparr>conversion := insert_composition_separator (tables cfg) (session_style s) (conversion s),
       last_was_backspace := False\<rparr>"

definition handle_space :: "('m, 'z, 'c) EngineConfig \<Rightarrow> KeyEvent \<Rightarrow> ('m, 'z, 'c, StateResponse) handler" where
  "handle_space cfg e =
     inspect (\<lambda>s. case input_mode s of
        ModeNone \<Rightarrow>
          (let full_width = (input_language s = JapaneseInput \<and> ev_shift e = type_half_space (input_behavior cfg))
           in reply (\<lambda>s. s) True (if full_width then [0x3000] else [0x20]) False)
      | ModeComposing \<Rightarrow>
          and_then (update (separate cfg)) (\<lambda>_.
            if live_conversion cfg then
              and_then (update (\<lambda>s. s\<lparr>input_mode := ModeSelecting\<rparr>))
                (\<lambda>_. and_then (request_rich_candidates cfg) (\<lambda>_. reply (\<lambda>s. s\<lparr>selected_candidate := 0\<rparr>) True [] False))
            else
              and_then (update (\<lambda>s. s\<lparr>input_mode := ModePreviewing\<rparr>))
                (\<lambda>_. and_then (request_candidates cfg)
                  (\<lambda>_. reply (\<lambda>s. s\<lparr>selected_candidate :=
                                 (case preview_candidate_index s of Some i \<Rightarrow> i | None \<Rightarrow> 0)\<rparr>) True [] False)))
      | ModePreviewing \<Rightarrow>
          and_then (request_rich_candidates cfg)
            (\<lambda>_. reply (\<lambda>s. s\<lparr>input_mode := ModeSelecting, selected_candidate := 0\<rparr>) True [] False)
      | ModeSelecting \<Rightarrow> reply (next_selected (ev_shift e)) True [] False
      | ModeUnicode \<Rightarrow> reply (\<lambda>s. s) False [] False)"

definition handle_down :: "('m, 'z, 'c) EngineConfig \<Rightarrow> ('m, 'z, 'c, StateResponse) handler" where
  "handle_down cfg =
     inspect (\<lambda>s.
       if input_mode s = ModeComposing \<or> input_mode s = ModePreviewing then
         and_then (update (separate cfg)) (\<lambda>_. and_then (request_rich_candidates cfg)
           (\<lambda>_. reply (\<lambda>s. s\<lparr>input_mode := ModeSelecting, selected_candidate := 0\<rparr>) True [] False))
       else if input_mode s = ModeSelecting then reply (next_selected False) True [] False
       else reply (\<lambda>s. s) False [] False)"

definition handle_up :: "('m, 'z, 'c) EngineConfig \<Rightarrow> ('m, 'z, 'c, StateResponse) handler" where
  "handle_up cfg =
     inspect (\<lambda>s. reply
       (\<lambda>s. if input_mode s = ModeSelecting then
              (if selected_candidate s = 0 \<and> additional_candidate_count s < 5
               then reveal_additional_candidate cfg s
               else s\<lparr>selected_candidate := selected_candidate s - 1\<rparr>)
            else s)
       (input_mode s \<noteq> ModeNone) [] False)"

text \<open>Shift with an arrow key: the segment to convert grows or shrinks.\<close>

definition segment_start :: "('m, 'z, 'c) EngineConfig \<Rightarrow> 'c SessionState \<Rightarrow> 'c SessionState" where
  "segment_start cfg s =
     (if input_mode s = ModeSelecting \<and> selected_candidate s < length (candidate_remainders s) then
        (let pre = (if selected_candidate s < length (display_candidates s)
                    then consumed_surface_count (tables cfg) (conversion s) (display_candidates s ! selected_candidate s)
                    else length (surface (composing (conversion s))) -
                           length (candidate_remainders s ! selected_candidate s))
         in move_text_cursor (int pre - int (cursor (composing (conversion s)))) s)
      else s)"

definition segment_target :: "bool \<Rightarrow> 'c SessionState \<Rightarrow> nat" where
  "segment_target to_right s =
     (let total = length (surface (composing (conversion s)));
          current = cursor (composing (conversion s))
      in if to_right then (if current \<ge> total then 1 else current + 1) else max (current - 1) 1)"

definition handle_segment :: "('m, 'z, 'c) EngineConfig \<Rightarrow> bool \<Rightarrow> ('m, 'z, 'c, StateResponse) handler" where
  "handle_segment cfg to_right =
     and_then (update (segment_start cfg)) (\<lambda>_.
       inspect (\<lambda>s.
         let target = segment_target to_right s
         in and_then
              (update (\<lambda>s. clear_presentation
                 ((move_text_cursor (int target - int (cursor (composing (conversion s)))) s)
                    \<lparr>segment_surface_count := Some target, last_was_backspace := False, input_mode := ModeSelecting\<rparr>)))
              (\<lambda>_. and_then (request_candidates cfg) (\<lambda>_. reply (\<lambda>s. s\<lparr>live_candidate := None\<rparr>) True [] False))))"

definition handle_tab :: "('m, 'z, 'c) EngineConfig \<Rightarrow> ('m, 'z, 'c, StateResponse) handler" where
  "handle_tab cfg =
     inspect (\<lambda>s.
       case (if input_mode s = ModeComposing then prediction s else None) of
         None \<Rightarrow> reply (\<lambda>s. s) True [] False
       | Some p \<Rightarrow>
           and_then (update (\<lambda>s. s\<lparr>last_was_backspace := False\<rparr>)) (\<lambda>_.
             inspect (\<lambda>s. case ip_candidate p of
                Some c \<Rightarrow>
                  (let (conv, accepted) = accept_prediction_candidate (graphemes_of cfg) (tables cfg) c (conversion s)
                   in and_then (update (\<lambda>s. s\<lparr>conversion := conv\<rparr>)) (\<lambda>_.
                        if \<not> accepted then reply (\<lambda>s. s) True [] False
                        else and_then (request_candidates cfg) (\<lambda>_. reply (\<lambda>s. s) True [] False)))
              | None \<Rightarrow>
                  and_then
                    (update (\<lambda>s.
                       let s = (if ip_delete_count p > 0
                                then s\<lparr>conversion := session_delete_backward (tables cfg) (ip_delete_count p) (conversion s)\<rparr>
                                else s);
                           s = s\<lparr>backspace_correction := None\<rparr>
                       in if ip_append_text p = [] then s\<lparr>last_was_backspace := True\<rparr>
                          else s\<lparr>conversion := session_insert_str (graphemes_of cfg) (tables cfg)
                                                (ip_append_text p) Direct (conversion s)\<rparr>))
                    (\<lambda>_. and_then (request_candidates cfg) (\<lambda>_. reply (\<lambda>s. s) True [] False)))))"

fun representation_index :: "UserAction \<Rightarrow> nat option" where
  "representation_index ActHalfWidthRoman = Some 0"
| "representation_index ActFullWidthRoman = Some 1"
| "representation_index ActHalfWidthKatakana = Some 2"
| "representation_index ActKatakana = Some 3"
| "representation_index ActHiragana = Some 4"
| "representation_index _ = None"

definition handle_representation ::
  "('m, 'z, 'c) EngineConfig \<Rightarrow> nat \<Rightarrow> ('m, 'z, 'c, StateResponse) handler" where
  "handle_representation cfg index =
     inspect (\<lambda>s.
       let selected = (if input_mode s = ModeSelecting \<and> selected_candidate s < length (display_candidates s)
                       then Some (display_candidates s ! selected_candidate s) else None)
       in commit_candidate cfg
            (fst (desktop_additional_candidates (graphemes_of cfg) (tables cfg) selected (conversion s) ! index))
            ModeSelecting)"

text \<open>Ordinary text: what was shown as converted is committed, and a new text begins.\<close>

definition handle_input :: "('m, 'z, 'c) EngineConfig \<Rightarrow> KeyEvent \<Rightarrow> ('m, 'z, 'c, StateResponse) handler" where
  "handle_input cfg e =
     inspect (\<lambda>s.
       let committed = (if input_mode s = ModePreviewing \<or> input_mode s = ModeSelecting
                        then current_marked_text s else [])
       in and_then
            (update (\<lambda>s.
               let s = (if committed \<noteq> [] then reset_of cfg s else clear_presentation s);
                   s = s\<lparr>segment_surface_count := None, last_was_backspace := False\<rparr>;
                   s = insert_event (graphemes_of cfg) (tables cfg) e s
               in s\<lparr>input_mode := ModeComposing\<rparr>))
            (\<lambda>_. and_then (request_candidates cfg) (\<lambda>_. reply (\<lambda>s. s) True committed False)))"

text \<open>The main \<open>match\<close> of \<open>handle_key\<close>, arm by arm.\<close>

definition handle_action ::
  "('m, 'z, 'c) EngineConfig \<Rightarrow> UserAction \<Rightarrow> KeyEvent \<Rightarrow> ('m, 'z, 'c, StateResponse) handler" where
  "handle_action cfg action e =
     inspect (\<lambda>s.
       if action = ActBackspace \<and> \<not> is_empty_composing (composing (conversion s)) then handle_backspace cfg
       else if action = ActEscape then handle_escape cfg
       else if action = ActEnter \<and> input_mode s \<noteq> ModeNone then handle_enter cfg
       else if action = ActSpace then handle_space cfg e
       else if action = ActDown then handle_down cfg
       else if action = ActUp then handle_up cfg
       else if (action = ActLeft \<or> action = ActRight) \<and> ev_shift e \<and> input_mode s \<noteq> ModeNone
       then handle_segment cfg (action = ActRight)
       else if action = ActRight \<and> input_mode s = ModeSelecting
       then select_with_remainder_mode cfg (selected_candidate s) ModeSelecting
       else if (action = ActLeft \<or> action = ActRight) \<and> input_mode s \<noteq> ModeNone then reply (\<lambda>s. s) True [] False
       else if action = ActTab \<and> input_mode s \<noteq> ModeNone then handle_tab cfg
       else if representation_index action \<noteq> None \<and> input_mode s \<noteq> ModeNone
       then handle_representation cfg (the (representation_index action))
       else if action = ActForget \<and> input_mode s = ModeSelecting then forget_candidate cfg (selected_candidate s)
       else if action = ActConsume then reply (\<lambda>s. s) (input_mode s \<noteq> ModeNone) [] False
       else if action = ActInput \<and> valid_event_text e then handle_input cfg e
       else reply (\<lambda>s. s) False [] False)"

text \<open>A digit typed while candidates are shown: zero starts over, the others select on the page of nine.\<close>

definition handle_number ::
  "('m, 'z, 'c) EngineConfig \<Rightarrow> nat \<Rightarrow> KeyEvent \<Rightarrow> ('m, 'z, 'c, StateResponse) handler" where
  "handle_number cfg number e =
     inspect (\<lambda>s.
       if number = 0 then
         (let committed = current_marked_text s
          in and_then
               (update (\<lambda>s. (insert_event (graphemes_of cfg) (tables cfg) e (reset_of cfg s))\<lparr>input_mode := ModeComposing\<rparr>))
               (\<lambda>_. and_then (request_candidates cfg) (\<lambda>_. reply (\<lambda>s. s) True committed False)))
       else select_candidate cfg (selected_candidate s div 9 * 9 + number - 1))"

definition handle_eisu :: "('m, 'z, 'c) EngineConfig \<Rightarrow> ('m, 'z, 'c, StateResponse) handler" where
  "handle_eisu cfg =
     inspect (\<lambda>s.
       if input_mode s = ModeSelecting then
         and_then (select_candidate cfg (selected_candidate s)) (\<lambda>response.
           and_then (update (\<lambda>s. s\<lparr>input_language := EnglishInput\<rparr>))
             (\<lambda>_. succeed (response\<lparr>rs_input_language := LangEnglish\<rparr>)))
       else reply (\<lambda>s. s\<lparr>input_language := EnglishInput\<rparr>) True [] False)"

text \<open>The guards in front of the main \<open>match\<close>, on the normalized event.\<close>

definition handle_normalized ::
  "('m, 'z, 'c) EngineConfig \<Rightarrow> UserAction \<Rightarrow> KeyEvent \<Rightarrow> ('m, 'z, 'c, StateResponse) handler" where
  "handle_normalized cfg action e =
     inspect (\<lambda>s.
       let inp = (if ev_input e = [] then ev_text e else ev_input e)
       in if input_mode s = ModeUnicode then handle_unicode_input cfg action e
          else if action = ActStartUnicodeInput then enter_unicode_input cfg
          else if action = ActEisu then handle_eisu cfg
          else if action = ActKana then reply (\<lambda>s. s\<lparr>input_language := JapaneseInput\<rparr>) True [] False
          else if action = ActSpace \<and> input_mode s = ModeComposing \<and> input_language s = EnglishInput then
            reply (\<lambda>s. clear_presentation
                     (s\<lparr>conversion := session_insert_str (graphemes_of cfg) (tables cfg) [0x20] Direct (conversion s),
                        segment_surface_count := None, last_was_backspace := False,
                        backspace_correction := None\<rparr>)) True [] False
          else if action = ActInput \<and> input_mode s = ModeNone \<and> input_language s = EnglishInput \<and>
                  inp \<noteq> [] \<and> \<not> list_ex is_control inp
          then reply (\<lambda>s. s) True inp False
          else if action = ActInput \<and> input_mode s = ModeSelecting \<and> selection_number (ev_text e) \<noteq> None
          then handle_number cfg (the (selection_number (ev_text e))) e
          else handle_action cfg action e)"

definition handle_key :: "('m, 'z, 'c) EngineConfig \<Rightarrow> KeyEvent \<Rightarrow> ('m, 'z, 'c, StateResponse) handler" where
  "handle_key cfg e =
     and_then (update (\<lambda>s. s\<lparr>typo_corrections := []\<rparr>)) (\<lambda>_.
       inspect (\<lambda>s.
         let action = (case user_action (ev_action e) of Some a \<Rightarrow> a | None \<Rightarrow> ActUnspecified);
             direct = (if action = ActInput \<and> input_mode s = ModeNone \<and> input_language s = JapaneseInput \<and>
                          option_direct_full_width_input (input_behavior cfg) \<and> ev_option e
                       then option_direct_input_text e (type_backslash (input_behavior cfg)) else None)
         in case direct of
              Some committed \<Rightarrow> reply (\<lambda>s. s) True committed False
            | None \<Rightarrow> handle_normalized cfg action (normalize_input_event e (input_behavior cfg))))"

section \<open>Dispatch\<close>

text \<open>The session that \<open>StartSession\<close> builds, or the message of the failure.\<close>

definition start_conversion ::
  "('m, 'z, 'c) EngineConfig \<Rightarrow> DictionaryEntry list \<Rightarrow> 'm \<Rightarrow> ustr + ConversionSession" where
  "start_conversion cfg shortcuts mem =
     (let conv = import_dynamic_user_dictionary (cfg_user_dictionary cfg) shortcuts new_session
      in case (case user_dictionary_directory cfg of
                 None \<Rightarrow> Inr conv
               | Some opened \<Rightarrow> update_user_dictionary opened conv) of
           Inl e \<Rightarrow> Inl (ascii ''user dictionary initialization failed: '' @ e)
         | Inr conv \<Rightarrow>
             (let conv = (if has_foreign_provider cfg then set_foreign_completion_provider conv else conv)
              in if has_learning_memory cfg then
                   (case set_learning_memory (es_session (services cfg)) mem conv of
                      Inl e \<Rightarrow> Inl (ascii ''learning memory initialization failed: '' @ e)
                    | Inr conv \<Rightarrow> Inr conv)
                 else Inr conv))"

definition out_of_order :: ustr where
  "out_of_order = ascii ''request ID is not greater than the previous request''"

definition put_session :: "ustr \<Rightarrow> 'c SessionState \<Rightarrow> ('m, 'z, 'c) Engine \<Rightarrow> ('m, 'z, 'c) Engine" where
  "put_session sid s en = en\<lparr>sessions := (sessions en)(sid \<mapsto> s)\<rparr>"

definition remove_session :: "ustr \<Rightarrow> ('m, 'z, 'c) Engine \<Rightarrow> ('m, 'z, 'c) Engine" where
  "remove_session sid en = en\<lparr>sessions := (sessions en)(sid := None)\<rparr>"

definition handle_start ::
  "DictionaryEntry list \<Rightarrow> 64 word \<Rightarrow> ustr \<Rightarrow> StartSession \<Rightarrow> ('m, 'z, 'c) Engine \<Rightarrow>
   ('m, 'z, 'c) Engine \<times> Envelope" where
  "handle_start shortcuts rid sid start en =
     (let cfg = config en;
          invalid = (\<lambda>message. (en, error_envelope rid sid InvalidPayload message))
      in if (case sessions en sid of Some s \<Rightarrow> rid \<le> last_request_id s | None \<Rightarrow> False)
         then (en, error_envelope rid sid OutOfOrderRequest out_of_order)
         else
           (case start_input_style cfg start of
              None \<Rightarrow> invalid (ascii ''invalid input style'')
            | Some style \<Rightarrow>
                (case surrounding_context (st_surrounding start) of
                   Inl message \<Rightarrow> invalid message
                 | Inr sur \<Rightarrow>
                     (case start_keyboard_language cfg start of
                        None \<Rightarrow> invalid (ascii ''invalid keyboard language'')
                      | Some language \<Rightarrow>
                          (case start_conversion cfg shortcuts (memory (world en)) of
                             Inl message \<Rightarrow> (en, error_envelope rid sid Internal message)
                           | Inr conv \<Rightarrow>
                               (let s = new_session_state cfg rid conv style sur language
                                in (put_session sid s en, state_envelope rid sid (reset_response s))))))))"

text \<open>The requests whose handlers may fail; a failure resets the session.\<close>

definition session_handler ::
  "('m, 'z, 'c) EngineConfig \<Rightarrow> Payload \<Rightarrow> ('m, 'z, 'c, StateResponse) handler" where
  "session_handler cfg request =
     (case request of
        ResetSessionP \<Rightarrow> and_then (update (reset_of cfg)) (\<lambda>_. inspect (\<lambda>s. succeed (reset_response s)))
      | KeyEventP e \<Rightarrow>
          (case ev_surrounding e of
             None \<Rightarrow> handle_key cfg e
           | Some t \<Rightarrow>
               (case surrounding_context (Some t) of
                  Inl message \<Rightarrow> fail InvalidPayload message
                | Inr sur \<Rightarrow> and_then (update (\<lambda>s. s\<lparr>surrounding := sur\<rparr>)) (\<lambda>_. handle_key cfg e)))
      | SelectCandidateP index \<Rightarrow> select_candidate cfg index
      | SelectTypoCorrectionP index \<Rightarrow> select_typo_correction cfg index
      | ForgetCandidateP index \<Rightarrow> forget_candidate cfg index
      | ResetLearningP \<Rightarrow> reset_learning cfg
      | PageCandidatesP page \<Rightarrow>
          and_then (update (\<lambda>s. (fst (page_candidates page s))\<lparr>live_candidate := None\<rparr>))
            (\<lambda>_. reply (\<lambda>s. s) True [] False)
      | CommitCompositionP \<Rightarrow>
          inspect (\<lambda>s.
            let committed = current_marked_text s
            in and_then (update (reset_of cfg)) (\<lambda>_. inspect (\<lambda>s.
                 succeed ((reset_response s)\<lparr>consumed := committed \<noteq> [], commit := committed,
                                             rs_reset := committed \<noteq> []\<rparr>))))
      | _ \<Rightarrow> fail InvalidPayload (ascii ''invalid session request''))"

definition finish_request ::
  "64 word \<Rightarrow> ustr \<Rightarrow> ('m, 'z, 'c) Engine \<Rightarrow> ('m, 'z, 'c) Run \<times> (Failure + StateResponse) \<Rightarrow>
   ('m, 'z, 'c) Engine \<times> Envelope" where
  "finish_request rid sid en result =
     (case result of
        ((w, s), Inr response) \<Rightarrow> (put_session sid s (en\<lparr>world := w\<rparr>), state_envelope rid sid response)
      | ((w, s), Inl (code, message)) \<Rightarrow>
          (put_session sid (reset_of (config en) s) (en\<lparr>world := w\<rparr>), error_envelope rid sid code message))"

definition handle_session_request ::
  "64 word \<Rightarrow> ustr \<Rightarrow> Payload \<Rightarrow> ('m, 'z, 'c) Engine \<Rightarrow> ('m, 'z, 'c) Engine \<times> Envelope" where
  "handle_session_request rid sid request en =
     (case sessions en sid of
        None \<Rightarrow> (en, error_envelope rid sid UnknownSession (ascii ''unknown session''))
      | Some s \<Rightarrow>
          if rid \<le> last_request_id s then (en, error_envelope rid sid OutOfOrderRequest out_of_order)
          else
            (let cfg = config en;
                 s = s\<lparr>last_request_id := rid\<rparr>
             in case request of
                  EndSessionP \<Rightarrow>
                    (case commit_learning (es_session (services cfg)) (memory (world en)) (conversion s) of
                       (mem, conv, r) \<Rightarrow>
                         (remove_session sid (en\<lparr>world := (world en)\<lparr>memory := mem\<rparr>\<rparr>),
                          (case r of
                             Inl e \<Rightarrow> error_envelope rid sid Internal (ascii ''learning memory commit failed: '' @ e)
                           | Inr _ \<Rightarrow> state_envelope rid sid (reset_response s))))
                | RequestTypoCorrectionsP \<Rightarrow>
                    (case request_typo_corrections cfg (composing (conversion s)) (world en, s) of
                       ((w, s), Inr cs) \<Rightarrow>
                         (put_session sid (s\<lparr>typo_corrections := cs\<rparr>) (en\<lparr>world := w\<rparr>),
                          typo_correction_envelope rid sid cs)
                     | ((w, s), Inl (code, message)) \<Rightarrow>
                         (put_session sid (reset_of cfg s) (en\<lparr>world := w\<rparr>), error_envelope rid sid code message))
                | PageCandidatesP page \<Rightarrow>
                    if \<not> snd (page_candidates page s)
                    then (put_session sid s en,
                          error_envelope rid sid InvalidPayload (ascii ''invalid candidate page request''))
                    else finish_request rid sid en (session_handler cfg request (world en, s))
                | _ \<Rightarrow> finish_request rid sid en (session_handler cfg request (world en, s))))"

definition handle ::
  "DictionaryEntry list \<Rightarrow> Envelope \<Rightarrow> ('m, 'z, 'c) Engine \<Rightarrow> ('m, 'z, 'c) Engine \<times> Envelope" where
  "handle shortcuts envelope en =
     (let rid = request_id envelope; sid = session_id envelope
      in case payload envelope of
           None \<Rightarrow> (en, error_envelope rid sid InvalidPayload (ascii ''missing payload''))
         | Some (StartSessionP start) \<Rightarrow> handle_start shortcuts rid sid start en
         | Some (StateResponseP _) \<Rightarrow>
             (en, error_envelope rid sid InvalidPayload (ascii ''response payload sent as a request''))
         | Some (TypoCorrectionResponseP _) \<Rightarrow>
             (en, error_envelope rid sid InvalidPayload (ascii ''response payload sent as a request''))
         | Some (ProtocolErrorP _ _) \<Rightarrow>
             (en, error_envelope rid sid InvalidPayload (ascii ''response payload sent as a request''))
         | Some request \<Rightarrow> handle_session_request rid sid request en)"

text \<open>\<open>for_connection\<close>: the shared resources with no sessions; the models' own caches start fresh.\<close>

definition for_connection :: "('z \<Rightarrow> 'z) \<Rightarrow> ('m, 'z, 'c) Engine \<Rightarrow> ('m, 'z, 'c) Engine" where
  "for_connection fresh_models en =
     en\<lparr>sessions := Map.empty, world := (world en)\<lparr>models := fresh_models (models (world en))\<rparr>\<rparr>"

end
