(* ===== verification/Engine_Logic.thy ===== *)
theory Engine_Logic
  imports Engine Session_Edit
begin

text \<open>
  Reasoning about the handlers of \<open>Engine\<close>: a weakest precondition with one postcondition for answers
  and one for failures, its equations for the combinators, and the invariant of a session.

  \<open>presentable\<close> is what the candidate lists, the selection and the Unicode digits satisfy in every
  configuration. \<open>coherent\<close> adds the composing text, for the configurations of \<open>supported\<close>: productive
  tables whose separator rules need text, a segmentation that does not lose text, and the typo
  correction of Backspace switched off (its edits count graphemes of the whole text, which need not
  be the entries of the surface, and could empty the text without leaving the composition).
\<close>

section \<open>Weakest preconditions\<close>

definition wp ::
  "('m, 'z, 'c, 'a) handler \<Rightarrow> ('a \<Rightarrow> ('m, 'z, 'c) Run \<Rightarrow> bool) \<Rightarrow> ('c SessionState \<Rightarrow> bool) \<Rightarrow>
   ('m, 'z, 'c) Run \<Rightarrow> bool" where
  "wp m Q E run = (case m run of (run', Inr x) \<Rightarrow> Q x run' | (run', Inl _) \<Rightarrow> E (snd run'))"

lemma wp_succeed [simp]: "wp (succeed x) Q E run = Q x run"
  by (simp add: wp_def succeed_def)

lemma wp_fail [simp]: "wp (fail code message) Q E run = E (snd run)"
  by (simp add: wp_def fail_def)

lemma wp_and_then [simp]: "wp (and_then m f) Q E run = wp m (\<lambda>x. wp (f x) Q E) E run"
  by (simp add: wp_def and_then_def split: prod.split sum.split)

lemma wp_update [simp]: "wp (update f) Q E run = Q () (fst run, f (snd run))"
  by (simp add: wp_def update_def)

lemma wp_inspect [simp]: "wp (inspect f) Q E run = wp (f (snd run)) Q E run"
  by (simp add: wp_def inspect_def)

lemma wp_reply [simp]:
  "wp (reply f c t r) Q E run =
     Q (make_state (f (snd run)) c t r) (fst run, f (snd run))"
  by (simp add: wp_def reply_def)

lemma wp_if: "wp (if b then m else n) Q E run = (if b then wp m Q E run else wp n Q E run)"
  by simp

lemma wp_mono:
  assumes "wp m Q E run" and "\<And>x run'. Q x run' \<Longrightarrow> Q' x run'" and "\<And>s. E s \<Longrightarrow> E' s"
  shows "wp m Q' E' run"
  using assms by (auto simp: wp_def split: prod.splits sum.splits)

lemma wp_on_copy:
  assumes "wp m (\<lambda>_ _. True) (\<lambda>_. True) (fst run, f (snd run))"
    and "\<And>w x. Q x (w, snd run)" and "E (snd run)"
  shows "wp (on_copy f m get) Q E run"
  using assms by (auto simp: wp_def on_copy_def split: prod.splits sum.splits)

lemma wp_True: "wp m (\<lambda>_ _. True) (\<lambda>_. True) run"
  by (simp add: wp_def split: prod.split sum.split)

section \<open>The invariant of a session\<close>

fun idle :: "InputMode \<Rightarrow> bool" where
  "idle m = (m = ModeNone \<or> m = ModeUnicode)"

definition is_lower_hex :: "uchar \<Rightarrow> bool" where
  "is_lower_hex c \<longleftrightarrow> 0x30 \<le> c \<and> c \<le> 0x39 \<or> 0x61 \<le> c \<and> c \<le> 0x66"

text \<open>
  The lists shown to the client belong together, there is no text and nothing is shown outside a
  composition, and the digits of the Unicode input are lower-case hexadecimal digits.
\<close>

definition presentable :: "'c SessionState \<Rightarrow> bool" where
  "presentable s \<longleftrightarrow>
     length (candidate_remainders s) = length (display_candidates s) \<and>
     length (candidate_annotations s) = length (display_candidates s) \<and>
     additional_candidate_count s \<le> length (display_candidates s) \<and> additional_candidate_count s \<le> 5 \<and>
     (idle (input_mode s) \<longrightarrow> display_candidates s = [] \<and> surface (composing (conversion s)) = []) \<and>
     list_all is_lower_hex (unicode_input s) \<and> (input_mode s \<noteq> ModeUnicode \<longrightarrow> unicode_input s = [])"

definition selection_ok :: "'c SessionState \<Rightarrow> bool" where
  "selection_ok s \<longleftrightarrow>
     (input_mode s = ModeSelecting \<longrightarrow>
        selected_candidate s = 0 \<or> selected_candidate s < length (display_candidates s))"

definition supported :: "('m, 'z, 'c) EngineConfig \<Rightarrow> bool" where
  "supported cfg \<longleftrightarrow>
     productive (tables cfg) \<and> (\<forall>style. style_quiet (tables cfg) style) \<and>
     segments_text (graphemes_of cfg) \<and> \<not> lm_typo_enabled cfg"

lemma supported_graphemes: "supported cfg \<Longrightarrow> v \<noteq> [] \<Longrightarrow> graphemes_of cfg v \<noteq> []"
  by (metis supported_def segments_text_def concat.simps(1))

text \<open>There is text during a composition, and it agrees with its history.\<close>

definition coherent :: "('m, 'z, 'c) EngineConfig \<Rightarrow> 'c SessionState \<Rightarrow> bool" where
  "coherent cfg s \<longleftrightarrow>
     session_ok (tables cfg) (conversion s) \<and> full_composing (conversion s) = None \<and>
     (\<not> idle (input_mode s) \<longrightarrow> surface (composing (conversion s)) \<noteq> []) \<and>
     backspace_correction s = None \<and>
     (\<forall>p. prediction s = Some p \<and> ip_candidate p = None \<longrightarrow> ip_append_text p \<noteq> [])"

definition state_parts :: "('m, 'z, 'c) EngineConfig \<Rightarrow> 64 word \<Rightarrow> 'c SessionState \<Rightarrow> bool" where
  "state_parts cfg rid s \<longleftrightarrow>
     presentable s \<and> last_request_id s = rid \<and> (supported cfg \<longrightarrow> coherent cfg s)"

definition state_ok :: "('m, 'z, 'c) EngineConfig \<Rightarrow> 64 word \<Rightarrow> 'c SessionState \<Rightarrow> bool" where
  "state_ok cfg rid s \<longleftrightarrow> state_parts cfg rid s \<and> selection_ok s"

text \<open>What a failed handler leaves behind, from which a reset recovers.\<close>

definition recoverable :: "('m, 'z, 'c) EngineConfig \<Rightarrow> 64 word \<Rightarrow> 'c SessionState \<Rightarrow> bool" where
  "recoverable cfg rid s \<longleftrightarrow>
     last_request_id s = rid \<and> (supported cfg \<longrightarrow> full_composing (conversion s) = None)"

lemma state_parts_recoverable: "state_parts cfg rid s \<Longrightarrow> recoverable cfg rid s"
  by (simp add: state_parts_def recoverable_def coherent_def)

lemma state_ok_recoverable: "state_ok cfg rid s \<Longrightarrow> recoverable cfg rid s"
  by (simp add: state_ok_def state_parts_recoverable)

lemma reset_session_simps [simp]:
  "input_mode (reset_session z s) = ModeNone" "display_candidates (reset_session z s) = []"
  "candidate_remainders (reset_session z s) = []" "candidate_annotations (reset_session z s) = []"
  "additional_candidate_count (reset_session z s) = 0" "unicode_input (reset_session z s) = []"
  "last_request_id (reset_session z s) = last_request_id s" "prediction (reset_session z s) = None"
  "backspace_correction (reset_session z s) = None" "live_candidate (reset_session z s) = None"
  "selected_candidate (reset_session z s) = 0" "preview_candidate_index (reset_session z s) = None"
  "typo_corrections (reset_session z s) = []" "segment_surface_count (reset_session z s) = None"
  "conversion (reset_session z s) = session_reset (conversion s)"
  "request_options (reset_session z s) = request_options s" "surrounding (reset_session z s) = surrounding s"
  "zenz_cache (reset_session z s) = z" "last_was_backspace (reset_session z s) = False"
  "session_style (reset_session z s) = session_style s" "input_language (reset_session z s) = input_language s"
  "live_conversion_enabled (reset_session z s) = live_conversion_enabled s"
  by (simp_all add: reset_session_def clear_presentation_def)

lemma clear_presentation_simps [simp]:
  "input_mode (clear_presentation s) = input_mode s" "display_candidates (clear_presentation s) = []"
  "candidate_remainders (clear_presentation s) = []" "candidate_annotations (clear_presentation s) = []"
  "additional_candidate_count (clear_presentation s) = 0" "unicode_input (clear_presentation s) = unicode_input s"
  "last_request_id (clear_presentation s) = last_request_id s" "prediction (clear_presentation s) = None"
  "backspace_correction (clear_presentation s) = backspace_correction s"
  "live_candidate (clear_presentation s) = None" "selected_candidate (clear_presentation s) = 0"
  "preview_candidate_index (clear_presentation s) = None" "conversion (clear_presentation s) = conversion s"
  "session_style (clear_presentation s) = session_style s" "input_language (clear_presentation s) = input_language s"
  "last_was_backspace (clear_presentation s) = last_was_backspace s"
  "segment_surface_count (clear_presentation s) = segment_surface_count s"
  by (simp_all add: clear_presentation_def)

lemma new_composing_simps [simp]: "surface new_composing = []" "input new_composing = []" "cursor new_composing = 0"
  by (simp_all add: new_composing_def)

lemma session_ok_reset: "full_composing c = None \<Longrightarrow> session_ok tabs (session_reset c)"
  by (simp add: session_ok_def text_ok_new)

lemma reset_state_ok: "recoverable cfg rid s \<Longrightarrow> state_ok cfg rid (reset_session z s)"
  by (simp add: recoverable_def state_ok_def state_parts_def presentable_def selection_ok_def coherent_def
    session_ok_reset)

section \<open>What the client sees\<close>

definition displays :: "StateResponse \<Rightarrow> 'c SessionState \<Rightarrow> bool" where
  "displays r s \<longleftrightarrow>
     rs_input_state r = state_of_mode (input_mode s) \<and> preedit r = fst (preedit_of s) \<and>
     highlighted_preedit_length r = snd (preedit_of s) \<and> rs_candidates r = sent_candidates s \<and>
     candidate_window r = window_of s"

lemma displays_make_state [simp]: "displays (make_state s c t r) s"
  by (simp add: displays_def make_state_def)

lemma displays_reset_response:
  "input_mode s = ModeNone \<Longrightarrow> display_candidates s = [] \<Longrightarrow>
   displays ((reset_response s)\<lparr>consumed := c, commit := t, rs_reset := r\<rparr>) s"
  by (simp add: displays_def reset_response_def default_response_def preedit_of_def window_of_def
    sent_candidates_def candidate_indices_def List.map_filter_def)

text \<open>The postcondition of the handlers that answer with the state of the session.\<close>

definition answered ::
  "('m, 'z, 'c) EngineConfig \<Rightarrow> 64 word \<Rightarrow> StateResponse \<Rightarrow> ('m, 'z, 'c) Run \<Rightarrow> bool" where
  "answered cfg rid r run \<longleftrightarrow> state_ok cfg rid (snd run) \<and> displays r (snd run)"

lemma answered_make_state [simp]:
  "answered cfg rid (make_state s c t r) (w, s) \<longleftrightarrow> state_ok cfg rid s"
  by (simp add: answered_def)

end
