(* ===== verification/Engine_Invariant.thy ===== *)
theory Engine_Invariant
  imports Engine_Logic
begin

text \<open>
  Every handler of the engine keeps the invariant of \<open>Engine_Logic\<close>: it answers in a state that is
  \<open>state_ok\<close> and that the answer displays, and fails in a state from which a reset recovers.
\<close>

section \<open>Requesting candidates\<close>

text \<open>A conversion changes the candidates and the caches only.\<close>

definition keeps :: "'c SessionState \<Rightarrow> 'c SessionState \<Rightarrow> bool" where
  "keeps s s' \<longleftrightarrow>
     s'\<lparr>conversion := conversion s, zenz_cache := zenz_cache s\<rparr> = s \<and>
     composing (conversion s') = composing (conversion s) \<and>
     full_composing (conversion s') = full_composing (conversion s)"

lemma keeps_trans: "keeps s t \<Longrightarrow> keeps t u \<Longrightarrow> keeps s u"
  by (cases s; cases t; cases u) (simp add: keeps_def)

lemma keeps_update:
  assumes "composing conv = composing (conversion s)" and "full_composing conv = full_composing (conversion s)"
  shows "keeps s (s\<lparr>conversion := conv\<rparr>)"
  using assms by (simp add: keeps_def)

lemma refresh_learning_text:
  "refresh_learning sv mem c = (c', e) \<Longrightarrow> composing c' = composing c \<and> full_composing c' = full_composing c"
  by (auto simp: refresh_learning_def split: option.splits)

lemma forget_learning_text:
  "forget_learning sv cand mem c = (mem', c', e) \<Longrightarrow>
   composing c' = composing c \<and> full_composing c' = full_composing c"
  by (auto simp: forget_learning_def Let_def dest: refresh_learning_text split: prod.splits option.splits)

lemma session_reset_learning_text:
  "session_reset_learning sv mem c = (mem', c', e) \<Longrightarrow>
   composing c' = composing c \<and> full_composing c' = full_composing c"
  by (auto simp: session_reset_learning_def Let_def dest: refresh_learning_text split: prod.splits option.splits)

lemma plain_request_keeps:
  "wp (plain_request cfg) (\<lambda>_ run'. keeps (snd run) (snd run')) (keeps (snd run)) run"
  by (auto simp: wp_def plain_request_def split: prod.split sum.split
      intro!: keeps_update dest: session_request_text)

lemma zenz_attempt_keeps:
  assumes "zenz_attempt cfg rich lc run = (run', r)"
  shows "keeps (snd run) (snd run')"
  using assms unfolding zenz_attempt_def Let_def keeps_def
  by (auto split: prod.splits sum.splits if_splits dest!: finalize_zenz_request_text)

lemma generate_keeps:
  "wp (generate cfg rich lc) (\<lambda>_ run'. keeps (snd run) (snd run')) (keeps (snd run)) run"
proof (cases "has_zenz_model cfg")
  case False
  then show ?thesis using plain_request_keeps [of cfg run] by (simp add: wp_def generate_def)
next
  case True
  obtain run' r where z: "zenz_attempt cfg rich lc run = (run', r)" by (cases "zenz_attempt cfg rich lc run")
  then have k: "keeps (snd run) (snd run')" by (rule zenz_attempt_keeps)
  show ?thesis
  proof (cases r)
    case (Inr x)
    with True z k show ?thesis by (simp add: wp_def generate_def)
  next
    case (Inl e)
    show ?thesis
    proof (cases e)
      case (ZenzFailed m)
      with True z k Inl show ?thesis by (simp add: wp_def generate_def)
    next
      case ContextCapacityExceeded
      let ?f = "\<lambda>s. s\<lparr>zenz_cache := es_empty_cache (services cfg),
                      conversion := discard_zenz_inference_state (conversion s)\<rparr>"
      have f: "keeps (snd run') (?f (snd run'))"
        by (simp add: keeps_def discard_zenz_inference_state_def)
      have "wp (plain_request cfg) (\<lambda>_ t. keeps (snd run) (snd t)) (keeps (snd run)) (fst run', ?f (snd run'))"
        by (rule wp_mono [OF plain_request_keeps]) (use k f in \<open>auto intro: keeps_trans\<close>)
      then have "wp (and_then (update ?f) (\<lambda>_. plain_request cfg)) (\<lambda>_ t. keeps (snd run) (snd t))
          (keeps (snd run)) run'" by simp
      moreover have "generate cfg rich lc run = and_then (update ?f) (\<lambda>_. plain_request cfg) run'"
        using True z Inl ContextCapacityExceeded by (simp add: generate_def)
      ultimately show ?thesis by (simp only: wp_def)
    qed
  qed
qed

text \<open>What \<open>present\<close> stores.\<close>

lemma position_less: "position P xs = Some i \<Longrightarrow> i < length xs"
  by (induction xs arbitrary: i) (auto split: if_splits)

lemma find_map_in: "find_map f xs = Some y \<Longrightarrow> \<exists>x \<in> set xs. f x = Some y"
  by (induction xs) (auto split: option.splits)

lemma input_prediction_appends:
  "input_prediction g s r = Some p \<Longrightarrow> backspace_correction s = None \<Longrightarrow> ip_append_text p \<noteq> [] \<and> ip_candidate p \<noteq> None"
  by (auto simp: input_prediction_def Let_def dest!: find_map_in split: if_splits option.splits)

lemma present_simps [simp]:
  "conversion (present cfg r ev s) = conversion s" "input_mode (present cfg r ev s) = input_mode s"
  "last_request_id (present cfg r ev s) = last_request_id s" "unicode_input (present cfg r ev s) = unicode_input s"
  "backspace_correction (present cfg r ev s) = backspace_correction s"
  "additional_candidate_count (present cfg r ev s) = 0"
  "segment_surface_count (present cfg r ev s) = segment_surface_count s"
  "session_style (present cfg r ev s) = session_style s"
  "length (candidate_remainders (present cfg r ev s)) = length (display_candidates (present cfg r ev s))"
  "length (candidate_annotations (present cfg r ev s)) = length (display_candidates (present cfg r ev s))"
  by (simp_all add: present_def Let_def remainders_def split: option.split)

lemma present_selected: "input_mode s \<noteq> ModeComposing \<Longrightarrow> selected_candidate (present cfg r ev s) = selected_candidate s"
  by (simp add: present_def live_candidate_of_def Let_def)

lemma present_preview:
  "preview_candidate_index (present cfg r ev s) = Some i \<Longrightarrow> i < length (display_candidates (present cfg r ev s))"
  by (auto simp: present_def preview_index_of_def Let_def dest!: position_less split: option.splits list.splits if_splits)

lemma present_prediction:
  "backspace_correction s = None \<Longrightarrow> prediction (present cfg r ev s) = Some p \<Longrightarrow> ip_append_text p \<noteq> []"
  by (auto simp: present_def Let_def dest!: input_prediction_appends split: option.splits)

lemma keeps_fields:
  assumes "keeps s t"
  shows "input_mode t = input_mode s" "last_request_id t = last_request_id s" "unicode_input t = unicode_input s"
    "backspace_correction t = backspace_correction s" "selected_candidate t = selected_candidate s"
    "segment_surface_count t = segment_surface_count s"
    "composing (conversion t) = composing (conversion s)"
    "full_composing (conversion t) = full_composing (conversion s)"
  using assms by (cases s; cases t; simp add: keeps_def)+

lemma wp_for_active_target:
  "wp (request_for_active_target cfg rich lc)
     (\<lambda>_ run'. \<exists>t r ev. keeps (snd run) t \<and> snd run' = present cfg r ev t) (keeps (snd run)) run"
proof -
  obtain conv e where r: "refresh_learning (es_session (services cfg)) (memory (fst run)) (conversion (snd run)) = (conv, e)"
    by force
  then have k: "keeps (snd run) ((snd run)\<lparr>conversion := conv\<rparr>)"
    by (intro keeps_update) (auto dest: refresh_learning_text)
  show ?thesis
  proof (cases e)
    case (Some m)
    with r k show ?thesis by (simp add: wp_def request_for_active_target_def)
  next
    case None
    have "wp (and_then (generate cfg rich lc) (\<lambda>(r, ev). update (present cfg r ev)))
        (\<lambda>_ run'. \<exists>t r ev. keeps (snd run) t \<and> snd run' = present cfg r ev t) (keeps (snd run))
        (fst run, (snd run)\<lparr>conversion := conv\<rparr>)"
      unfolding wp_and_then
      by (rule wp_mono [OF generate_keeps]) (use keeps_trans [OF k] in \<open>auto split: prod.splits\<close>)
    moreover have "request_for_active_target cfg rich lc run =
        and_then (generate cfg rich lc) (\<lambda>(r, ev). update (present cfg r ev)) (fst run, (snd run)\<lparr>conversion := conv\<rparr>)"
      using r None by (simp add: request_for_active_target_def)
    ultimately show ?thesis by (simp only: wp_def)
  qed
qed

text \<open>The state after a request, from the one before it.\<close>

definition preview_ok :: "'c SessionState \<Rightarrow> bool" where
  "preview_ok s \<longleftrightarrow> (\<forall>i. preview_candidate_index s = Some i \<longrightarrow> i < length (display_candidates s))"

definition requested ::
  "('m, 'z, 'c) EngineConfig \<Rightarrow> 64 word \<Rightarrow> 'c SessionState \<Rightarrow> 'c SessionState \<Rightarrow> bool" where
  "requested cfg rid s s' \<longleftrightarrow>
     state_parts cfg rid s' \<and> input_mode s' = input_mode s \<and> preview_ok s' \<and>
     (input_mode s \<noteq> ModeComposing \<longrightarrow> selected_candidate s' = selected_candidate s)"

lemma present_requested:
  assumes "state_parts cfg rid s" and "\<not> idle (input_mode s)" and "keeps s t"
  shows "requested cfg rid s (present cfg r ev t)"
  using assms(1,2) present_selected [of t cfg r ev] present_prediction [of t cfg r ev] present_preview [of cfg r ev t]
  by (auto simp: requested_def state_parts_def presentable_def coherent_def preview_ok_def session_ok_def
      keeps_fields [OF assms(3)])

lemma wp_request_plain:
  assumes "state_parts cfg rid s" and "\<not> idle (input_mode s)"
  shows "wp (request_for_active_target cfg rich lc) (\<lambda>_ run'. requested cfg rid s (snd run')) (recoverable cfg rid) (w, s)"
  using assms state_parts_recoverable [OF assms(1)]
  by (intro wp_mono [OF wp_for_active_target])
     (auto simp: recoverable_def keeps_fields simp del: idle.simps intro: present_requested)

lemma segment_requested:
  assumes "state_parts cfg rid s" and "\<not> idle (input_mode s)"
    and "keeps (s\<lparr>conversion := begin_segment_request (tables cfg) (conversion s)\<rparr>) t"
    and s': "s' = (present cfg r ev t)\<lparr>conversion := end_segment_request (conversion (present cfg r ev t))\<rparr>"
  shows "requested cfg rid s (s'\<lparr>candidate_remainders := remainders cfg s'\<rparr>)"
proof -
  have restored: "session_ok (tables cfg) (conversion s') \<and> full_composing (conversion s') = None \<and>
      composing (conversion s') = composing (conversion s)" if "supported cfg"
  proof -
    from that assms(1) have f: "full_composing (conversion s) = None" "session_ok (tables cfg) (conversion s)"
      by (auto simp: state_parts_def coherent_def)
    have "composing (conversion s') = composing (conversion s) \<and> full_composing (conversion s') = None"
      unfolding s' using f(1) keeps_fields [OF assms(3)]
        segment_round_trip [of "conversion s" "conversion (present cfg r ev t)" "tables cfg"] by simp
    with f show ?thesis by (simp add: session_ok_def)
  qed
  show ?thesis
    using assms(1,2) restored present_selected [of t cfg r ev] present_prediction [of t cfg r ev] present_preview [of cfg r ev t]
    by (auto simp: requested_def state_parts_def presentable_def coherent_def preview_ok_def remainders_def s'
        keeps_fields [OF assms(3)])
qed

lemma segment_recoverable:
  assumes "state_parts cfg rid s"
    and "keeps (s\<lparr>conversion := begin_segment_request (tables cfg) (conversion s)\<rparr>) t"
  shows "recoverable cfg rid (t\<lparr>conversion := end_segment_request (conversion t)\<rparr>)"
proof -
  have "full_composing (end_segment_request (conversion t)) = None" if "full_composing (conversion s) = None"
    using that keeps_fields(7,8) [OF assms(2)] segment_round_trip [of "conversion s" "conversion t" "tables cfg"] by simp
  then show ?thesis
    using assms(1) keeps_fields [OF assms(2)] by (auto simp: recoverable_def state_parts_def coherent_def)
qed

lemma parts_no_correction: "state_parts cfg rid s \<Longrightarrow> state_parts cfg rid (s\<lparr>backspace_correction := None\<rparr>)"
  by (simp add: state_parts_def presentable_def coherent_def)

lemma wp_request:
  assumes parts: "state_parts cfg rid s" and busy: "\<not> idle (input_mode s)"
    and Q: "\<And>w' s'. requested cfg rid s s' \<Longrightarrow> Q () (w', s')" and E: "\<And>s'. recoverable cfg rid s' \<Longrightarrow> E s'"
  shows "wp (request_with_context cfg rich lc) Q E (w, s)"
proof -
  define t where "t = (if last_was_backspace s then s else s\<lparr>backspace_correction := None\<rparr>)"
  have t: "state_parts cfg rid t" "\<not> idle (input_mode t)" "segment_surface_count t = segment_surface_count s"
    and req: "\<And>u. requested cfg rid t u \<Longrightarrow> requested cfg rid s u"
    using parts busy parts_no_correction [OF parts]
    by (cases "last_was_backspace s"; simp add: t_def requested_def)+
  show ?thesis
  proof (cases "segment_surface_count s")
    case None
    have "request_with_context cfg rich lc (w, s) = request_for_active_target cfg rich lc (w, t)"
      using None by (simp add: request_with_context_def t_def)
    then have "wp (request_with_context cfg rich lc) Q E (w, s) = wp (request_for_active_target cfg rich lc) Q E (w, t)"
      by (simp add: wp_def)
    moreover have "wp (request_for_active_target cfg rich lc) Q E (w, t)"
      by (rule wp_mono [OF wp_request_plain [OF t(1,2)]]) (use Q E req in force)+
    ultimately show ?thesis by simp
  next
    case (Some n)
    let ?b = "t\<lparr>conversion := begin_segment_request (tables cfg) (conversion t)\<rparr>"
    obtain w' u r where u: "request_for_active_target cfg rich lc (w, ?b) = ((w', u), r)"
      by (metis surj_pair)
    have eq: "request_with_context cfg rich lc (w, s) =
        (let v = u\<lparr>conversion := end_segment_request (conversion u)\<rparr>
         in case r of Inl e \<Rightarrow> ((w', v), Inl e) | Inr x \<Rightarrow> ((w', v\<lparr>candidate_remainders := remainders cfg v\<rparr>), Inr x))"
      using Some t(3) u by (simp add: request_with_context_def flip: t_def split: sum.split)
    have post: "case r of Inl _ \<Rightarrow> keeps ?b u | Inr _ \<Rightarrow> \<exists>v r ev. keeps ?b v \<and> u = present cfg r ev v"
      using wp_for_active_target [of cfg rich lc "(w, ?b)"] u by (auto simp: wp_def split: sum.splits)
    show ?thesis
    proof (cases r)
      case (Inl e)
      with post segment_recoverable [OF t(1)] E show ?thesis by (simp add: wp_def eq Let_def)
    next
      case (Inr x)
      with post obtain v r ev where "keeps ?b v" "u = present cfg r ev v" by auto
      from segment_requested [OF t(1,2) this(1) refl] this(2) req Q show ?thesis
        by (simp add: wp_def eq Let_def Inr)
    qed
  qed
qed

section \<open>Committing\<close>

lemma wp_select:
  assumes parts: "state_parts cfg rid s"
    and Q: "\<And>w' conv. (supported cfg \<Longrightarrow> session_ok (tables cfg) conv \<and> full_composing conv = None) \<Longrightarrow>
              Q (cand_text c) (w', s\<lparr>conversion := conv\<rparr>)"
    and E: "\<And>s'. recoverable cfg rid s' \<Longrightarrow> E s'"
  shows "wp (select_and_stage_learning cfg c) Q E (w, s)"
proof -
  obtain mem conv r where v: "select_candidate_value (es_session (services cfg)) (tables cfg) c (memory w) (conversion s) = (mem, conv, r)"
    by (metis surj_pair)
  have full: "full_composing conv = full_composing (conversion s)"
    and ok: "r = Inr t \<Longrightarrow> t = cand_text c" for t
    using v by (auto simp: select_candidate_value_def Let_def split: prod.splits option.splits if_splits)
  show ?thesis
  proof (cases r)
    case (Inl e)
    have "recoverable cfg rid (s\<lparr>conversion := conv\<rparr>)"
      using parts full by (auto simp: recoverable_def state_parts_def coherent_def)
    with E show ?thesis using v Inl by (auto simp: wp_def select_and_stage_learning_def split: SelectionError.splits)
  next
    case (Inr t)
    have "session_ok (tables cfg) conv \<and> full_composing conv = None" if "supported cfg"
    proof -
      from that parts have "productive (tables cfg)" "session_ok (tables cfg) (conversion s)"
        "full_composing (conversion s) = None" by (auto simp: supported_def state_parts_def coherent_def)
      with select_candidate_value_ok [OF this(1,2) v [unfolded Inr]] show ?thesis by simp
    qed
    with Q ok Inr v show ?thesis by (simp add: wp_def select_and_stage_learning_def)
  qed
qed

lemma idle_cases: "\<not> idle m \<longleftrightarrow> m = ModeComposing \<or> m = ModePreviewing \<or> m = ModeSelecting"
  by (cases m) auto

lemma requested_ok: "requested cfg rid s s' \<Longrightarrow> input_mode s = ModeSelecting \<Longrightarrow> selected_candidate s = 0 \<Longrightarrow> state_ok cfg rid s'"
  by (simp add: requested_def state_ok_def selection_ok_def)

lemma requested_ok_other: "requested cfg rid s s' \<Longrightarrow> input_mode s \<noteq> ModeSelecting \<Longrightarrow> state_ok cfg rid s'"
  by (simp add: requested_def state_ok_def selection_ok_def)

lemma wp_commit:
  assumes parts: "state_parts cfg rid s" and busy: "\<not> idle (input_mode s)" and m: "m = ModePreviewing \<or> m = ModeSelecting"
    and Q: "\<And>r run. answered cfg rid r run \<Longrightarrow> commit r = cand_text c \<Longrightarrow>
              input_mode (snd run) = ModeNone \<or> input_mode (snd run) = m \<Longrightarrow> Q r run"
    and E: "\<And>s'. recoverable cfg rid s' \<Longrightarrow> E s'"
  shows "wp (commit_candidate cfg c m) Q E (w, s)"
proof -
  have reply: "state_ok cfg rid s' \<Longrightarrow> input_mode s' = ModeNone \<or> input_mode s' = m \<Longrightarrow>
      Q (make_state s' True (cand_text c) b) (w', s')" for s' w' b
    by (rule Q) (simp_all add: make_state_def answered_def displays_def)
  show ?thesis
    unfolding commit_candidate_def wp_and_then
  proof (rule wp_select [OF parts _ E])
    fix w' conv
    assume conv: "supported cfg \<Longrightarrow> session_ok (tables cfg) conv \<and> full_composing conv = None"
    let ?s = "(clear_presentation (s\<lparr>conversion := conv\<rparr>))\<lparr>last_was_backspace := False, backspace_correction := None\<rparr>"
    have u: "unicode_input s = []" "list_all is_lower_hex (unicode_input s)" "last_request_id s = rid"
      using parts busy by (auto simp: state_parts_def presentable_def)
    show "wp (inspect (\<lambda>s. let left_context = (case left (surrounding s) of Some l \<Rightarrow> l | None \<Rightarrow> []) @ cand_text c;
               finished = is_empty_composing (composing (conversion s))
           in and_then (update (\<lambda>s. (clear_presentation s)\<lparr>last_was_backspace := False, backspace_correction := None\<rparr>))
                (\<lambda>_. and_then
                  (if \<not> finished
                   then and_then (update (\<lambda>s. s\<lparr>segment_surface_count := None, input_mode := m\<rparr>))
                          (\<lambda>_. request_with_context cfg True (Some left_context))
                   else update (\<lambda>s. s\<lparr>input_mode := ModeNone\<rparr>))
                  (\<lambda>_. inspect (\<lambda>s. reply (\<lambda>s. s) True (cand_text c) (is_empty_composing (composing (conversion s))))))))
          Q E (w', s\<lparr>conversion := conv\<rparr>)"
    proof (cases "is_empty_composing (composing conv)")
      case True
      have "state_ok cfg rid (?s\<lparr>input_mode := ModeNone\<rparr>)"
        using True u conv
        by (auto simp: state_ok_def state_parts_def presentable_def selection_ok_def coherent_def is_empty_composing_def)
      with True reply show ?thesis by (simp add: Let_def)
    next
      case False
      have st: "state_parts cfg rid (?s\<lparr>segment_surface_count := None, input_mode := m\<rparr>)"
        using False u conv m by (auto simp: state_parts_def presentable_def coherent_def is_empty_composing_def)
      have "wp (request_with_context cfg True lc)
            (\<lambda>_. wp (inspect (\<lambda>s. reply (\<lambda>s. s) True (cand_text c) (is_empty_composing (composing (conversion s))))) Q E)
            E (w', ?s\<lparr>segment_surface_count := None, input_mode := m\<rparr>)" for lc
      proof (rule wp_request [OF st _ _ E])
        show "\<not> idle (input_mode (?s\<lparr>segment_surface_count := None, input_mode := m\<rparr>))" using m by auto
        fix w'' s'
        assume "requested cfg rid (?s\<lparr>segment_surface_count := None, input_mode := m\<rparr>) s'"
        then have "state_ok cfg rid s'" "input_mode s' = m"
          using m requested_ok requested_ok_other by (fastforce simp: requested_def)+
        then show "wp (inspect (\<lambda>s. reply (\<lambda>s. s) True (cand_text c) (is_empty_composing (composing (conversion s)))))
            Q E (w'', s')" by (simp add: reply)
      qed
      with False show ?thesis by (simp add: Let_def)
    qed
  qed
qed

section \<open>Handlers that change the presentation only\<close>

text \<open>The handlers answer from a state.\<close>

definition answers ::
  "('m, 'z, 'c) EngineConfig \<Rightarrow> 64 word \<Rightarrow> ('m, 'z, 'c, StateResponse) handler \<Rightarrow> 'c SessionState \<Rightarrow> bool" where
  "answers cfg rid m s \<longleftrightarrow> (\<forall>w. wp m (answered cfg rid) (recoverable cfg rid) (w, s))"

lemma answersI:
  "(\<And>w. wp m (answered cfg rid) (recoverable cfg rid) (w, s)) \<Longrightarrow> answers cfg rid m s"
  by (simp add: answers_def)

lemma answers_wp: "answers cfg rid m s \<Longrightarrow> wp m (answered cfg rid) (recoverable cfg rid) (w, s)"
  by (simp add: answers_def)

lemma answers_simps [simp]:
  "answers cfg rid (fail code message) s = recoverable cfg rid s"
  "answers cfg rid (reply f c t r) s = state_ok cfg rid (f s)"
  "answers cfg rid (inspect g) s = answers cfg rid (g s) s"
  "answers cfg rid (and_then (update f) h) s = answers cfg rid (h ()) (f s)"
  "answers cfg rid (and_then (succeed x) h) s = answers cfg rid (h x) s"
  by (simp_all add: answers_def)

lemma answers_reset:
  "recoverable cfg rid s \<Longrightarrow> answers cfg rid (reply (reset_session z) c t r) s"
  "recoverable cfg rid s \<Longrightarrow> answers cfg rid (succeed ((reset_response (reset_session z s))\<lparr>consumed := c, commit := t, rs_reset := r\<rparr>)) (reset_session z s)"
  by (simp_all add: reset_state_ok answers_def answered_def displays_reset_response)

text \<open>Fields the invariant does not depend on.\<close>

lemma state_parts_frame [simp]:
  "state_parts cfg rid (s\<lparr>typo_corrections := a\<rparr>) = state_parts cfg rid s"
  "state_parts cfg rid (s\<lparr>surrounding := b\<rparr>) = state_parts cfg rid s"
  "state_parts cfg rid (s\<lparr>live_candidate := d\<rparr>) = state_parts cfg rid s"
  "state_parts cfg rid (s\<lparr>last_was_backspace := e\<rparr>) = state_parts cfg rid s"
  "state_parts cfg rid (s\<lparr>segment_surface_count := g\<rparr>) = state_parts cfg rid s"
  "state_parts cfg rid (s\<lparr>input_language := h\<rparr>) = state_parts cfg rid s"
  "state_parts cfg rid (s\<lparr>selected_candidate := k\<rparr>) = state_parts cfg rid s"
  by (simp_all add: state_parts_def presentable_def coherent_def)

lemma selection_ok_frame [simp]:
  "selection_ok (s\<lparr>typo_corrections := a\<rparr>) = selection_ok s"
  "selection_ok (s\<lparr>surrounding := b\<rparr>) = selection_ok s"
  "selection_ok (s\<lparr>live_candidate := d\<rparr>) = selection_ok s"
  "selection_ok (s\<lparr>last_was_backspace := e\<rparr>) = selection_ok s"
  "selection_ok (s\<lparr>segment_surface_count := g\<rparr>) = selection_ok s"
  "selection_ok (s\<lparr>input_language := h\<rparr>) = selection_ok s"
  "selection_ok (s\<lparr>conversion := conv\<rparr>) = selection_ok s"
  "selection_ok (s\<lparr>selected_candidate := 0\<rparr>)"
  by (simp_all add: selection_ok_def)

lemma recoverable_frame [simp]:
  "recoverable cfg rid (s\<lparr>typo_corrections := a\<rparr>) = recoverable cfg rid s"
  "recoverable cfg rid (s\<lparr>surrounding := b\<rparr>) = recoverable cfg rid s"
  by (simp_all add: recoverable_def)

lemma parts_conversion:
  assumes "state_parts cfg rid s" and "composing conv = composing (conversion s)"
    and "full_composing conv = full_composing (conversion s)"
  shows "state_parts cfg rid (s\<lparr>conversion := conv\<rparr>)"
  using assms by (simp add: state_parts_def presentable_def coherent_def session_ok_def)

text \<open>A step between the modes of a composition.\<close>

lemma parts_mode:
  assumes "state_parts cfg rid s" and "\<not> idle (input_mode s)" and "\<not> idle m"
  shows "state_parts cfg rid (s\<lparr>input_mode := m\<rparr>)"
  using assms by (auto simp: state_parts_def presentable_def coherent_def)

lemma parts_clear: "state_parts cfg rid s \<Longrightarrow> state_parts cfg rid (clear_presentation s)"
  by (simp add: state_parts_def presentable_def coherent_def)

lemma ok_parts [dest]: "state_ok cfg rid s \<Longrightarrow> state_parts cfg rid s"
  by (simp add: state_ok_def)

lemma ok_from_parts: "state_parts cfg rid s \<Longrightarrow> input_mode s \<noteq> ModeSelecting \<Longrightarrow> state_ok cfg rid s"
  by (simp add: state_ok_def selection_ok_def)

lemma ok_zero: "state_parts cfg rid s \<Longrightarrow> state_ok cfg rid (s\<lparr>selected_candidate := 0\<rparr>)"
  by (simp add: state_ok_def)

lemma shown_busy: "state_parts cfg rid s \<Longrightarrow> i < length (display_candidates s) \<Longrightarrow> \<not> idle (input_mode s)"
  by (auto simp: state_parts_def presentable_def)

lemma handle_escape_ok: "state_ok cfg rid s \<Longrightarrow> answers cfg rid (handle_escape cfg) s"
  by (cases "input_mode s")
     (simp_all add: handle_escape_def reset_state_ok state_ok_recoverable ok_from_parts parts_mode ok_parts)

lemma next_selected_ok:
  "state_ok cfg rid s \<Longrightarrow> state_ok cfg rid (next_selected b s)"
  by (auto simp: next_selected_def state_ok_def selection_ok_def Let_def)

lemma page_candidates_ok:
  "state_ok cfg rid s \<Longrightarrow> state_ok cfg rid (fst (page_candidates p s))"
  by (auto simp: page_candidates_def state_ok_def selection_ok_def Let_def split: option.splits PageDirection.splits)

lemma reveal_parts:
  assumes "state_parts cfg rid s" and "additional_candidate_count s < 5" and "\<not> idle (input_mode s)"
  shows "state_parts cfg rid (reveal_additional_candidate cfg s)"
  using assms
  by (auto simp: reveal_additional_candidate_def Let_def state_parts_def presentable_def coherent_def remainders_def)

lemma handle_up_ok: "state_ok cfg rid s \<Longrightarrow> answers cfg rid (handle_up cfg) s"
proof -
  assume ok: "state_ok cfg rid s"
  then have parts: "state_parts cfg rid s" by blast
  have "state_ok cfg rid (reveal_additional_candidate cfg s)" if "input_mode s = ModeSelecting" "additional_candidate_count s < 5"
    using reveal_parts [OF parts that(2)] that(1)
    by (simp add: state_ok_def selection_ok_def reveal_additional_candidate_def Let_def)
  with ok show ?thesis
    by (auto simp: handle_up_def state_ok_def selection_ok_def)
qed

lemma handle_unicode_input_ok:
  assumes "state_ok cfg rid s" and "input_mode s = ModeUnicode"
  shows "answers cfg rid (handle_unicode_input cfg action e) s"
proof -
  have rec: "recoverable cfg rid s" using assms(1) by (rule state_ok_recoverable)
  have digits: "list_all is_lower_hex (filter is_ascii_hexdigit (to_ascii_lowercase v))" for v
    by (auto simp: list_all_iff to_ascii_lowercase_def is_ascii_hexdigit_def is_lower_hex_def)
  have typed: "state_ok cfg rid (s\<lparr>unicode_input := u\<rparr>)" if "list_all is_lower_hex u" for u
    using assms that by (auto simp: state_ok_def state_parts_def presentable_def selection_ok_def coherent_def)
  have old: "list_all is_lower_hex (unicode_input s)"
    using assms(1) by (simp add: state_ok_def state_parts_def presentable_def)
  then have "list_all is_lower_hex (butlast (unicode_input s))" by (auto simp: list_all_iff dest: in_set_butlastD)
  with old digits typed assms(1) reset_state_ok [OF rec] show ?thesis
    by (cases action) (simp_all add: handle_unicode_input_def)
qed

end
