(* ===== verification/Engine_Handlers.thy ===== *)
theory Engine_Handlers
  imports Engine_Invariant
begin

text \<open>
  The handlers that convert, commit, insert or delete keep the invariant, and so does the whole key
  handling: \<open>handle_key_ok\<close>.
\<close>

section \<open>Sequencing\<close>

lemma answers_request:
  assumes "state_parts cfg rid s" and "\<not> idle (input_mode s)"
    and "\<And>s'. requested cfg rid s s' \<Longrightarrow> answers cfg rid (h ()) s'"
  shows "answers cfg rid (and_then (request_candidates cfg) h) s"
    and "answers cfg rid (and_then (request_rich_candidates cfg) h) s"
  unfolding request_candidates_def request_rich_candidates_def
  by (rule answersI; unfold wp_and_then; rule wp_request [OF assms(1,2)];
      use assms(3) in \<open>simp add: answers_def del: idle.simps\<close>)+

lemma answers_select:
  assumes "state_parts cfg rid s"
    and "\<And>conv. (supported cfg \<Longrightarrow> session_ok (tables cfg) conv \<and> full_composing conv = None) \<Longrightarrow>
           answers cfg rid (h (cand_text c)) (s\<lparr>conversion := conv\<rparr>)"
  shows "answers cfg rid (and_then (select_and_stage_learning cfg c) h) s"
  by (rule answersI; unfold wp_and_then; rule wp_select [OF assms(1)])
     (use assms(2) in \<open>simp_all add: answers_def\<close>)

lemma answers_learn:
  assumes "state_parts cfg rid s" and "\<And>s'. recoverable cfg rid s' \<Longrightarrow> answers cfg rid (h ()) s'"
  shows "answers cfg rid (and_then (learn_current_marked_candidate cfg m) h) s"
proof (rule answersI)
  fix w
  show "wp (and_then (learn_current_marked_candidate cfg m) h) (answered cfg rid) (recoverable cfg rid) (w, s)"
  proof (cases "marked_candidate m s")
    case None
    with assms show ?thesis
      by (simp add: learn_current_marked_candidate_def answers_def state_parts_recoverable)
  next
    case (Some c)
    have "wp (select_and_stage_learning cfg c) (\<lambda>_. wp (h ()) (answered cfg rid) (recoverable cfg rid))
        (recoverable cfg rid) (w, s)"
    proof (rule wp_select [OF assms(1)])
      fix w' conv
      assume "supported cfg \<Longrightarrow> session_ok (tables cfg) conv \<and> full_composing conv = None"
      then have "recoverable cfg rid (s\<lparr>conversion := conv\<rparr>)"
        using assms(1) by (simp add: recoverable_def state_parts_def)
      then show "wp (h ()) (answered cfg rid) (recoverable cfg rid) (w', s\<lparr>conversion := conv\<rparr>)"
        using assms(2) by (simp add: answers_def)
    qed
    with Some show ?thesis
      by (simp add: learn_current_marked_candidate_def)
         (rule wp_mono, assumption, simp_all)
  qed
qed

section \<open>Committing\<close>

lemma select_with_remainder_mode_ok:
  assumes "state_parts cfg rid s" and "m = ModePreviewing \<or> m = ModeSelecting"
  shows "answers cfg rid (select_with_remainder_mode cfg index m) s"
proof -
  let ?s = "s\<lparr>typo_corrections := []\<rparr>"
  have "answers cfg rid (commit_candidate cfg (display_candidates s ! index) m) ?s"
    if "index < length (display_candidates s)"
    using assms(1) shown_busy [OF assms(1) that]
    by (intro answersI wp_commit [OF _ _ assms(2)]) simp_all
  then show ?thesis
    using assms(1) by (simp add: select_with_remainder_mode_def state_parts_recoverable)
qed

lemma select_candidate_ok: "state_parts cfg rid s \<Longrightarrow> answers cfg rid (select_candidate cfg index) s"
  by (simp add: select_candidate_def select_with_remainder_mode_ok)

lemma handle_enter_ok: "state_ok cfg rid s \<Longrightarrow> answers cfg rid (handle_enter cfg) s"
  by (auto simp: handle_enter_def Let_def reset_state_ok intro!: select_candidate_ok answers_learn)

lemma handle_representation_ok:
  "state_parts cfg rid s \<Longrightarrow> \<not> idle (input_mode s) \<Longrightarrow> answers cfg rid (handle_representation cfg i) s"
  unfolding handle_representation_def answers_simps Let_def
  by (intro answersI wp_commit) (simp_all del: idle.simps)

lemma select_typo_correction_ok:
  "state_ok cfg rid s \<Longrightarrow> answers cfg rid (select_typo_correction cfg index) s"
  using answers_reset(2) [of cfg rid s _ _ True] state_ok_recoverable [of cfg rid s]
  by (simp add: select_typo_correction_def reset_response_def default_response_def)

section \<open>Unicode input\<close>

lemma unicode_entered: "recoverable cfg rid s \<Longrightarrow> state_ok cfg rid ((reset_session z s)\<lparr>input_mode := ModeUnicode, unicode_input := []\<rparr>)"
  using reset_state_ok [of cfg rid s z]
  by (simp add: state_ok_def state_parts_def presentable_def selection_ok_def coherent_def)

lemma enter_unicode_input_ok:
  assumes "state_ok cfg rid s" and "input_mode s \<noteq> ModeUnicode"
  shows "answers cfg rid (enter_unicode_input cfg) s"
proof -
  have parts: "state_parts cfg rid s" using assms(1) by blast
  show ?thesis
  proof (cases "input_mode s")
    case ModeNone
    with assms(1) show ?thesis
      by (auto simp: enter_unicode_input_def state_ok_def state_parts_def presentable_def selection_ok_def coherent_def)
  next
    case ModeSelecting
    have "recoverable cfg rid (s\<lparr>conversion := conv\<rparr>)"
      if "supported cfg \<Longrightarrow> session_ok (tables cfg) conv \<and> full_composing conv = None" for conv
      using that assms(1) by (auto simp: recoverable_def state_ok_def state_parts_def)
    with ModeSelecting show ?thesis
      using answers_select [OF parts] parts
      by (simp add: enter_unicode_input_def Let_def unicode_entered state_parts_recoverable)
  qed (use assms in \<open>auto simp: enter_unicode_input_def Let_def unicode_entered intro!: answers_learn [OF parts]\<close>)
qed

section \<open>Editing\<close>

text \<open>An edited text of a composition.\<close>

definition edited :: "('m, 'z, 'c) EngineConfig \<Rightarrow> ConversionSession \<Rightarrow> bool" where
  "edited cfg conv \<longleftrightarrow>
     (supported cfg \<longrightarrow>
        session_ok (tables cfg) conv \<and> full_composing conv = None \<and> surface (composing conv) \<noteq> [])"

lemma session_insert_str_edited:
  assumes "supported cfg \<Longrightarrow> session_ok (tables cfg) conv \<and> full_composing conv = None"
    and "supported cfg \<Longrightarrow> v \<noteq> [] \<or> surface (composing conv) \<noteq> []"
  shows "edited cfg (session_insert_str (graphemes_of cfg) (tables cfg) v style conv)"
  unfolding edited_def
proof
  assume s: "supported cfg"
  then have p: "productive (tables cfg)" and "graphemes_of cfg v \<noteq> [] \<or> surface (composing conv) \<noteq> []"
    using assms(2) supported_graphemes [OF s] by (auto simp: supported_def)
  moreover have "text_ok (tables cfg) (composing conv)" using assms(1) [OF s] by (simp add: session_ok_def)
  ultimately show "session_ok (tables cfg) (session_insert_str (graphemes_of cfg) (tables cfg) v style conv) \<and>
      full_composing (session_insert_str (graphemes_of cfg) (tables cfg) v style conv) = None \<and>
      surface (composing (session_insert_str (graphemes_of cfg) (tables cfg) v style conv)) \<noteq> []"
    using insert_str_text_ok [OF p] assms(1) [OF s] by (simp add: session_ok_def)
qed

lemma session_insert_key_edited:
  assumes "supported cfg \<Longrightarrow> session_ok (tables cfg) conv \<and> full_composing conv = None"
  shows "edited cfg (session_insert_key (tables cfg) i n m style conv)"
  unfolding edited_def
proof
  assume s: "supported cfg"
  then have p: "productive (tables cfg)" by (simp add: supported_def)
  have ok: "text_ok (tables cfg) (composing conv)" using assms [OF s] by (simp add: session_ok_def)
  have d: "\<forall>e \<in> set [\<lparr>piece = Key i n m, input_style = style\<rparr>]. displayed (piece e) \<noteq> None"
    by (auto split: option.split)
  show "session_ok (tables cfg) (session_insert_key (tables cfg) i n m style conv) \<and>
      full_composing (session_insert_key (tables cfg) i n m style conv) = None \<and>
      surface (composing (session_insert_key (tables cfg) i n m style conv)) \<noteq> []"
    using insert_displayed_text_ok [OF p ok d] assms [OF s] by (simp add: session_ok_def)
qed

lemma insert_event_edited:
  assumes "supported cfg \<Longrightarrow> session_ok (tables cfg) (conversion t) \<and> full_composing (conversion t) = None"
    and "ev_text e \<noteq> []"
  shows "\<exists>conv. insert_event (graphemes_of cfg) (tables cfg) e t = t\<lparr>conversion := conv\<rparr> \<and> edited cfg conv"
proof -
  have "(if ev_input e = [] then ev_text e else ev_input e) \<noteq> []" using assms(2) by simp
  then show ?thesis
    using assms session_insert_str_edited [of cfg "conversion t"] session_insert_key_edited [of cfg "conversion t"]
    unfolding insert_event_def Let_def by (cases "input_language t = EnglishInput") (auto split: InputStyle.split)
qed

text \<open>A composition whose presentation has been cleared.\<close>

lemma cleared_parts:
  assumes "edited cfg conv" and "last_request_id t = rid" and "display_candidates t = []"
    and "candidate_remainders t = []" and "candidate_annotations t = []" and "additional_candidate_count t = 0"
    and "unicode_input t = []" and "prediction t = None" and "supported cfg \<Longrightarrow> backspace_correction t = None"
  shows "state_parts cfg rid (t\<lparr>conversion := conv, input_mode := ModeComposing\<rparr>)"
  using assms by (simp add: state_parts_def presentable_def coherent_def edited_def)

lemma busy_unicode: "state_parts cfg rid s \<Longrightarrow> input_mode s \<noteq> ModeUnicode \<Longrightarrow> unicode_input s = []"
  by (simp add: state_parts_def presentable_def)

lemma parts_text:
  "state_parts cfg rid s \<Longrightarrow> supported cfg \<Longrightarrow>
   session_ok (tables cfg) (conversion s) \<and> full_composing (conversion s) = None \<and> backspace_correction s = None \<and>
   (surface (composing (conversion s)) = [] \<longleftrightarrow> idle (input_mode s))"
  by (auto simp: state_parts_def coherent_def presentable_def)

lemma idle_text: "state_parts cfg rid s \<Longrightarrow> idle (input_mode s) \<Longrightarrow> surface (composing (conversion s)) = []"
  by (auto simp: state_parts_def presentable_def)

lemma handle_input_ok:
  assumes "state_ok cfg rid s" and "ev_text e \<noteq> []" and "input_mode s \<noteq> ModeUnicode"
  shows "answers cfg rid (handle_input cfg e) s"
proof -
  have parts: "state_parts cfg rid s" using assms(1) by blast
  have "answers cfg rid (and_then
          (update (\<lambda>s. (insert_event (graphemes_of cfg) (tables cfg) e
             ((if t \<noteq> [] then reset_of cfg s else clear_presentation s)
                \<lparr>segment_surface_count := None, last_was_backspace := False\<rparr>))\<lparr>input_mode := ModeComposing\<rparr>))
          (\<lambda>_. and_then (request_candidates cfg) (\<lambda>_. reply (\<lambda>s. s) True t False))) s" for t
  proof -
    let ?t = "(if t \<noteq> [] then reset_of cfg s else clear_presentation s)
                \<lparr>segment_surface_count := None, last_was_backspace := False\<rparr>"
    have "supported cfg \<Longrightarrow> session_ok (tables cfg) (conversion ?t) \<and> full_composing (conversion ?t) = None"
      using parts_text [OF parts] by (simp add: session_ok_reset)
    from insert_event_edited [of cfg ?t e, OF this assms(2)]
    obtain conv where conv: "insert_event (graphemes_of cfg) (tables cfg) e ?t = ?t\<lparr>conversion := conv\<rparr>" "edited cfg conv"
      by blast
    have "state_parts cfg rid (?t\<lparr>conversion := conv, input_mode := ModeComposing\<rparr>)"
      using parts busy_unicode [OF parts assms(3)] parts_text [OF parts]
      by (intro cleared_parts [OF conv(2)]) (simp_all add: state_parts_def)
    then show ?thesis
      unfolding answers_simps conv(1) by (intro answers_request) (auto intro: requested_ok_other)
  qed
  from this [of "if input_mode s = ModePreviewing \<or> input_mode s = ModeSelecting then current_marked_text s else []"]
  show ?thesis by (simp add: handle_input_def Let_def)
qed

lemma handle_number_ok:
  assumes "state_ok cfg rid s" and "ev_text e \<noteq> []"
  shows "answers cfg rid (handle_number cfg n e) s"
proof -
  have parts: "state_parts cfg rid s" using assms(1) by blast
  have "supported cfg \<Longrightarrow> session_ok (tables cfg) (conversion (reset_of cfg s)) \<and>
      full_composing (conversion (reset_of cfg s)) = None"
    using parts_text [OF parts] by (simp add: session_ok_reset)
  from insert_event_edited [of cfg "reset_of cfg s" e, OF this assms(2)]
  obtain conv where conv: "insert_event (graphemes_of cfg) (tables cfg) e (reset_of cfg s) = (reset_of cfg s)\<lparr>conversion := conv\<rparr>"
    "edited cfg conv" by blast
  have "state_parts cfg rid ((reset_of cfg s)\<lparr>conversion := conv, input_mode := ModeComposing\<rparr>)"
    using parts by (intro cleared_parts [OF conv(2)]) (simp_all add: state_parts_def)
  then show ?thesis
    using conv(1) parts
    by (auto simp: handle_number_def Let_def select_candidate_ok intro!: answers_request dest!: requested_ok_other)
qed

text \<open>A space typed in English, in the middle of a composition.\<close>

lemma english_space_ok:
  assumes "state_ok cfg rid s" and "input_mode s = ModeComposing"
  shows "state_ok cfg rid (clear_presentation
     (s\<lparr>conversion := session_insert_str (graphemes_of cfg) (tables cfg) [0x20] Direct (conversion s),
        segment_surface_count := None, last_was_backspace := False, backspace_correction := None\<rparr>))"
proof -
  have parts: "state_parts cfg rid s" using assms(1) by blast
  have "edited cfg (session_insert_str (graphemes_of cfg) (tables cfg) [0x20] Direct (conversion s))"
    using parts_text [OF parts] by (intro session_insert_str_edited) auto
  then show ?thesis
    using parts assms(2) by (simp add: state_ok_def state_parts_def presentable_def selection_ok_def coherent_def edited_def)
qed

section \<open>Converting\<close>

lemma parts_edited:
  assumes "state_parts cfg rid s" and "edited cfg conv" and "\<not> idle (input_mode s)"
  shows "state_parts cfg rid (s\<lparr>conversion := conv\<rparr>)"
  using assms by (simp add: state_parts_def presentable_def coherent_def edited_def)

lemma separate_parts:
  assumes "state_parts cfg rid s" and "\<not> idle (input_mode s)"
  shows "state_parts cfg rid (separate cfg s)" and "input_mode (separate cfg s) = input_mode s"
proof -
  have "edited cfg (insert_composition_separator (tables cfg) (session_style s) (conversion s))"
    unfolding edited_def
  proof
    assume sup: "supported cfg"
    note t = parts_text [OF assms(1) sup]
    from sup have "productive (tables cfg)" "style_quiet (tables cfg) (session_style s)" by (auto simp: supported_def)
    with t assms(2) insert_separator_ok [of "tables cfg" "conversion s" "session_style s"]
    show "session_ok (tables cfg) (insert_composition_separator (tables cfg) (session_style s) (conversion s)) \<and>
        full_composing (insert_composition_separator (tables cfg) (session_style s) (conversion s)) = None \<and>
        surface (composing (insert_composition_separator (tables cfg) (session_style s) (conversion s))) \<noteq> []"
      by simp
  qed
  with parts_edited [OF assms(1) _ assms(2)] show "state_parts cfg rid (separate cfg s)"
    by (simp add: separate_def)
  show "input_mode (separate cfg s) = input_mode s" by (simp add: separate_def)
qed

lemma requested_to_selecting:
  "requested cfg rid s s' \<Longrightarrow> \<not> idle (input_mode s) \<Longrightarrow>
   state_ok cfg rid (s'\<lparr>input_mode := ModeSelecting, selected_candidate := 0\<rparr>)"
  by (rule ok_zero, rule parts_mode) (auto simp: requested_def)

lemma handle_space_ok:
  assumes "state_ok cfg rid s"
  shows "answers cfg rid (handle_space cfg e) s"
proof (cases "input_mode s")
  case ModeComposing
  then have busy: "\<not> idle (input_mode s)" by simp
  note sep = separate_parts [OF ok_parts [OF assms] busy]
  have sel: "state_parts cfg rid ((separate cfg s)\<lparr>input_mode := ModeSelecting\<rparr>)"
    and pre: "state_parts cfg rid ((separate cfg s)\<lparr>input_mode := ModePreviewing\<rparr>)"
    using sep busy by (auto intro!: parts_mode)
  have preview: "state_ok cfg rid (s'\<lparr>selected_candidate := case preview_candidate_index s' of None \<Rightarrow> 0 | Some i \<Rightarrow> i\<rparr>)"
    if "requested cfg rid t s'" for s' t
    using that by (auto simp: requested_def state_ok_def selection_ok_def preview_ok_def split: option.split)
  have "state_ok cfg rid (s'\<lparr>selected_candidate := 0\<rparr>)" if "requested cfg rid t s'" for s' t
    using that by (auto simp: requested_def intro: ok_zero)
  with ModeComposing sel pre preview show ?thesis
    by (auto simp: handle_space_def intro!: answers_request)
next
  case ModePreviewing
  then show ?thesis
    using ok_parts [OF assms] by (auto simp: handle_space_def intro!: answers_request requested_to_selecting)
qed (use assms in \<open>simp_all add: handle_space_def next_selected_ok\<close>)

lemma handle_down_ok:
  assumes "state_ok cfg rid s"
  shows "answers cfg rid (handle_down cfg) s"
proof (cases "input_mode s = ModeComposing \<or> input_mode s = ModePreviewing")
  case True
  then have busy: "\<not> idle (input_mode s)" by auto
  note sep = separate_parts [OF ok_parts [OF assms] busy]
  have "answers cfg rid (and_then (request_rich_candidates cfg)
      (\<lambda>_. reply (\<lambda>s. s\<lparr>input_mode := ModeSelecting, selected_candidate := 0\<rparr>) True [] False)) (separate cfg s)"
    using sep busy by (intro answers_request) (auto intro!: requested_to_selecting)
  with True show ?thesis by (auto simp: handle_down_def)
qed (use assms in \<open>auto simp: handle_down_def next_selected_ok\<close>)

lemma move_text_cursor_parts:
  assumes "state_parts cfg rid s" and "\<not> idle (input_mode s)"
  shows "state_parts cfg rid (move_text_cursor k s)"
proof -
  have "surface (fst (move_cursor k c)) = surface c" for c by (simp add: move_cursor_def Let_def)
  then have "edited cfg (session_move_cursor k (conversion s))"
    using parts_text [OF assms(1)] assms(2) move_cursor_text_ok [of "tables cfg" "composing (conversion s)" k]
    by (auto simp: edited_def session_ok_def)
  with parts_edited [OF assms(1) _ assms(2)] show ?thesis by (simp add: move_text_cursor_def)
qed

lemma move_text_cursor_mode [simp]:
  "input_mode (move_text_cursor k s) = input_mode s"
  "backspace_correction (move_text_cursor k s) = backspace_correction s"
  by (simp_all add: move_text_cursor_def)

lemma segment_start_parts:
  assumes "state_parts cfg rid s" and "\<not> idle (input_mode s)"
  shows "state_parts cfg rid (segment_start cfg s)" and "input_mode (segment_start cfg s) = input_mode s"
  using assms move_text_cursor_parts [OF assms] by (simp_all add: segment_start_def Let_def)

lemma handle_segment_ok:
  assumes "state_ok cfg rid s" and "\<not> idle (input_mode s)"
  shows "answers cfg rid (handle_segment cfg to_right) s"
proof -
  note st = segment_start_parts [OF ok_parts [OF assms(1)] assms(2)]
  have parts: "state_parts cfg rid (clear_presentation ((move_text_cursor k (segment_start cfg s))
      \<lparr>segment_surface_count := n, last_was_backspace := False, input_mode := ModeSelecting\<rparr>))" for k n
    by (intro parts_clear parts_mode) (use st assms(2) in \<open>auto intro!: move_text_cursor_parts\<close>)
  have "state_ok cfg rid (s'\<lparr>live_candidate := None\<rparr>)"
    if "requested cfg rid (clear_presentation ((move_text_cursor k (segment_start cfg s))
      \<lparr>segment_surface_count := n, last_was_backspace := False, input_mode := ModeSelecting\<rparr>)) s'" for s' k n
    using requested_ok [OF that] by (simp add: state_ok_def)
  with parts show ?thesis
    unfolding handle_segment_def answers_simps Let_def by (intro answers_request) simp_all
qed

section \<open>Deleting\<close>

lemma no_correction:
  assumes "state_parts cfg rid s" and "\<not> supported cfg"
  shows "state_parts cfg rid (s\<lparr>backspace_correction := b\<rparr>)" and "state_parts cfg rid (s\<lparr>prediction := p\<rparr>)"
  using assms by (simp_all add: state_parts_def presentable_def)

lemma wp_typo_corrections:
  assumes "\<And>w' cs. Q cs (w', s)" and "E s"
  shows "wp (request_typo_corrections cfg c) Q E (w, s)"
  using assms by (auto simp: wp_def request_typo_corrections_def fail_def Let_def
      split: prod.split sum.split ZenzError.split)

lemma wp_converted_reading:
  assumes "\<And>w' x. Q x (w', s)" and "E s"
  shows "wp (converted_reading cfg reading) Q E (w, s)"
  unfolding converted_reading_def by (rule wp_on_copy) (use assms wp_True in auto)

lemma wp_backspace_correction:
  assumes "\<And>w'. Q () (w', s)" and "\<And>w' b. Q () (w', s\<lparr>backspace_correction := b\<rparr>)" and "E s"
  shows "wp (update_backspace_correction cfg c) Q E (w, s)"
  unfolding update_backspace_correction_def wp_and_then
  by (rule wp_typo_corrections)
     (use assms in \<open>auto intro!: wp_converted_reading split: option.split\<close>)

lemma delete_backward_edited:
  assumes "state_parts cfg rid s" and "surface (composing (session_delete_backward (tables cfg) k (conversion s))) \<noteq> []"
  shows "edited cfg (session_delete_backward (tables cfg) k (conversion s))"
  unfolding edited_def
proof
  assume sup: "supported cfg"
  note t = parts_text [OF assms(1) sup]
  have "text_ok (tables cfg) (delete_backward (tables cfg) k (composing (conversion s)))"
    using sup t by (intro delete_backward_text_ok) (auto simp: supported_def session_ok_def)
  with t assms(2) show "session_ok (tables cfg) (session_delete_backward (tables cfg) k (conversion s)) \<and>
      full_composing (session_delete_backward (tables cfg) k (conversion s)) = None \<and>
      surface (composing (session_delete_backward (tables cfg) k (conversion s))) \<noteq> []"
    by (simp add: session_ok_def)
qed

lemma recoverable_delete:
  "recoverable cfg rid s \<Longrightarrow>
   recoverable cfg rid (s\<lparr>conversion := session_delete_backward (tables cfg) k (conversion s),
                          segment_surface_count := n, last_was_backspace := b\<rparr>)"
  by (simp add: recoverable_def)

text \<open>What follows the request of a Backspace.\<close>

lemma renew_correction_ok:
  assumes "state_parts cfg rid s" and "input_mode s = ModeComposing"
  shows "state_ok cfg rid (renew_correction cfg s)"
proof (cases "supported cfg")
  case True
  with assms parts_text [OF assms(1)] show ?thesis by (auto simp: renew_correction_def intro: ok_from_parts)
next
  case False
  with assms no_correction show ?thesis by (auto simp: renew_correction_def intro!: ok_from_parts split: option.split)
qed

lemma backspace_tail_ok:
  assumes "requested cfg rid t s" and "input_mode t = ModeComposing" and "supported cfg \<Longrightarrow> previous = None"
  shows "answers cfg rid (and_then (update (\<lambda>s. s\<lparr>live_candidate := None\<rparr>))
     (\<lambda>_. and_then (case previous of Some p \<Rightarrow> update_backspace_correction cfg p | None \<Rightarrow> succeed ())
       (\<lambda>_. and_then (update (renew_correction cfg)) (\<lambda>_. reply (\<lambda>s. s) True [] False)))) s"
proof -
  have parts: "state_parts cfg rid (s\<lparr>live_candidate := None\<rparr>)" and mode: "input_mode (s\<lparr>live_candidate := None\<rparr>) = ModeComposing"
    using assms(1,2) by (simp_all add: requested_def)
  have tail: "wp (and_then (update (renew_correction cfg)) (\<lambda>_. reply (\<lambda>s. s) True [] False))
      (answered cfg rid) (recoverable cfg rid) (w, u)"
    if "state_parts cfg rid u" "input_mode u = ModeComposing" for w u
    using renew_correction_ok [OF that] by simp
  show ?thesis
  proof (cases previous)
    case None
    with renew_correction_ok [OF parts mode] show ?thesis by simp
  next
    case (Some p)
    then have ns: "\<not> supported cfg" using assms(3) by auto
    have "wp (update_backspace_correction cfg p)
        (\<lambda>_. wp (and_then (update (renew_correction cfg)) (\<lambda>_. reply (\<lambda>s. s) True [] False))
           (answered cfg rid) (recoverable cfg rid))
        (recoverable cfg rid) (w, s\<lparr>live_candidate := None\<rparr>)" for w
      using tail [OF parts mode] tail [OF no_correction(1) [OF parts ns]] mode state_parts_recoverable [OF parts]
      by (intro wp_backspace_correction) simp_all
    with Some show ?thesis by (simp add: answers_def)
  qed
qed

lemma handle_backspace_ok:
  assumes "state_ok cfg rid s" and "\<not> is_empty_composing (composing (conversion s))"
  shows "answers cfg rid (handle_backspace cfg) s"
proof -
  have parts: "state_parts cfg rid s" using assms(1) by blast
  then have busy: "\<not> idle (input_mode s)" using idle_text assms(2) by (auto simp: is_empty_composing_def)
  let ?k = "int (length (surface (composing (conversion s))) - cursor (composing (conversion s)))"
  let ?m = "move_text_cursor ?k s"
  let ?d = "?m\<lparr>conversion := session_delete_backward (tables cfg) 1 (conversion ?m),
               segment_surface_count := None, last_was_backspace := True\<rparr>"
  have m: "state_parts cfg rid ?m" using parts busy by (rule move_text_cursor_parts)
  have prev: "supported cfg \<Longrightarrow> (if lm_typo_enabled cfg \<and> backspace_correction ?m = None
      then Some (composing (conversion ?m)) else None) = None" by (simp add: supported_def)
  show ?thesis
  proof (cases "is_empty_composing (composing (conversion ?d))")
    case True
    have "state_ok cfg rid (reset_of cfg ?d)"
      by (rule reset_state_ok, rule recoverable_delete, rule state_parts_recoverable, rule m)
    with True show ?thesis by (simp add: handle_backspace_def Let_def)
  next
    case False
    have "edited cfg (session_delete_backward (tables cfg) 1 (conversion ?m))"
      using False by (intro delete_backward_edited [OF m]) (simp add: is_empty_composing_def)
    from parts_edited [OF m this] busy
    have cleared: "state_parts cfg rid (clear_presentation (?d\<lparr>input_mode := ModeComposing\<rparr>))"
      by (intro parts_clear parts_mode) auto
    show ?thesis
      unfolding handle_backspace_def answers_simps Let_def
      by (subst if_not_P [OF False], unfold answers_simps, rule answers_request(1) [OF cleared], simp)
         (rule backspace_tail_ok, assumption, simp, erule prev)
  qed
qed

section \<open>Predictions\<close>

lemma accept_prediction_edited:
  assumes "state_parts cfg rid s" and "\<not> idle (input_mode s)"
  shows "edited cfg (fst (accept_prediction_candidate (graphemes_of cfg) (tables cfg) c (conversion s)))"
  unfolding edited_def
proof
  let ?g = "graphemes_of cfg" and ?t = "tables cfg" and ?c = "conversion s"
  assume sup: "supported cfg"
  note t = parts_text [OF assms(1) sup]
  from sup have p: "productive ?t" and g: "v \<noteq> [] \<Longrightarrow> ?g v \<noteq> []" for v
    using supported_graphemes by (auto simp: supported_def)
  have ok: "session_ok ?t (fst (accept_prediction_candidate ?g ?t c ?c))"
    using t by (intro accept_prediction_ok [OF p]) simp
  have c: "text_ok ?t (composing ?c)" using t by (simp add: session_ok_def)
  have "surface (insert_str ?g ?t v Direct (composing ?c)) \<noteq> [] \<and>
        surface (insert_str ?g ?t v Direct (delete_backward ?t n (composing ?c))) \<noteq> []" if "v \<noteq> []" for v n
    using insert_str_text_ok(2) [OF p c] insert_str_text_ok(2) [OF p delete_backward_text_ok [OF p c]] g [OF that] by auto
  with t assms(2) ok show "session_ok ?t (fst (accept_prediction_candidate ?g ?t c ?c)) \<and>
      full_composing (fst (accept_prediction_candidate ?g ?t c ?c)) = None \<and>
      surface (composing (fst (accept_prediction_candidate ?g ?t c ?c))) \<noteq> []"
    by (auto simp: accept_prediction_candidate_def Let_def split: option.split)
qed

lemma session_delete_kept:
  assumes "state_parts cfg rid s" and "supported cfg"
  shows "session_ok (tables cfg) (session_delete_backward (tables cfg) k (conversion s)) \<and>
         full_composing (session_delete_backward (tables cfg) k (conversion s)) = None"
proof -
  note t = parts_text [OF assms]
  have "text_ok (tables cfg) (delete_backward (tables cfg) k (composing (conversion s)))"
    using assms(2) t by (intro delete_backward_text_ok) (auto simp: supported_def session_ok_def)
  with t show ?thesis by (simp add: session_ok_def)
qed

text \<open>The edit of a prediction without a candidate.\<close>

definition apply_edit :: "('m, 'z, 'c) EngineConfig \<Rightarrow> InputPrediction \<Rightarrow> 'c SessionState \<Rightarrow> 'c SessionState" where
  "apply_edit cfg p s =
     (let s = (if ip_delete_count p > 0
               then s\<lparr>conversion := session_delete_backward (tables cfg) (ip_delete_count p) (conversion s)\<rparr>
               else s);
          s = s\<lparr>backspace_correction := None\<rparr>
      in if ip_append_text p = [] then s\<lparr>last_was_backspace := True\<rparr>
         else s\<lparr>conversion := session_insert_str (graphemes_of cfg) (tables cfg)
                               (ip_append_text p) Direct (conversion s)\<rparr>)"

lemma apply_edit_parts:
  assumes parts: "state_parts cfg rid s" and mode: "input_mode s = ModeComposing"
    and ne: "supported cfg \<Longrightarrow> ip_append_text p \<noteq> []"
  shows "state_parts cfg rid (apply_edit cfg p s)" and "input_mode (apply_edit cfg p s) = ModeComposing"
proof -
  let ?d = "if ip_delete_count p > 0 then session_delete_backward (tables cfg) (ip_delete_count p) (conversion s) else conversion s"
  have busy: "\<not> idle (input_mode s)" using mode by simp
  have d: "session_ok (tables cfg) ?d \<and> full_composing ?d = None" if "supported cfg"
    using session_delete_kept [OF parts that] parts_text [OF parts that] by simp
  show "state_parts cfg rid (apply_edit cfg p s)"
  proof (cases "ip_append_text p = []")
    case True
    then have "edited cfg ?d" using ne by (auto simp: edited_def)
    from parts_edited [OF parts this busy] have "state_parts cfg rid (s\<lparr>conversion := ?d\<rparr>)" .
    from parts_no_correction [OF this] True show ?thesis
      by (cases "ip_delete_count p > 0") (simp_all add: apply_edit_def)
  next
    case False
    then have "edited cfg (session_insert_str (graphemes_of cfg) (tables cfg) (ip_append_text p) Direct ?d)"
      using d by (intro session_insert_str_edited) auto
    from parts_edited [OF parts_no_correction [OF parts] this] busy False show ?thesis
      by (cases "ip_delete_count p > 0") (simp_all add: apply_edit_def)
  qed
  show "input_mode (apply_edit cfg p s) = ModeComposing" using mode by (simp add: apply_edit_def Let_def)
qed

lemma handle_tab_ok:
  assumes "state_ok cfg rid s"
  shows "answers cfg rid (handle_tab cfg) s"
proof (cases "if input_mode s = ModeComposing then prediction s else None")
  case None
  with assms show ?thesis by (simp add: handle_tab_def)
next
  case (Some p)
  then have mode: "input_mode s = ModeComposing" and p: "prediction s = Some p" by (auto split: if_splits)
  let ?s = "s\<lparr>last_was_backspace := False\<rparr>"
  have parts: "state_parts cfg rid ?s" using assms by auto
  have busy: "\<not> idle (input_mode ?s)" using mode by simp
  have again: "answers cfg rid (and_then (request_candidates cfg) (\<lambda>_. reply (\<lambda>s. s) True [] False)) t"
    if "state_parts cfg rid t" "input_mode t = ModeComposing" for t
    using that by (intro answers_request) (auto dest!: requested_ok_other)
  show ?thesis
  proof (cases "ip_candidate p")
    case None
    have "supported cfg \<Longrightarrow> ip_append_text p \<noteq> []"
      using assms p None by (auto simp: state_ok_def state_parts_def coherent_def)
    from again [OF apply_edit_parts [OF parts _ this]] mode p None show ?thesis
      by (simp add: handle_tab_def apply_edit_def)
  next
    case (Some c)
    let ?a = "accept_prediction_candidate (graphemes_of cfg) (tables cfg) c (conversion s)"
    have st: "state_parts cfg rid (?s\<lparr>conversion := fst ?a\<rparr>)"
      using parts_edited [OF parts accept_prediction_edited [OF parts busy] busy] by simp
    from again [OF this] ok_from_parts [OF st] mode p Some show ?thesis
      by (simp add: handle_tab_def case_prod_unfold Let_def)
  qed
qed

section \<open>Learning\<close>

lemma learning_parts:
  assumes "state_parts cfg rid s" and "composing conv = composing (conversion s)"
    and "full_composing conv = full_composing (conversion s)"
  shows "state_parts cfg rid (s\<lparr>conversion := conv, selected_candidate := 0, live_candidate := None\<rparr>)"
  using parts_conversion [OF assms] by simp

lemma requested_zero_ok: "requested cfg rid s s' \<Longrightarrow> selected_candidate s = 0 \<Longrightarrow> state_ok cfg rid s'"
  using requested_ok requested_ok_other by blast

text \<open>A call of the learning memory changes the memory and the caches of the session.\<close>

lemma answers_learning:
  assumes parts: "state_parts cfg rid s"
    and m: "\<And>w. \<exists>w' conv r. m (w, s) = ((w', s\<lparr>conversion := conv\<rparr>), r) \<and>
               composing conv = composing (conversion s) \<and> full_composing conv = full_composing (conversion s)"
    and h: "\<And>conv. state_parts cfg rid (s\<lparr>conversion := conv, selected_candidate := 0, live_candidate := None\<rparr>) \<Longrightarrow>
              composing conv = composing (conversion s) \<Longrightarrow>
              answers cfg rid (h ()) (s\<lparr>conversion := conv, selected_candidate := 0, live_candidate := None\<rparr>)"
  shows "answers cfg rid (and_then m (\<lambda>_. and_then (update (\<lambda>s. s\<lparr>selected_candidate := 0, live_candidate := None\<rparr>)) h)) s"
proof (rule answersI, unfold wp_and_then)
  fix w
  obtain w' conv r where eq: "m (w, s) = ((w', s\<lparr>conversion := conv\<rparr>), r)"
    and kept: "composing conv = composing (conversion s)" "full_composing conv = full_composing (conversion s)"
    using m [of w] by blast
  have "recoverable cfg rid (s\<lparr>conversion := conv\<rparr>)"
    using parts kept by (intro state_parts_recoverable parts_conversion)
  with eq answers_wp [OF h [OF learning_parts [OF parts kept] kept(1)]]
  show "wp m (\<lambda>x. wp (update (\<lambda>s. s\<lparr>selected_candidate := 0, live_candidate := None\<rparr>))
      (\<lambda>x. wp (h x) (answered cfg rid) (recoverable cfg rid)) (recoverable cfg rid)) (recoverable cfg rid) (w, s)"
    by (subst wp_def) (simp split: sum.split)
qed

lemma forget_candidate_ok:
  assumes "state_ok cfg rid s"
  shows "answers cfg rid (forget_candidate cfg index) s"
proof (cases "index < length (display_candidates s)")
  case False
  with assms show ?thesis by (simp add: forget_candidate_def state_ok_recoverable)
next
  case True
  have parts: "state_parts cfg rid s" using assms by blast
  have busy: "\<not> idle (input_mode s)" using True by (rule shown_busy [OF parts])
  from True parts show ?thesis
    unfolding forget_candidate_def answers_simps
    by (simp del: idle.simps, intro answers_learning)
       (use busy in \<open>auto split: prod.split option.split dest!: forget_learning_text
          intro!: answers_request requested_zero_ok\<close>)
qed

lemma reset_learning_ok:
  assumes "state_ok cfg rid s"
  shows "answers cfg rid (reset_learning cfg) s"
proof -
  have parts: "state_parts cfg rid (s\<lparr>typo_corrections := []\<rparr>)" using assms by auto
  have h: "answers cfg rid (and_then
        (inspect (\<lambda>s. if is_empty_composing (composing (conversion s)) then succeed () else request_candidates cfg))
        (\<lambda>_. reply (\<lambda>s. s) True [] False)) t"
    if t: "state_parts cfg rid t" "selected_candidate t = 0" for t
  proof (cases "is_empty_composing (composing (conversion t))")
    case True
    with t show ?thesis by (simp add: answers_def state_ok_def selection_ok_def)
  next
    case False
    then have "\<not> idle (input_mode t)" using idle_text [OF t(1)] by (auto simp: is_empty_composing_def)
    then have "answers cfg rid (and_then (request_candidates cfg) (\<lambda>_. reply (\<lambda>s. s) True [] False)) t"
      by (intro answers_request(1) [OF t(1)]) (simp_all add: requested_zero_ok [OF _ t(2)])
    with False show ?thesis by (simp add: answers_def)
  qed
  show ?thesis
    unfolding reset_learning_def answers_simps
    by (rule answers_learning [OF parts])
       (use h in \<open>auto split: prod.split option.split dest!: session_reset_learning_text\<close>)
qed

section \<open>The key\<close>

lemma selection_number_text: "selection_number t \<noteq> None \<Longrightarrow> t \<noteq> []"
  by (auto simp: selection_number_def)

lemma handle_action_ok:
  assumes "state_ok cfg rid s" and "input_mode s \<noteq> ModeUnicode"
  shows "answers cfg rid (handle_action cfg action e) s"
proof -
  have parts: "state_parts cfg rid s" using assms(1) by blast
  have "\<not> idle (input_mode s)" if "input_mode s \<noteq> ModeNone" using that assms(2) by simp
  with assms parts show ?thesis
    unfolding handle_action_def answers_simps
    by (simp add: handle_backspace_ok handle_escape_ok handle_enter_ok handle_space_ok handle_down_ok handle_up_ok
        handle_segment_ok select_with_remainder_mode_ok handle_tab_ok handle_representation_ok forget_candidate_ok
        handle_input_ok valid_event_text_def del: idle.simps)
qed

lemma preedit_language: "preedit_of (s\<lparr>input_language := l\<rparr>) = preedit_of s"
  by (cases "input_mode s") (simp_all add: preedit_of_def Let_def split: option.split)

lemma sent_language:
  "window_of (s\<lparr>input_language := l\<rparr>) = window_of s \<Longrightarrow>
   sent_candidates (s\<lparr>input_language := l\<rparr>) = sent_candidates s"
  by (simp add: sent_candidates_def candidate_indices_def Let_def cong: if_cong option.case_cong)

lemma handle_eisu_ok:
  assumes "state_ok cfg rid s"
  shows "answers cfg rid (handle_eisu cfg) s"
proof (cases "input_mode s = ModeSelecting")
  case False
  with assms show ?thesis by (simp add: handle_eisu_def state_ok_def)
next
  case True
  let ?s = "s\<lparr>typo_corrections := []\<rparr>"
  let ?h = "\<lambda>response. and_then (update (\<lambda>s. s\<lparr>input_language := EnglishInput\<rparr>))
             (\<lambda>_. succeed (response\<lparr>rs_input_language := LangEnglish\<rparr>))"
  have "answers cfg rid (and_then (commit_candidate cfg c ModePreviewing) ?h) ?s" for c
  proof (rule answersI, unfold wp_and_then, rule wp_commit)
    fix r run
    assume a: "answered cfg rid r run" and m: "input_mode (snd run) = ModeNone \<or> input_mode (snd run) = ModePreviewing"
    obtain w t where run: "run = (w, t)" by (cases run)
    have "window_of (t\<lparr>input_language := EnglishInput\<rparr>) = window_of t"
      using m by (auto simp: run window_of_def)
    then have "displays r t = displays (r\<lparr>rs_input_language := LangEnglish\<rparr>) (t\<lparr>input_language := EnglishInput\<rparr>)"
      by (simp add: displays_def sent_language preedit_language)
    with a show "wp (update (\<lambda>s. s\<lparr>input_language := EnglishInput\<rparr>))
        (\<lambda>x. wp (succeed (r\<lparr>rs_input_language := LangEnglish\<rparr>)) (answered cfg rid) (recoverable cfg rid))
        (recoverable cfg rid) run"
      by (simp add: run answered_def state_ok_def)
  qed (use assms True in auto)
  with True assms show ?thesis
    by (simp add: handle_eisu_def select_candidate_def select_with_remainder_mode_def state_ok_recoverable answers_def)
qed

lemma handle_normalized_ok:
  assumes "state_ok cfg rid s"
  shows "answers cfg rid (handle_normalized cfg action e) s"
  unfolding handle_normalized_def answers_simps Let_def
  using assms
  by (simp add: handle_unicode_input_ok enter_unicode_input_ok handle_eisu_ok english_space_ok handle_number_ok
      handle_action_ok selection_number_text state_ok_def [of cfg rid "s\<lparr>input_language := JapaneseInput\<rparr>"] ok_parts)
     (simp add: state_ok_def)

lemma handle_key_ok:
  assumes "state_ok cfg rid s"
  shows "answers cfg rid (handle_key cfg e) s"
proof -
  have "state_ok cfg rid (s\<lparr>typo_corrections := []\<rparr>)" using assms by (simp add: state_ok_def)
  then show ?thesis
    by (simp add: handle_key_def Let_def handle_normalized_ok split: option.split)
qed

end
