(* ===== verification/Engine_Reachable.thy ===== *)
theory Engine_Reachable
  imports Engine_Handlers
begin

text \<open>
  The engine as a whole: the dispatch of envelopes to sessions. A locale states what a property of one
  session has to satisfy to hold of every session the engine ever keeps; the invariant of
  \<open>Engine_Logic\<close> is its instance. The rest is about the envelopes: identifiers, order, isolation of
  sessions, errors.
\<close>

section \<open>Sequences of requests\<close>

text \<open>The requests of a connection, each with the shortcuts of its day, answered in order.\<close>

fun serve ::
  "(DictionaryEntry list \<times> Envelope) list \<Rightarrow> ('m, 'z, 'c) Engine \<Rightarrow> ('m, 'z, 'c) Engine \<times> Envelope list" where
  "serve [] en = (en, [])"
| "serve ((shortcuts, e) # rest) en =
     (case handle shortcuts e en of (en, a) \<Rightarrow> (case serve rest en of (en, as) \<Rightarrow> (en, a # as)))"

lemma serve_append:
  "serve (xs @ ys) en = (case serve xs en of (en, as) \<Rightarrow> (case serve ys en of (en, bs) \<Rightarrow> (en, as @ bs)))"
  by (induction xs arbitrary: en) (auto split: prod.split)

lemma serve_length: "length (snd (serve xs en)) = length xs"
  by (induction xs arbitrary: en) (auto simp: case_prod_unfold)

section \<open>Invariants of every session\<close>

locale session_invariant =
  fixes cfg :: "('m, 'z, 'c) EngineConfig"
    and ok :: "64 word \<Rightarrow> 'c SessionState \<Rightarrow> bool"
  assumes new: "start_conversion cfg shortcuts mem = Inr conv \<Longrightarrow> ok rid (new_session_state cfg rid conv style sur language)"
    and bump: "ok rid s \<Longrightarrow> ok rid' (s\<lparr>last_request_id := rid'\<rparr>)"
    and request: "ok rid s \<Longrightarrow> wp (session_handler cfg p) (\<lambda>_ run. ok rid (snd run)) (\<lambda>s. ok rid (reset_of cfg s)) (w, s)"
    and typo: "ok rid s \<Longrightarrow> ok rid (s\<lparr>typo_corrections := cs\<rparr>)"
    and reset: "ok rid s \<Longrightarrow> ok rid (reset_of cfg s)"
    and ids: "ok rid s \<Longrightarrow> last_request_id s = rid"
begin

definition all_ok :: "('m, 'z, 'c) Engine \<Rightarrow> bool" where
  "all_ok en \<longleftrightarrow> config en = cfg \<and> (\<forall>sid s. sessions en sid = Some s \<longrightarrow> ok (last_request_id s) s)"

lemma put_ok: "all_ok en \<Longrightarrow> ok rid s \<Longrightarrow> all_ok (put_session sid s (en\<lparr>world := w\<rparr>))"
  using ids by (auto simp: all_ok_def put_session_def)

lemma put_same: "all_ok en \<Longrightarrow> ok rid s \<Longrightarrow> all_ok (put_session sid s en)"
  using put_ok [of en rid s sid "world en"] by simp

lemma finish_ok:
  assumes "all_ok en" and "wp (session_handler cfg p) (\<lambda>_ run. ok rid (snd run)) (\<lambda>s. ok rid (reset_of cfg s)) (w, s)"
  shows "all_ok (fst (finish_request rid sid en (session_handler cfg p (w, s))))"
proof -
  have cfg: "config en = cfg" using assms(1) by (simp add: all_ok_def)
  obtain w' s' r where h: "session_handler cfg p (w, s) = ((w', s'), r)" by (metis surj_pair)
  show ?thesis
  proof (cases r)
    case (Inl e)
    with assms(2) h have "ok rid (reset_of cfg s')" by (simp add: wp_def)
    with put_ok [OF assms(1)] Inl h cfg show ?thesis by (simp add: finish_request_def split: prod.split)
  next
    case (Inr x)
    with assms(2) h have "ok rid s'" by (simp add: wp_def)
    with put_ok [OF assms(1)] Inr h show ?thesis by (simp add: finish_request_def)
  qed
qed

lemma start_ok:
  assumes "all_ok en"
  shows "all_ok (fst (handle_start shortcuts rid sid start en))"
proof -
  have cfg: "config en = cfg" using assms by (simp add: all_ok_def)
  show ?thesis
    using assms put_same [OF assms new]
    by (auto simp: handle_start_def Let_def cfg split: option.split sum.split)
qed

lemma typo_request_state: "request_typo_corrections cfg c (w, s) = ((w', s'), r) \<Longrightarrow> s' = s"
  by (auto simp: request_typo_corrections_def fail_def Let_def split: if_splits prod.splits)

lemma session_request_ok:
  assumes ok: "all_ok en"
  shows "all_ok (fst (handle_session_request rid sid p en))"
proof (cases "sessions en sid")
  case None
  with ok show ?thesis by (simp add: handle_session_request_def)
next
  case (Some s)
  have cfg: "config en = cfg" using ok by (simp add: all_ok_def)
  have s: "ok rid (s\<lparr>last_request_id := rid\<rparr>)" using ok Some bump [of "last_request_id s" s rid] by (simp add: all_ok_def)
  have removed: "all_ok (remove_session sid (en\<lparr>world := w\<rparr>))" for w
    using ok by (simp add: all_ok_def remove_session_def)
  have put_self: "all_ok (put_session sid (s\<lparr>last_request_id := rid\<rparr>) en)"
    using put_same [OF ok s] .
  have fin: "all_ok (fst (finish_request rid sid en (session_handler cfg p (world en, s\<lparr>last_request_id := rid\<rparr>))))" for p
    using finish_ok [OF ok request [OF s]] .
  obtain w' s' r where t: "request_typo_corrections cfg (composing (conversion s)) (world en, s\<lparr>last_request_id := rid\<rparr>) = ((w', s'), r)"
    by (metis surj_pair)
  with typo_request_state have s': "s' = s\<lparr>last_request_id := rid\<rparr>" by blast
  show ?thesis
    using ok Some removed put_self fin t put_ok [OF ok typo [OF s]] put_ok [OF ok reset [OF s]]
    by (cases p) (auto simp: handle_session_request_def Let_def cfg s' split: prod.split sum.split)
qed

text \<open>The session a request leaves behind carries the identifier of the request.\<close>

lemma finish_own:
  assumes "all_ok en" and "wp (session_handler cfg p) (\<lambda>_ run. ok rid (snd run)) (\<lambda>s. ok rid (reset_of cfg s)) (w, s)"
    and "sessions (fst (finish_request rid sid en (session_handler cfg p (w, s)))) sid = Some s'"
  shows "ok rid s'"
proof -
  have cfg: "config en = cfg" using assms(1) by (simp add: all_ok_def)
  obtain w' t r where h: "session_handler cfg p (w, s) = ((w', t), r)" by (metis surj_pair)
  show ?thesis
    using assms(2,3) by (cases r) (auto simp: h cfg wp_def finish_request_def put_session_def split: prod.splits)
qed

lemma session_request_own:
  assumes ok: "all_ok en" and Some: "sessions en sid = Some s" and new_id: "\<not> rid \<le> last_request_id s"
    and after: "sessions (fst (handle_session_request rid sid p en)) sid = Some s'"
  shows "ok rid s'"
proof -
  have cfg: "config en = cfg" using ok by (simp add: all_ok_def)
  have s: "ok rid (s\<lparr>last_request_id := rid\<rparr>)" using ok Some bump [of "last_request_id s" s rid] by (simp add: all_ok_def)
  have fin: "sessions (fst (finish_request rid sid en (session_handler cfg p (world en, s\<lparr>last_request_id := rid\<rparr>)))) sid = Some s' \<Longrightarrow>
      ok rid s'" for p
    using finish_own [OF ok request [OF s]] .
  obtain w' u r where t: "request_typo_corrections cfg (composing (conversion s)) (world en, s\<lparr>last_request_id := rid\<rparr>) = ((w', u), r)"
    by (metis surj_pair)
  with typo_request_state have u: "u = s\<lparr>last_request_id := rid\<rparr>" by blast
  show ?thesis
    using after Some new_id s fin t typo [OF s] reset [OF s]
    by (cases p) (auto simp: handle_session_request_def Let_def cfg u put_session_def remove_session_def
        split: prod.splits sum.splits if_splits)
qed

lemma start_own:
  assumes ok: "all_ok en" and after: "sessions (fst (handle_start shortcuts rid sid start en)) sid = Some s'"
  shows "sessions en sid = Some s' \<or> ok rid s'"
proof -
  have cfg: "config en = cfg" using ok by (simp add: all_ok_def)
  show ?thesis
    using after new
    by (auto simp: handle_start_def Let_def cfg put_session_def split: if_splits option.splits sum.splits)
qed

lemma handle_ok: "all_ok en \<Longrightarrow> all_ok (fst (handle shortcuts e en))"
  using start_ok session_request_ok by (auto simp: handle_def Let_def split: option.split Payload.split)

lemma serve_ok: "all_ok en \<Longrightarrow> all_ok (fst (serve reqs en))"
proof (induction reqs arbitrary: en)
  case (Cons req reqs)
  then show ?case using handle_ok by (cases req) (fastforce simp: case_prod_unfold)
qed simp

lemma connection_ok:
  assumes "config en = cfg" and "sessions (fst (serve reqs (for_connection fresh en))) sid = Some s"
  shows "ok (last_request_id s) s"
proof -
  have "all_ok (for_connection fresh en)" using assms(1) by (simp add: all_ok_def for_connection_def)
  from serve_ok [OF this] assms(2) show ?thesis by (auto simp: all_ok_def)
qed

end
section \<open>The invariant of the engine\<close>

lemma session_handler_ok:
  assumes "state_ok cfg rid s"
  shows "answers cfg rid (session_handler cfg p) s"
proof (cases p)
  case ResetSessionP
  have "displays (reset_response (reset_of cfg s)) (reset_of cfg s)"
    using displays_reset_response [of "reset_of cfg s" False "[]" True]
    by (simp add: displays_def reset_response_def default_response_def)
  with ResetSessionP assms show ?thesis
    by (simp add: session_handler_def) (simp add: answers_def answered_def reset_state_ok state_ok_recoverable)
next
  case (KeyEventP e)
  have "state_ok cfg rid (s\<lparr>surrounding := sur\<rparr>)" for sur using assms by (simp add: state_ok_def)
  with KeyEventP assms show ?thesis
    by (simp add: session_handler_def handle_key_ok state_ok_recoverable split: option.split sum.split)
next
  case (PageCandidatesP page)
  have "state_ok cfg rid ((fst (page_candidates page s))\<lparr>live_candidate := None\<rparr>)"
    using page_candidates_ok [OF assms, of page] by (simp add: state_ok_def)
  with PageCandidatesP show ?thesis by (simp add: session_handler_def)
next
  case CommitCompositionP
  with assms answers_reset(2) [OF state_ok_recoverable [OF assms]] show ?thesis
    by (simp add: session_handler_def Let_def)
next
  case (SelectCandidateP i)
  with assms show ?thesis by (simp add: session_handler_def select_candidate_ok ok_parts)
next
  case (SelectTypoCorrectionP i)
  with assms show ?thesis by (simp add: session_handler_def select_typo_correction_ok)
next
  case (ForgetCandidateP i)
  with assms show ?thesis by (simp add: session_handler_def forget_candidate_ok)
next
  case ResetLearningP
  with assms show ?thesis by (simp add: session_handler_def reset_learning_ok)
qed (use assms in \<open>simp_all add: session_handler_def state_ok_recoverable\<close>)

lemma start_conversion_text:
  "start_conversion cfg shortcuts mem = Inr conv \<Longrightarrow> composing conv = new_composing \<and> full_composing conv = None"
  by (auto simp: start_conversion_def Let_def import_dynamic_user_dictionary_def update_user_dictionary_def
      set_foreign_completion_provider_def set_learning_memory_def new_session_def
      split: option.splits sum.splits if_splits)

lemma new_state_ok:
  assumes "start_conversion cfg shortcuts mem = Inr conv"
  shows "state_ok cfg rid (new_session_state cfg rid conv style sur language)"
  using start_conversion_text [OF assms]
  by (simp add: new_session_state_def state_ok_def state_parts_def presentable_def selection_ok_def coherent_def
      session_ok_def text_ok_new)

interpretation state: session_invariant cfg "state_ok cfg" for cfg :: "('m, 'z, 'c) EngineConfig"
proof
  show "state_ok cfg rid s \<Longrightarrow>
      wp (session_handler cfg p) (\<lambda>_ run. state_ok cfg rid (snd run)) (\<lambda>s. state_ok cfg rid (reset_of cfg s)) (w, s)"
    for rid and s :: "'c SessionState" and p w
    by (rule wp_mono [OF answers_wp [OF session_handler_ok]]) (auto simp: answered_def reset_state_ok)
  show "state_ok cfg rid s \<Longrightarrow> state_ok cfg rid' (s\<lparr>last_request_id := rid'\<rparr>)" for rid rid' and s :: "'c SessionState"
    by (simp add: state_ok_def state_parts_def presentable_def selection_ok_def coherent_def)
  show "state_ok cfg rid s \<Longrightarrow> state_ok cfg rid (s\<lparr>typo_corrections := cs\<rparr>)" for rid and s :: "'c SessionState" and cs
    by (simp add: state_ok_def)
  show "state_ok cfg rid s \<Longrightarrow> last_request_id s = rid" for rid and s :: "'c SessionState"
    by (simp add: state_ok_def state_parts_def)
qed (auto simp: new_state_ok reset_state_ok state_ok_recoverable)

end
