(* ===== verification/Engine_Sample.thy ===== *)
theory Engine_Sample
  imports Engine_Reachable Session_Result
begin

text \<open>
  A small engine without models, on the sample tables and services of \<open>Session_Result\<close>, and the
  requests of a short connection: the inputs on which the properties of the engine are applied.
\<close>

definition sample_engine_services :: "(unit, unit, unit) EngineServices" where
  "sample_engine_services =
     \<lparr>es_session = sample_services, es_empty_cache = (),
      es_zenz_convert = (\<lambda>z m s c v rich. (z, [], c, Inr None)),
      es_zenz_prediction = (\<lambda>z m s v left. (z, None, None, Inr [])),
      es_typo_correction = (\<lambda>z left c style. (z, Inr []))\<rparr>"

definition sample_config :: "(unit, unit, unit) EngineConfig" where
  "sample_config =
     \<lparr>services = sample_engine_services, tables = sample_registry, has_zenz_model = False,
      zenz_version = V2 \<lparr>v2_profile = None, v2_left_context = None, v2_max_left_context_length = None\<rparr>, zenz_rich_candidates = False,
      zenz_predictive_input = False, lm_typo_enabled = False, has_lm_typo_ngram = False,
      has_foreign_provider = False, has_learning_memory = False, cfg_learning_available = False,
      cfg_learning_writable = False, cfg_user_dictionary = [], user_dictionary_directory = None,
      cfg_request_options = default_options, live_conversion = False, default_input_style = RomanToKana,
      default_keyboard_language = Japanese,
      input_behavior = \<lparr>type_backslash = False, type_half_space = False,
                        option_direct_full_width_input = False, punctuation_style = KutenAndToten\<rparr>\<rparr>"

definition sample_engine :: "(unit, unit, unit) Engine" where
  "sample_engine = \<lparr>config = sample_config, sessions = Map.empty, world = \<lparr>memory = (), models = ()\<rparr>\<rparr>"

definition request_envelope :: "64 word \<Rightarrow> Payload \<Rightarrow> DictionaryEntry list \<times> Envelope" where
  "request_envelope rid p = ([], \<lparr>protocol_version = 1, request_id = rid, session_id = [0x73], payload = Some p, trace = []\<rparr>)"

definition sample_start :: Payload where
  "sample_start = StartSessionP \<lparr>st_input_style = 0, st_surrounding = None, st_keyboard_language = 0,
     st_custom_input_table = []\<rparr>"

definition key_event :: "int \<Rightarrow> ustr \<Rightarrow> Payload" where
  "key_event action t = KeyEventP \<lparr>ev_action = action, ev_shift = False, ev_text = t, ev_surrounding = None,
     ev_input = t, ev_intention = [], ev_option = False\<rparr>"

lemma sample_style_quiet: "style_quiet sample_registry style"
proof -
  have roman: "fst (apply_table sample_table [] CompositionSeparator) = []"
    and none: "fst (apply_table empty_table [] CompositionSeparator) = []" by code_simp+
  show ?thesis
    by (cases "(sample_registry, style)" rule: resolve.cases)
       (use roman none in \<open>simp_all add: style_quiet_def quiet_def update_surface_def sample_registry_def\<close>)
qed

lemma sample_supported: "supported sample_config"
  using sample_productive sample_style_quiet segments_text_scalar
  by (simp add: supported_def) (simp add: sample_config_def sample_engine_services_def sample_services_def)

lemma sample_config_simps [simp]:
  "graphemes_of sample_config = scalar_graphemes" "tables sample_config = sample_registry"
  "option_direct_full_width_input (input_behavior sample_config) = False" "lm_typo_enabled sample_config = False"
  by (simp_all add: sample_config_def sample_engine_services_def sample_services_def)

definition sample_world :: "(unit, unit) World" where
  "sample_world = \<lparr>memory = (), models = ()\<rparr>"

lemmas handler_simps = succeed_def fail_def and_then_def update_def inspect_def reply_def

section \<open>Starting a session and typing a key\<close>

definition started :: "64 word \<Rightarrow> unit SessionState" where
  "started rid = new_session_state sample_config rid new_session RomanToKana no_surrounding Japanese"

definition key_n :: KeyEvent where
  "key_n = \<lparr>ev_action = 1, ev_shift = False, ev_text = [0x6E], ev_surrounding = None, ev_input = [0x6E],
     ev_intention = [], ev_option = False\<rparr>"

definition typed :: "unit SessionState" where
  "typed = (insert_event scalar_graphemes sample_registry key_n (clear_presentation (started 2)))\<lparr>input_mode := ModeComposing\<rparr>"

lemma started_fields:
  "input_mode (started rid) = ModeNone" "input_language (started rid) = JapaneseInput"
  "(started rid)\<lparr>typo_corrections := []\<rparr> = started rid"
  "(clear_presentation (started rid))\<lparr>segment_surface_count := None, last_was_backspace := False\<rparr> =
     clear_presentation (started rid)"
  "(started rid)\<lparr>last_request_id := rid'\<rparr> = started rid'" "last_request_id (started rid) = rid"
  by (simp_all add: started_def new_session_state_def clear_presentation_def)

lemma key_n_simps:
  "normalize_input_event key_n (input_behavior sample_config) = key_n"
  "user_action (ev_action key_n) = Some ActInput" "valid_event_text key_n" "ev_surrounding key_n = None"
  "ev_text key_n = [0x6E]" "ev_input key_n = [0x6E]" "ev_intention key_n = []" "ev_option key_n = False"
  by code_simp+

lemma key_n_run:
  "handle_key sample_config key_n (w, started 2) =
     (case request_candidates sample_config (w, typed) of
        (run, Inl e) \<Rightarrow> (run, Inl e) | (run, Inr _) \<Rightarrow> (run, Inr (make_state (snd run) True [] False)))"
  by (simp add: handle_key_def handle_normalized_def handle_action_def handle_input_def handler_simps Let_def
      key_n_simps started_fields typed_def split: prod.split sum.split)

lemma typed_request:
  "case request_candidates sample_config (sample_world, typed) of
     (run, Inr _) \<Rightarrow> fst run = sample_world \<and> input_mode (snd run) = ModeComposing \<and>
        map cand_text (display_candidates (snd run)) = [[0x4E00], [0x6E]] \<and>
        surface (composing (conversion (snd run))) = [[0x6E]] \<and> last_request_id (snd run) = 2 \<and>
        live_candidate (snd run) = None
   | (run, Inl _) \<Rightarrow> False"
  by code_simp

lemma start_run:
  "handle [] (snd (request_envelope 1 sample_start)) (for_connection id sample_engine) =
     (put_session [0x73] (started 1) (for_connection id sample_engine),
      state_envelope 1 [0x73] (reset_response (started 1)))"
proof -
  have "start_conversion sample_config [] () = Inr new_session" "start_input_style sample_config
      \<lparr>st_input_style = 0, st_surrounding = None, st_keyboard_language = 0, st_custom_input_table = []\<rparr> = Some RomanToKana"
    "start_keyboard_language sample_config
      \<lparr>st_input_style = 0, st_surrounding = None, st_keyboard_language = 0, st_custom_input_table = []\<rparr> = Some Japanese"
    by code_simp+
  then show ?thesis
    by (simp add: handle_def request_envelope_def sample_start_def handle_start_def for_connection_def sample_engine_def
        surrounding_context_def started_def Let_def)
qed

definition sample_requests :: "(DictionaryEntry list \<times> Envelope) list" where
  "sample_requests = [request_envelope 1 sample_start, request_envelope 2 (KeyEventP key_n)]"

definition sample_run :: "(unit, unit, unit) Engine" where
  "sample_run = fst (serve sample_requests (for_connection id sample_engine))"

lemma sample_key_run:
  "\<exists>s. handle [] (snd (request_envelope 2 (KeyEventP key_n)))
         (fst (serve [request_envelope 1 sample_start] (for_connection id sample_engine))) =
         (sample_run, state_envelope 2 [0x73] (make_state s True [] False)) \<and>
       sessions sample_run [0x73] = Some s \<and> last_request_id s = 2 \<and> input_mode s = ModeComposing \<and> live_candidate s = None \<and>
       surface (composing (conversion s)) = [[0x6E]] \<and> map cand_text (display_candidates s) = [[0x4E00], [0x6E]]"
proof -
  let ?en = "put_session [0x73] (started 1) (for_connection id sample_engine)"
  have later: "\<not> (2 :: 64 word) \<le> 1" by (simp add: word_le_nat_alt)
  obtain run where r: "request_candidates sample_config (sample_world, typed) = (run, Inr ())"
    and f: "input_mode (snd run) = ModeComposing" "surface (composing (conversion (snd run))) = [[0x6E]]"
      "map cand_text (display_candidates (snd run)) = [[0x4E00], [0x6E]]"
      "last_request_id (snd run) = 2" "live_candidate (snd run) = None"
    using typed_request by (auto split: prod.splits sum.splits)
  have first: "fst (serve [request_envelope 1 sample_start] (for_connection id sample_engine)) = ?en"
    using start_run by (simp add: request_envelope_def case_prod_unfold)
  have key: "handle [] (snd (request_envelope 2 (KeyEventP key_n))) ?en =
      (put_session [0x73] (snd run) (?en\<lparr>world := fst run\<rparr>), state_envelope 2 [0x73] (make_state (snd run) True [] False))"
    using r key_n_run [of sample_world] later
    by (simp add: handle_def request_envelope_def handle_session_request_def put_session_def session_handler_def
        for_connection_def sample_engine_def started_fields key_n_simps finish_request_def sample_world_def Let_def split: prod.split)
  have run: "sample_run = put_session [0x73] (snd run) (?en\<lparr>world := fst run\<rparr>)"
    using start_run key
    by (simp add: sample_run_def sample_requests_def request_envelope_def case_prod_unfold)
  have "sessions sample_run [0x73] = Some (snd run)" unfolding run by (simp add: put_session_def)
  with f key show ?thesis unfolding first by (intro exI [of _ "snd run"]) (simp add: run)
qed

lemma sample_run_session:
  "\<exists>s. sessions sample_run [0x73] = Some s \<and> last_request_id s = 2 \<and> input_mode s = ModeComposing \<and> live_candidate s = None \<and>
       surface (composing (conversion s)) = [[0x6E]] \<and> map cand_text (display_candidates s) = [[0x4E00], [0x6E]]"
  using sample_key_run by metis

end
