(* ===== verification/Engine_Properties.thy ===== *)
theory Engine_Properties
  imports Engine_Sample
begin

text \<open>
  What the engine promises its clients: the invariants of every session of a connection, answers that
  match their requests and the session they leave behind, the order of requests, isolation of
  sessions, and recovery from failures.
\<close>

section \<open>Helpers on the dispatch\<close>

definition engine_ok :: "('m, 'z, 'c) Engine \<Rightarrow> bool" where
  "engine_ok en \<longleftrightarrow> (\<forall>sid s. sessions en sid = Some s \<longrightarrow> state_ok (config en) (last_request_id s) s)"

lemma engine_ok_iff: "engine_ok en \<longleftrightarrow> state.all_ok (config en) en"
  by (simp add: engine_ok_def state.all_ok_def)

lemma finish_request_simps:
  "config (fst (finish_request rid sid en h)) = config en"
  "sid' \<noteq> sid \<Longrightarrow> sessions (fst (finish_request rid sid en h)) sid' = sessions en sid'"
  by (auto simp: finish_request_def put_session_def split: prod.split sum.split)

lemma handle_start_simps:
  "config (fst (handle_start shortcuts rid sid start en)) = config en"
  "sid' \<noteq> sid \<Longrightarrow> sessions (fst (handle_start shortcuts rid sid start en)) sid' = sessions en sid'"
  by (auto simp: handle_start_def Let_def put_session_def split: option.split sum.split)

lemma session_request_simps:
  "config (fst (handle_session_request rid sid p en)) = config en"
  "sid' \<noteq> sid \<Longrightarrow> sessions (fst (handle_session_request rid sid p en)) sid' = sessions en sid'"
  by (cases p; auto simp: handle_session_request_def Let_def put_session_def remove_session_def finish_request_simps
      split: option.split prod.split sum.split)+

lemma handle_config [simp]: "config (fst (handle shortcuts e en)) = config en"
  by (auto simp: handle_def Let_def handle_start_simps session_request_simps split: option.split Payload.split)

lemma handle_isolated:
  "sid \<noteq> session_id e \<Longrightarrow> sessions (fst (handle shortcuts e en)) sid = sessions en sid"
  by (auto simp: handle_def Let_def handle_start_simps session_request_simps split: option.split Payload.split)

lemma serve_config [simp]: "config (fst (serve reqs en)) = config en"
proof (induction reqs arbitrary: en)
  case (Cons req reqs)
  then show ?case by (cases req) (simp add: case_prod_unfold)
qed simp

text \<open>The answer of every branch is written for the request.\<close>

definition answers_to :: "64 word \<Rightarrow> ustr \<Rightarrow> Envelope \<Rightarrow> bool" where
  "answers_to rid sid a \<longleftrightarrow>
     protocol_version a = 1 \<and> request_id a = rid \<and> session_id a = sid \<and>
     (case payload a of
        Some (StateResponseP _) \<Rightarrow> True | Some (TypoCorrectionResponseP _) \<Rightarrow> True
      | Some (ProtocolErrorP _ _) \<Rightarrow> True | _ \<Rightarrow> False)"

lemma answers_to_simps [simp]:
  "answers_to rid sid (state_envelope rid sid r)" "answers_to rid sid (error_envelope rid sid c m)"
  "answers_to rid sid (typo_correction_envelope rid sid cs)"
  by (simp_all add: answers_to_def state_envelope_def error_envelope_def typo_correction_envelope_def answer_def)

lemma finish_request_answers: "answers_to rid sid (snd (finish_request rid sid en h))"
  by (simp add: finish_request_def split: prod.split sum.split)

lemma session_request_answers: "answers_to rid sid (snd (handle_session_request rid sid p en))"
  by (cases p) (auto simp: handle_session_request_def Let_def finish_request_answers
      split: option.split prod.split sum.split)

lemma handle_answers: "answers_to (request_id e) (session_id e) (snd (handle shortcuts e en))"
  by (auto simp: handle_def Let_def session_request_answers handle_start_def
      split: option.split Payload.split sum.split)

section \<open>Invariants of a connection\<close>

lemma connection_state_ok:
  assumes "sessions (fst (serve reqs (for_connection fresh en))) sid = Some s"
  shows "state_ok (config en) (last_request_id s) s"
  by (rule state.connection_ok [OF refl assms])

text \<open>
  C4. In every session of every connection, whatever was requested and whatever the models and the
  learning memory answered: the three candidate lists have the same length, so no annotation or
  remainder belongs to another candidate; outside a composition there is neither text nor candidate;
  while the user selects, the selected index is the first or that of a candidate; at most five
  representations have been revealed in front of the list, all within it; and the Unicode input
  contains only lower-case hexadecimal digits, and nothing outside its mode.
\<close>

theorem sessions_presentable:
  assumes "sessions (fst (serve reqs (for_connection fresh en))) sid = Some s"
  shows "length (candidate_remainders s) = length (display_candidates s) \<and>
    length (candidate_annotations s) = length (display_candidates s) \<and>
    (input_mode s = ModeNone \<or> input_mode s = ModeUnicode \<longrightarrow>
       display_candidates s = [] \<and> surface (composing (conversion s)) = []) \<and>
    (input_mode s = ModeSelecting \<longrightarrow>
       selected_candidate s = 0 \<or> selected_candidate s < length (display_candidates s)) \<and>
    additional_candidate_count s \<le> min 5 (length (display_candidates s)) \<and>
    list_all is_lower_hex (unicode_input s) \<and> (input_mode s \<noteq> ModeUnicode \<longrightarrow> unicode_input s = [])"
proof -
  have "presentable s" "selection_ok s"
    using connection_state_ok [OF assms] by (simp_all add: state_ok_def state_parts_def)
  then show ?thesis unfolding presentable_def selection_ok_def idle.simps min.bounded_iff by blast
qed

theorem sessions_presentable_witness:
  "\<exists>s. sessions sample_run [0x73] = Some s \<and> length (display_candidates s) = 2 \<and>
     length (candidate_remainders s) = 2 \<and> length (candidate_annotations s) = 2"
proof -
  obtain s where s: "sessions sample_run [0x73] = Some s" "map cand_text (display_candidates s) = [[0x4E00], [0x6E]]"
    using sample_run_session by (elim exE conjE) (rule that)
  from arg_cong [OF s(2), of length] have "length (display_candidates s) = 2" by simp
  with sessions_presentable [OF s(1) [unfolded sample_run_def]] s(1) show ?thesis by auto
qed



section \<open>Requests and answers\<close>

text \<open>
  Whatever a client sends, in whatever state, it gets exactly one answer, which carries the
  protocol version, the identifier of its request and its session, and is a state, typo corrections or
  an error: the client can match answers to requests.
\<close>

theorem every_request_answered:
  "length (snd (serve reqs en)) = length reqs \<and>
   list_all2 (\<lambda>req a. answers_to (request_id (snd req)) (session_id (snd req)) a) reqs (snd (serve reqs en))"
proof (induction reqs arbitrary: en)
  case (Cons req reqs)
  obtain shortcuts e where req: "req = (shortcuts, e)" by force
  show ?case using Cons handle_answers [of e shortcuts en] by (simp add: req case_prod_unfold)
qed simp

text \<open>
  A request can change only its own session, and only if its identifier is greater than the last
  one of that session; then the session has taken that identifier. Everything else of what the engine
  keeps per session is left as it is.
\<close>

lemma late_request:
  assumes "sessions en (session_id e) = Some s" and "request_id e \<le> last_request_id s"
  shows "fst (handle shortcuts e en) = en"
  using assms by (auto simp: handle_def Let_def handle_start_def handle_session_request_def split: option.split Payload.split)

lemma newer_request:
  assumes "engine_ok en" and "sessions en sid = Some s" and "sessions (fst (handle shortcuts e en)) sid = Some s'"
  shows "s' = s \<or> sid = session_id e \<and> last_request_id s < request_id e \<and> last_request_id s' = request_id e"
proof (cases "sid = session_id e \<and> last_request_id s < request_id e")
  case False
  then have "s' = s" using late_request [of en e s shortcuts] handle_isolated [of sid e shortcuts en] assms(2,3)
    by (cases "sid = session_id e") (auto simp: not_less)
  then show ?thesis ..
next
  case True
  then have late: "\<not> request_id e \<le> last_request_id s" and sid: "sid = session_id e" by auto
  note ok = assms(1) [unfolded engine_ok_iff]
  have "sessions en sid = Some s' \<or> state_ok (config en) (request_id e) s'"
    using assms(2,3) state.start_own [OF ok, of _ "request_id e" sid _ s']
      state.session_request_own [OF ok assms(2) late, of _ s']
    by (auto simp: handle_def Let_def sid split: option.splits Payload.splits)
  with assms(2) state.ids [of "config en" "request_id e" s'] True show ?thesis by auto
qed

lemma serve_engine_ok: "engine_ok (fst (serve reqs (for_connection fresh en)))"
  using connection_state_ok by (auto simp: engine_ok_def for_connection_def)



text \<open>
  A request takes effect at most once: once a session carries the identifier of a request, sending
  the same envelope again changes nothing at all, however many other requests were served in between,
  as long as none of them ended or replaced the session.
\<close>

lemma serve_ids_grow:
  assumes "engine_ok en" and "sessions en sid = Some s"
    and "\<forall>(shortcuts, e) \<in> set reqs. session_id e = sid \<longrightarrow> payload e \<noteq> Some EndSessionP"
  shows "engine_ok (fst (serve reqs en)) \<and>
    (\<exists>s'. sessions (fst (serve reqs en)) sid = Some s' \<and> last_request_id s \<le> last_request_id s')"
  using assms
proof (induction reqs arbitrary: en s)
  case (Cons req reqs)
  obtain shortcuts e where req: "req = (shortcuts, e)" by force
  let ?en = "fst (handle shortcuts e en)"
  have ok: "engine_ok ?en"
    using state.handle_ok [of "config en" en shortcuts e] Cons.prems(1) by (simp add: engine_ok_iff)
  have "sessions ?en sid \<noteq> None"
  proof (cases "session_id e = sid")
    case False
    then show ?thesis using handle_isolated [of sid e shortcuts en] Cons.prems(2) by auto
  next
    case True
    with Cons.prems(3) have "payload e \<noteq> Some EndSessionP" by (auto simp: req)
    with Cons.prems(2) True show ?thesis
      by (auto simp: handle_def Let_def handle_start_def handle_session_request_def put_session_def finish_request_def
          split: option.split Payload.split prod.split sum.split)
  qed
  then obtain t where t: "sessions ?en sid = Some t" by auto
  have grow: "last_request_id s \<le> last_request_id t"
    using newer_request [OF Cons.prems(1,2) t] by auto
  have "\<forall>(shortcuts, e) \<in> set reqs. session_id e = sid \<longrightarrow> payload e \<noteq> Some EndSessionP"
    using Cons.prems(3) by simp
  from Cons.IH [OF ok t this] grow show ?case by (auto simp: req case_prod_unfold intro: order_trans)
qed auto

theorem replay_has_no_effect:
  assumes "sessions (fst (serve (before @ [(shortcuts, e)]) (for_connection fresh en))) (session_id e) = Some s"
    and "last_request_id s = request_id e"
    and "\<forall>(shortcuts, e') \<in> set between. session_id e' = session_id e \<longrightarrow> payload e' \<noteq> Some EndSessionP"
  shows "fst (serve (before @ [(shortcuts, e)] @ between @ [(shortcuts', e)]) (for_connection fresh en)) =
         fst (serve (before @ [(shortcuts, e)] @ between) (for_connection fresh en))"
proof -
  let ?en = "fst (serve (before @ [(shortcuts, e)]) (for_connection fresh en))"
  obtain s' where s': "sessions (fst (serve between ?en)) (session_id e) = Some s'" "last_request_id s \<le> last_request_id s'"
    using serve_ids_grow [OF serve_engine_ok assms(1,3)] by blast
  have b: "fst (serve (before @ [(shortcuts, e)] @ between) (for_connection fresh en)) = fst (serve between ?en)"
    by (simp add: serve_append case_prod_unfold)
  have "fst (serve (before @ [(shortcuts, e)] @ between @ [(shortcuts', e)]) (for_connection fresh en)) =
      fst (handle shortcuts' e (fst (serve between ?en)))"
    by (simp add: serve_append case_prod_unfold)
  also have "\<dots> = fst (serve between ?en)" using s' assms(2) by (intro late_request [of _ _ s']) auto
  finally show ?thesis using b by simp
qed

theorem replay_has_no_effect_witness:
  "fst (serve (sample_requests @ [request_envelope 1 ResetSessionP] @ [request_envelope 2 (KeyEventP key_n)])
        (for_connection id sample_engine)) =
   fst (serve (sample_requests @ [request_envelope 1 ResetSessionP]) (for_connection id sample_engine))"
proof -
  obtain s where s: "sessions sample_run [0x73] = Some s" "last_request_id s = 2"
    using sample_run_session by (elim exE conjE) (rule that)
  let ?e = "snd (request_envelope 2 (KeyEventP key_n))"
  have e: "request_envelope 2 (KeyEventP key_n) = ([], ?e)" "session_id ?e = [0x73]" "request_id ?e = 2"
    by (simp_all add: request_envelope_def)
  have "sessions (fst (serve ([request_envelope 1 sample_start] @ [([], ?e)]) (for_connection id sample_engine)))
      (session_id ?e) = Some s"
    using s(1) e by (simp add: sample_run_def sample_requests_def)
  from replay_has_no_effect [OF this, of "[request_envelope 1 ResetSessionP]" "[]"] s(2) e
  show ?thesis by (simp add: sample_requests_def request_envelope_def)
qed

end
