(* ===== verification/Engine_Answers.thy ===== *)
theory Engine_Answers
  imports Engine_Properties
begin

text \<open>
  What the answers of the engine tell the client: the session they leave behind, the text a selection
  commits, the state after a failure, and the character a Unicode input commits.
\<close>

section \<open>Answers display the session\<close>

lemma finish_displays:
  assumes "state_ok (config en) rid s"
    and "finish_request rid sid en (session_handler (config en) p (world en, s)) = (en', a)"
    and "payload a = Some (StateResponseP r)" and "sessions en' sid = Some s'"
  shows "displays r s'"
proof -
  obtain w' t x where h: "session_handler (config en) p (world en, s) = ((w', t), x)" by (metis surj_pair)
  have "wp (session_handler (config en) p) (answered (config en) rid) (recoverable (config en) rid) (world en, s)"
    by (rule answers_wp [OF session_handler_ok [OF assms(1)]])
  with h assms(2-4) show ?thesis
    by (cases x) (auto simp: wp_def answered_def finish_request_def put_session_def state_envelope_def error_envelope_def
        answer_def split: prod.splits)
qed

lemma new_state_displays: "displays (reset_response (new_session_state cfg rid conv style sur language))
    (new_session_state cfg rid conv style sur language)"
  using displays_reset_response [of "new_session_state cfg rid conv style sur language" False "[]" True]
  by (simp add: new_session_state_def displays_def reset_response_def default_response_def)

lemma bumped: "state_ok cfg rid s \<Longrightarrow> state_ok cfg rid' (s\<lparr>last_request_id := rid'\<rparr>)"
  by (rule state.bump)

lemma session_request_displays:
  assumes "engine_ok en" and "handle_session_request rid sid p en = (en', a)"
    and "payload a = Some (StateResponseP r)" and "sessions en' sid = Some s'"
  shows "displays r s'"
proof (cases "sessions en sid")
  case None
  with assms(2,3) show ?thesis by (auto simp: handle_session_request_def error_envelope_def answer_def)
next
  case (Some s)
  let ?s = "s\<lparr>last_request_id := rid\<rparr>"
  have ok: "state_ok (config en) rid ?s" using assms(1) Some by (auto simp: engine_ok_def intro: bumped)
  have "\<exists>p. finish_request rid sid en (session_handler (config en) p (world en, ?s)) = (en', a)"
    using assms(2-4) Some
    by (cases p) (auto simp: handle_session_request_def Let_def error_envelope_def typo_correction_envelope_def answer_def
        remove_session_def split: if_splits prod.splits sum.splits)
  with finish_displays [OF ok _ assms(3,4)] show ?thesis by blast
qed



section \<open>Selecting what is shown\<close>

lemma sent_candidates_map:
  "sent_candidates s =
     map (\<lambda>i. candidate_to_protocol i (display_candidates s ! i)
            (if i < length (candidate_annotations s) then candidate_annotations s ! i else []))
       (filter (\<lambda>i. i < length (display_candidates s)) (candidate_indices s))"
  by (simp add: sent_candidates_def map_filter_def comp_def cong: map_cong)

lemma candidate_indices_set:
  "distinct (candidate_indices s) \<and>
   set (filter (\<lambda>i. i < length (display_candidates s)) (candidate_indices s)) = {..<length (display_candidates s)}"
  by (cases "preview_candidate_index s") (auto simp: candidate_indices_def Let_def)

text \<open>
  C8. The candidates a client is sent are exactly the ones the session displays, each once: their
  indices are all the positions of the list, and the text, the value and the annotation sent under an
  index are those at that position, whichever of them is moved to the front for the preview.
\<close>

theorem sent_candidates_exact:
  assumes "length (display_candidates s) \<le> u32_max"
  shows "distinct (map pc_index (sent_candidates s)) \<and>
    set (map pc_index (sent_candidates s)) = {..<length (display_candidates s)} \<and>
    (\<forall>pc \<in> set (sent_candidates s).
       pc_text pc = cand_text (display_candidates s ! pc_index pc) \<and>
       pc_value pc = cand_value (display_candidates s ! pc_index pc) \<and>
       (pc_index pc < length (candidate_annotations s) \<longrightarrow>
          pc_annotation pc = candidate_annotations s ! pc_index pc))"
proof -
  let ?is = "filter (\<lambda>i. i < length (display_candidates s)) (candidate_indices s)"
  have small: "\<forall>i \<in> set ?is. min i u32_max = i" using assms by auto
  then have index: "map pc_index (sent_candidates s) = ?is"
    using map_idI [of ?is "\<lambda>i. min i u32_max"]
    by (simp add: sent_candidates_map candidate_to_protocol_def comp_def)
  show ?thesis
    unfolding index using candidate_indices_set [of s] small
    by (auto simp: sent_candidates_map candidate_to_protocol_def)
qed

theorem sent_candidates_exact_witness:
  "\<exists>s. sessions sample_run [0x73] = Some s \<and> set (map pc_index (sent_candidates s)) = {..<2}"
proof -
  obtain s where s: "sessions sample_run [0x73] = Some s" "map cand_text (display_candidates s) = [[0x4E00], [0x6E]]"
    using sample_run_session by (elim exE conjE) (rule that)
  from arg_cong [OF s(2), of length] have n: "length (display_candidates s) = 2" by simp
  then have "length (display_candidates s) \<le> u32_max" by (simp add: u32_max_def)
  from sent_candidates_exact [OF this] n s(1) show ?thesis by auto
qed

lemma select_commits:
  assumes "state_ok cfg rid s" and "i < length (display_candidates s)"
  shows "wp (session_handler cfg (SelectCandidateP i)) (\<lambda>r _. commit r = cand_text (display_candidates s ! i)) (\<lambda>_. True) (w, s)"
proof -
  let ?s = "s\<lparr>typo_corrections := []\<rparr>"
  have parts: "state_parts cfg rid ?s" and busy: "\<not> idle (input_mode ?s)"
    using assms shown_busy [OF ok_parts [OF assms(1)]] by auto
  have "wp (commit_candidate cfg (display_candidates s ! i) ModePreviewing)
      (\<lambda>r _. commit r = cand_text (display_candidates s ! i)) (\<lambda>_. True) (w, ?s)"
    by (rule wp_commit [OF parts busy]) simp_all
  with assms(2) show ?thesis by (simp add: session_handler_def select_candidate_def select_with_remainder_mode_def)
qed



section \<open>Failures\<close>

text \<open>
  C10. A request that fails after it was accepted leaves a clean session behind, in any state of the
  engine: no text and no open segment request, no candidates, no corrections, no cached inference, and
  the mode of the start. (Ending a session and an invalid page are the requests that fail without a
  reset.)
\<close>

theorem failure_resets_session:
  assumes "sessions en (session_id e) = Some s" and "last_request_id s < request_id e"
    and "payload e = Some p"
    and "p \<in> {ResetSessionP, CommitCompositionP, ResetLearningP, RequestTypoCorrectionsP} \<union> range KeyEventP \<union>
             range SelectCandidateP \<union> range SelectTypoCorrectionP \<union> range ForgetCandidateP"
    and "handle shortcuts e en = (en', a)" and "payload a = Some (ProtocolErrorP code message)"
  shows "\<exists>s'. sessions en' (session_id e) = Some s' \<and> composing (conversion s') = new_composing \<and>
    input_mode s' = ModeNone \<and> display_candidates s' = [] \<and> candidates (conversion s') = [] \<and>
    segment_surface_count s' = None \<and> typo_corrections s' = [] \<and> backspace_correction s' = None \<and>
    zenz_cache s' = es_empty_cache (services (config en))"
proof -
  let ?s = "s\<lparr>last_request_id := request_id e\<rparr>"
  have late: "\<not> request_id e \<le> last_request_id s" using assms(2) by simp
  have "\<exists>t w. en' = put_session (session_id e) (reset_of (config en) t) (en\<lparr>world := w\<rparr>)"
  proof (cases "p = RequestTypoCorrectionsP")
    case True
    with assms(1,3,5,6) late show ?thesis
      by (auto simp: handle_def handle_session_request_def Let_def typo_correction_envelope_def answer_def
          split: prod.splits sum.splits)
  next
    case False
    then have "finish_request (request_id e) (session_id e) en (session_handler (config en) p (world en, ?s)) = (en', a)"
      using assms(1,3-5) late by (auto simp: handle_def handle_session_request_def Let_def)
    with assms(6) show ?thesis
      by (auto simp: finish_request_def state_envelope_def answer_def split: prod.splits sum.splits)
  qed
  then show ?thesis by (auto simp: put_session_def session_reset_def stop_composing_def)
qed

theorem failure_resets_session_witness:
  "\<exists>en' a s'. handle [] (snd (request_envelope 3 (SelectCandidateP 7))) sample_run = (en', a) \<and>
     payload a = Some (ProtocolErrorP InvalidPayload (outside_message ''candidate index '' 7)) \<and>
     sessions en' [0x73] = Some s' \<and> composing (conversion s') = new_composing \<and> input_mode s' = ModeNone"
proof -
  obtain s where s: "sessions sample_run [0x73] = Some s" "last_request_id s = 2"
      "map cand_text (display_candidates s) = [[0x4E00], [0x6E]]"
    using sample_run_session by (elim exE conjE) (rule that)
  from arg_cong [OF s(3), of length] have n: "length (display_candidates s) = 2" by simp
  let ?e = "snd (request_envelope 3 (SelectCandidateP 7))"
  obtain en' a where h: "handle [] ?e sample_run = (en', a)" by force
  have late: "\<not> (3 :: 64 word) \<le> 2" by (simp add: word_le_nat_alt)
  then have a: "payload a = Some (ProtocolErrorP InvalidPayload (outside_message ''candidate index '' 7))"
    using h s n
    by (auto simp: request_envelope_def handle_def handle_session_request_def session_handler_def select_candidate_def
        select_with_remainder_mode_def handler_simps finish_request_def error_envelope_def answer_def Let_def)
  have "sessions sample_run (session_id ?e) = Some s" "last_request_id s < request_id ?e"
    "payload ?e = Some (SelectCandidateP 7)"
    using s by (simp_all add: request_envelope_def word_less_nat_alt)
  from failure_resets_session [OF this _ h a] obtain s' where
    "sessions en' (session_id ?e) = Some s'" "composing (conversion s') = new_composing" "input_mode s' = ModeNone"
    by auto
  with h a show ?thesis by (auto simp: request_envelope_def)
qed

end
