(* ===== verification/Engine_Input.thy ===== *)
theory Engine_Input
  imports Engine_Answers "HOL-Library.Sublist"
begin

text \<open>
  Behaviour over several keys: a Unicode input commits the character whose number was typed, and
  Backspace ends every composition; and the surrounding text the engine keeps as context.
\<close>

section \<open>Unicode input\<close>

text \<open>A number as \<open>k\<close> lower-case hexadecimal digits.\<close>

definition hex_digit :: "int \<Rightarrow> uchar" where
  "hex_digit d = (if d < 10 then 0x30 + d else 0x57 + d)"

fun hex_text :: "nat \<Rightarrow> int \<Rightarrow> ustr" where
  "hex_text 0 n = []"
| "hex_text (Suc k) n = hex_text k (n div 16) @ [hex_digit (n mod 16)]"

lemma hex_digit_value: "0 \<le> d \<Longrightarrow> d < 16 \<Longrightarrow> hex_value (hex_digit d) = d \<and> is_ascii_hexdigit (hex_digit d)"
  by (auto simp: hex_digit_def hex_value_def is_ascii_hexdigit_def)

lemma hex_text_digits: "list_all is_ascii_hexdigit (hex_text k n)"
  by (induction k arbitrary: n) (simp_all add: hex_digit_value)

lemma hex_text_number: "0 \<le> n \<Longrightarrow> n < 16 ^ k \<Longrightarrow> hex_number (hex_text k n) = n"
proof (induction k arbitrary: n)
  case (Suc k)
  have "hex_number (hex_text k (n div 16)) = n div 16" using Suc by (intro Suc.IH) auto
  then show ?case by (simp add: hex_number_def hex_digit_value)
qed (simp add: hex_number_def)

lemma parse_hex_text:
  assumes "0 \<le> n" and "n < 16 ^ k" and "n < 2 ^ 32" and "0 < k"
  shows "parse_hex (hex_text k n) = Some n"
proof -
  have "hex_text k n \<noteq> []" using assms(4) by (cases k) auto
  then show ?thesis using assms hex_text_digits hex_text_number by (simp add: parse_hex_def)
qed

text \<open>Keys pressed one after the other.\<close>

definition press :: "('m, 'z, 'c) EngineConfig \<Rightarrow> KeyEvent list \<Rightarrow> ('m, 'z, 'c) Run \<Rightarrow> ('m, 'z, 'c) Run" where
  "press cfg es run = foldl (\<lambda>run e. fst (handle_key cfg e run)) run es"

lemma normalized_input: "ev_input (normalize_input_event e b) = ev_input e"
  by (simp add: normalize_input_event_def Let_def split: option.split)

lemma unicode_key:
  assumes "input_mode s = ModeUnicode"
  shows "handle_key cfg e (w, s) =
    handle_unicode_input cfg (case user_action (ev_action e) of Some a \<Rightarrow> a | None \<Rightarrow> ActUnspecified)
      (normalize_input_event e (input_behavior cfg)) (w, s\<lparr>typo_corrections := []\<rparr>)"
  using assms by (simp add: handle_key_def handle_normalized_def handler_simps Let_def)

definition typed_digits :: "KeyEvent list \<Rightarrow> ustr" where
  "typed_digits es = filter is_ascii_hexdigit (to_ascii_lowercase (concat (map ev_input es)))"

lemma press_unicode:
  assumes "input_mode s = ModeUnicode" and "\<forall>e \<in> set es. user_action (ev_action e) = Some ActInput"
  shows "\<exists>s'. press cfg es (w, s) = (w, s') \<and> input_mode s' = ModeUnicode \<and>
           unicode_input s' = unicode_input s @ typed_digits es"
  using assms
proof (induction es arbitrary: s)
  case (Cons e es)
  let ?s = "s\<lparr>typo_corrections := [], unicode_input := unicode_input s @
               filter is_ascii_hexdigit (to_ascii_lowercase (ev_input e))\<rparr>"
  have e: "fst (handle_key cfg e (w, s)) = (w, ?s)"
    using Cons.prems by (simp add: unicode_key handle_unicode_input_def handler_simps normalized_input)
  have "typed_digits (e # es) = filter is_ascii_hexdigit (to_ascii_lowercase (ev_input e)) @ typed_digits es"
    by (simp add: typed_digits_def to_ascii_lowercase_def)
  with Cons.IH [of ?s] Cons.prems e show ?case by (simp add: press_def)
qed (simp add: press_def typed_digits_def to_ascii_lowercase_def)

text \<open>
  C11. The Unicode input commits the character it names. After any keys whose hexadecimal digits, in
  upper or lower case and with anything else between them, are the number of a scalar value, Enter or
  Space commits exactly that character, resets the session and leaves the Unicode input.
\<close>

theorem unicode_input_commits:
  assumes "input_mode s = ModeUnicode" and "unicode_input s = []"
    and "\<forall>e \<in> set es. user_action (ev_action e) = Some ActInput"
    and "is_scalar c" and "c < 16 ^ k" and "0 < k" and "typed_digits es = hex_text k c"
    and "user_action (ev_action confirm) = Some ActEnter \<or> user_action (ev_action confirm) = Some ActSpace"
  shows "\<exists>r s'. handle_key cfg confirm (press cfg es (w, s)) = ((w, s'), Inr r) \<and> commit r = [c] \<and>
    consumed r \<and> rs_reset r \<and> rs_input_state r = StateNone \<and> input_mode s' = ModeNone \<and> unicode_input s' = []"
proof -
  obtain t where t: "press cfg es (w, s) = (w, t)" "input_mode t = ModeUnicode" "unicode_input t = hex_text k c"
    using press_unicode [OF assms(1,3)] assms(2,7) by auto
  have "0 \<le> c" "c < 2 ^ 32" using assms(4) by (auto simp: is_scalar_def)
  then have "parse_hex (unicode_input t) = Some c" using parse_hex_text assms(5,6) t(3) by simp
  then show ?thesis
    using assms(8,4) t
    by (auto simp: unicode_key handle_unicode_input_def handler_simps make_state_def char_from_u32_def)
qed

text \<open>The key 3, the key 0, the key 4 with an accent in front, and the key 2: HIRAGANA LETTER A.\<close>

definition digit_key :: "ustr \<Rightarrow> KeyEvent" where
  "digit_key t = key_n\<lparr>ev_text := t, ev_input := t\<rparr>"

theorem unicode_input_commits_witness:
  "\<exists>r s'. handle_key sample_config (key_n\<lparr>ev_action := 4\<rparr>)
     (press sample_config [digit_key [0x33], digit_key [0x30], digit_key [0x60, 0x34], digit_key [0x32]]
        (sample_world, (started 1)\<lparr>input_mode := ModeUnicode\<rparr>)) = ((sample_world, s'), Inr r) \<and>
     commit r = [0x3042] \<and> input_mode s' = ModeNone"
proof -
  have "user_action 4 = Some ActEnter" by code_simp
  moreover have "typed_digits [digit_key [0x33], digit_key [0x30], digit_key [0x60, 0x34], digit_key [0x32]] = hex_text 4 0x3042"
    "\<forall>e \<in> set [digit_key [0x33], digit_key [0x30], digit_key [0x60, 0x34], digit_key [0x32]].
       user_action (ev_action e) = Some ActInput" "is_scalar 0x3042" by code_simp+
  moreover have "unicode_input ((started 1)\<lparr>input_mode := ModeUnicode\<rparr>) = []"
    by (simp add: started_def new_session_state_def)
  ultimately show ?thesis
    using unicode_input_commits [of "(started 1)\<lparr>input_mode := ModeUnicode\<rparr>"
      "[digit_key [0x33], digit_key [0x30], digit_key [0x60, 0x34], digit_key [0x32]]" "0x3042" 4
      "key_n\<lparr>ev_action := 4\<rparr>" sample_config sample_world] by auto
qed

section \<open>Backspace ends a composition\<close>

lemma wp_request_keeps_text:
  assumes "segment_surface_count s = None"
    and "\<And>w' s'. composing (conversion s') = composing (conversion s) \<Longrightarrow> Q () (w', s')" and "\<And>s'. E s'"
  shows "wp (request_with_context cfg rich lc) Q E (w, s)"
proof -
  define t where "t = (if last_was_backspace s then s else s\<lparr>backspace_correction := None\<rparr>)"
  have t: "composing (conversion t) = composing (conversion s)" by (simp add: t_def)
  have "request_with_context cfg rich lc (w, s) = request_for_active_target cfg rich lc (w, t)"
    using assms(1) by (simp add: request_with_context_def t_def)
  then have "wp (request_with_context cfg rich lc) Q E (w, s) = wp (request_for_active_target cfg rich lc) Q E (w, t)"
    by (simp add: wp_def)
  moreover have "wp (request_for_active_target cfg rich lc) Q E (w, t)"
    by (rule wp_mono [OF wp_for_active_target]) (use assms(2,3) t in \<open>auto simp: keeps_fields\<close>)
  ultimately show ?thesis by simp
qed

lemma moved_to_end:
  assumes "cursor c \<le> length (surface c)"
  shows "cursor (fst (move_cursor (int (length (surface c) - cursor c)) c)) = length (surface c)"
    and "surface (fst (move_cursor (int (length (surface c) - cursor c)) c)) = surface c"
  using assms by (simp_all add: move_cursor_def Let_def clamp_def)

lemma backspaced_surface:
  assumes "supported cfg" and "state_parts cfg rid s" and "\<not> idle (input_mode s)"
  shows "surface (composing (session_delete_backward (tables cfg) 1 (conversion
           (move_text_cursor (int (length (surface (composing (conversion s))) - cursor (composing (conversion s)))) s)))) =
         butlast (surface (composing (conversion s)))"
proof -
  let ?c = "composing (conversion s)"
  let ?m = "fst (move_cursor (int (length (surface ?c) - cursor ?c)) ?c)"
  have ok: "composing_ok (tables cfg) ?c" and r: "registry_ok (tables cfg)"
    using parts_text [OF assms(2,1)] assms(1) by (auto simp: session_ok_def text_ok_def supported_def productive_def)
  note m = moved_to_end [OF composing_ok_cursor [OF ok]]
  have "composing_ok (tables cfg) ?m" using move_cursor_ok(1) [OF ok] .
  from delete_backward_surface(1) [OF r this, of 1] m show ?thesis
    by (simp add: move_text_cursor_def butlast_conv_take)
qed

lemma renew_correction_text [simp]: "conversion (renew_correction cfg s) = conversion s"
  by (simp add: renew_correction_def split: option.split prod.split)

lemma handle_backspace_text:
  assumes sup: "supported cfg" and parts: "state_parts cfg rid s" and busy: "\<not> idle (input_mode s)"
  shows "wp (handle_backspace cfg) (\<lambda>_ run. length (surface (composing (conversion (snd run)))) \<le>
           length (surface (composing (conversion s))) - 1) (\<lambda>_. True) (w, s)"
proof -
  let ?k = "int (length (surface (composing (conversion s))) - cursor (composing (conversion s)))"
  let ?d = "(move_text_cursor ?k s)\<lparr>conversion := session_delete_backward (tables cfg) 1 (conversion (move_text_cursor ?k s)),
               segment_surface_count := None, last_was_backspace := True\<rparr>"
  have d: "surface (composing (conversion ?d)) = butlast (surface (composing (conversion s)))"
    using backspaced_surface [OF assms] by simp
  have no_typo: "\<not> lm_typo_enabled cfg" using sup by (simp add: supported_def)
  show ?thesis
  proof (cases "is_empty_composing (composing (conversion ?d))")
    case True
    then show ?thesis by (simp add: handle_backspace_def Let_def session_reset_def stop_composing_def)
  next
    case False
    show ?thesis
      unfolding handle_backspace_def request_candidates_def wp_and_then wp_update wp_inspect Let_def fst_conv snd_conv
      by (subst if_not_P [OF False], unfold wp_and_then wp_update fst_conv snd_conv, rule wp_request_keeps_text)
         (use d no_typo in simp_all)
  qed
qed

lemma backspace_key_text:
  assumes sup: "supported cfg" and ok: "state_ok cfg rid s" and act: "user_action (ev_action k) = Some ActBackspace"
  shows "wp (handle_key cfg k) (\<lambda>_ run. length (surface (composing (conversion (snd run)))) \<le>
           length (surface (composing (conversion s))) - 1) (\<lambda>_. True) (w, s)"
proof -
  let ?s = "s\<lparr>typo_corrections := []\<rparr>"
  have parts: "state_parts cfg rid ?s" using ok by auto
  have plain: "normalize_input_event k b = k" for b using act by (simp add: normalize_input_event_def)
  show ?thesis
  proof (cases "is_empty_composing (composing (conversion s))")
    case True
    then show ?thesis
      using act plain
      by (auto simp: handle_key_def handle_normalized_def handle_action_def handle_unicode_input_def Let_def
          is_empty_composing_def session_reset_def stop_composing_def)
  next
    case False
    then have busy: "\<not> idle (input_mode ?s)" using idle_text [OF parts] by (auto simp: is_empty_composing_def)
    from handle_backspace_text [OF sup parts this] False act plain busy show ?thesis
      by (simp add: handle_key_def handle_normalized_def handle_action_def Let_def)
  qed
qed

lemma backspace_request_text:
  assumes sup: "supported (config en)" and ok: "engine_ok en" and s: "sessions en (session_id e) = Some s"
    and late: "last_request_id s < request_id e"
    and k: "payload e = Some (KeyEventP k)" "user_action (ev_action k) = Some ActBackspace" "ev_surrounding k = None"
  shows "\<exists>s'. sessions (fst (handle shortcuts e en)) (session_id e) = Some s' \<and> last_request_id s' = request_id e \<and>
    length (surface (composing (conversion s'))) \<le> length (surface (composing (conversion s))) - 1"
proof -
  let ?s = "s\<lparr>last_request_id := request_id e\<rparr>"
  have st: "state_ok (config en) (request_id e) ?s" using ok s by (auto simp: engine_ok_def intro: bumped)
  obtain w' t x where h: "handle_key (config en) k (world en, ?s) = ((w', t), x)" by (metis surj_pair)
  have fin: "fst (handle shortcuts e en) = fst (finish_request (request_id e) (session_id e) en ((w', t), x))"
    using s late k h by (auto simp: handle_def handle_session_request_def session_handler_def Let_def)
  have bound: "x = Inr r \<Longrightarrow> length (surface (composing (conversion t))) \<le> length (surface (composing (conversion s))) - 1" for r
    using backspace_key_text [OF sup st k(2), of "world en"] h by (simp add: wp_def)
  obtain s' where s': "sessions (fst (handle shortcuts e en)) (session_id e) = Some s'"
    and len: "length (surface (composing (conversion s'))) \<le> length (surface (composing (conversion s))) - 1"
    using bound by (cases x) (auto simp: fin finish_request_def put_session_def session_reset_def stop_composing_def
        split: prod.splits)
  have "state_ok (config en) (request_id e) s'"
    using s' k late by (intro state.session_request_own [OF ok [unfolded engine_ok_iff] s]) (auto simp: handle_def)
  then have "last_request_id s' = request_id e" by (rule state.ids)
  with s' len show ?thesis by blast
qed

definition backspace_request :: "ustr \<Rightarrow> Envelope \<Rightarrow> bool" where
  "backspace_request sid e \<longleftrightarrow>
     session_id e = sid \<and>
     (case payload e of
        Some (KeyEventP k) \<Rightarrow> user_action (ev_action k) = Some ActBackspace \<and> ev_surrounding k = None
      | _ \<Rightarrow> False)"

lemma backspaces_text:
  assumes "supported (config en)" and "engine_ok en" and "sessions en sid = Some s"
    and "\<forall>(shortcuts, e) \<in> set presses. backspace_request sid e"
    and "sorted_wrt (<) (last_request_id s # map (\<lambda>(shortcuts, e). request_id e) presses)"
  shows "engine_ok (fst (serve presses en)) \<and> (\<exists>s'. sessions (fst (serve presses en)) sid = Some s' \<and>
    length (surface (composing (conversion s'))) \<le> length (surface (composing (conversion s))) - length presses)"
  using assms
proof (induction presses arbitrary: en s)
  case (Cons req presses)
  obtain shortcuts e where req: "req = (shortcuts, e)" by force
  let ?en = "fst (handle shortcuts e en)"
  have sid: "session_id e = sid" and press: "backspace_request sid e"
    using Cons.prems(4) by (auto simp: req backspace_request_def)
  obtain k where k: "payload e = Some (KeyEventP k)" "user_action (ev_action k) = Some ActBackspace" "ev_surrounding k = None"
    using press by (auto simp: backspace_request_def split: option.splits Payload.splits)
  have "last_request_id s < request_id e" using Cons.prems(5) by (simp add: req)
  from backspace_request_text [OF Cons.prems(1,2) _ this k] Cons.prems(3) sid
  obtain t where t: "sessions ?en sid = Some t" "last_request_id t = request_id e"
    "length (surface (composing (conversion t))) \<le> length (surface (composing (conversion s))) - 1"
    by blast
  have ok: "engine_ok ?en" using state.handle_ok [of "config en" en shortcuts e] Cons.prems(2) by (simp add: engine_ok_iff)
  have "sorted_wrt (<) (last_request_id t # map (\<lambda>(shortcuts, e). request_id e) presses)"
    using Cons.prems(5) t(2) by (simp add: req)
  with Cons.IH [OF _ ok t(1)] Cons.prems(1,4) t(3) show ?case
    by (fastforce simp: req case_prod_unfold)
qed simp



section \<open>The surrounding text\<close>

lemma last_line_suffix: "suffix (last_line t) t \<and> 0x0A \<notin> set (last_line t)"
proof
  have "prefix (takeWhile (\<lambda>c. c \<noteq> 0x0A) (rev t)) (rev t)" by (rule takeWhile_is_prefix)
  then show "suffix (last_line t) t" by (simp add: last_line_def suffix_to_prefix)
  show "0x0A \<notin> set (last_line t)" by (auto simp: last_line_def dest: set_takeWhileD)
qed

lemma first_line_prefix: "prefix (first_line t) t \<and> 0x0A \<notin> set (first_line t)"
  by (auto simp: first_line_def takeWhile_is_prefix dest: set_takeWhileD)

lemma trim_end_prefix: "prefix (trim_end t) t"
proof -
  have "suffix (dropWhile is_whitespace (rev t)) (rev t)" by (rule suffix_dropWhile)
  then show ?thesis by (simp add: trim_end_def suffix_to_prefix)
qed

lemma last_part_suffix: "suffix (rev (take n (rev t))) t \<and> length (rev (take n (rev t))) \<le> n"
  by (simp add: suffix_to_prefix take_is_prefix)

text \<open>
  C13. The surrounding text the client sends is refused exactly when its cursor or its anchor lies
  outside it. Otherwise the context kept of it is what is directly before the selection and directly
  behind it, at most 30 scalar values of the same line on each side, whichever end of the selection
  the cursor is at.
\<close>

theorem surrounding_context_bounds:
  assumes "available t"
  shows "case surrounding_context (Some t) of
      Inl message \<Rightarrow> sur_cursor t > length (sur_text t) \<or> sur_anchor t > length (sur_text t)
    | Inr c \<Rightarrow>
        sur_cursor t \<le> length (sur_text t) \<and> sur_anchor t \<le> length (sur_text t) \<and>
        (\<exists>l r. left c = Some l \<and> right c = Some r \<and> length l \<le> 30 \<and> length r \<le> 30 \<and>
           0x0A \<notin> set l \<and> 0x0A \<notin> set r \<and>
           suffix l (take (min (sur_cursor t) (sur_anchor t)) (sur_text t)) \<and>
           prefix r (trim_end (first_line (drop (max (sur_cursor t) (sur_anchor t)) (sur_text t)))) \<and>
           prefix r (drop (max (sur_cursor t) (sur_anchor t)) (sur_text t)))"
proof -
  let ?b = "take (min (sur_cursor t) (sur_anchor t)) (sur_text t)"
  let ?a = "drop (max (sur_cursor t) (sur_anchor t)) (sur_text t)"
  let ?l = "rev (take 30 (rev (trim_start (last_line ?b))))" and ?r = "take 30 (trim_end (first_line ?a))"
  have l1: "suffix ?l (trim_start (last_line ?b))" "length ?l \<le> 30" using last_part_suffix by blast+
  have l2: "suffix (trim_start (last_line ?b)) (last_line ?b)" by (simp add: trim_start_def suffix_dropWhile)
  have l: "suffix ?l ?b" "0x0A \<notin> set ?l"
    using suffix_order.trans [OF suffix_order.trans [OF l1(1) l2]] last_line_suffix [of ?b]
      set_mono_suffix [OF suffix_order.trans [OF l1(1) l2]] by auto
  have r1: "prefix ?r (first_line ?a)"
    by (rule prefix_order.trans [OF take_is_prefix trim_end_prefix])
  have r: "prefix ?r ?a" "0x0A \<notin> set ?r"
    using prefix_order.trans [OF r1] first_line_prefix [of ?a] set_mono_prefix [OF r1] by auto
  show ?thesis
    using assms l l1(2) r
    by (auto simp: surrounding_context_def Let_def take_is_prefix)
qed

theorem surrounding_context_bounds_witness:
  "case surrounding_context (Some \<lparr>available = True, sur_text = [0x61, 0x0A, 0x20, 0x62, 0x63, 0x64], sur_cursor = 5, sur_anchor = 4\<rparr>) of
     Inl message \<Rightarrow> False | Inr c \<Rightarrow> \<exists>l. left c = Some l \<and> length l \<le> 30 \<and> suffix l [0x61, 0x0A, 0x20, 0x62]"
  using surrounding_context_bounds [of "\<lparr>available = True, sur_text = [0x61, 0x0A, 0x20, 0x62, 0x63, 0x64], sur_cursor = 5, sur_anchor = 4\<rparr>"]
  by (auto split: sum.splits)

end
