(* ===== verification/Engine_Fallback.thy ===== *)
theory Engine_Fallback
  imports Engine_Answers
begin

text \<open>
  When the model reports that its context is too small, the engine answers as if it had no model.
\<close>

abbreviation fresh_caches :: "Candidate list \<Rightarrow> ZenzPredictionCache option \<Rightarrow> ConversionSession \<Rightarrow> ConversionSession" where
  "fresh_caches x y c \<equiv> c\<lparr>candidates := x, zenz_prediction_cache := y\<rparr>"

lemma session_memory_cache_free [simp]: "session_memory mem (fresh_caches x y c) = session_memory mem c"
  by (simp add: session_memory_def)

lemma predictions_cache_free:
  "predictions sv tabs n es p mem (fresh_caches x y c) =
   (fresh_caches x y (fst (predictions sv tabs n es p mem c)), snd (predictions sv tabs n es p mem c))"
proof (cases "n = 0")
  case True
  then show ?thesis by (simp add: predictions_def)
next
  case False
  then show ?thesis
    by (cases "sv_predict sv (session_memory mem c) (composing c) n (conv_context c) es")
       (simp_all add: predictions_def Let_def if_distrib [of fst] if_distrib [of snd] cong: if_cong option.case_cong)
qed

lemma requested_predictions_cache_free:
  "requested_predictions sv tabs opts override p mem (fresh_caches x y c) =
   (fresh_caches x y (fst (requested_predictions sv tabs opts override p mem c)),
    snd (requested_predictions sv tabs opts override p mem c))"
  by (cases override)
     (simp_all add: requested_predictions_def predictions_cache_free additional_dictionary_def)

lemma assemble_parts_cache_free [simp]:
  "shortcut_candidates g (fresh_caches x y c) = shortcut_candidates g c"
  "leading_candidates g opts m full preds foreign (fresh_caches x y c) = leading_candidates g opts m full preds foreign c"
  "main_candidates sv opts p leading fcs ws (fresh_caches x y c) = main_candidates sv opts p leading fcs ws c"
  by (simp_all add: shortcut_candidates_def leading_candidates_def main_candidates_def)

lemma assemble_results_cache_free:
  "assemble_results sv opts p full preds mem (fresh_caches x y c) = assemble_results sv opts p full preds mem c"
  by (cases "sv_words sv (session_memory mem c) (composing c)"; cases "foreign_prediction opts = Disabled")
     (simp_all add: assemble_results_def Let_def)

lemma session_request_cache_free:
  "snd (session_request sv tabs opts mem (fresh_caches x y c)) = snd (session_request sv tabs opts mem c)"
  by (simp add: session_request_def assemble_request_def requested_predictions_cache_free assemble_results_cache_free
      additional_dictionary_def Let_def case_prod_unfold split: sum.split)

lemma session_request_prediction_cache:
  assumes "session_request sv tabs opts mem c = (c', r)"
  shows "zenz_prediction_cache c' = zenz_prediction_cache c"
proof -
  have p: "zenz_prediction_cache (fst (requested_predictions sv tabs opts None None mem c)) = zenz_prediction_cache c"
    by (auto simp: requested_predictions_def predictions_def Let_def split: sum.split)
  have "zenz_prediction_cache (fst (assemble_request sv tabs opts full None None mem c)) = zenz_prediction_cache c" for full
    using p by (auto simp: assemble_request_def Let_def split: prod.split sum.split)
  with assms show ?thesis by (auto simp: session_request_def split: sum.splits) (metis fst_conv)
qed

text \<open>
  C14. A model whose context is too small for the text does not cost the user the conversion: the
  candidates generated are then the very ones an engine without a model generates from the same
  session, success or failure, and the partial drafts the model left behind are gone, so the next
  request does not build on them.
\<close>

theorem capacity_falls_back:
  assumes "has_zenz_model cfg"
    and "es_zenz_convert (services cfg) (models w) (session_memory (memory w) (conversion s)) (conversion s)
           (zenz_cache s) (version_with_context (zenz_version cfg) (surrounding_with_left_context (surrounding s) lc))
           (zenz_rich_candidates cfg \<or> rich) = (z, drafts, cache, Inl ContextCapacityExceeded)"
    and "generate cfg rich lc (w, s) = ((w', s'), r)"
  shows "r = snd (generate (cfg\<lparr>has_zenz_model := False\<rparr>) rich lc (w, s)) \<and>
    zenz_cache s' = es_empty_cache (services cfg) \<and> zenz_prediction_cache (conversion s') = None \<and>
    composing (conversion s') = composing (conversion s)"
proof -
  let ?c = "(conversion s)\<lparr>candidates := drafts\<rparr>"
  let ?d = "discard_zenz_inference_state ?c"
  let ?t = "s\<lparr>zenz_cache := es_empty_cache (services cfg), conversion := ?d\<rparr>"
  have d: "?d = fresh_caches [] None (conversion s)" by (simp add: discard_zenz_inference_state_def)
  have g: "generate cfg rich lc (w, s) = plain_request cfg (w\<lparr>models := z\<rparr>, ?t)"
    using assms(1,2) by (simp add: generate_def zenz_attempt_def Let_def and_then_def update_def d discard_zenz_inference_state_def)
  obtain conv x where q: "session_request (es_session (services cfg)) (tables cfg) (request_options s) (memory w) ?d = (conv, x)"
    by force
  have "x = snd (session_request (es_session (services cfg)) (tables cfg) (request_options s) (memory w)
      (fresh_caches [] None (conversion s)))"
    using q by (simp add: d)
  then have x: "x = snd (session_request (es_session (services cfg)) (tables cfg) (request_options s) (memory w) (conversion s))"
    by (simp only: session_request_cache_free)
  have "zenz_prediction_cache conv = zenz_prediction_cache ?d" by (rule session_request_prediction_cache [OF q])
  moreover have "plain_request cfg (w\<lparr>models := z\<rparr>, ?t) = ((w', s'), r)" using assms(3) g by simp
  moreover have "snd (generate (cfg\<lparr>has_zenz_model := False\<rparr>) rich lc (w, s)) =
      (case x of Inl e \<Rightarrow> Inl (Internal, ascii ''candidate generation failed: '' @ e) | Inr r \<Rightarrow> Inr (r, None))"
    by (simp add: generate_def plain_request_def x split: prod.split sum.split)
  ultimately show ?thesis
    using session_request_text [OF q] q
    by (cases x) (auto simp: plain_request_def d)
qed

definition failing_services :: "(unit, unit, unit) EngineServices" where
  "failing_services = sample_engine_services\<lparr>es_zenz_convert :=
     (\<lambda>z m s c v rich. (z, [sample_candidate [0x4E01] [0x30CA] 1], c, Inl ContextCapacityExceeded))\<rparr>"

theorem capacity_falls_back_witness:
  "snd (generate (sample_config\<lparr>services := failing_services, has_zenz_model := True\<rparr>) False None (sample_world, typed)) =
   snd (generate (sample_config\<lparr>services := failing_services, has_zenz_model := False\<rparr>) False None (sample_world, typed))"
proof -
  let ?cfg = "sample_config\<lparr>services := failing_services, has_zenz_model := True\<rparr>"
  obtain w' s' r where g: "generate ?cfg False None (sample_world, typed) = ((w', s'), r)" by (metis surj_pair)
  have "has_zenz_model ?cfg" by simp
  moreover have "es_zenz_convert (services ?cfg) (models sample_world) (session_memory (memory sample_world) (conversion typed))
      (conversion typed) (zenz_cache typed)
      (version_with_context (zenz_version ?cfg) (surrounding_with_left_context (surrounding typed) None))
      (zenz_rich_candidates ?cfg \<or> False) =
      (models sample_world, [sample_candidate [0x4E01] [0x30CA] 1], zenz_cache typed, Inl ContextCapacityExceeded)"
    by (simp add: failing_services_def)
  ultimately show ?thesis using capacity_falls_back [OF _ _ g] g by simp
qed

end
