(* ===== verification/Codec.thy ===== *)
theory Codec
  imports Prelude "HOL-Library.Word"
begin

unbundle bit_operations_syntax

text \<open>
  The interface of a byte codec whose values carry their own length, shared by the wire frames of
  the daemon and the files of the learning store: a decoder that, given an encoded value and more
  bytes, returns the value and leaves exactly those bytes.
\<close>

type_synonym byte = "8 word"

text \<open>\<open>read_exact\<close> on a reader that holds the given bytes: the bytes and the rest, or end of file.\<close>

definition read_exact :: "nat \<Rightarrow> byte list \<Rightarrow> (byte list \<times> byte list) option" where
  "read_exact n bs = (if n \<le> length bs then Some (take n bs, drop n bs) else None)"

lemma read_exact_append [simp]: "length xs = n \<Longrightarrow> read_exact n (xs @ rest) = Some (xs, rest)"
  by (simp add: read_exact_def)

text \<open>Decoding a given number of values, one after the other.\<close>

fun decode_many :: "(byte list \<Rightarrow> 'e + ('a \<times> byte list)) \<Rightarrow> nat \<Rightarrow> byte list \<Rightarrow> 'e + ('a list \<times> byte list)" where
  "decode_many dec 0 bs = Inr ([], bs)"
| "decode_many dec (Suc n) bs =
     (case dec bs of
        Inl e \<Rightarrow> Inl e
      | Inr (x, rest) \<Rightarrow>
          (case decode_many dec n rest of Inl e \<Rightarrow> Inl e | Inr (xs, rest') \<Rightarrow> Inr (x # xs, rest')))"

locale prefix_codec =
  fixes valid :: "'a \<Rightarrow> bool"
    and enc :: "'a \<Rightarrow> byte list"
    and dec :: "byte list \<Rightarrow> 'e + ('a \<times> byte list)"
  assumes decode_encode: "valid x \<Longrightarrow> dec (enc x @ rest) = Inr (x, rest)"
begin

lemma decode_many_encode:
  "list_all valid xs \<Longrightarrow> decode_many dec (length xs) (concat (map enc xs) @ rest) = Inr (xs, rest)"
  by (induction xs) (simp_all add: decode_encode)

text \<open>No valid value's encoding is a proper prefix of another's: streams parse in one way.\<close>

lemma encode_prefix_free:
  "valid x \<Longrightarrow> valid y \<Longrightarrow> prefix (enc x) (enc y) \<Longrightarrow> x = y"
  using decode_encode [of x] decode_encode [of y "[]"] by (auto simp: prefix_def)

lemma encode_inj: "valid x \<Longrightarrow> valid y \<Longrightarrow> enc x = enc y \<Longrightarrow> x = y"
  by (rule encode_prefix_free) simp_all

end

end
