(* ===== verification/Frame.thy ===== *)
theory Frame
  imports Codec
begin

unbundle bit_operations_syntax

text \<open>
  \<open>crates/daemon/src/lib.rs\<close>: the framing of protocol messages on the daemon's socket. A frame is
  a base-128 varint with the size of the message and then the message. The machine integers are
  \<open>64 word\<close> (\<open>u64\<close>, and \<open>usize\<close> on the supported targets); the reader is the list of bytes still
  to come, so that the only I/O error of a read is the end of the stream, and the writer is the
  list of bytes written.

  The generated protobuf code is not part of the sources: \<open>encode\<close> and \<open>decode\<close> of an envelope are
  arguments. An envelope is abstract up to the two fields \<open>validate_envelope\<close> reads.
\<close>

section \<open>Varints\<close>

datatype 'd FrameError =
    Io
  | InvalidLength
  | MessageTooLarge "64 word"
  | InvalidProtobuf 'd
  | UnsupportedVersion "32 word"
  | MissingPayload

definition PROTOCOL_VERSION :: "32 word" where
  "PROTOCOL_VERSION = 1"

definition MAXIMUM_MESSAGE_SIZE :: "64 word" where
  "MAXIMUM_MESSAGE_SIZE = 1024 * 1024"

text \<open>The loop of \<open>read_varint\<close> over the shifts \<open>0, 7, ..., 63\<close>.\<close>

fun read_varint_loop :: "nat list \<Rightarrow> 64 word \<Rightarrow> byte list \<Rightarrow> 'd FrameError + (64 word \<times> byte list)" where
  "read_varint_loop [] v bs = Inl InvalidLength"
| "read_varint_loop (shift # shifts) v [] = Inl Io"
| "read_varint_loop (shift # shifts) v (byte # bs) =
     (if shift = 63 \<and> byte > 1 then Inl InvalidLength
      else
        (let v' = v OR push_bit shift (ucast (byte AND 0x7F))
         in if byte AND 0x80 = 0 then Inr (v', bs) else read_varint_loop shifts v' bs))"

definition varint_shifts :: "nat list" where
  "varint_shifts = map (\<lambda>i. 7 * i) [0..<10]"

definition read_varint :: "byte list \<Rightarrow> 'd FrameError + (64 word \<times> byte list)" where
  "read_varint bs = read_varint_loop varint_shifts 0 bs"

lemma shifted_smaller:
  fixes v :: "64 word"
  assumes "drop_bit 7 v \<noteq> 0"
  shows "unat (drop_bit 7 v) < unat v"
proof -
  have "unat (drop_bit 7 v) = unat v div 128" by (simp add: drop_bit_eq_div unat_div)
  moreover have "unat v \<noteq> 0" using assms by (auto simp: unat_eq_zero)
  ultimately show ?thesis by simp
qed

function write_varint :: "64 word \<Rightarrow> byte list" where
  "write_varint v =
     (let byte = (ucast (v AND 0x7F) :: byte);
          v' = drop_bit 7 v
      in if v' \<noteq> 0 then (byte OR 0x80) # write_varint v' else [byte])"
  by pat_completeness auto

termination
  by (relation "measure unat") (auto simp: shifted_smaller)

declare write_varint.simps [simp del]

section \<open>Round trip\<close>

lemma bit_7F:
  "bit (0x7F :: 8 word) n \<longleftrightarrow> n < 7" "bit (0x7F :: 64 word) n \<longleftrightarrow> n < 7"
  using bit_mask_iff [where 'a = "8 word", of 7 n] bit_mask_iff [where 'a = "64 word", of 7 n]
  by (auto simp: mask_eq_exp_minus_1)

text \<open>One byte of a varint: the low seven bits, and the flag.\<close>

lemma varint_byte:
  fixes v :: "64 word"
  defines "b \<equiv> (ucast (v AND 0x7F) :: byte)"
  shows "(b OR 0x80) AND 0x80 \<noteq> 0" and "b AND 0x80 = 0"
    and "(ucast ((b OR 0x80) AND 0x7F) :: 64 word) = v AND 0x7F"
    and "(ucast (b AND 0x7F) :: 64 word) = v AND 0x7F"
proof -
  note m7 = bit_7F
  have m8: "bit (0x80 :: 8 word) n \<longleftrightarrow> n = 7" for n
    using bit_exp_iff [where 'a = "8 word", of 7 n] by auto
  have bb: "bit b n \<longleftrightarrow> n < 7 \<and> bit v n" for n
    unfolding b_def bit_unsigned_iff bit_and_iff m7 by auto
  show "(b OR 0x80) AND 0x80 \<noteq> 0"
  proof
    assume "(b OR 0x80) AND 0x80 = 0"
    moreover have "bit ((b OR 0x80) AND 0x80) 7" unfolding bit_and_iff bit_or_iff m8 by simp
    ultimately show False by simp
  qed
  show "b AND 0x80 = 0" by (rule bit_word_eqI) (unfold bit_and_iff bb m8, simp)
  show "(ucast ((b OR 0x80) AND 0x7F) :: 64 word) = v AND 0x7F"
    by (rule bit_word_eqI) (unfold bit_unsigned_iff bit_and_iff bit_or_iff bb m7 m8, auto)
  show "(ucast (b AND 0x7F) :: 64 word) = v AND 0x7F"
    by (rule bit_word_eqI) (unfold bit_unsigned_iff bit_and_iff bb m7, auto)
qed

lemma push_bit_split:
  fixes v :: "64 word"
  shows "push_bit n (v AND 0x7F) OR push_bit (n + 7) (drop_bit 7 v) = push_bit n v"
proof (rule bit_word_eqI)
  fix i
  have m: "bit (0x7F :: 64 word) j \<longleftrightarrow> j < 7" for j by (rule bit_7F)
  have "7 + (i - (n + 7)) = (if i - n < 7 then 7 else i - n)" by auto
  then  show "bit (push_bit n (v AND 0x7F) OR push_bit (n + 7) (drop_bit 7 v)) i = bit (push_bit n v) i"
    unfolding bit_or_iff bit_push_bit_iff bit_and_iff bit_drop_bit_eq comp_def m by (auto split: if_splits)
qed

lemma small_mask:
  fixes v :: "64 word"
  assumes "drop_bit 7 v = 0"
  shows "v AND 0x7F = v"
  using push_bit_split [of 0 v] assms by simp

lemma read_write_loop:
  assumes "k \<le> 9" and "unat v < 2 ^ (64 - 7 * k)"
  shows "read_varint_loop (map (\<lambda>i. 7 * i) [k..<10]) acc (write_varint v @ rest) =
         (Inr (acc OR push_bit (7 * k) v, rest) :: 'd FrameError + (64 word \<times> byte list))"
  using assms
proof (induction v arbitrary: k acc rule: write_varint.induct)
  case (1 v)
  let ?v' = "drop_bit 7 v"
  let ?b = "ucast (v AND 0x7F) :: byte"
  have ks: "[k..<10] = k # [Suc k..<10]" using 1(2) by (simp add: upt_rec)
  note b = varint_byte [of v]
  show ?case
  proof (cases "?v' = 0")
    case True
    have "\<not> (7 * k = 63 \<and> ?b > 1)"
    proof
      assume a: "7 * k = 63 \<and> ?b > 1"
      then have "unat v < 2" using 1(3) by simp
      then have "v = 0 \<or> v = 1" by (metis One_nat_def less_2_cases unat_1 unat_eq_zero word_unat_eq_iff)
      with a show False by auto
    qed
    with True b show ?thesis
      by (subst write_varint.simps) (simp add: ks small_mask)
  next
    case False
    have k: "k < 9"
    proof (rule ccontr)
      assume "\<not> k < 9"
      then have "unat v < 2" using 1(2,3) by simp
      then have "unat ?v' = 0" by (simp add: drop_bit_eq_div unat_div)
      with False show False by (simp add: unat_eq_zero)
    qed
    have "unat ?v' < 2 ^ (64 - 7 * Suc k)"
    proof -
      have "64 - 7 * k = (64 - 7 * Suc k) + 7" using k by simp
      then have "(2::nat) ^ (64 - 7 * k) = 2 ^ (64 - 7 * Suc k) * 128" by (simp only: power_add) simp
      with 1(3) show ?thesis by (simp add: drop_bit_eq_div unat_div less_mult_imp_div_less)
    qed
    from 1(1) [OF refl refl False _ this, of "acc OR push_bit (7 * k) (v AND 0x7F)"] k
    have "read_varint_loop (map (\<lambda>i. 7 * i) [Suc k..<10]) (acc OR push_bit (7 * k) (v AND 0x7F)) (write_varint ?v' @ rest) =
          (Inr (acc OR push_bit (7 * k) v, rest) :: 'd FrameError + (64 word \<times> byte list))"
      unfolding push_bit_split [of "7 * k" v, symmetric] by (simp add: or.assoc add.commute)
    with False b k show ?thesis
      by (subst write_varint.simps) (simp add: ks)
  qed
qed

lemma read_write_varint: "read_varint (write_varint v @ rest) = Inr (v, rest)"
  using read_write_loop [of 0 v 0 rest] unsigned_less [of v]
  by (simp add: read_varint_def varint_shifts_def)

interpretation varint: prefix_codec "\<lambda>_. True" write_varint read_varint
  by unfold_locales (rule read_write_varint)

lemma write_varint_length:
  "0 < n \<Longrightarrow> unat v < 2 ^ (7 * n) \<Longrightarrow> length (write_varint v) \<le> n"
proof (induction v arbitrary: n rule: write_varint.induct)
  case (1 v)
  show ?case
  proof (cases "drop_bit 7 v = 0")
    case True
    with 1(2) show ?thesis by (subst write_varint.simps) simp
  next
    case False
    obtain m where n: "n = Suc m" using 1(2) by (cases n) auto
    have "unat (drop_bit 7 v) < 2 ^ (7 * m)"
      using 1(3) by (simp add: n drop_bit_eq_div unat_div power_add less_mult_imp_div_less mult.commute)
    moreover from this False have "0 < m" by (cases m) (auto simp: unat_eq_zero)
    ultimately have "length (write_varint (drop_bit 7 v)) \<le> m" by (intro 1(1) [OF refl refl False])
    with False show ?thesis by (subst write_varint.simps) (simp add: n)
  qed
qed

end
