(* ===== verification/Wire.thy ===== *)
theory Wire
  imports Frame Engine_Properties
begin

text \<open>
  The connection of one client: \<open>read_envelope\<close> and \<open>write_envelope\<close> of \<open>crates/daemon/src/lib.rs\<close> and
  \<open>serve_connection\<close> of \<open>crates/daemon/src/server.rs\<close>.

  A \<open>Transport\<close> holds what is not in the sources: the generated protobuf code (\<open>tr_encode\<close>,
  \<open>tr_decode\<close>), the texts of its errors and of the system's, and what happens outside the process: whether the peer
  has closed its end when its bytes run out (otherwise the read times out), at which requests the process finds that it
  has been told to terminate, and the candidates for dates that the clock gives at each request. The socket's output is
  a \<open>Writer\<close>, which takes bytes until the peer stops reading.
\<close>

section \<open>Envelopes on a stream\<close>

record Writer =
  written :: "byte list"
  room :: nat

text \<open>\<open>write_all\<close>: an error leaves a part of the bytes written.\<close>

definition write_all :: "byte list \<Rightarrow> Writer \<Rightarrow> Writer \<times> bool" where
  "write_all bs out =
     (out\<lparr>written := written out @ take (room out) bs, room := room out - length bs\<rparr>, length bs \<le> room out)"

definition validate_envelope :: "Envelope \<Rightarrow> 'd FrameError + unit" where
  "validate_envelope e =
     (if protocol_version e \<noteq> PROTOCOL_VERSION then Inl (UnsupportedVersion (protocol_version e))
      else if payload e = None then Inl MissingPayload
      else Inr ())"

definition read_envelope :: "(byte list \<Rightarrow> 'd + Envelope) \<Rightarrow> byte list \<Rightarrow> 'd FrameError + (Envelope \<times> byte list)" where
  "read_envelope decode bs =
     (case read_varint bs of
        Inl e \<Rightarrow> Inl e
      | Inr (n, bs) \<Rightarrow>
          if n > MAXIMUM_MESSAGE_SIZE then Inl (MessageTooLarge n)
          else
            (case read_exact (unat n) bs of
               None \<Rightarrow> Inl Io
             | Some (body, bs) \<Rightarrow>
                 (case decode body of
                    Inl e \<Rightarrow> Inl (InvalidProtobuf e)
                  | Inr envelope \<Rightarrow>
                      (case validate_envelope envelope of Inl e \<Rightarrow> Inl e | Inr _ \<Rightarrow> Inr (envelope, bs)))))"

text \<open>\<open>encoded_len\<close> is the length of the encoding, which is below \<open>2 ^ 64\<close> as every buffer's.\<close>

definition write_envelope :: "(Envelope \<Rightarrow> byte list) \<Rightarrow> Envelope \<Rightarrow> Writer \<Rightarrow> Writer \<times> ('d FrameError + unit)" where
  "write_envelope encode e out =
     (case validate_envelope e of
        Inl err \<Rightarrow> (out, Inl err)
      | Inr _ \<Rightarrow>
          (let n = length (encode e)
           in if n > unat MAXIMUM_MESSAGE_SIZE then (out, Inl (MessageTooLarge (of_nat n)))
              else
                (case write_all (write_varint (of_nat n)) out of
                   (out, False) \<Rightarrow> (out, Inl Io)
                 | (out, True) \<Rightarrow>
                     (case write_all (encode e) out of
                        (out, False) \<Rightarrow> (out, Inl Io)
                      | (out, True) \<Rightarrow> (out, Inr ())))))"

section \<open>Errors told to the peer\<close>

record 'd Transport =
  tr_encode :: "Envelope \<Rightarrow> byte list"
  tr_decode :: "byte list \<Rightarrow> 'd + Envelope"
  tr_io_text :: ustr
  tr_decode_text :: "'d \<Rightarrow> ustr"
  tr_peer_closed :: bool
  tr_terminating :: "nat \<Rightarrow> bool"
  tr_shortcuts :: "nat \<Rightarrow> DictionaryEntry list"

definition frame_error_text :: "'d Transport \<Rightarrow> 'd FrameError \<Rightarrow> ustr" where
  "frame_error_text t err =
     (case err of
        Io \<Rightarrow> tr_io_text t
      | InvalidLength \<Rightarrow> ascii ''invalid varint frame length''
      | MessageTooLarge n \<Rightarrow> ascii ''frame size '' @ show_nat (unat n) @ ascii '' exceeds the 1 MiB limit''
      | InvalidProtobuf e \<Rightarrow> ascii ''invalid protobuf payload: '' @ tr_decode_text t e
      | UnsupportedVersion version \<Rightarrow> ascii ''unsupported protocol version '' @ show_nat (unat version)
      | MissingPayload \<Rightarrow> ascii ''envelope has no payload'')"

definition frame_error_envelope :: "'d Transport \<Rightarrow> 'd FrameError \<Rightarrow> Envelope" where
  "frame_error_envelope t err =
     \<lparr>protocol_version = PROTOCOL_VERSION, request_id = 0, session_id = [],
      payload = Some (ProtocolErrorP
        (case err of
           UnsupportedVersion _ \<Rightarrow> UnsupportedVersionCode | MessageTooLarge _ \<Rightarrow> MessageTooLargeCode | _ \<Rightarrow> InvalidPayload)
        (frame_error_text t err)),
      trace = []\<rparr>"

section \<open>The loop of a connection\<close>

lemma read_varint_loop_shorter:
  "read_varint_loop shifts v bs = (Inr (w, rest) :: 'd FrameError + _) \<Longrightarrow> \<exists>hd. bs = hd @ rest \<and> hd \<noteq> [] \<and> length hd \<le> length shifts"
proof (induction shifts v bs rule: read_varint_loop.induct)
  case (3 shift shifts v byte bs)
  show ?case
  proof (cases "byte AND 0x80 = 0")
    case True
    with 3(2) show ?thesis by (intro exI [of _ "[byte]"]) (auto simp: Let_def split: if_splits)
  next
    case False
    with 3(2) have "\<not> (shift = 63 \<and> byte > 1)"
      and r: "read_varint_loop shifts (v OR push_bit shift (ucast (byte AND 0x7F))) bs = (Inr (w, rest) :: 'd FrameError + _)"
      by (auto simp: Let_def split: if_splits)
    from 3(1) [OF this(1) refl False r] obtain hd where "bs = hd @ rest" "length hd \<le> length shifts" by blast
    then show ?thesis by (intro exI [of _ "byte # hd"]) simp
  qed
qed simp_all

lemma read_varint_shorter:
  assumes "read_varint bs = Inr (w, rest)"
  obtains hd where "bs = hd @ rest" and "hd \<noteq> []" and "length hd \<le> 10"
  using read_varint_loop_shorter [OF assms [unfolded read_varint_def]] by (auto simp: varint_shifts_def)

lemma validate_envelope_Inr:
  "validate_envelope e = Inr u \<longleftrightarrow> protocol_version e = PROTOCOL_VERSION \<and> payload e \<noteq> None"
  by (simp add: validate_envelope_def)

lemma read_envelope_Inr:
  assumes "read_envelope decode bs = Inr (e, rest)"
  obtains hd body where "bs = hd @ body @ rest" and "hd \<noteq> []" and "length hd \<le> 10"
    and "length body \<le> unat MAXIMUM_MESSAGE_SIZE" and "decode body = Inr e"
    and "protocol_version e = PROTOCOL_VERSION" and "payload e \<noteq> None"
proof -
  obtain n bs' where s: "read_varint bs = (Inr (n, bs') :: 'a FrameError + _)"
    using assms by (auto simp: read_envelope_def split: sum.splits)
  moreover have m: "\<not> MAXIMUM_MESSAGE_SIZE < n" using assms s by (auto simp: read_envelope_def)
  ultimately obtain body where b: "read_exact (unat n) bs' = Some (body, rest)" "decode body = Inr e"
    and v: "validate_envelope e = (Inr () :: 'a FrameError + unit)"
    using assms by (auto simp: read_envelope_def split: option.splits sum.splits)
  obtain hd where hd: "bs = hd @ bs'" "hd \<noteq> []" "length hd \<le> 10" by (rule read_varint_shorter [OF s])
  have "bs' = body @ rest" "length body = unat n" using b(1) by (auto simp: read_exact_def split: if_splits)
  moreover have "unat n \<le> unat MAXIMUM_MESSAGE_SIZE" using m by (simp add: word_le_nat_alt not_less)
  ultimately show thesis using that [of hd body] hd b(2) v by (simp add: validate_envelope_Inr)
qed

lemma read_envelope_shorter: "read_envelope decode bs = Inr (e, rest) \<Longrightarrow> length rest < length bs"
  by (erule read_envelope_Inr) simp

text \<open>
  \<open>i\<close> counts the requests. With no byte left the loop ends: the peer has closed the stream, or the poll reports
  nothing until the process terminates.
\<close>

function serve_connection ::
  "'d Transport \<Rightarrow> nat \<Rightarrow> byte list \<Rightarrow> ('m, 'z, 'c) Engine \<Rightarrow> Writer \<Rightarrow> ('m, 'z, 'c) Engine \<times> Writer" where
  "serve_connection t i bs en out =
     (if tr_terminating t i \<or> bs = [] then (en, out)
      else
        (case read_envelope (tr_decode t) bs of
           Inl err \<Rightarrow>
             if err = Io \<and> tr_peer_closed t then (en, out)
             else (en, fst (write_envelope (tr_encode t) (frame_error_envelope t err) out :: Writer \<times> ('d FrameError + unit)))
         | Inr (request, rest) \<Rightarrow>
             (case handle (tr_shortcuts t i) request en of
                (en, response) \<Rightarrow>
                  (case write_envelope (tr_encode t) response out :: Writer \<times> ('d FrameError + unit) of
                     (out, Inl _) \<Rightarrow> (en, out)
                   | (out, Inr _) \<Rightarrow> serve_connection t (Suc i) rest en out))))"
  by pat_completeness auto

termination
  by (relation "measure (\<lambda>(t, i, bs, en, out). length bs)") (auto dest: read_envelope_shorter)

declare serve_connection.simps [simp del]

section \<open>Frames\<close>

text \<open>What \<open>write_envelope\<close> puts on the stream, and the envelopes it accepts.\<close>

definition frame :: "(Envelope \<Rightarrow> byte list) \<Rightarrow> Envelope \<Rightarrow> byte list" where
  "frame encode e = write_varint (of_nat (length (encode e))) @ encode e"

definition deliverable :: "(Envelope \<Rightarrow> byte list) \<Rightarrow> Envelope \<Rightarrow> bool" where
  "deliverable encode e \<longleftrightarrow>
     protocol_version e = PROTOCOL_VERSION \<and> payload e \<noteq> None \<and> length (encode e) \<le> unat MAXIMUM_MESSAGE_SIZE"

lemma maximum_size: "unat MAXIMUM_MESSAGE_SIZE = 1048576"
  by (simp add: MAXIMUM_MESSAGE_SIZE_def)

lemma unat_of_size: "n \<le> 1048576 \<Longrightarrow> unat (of_nat n :: 64 word) = n"
  by (simp add: unat_of_nat)

lemma frame_length: "length (encode e) \<le> 1048576 \<Longrightarrow> length (frame encode e) \<le> 3 + length (encode e)"
  using write_varint_length [of 3 "of_nat (length (encode e))"] by (simp add: frame_def unat_of_size)

definition put :: "byte list \<Rightarrow> Writer \<Rightarrow> Writer" where
  "put bs out = out\<lparr>written := written out @ bs, room := room out - length bs\<rparr>"

lemma put_put [simp]: "put ys (put xs out) = put (xs @ ys) out"
  by (simp add: put_def)

lemma put_fields [simp]: "written (put bs out) = written out @ bs" "room (put bs out) = room out - length bs"
  by (simp_all add: put_def)

lemma write_all_cases:
  obtains (full) "length bs \<le> room out" "write_all bs out = (put bs out, True)"
  | (cut) "room out < length bs" "write_all bs out = (out\<lparr>written := written out @ take (room out) bs, room := 0\<rparr>, False)"
  by (cases "length bs \<le> room out") (auto simp: write_all_def put_def)

lemma write_envelope_cases:
  fixes r :: "'d FrameError + unit"
  assumes "write_envelope encode e out = (out', r)"
  obtains (sent) "r = Inr ()" "deliverable encode e" "length (frame encode e) \<le> room out" "out' = put (frame encode e) out"
  | (refused) err where "r = Inl err" "\<not> deliverable encode e" "out' = out"
  | (broken) part where "r = Inl Io" "deliverable encode e" "room out < length (frame encode e)"
      "written out' = written out @ part" "prefix part (frame encode e)"
proof -
  let ?hd = "write_varint (of_nat (length (encode e)))"
  consider (bad) err where "validate_envelope e = (Inl err :: 'd FrameError + unit)" | (good) "validate_envelope e = (Inr () :: 'd FrameError + unit)"
    by (cases "validate_envelope e :: 'd FrameError + unit") auto
  then show thesis
  proof cases
    case bad
    then have "\<not> deliverable encode e" by (auto simp: validate_envelope_def deliverable_def split: if_splits)
    with bad assms show thesis by (intro refused [of err]) (simp_all add: write_envelope_def)
  next
    case good
    show thesis
    proof (cases "length (encode e) > unat MAXIMUM_MESSAGE_SIZE")
      case True
      then have "\<not> deliverable encode e" by (simp add: deliverable_def)
      with good True assms show thesis by (auto simp: write_envelope_def Let_def intro: refused)
    next
      case False
      with good have d: "deliverable encode e" by (simp add: deliverable_def validate_envelope_Inr)
      have w: "(out', r) = (case write_all ?hd out of
                   (out, False) \<Rightarrow> (out, Inl Io)
                 | (out, True) \<Rightarrow>
                     (case write_all (encode e) out of (out, False) \<Rightarrow> (out, Inl Io) | (out, True) \<Rightarrow> (out, Inr ())))"
        using assms False good by (simp add: write_envelope_def Let_def)
      show thesis
      proof (cases rule: write_all_cases [of ?hd out])
        case cut
        with w d show thesis by (intro broken [of "take (room out) ?hd"]) (auto simp: frame_def take_is_prefix intro: prefix_order.trans)
      next
        case h: full
        show thesis
        proof (cases rule: write_all_cases [of "encode e" "put ?hd out"])
          case full
          with w h d show thesis by (intro sent) (auto simp: frame_def)
        next
          case cut
          with w h d show thesis
            by (intro broken [of "?hd @ take (room out - length ?hd) (encode e)"]) (auto simp: frame_def take_is_prefix)
        qed
      qed
    qed
  qed
qed

lemma write_envelope_sent:
  assumes "deliverable encode e" and "length (frame encode e) \<le> room out"
  shows "write_envelope encode e out = (put (frame encode e) out, Inr () :: 'd FrameError + unit)"
proof -
  obtain out' and r :: "'d FrameError + unit" where w: "write_envelope encode e out = (out', r)" by fastforce
  then show ?thesis by (cases rule: write_envelope_cases) (use assms w in auto)
qed

text \<open>Frames are a codec that carries its own length, as soon as the payload's code is one on whole messages.\<close>

lemma read_frame:
  assumes "deliverable encode e" and "decode (encode e) = Inr e"
  shows "read_envelope decode (frame encode e @ rest) = Inr (e, rest)"
proof -
  have n: "length (encode e) \<le> 1048576" using assms(1) by (simp add: deliverable_def maximum_size)
  have "\<not> (of_nat (length (encode e)) > MAXIMUM_MESSAGE_SIZE)"
    using n by (simp add: word_less_nat_alt unat_of_size maximum_size)
  with assms n show ?thesis
    by (simp add: read_envelope_def frame_def read_write_varint unat_of_size validate_envelope_def deliverable_def)
qed

interpretation envelope: prefix_codec "\<lambda>e. deliverable encode e \<and> decode (encode e) = Inr e" "frame encode" "read_envelope decode"
  for encode and decode :: "byte list \<Rightarrow> 'd + Envelope"
  by unfold_locales (simp add: read_frame)

end
