(* ===== verification/Connection.thy ===== *)
theory Connection
  imports Wire
begin

text \<open>
  What a client of the daemon can rely on at the level of bytes: a connection refines the engine's \<open>serve\<close>
  for every stream of bytes, and a client that frames its requests reads back exactly the engine's answers.
\<close>

section \<open>One round of the loop\<close>

text \<open>
  The requests of a stream, in the form \<open>serve\<close> takes them: with the dates of their round.
\<close>

definition rounds :: "'d Transport \<Rightarrow> nat \<Rightarrow> Envelope list \<Rightarrow> (DictionaryEntry list \<times> Envelope) list" where
  "rounds t i es = map (\<lambda>(j, e). (tr_shortcuts t j, e)) (enumerate i es)"

lemma rounds_simps [simp]:
  "rounds t i [] = []" "rounds t i (e # es) = (tr_shortcuts t i, e) # rounds t (Suc i) es"
  by (simp_all add: rounds_def)

lemma answer_valid:
  "protocol_version (snd (handle sc e en)) = PROTOCOL_VERSION \<and> payload (snd (handle sc e en)) \<noteq> None"
  using handle_answers [of e sc en] by (auto simp: answers_to_def PROTOCOL_VERSION_def split: option.splits)

definition stream :: "'d Transport \<Rightarrow> Envelope list \<Rightarrow> byte list" where
  "stream t es = concat (map (frame (tr_encode t)) es)"

lemma stream_simps [simp]:
  "stream t [] = []" "stream t (e # es) = frame (tr_encode t) e @ stream t es" "stream t (xs @ ys) = stream t xs @ stream t ys"
  by (simp_all add: stream_def)

text \<open>What was written is a part of the answers' frames, followed at most by the report of one framing error.\<close>

definition reported :: "'d Transport \<Rightarrow> Envelope list \<Rightarrow> byte list \<Rightarrow> bool" where
  "reported t as bs \<longleftrightarrow>
     prefix bs (stream t as) \<or> (\<exists>err. prefix bs (stream t (as @ [frame_error_envelope t err])))"

lemma reported_Cons: "reported t as bs \<Longrightarrow> reported t (a # as) (frame (tr_encode t) a @ bs)"
  by (auto simp: reported_def)

lemma serve_connection_refines:
  fixes t :: "'d Transport"
  shows "\<exists>es bs'. serve_connection t i bs en out = (fst (serve (rounds t i es) en), snd (serve_connection t i bs en out)) \<and>
     written (snd (serve_connection t i bs en out)) = written out @ bs' \<and>
     reported t (snd (serve (rounds t i es) en)) bs' \<and>
     list_all (\<lambda>e. protocol_version e = PROTOCOL_VERSION \<and> payload e \<noteq> None) es"
proof (induction t i bs en out rule: serve_connection.induct)
  case (1 t i bs en out)
  have stop: ?case if "serve_connection t i bs en out = (en, out')" "written out' = written out @ bs'" "reported t [] bs'" for out' bs'
    using that by (intro exI [of _ "[]"] exI [of _ bs']) simp
  consider (ended) "tr_terminating t i \<or> bs = []"
    | (failed) err where "\<not> (tr_terminating t i \<or> bs = [])" "read_envelope (tr_decode t) bs = Inl err"
    | (got) request rest where "\<not> (tr_terminating t i \<or> bs = [])" "read_envelope (tr_decode t) bs = Inr (request, rest)"
    by (cases "read_envelope (tr_decode t) bs") auto
  then show ?case
  proof cases
    case ended
    then show ?thesis by (intro stop [of out "[]"]) (simp_all add: serve_connection.simps reported_def)
  next
    case failed
    show ?thesis
    proof (cases "err = Io \<and> tr_peer_closed t")
      case True
      with failed show ?thesis by (intro stop [of out "[]"]) (simp_all add: serve_connection.simps reported_def)
    next
      case False
      let ?e = "frame_error_envelope t err"
      obtain out' and r :: "'d FrameError + unit" where w: "write_envelope (tr_encode t) ?e out = (out', r)" by fastforce
      then have "\<exists>part. written out' = written out @ part \<and> prefix part (frame (tr_encode t) ?e)"
        by (cases rule: write_envelope_cases) auto
      then obtain part where "written out' = written out @ part" "prefix part (frame (tr_encode t) ?e)" by (elim exE conjE)
      with failed False w show ?thesis
        by (intro stop [of out' part]) (auto simp: serve_connection.simps reported_def)
    qed
  next
    case got
    obtain en' a where h: "handle (tr_shortcuts t i) request en = (en', a)" by fastforce
    obtain out' and r :: "'d FrameError + unit" where w: "write_envelope (tr_encode t) a out = (out', r)" by fastforce
    have valid: "protocol_version request = PROTOCOL_VERSION" "payload request \<noteq> None"
      by (use read_envelope_Inr [OF got(2)] in blast)+
    show ?thesis
    proof (cases r)
      case (Inl err)
      with w have "\<exists>part. written out' = written out @ part \<and> prefix part (frame (tr_encode t) a)"
        by (cases rule: write_envelope_cases) auto
      then obtain part where p: "written out' = written out @ part" "prefix part (frame (tr_encode t) a)" by (elim exE conjE)
      have "serve_connection t i bs en out = (en', out')"
        using got h w Inl by (simp add: serve_connection.simps [of t i bs])
      with h p valid show ?thesis
        by (intro exI [of _ "[request]"] exI [of _ part]) (simp add: reported_def)
    next
      case (Inr u)
      with w have o: "out' = put (frame (tr_encode t) a) out" by (cases rule: write_envelope_cases) auto
      have s: "serve_connection t i bs en out = serve_connection t (Suc i) rest en' out'"
        using got h w Inr by (simp add: serve_connection.simps [of t i bs])
      from 1 [OF got refl h [symmetric] w [symmetric] Inr] obtain es bs' where
        ih: "serve_connection t (Suc i) rest en' out' =
            (fst (serve (rounds t (Suc i) es) en'), snd (serve_connection t (Suc i) rest en' out'))"
          "written (snd (serve_connection t (Suc i) rest en' out')) = written out' @ bs'"
          "reported t (snd (serve (rounds t (Suc i) es) en')) bs'"
          "list_all (\<lambda>e. protocol_version e = PROTOCOL_VERSION \<and> payload e \<noteq> None) es"
        by (elim exE conjE)
      from reported_Cons [OF ih(3), of a] ih(1,2,4) h o valid show ?thesis unfolding s
        by (intro exI [of _ "request # es"] exI [of _ "frame (tr_encode t) a @ bs'"]) (simp add: case_prod_unfold)
    qed
  qed
qed

section \<open>Properties\<close>


text \<open>
  C17. An envelope that \<open>write_envelope\<close> accepts is read back by \<open>read_envelope\<close> from the bytes written, whatever
  follows them on the stream, and nothing that follows is consumed.
\<close>

theorem written_envelope_read_back:
  assumes "decode (encode e) = Inr e" and "write_envelope encode e out = (out', Inr u)"
  shows "\<exists>bs. written out' = written out @ bs \<and> (\<forall>rest. read_envelope decode (bs @ rest) = Inr (e, rest))"
  using assms(2)
proof (cases rule: write_envelope_cases)
  case sent
  from sent(2) assms(1) sent(4) show ?thesis by (intro exI [of _ "frame encode e"]) (simp add: read_frame)
qed simp_all

definition ping :: Envelope where
  "ping = \<lparr>protocol_version = 1, request_id = 7, session_id = [0x73], payload = Some EndSessionP, trace = []\<rparr>"

theorem written_envelope_read_back_witness:
  "\<exists>bs. written (fst (write_envelope (\<lambda>_. [1, 2]) ping \<lparr>written = [9], room = 5\<rparr> :: Writer \<times> (unit FrameError + unit))) = [9] @ bs \<and>
     (\<forall>rest. read_envelope (\<lambda>bs. if bs = [1, 2] then Inr ping else Inl ()) (bs @ rest) = Inr (ping, rest))"
proof -
  have w: "write_envelope (\<lambda>_. [1, 2]) ping \<lparr>written = [9], room = 5\<rparr> =
      (\<lparr>written = [9, 2, 1, 2], room = 2\<rparr>, Inr () :: unit FrameError + unit)"
    by (subst write_envelope_sent)
      (simp_all add: deliverable_def ping_def PROTOCOL_VERSION_def maximum_size frame_def put_def write_varint.simps [of 2])
  from written_envelope_read_back [OF _ w, of "\<lambda>bs. if bs = [1, 2] then Inr ping else Inl ()"] w show ?thesis by simp
qed

text \<open>
  A frame never makes the daemon read more than ten bytes for its length and 1 MiB for its message, and what it
  accepts is a message the decoder accepts, of this version of the protocol and with a payload.
\<close>

theorem read_envelope_bounds:
  assumes "read_envelope decode bs = Inr (e, rest)"
  shows "\<exists>hd body. bs = hd @ body @ rest \<and> 0 < length hd \<and> length hd \<le> 10 \<and> length body \<le> 1024 * 1024 \<and>
     decode body = Inr e \<and> protocol_version e = 1 \<and> payload e \<noteq> None"
  by (rule read_envelope_Inr [OF assms])
    (intro exI conjI, assumption, simp, assumption, simp add: maximum_size, assumption, simp_all add: PROTOCOL_VERSION_def)

theorem read_envelope_bounds_witness:
  "\<exists>hd body. [2, 1, 2, 5] = hd @ body @ [5] \<and> length hd \<le> 10 \<and> length body \<le> 1024 * 1024 \<and>
     (\<lambda>bs :: byte list. if bs = [1, 2] then Inr ping else Inl ()) body = Inr ping"
proof -
  have "read_envelope (\<lambda>bs. if bs = [1, 2] then Inr ping else Inl ()) [2, 1, 2, 5] = Inr (ping, [5])" by code_simp
  from read_envelope_bounds [OF this] show ?thesis by (elim exE conjE) (intro exI conjI)
qed

section \<open>A client and the daemon\<close>

lemma serve_connection_frames:
  fixes t :: "'d Transport"
  assumes "\<And>j. \<not> tr_terminating t j"
    and "list_all (\<lambda>e. deliverable (tr_encode t) e \<and> tr_decode t (tr_encode t e) = Inr e) es"
    and "list_all (deliverable (tr_encode t)) (snd (serve (rounds t i es) en))"
    and "length (stream t (snd (serve (rounds t i es) en))) \<le> room out"
  shows "serve_connection t i (stream t es) en out =
    (fst (serve (rounds t i es) en), put (stream t (snd (serve (rounds t i es) en))) out)"
  using assms(2-)
proof (induction es arbitrary: i en out)
  case Nil
  then show ?case by (simp add: serve_connection.simps put_def)
next
  case (Cons e es)
  obtain en' a where h: "handle (tr_shortcuts t i) e en = (en', a)" by fastforce
  obtain en'' as where s: "serve (rounds t (Suc i) es) en' = (en'', as)" by fastforce
  let ?f = "frame (tr_encode t)"
  have d: "deliverable (tr_encode t) a" "list_all (deliverable (tr_encode t)) as" "length (?f a) + length (stream t as) \<le> room out"
    using Cons.prems(2,3) h s by simp_all
  have r: "read_envelope (tr_decode t) (?f e @ stream t es) = Inr (e, stream t es)"
    using Cons.prems(1) by (intro read_frame) simp_all
  have w: "write_envelope (tr_encode t) a out = (put (?f a) out, Inr () :: 'd FrameError + unit)"
    using d by (intro write_envelope_sent) simp_all
  have "?f e \<noteq> []" by (simp add: frame_def write_varint.simps Let_def)
  with r w h assms(1) have
    "serve_connection t i (stream t (e # es)) en out = serve_connection t (Suc i) (stream t es) en' (put (?f a) out)"
    by (simp add: serve_connection.simps [of t i "_ @ _"])
  also have "\<dots> = (en'', put (stream t as) (put (?f a) out))"
    using Cons.IH [of "Suc i" en' "put (?f a) out"] Cons.prems(1) d s by simp
  finally show ?case using h s by simp
qed

text \<open>
  C16. A client that frames its requests and decodes as many frames from what the daemon writes gets exactly the
  engine's answers, one for each request and in their order, and leaves nothing on the stream, as long as the answers
  fit the size of a message and the client keeps reading.
\<close>

theorem client_receives_answers:
  assumes "\<And>j. \<not> tr_terminating t j"
    and "list_all (\<lambda>e. deliverable (tr_encode t) e \<and> tr_decode t (tr_encode t e) = Inr e) es"
    and "list_all (\<lambda>a. deliverable (tr_encode t) a \<and> tr_decode t (tr_encode t a) = Inr a) (snd (serve (rounds t 0 es) en))"
    and "length (stream t (snd (serve (rounds t 0 es) en))) \<le> n"
  shows "decode_many (read_envelope (tr_decode t)) (length es)
      (written (snd (serve_connection t 0 (stream t es) en \<lparr>written = [], room = n\<rparr>))) =
    Inr (snd (serve (rounds t 0 es) en), [])"
proof -
  let ?as = "snd (serve (rounds t 0 es) en)"
  have "list_all (deliverable (tr_encode t)) ?as" using assms(3) by (simp add: list_all_iff)
  from serve_connection_frames [OF assms(1,2) this, of "\<lparr>written = [], room = n\<rparr>"] assms(4)
  have "written (snd (serve_connection t 0 (stream t es) en \<lparr>written = [], room = n\<rparr>)) = stream t ?as"
    by (simp add: put_def)
  moreover have "length ?as = length es" by (simp add: serve_length rounds_def)
  ultimately show ?thesis
    using envelope.decode_many_encode [OF assms(3), of "[]"] by (simp add: stream_def)
qed

definition pong :: Envelope where
  "pong = error_envelope 7 [0x73] UnknownSession (ascii ''unknown session'')"

definition sample_transport :: "unit Transport" where
  "sample_transport =
     \<lparr>tr_encode = (\<lambda>e. if e = ping then [1] else [2]),
      tr_decode = (\<lambda>bs. if bs = [1] then Inr ping else if bs = [2] then Inr pong else Inl ()),
      tr_io_text = [], tr_decode_text = (\<lambda>_. []), tr_peer_closed = True, tr_terminating = (\<lambda>_. False),
      tr_shortcuts = (\<lambda>_. [])\<rparr>"

lemma ping_pong: "ping \<noteq> pong"
  by (simp add: ping_def pong_def error_envelope_def answer_def)

lemma ping_answer: "handle [] ping (for_connection id sample_engine) = (for_connection id sample_engine, pong)"
  by (simp add: handle_def ping_def handle_session_request_def for_connection_def pong_def)

lemma sample_transport_deliverable:
  "deliverable (tr_encode sample_transport) ping" "deliverable (tr_encode sample_transport) pong"
  by (simp_all add: deliverable_def sample_transport_def ping_def pong_def error_envelope_def answer_def PROTOCOL_VERSION_def maximum_size)

theorem client_receives_answers_witness:
  "decode_many (read_envelope (tr_decode sample_transport)) 2
     (written (snd (serve_connection sample_transport 0 (stream sample_transport [ping, ping]) (for_connection id sample_engine)
        \<lparr>written = [], room = 4\<rparr>))) = Inr ([pong, pong], [])"
proof -
  let ?t = sample_transport and ?en = "for_connection id sample_engine"
  have s: "serve (rounds ?t 0 [ping, ping]) ?en = (?en, [pong, pong])"
    using ping_answer by (simp add: sample_transport_def)
  have c: "tr_decode ?t (tr_encode ?t ping) = Inr ping" "tr_decode ?t (tr_encode ?t pong) = Inr pong"
    using ping_pong by (simp_all add: sample_transport_def)
  have n: "length (stream ?t [pong, pong]) \<le> 4"
    using ping_pong by (simp add: frame_def sample_transport_def write_varint.simps [of 1])
  show ?thesis
    using client_receives_answers [of ?t "[ping, ping]" ?en 4] s c n sample_transport_deliverable
    by (simp add: sample_transport_def [THEN arg_cong, of tr_terminating] numeral_2_eq_2)
qed

end
