(* ===== verification/Server.thy ===== *)
theory Server
  imports Prelude "HOL-Library.Multiset"
begin

text \<open>
  \<open>DaemonServer::run\<close> of \<open>crates/daemon/src/server.rs\<close>: the loop that accepts clients, starts a thread for each,
  collects the finished ones, and ends the daemon when the last client has left. The threads share one counter, so
  their steps interleave with those of the loop: the state holds every thread, and a step is one of the loop,
  one of a thread, or the arrival of a signal. The steps of \<open>reap_workers\<close> are separate, since threads finish while it
  looks at them. The connections themselves are in \<open>Connection\<close>.
\<close>

section \<open>State\<close>

text \<open>
  A thread serves its client; then its \<open>ActiveClient\<close> is dropped, also when it panics; then it is finished,
  and \<open>join\<close> says whether it panicked.
\<close>

datatype Worker = Serving | Leaving bool | Finished bool

datatype ServerError = Socket | WorkerPanicked

datatype Phase = Checking | Reaping nat | Accepting | Joining | Returned "ServerError + unit"

record Server =
  active_clients :: nat
  accepted_client :: bool
  workers :: "Worker list"
  terminating :: bool
  phase :: Phase

definition server_run :: Server where
  "server_run = \<lparr>active_clients = 0, accepted_client = False, workers = [], terminating = False, phase = Checking\<rparr>"

definition swap_remove :: "nat \<Rightarrow> 'a list \<Rightarrow> 'a list" where
  "swap_remove i xs = butlast (xs[i := last xs])"

section \<open>Steps\<close>

text \<open>One round of the loop in \<open>reap_workers\<close>.\<close>

definition reap_worker :: "nat \<Rightarrow> Server \<Rightarrow> Server" where
  "reap_worker i s =
     (if i < length (workers s)
      then
        (case workers s ! i of
           Finished panicked \<Rightarrow>
             if panicked then s\<lparr>workers := swap_remove i (workers s), phase := Returned (Inl WorkerPanicked)\<rparr>
             else s\<lparr>workers := swap_remove i (workers s)\<rparr>
         | _ \<Rightarrow> s\<lparr>phase := Reaping (Suc i)\<rparr>)
      else s\<lparr>phase := Accepting\<rparr>)"

text \<open>What the listener returns: a client of this user or of another, nothing, or an error.\<close>

datatype Incoming = OwnClient | ForeignClient | WouldBlock | Failed

definition accept :: "Incoming \<Rightarrow> Server \<Rightarrow> Server" where
  "accept incoming s =
     (case incoming of
        OwnClient \<Rightarrow>
          s\<lparr>accepted_client := True, active_clients := active_clients s + 1, workers := workers s @ [Serving],
            phase := Checking\<rparr>
      | ForeignClient \<Rightarrow> s\<lparr>phase := Checking\<rparr>
      | WouldBlock \<Rightarrow>
          if accepted_client s \<and> active_clients s = 0 then s\<lparr>phase := Joining\<rparr> else s\<lparr>phase := Checking\<rparr>
      | Failed \<Rightarrow> s\<lparr>phase := Returned (Inl Socket)\<rparr>)"

text \<open>\<open>join\<close> waits for the thread: the loop makes no step before it has finished.\<close>

definition join_next :: "Server \<Rightarrow> Server" where
  "join_next s =
     (case workers s of
        [] \<Rightarrow> s\<lparr>phase := Returned (Inr ())\<rparr>
      | Finished panicked # ws \<Rightarrow>
          if panicked then s\<lparr>workers := ws, phase := Returned (Inl WorkerPanicked)\<rparr> else s\<lparr>workers := ws\<rparr>
      | _ \<Rightarrow> s)"

definition main_step :: "Incoming \<Rightarrow> Server \<Rightarrow> Server" where
  "main_step incoming s =
     (case phase s of
        Checking \<Rightarrow> if terminating s then s\<lparr>phase := Joining\<rparr> else s\<lparr>phase := Reaping 0\<rparr>
      | Reaping i \<Rightarrow> reap_worker i s
      | Accepting \<Rightarrow> accept incoming s
      | Joining \<Rightarrow> join_next s
      | Returned r \<Rightarrow> s)"

text \<open>A thread's own steps; dropping \<open>ActiveClient\<close> subtracts one from the shared counter.\<close>

definition worker_step :: "nat \<Rightarrow> bool \<Rightarrow> Server \<Rightarrow> Server" where
  "worker_step i panics s =
     (case workers s ! i of
        Serving \<Rightarrow> s\<lparr>workers := (workers s)[i := Leaving panics], active_clients := active_clients s - 1\<rparr>
      | Leaving panicked \<Rightarrow> s\<lparr>workers := (workers s)[i := Finished panicked]\<rparr>
      | Finished panicked \<Rightarrow> s)"

definition request_termination :: "Server \<Rightarrow> Server" where
  "request_termination s = s\<lparr>terminating := True\<rparr>"

inductive reached :: "Server \<Rightarrow> bool" where
  start: "reached server_run"
| main: "reached s \<Longrightarrow> reached (main_step incoming s)"
| worker: "reached s \<Longrightarrow> i < length (workers s) \<Longrightarrow> reached (worker_step i panics s)"
| signal: "reached s \<Longrightarrow> reached (request_termination s)"

section \<open>The threads as a multiset\<close>

lemma mset_swap_remove: "i < length xs \<Longrightarrow> mset (swap_remove i xs) = mset xs - {#xs ! i#}"
proof -
  assume i: "i < length xs"
  then obtain ys y where xs: "xs = ys @ [y]" by (cases xs rule: rev_cases) auto
  show ?thesis
  proof (cases "i < length ys")
    case True
    then show ?thesis by (simp add: xs swap_remove_def list_update_append mset_update nth_append)
  next
    case False
    with i show ?thesis by (simp add: xs swap_remove_def list_update_append nth_append)
  qed
qed

definition serving :: "Server \<Rightarrow> nat" where
  "serving s = count (mset (workers s)) Serving"

lemma serving_swap_remove:
  "i < length ws \<Longrightarrow> ws ! i = Finished p \<Longrightarrow> count (mset (swap_remove i ws)) Serving = count (mset ws) Serving"
  by (simp add: mset_swap_remove)

lemma serving_update:
  assumes "i < length ws"
  shows "w \<noteq> Serving \<Longrightarrow> count (mset (ws[i := w])) Serving = (if ws ! i = Serving then count (mset ws) Serving - 1 else count (mset ws) Serving)"
  using assms by (simp add: mset_update)

text \<open>
  The counter is the number of threads that serve a client, and when the loop has ended of its own accord, there is
  no such thread.
\<close>

definition server_ok :: "Server \<Rightarrow> bool" where
  "server_ok s \<longleftrightarrow>
     active_clients s = serving s \<and>
     (phase s = Joining \<or> phase s = Returned (Inr ()) \<longrightarrow> terminating s \<or> serving s = 0) \<and>
     (phase s = Returned (Inr ()) \<longrightarrow> workers s = [])"

lemma server_ok_reached: "reached s \<Longrightarrow> server_ok s"
proof (induction rule: reached.induct)
  case start
  then show ?case by (simp add: server_ok_def server_run_def serving_def)
next
  case (main s incoming)
  then show ?case
    by (auto simp: server_ok_def serving_def main_step_def reap_worker_def accept_def join_next_def serving_swap_remove
        split: Phase.split Worker.split Incoming.split list.split)
next
  case (worker s i panics)
  then show ?case
    by (auto simp: server_ok_def serving_def worker_step_def serving_update
        dest: subsetD [OF set_update_subset_insert] split: Worker.split)
next
  case (signal s)
  then show ?case by (simp add: server_ok_def serving_def request_termination_def)
qed

section \<open>Properties\<close>


text \<open>One client comes and leaves, and the daemon ends.\<close>

definition one_client :: Server where
  "one_client =
     (main_step WouldBlock ^^ 2) (main_step WouldBlock ((main_step WouldBlock ^^ 2)
       (worker_step 0 False (worker_step 0 False (main_step OwnClient ((main_step WouldBlock ^^ 2) server_run))))))"

lemma one_client_reached: "reached one_client"
proof -
  have "reached (main_step OwnClient ((main_step WouldBlock ^^ 2) server_run))"
    by (simp add: numeral_2_eq_2 start main)
  moreover have "length (workers (main_step OwnClient ((main_step WouldBlock ^^ 2) server_run))) = 1" by code_simp
  moreover have "length (workers (worker_step 0 False (main_step OwnClient ((main_step WouldBlock ^^ 2) server_run)))) = 1" by code_simp
  ultimately show ?thesis by (simp add: one_client_def numeral_2_eq_2 main worker)
qed


end
