(* ===== verification/Custom_Table.thy ===== *)
theory Custom_Table
  imports Input_Table Strings
begin

text \<open>
  \<open>crates/converter/src/input/custom.rs\<close>: input tables as text, one rule per line with a tab between key and value;
  tokens in braces stand for what has no character of its own.
\<close>

section \<open>Reports\<close>

datatype FormatSide = KeySide | ValueSide

datatype FormatErrorKind =
    InvalidTabCount nat
  | UnknownBraceToken ustr FormatSide
  | UnclosedBrace
  | ShiftTokenNotAtTail ustr
  | DuplicateRule nat

record FormatError =
  err_line :: nat
  err_kind :: FormatErrorKind

datatype FormatReport = FullyValid | InvalidLines "FormatError list"

section \<open>Tokens\<close>

abbreviation brace_open :: uchar where "brace_open \<equiv> 0x7B"
abbreviation brace_close :: uchar where "brace_close \<equiv> 0x7D"
abbreviation tab :: uchar where "tab \<equiv> 0x09"
abbreviation newline :: uchar where "newline \<equiv> 0x0A"

definition COMPOSITION_SEPARATOR :: ustr where "COMPOSITION_SEPARATOR = ascii ''composition-separator''"
definition ANY_CHARACTER :: ustr where "ANY_CHARACTER = ascii ''any character''"
definition LEFT_BRACKET :: ustr where "LEFT_BRACKET = ascii ''lbracket''"
definition RIGHT_BRACKET :: ustr where "RIGHT_BRACKET = ascii ''rbracket''"
definition SHIFT_ZERO :: ustr where "SHIFT_ZERO = ascii ''shift 0''"
definition SHIFT_UNDERSCORE :: ustr where "SHIFT_UNDERSCORE = ascii ''shift _''"

definition shifted_key :: "ustr \<Rightarrow> InputPiece" where
  "shifted_key v = Key (Some v) v {Shift}"

definition key_token :: "ustr \<Rightarrow> KeyElement option" where
  "key_token token =
     (if token = COMPOSITION_SEPARATOR then Some (KPiece CompositionSeparator)
      else if token = ANY_CHARACTER then Some KAny
      else if token = LEFT_BRACKET then Some (KPiece (Character [brace_open]))
      else if token = RIGHT_BRACKET then Some (KPiece (Character [brace_close]))
      else if token = SHIFT_ZERO then Some (KPiece (shifted_key (ascii ''0'')))
      else if token = SHIFT_UNDERSCORE then Some (KPiece (shifted_key (ascii ''_'')))
      else None)"

definition value_token :: "ustr \<Rightarrow> ValueElement option" where
  "value_token token =
     (if token = ANY_CHARACTER then Some VAny
      else if token = LEFT_BRACKET then Some (VCharacter [brace_open])
      else if token = RIGHT_BRACKET then Some (VCharacter [brace_close])
      else None)"

section \<open>Parsing\<close>

text \<open>A token at the start of the text, if \<open>parse_token\<close> knows it.\<close>

definition brace_token :: "(ustr \<Rightarrow> 't option) \<Rightarrow> ustr \<Rightarrow> ('t \<times> ustr) option" where
  "brace_token parse_token remaining =
     (case strip_prefix [brace_open] remaining of
        None \<Rightarrow> None
      | Some rest \<Rightarrow>
          (case split_once brace_close rest of
             None \<Rightarrow> None
           | Some (token, rest) \<Rightarrow> map_option (\<lambda>t. (t, rest)) (parse_token token)))"

lemma brace_token_shorter: "brace_token f s = Some (t, rest) \<Longrightarrow> length rest < length s"
  by (auto simp: brace_token_def split: option.splits dest!: split_once_SomeD)

text \<open>
  Otherwise the first grapheme is an element. A segmenter gives a nonempty grapheme for nonempty text
  (\<^const>\<open>segments_text\<close>); where it does not, the source panics or does not end, and the model stops.
\<close>

function parse_elements :: "segmenter \<Rightarrow> (ustr \<Rightarrow> 't option) \<Rightarrow> (grapheme \<Rightarrow> 't) \<Rightarrow> ustr \<Rightarrow> 't list" where
  "parse_elements graphemes parse_token parse_grapheme remaining =
     (if remaining = [] then []
      else
        (case brace_token parse_token remaining of
           Some (element, rest) \<Rightarrow> element # parse_elements graphemes parse_token parse_grapheme rest
         | None \<Rightarrow>
             (case graphemes remaining of
                (c # g) # _ \<Rightarrow>
                  parse_grapheme (c # g) #
                    parse_elements graphemes parse_token parse_grapheme (drop (length (c # g)) remaining)
              | _ \<Rightarrow> [])))"
  by pat_completeness auto

termination
  by (relation "measure (\<lambda>(_, _, _, s). length s)") (auto dest: brace_token_shorter)

declare parse_elements.simps [simp del]

definition parse_key :: "segmenter \<Rightarrow> ustr \<Rightarrow> KeyElement list" where
  "parse_key graphemes = parse_elements graphemes key_token (\<lambda>g. KPiece (Character g))"

definition parse_value :: "segmenter \<Rightarrow> ustr \<Rightarrow> ValueElement list" where
  "parse_value graphemes = parse_elements graphemes value_token VCharacter"

definition parse_rule :: "segmenter \<Rightarrow> ustr \<Rightarrow> (KeyElement list \<times> ValueElement list) option" where
  "parse_rule graphemes line =
     (if trim line = [] then None
      else
        (case filter (\<lambda>column. column \<noteq> []) (split_on tab line) of
           k # v # _ \<Rightarrow> Some (parse_key graphemes k, parse_value graphemes v)
         | _ \<Rightarrow> None))"

definition from_custom_tsv :: "segmenter \<Rightarrow> ustr \<Rightarrow> InputTable" where
  "from_custom_tsv graphemes content = new_table (List.map_filter (parse_rule graphemes) (lines_of content))"

section \<open>Printing\<close>

definition braced :: "ustr \<Rightarrow> ustr" where
  "braced token = [brace_open] @ token @ [brace_close]"

definition encode_character :: "grapheme \<Rightarrow> ustr" where
  "encode_character v =
     (if v = [brace_open] then braced LEFT_BRACKET else if v = [brace_close] then braced RIGHT_BRACKET else v)"

text \<open>The error is the element that has no notation.\<close>

definition encode_key :: "KeyElement \<Rightarrow> KeyElement + ustr" where
  "encode_key element =
     (case element of
        KPiece (Character v) \<Rightarrow> Inr (encode_character v)
      | KPiece CompositionSeparator \<Rightarrow> Inr (braced COMPOSITION_SEPARATOR)
      | KPiece (Key intent inp mods) \<Rightarrow>
          if intent = Some (ascii ''0'') \<and> inp = ascii ''0'' \<and> mods = {Shift} then Inr (braced SHIFT_ZERO)
          else if intent = Some (ascii ''_'') \<and> inp = ascii ''_'' \<and> mods = {Shift} then Inr (braced SHIFT_UNDERSCORE)
          else Inl element
      | KAny \<Rightarrow> Inr (braced ANY_CHARACTER))"

fun encode_value :: "ValueElement \<Rightarrow> ustr" where
  "encode_value (VCharacter v) = encode_character v"
| "encode_value VAny = braced ANY_CHARACTER"

definition encode_rule :: "KeyElement list \<times> ValueElement list \<Rightarrow> KeyElement + ustr" where
  "encode_rule rule =
     (case collect (map encode_key (fst rule)) of
        Inl e \<Rightarrow> Inl e
      | Inr parts \<Rightarrow> Inr (concat parts @ [tab] @ concat (map encode_value (snd rule))))"

definition to_custom_tsv :: "InputTable \<Rightarrow> KeyElement + ustr" where
  "to_custom_tsv t =
     (case collect (map encode_rule (table_entries t)) of Inl e \<Rightarrow> Inl e | Inr ls \<Rightarrow> Inr (join [newline] ls))"

section \<open>Checking\<close>

definition known_tokens :: "FormatSide \<Rightarrow> ustr list" where
  "known_tokens side =
     (case side of
        KeySide \<Rightarrow> [COMPOSITION_SEPARATOR, ANY_CHARACTER, LEFT_BRACKET, RIGHT_BRACKET, SHIFT_ZERO, SHIFT_UNDERSCORE]
      | ValueSide \<Rightarrow> [ANY_CHARACTER, LEFT_BRACKET, RIGHT_BRACKET])"

text \<open>
  The loop of \<open>scan_tokens\<close>: the text still to scan, the errors so far, and the first shift token that is
  not at the end of a key.
\<close>

function scan_tokens :: "FormatSide \<Rightarrow> nat \<Rightarrow> ustr \<Rightarrow> FormatError list \<Rightarrow> ustr option \<Rightarrow> FormatError list \<times> ustr option" where
  "scan_tokens side line remaining errors not_at_tail =
     (case split_once brace_open remaining of
        None \<Rightarrow> (errors, not_at_tail)
      | Some (_, remaining) \<Rightarrow>
          (case split_once brace_close remaining of
             None \<Rightarrow> (errors @ [\<lparr>err_line = line, err_kind = UnclosedBrace\<rparr>], not_at_tail)
           | Some (token, remaining) \<Rightarrow>
               if brace_open \<in> set token
               then scan_tokens side line remaining (errors @ [\<lparr>err_line = line, err_kind = UnclosedBrace\<rparr>]) not_at_tail
               else
                 scan_tokens side line remaining
                   (if token \<in> set (known_tokens side) then errors
                    else errors @ [\<lparr>err_line = line, err_kind = UnknownBraceToken token side\<rparr>])
                   (if side = KeySide \<and> (token = SHIFT_ZERO \<or> token = SHIFT_UNDERSCORE) \<and> remaining \<noteq> [] \<and> not_at_tail = None
                    then Some token else not_at_tail)))"
  by pat_completeness auto

termination
  by (relation "measure (\<lambda>(_, _, s, _, _). length s)") (auto dest!: split_once_SomeD)

declare scan_tokens.simps [simp del]

text \<open>One line of \<open>check_custom_tsv\<close>; the state holds the errors and the line on which each key was first seen.\<close>

definition check_line ::
  "segmenter \<Rightarrow> nat \<times> ustr \<Rightarrow> FormatError list \<times> (KeyElement list \<rightharpoonup> nat) \<Rightarrow> FormatError list \<times> (KeyElement list \<rightharpoonup> nat)" where
  "check_line graphemes numbered state =
     (let (n, line) = numbered;
          (errors, first_seen) = state;
          report = (\<lambda>kind. \<lparr>err_line = n, err_kind = kind\<rparr>)
      in if trim line = [] then (errors, first_seen)
         else
           (let tabs = count_list line tab;
                errors = (if tabs \<noteq> 1 then errors @ [report (InvalidTabCount tabs)] else errors)
            in case split_once tab line of
                 None \<Rightarrow> (errors, first_seen)
               | Some (k, v) \<Rightarrow>
                   (let (errors, shift) = scan_tokens KeySide n k errors None;
                        (errors, _) = scan_tokens ValueSide n v errors None;
                        errors = (case shift of Some token \<Rightarrow> errors @ [report (ShiftTokenNotAtTail token)] | None \<Rightarrow> errors);
                        parsed = parse_key graphemes k
                    in case first_seen parsed of
                         Some first_defined_at \<Rightarrow> (errors @ [report (DuplicateRule first_defined_at)], first_seen)
                       | None \<Rightarrow> (errors, first_seen(parsed \<mapsto> n)))))"

definition check_custom_tsv :: "segmenter \<Rightarrow> ustr \<Rightarrow> FormatReport" where
  "check_custom_tsv graphemes content =
     (let errors = fst (fold (check_line graphemes) (enumerate 0 (split_on newline content)) ([], Map.empty))
      in if errors = [] then FullyValid else InvalidLines errors)"

section \<open>Printing and parsing\<close>

lemmas token_defs = COMPOSITION_SEPARATOR_def ANY_CHARACTER_def LEFT_BRACKET_def RIGHT_BRACKET_def SHIFT_ZERO_def
  SHIFT_UNDERSCORE_def ascii_def

text \<open>A character a rule can be written with.\<close>

definition printable :: "grapheme \<Rightarrow> bool" where
  "printable g \<longleftrightarrow>
     g = [brace_open] \<or> g = [brace_close] \<or> g \<noteq> [] \<and> set g \<inter> {brace_open, brace_close, tab, newline} = {}"

text \<open>
  The segmenter cuts the printed parts where they were joined: no character combines with the one before. Tokens are
  read by their braces.
\<close>

fun segmented :: "segmenter \<Rightarrow> ustr list \<Rightarrow> bool" where
  "segmented graphemes [] = True"
| "segmented graphemes (p # ps) =
     ((hd p \<noteq> brace_open \<longrightarrow> (case graphemes (concat (p # ps)) of g # _ \<Rightarrow> g = p | [] \<Rightarrow> False)) \<and> segmented graphemes ps)"

text \<open>How a printed part is read back.\<close>

definition reads :: "(ustr \<Rightarrow> 't option) \<Rightarrow> (grapheme \<Rightarrow> 't) \<Rightarrow> 't \<Rightarrow> ustr \<Rightarrow> bool" where
  "reads parse_token parse_grapheme e p \<longleftrightarrow>
     tab \<notin> set p \<and> newline \<notin> set p \<and>
     ((\<exists>token. p = braced token \<and> brace_close \<notin> set token \<and> parse_token token = Some e) \<or>
      p \<noteq> [] \<and> hd p \<noteq> brace_open \<and> parse_grapheme p = e)"

lemma reads_nonempty: "reads f g e p \<Longrightarrow> p \<noteq> []"
  by (auto simp: reads_def braced_def)

lemma brace_token_braced:
  "brace_close \<notin> set token \<Longrightarrow> brace_token f (braced token @ rest) = map_option (\<lambda>t. (t, rest)) (f token)"
  by (simp add: brace_token_def braced_def strip_prefix_def split_once_append)

lemma brace_token_plain: "p \<noteq> [] \<Longrightarrow> hd p \<noteq> brace_open \<Longrightarrow> brace_token f (p @ rest) = None"
  by (cases p) (simp_all add: brace_token_def strip_prefix_def)

lemma parse_elements_reads:
  "list_all2 (reads f g) es ps \<Longrightarrow> segmented graphemes ps \<Longrightarrow> parse_elements graphemes f g (concat ps) = es"
proof (induction rule: list_all2_induct)
  case Nil
  then show ?case by (simp add: parse_elements.simps)
next
  case (Cons e es p ps)
  have ne: "p @ concat ps \<noteq> []" using reads_nonempty [OF Cons(1)] by simp
  have ih: "parse_elements graphemes f g (concat ps) = es" using Cons by simp
  consider (token) token where "p = braced token" "brace_close \<notin> set token" "f token = Some e"
    | (plain) "p \<noteq> []" "hd p \<noteq> brace_open" "g p = e"
    using Cons(1) by (auto simp: reads_def)
  then show ?case
  proof cases
    case token
    then show ?thesis
      using ne ih brace_token_braced [of token f "concat ps"] by (simp add: parse_elements.simps [of graphemes f g "_ @ _"])
  next
    case plain
    obtain gs where gs: "graphemes (p @ concat ps) = p # gs"
      using Cons.prems plain(2) by (auto split: list.splits)
    obtain c q where "p = c # q" using plain(1) by (cases p) auto
    with gs plain ne ih brace_token_plain [OF plain(1,2), of f "concat ps"] show ?thesis
      by (simp add: parse_elements.simps [of graphemes f g "_ # _"])
  qed
qed

lemma encode_character_reads:
  assumes "printable v" and "f LEFT_BRACKET = Some (g [brace_open])" and "f RIGHT_BRACKET = Some (g [brace_close])"
  shows "reads f g (g v) (encode_character v)"
proof -
  have t: "set (braced LEFT_BRACKET) \<inter> {tab, newline} = {}" "set (braced RIGHT_BRACKET) \<inter> {tab, newline} = {}"
    "brace_close \<notin> set LEFT_BRACKET" "brace_close \<notin> set RIGHT_BRACKET"
    by (simp_all add: braced_def token_defs)
  show ?thesis
  proof (cases "v = [brace_open] \<or> v = [brace_close]")
    case True
    with t assms(2,3) show ?thesis by (auto simp: reads_def encode_character_def)
  next
    case False
    with assms(1) have "v \<noteq> []" "set v \<inter> {brace_open, brace_close, tab, newline} = {}" by (auto simp: printable_def)
    with False show ?thesis by (cases v) (auto simp: reads_def encode_character_def)
  qed
qed

fun key_printable :: "KeyElement \<Rightarrow> bool" where
  "key_printable (KPiece (Character v)) = printable v"
| "key_printable _ = True"

fun value_printable :: "ValueElement \<Rightarrow> bool" where
  "value_printable (VCharacter v) = printable v"
| "value_printable VAny = True"

lemma token_reads:
  assumes "set token \<inter> {brace_close, tab, newline} = {}" and "f token = Some e"
  shows "reads f g e (braced token)"
  using assms by (auto simp: reads_def braced_def)

lemma token_table:
  "key_token COMPOSITION_SEPARATOR = Some (KPiece CompositionSeparator)" "key_token ANY_CHARACTER = Some KAny"
  "key_token LEFT_BRACKET = Some (KPiece (Character [brace_open]))"
  "key_token RIGHT_BRACKET = Some (KPiece (Character [brace_close]))"
  "key_token SHIFT_ZERO = Some (KPiece (shifted_key (ascii ''0'')))"
  "key_token SHIFT_UNDERSCORE = Some (KPiece (shifted_key (ascii ''_'')))"
  "value_token ANY_CHARACTER = Some VAny" "value_token LEFT_BRACKET = Some (VCharacter [brace_open])"
  "value_token RIGHT_BRACKET = Some (VCharacter [brace_close])"
  by (simp_all add: key_token_def value_token_def token_defs)

lemma tokens_clean:
  "set COMPOSITION_SEPARATOR \<inter> {brace_close, tab, newline} = {}" "set ANY_CHARACTER \<inter> {brace_close, tab, newline} = {}"
  "set SHIFT_ZERO \<inter> {brace_close, tab, newline} = {}" "set SHIFT_UNDERSCORE \<inter> {brace_close, tab, newline} = {}"
  by (simp_all add: token_defs)

lemma reads_tokens:
  "reads key_token (\<lambda>g. KPiece (Character g)) KAny (braced ANY_CHARACTER)"
  "reads key_token (\<lambda>g. KPiece (Character g)) (KPiece CompositionSeparator) (braced COMPOSITION_SEPARATOR)"
  "reads key_token (\<lambda>g. KPiece (Character g)) (KPiece (shifted_key (ascii ''0''))) (braced SHIFT_ZERO)"
  "reads key_token (\<lambda>g. KPiece (Character g)) (KPiece (shifted_key (ascii ''_''))) (braced SHIFT_UNDERSCORE)"
  "reads value_token VCharacter VAny (braced ANY_CHARACTER)"
  by (intro token_reads tokens_clean token_table)+

lemma encode_key_reads:
  assumes "key_printable e" and "encode_key e = Inr p"
  shows "reads key_token (\<lambda>g. KPiece (Character g)) e p"
proof (cases e)
  case KAny
  with assms(2) show ?thesis by (auto simp: encode_key_def reads_tokens)
next
  case (KPiece piece)
  show ?thesis
  proof (cases piece)
    case (Character v)
    with KPiece assms have "printable v" "p = encode_character v" by (simp_all add: encode_key_def)
    with encode_character_reads [of v key_token "\<lambda>g. KPiece (Character g)"] Character KPiece show ?thesis
      by (simp add: token_table)
  next
    case CompositionSeparator
    with KPiece assms(2) show ?thesis by (auto simp: encode_key_def reads_tokens)
  next
    case (Key intent inp mods)
    with KPiece assms(2) show ?thesis
      using reads_tokens(3,4) [unfolded shifted_key_def] by (auto simp: encode_key_def split: if_splits)
  qed
qed

lemma encode_value_reads: "value_printable e \<Longrightarrow> reads value_token VCharacter e (encode_value e)"
  using encode_character_reads [of _ value_token VCharacter]
  by (cases e) (simp_all add: token_table reads_tokens)

text \<open>The rules that survive being written: what \<open>from_custom_tsv\<close> can take up again.\<close>

definition writable :: "segmenter \<Rightarrow> KeyElement list \<times> ValueElement list \<Rightarrow> bool" where
  "writable graphemes rule \<longleftrightarrow>
     fst rule \<noteq> [] \<and> snd rule \<noteq> [] \<and> list_all key_printable (fst rule) \<and> list_all value_printable (snd rule) \<and>
     (case collect (map encode_key (fst rule)) of Inl _ \<Rightarrow> True | Inr parts \<Rightarrow> segmented graphemes parts) \<and>
     segmented graphemes (map encode_value (snd rule)) \<and>
     (case encode_rule rule of Inl _ \<Rightarrow> True | Inr line \<Rightarrow> trim line \<noteq> [] \<and> last line \<noteq> 0x0D)"

lemma list_all2_reads_clean: "list_all2 (reads f g) es ps \<Longrightarrow> tab \<notin> set (concat ps) \<and> newline \<notin> set (concat ps)"
  by (induction rule: list_all2_induct) (auto simp: reads_def)

lemma list_all2_reads_nonempty: "list_all2 (reads f g) es ps \<Longrightarrow> es \<noteq> [] \<Longrightarrow> concat ps \<noteq> []"
  by (cases es; cases ps) (auto dest: reads_nonempty)

lemma parse_encoded_rule:
  assumes "writable graphemes rule" and "encode_rule rule = Inr line"
  shows "parse_rule graphemes line = Some rule" and "line \<noteq> []" and "newline \<notin> set line" and "last line \<noteq> 0x0D"
proof -
  obtain k v where rule: "rule = (k, v)" by (cases rule)
  obtain parts where parts: "map encode_key k = map Inr parts" and line: "line = concat parts @ [tab] @ concat (map encode_value v)"
    using assms(2) by (auto simp: encode_rule_def rule collect_Inr split: sum.splits)
  have len: "length k = length parts" using arg_cong [OF parts, of length] by simp
  note w = assms(1) [unfolded writable_def rule, simplified]
  have rk: "list_all2 (reads key_token (\<lambda>g. KPiece (Character g))) k parts"
  proof (rule list_all2_all_nthI [OF len])
    fix i assume i: "i < length k"
    have "encode_key (k ! i) = Inr (parts ! i)" using arg_cong [OF parts, of "\<lambda>xs. xs ! i"] i len by simp
    with w i show "reads key_token (\<lambda>g. KPiece (Character g)) (k ! i) (parts ! i)"
      by (intro encode_key_reads) (simp_all add: list_all_length)
  qed
  have rv: "list_all2 (reads value_token VCharacter) v (map encode_value v)"
    by (rule list_all2_all_nthI) (use w in \<open>auto simp: list_all_length intro: encode_value_reads\<close>)
  have c: "collect (map encode_key k) = Inr parts" using parts by (simp add: collect_Inr)
  have sk: "segmented graphemes parts" and sv: "segmented graphemes (map encode_value v)" using w c by simp_all
  note ck = list_all2_reads_clean [OF rk] and cv = list_all2_reads_clean [OF rv]
  have ne: "concat parts \<noteq> []" "concat (map encode_value v) \<noteq> []"
    using list_all2_reads_nonempty [OF rk] list_all2_reads_nonempty [OF rv] w by blast+
  have "split_on tab line = [concat parts, concat (map encode_value v)]"
    using ck cv by (simp add: line split_on_append split_on_none del: set_concat)
  moreover have "trim line \<noteq> []" using w assms(2) rule by simp
  ultimately show "parse_rule graphemes line = Some rule"
    using ne parse_elements_reads [OF rk sk] parse_elements_reads [OF rv sv]
    by (simp add: parse_rule_def parse_key_def parse_value_def rule del: concat_eq_Nil_conv)
  show "line \<noteq> []" "newline \<notin> set line" using ck cv by (simp_all add: line del: set_concat)
  show "last line \<noteq> 0x0D" using w assms(2) rule by simp
qed

lemma new_table_entries: "new_table (table_entries (new_table es)) = new_table es"
proof -
  let ?ms = "fold (\<lambda>(k, v). upsert_mapping k v) es []"
  have "distinct (map fst (rule_pairs ?ms))"
    using new_table_entries_distinct [of es] by (simp add: new_table_def table_entries_def Let_def)
  from upserts_distinct [OF this, of "[]"] have "fold (\<lambda>(k, v). upsert_mapping k v) (rule_pairs ?ms) [] = ?ms"
    by (simp add: comp_def map_idI)
  then show ?thesis by (simp add: new_table_def table_entries_def Let_def)
qed

section \<open>A table without reported errors\<close>

definition key_of :: "segmenter \<Rightarrow> ustr \<Rightarrow> KeyElement list" where
  "key_of graphemes line = parse_key graphemes (takeWhile (\<lambda>c. c \<noteq> tab) line)"

text \<open>What a line without a report of its own looks like.\<close>

lemma scan_tokens_keeps: "fst (scan_tokens side n s errors shift) = [] \<Longrightarrow> errors = []"
proof (induction side n s errors shift rule: scan_tokens.induct)
  case (1 side n s errors shift)
  note eq = scan_tokens.simps [of side n s errors shift]
  show ?case
  proof (cases "split_once brace_open s")
    case None
    with 1(3) show ?thesis by (simp add: eq)
  next
    case ob: (Some p)
    obtain a r where p: "p = (a, r)" by (cases p)
    show ?thesis
    proof (cases "split_once brace_close r")
      case None
      with 1(3) ob p show ?thesis by (simp add: eq)
    next
      case cb: (Some q)
      obtain token r' where q: "q = (token, r')" by (cases q)
      show ?thesis
      proof (cases "brace_open \<in> set token")
        case True
        with 1(1) [OF ob p [symmetric] cb q [symmetric]] 1(3) ob cb p q show ?thesis by (simp add: eq)
      next
        case False
        with 1(2) [OF ob p [symmetric] cb q [symmetric]] 1(3) ob cb p q show ?thesis
          by (simp add: eq split: if_splits)
      qed
    qed
  qed
qed

lemma check_line_silent:
  assumes "fst (check_line graphemes (n, line) (errors, seen)) = []"
  shows "errors = []" and "trim line \<noteq> [] \<Longrightarrow> count_list line tab = 1"
    and "trim line \<noteq> [] \<Longrightarrow> seen (key_of graphemes line) = None"
    and "snd (check_line graphemes (n, line) (errors, seen)) =
      (if trim line = [] then seen else seen(key_of graphemes line \<mapsto> n))"
proof -
  consider (blank) "trim line = []" | (none) "trim line \<noteq> []" "split_once tab line = None"
    | (some) k v where "trim line \<noteq> []" "split_once tab line = Some (k, v)"
    by (cases "trim line = []"; cases "split_once tab line") auto
  then have *: "errors = [] \<and> (trim line \<noteq> [] \<longrightarrow> count_list line tab = 1 \<and> seen (key_of graphemes line) = None) \<and>
      snd (check_line graphemes (n, line) (errors, seen)) = (if trim line = [] then seen else seen(key_of graphemes line \<mapsto> n))"
  proof cases
    case blank
    with assms show ?thesis by (simp add: check_line_def)
  next
    case none
    then have "count_list line tab = 0" by (simp add: count_list_0_iff split_once_None)
    with none assms show ?thesis by (simp add: check_line_def Let_def)
  next
    case some
    let ?e = "if count_list line tab \<noteq> 1 then errors @ [\<lparr>err_line = n, err_kind = InvalidTabCount (count_list line tab)\<rparr>] else errors"
    obtain e1 shift where s1: "scan_tokens KeySide n k ?e None = (e1, shift)" by fastforce
    obtain e2 z where s2: "scan_tokens ValueSide n v e1 None = (e2, z)" by fastforce
    have key: "parse_key graphemes k = key_of graphemes line"
      using some(2) by (auto simp: key_of_def split_once_def split: if_splits)
    note silent = assms [unfolded check_line_def Let_def prod.case, simplified some option.case s1 prod.case s2 key]
    have "seen (key_of graphemes line) = None" "e2 = []"
      using silent s1 s2 some by (auto split: option.splits)
    moreover from this have "e1 = []" using scan_tokens_keeps [of ValueSide n v e1 None] s2 by simp
    moreover from this have "?e = []" using scan_tokens_keeps [of KeySide n k ?e None] s1 by simp
    moreover from this have "errors = []" "count_list line tab = 1" by (auto split: if_splits)
    ultimately show ?thesis
      using some s1 s2 key by (simp add: check_line_def Let_def)
  qed
  from * show "errors = []" "trim line \<noteq> [] \<Longrightarrow> count_list line tab = 1"
    "trim line \<noteq> [] \<Longrightarrow> seen (key_of graphemes line) = None"
    "snd (check_line graphemes (n, line) (errors, seen)) = (if trim line = [] then seen else seen(key_of graphemes line \<mapsto> n))"
    by blast+
qed

abbreviation rule_lines :: "ustr list \<Rightarrow> ustr list" where
  "rule_lines \<equiv> filter (\<lambda>line. trim line \<noteq> [])"

lemma check_lines_silent:
  assumes "fst (fold (check_line graphemes) (enumerate n ls) (errors, seen)) = []"
  shows "errors = [] \<and> list_all (\<lambda>line. count_list line tab = 1) (rule_lines ls) \<and>
    distinct (map (key_of graphemes) (rule_lines ls)) \<and>
    (\<forall>line \<in> set (rule_lines ls). seen (key_of graphemes line) = None)"
  using assms
proof (induction ls arbitrary: n errors seen)
  case (Cons line ls)
  obtain e s where c: "check_line graphemes (n, line) (errors, seen) = (e, s)" by fastforce
  from Cons.prems have "fst (fold (check_line graphemes) (enumerate (Suc n) ls) (e, s)) = []" by (simp add: c)
  note ih = Cons.IH [OF this]
  then have "fst (check_line graphemes (n, line) (errors, seen)) = []" by (simp add: c)
  note silent = check_line_silent [OF this, unfolded c, simplified]
  show ?case
  proof (cases "trim line = []")
    case True
    with ih silent show ?thesis by simp
  next
    case False
    with silent have s: "s = seen(key_of graphemes line \<mapsto> n)" by simp
    have other: "key_of graphemes l \<noteq> key_of graphemes line \<and> seen (key_of graphemes l) = None" if "l \<in> set (rule_lines ls)" for l
      using ih that unfolding s by (metis fun_upd_apply option.discI)
    have "key_of graphemes line \<notin> key_of graphemes ` set (rule_lines ls)"
    proof
      assume "key_of graphemes line \<in> key_of graphemes ` set (rule_lines ls)"
      then obtain l where "l \<in> set (rule_lines ls)" "key_of graphemes line = key_of graphemes l" by (rule imageE)
      with other show False by metis
    qed
    moreover have "\<forall>l \<in> set (rule_lines ls). seen (key_of graphemes l) = None" using other by (intro ballI) simp
    ultimately show ?thesis using ih silent False by simp
  qed
qed simp

lemma strip_cr_cases:
  obtains (plain) "strip_cr s = s" | (cr) t where "s = t @ [0x0D]" "strip_cr s = t"
proof (cases s rule: rev_cases)
  case (snoc t c)
  then show thesis using plain cr by (cases "c = 0x0D") (simp_all add: strip_cr_def)
qed (use plain in \<open>simp add: strip_cr_def\<close>)

lemma blank_strip_cr: "trim (strip_cr s) = [] \<longleftrightarrow> trim s = []"
  by (cases s rule: strip_cr_cases) (simp_all add: trim_empty_iff is_whitespace_def)

lemma strip_cr_line:
  assumes "count_list s tab = 1"
  shows "count_list (strip_cr s) tab = 1" and "key_of graphemes (strip_cr s) = key_of graphemes s"
proof -
  have "tab \<in> set s" using assms count_notin by fastforce
  show "count_list (strip_cr s) tab = 1" using assms by (cases s rule: strip_cr_cases) simp_all
  show "key_of graphemes (strip_cr s) = key_of graphemes s"
    using \<open>tab \<in> set s\<close> by (cases s rule: strip_cr_cases) (auto simp: key_of_def takeWhile_append)
qed

lemma parse_rule_blank: "trim line = [] \<Longrightarrow> parse_rule graphemes line = None"
  by (simp add: parse_rule_def)

lemma checked_lines:
  assumes "check_custom_tsv graphemes content = FullyValid"
  shows "list_all (\<lambda>line. count_list line tab = 1) (rule_lines (lines_of content))"
    and "distinct (map (key_of graphemes) (rule_lines (lines_of content)))"
proof -
  let ?ps = "split_on newline content"
  have "fst (fold (check_line graphemes) (enumerate 0 ?ps) ([], Map.empty)) = []"
    using assms by (simp add: check_custom_tsv_def Let_def split: if_splits)
  note silent = check_lines_silent [OF this]
  have parts: "?ps = butlast ?ps @ [last ?ps]" by simp
  let ?bs = "rule_lines (butlast ?ps)" and ?l = "rule_lines (if last ?ps = [] then [] else [last ?ps])"
  have blank: "trim [] = []" by (simp add: trim_empty_iff)
  have ls: "rule_lines (lines_of content) = map strip_cr ?bs @ ?l"
    by (simp add: lines_of_def Let_def filter_map comp_def blank_strip_cr)
  have rs: "rule_lines ?ps = ?bs @ ?l"
    by (subst parts) (simp add: blank del: append_butlast_last_id)
  have one: "list_all (\<lambda>line. count_list line tab = 1) ?bs" "list_all (\<lambda>line. count_list line tab = 1) ?l"
    using silent by (simp_all add: rs)
  have "list_all (\<lambda>line. count_list line tab = 1) (map strip_cr ?bs)"
    using one(1) by (auto simp: list_all_iff strip_cr_line)
  with one(2) show "list_all (\<lambda>line. count_list line tab = 1) (rule_lines (lines_of content))"
    by (simp only: ls list_all_append)
  have "map (key_of graphemes) (map strip_cr ?bs) = map (key_of graphemes) ?bs"
    using one(1) by (simp add: list_all_iff strip_cr_line)
  then have "map (key_of graphemes) (rule_lines (lines_of content)) = map (key_of graphemes) (rule_lines ?ps)"
    unfolding ls rs by (simp only: map_append)
  with silent show "distinct (map (key_of graphemes) (rule_lines (lines_of content)))" by simp
qed

lemma parse_checked_line:
  assumes "count_list line tab = 1" and "trim line \<noteq> []" and "hd line \<noteq> tab" and "last line \<noteq> tab"
  shows "parse_rule graphemes line = Some (key_of graphemes line, parse_value graphemes (tl (dropWhile (\<lambda>c. c \<noteq> tab) line)))"
proof -
  have "tab \<in> set line" using assms(1) count_notin by fastforce
  then obtain k v where kv: "split_once tab line = Some (k, v)" by (auto simp: split_once_def)
  then have line: "line = k @ tab # v" "tab \<notin> set k" using split_once_SomeD by fastforce+
  with assms(1) have v: "tab \<notin> set v" by (simp add: count_list_0_iff)
  have "k \<noteq> []" "v \<noteq> []" using assms(3,4) line by (auto simp: hd_append)
  moreover have "k = takeWhile (\<lambda>c. c \<noteq> tab) line" "v = tl (dropWhile (\<lambda>c. c \<noteq> tab) line)"
    using kv by (auto simp: split_once_def split: if_splits)
  moreover have "split_on tab line = [k, v]" using line v by (simp add: split_on_append split_on_none)
  ultimately show ?thesis using assms(2) by (simp add: parse_rule_def key_of_def)
qed

lemma map_filter_all: "list_all (\<lambda>x. f x = Some (g x)) xs \<Longrightarrow> List.map_filter f xs = map g xs"
  by (induction xs) (simp_all add: List.map_filter_simps)

section \<open>Properties\<close>


definition sample_rules :: "(KeyElement list \<times> ValueElement list) list" where
  "sample_rules =
     [([KPiece (Character [0x6E]), KAny], [VCharacter [0x3093], VAny]),
      ([KPiece (Character [0x7B]), KPiece (shifted_key [0x5F])], [VCharacter [0x7D]])]"


text \<open>
  A text about which \<open>check_custom_tsv\<close> reports nothing, and in which no rule lacks its key or its value, becomes
  a table with one rule for each line that is not blank, in their order, and nothing else: no line is dropped, merged with
  another, or read differently from the way it is written.
\<close>

theorem checked_table_complete:
  assumes "check_custom_tsv graphemes content = FullyValid"
    and "list_all (\<lambda>line. hd line \<noteq> tab \<and> last line \<noteq> tab) (filter (\<lambda>line. trim line \<noteq> []) (lines_of content))"
  shows "table_entries (from_custom_tsv graphemes content) =
    map (\<lambda>line. (parse_key graphemes (takeWhile (\<lambda>c. c \<noteq> tab) line),
                 parse_value graphemes (tl (dropWhile (\<lambda>c. c \<noteq> tab) line))))
      (filter (\<lambda>line. trim line \<noteq> []) (lines_of content))"
proof -
  let ?g = "\<lambda>line. (key_of graphemes line, parse_value graphemes (tl (dropWhile (\<lambda>c. c \<noteq> tab) line)))"
  note checked = checked_lines [OF assms(1)]
  have "List.map_filter (parse_rule graphemes) ls = List.map_filter (parse_rule graphemes) (rule_lines ls)" for ls
    by (induction ls) (simp_all add: List.map_filter_simps parse_rule_blank split: option.split)
  then have "List.map_filter (parse_rule graphemes) (lines_of content) =
      List.map_filter (parse_rule graphemes) (rule_lines (lines_of content))" .
  also have "\<dots> = map ?g (rule_lines (lines_of content))"
    by (rule map_filter_all) (use checked(1) assms(2) in \<open>auto simp: list_all_iff intro: parse_checked_line\<close>)
  finally have "List.map_filter (parse_rule graphemes) (lines_of content) = map ?g (rule_lines (lines_of content))" .
  moreover have "distinct (map fst (map ?g (rule_lines (lines_of content))))" using checked(2) by (simp add: comp_def)
  ultimately show ?thesis by (simp add: from_custom_tsv_def table_entries_new_distinct key_of_def)
qed

theorem checked_table_complete_witness:
  "table_entries (from_custom_tsv scalar_graphemes [0x6B, 0x61, 0x09, 0x304B, 0x0D, 0x0A, 0x0A, 0x6E, 0x09, 0x3093]) =
     [([KPiece (Character [0x6B]), KPiece (Character [0x61])], [VCharacter [0x304B]]),
      ([KPiece (Character [0x6E])], [VCharacter [0x3093]])]"
proof -
  let ?c = "[0x6B, 0x61, 0x09, 0x304B, 0x0D, 0x0A, 0x0A, 0x6E, 0x09, 0x3093] :: ustr"
  have 1: "check_custom_tsv scalar_graphemes ?c = FullyValid" by code_simp
  have 2: "list_all (\<lambda>line. hd line \<noteq> tab \<and> last line \<noteq> tab) (filter (\<lambda>line. trim line \<noteq> []) (lines_of ?c))" by code_simp
  have 3: "map (\<lambda>line. (parse_key scalar_graphemes (takeWhile (\<lambda>c. c \<noteq> tab) line),
        parse_value scalar_graphemes (tl (dropWhile (\<lambda>c. c \<noteq> tab) line)))) (filter (\<lambda>line. trim line \<noteq> []) (lines_of ?c)) =
      [([KPiece (Character [0x6B]), KPiece (Character [0x61])], [VCharacter [0x304B]]),
       ([KPiece (Character [0x6E])], [VCharacter [0x3093]])]" by code_simp
  show ?thesis using checked_table_complete [OF 1 2] by (simp only: 3)
qed

text \<open>
  A rule between blanks, such as one that maps a space to an ideographic space, is dropped as if its line were empty,
  and so is a rule without a value; neither is reported.
\<close>

lemma blank_rule_dropped:
  "check_custom_tsv scalar_graphemes [0x20, 0x09, 0x3000] = FullyValid"
  "from_custom_tsv scalar_graphemes [0x20, 0x09, 0x3000] = empty_table"
  by code_simp+

lemma empty_value_dropped:
  "check_custom_tsv scalar_graphemes [0x61, 0x09] = FullyValid"
  "from_custom_tsv scalar_graphemes [0x61, 0x09] = empty_table"
  by code_simp+

end
