(* ===== verification/Bytes.thy ===== *)
theory Bytes
  imports Codec
begin

unbundle bit_operations_syntax

text \<open>
  The little-endian bytes of an integer (\<open>to_le_bytes\<close> and \<open>from_le_bytes\<close>), shared by the dictionary files and the
  files of the learning memory.
\<close>

definition le_bytes :: "nat \<Rightarrow> 'a::len word \<Rightarrow> byte list" where
  "le_bytes n w = map (\<lambda>i. ucast (drop_bit (8 * i) w)) [0..<n]"

fun from_le_bytes :: "byte list \<Rightarrow> 'a::len word" where
  "from_le_bytes [] = 0"
| "from_le_bytes (b # bs) = ucast b OR push_bit 8 (from_le_bytes bs)"

lemma length_le_bytes [simp]: "length (le_bytes n w) = n"
  by (simp add: le_bytes_def)

lemma le_bytes_Suc: "le_bytes (Suc n) w = ucast w # le_bytes n (drop_bit 8 w)"
  by (simp add: le_bytes_def upt_conv_Cons map_Suc_upt [symmetric] comp_def add.commute del: upt_Suc)

lemma split_byte:
  fixes w :: "'a::len word"
  assumes "8 \<le> LENGTH('a)"
  shows "ucast (ucast w :: byte) OR push_bit 8 (drop_bit 8 w) = w"
proof (rule bit_word_eqI)
  fix i assume "i < LENGTH('a)"
  moreover have "8 + (i - 8) = (if i < 8 then 8 else i)" by simp
  ultimately show "bit (ucast (ucast w :: byte) OR push_bit 8 (drop_bit 8 w)) i = bit w i"
    by (auto simp: bit_or_iff bit_push_bit_iff bit_drop_bit_eq bit_unsigned_iff bit_ucast_iff)
qed

lemma from_le_le_bytes:
  fixes w :: "'a::len word"
  assumes "8 \<le> LENGTH('a)" and "uint w < 2 ^ (8 * n)"
  shows "from_le_bytes (le_bytes n w) = w"
  using assms(2)
proof (induction n arbitrary: w)
  case 0
  then have "uint w < 1" by simp
  with uint_ge_0 [of w] have "uint w = 0" by linarith
  then show ?case by (simp add: le_bytes_def uint_0_iff)
next
  case (Suc n)
  have "uint (drop_bit 8 w) = drop_bit 8 (uint w)"
    by (simp only: unsigned_drop_bit_eq bintr_uint [OF order_refl])
  then have "uint (drop_bit 8 w) = uint w div 2 ^ 8" by (simp only: drop_bit_eq_div)
  moreover have "uint w < 2 ^ (8 * n) * 2 ^ 8" using Suc.prems by (simp add: power_add mult.commute)
  then have "uint w div 2 ^ 8 < 2 ^ (8 * n)"
  proof (rule contrapos_pp)
    assume "\<not> uint w div 2 ^ 8 < 2 ^ (8 * n)"
    then have "2 ^ (8 * n) * 2 ^ 8 \<le> uint w div 2 ^ 8 * 2 ^ 8" by (intro mult_right_mono) simp_all
    also have "\<dots> \<le> uint w" using div_mult_mod_eq [of "uint w" "2 ^ 8"] pos_mod_sign [of "2 ^ 8" "uint w"] by simp
    finally show "\<not> uint w < 2 ^ (8 * n) * 2 ^ 8" by simp
  qed
  ultimately have "uint (drop_bit 8 w) < 2 ^ (8 * n)" by simp
  then have "from_le_bytes (le_bytes n (drop_bit 8 w)) = drop_bit 8 w" by (rule Suc.IH)
  then show ?case using assms(1) by (simp add: le_bytes_Suc split_byte)
qed

lemma from_le_bytes_all:
  fixes w :: "'a::len word"
  assumes "8 * n = LENGTH('a)" and "0 < n"
  shows "from_le_bytes (le_bytes n w) = w"
  by (rule from_le_le_bytes) (use assms uint_lt2p [of w] in \<open>simp_all flip: assms(1)\<close>)

lemma from_le_bytes_16 [simp]: "from_le_bytes (le_bytes 2 (w :: 16 word)) = w"
  and from_le_bytes_32 [simp]: "from_le_bytes (le_bytes 4 (w' :: 32 word)) = w'"
  and from_le_bytes_64 [simp]: "from_le_bytes (le_bytes 8 (w'' :: 64 word)) = w''"
  by (simp_all add: from_le_bytes_all)

end
