(* ===== verification/Louds.thy ===== *)
theory Louds
  imports Bytes
begin

unbundle bit_operations_syntax

text \<open>
  \<open>crates/converter/src/dictionary/louds.rs\<close>: the tries of the dictionaries as level-order unary degree sequences. For
  each node, in the order of a breadth-first walk, the bit string has a one for every child and then a zero; a zero
  position therefore tells which nodes are the children of which. Indices are natural numbers: they are bounded by the
  size of a file.
\<close>

section \<open>Character identifiers\<close>

datatype LoudsError =
    InvalidWordLength nat
  | MissingZeroDelimiters nat nat
  | NodeTableTooLarge nat
  | InvalidTopology nat nat

type_synonym CharacterIdMap = "grapheme \<rightharpoonup> byte"

text \<open>A grapheme that occurs twice has the later number, as the map is filled from the front.\<close>

definition parse_character_ids :: "segmenter \<Rightarrow> ustr \<Rightarrow> LoudsError + CharacterIdMap" where
  "parse_character_ids graphemes content =
     (let gs = graphemes content
      in if length gs > 256 then Inl (NodeTableTooLarge (length gs))
         else Inr (map_of (rev (zip gs (map of_nat [0..<length gs])))))"

definition encode_ids :: "segmenter \<Rightarrow> CharacterIdMap \<Rightarrow> ustr \<Rightarrow> byte list option" where
  "encode_ids graphemes ids v = those (map ids (graphemes v))"

section \<open>Parsing\<close>

record Louds =
  node_ids :: "byte list"
  child_ranges :: "(nat \<times> nat) list"

text \<open>
  The two loops that collect the positions of the zeros, the most significant bit of each word first, until there is
  one for each node: first through the bits of a word, then through the words.
\<close>

fun scan_word :: "nat \<Rightarrow> 64 word \<Rightarrow> nat list \<Rightarrow> nat list \<Rightarrow> nat \<Rightarrow> nat list \<times> nat" where
  "scan_word needed w [] zeros pos = (zeros, pos)"
| "scan_word needed w (shift # shifts) zeros pos =
     (if \<not> bit w shift
      then
        (if length (zeros @ [pos]) = needed then (zeros @ [pos], pos)
         else scan_word needed w shifts (zeros @ [pos]) (Suc pos))
      else scan_word needed w shifts zeros (Suc pos))"

fun scan_words :: "nat \<Rightarrow> 64 word list \<Rightarrow> nat list \<Rightarrow> nat \<Rightarrow> nat list" where
  "scan_words needed [] zeros pos = zeros"
| "scan_words needed (w # ws) zeros pos =
     (case scan_word needed w (rev [0..<64]) zeros pos of
        (zeros, pos) \<Rightarrow> if length zeros = needed then zeros else scan_words needed ws zeros pos)"

text \<open>The children of a node; \<open>checked_sub\<close> fails when the zeros come too early.\<close>

definition child_range_of :: "nat list \<Rightarrow> nat \<Rightarrow> nat \<Rightarrow> LoudsError + (nat \<times> nat)" where
  "child_range_of zeros count node =
     (if zeros ! (node - 1) < node then Inl (InvalidTopology node (zeros ! (node - 1)))
      else if zeros ! node < node then Inl (InvalidTopology node (zeros ! node))
      else Inr (min (zeros ! (node - 1) - node + 2) count, min (zeros ! node - node + 1) count))"

definition parse_louds :: "byte list \<Rightarrow> byte list \<Rightarrow> LoudsError + Louds" where
  "parse_louds bits ids =
     (if length bits mod 8 \<noteq> 0 then Inl (InvalidWordLength (length bits))
      else
        (let needed = length ids;
             zeros = scan_words needed (map from_le_bytes (chunks 8 bits)) [] 0
         in if length zeros < needed then Inl (MissingZeroDelimiters needed (length zeros))
            else
              (case collect (map (child_range_of zeros needed) [1..<needed]) of
                 Inl e \<Rightarrow> Inl e
               | Inr ranges \<Rightarrow>
                   Inr \<lparr>node_ids = ids, child_ranges = (if needed = 0 then [] else (0, 0) # ranges)\<rparr>)))"

section \<open>Searching\<close>

definition child_range :: "Louds \<Rightarrow> nat \<Rightarrow> nat list" where
  "child_range l parent =
     (if parent < length (child_ranges l) then [fst (child_ranges l ! parent)..<snd (child_ranges l ! parent)] else [])"

definition node_count :: "Louds \<Rightarrow> nat" where
  "node_count l = length (node_ids l)"

definition search_child :: "Louds \<Rightarrow> nat \<Rightarrow> byte \<Rightarrow> nat option" where
  "search_child l parent c = find (\<lambda>i. i < length (node_ids l) \<and> node_ids l ! i = c) (child_range l parent)"

fun search_from :: "Louds \<Rightarrow> nat \<Rightarrow> byte list \<Rightarrow> nat option" where
  "search_from l node [] = Some node"
| "search_from l node (c # cs) = (case search_child l node c of None \<Rightarrow> None | Some n \<Rightarrow> search_from l n cs)"

definition search :: "Louds \<Rightarrow> byte list \<Rightarrow> nat option" where
  "search l ids = search_from l 1 ids"

text \<open>
  \<open>descendants_from\<close> and its loop over the children. The output is not empty in the loop, since it starts with all
  children; so every recursive call has a smaller bound, and the recursion ends on any file, also on one whose
  ranges form a cycle.
\<close>

function descendants_from :: "Louds \<Rightarrow> nat \<Rightarrow> nat \<Rightarrow> nat \<Rightarrow> nat \<Rightarrow> nat list"
  and descend_children :: "Louds \<Rightarrow> nat list \<Rightarrow> nat \<Rightarrow> nat \<Rightarrow> nat \<Rightarrow> nat list \<Rightarrow> nat list" where
  "descendants_from l parent depth max_depth max_count =
     (let direct = child_range l parent
      in if depth = max_depth then direct
         else descend_children l direct depth max_depth max_count direct)"
| "descend_children l [] depth max_depth max_count output = output"
| "descend_children l (child # children) depth max_depth max_count [] = []"
| "descend_children l (child # children) depth max_depth max_count (x # xs) =
     (if length (x # xs) > max_count then x # xs
      else
        descend_children l children depth max_depth max_count
          ((x # xs) @ descendants_from l child (Suc depth) max_depth (max_count - length (x # xs))))"
  by pat_completeness auto

termination
  by (relation "inv_image (less_than <*lex*> less_than <*lex*> less_than)
        (\<lambda>args. case args of
           Inl (l, parent, depth, max_depth, max_count) \<Rightarrow> (max_count, 1 :: nat, 0 :: nat)
         | Inr (l, children, depth, max_depth, max_count, output) \<Rightarrow> (max_count, 0, length children))")
    auto

definition descendants :: "Louds \<Rightarrow> byte list \<Rightarrow> nat \<Rightarrow> nat \<Rightarrow> nat list" where
  "descendants l ids max_depth max_count =
     (case search l ids of None \<Rightarrow> [] | Some root \<Rightarrow> descendants_from l root 0 max_depth max_count)"

section \<open>What a degree sequence parses to\<close>

text \<open>The positions of the zeros of a bit string.\<close>

fun zeros_of :: "nat \<Rightarrow> bool list \<Rightarrow> nat list" where
  "zeros_of pos [] = []"
| "zeros_of pos (b # bs) = (if b then zeros_of (Suc pos) bs else pos # zeros_of (Suc pos) bs)"

lemma zeros_of_append: "zeros_of pos (xs @ ys) = zeros_of pos xs @ zeros_of (pos + length xs) ys"
  by (induction xs arbitrary: pos) simp_all

lemma zeros_of_ones [simp]: "zeros_of pos (replicate n True) = []"
  by (induction n arbitrary: pos) simp_all

definition word_bits :: "64 word \<Rightarrow> bool list" where
  "word_bits w = map (bit w) (rev [0..<64])"

lemma scan_word_zeros:
  "length zeros < needed \<Longrightarrow> scan_word needed w shifts zeros pos = (zeros', pos') \<Longrightarrow>
   zeros' = take needed (zeros @ zeros_of pos (map (bit w) shifts)) \<and>
   (length zeros' < needed \<longrightarrow> pos' = pos + length shifts)"
proof (induction needed w shifts zeros pos arbitrary: zeros' pos' rule: scan_word.induct)
  case (2 needed w shift shifts zeros pos)
  show ?case
  proof (cases "bit w shift")
    case True
    with 2 show ?thesis by simp
  next
    case False
    show ?thesis
    proof (cases "length (zeros @ [pos]) = needed")
      case True
      with 2(4) False show ?thesis by auto
    next
      case more: False
      with 2(3) have "length (zeros @ [pos]) < needed" by simp
      with 2(1) [of zeros' pos'] 2(4) False more show ?thesis by simp
    qed
  qed
qed simp

lemma scan_words_zeros:
  "length zeros < needed \<Longrightarrow>
   scan_words needed ws zeros pos = take needed (zeros @ zeros_of pos (concat (map word_bits ws)))"
proof (induction ws arbitrary: zeros pos)
  case (Cons w ws)
  obtain zeros' pos' where s: "scan_word needed w (rev [0..<64]) zeros pos = (zeros', pos')" by fastforce
  from scan_word_zeros [OF Cons.prems s]
  have z: "zeros' = take needed (zeros @ zeros_of pos (word_bits w))"
    and p: "length zeros' < needed \<Longrightarrow> pos' = pos + length (word_bits w)"
    by (simp_all add: word_bits_def)
  show ?case
  proof (cases "length zeros' = needed")
    case True
    with z have "needed \<le> length (zeros @ zeros_of pos (word_bits w))" by (metis length_take min.absorb_iff2)
    with s True z show ?thesis by (simp add: zeros_of_append)
  next
    case False
    with z have less: "length zeros' < needed" by simp
    have "zeros' = zeros @ zeros_of pos (word_bits w)"
      by (cases "length (zeros @ zeros_of pos (word_bits w)) \<le> needed") (use z less in auto)
    with Cons.IH [OF less, of pos'] p [OF less] s False show ?thesis by (simp add: zeros_of_append)
  qed
qed simp

section \<open>Writing a bit string\<close>

text \<open>
  \<open>encode_louds\<close> of \<open>learning.rs\<close>: words of 64 bits, the first bit in the most significant place, the last word filled up
  with ones, which end no node.
\<close>

definition encode_word :: "bool list \<Rightarrow> 64 word" where
  "encode_word chunk =
     fold (\<lambda>i w. w OR push_bit (63 - i) 1) [length chunk..<64]
       (fold (\<lambda>(i, v) w. if v then w OR push_bit (63 - i) 1 else w) (enumerate 0 chunk) 0)"

definition encode_louds :: "bool list \<Rightarrow> byte list" where
  "encode_louds bits = concat (map (\<lambda>chunk. le_bytes 8 (encode_word chunk)) (chunks 64 bits))"

lemma bit_one_at: "m < 64 \<Longrightarrow> bit (push_bit m (1 :: 64 word)) n \<longleftrightarrow> n = m"
  by (simp only: push_bit_of_1 bit_exp_iff possible_bit_def) auto

lemma bit_fold_set:
  fixes w :: "64 word"
  shows "bit (fold (\<lambda>i w. w OR push_bit (63 - i) 1) is w) n \<longleftrightarrow> bit w n \<or> (\<exists>i \<in> set is. n = 63 - i)"
proof (induction "is" arbitrary: w)
  case (Cons i "is")
  have "bit (push_bit (63 - i) (1 :: 64 word)) n \<longleftrightarrow> n = 63 - i" by (rule bit_one_at) simp
  then show ?case unfolding fold_Cons comp_apply Cons.IH bit_or_iff by auto
qed simp

lemma fold_enumerate:
  "fold (\<lambda>(i, v) w. if v then f i w else w) (enumerate k vs) w = fold f (map fst (filter snd (enumerate k vs))) w"
  by (induction vs arbitrary: k w) simp_all

lemma set_true_positions: "set (map fst (filter snd (enumerate 0 vs))) = {j. j < length vs \<and> vs ! j}"
  by (force simp: in_set_enumerate_eq image_iff)

lemma bit_encode_word:
  assumes "length chunk \<le> 64" and "i < 64"
  shows "bit (encode_word chunk) (63 - i) \<longleftrightarrow> (i < length chunk \<longrightarrow> chunk ! i)"
proof -
  have inj: "63 - i = 63 - j \<longleftrightarrow> i = j" if "j < 64" for j :: nat using assms(2) that by arith
  have "(\<exists>j \<in> {j. j < length chunk \<and> chunk ! j}. 63 - i = 63 - j) \<longleftrightarrow> i < length chunk \<and> chunk ! i"
    using assms(1) inj by (metis (mono_tags, lifting) mem_Collect_eq order_less_le_trans)
  moreover have "(\<exists>j \<in> {length chunk..<64}. 63 - i = 63 - j) \<longleftrightarrow> \<not> i < length chunk"
    using assms(2) inj by (metis atLeastLessThan_iff not_less)
  ultimately show ?thesis
    unfolding encode_word_def bit_fold_set fold_enumerate set_true_positions set_upt by auto
qed

lemma word_bits_encode:
  assumes "length chunk \<le> 64"
  shows "word_bits (encode_word chunk) = chunk @ replicate (64 - length chunk) True"
proof (rule nth_equalityI)
  show "length (word_bits (encode_word chunk)) = length (chunk @ replicate (64 - length chunk) True)"
    using assms by (simp add: word_bits_def)
next
  fix i assume "i < length (word_bits (encode_word chunk))"
  then have i: "i < 64" by (simp add: word_bits_def)
  then have "rev [0..<64] ! i = 63 - i" by (simp add: rev_nth del: upt_Suc)
  then have "word_bits (encode_word chunk) ! i = bit (encode_word chunk) (63 - i)"
    using i by (simp add: word_bits_def del: upt_Suc)
  with bit_encode_word [OF assms i] i show "word_bits (encode_word chunk) ! i = (chunk @ replicate (64 - length chunk) True) ! i"
    by (simp add: nth_append)
qed

section \<open>A degree sequence, written and parsed\<close>

definition unary :: "nat list \<Rightarrow> bool list" where
  "unary ds = concat (map (\<lambda>d. replicate d True @ [False]) ds)"

lemma chunks_concat: "0 < n \<Longrightarrow> list_all (\<lambda>xs. length xs = n) xss \<Longrightarrow> chunks n (concat xss) = xss"
proof (induction xss)
  case (Cons xs xss)
  then have "concat (xs # xss) \<noteq> []" by auto
  with Cons show ?case by (subst chunks.simps) simp
qed (simp add: chunks.simps)

lemma words_bits:
  "\<exists>k. concat (map word_bits (map encode_word (chunks 64 bits))) = bits @ replicate k True"
proof (induction "64 :: nat" bits rule: chunks.induct)
  case (1 bits)
  show ?case
  proof (cases "bits = []")
    case True
    then show ?thesis by (intro exI [of _ 0]) (simp add: chunks.simps)
  next
    case False
    then have c: "chunks 64 bits = take 64 bits # chunks 64 (drop 64 bits)" by (simp add: chunks.simps [of 64 bits])
    obtain k where k: "concat (map word_bits (map encode_word (chunks 64 (drop 64 bits)))) = drop 64 bits @ replicate k True"
      using 1 False by auto
    show ?thesis
    proof (cases "length bits \<le> 64")
      case True
      then have "concat (map word_bits (map encode_word (chunks 64 bits))) = bits @ replicate (64 - length bits + k) True"
        unfolding replicate_add using c k by (simp add: word_bits_encode)
      then show ?thesis by blast
    next
      case False
      then have "concat (map word_bits (map encode_word (chunks 64 bits))) = take 64 bits @ drop 64 bits @ replicate k True"
        using c k by (simp add: word_bits_encode)
      then show ?thesis by (metis append.assoc append_take_drop_id)
    qed
  qed
qed

lemma length_encode_louds: "length (encode_louds bits) mod 8 = 0"
proof -
  have "length (concat (map (\<lambda>chunk. le_bytes 8 (encode_word chunk)) xss)) = 8 * length xss" for xss
    by (induction xss) simp_all
  then show ?thesis by (simp add: encode_louds_def)
qed

lemma encoded_zeros:
  assumes "0 < needed" and "needed \<le> length (zeros_of 0 bits)"
  shows "scan_words needed (map from_le_bytes (chunks 8 (encode_louds bits))) [] 0 = take needed (zeros_of 0 bits)"
proof -
  have "chunks 8 (encode_louds bits) = map (\<lambda>chunk. le_bytes 8 (encode_word chunk)) (chunks 64 bits)"
    unfolding encode_louds_def by (rule chunks_concat) (simp_all add: list_all_iff)
  then have w: "map from_le_bytes (chunks 8 (encode_louds bits)) = map encode_word (chunks 64 bits)" by simp
  obtain k where k: "concat (map word_bits (map encode_word (chunks 64 bits))) = bits @ replicate k True"
    using words_bits by blast
  have "zeros_of 0 (bits @ replicate k True) = zeros_of 0 bits" by (simp add: zeros_of_append)
  with scan_words_zeros [of "[]" needed "map encode_word (chunks 64 bits)" 0] assms w k show ?thesis by simp
qed

lemma zeros_of_unary:
  "zeros_of pos (unary ds) = map (\<lambda>k. pos + k + sum_list (take (Suc k) ds)) [0..<length ds]"
proof (induction ds arbitrary: pos)
  case (Cons d ds)
  have "zeros_of pos (unary (d # ds)) = (pos + d) # zeros_of (pos + d + 1) (unary ds)"
    by (simp add: unary_def zeros_of_append)
  also have "\<dots> = map (\<lambda>k. pos + k + sum_list (take (Suc k) (d # ds))) [0..<length (d # ds)]"
    unfolding Cons.IH by (simp add: upt_conv_Cons map_Suc_upt [symmetric] comp_def del: upt_Suc)
  finally show ?case .
qed (simp add: unary_def)

lemma louds_zeros:
  "zeros_of 0 ([True, False] @ unary ds) = map (\<lambda>k. 1 + k + sum_list (take k ds)) [0..<Suc (length ds)]"
proof -
  have "map (\<lambda>k. 1 + k + sum_list (take k ds)) [0..<Suc (length ds)] =
      1 # map (\<lambda>k. 2 + k + sum_list (take (Suc k) ds)) [0..<length ds]"
    by (simp add: upt_conv_Cons map_Suc_upt [symmetric] comp_def del: upt_Suc)
  then show ?thesis by (simp add: zeros_of_unary)
qed

lemma parse_encoded_louds:
  assumes "length ids = Suc (length ds)" and "sum_list ds + 1 \<le> length ds"
  shows "parse_louds (encode_louds ([True, False] @ unary ds)) ids =
    Inr \<lparr>node_ids = ids,
         child_ranges = (0, 0) # map (\<lambda>k. (sum_list (take k ds) + 2, sum_list (take (Suc k) ds) + 2)) [0..<length ds]\<rparr>"
proof -
  let ?m = "length ds" and ?zs = "map (\<lambda>k. 1 + k + sum_list (take k ds)) [0..<Suc (length ds)]"
  have len: "length ?zs = Suc ?m" by simp
  have zs: "scan_words (Suc ?m) (map from_le_bytes (chunks 8 (encode_louds ([True, False] @ unary ds)))) [] 0 = ?zs"
    by (subst encoded_zeros) (simp_all add: louds_zeros del: upt_Suc append_Cons append_Nil)
  have part: "sum_list (take k ds) \<le> sum_list ds" for k
    using sum_list_append [of "take k ds" "drop k ds"] by simp
  have range: "child_range_of ?zs (Suc ?m) (Suc k) = Inr (sum_list (take k ds) + 2, sum_list (take (Suc k) ds) + 2)"
    if "k < ?m" for k
  proof -
    have "?zs ! k = Suc k + sum_list (take k ds)" "?zs ! Suc k = Suc (Suc k) + sum_list (take (Suc k) ds)"
      using that by (simp_all del: upt_Suc)
    with part [of k] part [of "Suc k"] assms(2) show ?thesis by (simp add: child_range_of_def)
  qed
  have "collect (map (child_range_of ?zs (Suc ?m)) [1..<Suc ?m]) =
      Inr (map (\<lambda>k. (sum_list (take k ds) + 2, sum_list (take (Suc k) ds) + 2)) [0..<?m])"
    unfolding collect_Inr using range by (simp flip: map_Suc_upt del: upt_Suc)
  then show ?thesis
    using zs len assms(1) length_encode_louds [of "[True, False] @ unary ds"]
    by (simp add: parse_louds_def Let_def del: upt_Suc append_Cons append_Nil)
qed

end
