(* ===== verification/Memory_Index.thy ===== *)
theory Memory_Index
  imports Louds Candidate
begin

text \<open>
  \<open>crates/converter/src/learning/index.rs\<close>: the two indexes of the learning memory. What was learned since the last
  commit is in a trie of nodes that point to their children; what was read from or written to the disk is in a LOUDS
  trie made from such a trie. Both hold positions of records, and both answer the same questions.
\<close>

section \<open>Records and tries\<close>

record LearningRecord =
  lr_entry :: DictionaryEntry
  last_used_day :: "16 word"
  last_updated_day :: "16 word"
  lr_count :: "8 word"

datatype MatchKind = Exact | Prefixes | Completions

text \<open>A \<open>BTreeMap\<close> from characters to nodes is the list of its pairs in the order of the characters.\<close>

record TrieNode =
  tn_children :: "(byte \<times> nat) list"
  tn_records :: "nat list"

type_synonym MemoryTrie = "TrieNode list"

definition empty_node :: TrieNode where
  "empty_node = \<lparr>tn_children = [], tn_records = []\<rparr>"

definition empty_trie :: MemoryTrie where
  "empty_trie = [empty_node]"

definition btree_insert :: "'k::linorder \<Rightarrow> 'v \<Rightarrow> ('k \<times> 'v) list \<Rightarrow> ('k \<times> 'v) list" where
  "btree_insert k v xs = takeWhile (\<lambda>p. fst p < k) xs @ (k, v) # dropWhile (\<lambda>p. fst p \<le> k) xs"

definition trie_child :: "MemoryTrie \<Rightarrow> nat \<Rightarrow> byte \<Rightarrow> nat option" where
  "trie_child nodes n = map_of (tn_children (nodes ! n))"

text \<open>The loop of \<open>insert\<close> from a node on.\<close>

fun trie_insert_from :: "MemoryTrie \<Rightarrow> nat \<Rightarrow> byte list \<Rightarrow> nat \<Rightarrow> MemoryTrie" where
  "trie_insert_from nodes n [] r = nodes[n := (nodes ! n)\<lparr>tn_records := tn_records (nodes ! n) @ [r]\<rparr>]"
| "trie_insert_from nodes n (c # cs) r =
     (case trie_child nodes n c of
        Some child \<Rightarrow> trie_insert_from nodes child cs r
      | None \<Rightarrow>
          (let child = length nodes;
               nodes = nodes @ [empty_node]
           in trie_insert_from (nodes[n := (nodes ! n)\<lparr>tn_children := btree_insert c child (tn_children (nodes ! n))\<rparr>])
                child cs r))"

definition trie_insert :: "byte list \<Rightarrow> nat \<Rightarrow> MemoryTrie \<Rightarrow> MemoryTrie" where
  "trie_insert ids r nodes = trie_insert_from nodes 0 ids r"

definition new_trie :: "segmenter \<Rightarrow> CharacterIdMap \<Rightarrow> LearningRecord list \<Rightarrow> MemoryTrie" where
  "new_trie graphemes characters rs =
     fold (\<lambda>(i, r) trie.
             case encode_ids graphemes characters (ruby (lr_entry r)) of Some ids \<Rightarrow> trie_insert ids i trie | None \<Rightarrow> trie)
       (enumerate 0 rs) empty_trie"

section \<open>Looking up\<close>

text \<open>
  The loop both indexes share: it follows the characters and, for prefixes, collects the records of every node it comes
  to. Without a child it stops with what it has collected.
\<close>

fun follow :: "('n \<Rightarrow> byte \<Rightarrow> 'n option) \<Rightarrow> ('n \<Rightarrow> nat list) \<Rightarrow> MatchKind \<Rightarrow> 'n \<Rightarrow> byte list \<Rightarrow> nat list \<Rightarrow> nat list \<times> 'n option" where
  "follow child block kind n [] records = (records, Some n)"
| "follow child block kind n (c # cs) records =
     (case child n c of
        None \<Rightarrow> (records, None)
      | Some n \<Rightarrow> follow child block kind n cs (if kind = Prefixes then records @ block n else records))"

text \<open>
  The walk through a node and everything below it, with a stack of pending nodes. Every node is visited at most once, so
  as many rounds as there are nodes are enough.
\<close>

fun trie_below :: "nat \<Rightarrow> MemoryTrie \<Rightarrow> nat list \<Rightarrow> nat list \<Rightarrow> nat list" where
  "trie_below 0 nodes pending records = records"
| "trie_below (Suc fuel) nodes pending records =
     (if pending = [] then records
      else trie_below fuel nodes (butlast pending @ map snd (tn_children (nodes ! last pending)))
             (records @ tn_records (nodes ! last pending)))"

definition trie_lookup :: "MemoryTrie \<Rightarrow> byte list \<Rightarrow> MatchKind \<Rightarrow> nat list" where
  "trie_lookup nodes ids kind =
     (case follow (trie_child nodes) (\<lambda>n. tn_records (nodes ! n)) kind 0 ids [] of
        (records, None) \<Rightarrow> sort records
      | (records, Some n) \<Rightarrow>
          sort (case kind of
                  Exact \<Rightarrow> records @ tn_records (nodes ! n)
                | Completions \<Rightarrow> trie_below (length nodes) nodes [n] records
                | Prefixes \<Rightarrow> records))"

section \<open>Encoding\<close>

record EncodedIndex =
  ei_bits :: "bool list"
  ei_characters :: "byte list"
  ei_blocks :: "nat list list"

text \<open>
  The levels of \<open>encode\<close>; a node is deeper than its parent, so there are at most as many levels as nodes. The bits become
  bytes in \<open>encode_louds\<close> at the end.
\<close>

fun encode_levels :: "nat \<Rightarrow> MemoryTrie \<Rightarrow> (byte \<times> nat) list \<Rightarrow> EncodedIndex \<Rightarrow> EncodedIndex" where
  "encode_levels 0 nodes current index = index"
| "encode_levels (Suc fuel) nodes current index =
     (if current = [] then index
      else
        encode_levels fuel nodes (concat (map (\<lambda>(_, n). tn_children (nodes ! n)) current))
          \<lparr>ei_bits = ei_bits index @
             concat (map (\<lambda>(_, n). replicate (length (tn_children (nodes ! n))) True @ [False]) current),
           ei_characters = ei_characters index @ map fst current,
           ei_blocks = ei_blocks index @ map (\<lambda>(_, n). tn_records (nodes ! n)) current\<rparr>)"

definition encode_trie :: "MemoryTrie \<Rightarrow> EncodedIndex" where
  "encode_trie nodes =
     (let current = tn_children (nodes ! 0)
      in encode_levels (length nodes) nodes current
           \<lparr>ei_bits = [True, False] @ replicate (length current) True @ [False],
            ei_characters = [0, 0], ei_blocks = [[], []]\<rparr>)"

record MemoryLouds =
  ml_louds :: Louds
  ml_blocks :: "nat list list"

text \<open>\<open>MemoryLouds::new\<close>; \<open>None\<close> is the panic of its \<open>expect\<close>.\<close>

definition new_louds :: "segmenter \<Rightarrow> CharacterIdMap \<Rightarrow> LearningRecord list \<Rightarrow> MemoryLouds option" where
  "new_louds graphemes characters rs =
     (let index = encode_trie (new_trie graphemes characters rs)
      in case parse_louds (encode_louds (ei_bits index)) (ei_characters index) of
           Inl _ \<Rightarrow> None
         | Inr louds \<Rightarrow> Some \<lparr>ml_louds = louds, ml_blocks = ei_blocks index\<rparr>)"

definition louds_lookup :: "MemoryLouds \<Rightarrow> byte list \<Rightarrow> MatchKind \<Rightarrow> nat list" where
  "louds_lookup m ids kind =
     (case follow (search_child (ml_louds m)) (\<lambda>n. ml_blocks m ! n) kind 1 ids [] of
        (records, None) \<Rightarrow> sort records
      | (records, Some n) \<Rightarrow>
          sort (case kind of
                  Exact \<Rightarrow> records @ ml_blocks m ! n
                | Completions \<Rightarrow> records @ concat (map (\<lambda>n. ml_blocks m ! n) (descendants (ml_louds m) ids (2 ^ 64 - 1) 700))
                | Prefixes \<Rightarrow> records))"

end
