(* ===== verification/Memory_Trie.thy ===== *)
theory Memory_Trie
  imports Memory_Index "HOL-Library.Multiset"
begin

text \<open>
  What the trie of the learning memory answers: the positions of exactly the records whose reading is the text looked up,
  a prefix of it, or an extension of it, each once and in their order.
\<close>

section \<open>Well-formed tries\<close>

fun walk :: "MemoryTrie \<Rightarrow> nat \<Rightarrow> byte list \<Rightarrow> nat option" where
  "walk nodes n [] = Some n"
| "walk nodes n (c # cs) = (case trie_child nodes n c of None \<Rightarrow> None | Some n \<Rightarrow> walk nodes n cs)"

definition records_at :: "MemoryTrie \<Rightarrow> byte list \<Rightarrow> nat list" where
  "records_at nodes ids = (case walk nodes 0 ids of Some n \<Rightarrow> tn_records (nodes ! n) | None \<Rightarrow> [])"

text \<open>Children come after their parent, no two edges lead to the same node, and no node has two edges with one character.\<close>

definition edge :: "MemoryTrie \<Rightarrow> nat \<Rightarrow> byte \<Rightarrow> nat \<Rightarrow> bool" where
  "edge nodes n c i \<longleftrightarrow> n < length nodes \<and> (c, i) \<in> set (tn_children (nodes ! n))"

definition trie_ok :: "MemoryTrie \<Rightarrow> bool" where
  "trie_ok nodes \<longleftrightarrow>
     nodes \<noteq> [] \<and> (\<forall>n < length nodes. distinct (map fst (tn_children (nodes ! n)))) \<and>
     (\<forall>n c i. edge nodes n c i \<longrightarrow> n < i \<and> i < length nodes) \<and>
     (\<forall>n m c d i. edge nodes n c i \<longrightarrow> edge nodes m d i \<longrightarrow> n = m \<and> c = d)"

lemma trie_okD:
  assumes "trie_ok nodes"
  shows "0 < length nodes" and "n < length nodes \<Longrightarrow> distinct (map fst (tn_children (nodes ! n)))"
    and "edge nodes n c i \<Longrightarrow> n < i" and "edge nodes n c i \<Longrightarrow> i < length nodes"
    and "edge nodes n c i \<Longrightarrow> edge nodes m d i \<Longrightarrow> n = m \<and> c = d"
  using assms unfolding trie_ok_def by (elim conjE, (simp; fail | metis))+

lemma trie_ok_empty: "trie_ok empty_trie"
  by (simp add: trie_ok_def empty_trie_def empty_node_def edge_def)

lemma trie_child_iff:
  assumes "trie_ok nodes" and "n < length nodes"
  shows "trie_child nodes n c = Some i \<longleftrightarrow> edge nodes n c i"
  using map_of_eq_Some_iff [OF trie_okD(2) [OF assms]] assms(2) by (simp add: trie_child_def edge_def)

lemma trie_child_bounds:
  assumes "trie_ok nodes" and "n < length nodes" and "trie_child nodes n c = Some i"
  shows "n < i" and "i < length nodes"
  using trie_okD(3,4) [OF assms(1)] assms(3) unfolding trie_child_iff [OF assms(1,2)] by blast+

lemma walk_bounds:
  "trie_ok nodes \<Longrightarrow> n < length nodes \<Longrightarrow> walk nodes n ids = Some i \<Longrightarrow> n \<le> i \<and> i < length nodes"
proof (induction ids arbitrary: n)
  case (Cons c cs)
  then obtain m where m: "trie_child nodes n c = Some m" "walk nodes m cs = Some i" by (auto split: option.splits)
  with Cons.IH [OF Cons.prems(1) _ m(2)] trie_child_bounds [OF Cons.prems(1,2) m(1)] show ?case by simp
qed simp

lemma walk_root_bounds: "trie_ok nodes \<Longrightarrow> walk nodes 0 ids = Some i \<Longrightarrow> i < length nodes"
  using walk_bounds [of nodes 0 ids i] trie_okD(1) [of nodes] by simp

lemma walk_append: "walk nodes n (xs @ ys) = (case walk nodes n xs of None \<Rightarrow> None | Some m \<Rightarrow> walk nodes m ys)"
  by (induction xs arbitrary: n) (auto split: option.split)

lemma walk_one [simp]: "walk nodes n [c] = trie_child nodes n c"
  by (simp split: option.split)

lemma walk_snoc: "walk nodes n (xs @ [c]) = (case walk nodes n xs of None \<Rightarrow> None | Some m \<Rightarrow> trie_child nodes m c)"
  by (simp only: walk_append walk_one)

lemma walk_unique:
  assumes "trie_ok nodes"
  shows "walk nodes 0 p = Some i \<Longrightarrow> walk nodes 0 q = Some i \<Longrightarrow> p = q"
proof (induction p arbitrary: q i rule: rev_induct)
  case Nil
  show ?case
  proof (cases q rule: rev_cases)
    case (snoc q' d)
    with Nil obtain m where m: "walk nodes 0 q' = Some m" "trie_child nodes m d = Some 0"
      by (auto simp: walk_snoc split: option.splits)
    from trie_child_bounds [OF assms walk_root_bounds [OF assms m(1)] m(2)] show ?thesis by simp
  qed simp
next
  case (snoc c p)
  then obtain n where n: "walk nodes 0 p = Some n" "trie_child nodes n c = Some i"
    by (auto simp: walk_snoc split: option.splits)
  have "n < length nodes" by (rule walk_root_bounds [OF assms n(1)])
  note nb = this trie_child_bounds [OF assms this n(2)]
  show ?case
  proof (cases q rule: rev_cases)
    case Nil
    with snoc.prems(2) nb show ?thesis by simp
  next
    case q: (snoc q' d)
    with snoc.prems(2) obtain m where m: "walk nodes 0 q' = Some m" "trie_child nodes m d = Some i"
      by (auto simp: walk_snoc split: option.splits)
    have mb: "m < length nodes" by (rule walk_root_bounds [OF assms m(1)])
    have "n = m \<and> c = d"
      using trie_okD(5) [OF assms] n(2) m(2) unfolding trie_child_iff [OF assms nb(1)] trie_child_iff [OF assms mb] by blast
    with snoc.IH [OF n(1)] m(1) q show ?thesis by simp
  qed
qed

section \<open>Insertion\<close>

lemma set_btree_insert:
  "k \<notin> set (map fst xs) \<Longrightarrow> set (btree_insert k v xs) = insert (k, v) (set xs)"
proof (induction xs)
  case (Cons x xs)
  show ?case
  proof (cases "fst x < k")
    case True
    with Cons show ?thesis by (auto simp: btree_insert_def)
  next
    case False
    with Cons.prems have "\<not> fst x \<le> k" by auto
    with False show ?thesis by (simp add: btree_insert_def)
  qed
qed (simp add: btree_insert_def)

lemma distinct_btree_insert:
  "k \<notin> set (map fst xs) \<Longrightarrow> distinct (map fst xs) \<Longrightarrow> distinct (map fst (btree_insert k v xs))"
proof (induction xs)
  case (Cons x xs)
  show ?case
  proof (cases "fst x < k")
    case True
    with Cons have "distinct (map fst (btree_insert k v xs))" by simp
    moreover have "set (map fst (btree_insert k v xs)) = insert k (set (map fst xs))"
      using Cons.prems(1) by (simp add: set_btree_insert)
    ultimately show ?thesis using True Cons.prems by (auto simp: btree_insert_def)
  next
    case False
    with Cons.prems have "\<not> fst x \<le> k" by auto
    with False Cons.prems show ?thesis by (auto simp: btree_insert_def)
  qed
qed (simp add: btree_insert_def)

text \<open>A new child.\<close>

definition grow :: "MemoryTrie \<Rightarrow> nat \<Rightarrow> byte \<Rightarrow> MemoryTrie" where
  "grow nodes n c =
     (nodes @ [empty_node])[n := (nodes ! n)\<lparr>tn_children := btree_insert c (length nodes) (tn_children (nodes ! n))\<rparr>]"

lemma trie_insert_from_Cons:
  "n < length nodes \<Longrightarrow>
   trie_insert_from nodes n (c # cs) r =
     (case trie_child nodes n c of
        Some child \<Rightarrow> trie_insert_from nodes child cs r
      | None \<Rightarrow> trie_insert_from (grow nodes n c) (length nodes) cs r)"
  by (simp add: grow_def nth_append Let_def split: option.split)

declare trie_insert_from.simps(2) [simp del]

definition growable :: "MemoryTrie \<Rightarrow> nat \<Rightarrow> byte \<Rightarrow> bool" where
  "growable nodes n c \<longleftrightarrow> trie_ok nodes \<and> n < length nodes \<and> trie_child nodes n c = None"

lemma grow_node:
  assumes "growable nodes n c"
  shows "i < length nodes \<Longrightarrow> i \<noteq> n \<Longrightarrow> grow nodes n c ! i = nodes ! i"
    and "grow nodes n c ! n = (nodes ! n)\<lparr>tn_children := btree_insert c (length nodes) (tn_children (nodes ! n))\<rparr>"
    and "grow nodes n c ! length nodes = empty_node"
    and "length (grow nodes n c) = Suc (length nodes)"
  using assms by (simp_all add: growable_def grow_def nth_append nth_list_update)

lemma fresh_key: "growable nodes n c \<Longrightarrow> c \<notin> set (map fst (tn_children (nodes ! n)))"
  by (simp add: growable_def trie_child_def map_of_eq_None_iff)

lemma grow_edge:
  assumes g: "growable nodes n c"
  shows "edge (grow nodes n c) m d i \<longleftrightarrow> edge nodes m d i \<or> m = n \<and> d = c \<and> i = length nodes"
proof -
  note grow_node = grow_node [OF g] and n = g [unfolded growable_def, THEN conjunct2, THEN conjunct1]
  consider "m = n" | "m \<noteq> n" "m < length nodes" | "m \<noteq> n" "m = length nodes" | "m > length nodes" by linarith
  then show ?thesis
  proof cases
    case 1
    with n show ?thesis by (auto simp: edge_def grow_node set_btree_insert [OF fresh_key [OF g]])
  qed (use n in \<open>auto simp: edge_def grow_node empty_node_def\<close>)
qed

lemma grow_distinct:
  assumes g: "growable nodes n c" and "m < length (grow nodes n c)"
  shows "distinct (map fst (tn_children (grow nodes n c ! m)))"
proof -
  note grow_node = grow_node [OF g]
  have ok: "trie_ok nodes" and n: "n < length nodes" using g by (simp_all add: growable_def)
  consider "m = n" | "m \<noteq> n" "m < length nodes" | "m \<noteq> n" "m = length nodes"
    using assms(2) unfolding grow_node(4) by linarith
  then show ?thesis
  proof cases
    case 1
    then show ?thesis using distinct_btree_insert [OF fresh_key [OF g] trie_okD(2) [OF ok n]] by (simp add: grow_node)
  next
    case 2
    then show ?thesis using trie_okD(2) [OF ok] by (simp add: grow_node)
  next
    case 3
    then show ?thesis by (simp add: grow_node empty_node_def)
  qed
qed

lemma grow_ok:
  assumes g: "growable nodes n c"
  shows "trie_ok (grow nodes n c)"
proof -
  note grow_node = grow_node [OF g] and grow_edge = grow_edge [OF g]
  have ok: "trie_ok nodes" and n: "n < length nodes" using g by (simp_all add: growable_def)
  have "grow nodes n c \<noteq> []" using grow_node(4) by (metis list.size(3) nat.simps(3))
  moreover have "m < i \<and> i < length (grow nodes n c)" if "edge (grow nodes n c) m d i" for m d i
    using that trie_okD(3,4) [OF ok, of m d i] n unfolding grow_edge grow_node(4) by auto
  moreover have "m = m' \<and> d = d'" if "edge (grow nodes n c) m d i" "edge (grow nodes n c) m' d' i" for m m' d d' i
    using that trie_okD(4,5) [OF ok] unfolding grow_edge by (metis less_irrefl_nat)
  ultimately show ?thesis unfolding trie_ok_def using grow_distinct [OF g] by blast
qed

lemma grow_child:
  assumes g: "growable nodes n c" and m: "m < length nodes"
  shows "trie_child (grow nodes n c) m d = (if m = n \<and> d = c then Some (length nodes) else trie_child nodes m d)"
proof -
  note grow_edge = grow_edge [OF g] and grow_ok = grow_ok [OF g]
  have ok: "trie_ok nodes" and n: "n < length nodes" and fresh: "trie_child nodes n c = None"
    using g by (simp_all add: growable_def)
  have m': "m < length (grow nodes n c)" using m by (simp add: grow_node [OF g])
  have "trie_child (grow nodes n c) m d = Some i \<longleftrightarrow>
      (if m = n \<and> d = c then Some (length nodes) else trie_child nodes m d) = Some i" for i
  proof (cases "m = n \<and> d = c")
    case True
    have "\<not> edge nodes n c i" using trie_child_iff [OF ok n, of c i] fresh by simp
    with True show ?thesis unfolding trie_child_iff [OF grow_ok m'] grow_edge by auto
  next
    case False
    then have "trie_child (grow nodes n c) m d = Some i \<longleftrightarrow> edge nodes m d i"
      unfolding trie_child_iff [OF grow_ok m'] grow_edge by blast
    with False show ?thesis unfolding trie_child_iff [OF ok m, symmetric] by auto
  qed
  then show ?thesis by (metis not_Some_eq)
qed

lemma grow_walk:
  assumes g: "growable nodes n c" and p: "walk nodes 0 p = Some n"
  shows "walk (grow nodes n c) 0 q =
    (case walk nodes 0 q of Some i \<Rightarrow> Some i | None \<Rightarrow> if q = p @ [c] then Some (length nodes) else None)"
proof (induction q rule: rev_induct)
  case (snoc d q)
  have ok: "trie_ok nodes" and fresh: "trie_child nodes n c = None" using g by (simp_all add: growable_def)
  show ?case
  proof (cases "walk nodes 0 q")
    case None
    have "trie_child (grow nodes n c) (length nodes) d = None" by (simp add: trie_child_def grow_node [OF g] empty_node_def)
    moreover have "q @ [d] \<noteq> p @ [c]" using None p by auto
    ultimately show ?thesis using snoc None by (simp add: walk_snoc)
  next
    case (Some i)
    have i: "i < length nodes" by (rule walk_root_bounds [OF ok Some])
    have "q = p \<longleftrightarrow> i = n" by (metis walk_unique [OF ok] p Some option.inject)
    then have e: "q @ [d] = p @ [c] \<longleftrightarrow> i = n \<and> d = c" by simp
    have "walk (grow nodes n c) 0 q = Some i" using snoc Some by simp
    then show ?thesis using Some grow_child [OF g i, of d] fresh unfolding walk_snoc e
      by (cases "i = n \<and> d = c") (auto split: option.split)
  qed
qed simp

lemma grow_records_at:
  assumes g: "growable nodes n c" and p: "walk nodes 0 p = Some n"
  shows "records_at (grow nodes n c) q = records_at nodes q"
proof -
  have "tn_records (grow nodes n c ! i) = tn_records (nodes ! i)" if "i < length nodes" for i
    using grow_node(1) [OF g that] grow_node(2) [OF g] by (cases "i = n") simp_all
  then show ?thesis
    using grow_walk [OF g p, of q] walk_root_bounds [of nodes q] g
    by (auto simp: growable_def records_at_def grow_node [OF g] empty_node_def split: option.split)
qed

lemma nth_update: "n < length xs \<Longrightarrow> xs[n := x] ! m = (if m = n then x else xs ! m)"
  by (cases "m = n") auto

lemma walk_set_records:
  assumes "n < length nodes"
  shows "walk (nodes[n := (nodes ! n)\<lparr>tn_records := rs\<rparr>]) m q = walk nodes m q"
proof -
  have "trie_child (nodes[n := (nodes ! n)\<lparr>tn_records := rs\<rparr>]) m c = trie_child nodes m c" for m c
    using assms by (simp add: trie_child_def nth_update)
  then show ?thesis by (induction q arbitrary: m) (simp_all cong: option.case_cong)
qed

lemma set_records_ok:
  assumes "trie_ok nodes" and "n < length nodes"
  shows "trie_ok (nodes[n := (nodes ! n)\<lparr>tn_records := rs\<rparr>])"
proof -
  have c: "tn_children (nodes[n := (nodes ! n)\<lparr>tn_records := rs\<rparr>] ! m) = tn_children (nodes ! m)" for m
    using assms(2) by (simp add: nth_update)
  then have "edge (nodes[n := (nodes ! n)\<lparr>tn_records := rs\<rparr>]) = edge nodes" by (simp add: edge_def fun_eq_iff)
  with assms(1) c show ?thesis unfolding trie_ok_def by simp
qed

lemma trie_insert_from_records:
  assumes "trie_ok nodes" and "walk nodes 0 p = Some n"
  shows "trie_ok (trie_insert_from nodes n ids r) \<and>
    records_at (trie_insert_from nodes n ids r) q = records_at nodes q @ (if q = p @ ids then [r] else [])"
  using assms
proof (induction ids arbitrary: nodes n p)
  case Nil
  have n: "n < length nodes" by (rule walk_root_bounds [OF Nil])
  have "walk nodes 0 q = Some n \<longleftrightarrow> q = p" by (metis walk_unique [OF Nil(1)] Nil(2))
  moreover have "tn_records (nodes[n := (nodes ! n)\<lparr>tn_records := tn_records (nodes ! n) @ [r]\<rparr>] ! i) =
      tn_records (nodes ! i) @ (if i = n then [r] else [])" for i
    using n by (simp add: nth_update)
  ultimately show ?case
    using set_records_ok [OF Nil(1) n] by (auto simp: records_at_def walk_set_records [OF n] split: option.split)
next
  case (Cons c cs)
  have n: "n < length nodes" by (rule walk_root_bounds [OF Cons.prems])
  show ?case
  proof (cases "trie_child nodes n c")
    case (Some child)
    then have "walk nodes 0 (p @ [c]) = Some child" using Cons.prems(2) by (simp add: walk_snoc)
    from Cons.IH [OF Cons.prems(1) this] Some n show ?thesis by (simp add: trie_insert_from_Cons)
  next
    case None
    then have g: "growable nodes n c" using Cons.prems n by (simp add: growable_def)
    have "walk nodes 0 (p @ [c]) = None" using None Cons.prems(2) by (simp add: walk_snoc)
    then have "walk (grow nodes n c) 0 (p @ [c]) = Some (length nodes)" using grow_walk [OF g Cons.prems(2)] by simp
    from Cons.IH [OF grow_ok [OF g] this] None n show ?thesis
      by (simp add: trie_insert_from_Cons grow_records_at [OF g Cons.prems(2)])
  qed
qed

lemma trie_insert_records:
  assumes "trie_ok nodes"
  shows "trie_ok (trie_insert ids r nodes)"
    and "records_at (trie_insert ids r nodes) q = records_at nodes q @ (if q = ids then [r] else [])"
  using trie_insert_from_records [OF assms, of "[]" 0 ids r q] by (simp_all add: trie_insert_def)

section \<open>The records of a trie\<close>

definition matching :: "('a \<Rightarrow> bool) \<Rightarrow> 'a list \<Rightarrow> nat list" where
  "matching P rs = filter (\<lambda>i. P (rs ! i)) [0..<length rs]"

lemma matching_snoc: "matching P (rs @ [r]) = matching P rs @ (if P r then [length rs] else [])"
proof -
  have "filter (\<lambda>i. P ((rs @ [r]) ! i)) [0..<length rs] = matching P rs"
    unfolding matching_def by (rule filter_cong) (simp_all add: nth_append)
  then show ?thesis by (simp add: matching_def)
qed

lemma matching_facts: "distinct (matching P rs)" "set (matching P rs) = {i. i < length rs \<and> P (rs ! i)}" "sorted (matching P rs)"
  by (auto simp: matching_def intro: sorted_wrt_filter)

definition reading :: "segmenter \<Rightarrow> CharacterIdMap \<Rightarrow> LearningRecord \<Rightarrow> byte list option" where
  "reading graphemes characters r = encode_ids graphemes characters (ruby (lr_entry r))"

lemma new_trie_snoc:
  "new_trie graphemes characters (rs @ [r]) =
     (case reading graphemes characters r of
        Some ids \<Rightarrow> trie_insert ids (length rs) (new_trie graphemes characters rs)
      | None \<Rightarrow> new_trie graphemes characters rs)"
  by (simp add: new_trie_def reading_def enumerate_append_eq split: option.split)

lemma new_trie_records:
  "trie_ok (new_trie graphemes characters rs) \<and>
   records_at (new_trie graphemes characters rs) q = matching (\<lambda>r. reading graphemes characters r = Some q) rs"
proof (induction rs rule: rev_induct)
  case Nil
  have "records_at empty_trie q = []" by (cases q) (simp_all add: records_at_def empty_trie_def empty_node_def trie_child_def)
  then show ?case by (simp add: new_trie_def trie_ok_empty matching_def)
next
  case (snoc r rs)
  then show ?case
    by (cases "reading graphemes characters r") (auto simp: new_trie_snoc matching_snoc trie_insert_records)
qed

text \<open>A trie that holds each position at most once.\<close>

definition holds :: "MemoryTrie \<Rightarrow> (nat \<Rightarrow> byte list option) \<Rightarrow> nat \<Rightarrow> bool" where
  "holds nodes key bound \<longleftrightarrow>
     trie_ok nodes \<and> (\<forall>q. records_at nodes q = filter (\<lambda>i. key i = Some q) [0..<bound])"

lemma new_trie_holds:
  "holds (new_trie graphemes characters rs) (\<lambda>i. reading graphemes characters (rs ! i)) (length rs)"
  using new_trie_records by (simp add: holds_def matching_def)

lemma holdsD:
  assumes "holds nodes key bound"
  shows "trie_ok nodes" and "set (records_at nodes q) = {i. i < bound \<and> key i = Some q}" and "distinct (records_at nodes q)"
  using assms by (auto simp: holds_def)

lemma sort_eq_filter:
  assumes "distinct xs" and "set xs = {i. i < bound \<and> P i}"
  shows "sort xs = filter P [0..<bound]"
proof (rule sorted_distinct_set_unique)
  show "sorted (filter P [0..<bound])" by (rule sorted_wrt_filter) simp
  show "set (sort xs) = set (filter P [0..<bound])" using assms(2) by auto
qed (use assms(1) in simp_all)

section \<open>Following a text\<close>

lemma follow_walk:
  "follow (trie_child nodes) block kind n ids acc =
     (acc @ (if kind = Prefixes
             then concat (map (\<lambda>k. case walk nodes n (take k ids) of Some i \<Rightarrow> block i | None \<Rightarrow> []) [1..<Suc (length ids)])
             else []),
      walk nodes n ids)"
proof (induction ids arbitrary: n acc)
  case (Cons c cs)
  have upt: "[1..<Suc (length (c # cs))] = 1 # map Suc [1..<Suc (length cs)]" by (simp add: upt_conv_Cons map_Suc_upt del: upt_Suc)
  show ?case
  proof (cases "trie_child nodes n c")
    case None
    then have "concat (map (\<lambda>k. case walk nodes n (take k (c # cs)) of Some i \<Rightarrow> block i | None \<Rightarrow> []) [1..<Suc (length (c # cs))]) = []"
      unfolding upt by simp
    with None show ?thesis by (simp del: upt_Suc)
  next
    case (Some m)
    then show ?thesis unfolding upt by (simp add: Cons.IH comp_def del: upt_Suc)
  qed
qed simp

lemma follow_root:
  "follow (trie_child nodes) (\<lambda>n. tn_records (nodes ! n)) kind 0 ids [] =
     (if kind = Prefixes then concat (map (\<lambda>k. records_at nodes (take k ids)) [1..<Suc (length ids)]) else [], walk nodes 0 ids)"
  by (simp add: follow_walk records_at_def del: upt_Suc)

lemma lookup_exact:
  assumes "holds nodes key bound"
  shows "trie_lookup nodes ids Exact = filter (\<lambda>i. key i = Some ids) [0..<bound]"
proof -
  have "trie_lookup nodes ids Exact = sort (records_at nodes ids)"
    by (simp add: trie_lookup_def follow_root records_at_def split: option.split del: upt_Suc)
  also have "\<dots> = filter (\<lambda>i. key i = Some ids) [0..<bound]"
    using sort_eq_filter [of "records_at nodes ids" bound "\<lambda>i. key i = Some ids"] holdsD [OF assms] by simp
  finally show ?thesis .
qed

lemma lookup_prefixes:
  assumes "holds nodes key bound"
  shows "trie_lookup nodes ids Prefixes =
    filter (\<lambda>i. \<exists>p. key i = Some p \<and> p \<noteq> [] \<and> prefix p ids) [0..<bound]"
proof -
  let ?rs = "concat (map (\<lambda>k. records_at nodes (take k ids)) [1..<Suc (length ids)])"
  have "trie_lookup nodes ids Prefixes = sort ?rs"
    by (simp add: trie_lookup_def follow_root split: option.split del: upt_Suc)
  also have "\<dots> = filter (\<lambda>i. \<exists>p. key i = Some p \<and> p \<noteq> [] \<and> prefix p ids) [0..<bound]"
  proof (rule sort_eq_filter)
    have inj: "k = l" if "k \<le> length ids" "l \<le> length ids" "take k ids = take l ids" for k l
      using arg_cong [OF that(3), of length] that(1,2) by simp
    have disjoint: "set (records_at nodes (take k ids)) \<inter> set (records_at nodes (take l ids)) = {}"
      if "k \<le> length ids" "l \<le> length ids" "k \<noteq> l" for k l
      using inj [OF that(1,2)] that(3) by (auto simp: holdsD(2) [OF assms])
    have "distinct (concat (map (\<lambda>k. records_at nodes (take k ids)) ks))"
      if "distinct ks" "set ks \<subseteq> {..length ids}" for ks
      using that
    proof (induction ks)
      case (Cons k ks)
      then have "set (records_at nodes (take k ids)) \<inter> set (concat (map (\<lambda>k. records_at nodes (take k ids)) ks)) = {}"
        using disjoint [of k] by fastforce
      with Cons show ?case by (simp add: holdsD(3) [OF assms])
    qed simp
    moreover have "set [1..<Suc (length ids)] \<subseteq> {..length ids}" by (auto simp del: upt_Suc)
    ultimately show "distinct ?rs" using distinct_upt by blast
    have "(\<exists>k \<in> {1..<Suc (length ids)}. key i = Some (take k ids)) \<longleftrightarrow> (\<exists>p. key i = Some p \<and> p \<noteq> [] \<and> prefix p ids)" for i
    proof
      assume "\<exists>k \<in> {1..<Suc (length ids)}. key i = Some (take k ids)"
      then obtain k where "k \<in> {1..<Suc (length ids)}" and key: "key i = Some (take k ids)" by (rule bexE)
      then have "0 < k" "k \<le> length ids" by simp_all
      with key show "\<exists>p. key i = Some p \<and> p \<noteq> [] \<and> prefix p ids"
        by (intro exI [of _ "take k ids"]) (auto simp: take_is_prefix)
    next
      assume "\<exists>p. key i = Some p \<and> p \<noteq> [] \<and> prefix p ids"
      then obtain p where p: "key i = Some p" "p \<noteq> []" "prefix p ids" by (elim exE conjE)
      then have "take (length p) ids = p" "1 \<le> length p" "length p < Suc (length ids)"
        by (auto simp: prefix_def Suc_le_eq)
      with p(1) show "\<exists>k \<in> {1..<Suc (length ids)}. key i = Some (take k ids)"
        by (intro bexI [of _ "length p"]) simp_all
    qed
    then show "set ?rs = {i. i < bound \<and> (\<exists>p. key i = Some p \<and> p \<noteq> [] \<and> prefix p ids)}"
      by (auto simp: holdsD(2) [OF assms] simp del: upt_Suc)
  qed
  finally show ?thesis .
qed

section \<open>Everything below a node\<close>

text \<open>The nodes below a node, itself included; \<open>k\<close> bounds the depth.\<close>

fun subtree :: "nat \<Rightarrow> MemoryTrie \<Rightarrow> nat \<Rightarrow> nat list" where
  "subtree 0 nodes n = []"
| "subtree (Suc k) nodes n = n # concat (map (subtree k nodes) (map snd (tn_children (nodes ! n))))"

lemma child_edge: "n < length nodes \<Longrightarrow> i \<in> set (map snd (tn_children (nodes ! n))) \<longleftrightarrow> (\<exists>c. edge nodes n c i)"
  by (force simp: edge_def)

lemma child_bounds:
  assumes "trie_ok nodes" and "n < length nodes" and "i \<in> set (map snd (tn_children (nodes ! n)))"
  shows "n < i" and "i < length nodes"
  using assms(3) trie_okD(3,4) [OF assms(1)] unfolding child_edge [OF assms(2)] by blast+

lemma subtree_stable:
  "trie_ok nodes \<Longrightarrow> n < length nodes \<Longrightarrow> length nodes - n \<le> k \<Longrightarrow> subtree (Suc k) nodes n = subtree k nodes n"
proof (induction k arbitrary: n)
  case (Suc k)
  have "subtree (Suc k) nodes i = subtree k nodes i" if "i \<in> set (map snd (tn_children (nodes ! n)))" for i
    using Suc.IH [OF Suc.prems(1)] child_bounds [OF Suc.prems(1,2) that] Suc.prems(3) by simp
  then have "map (subtree (Suc k) nodes) (map snd (tn_children (nodes ! n))) = map (subtree k nodes) (map snd (tn_children (nodes ! n)))"
    by (rule map_cong [OF refl])
  then show ?case by (simp only: subtree.simps)
qed simp

lemma subtree_unfold:
  assumes "trie_ok nodes" and "n < length nodes"
  shows "subtree (length nodes) nodes n =
    n # concat (map (subtree (length nodes) nodes) (map snd (tn_children (nodes ! n))))"
  using subtree_stable [OF assms, of "length nodes"] by simp

lemma subtree_walk:
  assumes "trie_ok nodes"
  shows "n < length nodes \<Longrightarrow> length nodes - n \<le> k \<Longrightarrow> i \<in> set (subtree k nodes n) \<longleftrightarrow> (\<exists>q. walk nodes n q = Some i)"
proof (induction k arbitrary: n)
  case (Suc k)
  have sub: "i \<in> set (subtree k nodes m) \<longleftrightarrow> (\<exists>q. walk nodes m q = Some i)"
    if "m \<in> set (map snd (tn_children (nodes ! n)))" for m
    using Suc.IH [of m] child_bounds [OF assms Suc.prems(1) that] Suc.prems(2) by simp
  have "i \<in> set (subtree (Suc k) nodes n) \<longleftrightarrow>
      i = n \<or> (\<exists>m \<in> set (map snd (tn_children (nodes ! n))). i \<in> set (subtree k nodes m))" by auto
  also have "\<dots> \<longleftrightarrow> i = n \<or> (\<exists>m \<in> set (map snd (tn_children (nodes ! n))). \<exists>q. walk nodes m q = Some i)"
    using sub by (simp cong: bex_cong)
  also have "\<dots> \<longleftrightarrow> i = n \<or> (\<exists>c m q. trie_child nodes n c = Some m \<and> walk nodes m q = Some i)"
    unfolding trie_child_iff [OF assms Suc.prems(1)] Bex_def child_edge [OF Suc.prems(1)] by blast
  also have "\<dots> \<longleftrightarrow> (\<exists>q. walk nodes n q = Some i)"
  proof
    assume "i = n \<or> (\<exists>c m q. trie_child nodes n c = Some m \<and> walk nodes m q = Some i)"
    then show "\<exists>q. walk nodes n q = Some i"
    proof (elim disjE exE conjE)
      fix c m q assume "trie_child nodes n c = Some m" "walk nodes m q = Some i"
      then show ?thesis by (intro exI [of _ "c # q"]) simp
    qed (intro exI [of _ "[]"], simp)
  next
    assume "\<exists>q. walk nodes n q = Some i"
    then obtain q where q: "walk nodes n q = Some i" by (elim exE)
    then show "i = n \<or> (\<exists>c m q. trie_child nodes n c = Some m \<and> walk nodes m q = Some i)"
      by (cases q) (auto split: option.splits)
  qed
  finally show ?case .
qed simp

lemma subtree_distinct:
  assumes "trie_ok nodes"
  shows "walk nodes 0 p = Some n \<Longrightarrow> length nodes - n \<le> k \<Longrightarrow> distinct (subtree k nodes n)"
proof (induction k arbitrary: n p)
  case (Suc k)
  have n: "n < length nodes" by (rule walk_root_bounds [OF assms Suc.prems(1)])
  let ?cs = "tn_children (nodes ! n)"
  have sub: "i \<in> set (subtree k nodes m) \<Longrightarrow> \<exists>q. walk nodes 0 (p @ c # q) = Some i" and
    size: "m < length nodes" "length nodes - m \<le> k" and dis: "distinct (subtree k nodes m)"
    if "(c, m) \<in> set ?cs" for c m i
  proof -
    have e: "trie_child nodes n c = Some m" using that n by (simp add: trie_child_iff [OF assms n] edge_def)
    have "n < m" and m: "m < length nodes" using trie_child_bounds [OF assms n e] by simp_all
    then show "m < length nodes" and k: "length nodes - m \<le> k" using Suc.prems(2) by simp_all
    have w: "walk nodes 0 (p @ [c]) = Some m" using Suc.prems(1) e by (simp add: walk_snoc)
    show "distinct (subtree k nodes m)" by (rule Suc.IH [OF w k])
    assume "i \<in> set (subtree k nodes m)"
    then obtain q where "walk nodes m q = Some i" using subtree_walk [OF assms m k] by blast
    with w have "walk nodes 0 ((p @ [c]) @ q) = Some i" by (simp only: walk_append [of nodes 0 "p @ [c]" q] option.case)
    then show "\<exists>q. walk nodes 0 (p @ c # q) = Some i" by auto
  qed
  have "distinct (concat (map (subtree k nodes) (map snd xs)))" if "set xs \<subseteq> set ?cs" "distinct (map fst xs)" for xs
    using that
  proof (induction xs)
    case (Cons x xs)
    obtain c m where x: "x = (c, m)" by (cases x)
    have "i \<notin> set (subtree k nodes m')" if i: "i \<in> set (subtree k nodes m)" and m': "(c', m') \<in> set xs" for i c' m'
    proof
      assume "i \<in> set (subtree k nodes m')"
      with sub [of c' m' i] Cons.prems m' obtain q' where "walk nodes 0 (p @ c' # q') = Some i" by auto
      moreover obtain q where "walk nodes 0 (p @ c # q) = Some i" using sub [of c m i] Cons.prems x i by auto
      ultimately have "p @ c' # q' = p @ c # q" by (rule walk_unique [OF assms])
      with Cons.prems(2) m' x show False by (auto simp: image_iff)
    qed
    then have "set (subtree k nodes m) \<inter> set (concat (map (subtree k nodes) (map snd xs))) = {}" by fastforce
    with Cons x dis [of c m] show ?case by auto
  qed simp
  from this [of ?cs] have "distinct (concat (map (subtree k nodes) (map snd ?cs)))"
    using trie_okD(2) [OF assms n] by simp
  moreover have "n \<notin> set (subtree k nodes m)" if child: "(c, m) \<in> set ?cs" for c m
  proof
    assume "n \<in> set (subtree k nodes m)"
    then obtain q where "walk nodes 0 (p @ c # q) = Some n" using sub [OF child] by blast
    from walk_unique [OF assms this Suc.prems(1)] show False by simp
  qed
  ultimately show ?case by auto
qed simp

lemma subtree_length:
  assumes "trie_ok nodes" and "walk nodes 0 p = Some n"
  shows "length (subtree (length nodes) nodes n) \<le> length nodes"
proof -
  have n: "n < length nodes" by (rule walk_root_bounds [OF assms])
  have d: "distinct (subtree (length nodes) nodes n)" by (rule subtree_distinct [OF assms]) simp
  have "set (subtree (length nodes) nodes n) \<subseteq> {..<length nodes}"
    using subtree_walk [OF assms(1) n, of "length nodes"] walk_bounds [OF assms(1) n] by auto
  then have "card (set (subtree (length nodes) nodes n)) \<le> card {..<length nodes}" by (intro card_mono) simp_all
  then show ?thesis by (simp add: distinct_card [OF d])
qed

lemma trie_below_mset:
  assumes ok: "trie_ok nodes"
  shows "\<forall>n \<in> set pending. n < length nodes \<Longrightarrow>
    length (concat (map (subtree (length nodes) nodes) pending)) \<le> fuel \<Longrightarrow>
    mset (trie_below fuel nodes pending records) =
      mset (records @ concat (map (\<lambda>n. tn_records (nodes ! n)) (concat (map (subtree (length nodes) nodes) pending))))"
proof (induction fuel arbitrary: pending records)
  case 0
  have "pending = []"
  proof (rule ccontr)
    assume "pending \<noteq> []"
    then obtain n where "n \<in> set pending" by (cases pending) auto
    with 0 subtree_unfold [OF ok, of n] show False by auto
  qed
  then show ?case by simp
next
  case (Suc fuel)
  show ?case
  proof (cases pending rule: rev_cases)
    case (snoc ps n)
    let ?s = "subtree (length nodes) nodes" and ?cs = "map snd (tn_children (nodes ! n))"
    have n: "n < length nodes" using Suc.prems(1) snoc by simp
    note u = subtree_unfold [OF ok n]
    have "\<forall>m \<in> set (ps @ ?cs). m < length nodes" using Suc.prems(1) snoc child_bounds(2) [OF ok n] by auto
    moreover have "length (concat (map ?s (ps @ ?cs))) \<le> fuel" using Suc.prems(2) unfolding snoc by (simp add: u)
    ultimately have "mset (trie_below fuel nodes (ps @ ?cs) (records @ tn_records (nodes ! n))) =
        mset ((records @ tn_records (nodes ! n)) @ concat (map (\<lambda>n. tn_records (nodes ! n)) (concat (map ?s (ps @ ?cs)))))"
      by (rule Suc.IH)
    then show ?thesis unfolding snoc by (simp add: u)
  qed simp
qed

lemma lookup_completions:
  assumes "holds nodes key bound"
  shows "trie_lookup nodes ids Completions = filter (\<lambda>i. \<exists>p. key i = Some p \<and> prefix ids p) [0..<bound]"
proof (cases "walk nodes 0 ids")
  case None
  have "walk nodes 0 p = None" if "prefix ids p" for p
    using that None by (auto simp: prefix_def walk_append)
  then have "key i \<noteq> Some p" if "prefix ids p" "i < bound" for i p
    using holdsD(2) [OF assms, of p] that by (auto simp: records_at_def)
  then have "filter (\<lambda>i. \<exists>p. key i = Some p \<and> prefix ids p) [0..<bound] = []" by (auto simp: filter_empty_conv)
  with None show ?thesis by (simp add: trie_lookup_def follow_root)
next
  case (Some n)
  note ok = holdsD(1) [OF assms]
  have n: "n < length nodes" by (rule walk_root_bounds [OF ok Some])
  let ?s = "subtree (length nodes) nodes n" and ?r = "\<lambda>n. tn_records (nodes ! n)"
  have below: "i \<in> set ?s \<longleftrightarrow> (\<exists>q. walk nodes 0 (ids @ q) = Some i)" for i
    using subtree_walk [OF ok n, of "length nodes" i] Some by (simp add: walk_append)
  have at: "records_at nodes p = ?r i" if "walk nodes 0 p = Some i" for p i using that by (simp add: records_at_def)
  have "distinct (concat (map ?r xs))" if "distinct xs" "set xs \<subseteq> set ?s" for xs
    using that
  proof (induction xs)
    case (Cons i xs)
    obtain q where q: "walk nodes 0 (ids @ q) = Some i" using below Cons.prems(2) by auto
    have "x \<notin> set (?r j)" if r: "x \<in> set (?r i)" and j: "j \<in> set xs" for x j
    proof
      assume x: "x \<in> set (?r j)"
      obtain q' where q': "walk nodes 0 (ids @ q') = Some j" using below Cons.prems(2) j by auto
      from holdsD(2) [OF assms, of "ids @ q"] holdsD(2) [OF assms, of "ids @ q'"] at [OF q] at [OF q'] x r
      have "ids @ q = ids @ q'" by auto
      with q q' have "i = j" by simp
      with Cons.prems(1) j show False by simp
    qed
    then have "set (?r i) \<inter> set (concat (map ?r xs)) = {}" by fastforce
    with Cons holdsD(3) [OF assms, of "ids @ q"] at [OF q] show ?case by auto
  qed simp
  from this [of ?s] have d: "distinct (concat (map ?r ?s))" using subtree_distinct [OF ok Some] by simp
  have s: "set (concat (map ?r ?s)) = {i. i < bound \<and> (\<exists>p. key i = Some p \<and> prefix ids p)}"
  proof (intro set_eqI iffI)
    fix x assume "x \<in> set (concat (map ?r ?s))"
    then obtain i where i: "i \<in> set ?s" "x \<in> set (?r i)" by auto
    then obtain q where "walk nodes 0 (ids @ q) = Some i" using below by blast
    from holdsD(2) [OF assms, of "ids @ q"] at [OF this] i(2)
    show "x \<in> {i. i < bound \<and> (\<exists>p. key i = Some p \<and> prefix ids p)}" by auto
  next
    fix x assume "x \<in> {i. i < bound \<and> (\<exists>p. key i = Some p \<and> prefix ids p)}"
    then obtain q where x: "x < bound" "key x = Some (ids @ q)" by (auto simp: prefix_def)
    then have r: "x \<in> set (records_at nodes (ids @ q))" by (simp add: holdsD(2) [OF assms])
    then obtain i where i: "walk nodes 0 (ids @ q) = Some i"
      by (cases "walk nodes 0 (ids @ q)") (simp_all add: records_at_def)
    then have "i \<in> set ?s" using below by blast
    moreover have "x \<in> set (?r i)" using r at [OF i] by simp
    ultimately show "x \<in> set (concat (map ?r ?s))" by auto
  qed
  have "mset (trie_below (length nodes) nodes [n] []) = mset (concat (map ?r ?s))"
    using trie_below_mset [OF ok, of "[n]" "length nodes" "[]"] n subtree_length [OF ok Some] by simp
  then have "sort (trie_below (length nodes) nodes [n] []) = sort (concat (map ?r ?s))"
    by (metis mset_sort properties_for_sort sorted_sort)
  moreover have "trie_lookup nodes ids Completions = sort (trie_below (length nodes) nodes [n] [])"
    using Some by (simp add: trie_lookup_def follow_root)
  ultimately show ?thesis using sort_eq_filter [OF d s] by simp
qed

section \<open>The interface of an index\<close>

text \<open>
  What the learning memory relies on, of either index: that it gives the positions of exactly the records with a reading,
  and of those whose reading begins a text.
\<close>

locale record_index =
  fixes graphemes :: segmenter and characters :: CharacterIdMap
    and build :: "LearningRecord list \<Rightarrow> 'i" and find_positions :: "'i \<Rightarrow> byte list \<Rightarrow> MatchKind \<Rightarrow> nat list"
  assumes exact_positions: "ids \<noteq> [] \<Longrightarrow>
      find_positions (build rs) ids Exact = filter (\<lambda>i. reading graphemes characters (rs ! i) = Some ids) [0..<length rs]"
    and prefix_positions: "find_positions (build rs) ids Prefixes =
      filter (\<lambda>i. \<exists>p. reading graphemes characters (rs ! i) = Some p \<and> p \<noteq> [] \<and> prefix p ids) [0..<length rs]"
begin

lemma nth_filter_upt: "map (\<lambda>i. rs ! i) (filter (\<lambda>i. P (rs ! i)) [0..<length rs]) = filter P rs"
proof -
  have "filter P (map (\<lambda>i. rs ! i) [0..<length rs]) = map (\<lambda>i. rs ! i) (filter (\<lambda>i. P (rs ! i)) [0..<length rs])"
    by (simp only: filter_map comp_def)
  then show ?thesis by (simp only: map_nth)
qed

lemma exact_records:
  "ids \<noteq> [] \<Longrightarrow> map (\<lambda>i. rs ! i) (find_positions (build rs) ids Exact) = filter (\<lambda>r. reading graphemes characters r = Some ids) rs"
  using nth_filter_upt [of rs "\<lambda>r. reading graphemes characters r = Some ids"] by (simp add: exact_positions)

lemma prefix_records:
  "map (\<lambda>i. rs ! i) (find_positions (build rs) ids Prefixes) =
   filter (\<lambda>r. \<exists>p. reading graphemes characters r = Some p \<and> p \<noteq> [] \<and> prefix p ids) rs"
  unfolding prefix_positions by (rule nth_filter_upt)

end

interpretation trie_index: record_index graphemes characters "new_trie graphemes characters" trie_lookup
  for graphemes characters
  by unfold_locales (rule lookup_exact [OF new_trie_holds], rule lookup_prefixes [OF new_trie_holds])

end
