(* ===== verification/Memory_Louds.thy ===== *)
theory Memory_Louds
  imports Memory_Trie
begin

text \<open>
  The LOUDS index that is made from a trie answers like the trie: the breadth-first walk that writes it, the bits, the
  words of 64 bits and their parsing agree on which node is whose child.
\<close>

section \<open>The breadth-first order\<close>

abbreviation kids :: "MemoryTrie \<Rightarrow> nat \<Rightarrow> (byte \<times> nat) list" where
  "kids nodes n \<equiv> tn_children (nodes ! n)"

fun level_list :: "nat \<Rightarrow> MemoryTrie \<Rightarrow> (byte \<times> nat) list \<Rightarrow> (byte \<times> nat) list" where
  "level_list 0 nodes current = []"
| "level_list (Suc fuel) nodes current =
     (if current = [] then [] else current @ level_list fuel nodes (concat (map (\<lambda>(_, n). kids nodes n) current)))"

lemma encode_levels_list:
  "encode_levels fuel nodes current index =
     \<lparr>ei_bits = ei_bits index @
        concat (map (\<lambda>(_, n). replicate (length (kids nodes n)) True @ [False]) (level_list fuel nodes current)),
      ei_characters = ei_characters index @ map fst (level_list fuel nodes current),
      ei_blocks = ei_blocks index @ map (\<lambda>(_, n). tn_records (nodes ! n)) (level_list fuel nodes current)\<rparr>"
  by (induction fuel nodes current index rule: encode_levels.induct) simp_all

lemma level_list_fix:
  assumes "trie_ok nodes"
  shows "\<forall>(c, n) \<in> set current. n < length nodes \<and> length nodes \<le> n + fuel \<Longrightarrow>
    level_list fuel nodes current = current @ concat (map (\<lambda>(_, n). kids nodes n) (level_list fuel nodes current))"
proof (induction fuel arbitrary: current)
  case 0
  then have "current = []" by (cases current) auto
  then show ?case by simp
next
  case (Suc fuel)
  show ?case
  proof (cases "current = []")
    case False
    let ?next = "concat (map (\<lambda>(_, n). kids nodes n) current)"
    have "\<forall>(c, n) \<in> set ?next. n < length nodes \<and> length nodes \<le> n + fuel"
    proof (intro ballI, clarify)
      fix d m assume "(d, m) \<in> set ?next"
      then obtain c n where cn: "(c, n) \<in> set current" "(d, m) \<in> set (kids nodes n)" by auto
      then have b: "n < length nodes" "length nodes \<le> n + Suc fuel" using Suc.prems by auto
      then have "edge nodes n d m" using cn(2) by (simp add: edge_def)
      with trie_okD(3,4) [OF assms, of n d m] b show "m < length nodes \<and> length nodes \<le> m + fuel" by auto
    qed
    from Suc.IH [OF this] False show ?thesis by (simp add: append_assoc)
  qed simp
qed

text \<open>The nodes in the order of their LOUDS numbers, from the root, which has the number one.\<close>

definition order :: "MemoryTrie \<Rightarrow> nat list" where
  "order nodes = 0 # map snd (level_list (length nodes) nodes (kids nodes 0))"

definition edges :: "MemoryTrie \<Rightarrow> (byte \<times> nat) list" where
  "edges nodes = level_list (length nodes) nodes (kids nodes 0)"

lemma order_edges: "order nodes = 0 # map snd (edges nodes)"
  by (simp add: order_def edges_def)

lemma edges_order:
  assumes "trie_ok nodes"
  shows "edges nodes = concat (map (kids nodes) (order nodes))"
proof -
  have "\<forall>(c, n) \<in> set (kids nodes 0). n < length nodes \<and> length nodes \<le> n + length nodes"
  proof (intro ballI, clarify)
    fix c n assume "(c, n) \<in> set (kids nodes 0)"
    then have "edge nodes 0 c n" using trie_okD(1) [OF assms] by (simp add: edge_def)
    from trie_okD(4) [OF assms this] show "n < length nodes \<and> length nodes \<le> n + length nodes" by simp
  qed
  from level_list_fix [OF assms this] show ?thesis
    by (simp add: order_edges edges_def comp_def case_prod_unfold)
qed

definition degrees :: "MemoryTrie \<Rightarrow> nat list" where
  "degrees nodes = map (\<lambda>n. length (kids nodes n)) (order nodes)"

lemma length_degrees [simp]: "length (degrees nodes) = length (order nodes)"
  by (simp add: degrees_def)

lemma encode_trie_parts:
  "ei_bits (encode_trie nodes) = [True, False] @ unary (degrees nodes)"
  "ei_characters (encode_trie nodes) = [0, 0] @ map fst (edges nodes)"
  "ei_blocks (encode_trie nodes) = [[], []] @ map (\<lambda>n. tn_records (nodes ! n)) (map snd (edges nodes))"
  by (simp_all add: encode_trie_def Let_def encode_levels_list unary_def degrees_def order_edges edges_def comp_def case_prod_unfold)

lemma sum_degrees:
  assumes "trie_ok nodes"
  shows "sum_list (take k (degrees nodes)) = length (concat (map (kids nodes) (take k (order nodes))))"
    and "sum_list (degrees nodes) + 1 = length (order nodes)"
proof -
  show take: "sum_list (take k (degrees nodes)) = length (concat (map (kids nodes) (take k (order nodes))))" for k
    by (simp add: degrees_def length_concat take_map comp_def)
  have "sum_list (degrees nodes) = length (edges nodes)"
    using take [of "length (order nodes)"] by (simp add: edges_order [OF assms])
  then show "sum_list (degrees nodes) + 1 = length (order nodes)" by (simp add: order_edges)
qed

text \<open>The children of the node with number \<open>Suc k\<close> have consecutive numbers.\<close>

lemma edges_nth:
  assumes "trie_ok nodes" and "k < length (order nodes)" and "t < length (kids nodes (order nodes ! k))"
  shows "edges nodes ! (sum_list (take k (degrees nodes)) + t) = kids nodes (order nodes ! k) ! t"
    and "sum_list (take k (degrees nodes)) + t < length (edges nodes)"
proof -
  let ?o = "order nodes"
  have "concat (map (kids nodes) ?o) =
      concat (map (kids nodes) (take k ?o)) @ kids nodes (?o ! k) @ concat (map (kids nodes) (drop (Suc k) ?o))"
    by (subst id_take_nth_drop [OF assms(2)]) simp
  then have e: "edges nodes =
      concat (map (kids nodes) (take k ?o)) @ kids nodes (?o ! k) @ concat (map (kids nodes) (drop (Suc k) ?o))"
    by (simp add: edges_order [OF assms(1)])
  show "edges nodes ! (sum_list (take k (degrees nodes)) + t) = kids nodes (?o ! k) ! t"
    unfolding e sum_degrees(1) [OF assms(1)] using assms(3) by (simp add: nth_append del: length_concat)
  show "sum_list (take k (degrees nodes)) + t < length (edges nodes)"
    unfolding e sum_degrees(1) [OF assms(1)] using assms(3) by (simp del: length_concat)
qed

section \<open>The parsed index\<close>

definition louds_of :: "MemoryTrie \<Rightarrow> MemoryLouds" where
  "louds_of nodes =
     \<lparr>ml_louds =
        \<lparr>node_ids = [0, 0] @ map fst (edges nodes),
         child_ranges = (0, 0) # map (\<lambda>k. (sum_list (take k (degrees nodes)) + 2, sum_list (take (Suc k) (degrees nodes)) + 2))
           [0..<length (order nodes)]\<rparr>,
      ml_blocks = [[], []] @ map (\<lambda>n. tn_records (nodes ! n)) (map snd (edges nodes))\<rparr>"

lemma new_louds_of:
  "new_louds graphemes characters rs = Some (louds_of (new_trie graphemes characters rs))"
proof -
  let ?nodes = "new_trie graphemes characters rs"
  have ok: "trie_ok ?nodes" using new_trie_records by blast
  have "length ([0, 0] @ map fst (edges ?nodes)) = Suc (length (degrees ?nodes))" by (simp add: order_edges)
  moreover have "sum_list (degrees ?nodes) + 1 \<le> length (degrees ?nodes)" using sum_degrees(2) [OF ok] by simp
  ultimately have "parse_louds (encode_louds ([True, False] @ unary (degrees ?nodes))) ([0, 0] @ map fst (edges ?nodes)) =
      Inr (ml_louds (louds_of ?nodes))"
    by (subst parse_encoded_louds) (simp_all add: louds_of_def del: upt_Suc)
  then show ?thesis
    unfolding new_louds_def Let_def encode_trie_parts by (simp add: louds_of_def)
qed

text \<open>Number \<open>i\<close> stands for node \<open>n\<close>.\<close>

definition numbered :: "MemoryTrie \<Rightarrow> nat \<Rightarrow> nat \<Rightarrow> bool" where
  "numbered nodes i n \<longleftrightarrow> 1 \<le> i \<and> i \<le> length (order nodes) \<and> order nodes ! (i - 1) = n \<and> n < length nodes"

lemma numbered_root: "trie_ok nodes \<Longrightarrow> numbered nodes 1 0"
  by (simp add: numbered_def order_def trie_ok_def)

lemma map_of_find:
  "map_of xs c = map_option (\<lambda>t. snd (xs ! t)) (find (\<lambda>t. fst (xs ! t) = c) [0..<length xs])"
proof (induction xs)
  case (Cons x xs)
  have f: "find P (map Suc ts) = map_option Suc (find (\<lambda>t. P (Suc t)) ts)" for P ts by (induction ts) simp_all
  show ?case
    by (cases x) (simp add: upt_conv_Cons f Cons option.map_comp comp_def flip: map_Suc_upt del: upt_Suc)
qed simp

lemma upt_shift: "[a..<a + d] = map (\<lambda>t. a + t) [0..<d]"
  using map_add_upt [of a d] by (simp add: add.commute)

lemma child_range_numbered:
  assumes "trie_ok nodes" and "numbered nodes i n"
  shows "child_range (ml_louds (louds_of nodes)) i =
    map (\<lambda>t. sum_list (take (i - 1) (degrees nodes)) + 2 + t) [0..<length (kids nodes n)]"
proof -
  obtain k where k: "i = Suc k" "k < length (order nodes)" "order nodes ! k = n"
    using assms(2) by (cases i) (auto simp: numbered_def)
  let ?S = "sum_list (take k (degrees nodes))"
  have "sum_list (take (Suc k) (degrees nodes)) = ?S + length (kids nodes n)"
    using k by (simp add: take_Suc_conv_app_nth degrees_def)
  then have "child_range (ml_louds (louds_of nodes)) i = [?S + 2..<?S + 2 + length (kids nodes n)]"
    using k by (simp add: child_range_def louds_of_def add.commute del: upt_Suc)
  also have "\<dots> = map (\<lambda>t. ?S + 2 + t) [0..<length (kids nodes n)]"
    by (rule upt_shift)
  finally show ?thesis using k(1) by simp
qed

text \<open>The children of a number, their characters, their nodes and their records.\<close>

lemma child_numbered:
  assumes "trie_ok nodes" and "numbered nodes i n" and "t < length (kids nodes n)"
  defines "j \<equiv> sum_list (take (i - 1) (degrees nodes)) + 2 + t"
  shows "numbered nodes j (snd (kids nodes n ! t))"
    and "j < length (node_ids (ml_louds (louds_of nodes)))" and "node_ids (ml_louds (louds_of nodes)) ! j = fst (kids nodes n ! t)"
    and "ml_blocks (louds_of nodes) ! j = tn_records (nodes ! snd (kids nodes n ! t))"
proof -
  obtain k where k: "i = Suc k" "k < length (order nodes)" "order nodes ! k = n"
    using assms(2) by (cases i) (auto simp: numbered_def)
  let ?S = "sum_list (take k (degrees nodes))"
  have e: "edges nodes ! (?S + t) = kids nodes n ! t" "?S + t < length (edges nodes)"
    using edges_nth [OF assms(1) k(2), of t] assms(3) k(3) by simp_all
  have "edge nodes n (fst (kids nodes n ! t)) (snd (kids nodes n ! t))"
    using assms(2,3) by (simp add: edge_def numbered_def)
  with e trie_okD(4) [OF assms(1) this] show "numbered nodes j (snd (kids nodes n ! t))"
    unfolding j_def k(1) numbered_def order_edges by simp
  show "j < length (node_ids (ml_louds (louds_of nodes)))" "node_ids (ml_louds (louds_of nodes)) ! j = fst (kids nodes n ! t)"
    "ml_blocks (louds_of nodes) ! j = tn_records (nodes ! snd (kids nodes n ! t))"
    using e by (simp_all add: j_def k(1) louds_of_def)
qed

lemma search_child_numbered:
  assumes "trie_ok nodes" and "numbered nodes i n"
  shows "rel_option (\<lambda>j m. numbered nodes j m \<and> ml_blocks (louds_of nodes) ! j = tn_records (nodes ! m))
    (search_child (ml_louds (louds_of nodes)) i c) (trie_child nodes n c)"
proof -
  let ?S = "sum_list (take (i - 1) (degrees nodes)) + 2" and ?ks = "kids nodes n" and ?l = "ml_louds (louds_of nodes)"
  have f: "find P (map g ts) = map_option g (find (\<lambda>t. P (g t)) ts)" for P and g :: "nat \<Rightarrow> nat" and ts
    by (induction ts) simp_all
  have c: "find P ts = find Q ts" if "\<And>t. t \<in> set ts \<Longrightarrow> P t \<longleftrightarrow> Q t" for P Q and ts :: "nat list"
    using that by (induction ts) simp_all
  have "search_child ?l i c = map_option (\<lambda>t. ?S + t) (find (\<lambda>t. fst (?ks ! t) = c) [0..<length ?ks])"
    unfolding search_child_def child_range_numbered [OF assms] f
  proof (rule arg_cong [OF c])
    fix t assume "t \<in> set [0..<length ?ks]"
    then have "t < length ?ks" by simp
    from child_numbered(2,3) [OF assms this]
    show "(?S + t < length (node_ids ?l) \<and> node_ids ?l ! (?S + t) = c) \<longleftrightarrow> fst (?ks ! t) = c" by simp
  qed
  moreover have "trie_child nodes n c = map_option (\<lambda>t. snd (?ks ! t)) (find (\<lambda>t. fst (?ks ! t) = c) [0..<length ?ks])"
    unfolding trie_child_def by (rule map_of_find)
  ultimately show ?thesis
  proof (cases "find (\<lambda>t. fst (?ks ! t) = c) [0..<length ?ks]")
    case (Some t)
    then have "t < length ?ks" by (auto simp: find_Some_iff)
    from child_numbered [OF assms this] show ?thesis
      using \<open>search_child ?l i c = _\<close> \<open>trie_child nodes n c = _\<close> Some by simp
  qed simp
qed

section \<open>The same answers\<close>

text \<open>Two indexes whose children and records correspond collect the same records along a text.\<close>

lemma follow_related:
  assumes step: "\<And>m n c. R m n \<Longrightarrow> rel_option (\<lambda>m' n'. R m' n' \<and> block m' = block' n') (child m c) (child' n c)"
    and "R m n"
  shows "fst (follow child block kind m ids acc) = fst (follow child' block' kind n ids acc)"
    and "rel_option (\<lambda>m' n'. R m' n' \<and> (ids \<noteq> [] \<longrightarrow> block m' = block' n'))
      (snd (follow child block kind m ids acc)) (snd (follow child' block' kind n ids acc))"
proof -
  have "fst (follow child block kind m ids acc) = fst (follow child' block' kind n ids acc) \<and>
    rel_option (\<lambda>m' n'. R m' n' \<and> (ids \<noteq> [] \<or> block m = block' n \<longrightarrow> block m' = block' n'))
      (snd (follow child block kind m ids acc)) (snd (follow child' block' kind n ids acc))"
    using assms(2)
  proof (induction ids arbitrary: m n acc)
    case (Cons c cs)
    from step [OF Cons.prems, of c] show ?case
    proof (cases rule: option.rel_cases)
      case (Some m' n')
      then show ?thesis using Cons.IH [of m' n'] by (cases "kind = Prefixes") simp_all
    qed simp
  qed simp
  then show "fst (follow child block kind m ids acc) = fst (follow child' block' kind n ids acc)"
    and "rel_option (\<lambda>m' n'. R m' n' \<and> (ids \<noteq> [] \<longrightarrow> block m' = block' n'))
      (snd (follow child block kind m ids acc)) (snd (follow child' block' kind n ids acc))"
    by (auto elim!: option.rel_mono_strong)
qed

lemma louds_lookup_same:
  assumes "trie_ok nodes" and "ids \<noteq> []" and "kind \<noteq> Completions"
  shows "louds_lookup (louds_of nodes) ids kind = trie_lookup nodes ids kind"
proof -
  let ?f = "follow (search_child (ml_louds (louds_of nodes))) (\<lambda>n. ml_blocks (louds_of nodes) ! n) kind 1 ids []"
  let ?g = "follow (trie_child nodes) (\<lambda>n. tn_records (nodes ! n)) kind 0 ids []"
  note r = follow_related [where R = "numbered nodes" and child = "search_child (ml_louds (louds_of nodes))" and child' = "trie_child nodes" and
      block = "\<lambda>n. ml_blocks (louds_of nodes) ! n" and block' = "\<lambda>n. tn_records (nodes ! n)" and m = 1 and n = 0 and
      kind = kind and ids = ids and acc = "[]",
      OF search_child_numbered [OF assms(1)] numbered_root [OF assms(1)]]
  obtain fr fn where f: "?f = (fr, fn)" by fastforce
  obtain gr gn where g: "?g = (gr, gn)" by fastforce
  have "fr = gr" using r(1) f g by simp
  moreover have "rel_option (\<lambda>m' n'. numbered nodes m' n' \<and> ml_blocks (louds_of nodes) ! m' = tn_records (nodes ! n')) fn gn"
    using r(2) f g assms(2) by simp
  ultimately show ?thesis
    using f g assms(3) unfolding louds_lookup_def trie_lookup_def
    by (cases fn; cases gn) (auto split: MatchKind.split)
qed

text \<open>What \<open>descendants\<close> finds is below the node it starts from.\<close>

definition below :: "MemoryTrie \<Rightarrow> nat \<Rightarrow> nat \<Rightarrow> bool" where
  "below nodes n j \<longleftrightarrow>
     (\<exists>m q. q \<noteq> [] \<and> walk nodes n q = Some m \<and> numbered nodes j m \<and> ml_blocks (louds_of nodes) ! j = tn_records (nodes ! m))"

lemma below_trans: "below nodes n i \<Longrightarrow> numbered nodes i m \<Longrightarrow> below nodes m j \<Longrightarrow> below nodes n j"
proof (unfold below_def, elim exE conjE)
  fix k q l r
  assume "walk nodes n q = Some k" "numbered nodes i k" "numbered nodes i m" "walk nodes m r = Some l"
    "numbered nodes j l" "ml_blocks (louds_of nodes) ! j = tn_records (nodes ! l)" "q \<noteq> []"
  then show "\<exists>m q. q \<noteq> [] \<and> walk nodes n q = Some m \<and> numbered nodes j m \<and> ml_blocks (louds_of nodes) ! j = tn_records (nodes ! m)"
    by (intro exI [of _ l] exI [of _ "q @ r"]) (simp add: walk_append numbered_def)
qed

lemma below_child:
  assumes "trie_ok nodes" and "numbered nodes i n" and "j \<in> set (child_range (ml_louds (louds_of nodes)) i)"
  shows "below nodes n j"
proof -
  have n: "n < length nodes" using assms(2) by (simp add: numbered_def)
  obtain t where t: "t < length (kids nodes n)" "j = sum_list (take (i - 1) (degrees nodes)) + 2 + t"
    using assms(3) unfolding child_range_numbered [OF assms(1,2)] by auto
  have "edge nodes n (fst (kids nodes n ! t)) (snd (kids nodes n ! t))" using t(1) n by (simp add: edge_def)
  then have "walk nodes n [fst (kids nodes n ! t)] = Some (snd (kids nodes n ! t))"
    by (simp add: trie_child_iff [OF assms(1) n] del: walk.simps)
  with child_numbered(1,4) [OF assms(1,2) t(1)] t(2) show ?thesis unfolding below_def by blast
qed

lemma descendants_below:
  assumes ok: "trie_ok nodes"
  shows "l = ml_louds (louds_of nodes) \<Longrightarrow> numbered nodes i n \<Longrightarrow>
      \<forall>j \<in> set (descendants_from l i dep max_depth max_count). below nodes n j"
    and "l = ml_louds (louds_of nodes) \<Longrightarrow> \<forall>j \<in> set cs. below nodes n j \<Longrightarrow> \<forall>j \<in> set out. below nodes n j \<Longrightarrow>
      \<forall>j \<in> set (descend_children l cs dep max_depth max_count out). below nodes n j"
proof (induction l i dep max_depth max_count and l cs dep max_depth max_count out arbitrary: n and n
    rule: descendants_from_descend_children.induct)
  case (1 l parent dep max_depth max_count)
  then have "\<forall>j \<in> set (child_range l parent). below nodes n j" using below_child [OF ok] by blast
  with 1 show ?case by (auto simp: Let_def)
next
  case (4 l child children dep max_depth max_count x xs)
  show ?case
  proof (cases "length (x # xs) > max_count")
    case False
    obtain m q where m: "numbered nodes child m" "below nodes n child"
      using 4(4) by (auto simp: below_def)
    have "\<forall>j \<in> set (descendants_from l child (Suc dep) max_depth (max_count - length (x # xs))). below nodes m j"
      by (rule 4(1) [OF False 4(3) m(1)])
    then have "\<forall>j \<in> set ((x # xs) @ descendants_from l child (Suc dep) max_depth (max_count - length (x # xs))). below nodes n j"
      using 4(5) below_trans [OF m(2,1)] by auto
    from 4(2) [OF False 4(3) _ this] 4(4) False show ?thesis by simp
  qed (use 4(5) in simp)
qed simp_all

lemma louds_completions_below:
  assumes "holds nodes key bound"
  shows "set (louds_lookup (louds_of nodes) ids Completions) \<subseteq> {i. i < bound \<and> (\<exists>p. key i = Some p \<and> strict_prefix ids p)}"
proof
  note ok = holdsD(1) [OF assms]
  let ?l = "ml_louds (louds_of nodes)"
  fix x assume x: "x \<in> set (louds_lookup (louds_of nodes) ids Completions)"
  have collected: "fst (follow child block Completions n ids []) = []" for child :: "nat \<Rightarrow> byte \<Rightarrow> nat option" and block n
    by (induction ids arbitrary: n) (simp_all split: option.split)
  obtain fn where f: "follow (search_child ?l) (\<lambda>n. ml_blocks (louds_of nodes) ! n) Completions 1 ids [] = ([], fn)"
    using collected by (metis prod.collapse)
  obtain j where j: "j \<in> set (descendants ?l ids (2 ^ 64 - 1) 700)" "x \<in> set (ml_blocks (louds_of nodes) ! j)"
    using x f unfolding louds_lookup_def by (cases fn) auto
  have same: "search_from l n ids = snd (follow (search_child l) block Completions n ids acc)" for l n block acc
    by (induction ids arbitrary: n acc) (simp_all split: option.split)
  note r = follow_related(2) [where R = "numbered nodes" and child = "search_child (ml_louds (louds_of nodes))" and child' = "trie_child nodes" and
      block = "\<lambda>n. ml_blocks (louds_of nodes) ! n" and block' = "\<lambda>n. tn_records (nodes ! n)" and m = 1 and n = 0 and
      kind = Completions and ids = ids and acc = "[]", OF search_child_numbered [OF ok] numbered_root [OF ok]]
  obtain i where i: "search_from ?l 1 ids = Some i" "j \<in> set (descendants_from ?l i 0 (2 ^ 64 - 1) 700)"
    using j(1) by (cases "search_from ?l 1 ids") (simp_all add: descendants_def search_def del: descendants_from.simps)
  then obtain n where n: "walk nodes 0 ids = Some n" "numbered nodes i n"
    using r unfolding same [of ?l 1 "\<lambda>n. ml_blocks (louds_of nodes) ! n" "[]"]
    by (auto simp: follow_walk option_rel_Some1)
  from descendants_below(1) [OF ok refl n(2)] i(2) have "below nodes n j" by blast
  then obtain m q where m: "q \<noteq> []" "walk nodes n q = Some m" "ml_blocks (louds_of nodes) ! j = tn_records (nodes ! m)"
    by (auto simp: below_def)
  then have "walk nodes 0 (ids @ q) = Some m" using n(1) by (simp add: walk_append)
  then have "x \<in> set (records_at nodes (ids @ q))" using j(2) m(3) by (simp add: records_at_def)
  with holdsD(2) [OF assms, of "ids @ q"] m(1) show "x \<in> {i. i < bound \<and> (\<exists>p. key i = Some p \<and> strict_prefix ids p)}"
    by (auto simp: strict_prefix_def)
qed

interpretation louds_index: record_index graphemes characters "\<lambda>rs. the (new_louds graphemes characters rs)" louds_lookup
  for graphemes characters
proof unfold_locales
  fix ids :: "byte list" and rs
  let ?nodes = "new_trie graphemes characters rs"
  have ok: "trie_ok ?nodes" using new_trie_records by blast
  show "louds_lookup (the (new_louds graphemes characters rs)) ids Exact =
      filter (\<lambda>i. reading graphemes characters (rs ! i) = Some ids) [0..<length rs]" if "ids \<noteq> []"
    using louds_lookup_same [OF ok that] trie_index.exact_positions [OF that] by (simp add: new_louds_of)
  show "louds_lookup (the (new_louds graphemes characters rs)) ids Prefixes =
      filter (\<lambda>i. \<exists>p. reading graphemes characters (rs ! i) = Some p \<and> p \<noteq> [] \<and> prefix p ids) [0..<length rs]"
  proof (cases "ids = []")
    case True
    then show ?thesis by (simp add: louds_lookup_def new_louds_of)
  next
    case False
    from louds_lookup_same [OF ok this, of Prefixes] show ?thesis
      using trie_index.prefix_positions [of graphemes characters rs ids] by (simp add: new_louds_of)
  qed
qed

section \<open>Properties\<close>

text \<open>
  The trie of the learning memory answers exactly: for a text, the positions of all records that read as it;
  for prefixes, those whose reading is a nonempty prefix of it; for completions, those whose reading begins with it. Each
  position comes once and in the order of the records, whatever the order and the multiplicity of the readings.
\<close>

theorem memory_trie_answers:
  "trie_lookup (new_trie graphemes characters rs) ids Exact =
     filter (\<lambda>i. encode_ids graphemes characters (ruby (lr_entry (rs ! i))) = Some ids) [0..<length rs] \<and>
   trie_lookup (new_trie graphemes characters rs) ids Prefixes =
     filter (\<lambda>i. \<exists>p. encode_ids graphemes characters (ruby (lr_entry (rs ! i))) = Some p \<and> p \<noteq> [] \<and> prefix p ids) [0..<length rs] \<and>
   trie_lookup (new_trie graphemes characters rs) ids Completions =
     filter (\<lambda>i. \<exists>p. encode_ids graphemes characters (ruby (lr_entry (rs ! i))) = Some p \<and> prefix ids p) [0..<length rs]"
  using lookup_exact [OF new_trie_holds, of graphemes characters rs ids]
    lookup_prefixes [OF new_trie_holds, of graphemes characters rs ids]
    lookup_completions [OF new_trie_holds, of graphemes characters rs ids]
  by (simp add: reading_def)

text \<open>
  The compressed index of the same records, made by writing the trie breadth first into 64-bit words and parsing
  these as a LOUDS file, always parses, and for every text it returns the same positions for exact matches and for
  prefixes as the trie does; its completions, which are bounded, are records whose reading goes on after the text.
\<close>

theorem memory_louds_answers:
  assumes "ids \<noteq> []"
  shows "\<exists>m. new_louds graphemes characters rs = Some m \<and>
    louds_lookup m ids Exact = trie_lookup (new_trie graphemes characters rs) ids Exact \<and>
    louds_lookup m ids Prefixes = trie_lookup (new_trie graphemes characters rs) ids Prefixes \<and>
    set (louds_lookup m ids Completions) \<subseteq>
      {i. i < length rs \<and> (\<exists>p. encode_ids graphemes characters (ruby (lr_entry (rs ! i))) = Some p \<and> strict_prefix ids p)}"
proof -
  have h: "holds (new_trie graphemes characters rs) (\<lambda>i. reading graphemes characters (rs ! i)) (length rs)"
    by (rule new_trie_holds)
  from louds_lookup_same [OF holdsD(1) [OF h] assms] louds_completions_below [OF h, of ids] show ?thesis
    by (simp add: new_louds_of reading_def)
qed

definition sample_characters :: CharacterIdMap where
  "sample_characters = [[0x30A2] \<mapsto> 1, [0x30A4] \<mapsto> 2]"

definition sample_record :: "ustr \<Rightarrow> ustr \<Rightarrow> LearningRecord" where
  "sample_record w r =
     \<lparr>lr_entry = \<lparr>word = w, ruby = r, left_id = 1285, right_id = 1285, meaning_id = 501, base_value = 0xC1200000,
                 adjustment = 0, metadata = 0\<rparr>,
      last_used_day = 7, last_updated_day = 7, lr_count = 2\<rparr>"

definition sample_records :: "LearningRecord list" where
  "sample_records =
     [sample_record [0x611B] [0x30A2, 0x30A4], sample_record [0x4E9C] [0x30A2], sample_record [0x54C0] [0x30A2, 0x30A4]]"

theorem memory_louds_answers_witness:
  "\<exists>m. new_louds scalar_graphemes sample_characters sample_records = Some m \<and>
    louds_lookup m [1, 2] Exact = [0, 2] \<and> louds_lookup m [1, 2] Prefixes = [0, 1, 2] \<and>
    set (louds_lookup m [1, 2] Completions) \<subseteq> {i. i < 3}"
proof -
  have t: "trie_lookup (new_trie scalar_graphemes sample_characters sample_records) [1, 2] Exact = [0, 2]"
    "trie_lookup (new_trie scalar_graphemes sample_characters sample_records) [1, 2] Prefixes = [0, 1, 2]"
    "length sample_records = 3" by code_simp+
  obtain m where m: "new_louds scalar_graphemes sample_characters sample_records = Some m"
    "louds_lookup m [1, 2] Exact = trie_lookup (new_trie scalar_graphemes sample_characters sample_records) [1, 2] Exact"
    "louds_lookup m [1, 2] Prefixes = trie_lookup (new_trie scalar_graphemes sample_characters sample_records) [1, 2] Prefixes"
    and s: "set (louds_lookup m [1, 2] Completions) \<subseteq> {i. i < length sample_records \<and>
      (\<exists>p. encode_ids scalar_graphemes sample_characters (ruby (lr_entry (sample_records ! i))) = Some p \<and> strict_prefix [1, 2] p)}"
    using memory_louds_answers [of "[1, 2]" scalar_graphemes sample_characters sample_records, OF list.simps(3)]
    by (elim exE conjE) (rule that)
  from s t(3) have "set (louds_lookup m [1, 2] Completions) \<subseteq> {i. i < 3}" by auto
  with m t show ?thesis by (intro exI [of _ m]) simp
qed

end
