(* ===== verification/Learning.thy ===== *)
theory Learning
  imports Memory_Louds Strings "HOL-Library.While_Combinator"
begin

text \<open>
  \<open>crates/converter/src/learning.rs\<close>, the part in memory: the records of learned words, how they age, merge and are
  found. The records on the disk are in \<open>Learning_Files\<close>, the operations of the learning memory in \<open>Learning_Memory\<close>.
  \<open>learning_value\<close> computes with \<open>f64::powi\<close>, whose precision Rust leaves open; it is an argument of the model.
\<close>

section \<open>Classes of words\<close>

text \<open>\<open>word_type\<close> and \<open>is_clause\<close> of \<open>lattice.rs\<close>.\<close>

definition word_type :: "nat \<Rightarrow> nat" where
  "word_type class_id =
     (if class_id \<in> {0, 1316} then 3
      else if class_id \<in> {1315, 6, 557, 558, 559, 560} then 0
      else if 561 \<le> class_id \<and> class_id < 868 \<or> 1283 \<le> class_id \<and> class_id < 1297 \<or> 1306 \<le> class_id \<and> class_id < 1310 \<or>
              11 \<le> class_id \<and> class_id < 53 \<or> 555 \<le> class_id \<and> class_id < 557 \<or> 1281 \<le> class_id \<and> class_id < 1283 \<or>
              class_id \<in> {1314, 3, 2, 4, 5, 1, 9}
      then 1 else 2)"

definition is_clause :: "nat \<Rightarrow> nat \<Rightarrow> bool" where
  "is_clause former latter =
     (let latter_type = word_type latter
      in if latter_type = 3 then False
         else
           (let former_type = word_type former
            in if former_type = 3 then False else latter_type \<in> {0, 1} \<and> former_type \<noteq> 0))"

definition learns_individual_word :: "DictionaryEntry \<Rightarrow> bool" where
  "learns_individual_word e =
     (let l = unat (left_id e)
      in \<not> (147 \<le> l \<and> l \<le> 554) \<and> \<not> (557 \<le> l \<and> l \<le> 560) \<and> \<not> (1297 \<le> l \<and> l \<le> 1305) \<and> \<not> (6 \<le> l \<and> l \<le> 9) \<and>
         l \<notin> {0, 1316})"

section \<open>Joined words\<close>

text \<open>\<open>Iterator::sum\<close> of \<open>f32\<close> starts at minus zero.\<close>

definition f32_sum :: "f32 list \<Rightarrow> f32" where
  "f32_sum vs = foldl f32_add 0x80000000 vs"

text \<open>\<open>join_entries\<close>; \<open>None\<close> is the panic of its \<open>expect\<close>.\<close>

definition join_entries :: "DictionaryEntry list \<Rightarrow> DictionaryEntry option" where
  "join_entries es =
     (if es = [] then None
      else
        Some \<lparr>word = concat (map word es), ruby = concat (map ruby es), left_id = left_id (hd es),
              right_id = right_id (last es), meaning_id = meaning_id (last es), base_value = f32_sum (map base_value es),
              adjustment = f32_zero, metadata = 0\<rparr>)"

text \<open>
  The loop of \<open>learned_clause_ranges\<close>. Of the clauses it builds, the code only looks at the last entry of the last one,
  which is the entry before the current one.
\<close>

fun clause_ranges_from :: "nat \<Rightarrow> DictionaryEntry option \<Rightarrow> (nat \<times> nat) list \<Rightarrow> DictionaryEntry list \<Rightarrow> (nat \<times> nat) list" where
  "clause_ranges_from index previous ranges [] = ranges"
| "clause_ranges_from index previous ranges (e # es) =
     (if (case previous of None \<Rightarrow> True | Some p \<Rightarrow> is_clause (unat (right_id p)) (unat (left_id e)))
      then clause_ranges_from (Suc index) (Some e) (ranges @ [(index, index + 1)]) es
      else clause_ranges_from (Suc index) (Some e) (butlast ranges @ [(fst (last ranges), index + 1)]) es)"

definition learned_clause_ranges :: "DictionaryEntry list \<Rightarrow> (nat \<times> nat) list" where
  "learned_clause_ranges es = clause_ranges_from 0 None [] es"

text \<open>\<open>windows(2)\<close>.\<close>

definition adjacent :: "'a list \<Rightarrow> ('a \<times> 'a) list" where
  "adjacent xs = zip xs (tl xs)"

definition learned_clause_entries_after :: "DictionaryEntry list \<Rightarrow> nat \<Rightarrow> DictionaryEntry option list" where
  "learned_clause_entries_after es update_start =
     map (\<lambda>(p, q). join_entries (take (snd q - fst p) (drop (fst p) es)))
       (filter (\<lambda>(p, q). snd q > update_start) (adjacent (learned_clause_ranges es)))"

definition learned_clause_entries :: "DictionaryEntry list \<Rightarrow> DictionaryEntry option list" where
  "learned_clause_entries es =
     map (\<lambda>(p, q). join_entries (take (snd q - fst p) (drop (fst p) es))) (adjacent (learned_clause_ranges es))"

section \<open>Records\<close>

definition same_entry :: "DictionaryEntry \<Rightarrow> DictionaryEntry \<Rightarrow> bool" where
  "same_entry l r \<longleftrightarrow> ruby l = ruby r \<and> word l = word r \<and> left_id l = left_id r \<and> right_id l = right_id r"

definition valid_learning_entry :: "segmenter \<Rightarrow> CharacterIdMap \<Rightarrow> DictionaryEntry \<Rightarrow> bool" where
  "valid_learning_entry graphemes characters e \<longleftrightarrow>
     \<not> list_ex is_control (word e) \<and> ruby e \<noteq> [] \<and> \<not> list_ex is_control (ruby e) \<and>
     encode_ids graphemes characters (ruby e) \<noteq> None"

text \<open>\<open>u8::saturating_add\<close>, \<open>u16::saturating_add\<close> and \<open>u16::saturating_sub\<close>.\<close>

definition sat_add :: "'a::len word \<Rightarrow> 'a word \<Rightarrow> 'a word" where
  "sat_add x y = (if unat x + unat y < 2 ^ LENGTH('a) then x + y else - 1)"

definition sat_sub :: "'a::len word \<Rightarrow> 'a word \<Rightarrow> 'a word" where
  "sat_sub x y = (if y \<le> x then x - y else 0)"

fun merge_record :: "LearningRecord list \<Rightarrow> LearningRecord \<Rightarrow> LearningRecord list" where
  "merge_record [] incoming = [incoming]"
| "merge_record (r # rs) incoming =
     (if same_entry (lr_entry r) (lr_entry incoming)
      then r\<lparr>lr_count := sat_add (lr_count r) (lr_count incoming),
             last_used_day := max (last_used_day r) (last_used_day incoming),
             last_updated_day := max (last_updated_day r) (last_updated_day incoming),
             lr_entry := lr_entry incoming\<rparr> # rs
      else r # merge_record rs incoming)"

text \<open>The entry of a record; the subtraction of \<open>f32\<close> adds the value with the other sign.\<close>

definition f32_neg :: "f32 \<Rightarrow> f32" where
  "f32_neg v = v XOR push_bit 31 1"

type_synonym valuation = "8 word \<Rightarrow> ustr \<Rightarrow> f32"

definition learned_entry :: "valuation \<Rightarrow> LearningRecord \<Rightarrow> DictionaryEntry" where
  "learned_entry learning_value r =
     (lr_entry r)\<lparr>adjustment := f32_add (learning_value (lr_count r) (ruby (lr_entry r))) (f32_neg (base_value (lr_entry r))),
                  metadata := metadata_insert (metadata (lr_entry r)) LEARNED\<rparr>"

section \<open>Ageing\<close>

text \<open>The loop that halves the count for every 32 days.\<close>

definition halve :: "LearningRecord \<Rightarrow> LearningRecord" where
  "halve r = r\<lparr>lr_count := drop_bit 1 (lr_count r), last_updated_day := sat_add (last_updated_day r) 32\<rparr>"

definition outdated :: "16 word \<Rightarrow> LearningRecord \<Rightarrow> bool" where
  "outdated today r \<longleftrightarrow> sat_sub today (last_updated_day r) > 32"

lemma outdated_iff: "outdated today r \<longleftrightarrow> unat (last_updated_day r) + 32 < unat today"
proof -
  have "sat_sub today (last_updated_day r) > 32 \<longleftrightarrow> unat (sat_sub today (last_updated_day r)) > 32"
    by (simp add: word_less_nat_alt)
  also have "\<dots> \<longleftrightarrow> unat (last_updated_day r) + 32 < unat today"
    by (auto simp: sat_sub_def word_le_nat_alt unat_sub)
  finally show ?thesis by (simp add: outdated_def)
qed

lemma halve_day:
  assumes "outdated today r"
  shows "unat (last_updated_day (halve r)) = unat (last_updated_day r) + 32"
proof -
  have "unat (last_updated_day r) + 32 < 2 ^ 16"
    using assms unsigned_less [of today, where 'a = nat] by (simp add: outdated_iff)
  then show ?thesis by (simp add: halve_def sat_add_def unat_word_ariths)
qed

function halve_while :: "16 word \<Rightarrow> LearningRecord \<Rightarrow> LearningRecord" where
  "halve_while today r = (if outdated today r then halve_while today (halve r) else r)"
  by auto

termination
  by (relation "measure (\<lambda>(today, r). unat today - unat (last_updated_day r))") (auto simp: halve_day outdated_iff)

declare halve_while.simps [simp del]

text \<open>The closure of \<open>decay\<close> on a record: \<open>None\<close> when the record is not retained.\<close>

definition decay_record :: "16 word \<Rightarrow> LearningRecord \<Rightarrow> LearningRecord option" where
  "decay_record today r =
     (let r = (if today < last_used_day r \<or> today < last_updated_day r
               then r\<lparr>last_used_day := today, last_updated_day := today, lr_count := 1\<rparr> else r)
      in if sat_sub today (last_used_day r) \<ge> 128 then None
         else
           (let r = halve_while today r
            in if lr_count r > 0 then Some r else None))"

definition decay :: "16 word \<Rightarrow> LearningRecord list \<Rightarrow> LearningRecord list" where
  "decay today rs = List.map_filter (decay_record today) rs"

section \<open>Equal entries\<close>

text \<open>The loop of \<open>deduplicate_entries\<close>: the first place of an entry has the best of the equal ones.\<close>

fun deduplicate_from :: "DictionaryEntry list \<Rightarrow> DictionaryEntry list \<Rightarrow> DictionaryEntry list" where
  "deduplicate_from output [] = output"
| "deduplicate_from output (e # es) =
     (case find (\<lambda>i. same_entry (output ! i) e) [0..<length output] of
        Some i \<Rightarrow> deduplicate_from (if f32_lt (entry_value (output ! i)) (entry_value e) then output[i := e] else output) es
      | None \<Rightarrow> deduplicate_from (output @ [e]) es)"

definition deduplicate_entries :: "DictionaryEntry list \<Rightarrow> DictionaryEntry list" where
  "deduplicate_entries es = deduplicate_from [] es"

section \<open>Lemmas on ageing\<close>

lemma halve_while_rec: "\<not> outdated today r \<Longrightarrow> halve_while today r = r" "outdated today r \<Longrightarrow> halve_while today r = halve_while today (halve r)"
  by (subst halve_while.simps; simp)+

lemma halve_while_option: "while_option (outdated today) halve r = Some (halve_while today r)"
proof (induction today r rule: halve_while.induct)
  case (1 today r)
  then show ?case by (cases "outdated today r") (simp_all add: while_option_unfold [of _ _ r] halve_while_rec)
qed

lemma halve_while_closed:
  "halve_while today r =
     (let k = (unat today - unat (last_updated_day r) - 1) div 32
      in r\<lparr>lr_count := drop_bit k (lr_count r), last_updated_day := last_updated_day r + of_nat (32 * k)\<rparr>)"
proof (induction today r rule: halve_while.induct)
  case (1 today r)
  let ?k = "\<lambda>r. (unat today - unat (last_updated_day r) - 1) div 32"
  show ?case
  proof (cases "outdated today r")
    case False
    then have "?k r = 0" by (auto simp: outdated_iff)
    then show ?thesis by (simp add: halve_while_rec(1) [OF False])
  next
    case True
    have "unat today - unat (last_updated_day r) - 1 = (unat today - unat (last_updated_day (halve r)) - 1) + 32"
      using True by (simp add: halve_day outdated_iff)
    then have k: "?k r = Suc (?k (halve r))" by simp
    have day: "last_updated_day (halve r) = last_updated_day r + 32"
      by (rule word_unat_eq_iff [THEN iffD2])
        (use True halve_day [OF True] unsigned_less [of today, where 'a = nat] in \<open>simp add: outdated_iff unat_word_ariths\<close>)
    have "halve_while today r = (halve r)\<lparr>lr_count := drop_bit (?k (halve r)) (lr_count (halve r)),
        last_updated_day := last_updated_day (halve r) + of_nat (32 * ?k (halve r))\<rparr>"
      using 1 [OF True] by (simp add: halve_while_rec(2) [OF True] Let_def)
    also have "\<dots> = r\<lparr>lr_count := drop_bit (?k r) (lr_count r), last_updated_day := last_updated_day r + of_nat (32 * ?k r)\<rparr>"
      unfolding k day by (simp add: halve_def algebra_simps)
    finally show ?thesis by (simp add: Let_def)
  qed
qed

text \<open>A record that is up to date on a day.\<close>

definition fresh :: "16 word \<Rightarrow> LearningRecord \<Rightarrow> bool" where
  "fresh today r \<longleftrightarrow>
     last_used_day r \<le> today \<and> unat today < unat (last_used_day r) + 128 \<and>
     last_updated_day r \<le> today \<and> unat today \<le> unat (last_updated_day r) + 32 \<and> 0 < lr_count r"

lemma halve_while_parts:
  "lr_entry (halve_while today r) = lr_entry r"
  "last_used_day (halve_while today r) = last_used_day r"
  by (simp_all add: halve_while_closed Let_def)

lemma halve_while_day:
  assumes "last_updated_day r \<le> today"
  shows "last_updated_day (halve_while today r) \<le> today \<and> \<not> outdated today (halve_while today r)"
  using assms
proof (induction today r rule: halve_while.induct)
  case (1 today r)
  show ?case
  proof (cases "outdated today r")
    case True
    then have "last_updated_day (halve r) \<le> today"
      using halve_day [OF True] by (simp add: word_le_nat_alt outdated_iff)
    from 1(1) [OF True this] show ?thesis by (simp add: halve_while_rec(2) [OF True])
  next
    case False
    with 1(2) show ?thesis by (simp add: halve_while_rec(1) [OF False])
  qed
qed

lemma sat_sub_unat: "unat (sat_sub x y) = unat x - unat y"
  by (auto simp: sat_sub_def word_le_nat_alt unat_sub)

lemma decay_record_fresh:
  assumes "decay_record today r = Some r'"
  shows "fresh today r' \<and> lr_entry r' = lr_entry r"
proof -
  define r1 where "r1 = (if today < last_used_day r \<or> today < last_updated_day r
      then r\<lparr>last_used_day := today, last_updated_day := today, lr_count := 1\<rparr> else r)"
  have days: "last_used_day r1 \<le> today" "last_updated_day r1 \<le> today" by (auto simp: r1_def)
  have e: "lr_entry r1 = lr_entry r" by (simp add: r1_def)
  have r': "r' = halve_while today r1" "0 < lr_count r'" "\<not> 128 \<le> sat_sub today (last_used_day r1)"
    using assms by (auto simp: decay_record_def r1_def [symmetric] Let_def split: if_splits)
  show ?thesis
    using halve_while_day [OF days(2)] days r' e
    by (simp add: fresh_def halve_while_parts outdated_iff word_le_nat_alt sat_sub_unat not_less not_le) linarith?
qed

lemma decay_record_id: "fresh today r \<Longrightarrow> decay_record today r = Some r"
proof -
  assume f: "fresh today r"
  then have "\<not> outdated today r" by (auto simp: fresh_def outdated_iff)
  moreover have "\<not> today < last_used_day r" "\<not> today < last_updated_day r" using f by (simp_all add: fresh_def not_less)
  moreover have "\<not> 128 \<le> sat_sub today (last_used_day r)"
    using f by (auto simp: fresh_def word_le_nat_alt sat_sub_unat)
  ultimately show ?thesis using f by (simp add: decay_record_def halve_while_rec(1) Let_def fresh_def)
qed

lemma decay_fresh: "r \<in> set (decay today rs) \<Longrightarrow> fresh today r"
  by (auto simp: decay_def List.map_filter_def dest: decay_record_fresh)

lemma decay_id: "list_all (fresh today) rs \<Longrightarrow> decay today rs = rs"
  by (induction rs) (simp_all add: decay_def decay_record_id List.map_filter_simps)

lemma decay_entries: "r \<in> set (decay today rs) \<Longrightarrow> \<exists>r0\<in>set rs. lr_entry r = lr_entry r0"
  by (force simp: decay_def List.map_filter_def dest: decay_record_fresh)

end
