(* ===== verification/Memory_Blocks.thy ===== *)
theory Memory_Blocks
  imports Memory_Louds
begin

text \<open>
  The blocks of positions that the encoded index has for its nodes: every node of the trie comes once in the
  breadth-first order, so every record comes in one block, and the records of a block have one reading.
\<close>

section \<open>The nodes of the order\<close>

definition reachable :: "MemoryTrie \<Rightarrow> nat \<Rightarrow> bool" where
  "reachable nodes n \<longleftrightarrow> (\<exists>ids. walk nodes 0 ids = Some n)"

lemma reachable_root: "reachable nodes 0"
  unfolding reachable_def by (rule exI [of _ "[]"]) simp

lemma reachable_kid:
  assumes "trie_ok nodes" and "reachable nodes n" and "(c, i) \<in> set (kids nodes n)"
  shows "reachable nodes i"
proof -
  obtain ids where w: "walk nodes 0 ids = Some n" using assms(2) by (auto simp: reachable_def)
  then have n: "n < length nodes" by (rule walk_root_bounds [OF assms(1)])
  then have "trie_child nodes n c = Some i" using assms(3) by (simp add: trie_child_iff [OF assms(1) n] edge_def)
  with w show ?thesis unfolding reachable_def by (intro exI [of _ "ids @ [c]"]) (simp add: walk_snoc)
qed

lemma level_reachable:
  "trie_ok nodes \<Longrightarrow> \<forall>(c, n) \<in> set current. reachable nodes n \<Longrightarrow> \<forall>(c, n) \<in> set (level_list fuel nodes current). reachable nodes n"
proof (induction fuel arbitrary: current)
  case (Suc fuel)
  have "\<forall>(c, n) \<in> set (concat (map (\<lambda>(_, n). kids nodes n) current)). reachable nodes n"
    using Suc.prems by (auto intro: reachable_kid)
  from Suc.IH [OF Suc.prems(1) this] Suc.prems(2) show ?case by auto
qed simp

lemma order_reachable:
  assumes ok: "trie_ok nodes"
  shows "n \<in> set (order nodes) \<longleftrightarrow> reachable nodes n"
proof
  have "\<forall>(c, n) \<in> set (kids nodes 0). reachable nodes n"
    using reachable_kid [OF ok reachable_root] by blast
  from level_reachable [OF ok this, of "length nodes"] show "n \<in> set (order nodes) \<Longrightarrow> reachable nodes n"
    by (auto simp: order_edges edges_def reachable_root)
next
  assume "reachable nodes n"
  then obtain ids where "walk nodes 0 ids = Some n" by (auto simp: reachable_def)
  then show "n \<in> set (order nodes)"
  proof (induction ids arbitrary: n rule: rev_induct)
    case Nil
    then show ?case by (simp add: order_edges)
  next
    case (snoc c ids)
    then obtain m where m: "walk nodes 0 ids = Some m" "trie_child nodes m c = Some n"
      by (auto simp: walk_snoc split: option.splits)
    from m(1) have "m \<in> set (order nodes)" by (rule snoc.IH)
    moreover have "(c, n) \<in> set (kids nodes m)"
      using m(2) by (simp add: trie_child_def map_of_SomeD)
    ultimately have "(c, n) \<in> set (edges nodes)" by (subst edges_order [OF ok]) auto
    then show ?case by (force simp: order_edges)
  qed
qed

text \<open>A node has one place among the children of its one parent, so it comes in the order as often as the parent.\<close>

lemma count_kids:
  assumes ok: "trie_ok nodes" and m: "m < length nodes"
  shows "count (mset (map snd (kids nodes m))) i = (if \<exists>c. edge nodes m c i then 1 else 0)"
proof -
  have "inj_on snd (set (kids nodes m))"
  proof (rule inj_onI)
    fix p q assume pq: "p \<in> set (kids nodes m)" "q \<in> set (kids nodes m)" "snd p = snd q"
    obtain d i e where p: "p = (d, i)" and q: "q = (e, i)" using pq(3) by (metis prod.collapse)
    have "edge nodes m d i" "edge nodes m e i" using pq(1,2) m by (simp_all add: edge_def p q)
    from trie_okD(5) [OF ok this] show "p = q" by (simp add: p q)
  qed
  moreover have "distinct (kids nodes m)" using trie_okD(2) [OF ok m] by (simp add: distinct_map)
  ultimately have "distinct (map snd (kids nodes m))" by (simp add: distinct_map)
  then have "count (mset (map snd (kids nodes m))) i = (if i \<in> set (map snd (kids nodes m)) then 1 else 0)"
    by (simp add: distinct_count_atmost_1)
  also have "i \<in> set (map snd (kids nodes m)) \<longleftrightarrow> (\<exists>c. edge nodes m c i)"
    using m by (force simp: edge_def)
  finally show ?thesis .
qed

lemma count_concat_map: "count (mset (concat (map f xs))) i = sum_list (map (\<lambda>x. count (mset (f x)) i) xs)"
  by (induction xs) simp_all

lemma sum_list_indicator: "sum_list (map (\<lambda>x. if x = p then 1 else 0) xs) = count (mset xs) p"
  by (induction xs) simp_all

lemma distinct_order:
  assumes ok: "trie_ok nodes"
  shows "distinct (order nodes)"
proof -
  have bound: "m < length nodes" if "m \<in> set (order nodes)" for m
    using that walk_root_bounds [OF ok] by (auto simp: order_reachable [OF ok] reachable_def)
  have es: "map snd (edges nodes) = concat (map (\<lambda>m. map snd (kids nodes m)) (order nodes))"
    by (subst edges_order [OF ok]) (simp add: map_concat comp_def)
  have parts: "count (mset (order nodes)) i =
      (if i = 0 then 1 else 0) + sum_list (map (\<lambda>m. if \<exists>c. edge nodes m c i then 1 else 0) (order nodes))" for i
  proof -
    have "count (mset (order nodes)) i = (if i = 0 then 1 else 0) + count (mset (map snd (edges nodes))) i"
      by (simp add: order_edges)
    also have "\<dots> = (if i = 0 then 1 else 0) + sum_list (map (\<lambda>m. count (mset (map snd (kids nodes m))) i) (order nodes))"
      by (simp only: es count_concat_map)
    also have "map (\<lambda>m. count (mset (map snd (kids nodes m))) i) (order nodes) =
        map (\<lambda>m. if \<exists>c. edge nodes m c i then 1 else 0) (order nodes)"
      by (rule map_cong [OF refl]) (simp only: count_kids [OF ok bound])
    finally show ?thesis .
  qed
  have "count (mset (order nodes)) i \<le> 1" for i
  proof (induction i rule: less_induct)
    case (less i)
    show ?case
    proof (cases "\<exists>m c. edge nodes m c i")
      case True
      then obtain p c where pc: "edge nodes p c i" by blast
      then have "(\<exists>c. edge nodes m c i) \<longleftrightarrow> m = p" for m using trie_okD(5) [OF ok] by blast
      then have "count (mset (order nodes)) i = (if i = 0 then 1 else 0) + count (mset (order nodes)) p"
        by (simp add: parts [of i] sum_list_indicator)
      with less.IH [of p] trie_okD(3) [OF ok pc] show ?thesis by simp
    next
      case False
      then show ?thesis by (simp add: parts [of i])
    qed
  qed
  then show ?thesis 
    by (auto simp: distinct_count_atmost_1 le_Suc_eq set_conv_nth [symmetric] count_list_0_iff)
qed

section \<open>The blocks\<close>

definition blocks_of :: "segmenter \<Rightarrow> CharacterIdMap \<Rightarrow> LearningRecord list \<Rightarrow> nat list list" where
  "blocks_of graphemes characters rs = ei_blocks (encode_trie (new_trie graphemes characters rs))"

lemma length_blocks: "length (blocks_of graphemes characters rs) = length (ei_characters (encode_trie (new_trie graphemes characters rs)))"
  by (simp add: blocks_of_def encode_trie_parts)

lemma block_one_reading:
  assumes "b \<in> set (blocks_of graphemes characters rs)"
  shows "\<exists>q. \<forall>i\<in>set b. i < length rs \<and> reading graphemes characters (rs ! i) = Some q"
proof (cases "b = []")
  case False
  let ?nodes = "new_trie graphemes characters rs"
  have h: "holds ?nodes (\<lambda>i. reading graphemes characters (rs ! i)) (length rs)" by (rule new_trie_holds)
  obtain n where n: "n \<in> set (order ?nodes)" "b = tn_records (?nodes ! n)"
    using assms False by (auto simp: blocks_of_def encode_trie_parts order_edges)
  then obtain q where "walk ?nodes 0 q = Some n"
    using order_reachable [OF holdsD(1) [OF h]] by (auto simp: reachable_def)
  then have "b = records_at ?nodes q" by (simp add: n(2) records_at_def)
  then show ?thesis using holdsD(2) [OF h, of q] by auto
qed simp

lemma distinct_concat_map:
  "distinct ns \<Longrightarrow> \<forall>n\<in>set ns. distinct (f n) \<Longrightarrow> \<forall>n\<in>set ns. \<forall>m\<in>set ns. n \<noteq> m \<longrightarrow> set (f n) \<inter> set (f m) = {} \<Longrightarrow>
   distinct (concat (map f ns))"
  by (induction ns) fastforce+

lemma mset_blocks:
  assumes "\<forall>i < length rs. \<exists>q. q \<noteq> [] \<and> reading graphemes characters (rs ! i) = Some q"
  shows "mset (concat (blocks_of graphemes characters rs)) = mset [0..<length rs]"
proof -
  let ?nodes = "new_trie graphemes characters rs" and ?key = "\<lambda>i. reading graphemes characters (rs ! i)"
  let ?ns = "map snd (edges ?nodes)" and ?f = "\<lambda>n. tn_records (?nodes ! n)"
  have h: "holds ?nodes ?key (length rs)" by (rule new_trie_holds)
  note ok = holdsD(1) [OF h]
  have blocks: "concat (blocks_of graphemes characters rs) = concat (map ?f ?ns)"
    by (simp add: blocks_of_def encode_trie_parts)
  have f: "\<exists>q. walk ?nodes 0 q = Some n \<and> ?f n = records_at ?nodes q" if "n \<in> set ?ns" for n
  proof -
    from that have "n \<in> set (order ?nodes)" by (simp add: order_edges)
    then show ?thesis by (auto simp: order_reachable [OF ok] reachable_def records_at_def)
  qed
  have "distinct (concat (map ?f ?ns))"
  proof (rule distinct_concat_map)
    show "distinct ?ns" using distinct_order [OF ok] by (simp add: order_edges)
    show "\<forall>n\<in>set ?ns. distinct (?f n)" using f holdsD(3) [OF h] by fastforce
    show "\<forall>n\<in>set ?ns. \<forall>m\<in>set ?ns. n \<noteq> m \<longrightarrow> set (?f n) \<inter> set (?f m) = {}"
    proof (intro ballI impI)
      fix n m assume "n \<in> set ?ns" "m \<in> set ?ns" and "n \<noteq> m"
      then obtain p q where "walk ?nodes 0 p = Some n" "?f n = records_at ?nodes p" "walk ?nodes 0 q = Some m" "?f m = records_at ?nodes q"
        using f by metis
      moreover from this \<open>n \<noteq> m\<close> have "p \<noteq> q" by auto
      ultimately show "set (?f n) \<inter> set (?f m) = {}" using holdsD(2) [OF h] by auto
    qed
  qed
  moreover have "set (concat (map ?f ?ns)) = set [0..<length rs]"
  proof (intro set_eqI iffI)
    fix i assume "i \<in> set (concat (map ?f ?ns))"
    then obtain n where "n \<in> set ?ns" "i \<in> set (?f n)" by auto
    then show "i \<in> set [0..<length rs]" using f [of n] holdsD(2) [OF h] by auto
  next
    fix i assume "i \<in> set [0..<length rs]"
    then obtain q where q: "q \<noteq> []" "?key i = Some q" and i: "i < length rs" using assms by auto
    have in_q: "i \<in> set (records_at ?nodes q)" using q i holdsD(2) [OF h] by simp
    obtain n where n: "walk ?nodes 0 q = Some n" "i \<in> set (?f n)"
      using in_q by (cases "walk ?nodes 0 q") (simp_all add: records_at_def)
    have "n \<in> set (order ?nodes)" using n(1) by (auto simp: order_reachable [OF ok] reachable_def)
    moreover have "n \<noteq> 0"
      using walk_unique [OF ok, of q n "[]"] q(1) n(1) by auto
    ultimately show "i \<in> set (concat (map ?f ?ns))" using n(2) by (auto simp: order_edges)
  qed
  ultimately show ?thesis
    unfolding blocks using set_eq_iff_mset_eq_distinct [OF _ distinct_upt] by blast
qed

end
