(* ===== verification/Utf8.thy ===== *)
theory Utf8
  imports Codec Strings
begin

text \<open>
  The bytes of a string (\<open>as_bytes\<close>) and \<open>String::from_utf8_lossy\<close>, which reads bytes as UTF-8 and puts a
  replacement character for each maximal part of an ill-formed sequence.
\<close>

section \<open>Encoding\<close>

definition utf8_ints :: "uchar \<Rightarrow> int list" where
  "utf8_ints c =
     (if c < 0x80 then [c]
      else if c < 0x800 then [0xC0 + c div 64, 0x80 + c mod 64]
      else if c < 0x10000 then [0xE0 + c div 4096, 0x80 + c div 64 mod 64, 0x80 + c mod 64]
      else [0xF0 + c div 262144, 0x80 + c div 4096 mod 64, 0x80 + c div 64 mod 64, 0x80 + c mod 64])"

definition utf8_char :: "uchar \<Rightarrow> byte list" where
  "utf8_char c = map word_of_int (utf8_ints c)"

definition utf8 :: "ustr \<Rightarrow> byte list" where
  "utf8 s = concat (map utf8_char s)"

section \<open>Decoding\<close>

definition REPLACEMENT :: uchar where
  "REPLACEMENT = 0xFFFD"

definition continuation :: "int \<Rightarrow> bool" where
  "continuation b \<longleftrightarrow> 0x80 \<le> b \<and> b < 0xC0"

text \<open>Which second byte may follow the first byte of a sequence of three or of four.\<close>

definition second_of_three :: "int \<Rightarrow> int \<Rightarrow> bool" where
  "second_of_three a b \<longleftrightarrow>
     a = 0xE0 \<and> 0xA0 \<le> b \<and> b < 0xC0 \<or> 0xE1 \<le> a \<and> a \<le> 0xEC \<and> continuation b \<or>
     a = 0xED \<and> 0x80 \<le> b \<and> b < 0xA0 \<or> 0xEE \<le> a \<and> a \<le> 0xEF \<and> continuation b"

definition second_of_four :: "int \<Rightarrow> int \<Rightarrow> bool" where
  "second_of_four a b \<longleftrightarrow>
     a = 0xF0 \<and> 0x90 \<le> b \<and> b < 0xC0 \<or> 0xF1 \<le> a \<and> a \<le> 0xF3 \<and> continuation b \<or> a = 0xF4 \<and> 0x80 \<le> b \<and> b < 0x90"

text \<open>The first character and the number of bytes it takes; an ill-formed sequence ends before the first byte that does not fit.\<close>

definition decode_first :: "int \<Rightarrow> int list \<Rightarrow> uchar \<times> nat" where
  "decode_first a rest =
     (if a < 0x80 then (a, 1)
      else if 0xC2 \<le> a \<and> a \<le> 0xDF then
        (case rest of
           b # _ \<Rightarrow> if continuation b then ((a - 0xC0) * 64 + (b - 0x80), 2) else (REPLACEMENT, 1)
         | [] \<Rightarrow> (REPLACEMENT, 1))
      else if 0xE0 \<le> a \<and> a \<le> 0xEF then
        (case rest of
           b # rest \<Rightarrow>
             if \<not> second_of_three a b then (REPLACEMENT, 1)
             else
               (case rest of
                  c # _ \<Rightarrow>
                    if continuation c then ((a - 0xE0) * 4096 + (b - 0x80) * 64 + (c - 0x80), 3) else (REPLACEMENT, 2)
                | [] \<Rightarrow> (REPLACEMENT, 2))
         | [] \<Rightarrow> (REPLACEMENT, 1))
      else if 0xF0 \<le> a \<and> a \<le> 0xF4 then
        (case rest of
           b # rest \<Rightarrow>
             if \<not> second_of_four a b then (REPLACEMENT, 1)
             else
               (case rest of
                  c # rest \<Rightarrow>
                    if \<not> continuation c then (REPLACEMENT, 2)
                    else
                      (case rest of
                         d # _ \<Rightarrow>
                           if continuation d
                           then ((a - 0xF0) * 262144 + (b - 0x80) * 4096 + (c - 0x80) * 64 + (d - 0x80), 4)
                           else (REPLACEMENT, 3)
                       | [] \<Rightarrow> (REPLACEMENT, 3))
                | [] \<Rightarrow> (REPLACEMENT, 2))
         | [] \<Rightarrow> (REPLACEMENT, 1))
      else (REPLACEMENT, 1))"

lemma decode_first_takes: "0 < snd (decode_first a rest)"
  by (auto simp: decode_first_def split: list.split)

function decode_utf8 :: "int list \<Rightarrow> ustr" where
  "decode_utf8 [] = []"
| "decode_utf8 (a # rest) =
     fst (decode_first a rest) # decode_utf8 (drop (snd (decode_first a rest)) (a # rest))"
  by pat_completeness auto

termination
  by (relation "measure length") (use decode_first_takes in \<open>simp_all add: diff_less\<close>)

declare decode_utf8.simps(2) [simp del]

definition from_utf8_lossy :: "byte list \<Rightarrow> ustr" where
  "from_utf8_lossy bs = decode_utf8 (map uint bs)"

section \<open>Round trip\<close>

lemma utf8_ints_bounds:
  assumes "is_scalar c" and "x \<in> set (utf8_ints c)"
  shows "0 \<le> x" and "x < 256" and "x < 0x80 \<Longrightarrow> x = c"
proof -
  have c: "0 \<le> c" "c \<le> 0x10FFFF" using assms(1) by (simp_all add: is_scalar_def)
  have m: "0 \<le> y mod 64 \<and> y mod 64 < 64" for y :: int by simp
  have "0 \<le> x \<and> x < 256 \<and> (x < 0x80 \<longrightarrow> x = c)"
    using assms(2) c m [of c] m [of "c div 64"] m [of "c div 4096"]
    by (auto simp: utf8_ints_def split: if_splits)
  then show "0 \<le> x" "x < 256" "x < 0x80 \<Longrightarrow> x = c" by simp_all
qed

lemma uint_utf8_char:
  assumes "is_scalar c"
  shows "map uint (utf8_char c) = utf8_ints c"
proof -
  have "uint (word_of_int x :: byte) = x" if "x \<in> set (utf8_ints c)" for x
    using utf8_ints_bounds [OF assms that] by (simp add: uint_word_of_int)
  then show ?thesis by (simp add: utf8_char_def comp_def map_idI)
qed

lemma base_64:
  "c = c div 4096 * 4096 + c div 64 mod 64 * 64 + c mod 64"
  "c = c div 262144 * 262144 + c div 4096 mod 64 * 4096 + c div 64 mod 64 * 64 + c mod (64 :: int)"
proof -
  have d: "c div 4096 = c div 64 div 64" "c div 262144 = c div 4096 div 64"
    using zdiv_zmult2_eq [of 64 c 64] zdiv_zmult2_eq [of 64 c 4096] by simp_all
  note m = div_mult_mod_eq [of c 64, symmetric] div_mult_mod_eq [of "c div 64" 64, symmetric]
    div_mult_mod_eq [of "c div 4096" 64, symmetric]
  show one: "c = c div 4096 * 4096 + c div 64 mod 64 * 64 + c mod 64" using m(1,2) unfolding d(1) by linarith
  show "c = c div 262144 * 262144 + c div 4096 mod 64 * 4096 + c div 64 mod 64 * 64 + c mod 64"
    using one m(3) unfolding d(2) by linarith
qed

lemma decode_utf8_char:
  assumes "is_scalar c"
  shows "decode_utf8 (utf8_ints c @ rest) = c # decode_utf8 rest"
proof -
  have c: "0 \<le> c" "c \<le> 0x10FFFF" "\<not> (0xD800 \<le> c \<and> c \<le> 0xDFFF)" using assms by (simp_all add: is_scalar_def)
  consider "c < 0x80" | "0x80 \<le> c" "c < 0x800" | "0x800 \<le> c" "c < 0x10000" | "0x10000 \<le> c" by linarith
  then show ?thesis
  proof cases
    case 1
    then show ?thesis by (simp add: utf8_ints_def decode_utf8.simps decode_first_def)
  next
    case 2
    define x y where "x = c div 64" and "y = c mod 64"
    have e: "c = x * 64 + y" unfolding x_def y_def by presburger
    have d: "2 \<le> x" "x < 32" "0 \<le> y" "y < 64" using 2 unfolding x_def y_def by simp_all
    have "decode_first (0xC0 + x) ((0x80 + y) # rest) = (c, 2)"
      using d e by (simp add: decode_first_def continuation_def)
    moreover have "utf8_ints c = [0xC0 + x, 0x80 + y]" using 2 by (simp add: utf8_ints_def flip: x_def y_def)
    ultimately show ?thesis by (simp add: decode_utf8.simps)
  next
    case 3
    define x y z where "x = c div 4096" and "y = c div 64 mod 64" and "z = c mod 64"
    have e: "c = x * 4096 + y * 64 + z" unfolding x_def y_def z_def by (rule base_64)
    have d: "0 \<le> x" "x < 16" "0 \<le> y" "y < 64" "0 \<le> z" "z < 64"
      using 3 unfolding x_def y_def z_def by simp_all
    have "second_of_three (0xE0 + x) (0x80 + y)"
      using 3 d c(3) e by (auto simp: second_of_three_def continuation_def)
    then have "decode_first (0xE0 + x) ((0x80 + y) # (0x80 + z) # rest) = (c, 3)"
      using d e by (simp add: decode_first_def continuation_def)
    moreover have "utf8_ints c = [0xE0 + x, 0x80 + y, 0x80 + z]"
      using 3 by (simp add: utf8_ints_def flip: x_def y_def z_def)
    ultimately show ?thesis by (simp add: decode_utf8.simps)
  next
    case 4
    define w x y z where "w = c div 262144" and "x = c div 4096 mod 64" and "y = c div 64 mod 64" and "z = c mod 64"
    have e: "c = w * 262144 + x * 4096 + y * 64 + z" unfolding w_def x_def y_def z_def by (rule base_64)
    have d: "0 \<le> w" "w \<le> 4" "0 \<le> x" "x < 64" "0 \<le> y" "y < 64" "0 \<le> z" "z < 64"
      using 4 c(2) unfolding w_def x_def y_def z_def by simp_all
    have "second_of_four (0xF0 + w) (0x80 + x)"
      using 4 d c(2) e by (auto simp: second_of_four_def continuation_def)
    then have "decode_first (0xF0 + w) ((0x80 + x) # (0x80 + y) # (0x80 + z) # rest) = (c, 4)"
      using d e by (simp add: decode_first_def continuation_def)
    moreover have "utf8_ints c = [0xF0 + w, 0x80 + x, 0x80 + y, 0x80 + z]"
      using 4 by (simp add: utf8_ints_def flip: w_def x_def y_def z_def)
    ultimately show ?thesis by (simp add: decode_utf8.simps)
  qed
qed

lemma from_utf8_lossy_utf8 [simp]: "list_all is_scalar s \<Longrightarrow> from_utf8_lossy (utf8 s) = s"
proof (induction s)
  case (Cons c s)
  then show ?case
    using decode_utf8_char [of c "map uint (utf8 s)"] by (simp add: from_utf8_lossy_def utf8_def uint_utf8_char)
qed (simp add: from_utf8_lossy_def utf8_def)

text \<open>A byte below 128 is its own character, so a separator does not occur inside another character.\<close>

lemma ascii_in_utf8:
  assumes "list_all is_scalar s" and "0 \<le> b" and "b < 0x80" and "b \<notin> set s"
  shows "word_of_int b \<notin> set (utf8 s)"
proof
  assume "word_of_int b \<in> set (utf8 s)"
  then obtain c x where c: "c \<in> set s" "x \<in> set (utf8_ints c)" "(word_of_int b :: byte) = word_of_int x"
    by (auto simp: utf8_def utf8_char_def)
  note bounds = utf8_ints_bounds [OF _ c(2)]
  have "is_scalar c" using assms(1) c(1) by (simp add: list_all_iff)
  then have "x = b" using arg_cong [OF c(3), of uint] assms(2,3) bounds(1,2) by (simp add: uint_word_of_int)
  with bounds(3) \<open>is_scalar c\<close> assms(3,4) c(1) show False by simp
qed

lemma utf8_Nil_iff: "utf8 s = [] \<longleftrightarrow> s = []"
  by (cases s) (simp_all add: utf8_def utf8_char_def utf8_ints_def)

end
