(* ===== verification/Dictionary_Binary.thy ===== *)
theory Dictionary_Binary
  imports Candidate Bytes Utf8
begin

text \<open>
  \<open>crates/converter/src/dictionary/binary.rs\<close>: the blocks and shards of dictionary entries, which the learning memory
  uses too, the lines of connection costs and the matrix of meanings.
\<close>

section \<open>Errors and numbers\<close>

datatype DictionaryBinaryError =
    Truncated string nat nat
  | InvalidShardIndex nat nat
  | InvalidOffset nat nat nat
  | MissingEntryFields nat nat
  | InvalidConnectionId int
  | InvalidMeaningMatrixLength nat nat

abbreviation ENTRY_HEADER_SIZE :: nat where "ENTRY_HEADER_SIZE \<equiv> 10"
abbreviation MEANING_COUNT :: nat where "MEANING_COUNT \<equiv> 502"
abbreviation CONNECTION_COUNT :: nat where "CONNECTION_COUNT \<equiv> 1319"

definition require :: "byte list \<Rightarrow> nat \<Rightarrow> string \<Rightarrow> DictionaryBinaryError + unit" where
  "require binary needed what =
     (if length binary < needed then Inl (Truncated what needed (length binary)) else Inr ())"

definition bytes_at :: "byte list \<Rightarrow> nat \<Rightarrow> nat \<Rightarrow> byte list" where
  "bytes_at binary offset n = take n (drop offset binary)"

definition read_u16 :: "byte list \<Rightarrow> nat \<Rightarrow> string \<Rightarrow> DictionaryBinaryError + 16 word" where
  "read_u16 binary offset what =
     (case require binary (offset + 2) what of
        Inl e \<Rightarrow> Inl e | Inr _ \<Rightarrow> Inr (from_le_bytes (bytes_at binary offset 2)))"

definition read_u32 :: "byte list \<Rightarrow> nat \<Rightarrow> string \<Rightarrow> DictionaryBinaryError + 32 word" where
  "read_u32 binary offset what =
     (case require binary (offset + 4) what of
        Inl e \<Rightarrow> Inl e | Inr _ \<Rightarrow> Inr (from_le_bytes (bytes_at binary offset 4)))"

definition read_f32 :: "byte list \<Rightarrow> nat \<Rightarrow> string \<Rightarrow> DictionaryBinaryError + f32" where
  "read_f32 binary offset what = read_u32 binary offset what"

section \<open>Entries\<close>

definition parse_header :: "byte list \<Rightarrow> nat \<Rightarrow> DictionaryBinaryError + DictionaryEntry" where
  "parse_header binary i =
     (let offset = 2 + i * ENTRY_HEADER_SIZE
      in case read_u16 binary offset ''left connection identifier'' of
           Inl e \<Rightarrow> Inl e
         | Inr l \<Rightarrow>
             (case read_u16 binary (offset + 2) ''right connection identifier'' of
                Inl e \<Rightarrow> Inl e
              | Inr r \<Rightarrow>
                  (case read_u16 binary (offset + 4) ''meaning identifier'' of
                     Inl e \<Rightarrow> Inl e
                   | Inr m \<Rightarrow>
                       (case read_f32 binary (offset + 6) ''entry value'' of
                          Inl e \<Rightarrow> Inl e
                        | Inr v \<Rightarrow>
                            Inr \<lparr>word = [], ruby = [], left_id = l, right_id = r, meaning_id = m,
                                 base_value = v, adjustment = f32_zero, metadata = 0\<rparr>))))"

text \<open>The fields behind the headers: the reading, then the words, where an empty one stands for the reading.\<close>

definition parse_entry_block :: "byte list \<Rightarrow> DictionaryBinaryError + DictionaryEntry list" where
  "parse_entry_block binary =
     (case read_u16 binary 0 ''entry count'' of
        Inl e \<Rightarrow> Inl e
      | Inr count \<Rightarrow>
          (let count = unat count;
               text_offset = 2 + count * ENTRY_HEADER_SIZE
           in case require binary text_offset ''entry headers'' of
                Inl e \<Rightarrow> Inl e
              | Inr _ \<Rightarrow>
                  (case collect (map (parse_header binary) [0..<count]) of
                     Inl e \<Rightarrow> Inl e
                   | Inr headers \<Rightarrow>
                       (let fields = split_on 0x09 (drop text_offset binary);
                            reading = from_utf8_lossy (hd fields)
                        in if length fields < count + 1 then Inl (MissingEntryFields (count + 1) (length fields))
                           else
                             Inr (map (\<lambda>(e, w). e\<lparr>ruby := reading, word := (if w = [] then reading else from_utf8_lossy w)\<rparr>)
                                    (zip headers (take count (tl fields))))))))"

definition parse_slot :: "byte list \<Rightarrow> nat \<Rightarrow> nat \<Rightarrow> DictionaryBinaryError + DictionaryEntry list" where
  "parse_slot binary slot_count i =
     (if i \<ge> slot_count then Inl (InvalidShardIndex i slot_count)
      else
        (case read_u32 binary (2 + i * 4) ''shard block offset'' of
           Inl e \<Rightarrow> Inl e
         | Inr start \<Rightarrow>
             (case (if i + 1 = slot_count then Inr (length binary)
                    else map_sum id unat (read_u32 binary (2 + (i + 1) * 4) ''shard block offset'')) of
                Inl e \<Rightarrow> Inl e
              | Inr end' \<Rightarrow>
                  if unat start > end' \<or> end' > length binary
                  then Inl (InvalidOffset (unat start) end' (length binary))
                  else parse_entry_block (bytes_at binary (unat start) (end' - unat start)))))"

definition parse_entry_shard :: "byte list \<Rightarrow> nat list \<Rightarrow> DictionaryBinaryError + DictionaryEntry list" where
  "parse_entry_shard binary indices =
     (case read_u16 binary 0 ''shard slot count'' of
        Inl e \<Rightarrow> Inl e
      | Inr slots \<Rightarrow>
          (case require binary (2 + unat slots * 4) ''shard offset table'' of
             Inl e \<Rightarrow> Inl e
           | Inr _ \<Rightarrow> map_sum id concat (collect (map (parse_slot binary (unat slots)) indices))))"

section \<open>Costs and meanings\<close>

text \<open>The record's number and value; the first record gives the value of all connections that have no record.\<close>

definition connection_record :: "byte list \<Rightarrow> int \<times> f32" where
  "connection_record r = (sint (from_le_bytes (take 4 r) :: 32 word), from_le_bytes (drop 4 r))"

fun set_connections :: "byte list list \<Rightarrow> f32 list \<Rightarrow> DictionaryBinaryError + f32 list" where
  "set_connections [] line = Inr line"
| "set_connections (r # rs) line =
     (case connection_record r of
        (i, v) \<Rightarrow>
          if i < 0 \<or> int (length line) \<le> i then Inl (InvalidConnectionId i)
          else set_connections rs (line[nat i := v]))"

definition parse_connection_cost_line :: "byte list \<Rightarrow> DictionaryBinaryError + f32 list" where
  "parse_connection_cost_line binary =
     (case require binary 8 ''connection cost default record'' of
        Inl e \<Rightarrow> Inl e
      | Inr _ \<Rightarrow>
          if length binary mod 8 \<noteq> 0
          then Inl (Truncated ''connection cost record'' (length binary + (8 - length binary mod 8)) (length binary))
          else
            (let records = chunks 8 binary;
                 (default_id, default_value) = connection_record (hd records)
             in if default_id \<noteq> - 1 then Inl (InvalidConnectionId default_id)
                else set_connections (tl records) (replicate CONNECTION_COUNT default_value)))"

type_synonym MeaningMatrix = "f32 list"

definition parse_meaning_matrix :: "byte list \<Rightarrow> DictionaryBinaryError + MeaningMatrix" where
  "parse_meaning_matrix binary =
     (let values = map from_le_bytes (filter (\<lambda>c. length c = 4) (chunks 4 binary))
      in if length binary mod 4 \<noteq> 0 \<or> length values < MEANING_COUNT * MEANING_COUNT
         then Inl (InvalidMeaningMatrixLength (MEANING_COUNT * MEANING_COUNT) (length values))
         else Inr values)"

definition meaning_value :: "MeaningMatrix \<Rightarrow> nat \<Rightarrow> nat \<Rightarrow> f32 option" where
  "meaning_value values former latter =
     (if former = 500 \<or> latter = 500 then Some f32_zero
      else if former * MEANING_COUNT + latter < length values then Some (values ! (former * MEANING_COUNT + latter))
      else None)"

section \<open>A block that was written\<close>

text \<open>The layout of a block: the count, the headers, the reading and the words behind tabs.\<close>

record Field =
  fd_left :: "16 word"
  fd_right :: "16 word"
  fd_meaning :: "16 word"
  fd_value :: f32
  fd_word :: ustr

definition header_bytes :: "Field \<Rightarrow> byte list" where
  "header_bytes f = le_bytes 2 (fd_left f) @ le_bytes 2 (fd_right f) @ le_bytes 2 (fd_meaning f) @ le_bytes 4 (fd_value f)"

definition block_bytes :: "ustr \<Rightarrow> Field list \<Rightarrow> byte list" where
  "block_bytes reading fs =
     le_bytes 2 (of_nat (length fs) :: 16 word) @ concat (map header_bytes fs) @ utf8 reading @
     concat (map (\<lambda>f. 0x09 # utf8 (if fd_word f = reading then [] else fd_word f)) fs)"

definition field_entry :: "ustr \<Rightarrow> Field \<Rightarrow> DictionaryEntry" where
  "field_entry reading f =
     \<lparr>word = (if fd_word f = [] then reading else fd_word f), ruby = reading, left_id = fd_left f, right_id = fd_right f,
      meaning_id = fd_meaning f, base_value = fd_value f, adjustment = f32_zero, metadata = 0\<rparr>"

lemma length_header_bytes [simp]: "length (header_bytes f) = 10"
  by (simp add: header_bytes_def)

lemma length_headers: "length (concat (map header_bytes fs)) = 10 * length fs"
  by (induction fs) simp_all

lemma bytes_at_append:
  "length xs = offset \<Longrightarrow> bytes_at (xs @ ys) (offset + k) n = bytes_at ys k n"
  "bytes_at (ys @ zs) 0 (length ys) = ys"
  by (simp_all add: bytes_at_def)

lemma read_words:
  "read_u16 (xs @ le_bytes 2 v @ ys) (length xs) what = Inr v"
  "read_u32 (xs @ le_bytes 4 w @ ys) (length xs) what = Inr w"
  by (simp_all add: read_u16_def read_u32_def require_def bytes_at_def)

lemma parse_header_written:
  assumes "i < length fs"
  shows "parse_header (le_bytes 2 (n :: 16 word) @ concat (map header_bytes fs) @ rest) i =
    Inr \<lparr>word = [], ruby = [], left_id = fd_left (fs ! i), right_id = fd_right (fs ! i), meaning_id = fd_meaning (fs ! i),
         base_value = fd_value (fs ! i), adjustment = f32_zero, metadata = 0\<rparr>"
proof -
  let ?f = "fs ! i"
  define pre where "pre = le_bytes 2 n @ concat (map header_bytes (take i fs))"
  define post where "post = concat (map header_bytes (drop (Suc i) fs)) @ rest"
  have "concat (map header_bytes fs) =
      concat (map header_bytes (take i fs)) @ header_bytes ?f @ concat (map header_bytes (drop (Suc i) fs))"
    by (subst id_take_nth_drop [OF assms]) simp
  then have b: "le_bytes 2 n @ concat (map header_bytes fs) @ rest =
      pre @ le_bytes 2 (fd_left ?f) @ le_bytes 2 (fd_right ?f) @ le_bytes 2 (fd_meaning ?f) @ le_bytes 4 (fd_value ?f) @ post"
    by (simp add: pre_def post_def header_bytes_def)
  have len: "length pre = 2 + i * 10" using assms by (simp add: pre_def length_headers)
  let ?b = "pre @ le_bytes 2 (fd_left ?f) @ le_bytes 2 (fd_right ?f) @ le_bytes 2 (fd_meaning ?f) @ le_bytes 4 (fd_value ?f) @ post"
  have "read_u16 ?b (2 + i * 10) w = Inr (fd_left ?f)" for w
    using read_words(1) [of pre "fd_left ?f"] len by simp
  moreover have "read_u16 ?b (2 + i * 10 + 2) w = Inr (fd_right ?f)" for w
    using read_words(1) [of "pre @ le_bytes 2 (fd_left ?f)" "fd_right ?f"] len by simp
  moreover have "read_u16 ?b (2 + i * 10 + 4) w = Inr (fd_meaning ?f)" for w
    using read_words(1) [of "pre @ le_bytes 2 (fd_left ?f) @ le_bytes 2 (fd_right ?f)" "fd_meaning ?f"] len by simp
  moreover have "read_u32 ?b (2 + i * 10 + 6) w = Inr (fd_value ?f)" for w
    using read_words(2) [of "pre @ le_bytes 2 (fd_left ?f) @ le_bytes 2 (fd_right ?f) @ le_bytes 2 (fd_meaning ?f)" "fd_value ?f"] len
    by simp
  ultimately show ?thesis
    unfolding b by (simp add: parse_header_def read_f32_def)
qed

lemma split_fields:
  "0x09 \<notin> set r \<Longrightarrow> list_all (\<lambda>w. 0x09 \<notin> set w) ws \<Longrightarrow>
   split_on (0x09 :: byte) (r @ concat (map (\<lambda>w. 0x09 # w) ws)) = r # ws"
  by (induction ws arbitrary: r) (simp_all add: split_on_none split_on_append)

text \<open>Text the format can hold: scalar values without a tab.\<close>

definition storable :: "ustr \<Rightarrow> bool" where
  "storable s \<longleftrightarrow> list_all is_scalar s \<and> 0x09 \<notin> set s"

lemma tab_free: "storable s \<Longrightarrow> 0x09 \<notin> set (utf8 s)"
  using ascii_in_utf8 [of s 9] by (simp add: storable_def)

lemma zip_maps: "zip (map g xs) (map h xs) = map (\<lambda>x. (g x, h x)) xs"
  by (induction xs) simp_all

lemma parse_written_block:
  assumes "storable reading" and "list_all (\<lambda>f. storable (fd_word f)) fs" and "length fs < 2 ^ 16"
  shows "parse_entry_block (block_bytes reading fs) = Inr (map (field_entry reading) fs)"
proof -
  let ?n = "of_nat (length fs) :: 16 word"
  let ?ws = "map (\<lambda>f. utf8 (if fd_word f = reading then [] else fd_word f)) fs"
  let ?text = "utf8 reading @ concat (map (\<lambda>w. 0x09 # w) ?ws)"
  let ?b = "le_bytes 2 ?n @ concat (map header_bytes fs) @ ?text"
  have b: "block_bytes reading fs = ?b" by (simp add: block_bytes_def comp_def)
  have n: "unat ?n = length fs" using assms(3) by (simp add: unat_of_nat)
  have count: "read_u16 ?b 0 what = Inr ?n" for what using read_words(1) [of "[]" ?n] by simp
  have headers: "collect (map (parse_header ?b) [0..<length fs]) =
      Inr (map (\<lambda>f. \<lparr>word = [], ruby = [], left_id = fd_left f, right_id = fd_right f, meaning_id = fd_meaning f,
         base_value = fd_value f, adjustment = f32_zero, metadata = 0\<rparr>) fs)"
    unfolding collect_Inr by (rule nth_equalityI) (simp_all add: parse_header_written)
  have behind: "drop (2 + length fs * 10) ?b = ?text" by (simp add: length_headers)
  have "storable (if fd_word f = reading then [] else fd_word f)" if "f \<in> set fs" for f
    using assms(2) that by (simp add: list_all_iff) (simp add: storable_def)
  then have "list_all (\<lambda>w. 0x09 \<notin> set w) ?ws" by (simp add: list_all_iff tab_free)
  then have fields: "split_on 0x09 ?text = utf8 reading # ?ws" using tab_free [OF assms(1)] by (rule split_fields [rotated])
  have "length ?b \<ge> 2 + length fs * 10" by (simp add: length_headers)
  then have req: "require ?b (2 + length fs * 10) what = Inr ()" for what by (simp add: require_def)
  have r: "from_utf8_lossy (utf8 reading) = reading" using assms(1) by (simp add: storable_def)
  have scalar: "\<forall>f\<in>set fs. list_all is_scalar (fd_word f)"
    using assms(2) by (simp add: list_all_iff storable_def)
  define T where "T = ?text"
  define B where "B = ?b"
  note count = count [folded B_def] and headers = headers [folded B_def] and behind = behind [folded B_def, folded T_def]
    and req = req [folded B_def] and fields = fields [folded T_def]
  show ?thesis
    unfolding b B_def [symmetric] parse_entry_block_def
    by (simp add: count n req headers behind fields r Let_def zip_maps field_entry_def utf8_Nil_iff scalar
        del: add_2_eq_Suc add_2_eq_Suc')
qed

end
