(* ===== verification/Learning_Files.thy ===== *)
theory Learning_Files
  imports Learning Memory_Blocks Dictionary_Binary
begin

text \<open>
  \<open>crates/converter/src/learning.rs\<close>, the bytes of the learning memory: the LOUDS file and its characters, the shards of
  entries and the metadata (days and counts) of their records.
\<close>

datatype LearningError = IoError ustr | InvalidData string | Poisoned

abbreviation SHARD_SIZE :: nat where "SHARD_SIZE \<equiv> 2048"
abbreviation METADATA_ELEMENT_SIZE :: nat where "METADATA_ELEMENT_SIZE \<equiv> 6"

section \<open>Writing\<close>

record EncodedMemory =
  em_louds :: "byte list"
  em_characters :: "byte list"
  em_metadata :: "byte list"
  em_shards :: "byte list list"

text \<open>\<open>try_from(\<dots>).unwrap_or(MAX)\<close>.\<close>

definition or_max :: "nat \<Rightarrow> 'a::len word" where
  "or_max n = (if n < 2 ^ LENGTH('a) then of_nat n else - 1)"

definition encode_entry_block :: "valuation \<Rightarrow> LearningRecord list \<Rightarrow> nat list \<Rightarrow> byte list" where
  "encode_entry_block learning_value records indices =
     (let first_ruby = (case indices of [] \<Rightarrow> [] | i # _ \<Rightarrow> ruby (lr_entry (records ! i)))
      in le_bytes 2 (or_max (length indices) :: 16 word) @
         concat (map (\<lambda>i. let r = records ! i; e = lr_entry r
                          in le_bytes 2 (left_id e) @ le_bytes 2 (right_id e) @ le_bytes 2 (meaning_id e) @
                             le_bytes 4 (learning_value (lr_count r) (ruby e))) indices) @
         utf8 first_ruby @
         concat (map (\<lambda>i. 0x09 # (if word (lr_entry (records ! i)) \<noteq> first_ruby then utf8 (word (lr_entry (records ! i))) else []))
           indices))"

fun shard_offsets :: "nat \<Rightarrow> byte list list \<Rightarrow> byte list" where
  "shard_offsets offset [] = []"
| "shard_offsets offset (payload # payloads) =
     le_bytes 4 (or_max offset :: 32 word) @ shard_offsets (offset + length payload) payloads"

definition encode_entry_shard :: "valuation \<Rightarrow> LearningRecord list \<Rightarrow> nat list list \<Rightarrow> byte list" where
  "encode_entry_shard learning_value records blocks =
     (let payloads = map (encode_entry_block learning_value records) blocks
      in le_bytes 2 (or_max (length payloads) :: 16 word) @ shard_offsets (2 + length payloads * 4) payloads @ concat payloads)"

definition encode_metadata_block :: "LearningRecord list \<Rightarrow> nat list \<Rightarrow> byte list" where
  "encode_metadata_block records block =
     or_max (length block) #
     concat (map (\<lambda>i. le_bytes 2 (last_used_day (records ! i)) @ le_bytes 2 (last_updated_day (records ! i)) @
                     [lr_count (records ! i), 0]) block)"

definition encode_files :: "segmenter \<Rightarrow> valuation \<Rightarrow> CharacterIdMap \<Rightarrow> LearningRecord list \<Rightarrow> EncodedMemory" where
  "encode_files graphemes learning_value characters records =
     (let index = encode_trie (new_trie graphemes characters records);
          blocks = map (take 255) (ei_blocks index)
      in \<lparr>em_louds = encode_louds (ei_bits index), em_characters = ei_characters index,
          em_metadata = le_bytes 4 (or_max (length blocks) :: 32 word) @ concat (map (encode_metadata_block records) blocks),
          em_shards = map (encode_entry_shard learning_value records) (chunks SHARD_SIZE blocks)\<rparr>)"

section \<open>Reading\<close>

text \<open>\<open>read_array\<close>: the bytes at the cursor, and the cursor behind them.\<close>

definition read_array :: "nat \<Rightarrow> byte list \<Rightarrow> nat \<Rightarrow> LearningError + byte list \<times> nat" where
  "read_array n bytes pos =
     (if pos + n \<le> length bytes then Inr (bytes_at bytes pos n, pos + n) else Inl (InvalidData ''truncated numeric field''))"

definition read_day :: "byte list \<Rightarrow> nat \<Rightarrow> LearningError + 16 word \<times> nat" where
  "read_day bytes pos = map_sum id (map_prod from_le_bytes id) (read_array 2 bytes pos)"

definition read_node_count :: "byte list \<Rightarrow> nat \<Rightarrow> LearningError + nat \<times> nat" where
  "read_node_count bytes pos =
     map_sum id (map_prod (\<lambda>bs. unat (from_le_bytes bs :: 32 word)) id) (read_array 4 bytes pos)"

type_synonym metadata_element = "16 word \<times> 16 word \<times> 8 word"

fun read_elements :: "nat \<Rightarrow> byte list \<Rightarrow> nat \<Rightarrow> LearningError + metadata_element list \<times> nat" where
  "read_elements 0 bytes pos = Inr ([], pos)"
| "read_elements (Suc n) bytes pos =
     (case read_day bytes pos of
        Inl e \<Rightarrow> Inl e
      | Inr (used, pos) \<Rightarrow>
          (case read_day bytes pos of
             Inl e \<Rightarrow> Inl e
           | Inr (updated, pos) \<Rightarrow>
               if pos < length bytes
               then
                 (case read_elements n bytes (pos + (METADATA_ELEMENT_SIZE - 4)) of
                    Inl e \<Rightarrow> Inl e
                  | Inr (rest, stop) \<Rightarrow> Inr ((used, updated, bytes ! pos) # rest, stop))
               else Inl (InvalidData ''truncated metadata count'')))"

fun read_metadata_blocks :: "nat \<Rightarrow> byte list \<Rightarrow> nat \<Rightarrow> LearningError + metadata_element list list \<times> nat" where
  "read_metadata_blocks 0 bytes pos = Inr ([], pos)"
| "read_metadata_blocks (Suc n) bytes pos =
     (if pos < length bytes
      then
        (case read_elements (unat (bytes ! pos)) bytes (pos + 1) of
           Inl e \<Rightarrow> Inl e
         | Inr (block, pos) \<Rightarrow>
             (case read_metadata_blocks n bytes pos of
                Inl e \<Rightarrow> Inl e
              | Inr (blocks, stop) \<Rightarrow> Inr (block # blocks, stop)))
      else Inl (InvalidData ''truncated metadata block''))"

text \<open>
  The part of \<open>decode_directory\<close> before the shards: the topology has to parse and to agree with the metadata, which
  have to end where the last block ends.
\<close>

definition decode_metadata :: "byte list \<Rightarrow> byte list \<Rightarrow> byte list \<Rightarrow> LearningError + metadata_element list list" where
  "decode_metadata bytes louds_bytes characters =
     (case parse_louds louds_bytes characters of
        Inl _ \<Rightarrow> Inl (InvalidData ''invalid LOUDS topology'')
      | Inr louds \<Rightarrow>
          (case read_node_count bytes 0 of
             Inl e \<Rightarrow> Inl e
           | Inr (nodes, pos) \<Rightarrow>
               if nodes \<noteq> length characters \<or> nodes \<noteq> node_count louds then Inl (InvalidData ''inconsistent node counts'')
               else
                 (case read_metadata_blocks nodes bytes pos of
                    Inl e \<Rightarrow> Inl e
                  | Inr (blocks, pos) \<Rightarrow>
                      if pos \<noteq> length bytes then Inl (InvalidData ''trailing metadata bytes'') else Inr blocks)))"

text \<open>The records of a node, from its entries in the shard and its metadata.\<close>

definition decode_node :: "byte list \<Rightarrow> nat \<Rightarrow> metadata_element list \<Rightarrow> LearningError + LearningRecord list" where
  "decode_node shard slot block =
     (case parse_entry_shard shard [slot] of
        Inl _ \<Rightarrow> Inl (InvalidData ''invalid learning entry shard'')
      | Inr es \<Rightarrow>
          if length es \<noteq> length block then Inl (InvalidData ''entry and metadata counts differ'')
          else Inr (map (\<lambda>(e, used, updated, n).
                      \<lparr>lr_entry = e, last_used_day = used, last_updated_day = updated, lr_count = n\<rparr>) (zip es block)))"

section \<open>What was written is read back\<close>

declare add_2_eq_Suc [simp del] add_2_eq_Suc' [simp del]

lemma or_max_unat: "n < 2 ^ LENGTH('a::len) \<Longrightarrow> unat (or_max n :: 'a word) = n"
  by (simp add: or_max_def unat_of_nat)

lemma read_day_at [simp]:
  "length pre = pos \<Longrightarrow> read_day (pre @ le_bytes 2 d @ post) pos = Inr (d, pos + 2)"
  by (auto simp: read_day_def read_array_def bytes_at_def)

lemma read_elements_written:
  "length pre = pos \<Longrightarrow>
   read_elements (length block)
     (pre @ concat (map (\<lambda>i. le_bytes 2 (last_used_day (records ! i)) @ le_bytes 2 (last_updated_day (records ! i)) @
        [lr_count (records ! i), 0]) block) @ post) pos =
   Inr (map (\<lambda>i. (last_used_day (records ! i), last_updated_day (records ! i), lr_count (records ! i))) block,
        pos + 6 * length block)"
proof (induction block arbitrary: pre pos)
  case (Cons i block)
  let ?r = "records ! i"
  let ?here = "le_bytes 2 (last_used_day ?r) @ le_bytes 2 (last_updated_day ?r) @ [lr_count ?r, 0]"
  let ?rest = "concat (map (\<lambda>i. le_bytes 2 (last_used_day (records ! i)) @ le_bytes 2 (last_updated_day (records ! i)) @
      [lr_count (records ! i), 0]) block) @ post"
  have b: "pre @ concat (map (\<lambda>i. le_bytes 2 (last_used_day (records ! i)) @ le_bytes 2 (last_updated_day (records ! i)) @
        [lr_count (records ! i), 0]) (i # block)) @ post = pre @ ?here @ ?rest" by simp
  have "read_day (pre @ ?here @ ?rest) pos = Inr (last_used_day ?r, pos + 2)"
    using read_day_at [of pre pos "last_used_day ?r" "le_bytes 2 (last_updated_day ?r) @ [lr_count ?r, 0] @ ?rest"] Cons.prems
    by simp
  moreover have "read_day (pre @ ?here @ ?rest) (pos + 2) = Inr (last_updated_day ?r, pos + 2 + 2)"
    using read_day_at [of "pre @ le_bytes 2 (last_used_day ?r)" "pos + 2" "last_updated_day ?r" "[lr_count ?r, 0] @ ?rest"] Cons.prems
    by simp
  moreover have "(pre @ ?here @ ?rest) ! (pos + 2 + 2) = lr_count ?r"
  proof -
    let ?front = "pre @ le_bytes 2 (last_used_day ?r) @ le_bytes 2 (last_updated_day ?r)"
    have len: "pos + 2 + 2 = length ?front" using Cons.prems by simp
    have split: "pre @ ?here @ ?rest = ?front @ lr_count ?r # 0 # ?rest" by simp
    show ?thesis unfolding len split by (rule nth_append_length)
  qed
  moreover have "read_elements (length block) (pre @ ?here @ ?rest) (pos + 2 + 2 + 2) =
      Inr (map (\<lambda>i. (last_used_day (records ! i), last_updated_day (records ! i), lr_count (records ! i))) block,
        pos + 6 + 6 * length block)"
    using Cons.IH [of "pre @ ?here" "pos + 6"] Cons.prems by (simp add: add.commute)
  moreover have "pos + 2 + 2 < length (pre @ ?here @ ?rest)" using Cons.prems by simp
  ultimately show ?case unfolding b by simp
qed simp

lemma read_metadata_blocks_written:
  assumes "length pre = pos" and "list_all (\<lambda>b. length b < 256) blocks"
  shows "read_metadata_blocks (length blocks) (pre @ concat (map (encode_metadata_block records) blocks) @ post) pos =
    Inr (map (map (\<lambda>i. (last_used_day (records ! i), last_updated_day (records ! i), lr_count (records ! i)))) blocks,
         pos + length (concat (map (encode_metadata_block records) blocks)))"
  using assms
proof (induction blocks arbitrary: pre pos)
  case (Cons block blocks)
  let ?elements = "concat (map (\<lambda>i. le_bytes 2 (last_used_day (records ! i)) @ le_bytes 2 (last_updated_day (records ! i)) @
      [lr_count (records ! i), 0]) block)"
  let ?rest = "concat (map (encode_metadata_block records) blocks) @ post"
  let ?b = "pre @ or_max (length block) # ?elements @ ?rest"
  have b: "pre @ concat (map (encode_metadata_block records) (block # blocks)) @ post = ?b"
    by (simp add: encode_metadata_block_def)
  have len: "length (encode_metadata_block records block) = 1 + 6 * length block" "length ?elements = 6 * length block"
    by (simp_all add: encode_metadata_block_def length_concat comp_def sum_list_triv)
  have n: "unat (or_max (length block) :: byte) = length block" using Cons.prems(2) by (simp add: or_max_unat)
  have head: "?b ! pos = or_max (length block)" "pos < length ?b" using Cons.prems(1) by (auto simp: nth_append)
  have elements: "read_elements (length block) ?b (pos + 1) =
      Inr (map (\<lambda>i. (last_used_day (records ! i), last_updated_day (records ! i), lr_count (records ! i))) block,
           pos + 1 + 6 * length block)"
    using read_elements_written [of "pre @ [or_max (length block)]" "pos + 1" block records ?rest] Cons.prems(1) by simp
  have rest: "read_metadata_blocks (length blocks) ?b (pos + 1 + 6 * length block) =
      Inr (map (map (\<lambda>i. (last_used_day (records ! i), last_updated_day (records ! i), lr_count (records ! i)))) blocks,
           pos + 1 + 6 * length block + length (concat (map (encode_metadata_block records) blocks)))"
    using Cons.IH [of "pre @ or_max (length block) # ?elements" "pos + 1 + 6 * length block"] Cons.prems len(2) by simp
  show ?case
    unfolding b list.size(4) read_metadata_blocks.simps using head(2)
    by (simp add: head(1) n elements [simplified] rest [simplified] len(1) del: append_Cons)
qed simp

text \<open>What a record is after it was written: a word that is empty has become the reading.\<close>

definition stored :: "valuation \<Rightarrow> LearningRecord \<Rightarrow> LearningRecord" where
  "stored learning_value r =
     r\<lparr>lr_entry := (lr_entry r)\<lparr>word := (if word (lr_entry r) = [] then ruby (lr_entry r) else word (lr_entry r)),
                             base_value := learning_value (lr_count r) (ruby (lr_entry r)),
                             adjustment := f32_zero, metadata := 0\<rparr>\<rparr>"

definition record_field :: "valuation \<Rightarrow> LearningRecord \<Rightarrow> Field" where
  "record_field learning_value r =
     \<lparr>fd_left = left_id (lr_entry r), fd_right = right_id (lr_entry r), fd_meaning = meaning_id (lr_entry r),
      fd_value = learning_value (lr_count r) (ruby (lr_entry r)), fd_word = word (lr_entry r)\<rparr>"

definition writable_record :: "LearningRecord \<Rightarrow> bool" where
  "writable_record r \<longleftrightarrow> storable (word (lr_entry r)) \<and> storable (ruby (lr_entry r))"

lemma encode_entry_block_bytes:
  assumes "\<forall>i\<in>set indices. ruby (lr_entry (records ! i)) = r" and "length indices < 2 ^ 16"
  shows "encode_entry_block learning_value records indices =
    block_bytes (if indices = [] then [] else r) (map (\<lambda>i. record_field learning_value (records ! i)) indices)"
proof (cases indices)
  case Nil
  then show ?thesis by (simp add: encode_entry_block_def block_bytes_def or_max_def)
next
  case (Cons k ks)
  then have "ruby (lr_entry (records ! k)) = r" using assms(1) by simp
  moreover have "utf8 [] = []" by (simp add: utf8_Nil_iff)
  moreover have "(if w \<noteq> r then bs else []) = (if w = r then [] else bs)" for w and bs :: "byte list" by simp
  ultimately show ?thesis
    using assms(2)
    by (simp add: encode_entry_block_def block_bytes_def or_max_def Cons record_field_def header_bytes_def comp_def Let_def
          if_distrib [where f = utf8] split del: if_split cong: if_cong)
qed

lemma length_shard_offsets [simp]: "length (shard_offsets offset payloads) = 4 * length payloads"
  by (induction payloads arbitrary: offset) simp_all

lemma shard_offset_at:
  "i < length payloads \<Longrightarrow>
   bytes_at (shard_offsets offset payloads @ post) (i * 4) 4 = le_bytes 4 (or_max (offset + length (concat (take i payloads))) :: 32 word)"
proof (induction payloads arbitrary: offset i)
  case (Cons p ps)
  show ?case
  proof (cases i)
    case 0
    then show ?thesis by (simp add: bytes_at_def)
  next
    case (Suc j)
    have "bytes_at (shard_offsets offset (p # ps) @ post) (i * 4) 4 = bytes_at (shard_offsets (offset + length p) ps @ post) (j * 4) 4"
      by (simp add: bytes_at_def Suc)
    with Cons Suc show ?thesis by (simp add: add.assoc)
  qed
qed simp

definition shard_bytes :: "byte list list \<Rightarrow> byte list" where
  "shard_bytes payloads =
     le_bytes 2 (or_max (length payloads) :: 16 word) @ shard_offsets (2 + length payloads * 4) payloads @ concat payloads"

lemma shard_read_offset:
  assumes "i < length payloads" and "length (shard_bytes payloads) < 2 ^ 32"
  shows "map_sum id unat (read_u32 (shard_bytes payloads) (2 + i * 4) what) =
    Inr (2 + length payloads * 4 + length (concat (take i payloads)))"
proof -
  let ?n = "2 + length payloads * 4 + length (concat (take i payloads))"
  have "concat payloads = concat (take i payloads) @ concat (drop i payloads)"
    by (simp flip: concat_append)
  then have "?n \<le> length (shard_bytes payloads)" by (simp add: shard_bytes_def del: length_concat)
  then have "?n < 2 ^ LENGTH(32)" using assms(2) by simp
  then have n: "unat (or_max ?n :: 32 word) = ?n" by (rule or_max_unat)
  have "bytes_at (shard_bytes payloads) (2 + i * 4) 4 =
      bytes_at (shard_offsets (2 + length payloads * 4) payloads @ concat payloads) (i * 4) 4"
    unfolding shard_bytes_def by (rule bytes_at_append) simp
  then have "bytes_at (shard_bytes payloads) (2 + i * 4) 4 = le_bytes 4 (or_max ?n :: 32 word)"
    using shard_offset_at [OF assms(1)] by simp
  moreover have "2 + i * 4 + 4 \<le> length (shard_bytes payloads)" using assms(1) by (simp add: shard_bytes_def)
  ultimately show ?thesis
    using n by (simp add: read_u32_def require_def not_less del: length_concat)
qed

lemma parse_slot_written:
  assumes "i < length payloads" and "length (shard_bytes payloads) < 2 ^ 32"
  shows "parse_slot (shard_bytes payloads) (length payloads) i = parse_entry_block (payloads ! i)"
proof -
  let ?b = "shard_bytes payloads" and ?n = "length payloads"
  let ?at = "\<lambda>i. 2 + ?n * 4 + length (concat (take i payloads))"
  have split: "concat payloads = concat (take i payloads) @ payloads ! i @ concat (drop (Suc i) payloads)"
    by (subst id_take_nth_drop [OF assms(1)]) simp
  have len: "length ?b = 2 + ?n * 4 + length (concat payloads)" by (simp add: shard_bytes_def del: length_concat)
  obtain start where start: "read_u32 ?b (2 + i * 4) ''shard block offset'' = Inr start" "unat start = ?at i"
    using shard_read_offset [OF assms, of "''shard block offset''"] by (cases "read_u32 ?b (2 + i * 4) ''shard block offset''") auto
  have "length (concat (take (Suc i) payloads)) = length (concat (take i payloads)) + length (payloads ! i)"
    using assms(1) by (simp add: take_Suc_conv_app_nth del: length_concat)
  then have next_at: "?at (Suc i) = ?at i + length (payloads ! i)" by (simp del: length_concat)
  have stop: "(if i + 1 = ?n then Inr (length ?b) else map_sum id unat (read_u32 ?b (2 + (i + 1) * 4) ''shard block offset'')) =
      Inr (?at i + length (payloads ! i))"
  proof (cases "i + 1 = ?n")
    case True
    with split len show ?thesis by (simp del: length_concat)
  next
    case False
    with assms(1) shard_read_offset [OF _ assms(2), of "Suc i"] next_at show ?thesis by (simp del: length_concat)
  qed
  have "bytes_at ?b (?at i) (length (payloads ! i)) = payloads ! i"
    unfolding bytes_at_def shard_bytes_def split by (simp del: length_concat)
  moreover have "?at i + length (payloads ! i) \<le> length ?b" using len split by (simp del: length_concat)
  ultimately show ?thesis
    unfolding parse_slot_def stop start(1) using assms(1) start(2) by (simp del: length_concat)
qed

lemma parse_shard_written:
  assumes "i < length payloads" and "length payloads < 2 ^ 16" and "length (shard_bytes payloads) < 2 ^ 32"
  shows "parse_entry_shard (shard_bytes payloads) [i] = parse_entry_block (payloads ! i)"
proof -
  have n: "unat (or_max (length payloads) :: 16 word) = length payloads" using assms(2) by (intro or_max_unat) simp
  have "read_u16 (shard_bytes payloads) 0 what = Inr (or_max (length payloads))" for what
    using read_words(1) [of "[]" "or_max (length payloads)"] by (simp add: shard_bytes_def)
  moreover have "require (shard_bytes payloads) (2 + length payloads * 4) what = Inr ()" for what
    by (simp add: require_def shard_bytes_def)
  ultimately show ?thesis
    using parse_slot_written [OF assms(1,3)]
    by (cases "parse_entry_block (payloads ! i)") (simp_all add: parse_entry_shard_def n)
qed

abbreviation element_of :: "LearningRecord \<Rightarrow> metadata_element" where
  "element_of r \<equiv> (last_used_day r, last_updated_day r, lr_count r)"

text \<open>Blocks that the format can hold: few records of one reading in each.\<close>

definition writable_block :: "LearningRecord list \<Rightarrow> nat list \<Rightarrow> bool" where
  "writable_block records b \<longleftrightarrow>
     length b < 256 \<and> (\<exists>r. \<forall>i\<in>set b. ruby (lr_entry (records ! i)) = r) \<and> (\<forall>i\<in>set b. writable_record (records ! i))"

lemma parse_written_entries:
  assumes "writable_block records b"
  shows "parse_entry_block (encode_entry_block learning_value records b) =
    Inr (map (\<lambda>i. lr_entry (stored learning_value (records ! i))) b)"
proof -
  obtain r where r: "\<forall>i\<in>set b. ruby (lr_entry (records ! i)) = r" using assms by (auto simp: writable_block_def)
  let ?r = "if b = [] then [] else r" and ?fs = "map (\<lambda>i. record_field learning_value (records ! i)) b"
  have len: "length b < 2 ^ 16" using assms by (simp add: writable_block_def)
  have w: "\<forall>i\<in>set b. storable (word (lr_entry (records ! i))) \<and> storable (ruby (lr_entry (records ! i)))"
    using assms by (simp add: writable_block_def writable_record_def)
  have "storable ?r" using r w by (cases b) (simp_all add: storable_def)
  moreover have "list_all (\<lambda>f. storable (fd_word f)) ?fs" using w by (simp add: list_all_iff record_field_def)
  ultimately have "parse_entry_block (block_bytes ?r ?fs) = Inr (map (field_entry ?r) ?fs)"
    using len by (intro parse_written_block) simp_all
  then show ?thesis
    using r by (simp add: encode_entry_block_bytes [OF r len] field_entry_def record_field_def stored_def comp_def cong: if_cong)
qed

lemma decode_node_written:
  assumes "slot < length blocks" and "length blocks \<le> SHARD_SIZE" and "writable_block records (blocks ! slot)"
    and "length (encode_entry_shard learning_value records blocks) < 2 ^ 32"
  shows "decode_node (encode_entry_shard learning_value records blocks) slot (map (\<lambda>i. element_of (records ! i)) (blocks ! slot)) =
    Inr (map (\<lambda>i. stored learning_value (records ! i)) (blocks ! slot))"
proof -
  let ?ps = "map (encode_entry_block learning_value records) blocks"
  have shard: "encode_entry_shard learning_value records blocks = shard_bytes ?ps"
    by (simp add: encode_entry_shard_def shard_bytes_def Let_def)
  have "parse_entry_shard (shard_bytes ?ps) [slot] = Inr (map (\<lambda>i. lr_entry (stored learning_value (records ! i))) (blocks ! slot))"
    using parse_shard_written [of slot ?ps] assms parse_written_entries [OF assms(3)] shard by simp
  then show ?thesis
    unfolding shard by (simp add: decode_node_def zip_maps stored_def)
qed

lemma decode_metadata_written:
  fixes graphemes characters learning_value and records :: "LearningRecord list"
  defines "index \<equiv> encode_trie (new_trie graphemes characters records)"
    and "blocks \<equiv> map (take 255) (blocks_of graphemes characters records)"
    and "files \<equiv> encode_files graphemes learning_value characters records"
  assumes "length blocks < 2 ^ 32"
  shows "decode_metadata (em_metadata files) (em_louds files) (em_characters files) =
    Inr (map (map (\<lambda>i. element_of (records ! i))) blocks)"
proof -
  have blocks: "map (take 255) (ei_blocks index) = blocks" by (simp add: blocks_def index_def blocks_of_def)
  have files: "em_louds files = encode_louds (ei_bits index)" "em_characters files = ei_characters index"
    "em_metadata files = le_bytes 4 (or_max (length blocks) :: 32 word) @ concat (map (encode_metadata_block records) blocks)"
    by (simp_all add: files_def encode_files_def Let_def index_def [symmetric] blocks del: map_map length_map)
  have n: "length blocks = length (ei_characters index)"
    by (simp add: blocks_def index_def length_blocks)
  obtain louds where "new_louds graphemes characters records = Some louds" using new_louds_of by blast
  then obtain l where l: "parse_louds (encode_louds (ei_bits index)) (ei_characters index) = Inr l"
    by (auto simp: new_louds_def Let_def index_def split: sum.splits)
  have "node_count l = length (ei_characters index)"
    using l by (auto simp: parse_louds_def node_count_def Let_def split: if_splits sum.splits)
  moreover have "read_node_count (em_metadata files) 0 = Inr (length blocks, 4)"
    using assms(4) by (simp add: files read_node_count_def read_array_def bytes_at_def or_max_unat)
  moreover have "list_all (\<lambda>b. length b < 256) blocks" by (auto simp: blocks_def list_all_iff min_def)
  then have "read_metadata_blocks (length blocks) (em_metadata files) 4 =
      Inr (map (map (\<lambda>i. element_of (records ! i))) blocks, length (em_metadata files))"
    using read_metadata_blocks_written [of "le_bytes 4 (or_max (length blocks) :: 32 word)" 4 blocks records "[]"]
    by (simp add: files del: length_concat)
  ultimately show ?thesis
    using l n by (simp add: decode_metadata_def files(1,2))
qed

end
