(* ===== verification/Learning_Disk.thy ===== *)
theory Learning_Disk
  imports Learning_Files "HOL-Library.AList" "HOL-Library.List_Lexorder"
begin

text \<open>
  \<open>crates/converter/src/learning.rs\<close>, the files of the learning memory in its directory. Every operation on a file can
  break: with an error, or because the program ends there. The state has the files and, for the operations to come,
  whether each works; after the listed ones all work. A broken write leaves anything in its file, all other files are
  as they were.
\<close>

section \<open>The directory\<close>

type_synonym name = ustr
type_synonym Disk = "(name \<times> byte list) list"

datatype Fault = Works | Breaks "byte list option"

record Io =
  io_files :: Disk
  io_faults :: "Fault list"

text \<open>An action ends with an error or a value.\<close>

type_synonym 'a action = "Io \<Rightarrow> (LearningError + 'a) \<times> Io"

definition done_with :: "'a \<Rightarrow> 'a action" where
  "done_with v io = (Inr v, io)"

definition and_with :: "'a action \<Rightarrow> ('a \<Rightarrow> 'b action) \<Rightarrow> 'b action" where
  "and_with m k io = (case m io of (Inl e, io) \<Rightarrow> (Inl e, io) | (Inr v, io) \<Rightarrow> k v io)"

fun for_each :: "('x \<Rightarrow> unit action) \<Rightarrow> 'x list \<Rightarrow> unit action" where
  "for_each f [] = done_with ()"
| "for_each f (x # xs) = and_with (f x) (\<lambda>_. for_each f xs)"

definition next_fault :: "Io \<Rightarrow> Fault \<times> Io" where
  "next_fault io = (case io_faults io of [] \<Rightarrow> (Works, io) | f # fs \<Rightarrow> (f, io\<lparr>io_faults := fs\<rparr>))"

definition write_file :: "name \<Rightarrow> byte list \<Rightarrow> unit action" where
  "write_file n bytes io =
     (case next_fault io of
        (Works, io) \<Rightarrow> (Inr (), io\<lparr>io_files := AList.update n bytes (io_files io)\<rparr>)
      | (Breaks None, io) \<Rightarrow> (Inl (IoError n), io)
      | (Breaks (Some rest), io) \<Rightarrow> (Inl (IoError n), io\<lparr>io_files := AList.update n rest (io_files io)\<rparr>))"

text \<open>\<open>fs::copy\<close>; the error names the destination, as the code has it.\<close>

definition copy_file :: "name \<Rightarrow> name \<Rightarrow> unit action" where
  "copy_file source destination io =
     (case map_of (io_files io) source of
        None \<Rightarrow> (Inl (IoError destination), snd (next_fault io))
      | Some bytes \<Rightarrow> write_file destination bytes io)"

definition remove_file_if_present :: "name \<Rightarrow> unit action" where
  "remove_file_if_present n io =
     (case next_fault io of
        (Works, io) \<Rightarrow> (Inr (), io\<lparr>io_files := AList.delete n (io_files io)\<rparr>)
      | (Breaks _, io) \<Rightarrow> (Inl (IoError n), io))"

definition path_exists :: "name \<Rightarrow> Io \<Rightarrow> bool \<times> Io" where
  "path_exists n io =
     (case next_fault io of
        (Works, io) \<Rightarrow> (map_of (io_files io) n \<noteq> None, io)
      | (Breaks _, io) \<Rightarrow> (False, io))"

definition read_optional :: "name \<Rightarrow> byte list option action" where
  "read_optional n io =
     (case next_fault io of
        (Works, io) \<Rightarrow> (Inr (map_of (io_files io) n), io)
      | (Breaks _, io) \<Rightarrow> (Inl (IoError n), io))"

definition read_required :: "name \<Rightarrow> byte list action" where
  "read_required n io =
     (case next_fault io of
        (Works, io) \<Rightarrow> (case map_of (io_files io) n of None \<Rightarrow> (Inl (IoError n), io) | Some bytes \<Rightarrow> (Inr bytes, io))
      | (Breaks _, io) \<Rightarrow> (Inl (IoError n), io))"

definition read_directory :: "name list action" where
  "read_directory io =
     (case next_fault io of
        (Works, io) \<Rightarrow> (Inr (map fst (io_files io)), io)
      | (Breaks _, io) \<Rightarrow> (Inl (IoError []), io))"

section \<open>The names of the files\<close>

definition LOUDS_FILE :: name where "LOUDS_FILE = ascii ''memory.louds''"
definition LOUDS_CHARS_FILE :: name where "LOUDS_CHARS_FILE = ascii ''memory.loudschars2''"
definition METADATA_FILE :: name where "METADATA_FILE = ascii ''memory.memorymetadata''"
definition PAUSE_FILE :: name where "PAUSE_FILE = ascii ''.pause''"

definition shard_file :: "nat \<Rightarrow> name" where
  "shard_file i = ascii ''memory'' @ show_nat i @ ascii ''.loudstxt3''"

definition temporary_of :: "name \<Rightarrow> name" where
  "temporary_of n = n @ ascii ''.2''"

definition starts_with :: "ustr \<Rightarrow> ustr \<Rightarrow> bool" where
  "starts_with s p \<longleftrightarrow> take (length p) s = p"

definition ends_with :: "ustr \<Rightarrow> ustr \<Rightarrow> bool" where
  "ends_with s p \<longleftrightarrow> take (length p) (rev s) = rev p"

definition is_memory_file :: "name \<Rightarrow> bool" where
  "is_memory_file n \<longleftrightarrow>
     n = PAUSE_FILE \<or> n = ascii ''memory.bin'' \<or> n = ascii ''memory.bin.2'' \<or>
     list_ex (ends_with n)
       (map ascii [''.loudstxt3'', ''.loudstxt3.2'', ''.loudschars2'', ''.loudschars2.2'', ''.memorymetadata'',
                   ''.memorymetadata.2'', ''.louds'', ''.louds.2'', ''learningMemory.txt''])"

text \<open>\<open>trim_end_matches(".2")\<close>.\<close>

function trim_temporary :: "name \<Rightarrow> name" where
  "trim_temporary n = (if ends_with n (ascii ''.2'') then trim_temporary (take (length n - 2) n) else n)"
  by auto

termination
proof (relation "measure length")
  fix n :: name assume "ends_with n (ascii ''.2'')"
  then have "length (take (length (ascii ''.2'')) (rev n)) = length (rev (ascii ''.2''))" by (simp only: ends_with_def)
  then show "(take (length n - 2) n, n) \<in> measure length" by (simp add: ascii_def)
qed simp

declare trim_temporary.simps [simp del]

section \<open>Saving and recovering\<close>

definition write_temporary :: "name \<Rightarrow> byte list \<Rightarrow> unit action" where
  "write_temporary n bytes = write_file (temporary_of n) bytes"

definition restore_temporary :: "name \<Rightarrow> unit action" where
  "restore_temporary n = copy_file (temporary_of n) n"

definition write_temporaries :: "EncodedMemory \<Rightarrow> unit action" where
  "write_temporaries files =
     and_with (write_temporary LOUDS_FILE (em_louds files)) (\<lambda>_.
     and_with (write_temporary LOUDS_CHARS_FILE (em_characters files)) (\<lambda>_.
     and_with (write_temporary METADATA_FILE (em_metadata files)) (\<lambda>_.
     for_each (\<lambda>(i, shard). write_temporary (shard_file i) shard) (enumerate 0 (em_shards files)))))"

definition publish :: "nat \<Rightarrow> unit action" where
  "publish shards =
     and_with (restore_temporary LOUDS_CHARS_FILE) (\<lambda>_.
     and_with (restore_temporary METADATA_FILE) (\<lambda>_.
     and_with (for_each (\<lambda>i. restore_temporary (shard_file i)) [0..<shards]) (\<lambda>_.
     restore_temporary LOUDS_FILE)))"

text \<open>The records that \<open>save_records\<close> keeps, and the writing; \<open>sort_by_key\<close> is stable.\<close>

definition kept_records :: "16 word \<Rightarrow> nat \<Rightarrow> LearningRecord list \<Rightarrow> LearningRecord list" where
  "kept_records today max_count records =
     take max_count (sort_key (\<lambda>r. - uint (last_used_day r)) (decay today records))"

definition save_files :: "EncodedMemory \<Rightarrow> unit action" where
  "save_files files =
     and_with (write_temporaries files) (\<lambda>_.
     and_with (write_file PAUSE_FILE []) (\<lambda>_.
     and_with (publish (length (em_shards files))) (\<lambda>_.
     remove_file_if_present PAUSE_FILE)))"

definition save_records ::
  "segmenter \<Rightarrow> valuation \<Rightarrow> CharacterIdMap \<Rightarrow> 16 word \<Rightarrow> nat \<Rightarrow> LearningRecord list \<Rightarrow> LearningRecord list action" where
  "save_records graphemes learning_value characters today max_count records =
     (let records = kept_records today max_count records
      in and_with (save_files (encode_files graphemes learning_value characters records)) (\<lambda>_. done_with records))"

definition recover_if_paused :: "unit action" where
  "recover_if_paused io =
     (case path_exists PAUSE_FILE io of
        (False, io) \<Rightarrow> (Inr (), io)
      | (True, io) \<Rightarrow>
          and_with (restore_temporary LOUDS_CHARS_FILE) (\<lambda>_.
          and_with (restore_temporary METADATA_FILE) (\<lambda>_.
          and_with read_directory (\<lambda>names.
          and_with
            (for_each (\<lambda>temporary. restore_temporary (trim_temporary temporary))
              (sort (filter (\<lambda>n. starts_with n (ascii ''memory'') \<and> ends_with n (ascii ''.loudstxt3.2'')) names))) (\<lambda>_.
          and_with (restore_temporary LOUDS_FILE) (\<lambda>_.
          remove_file_if_present PAUSE_FILE))))) io)"

text \<open>The loop over the nodes; a shard is read when the number of the node's shard changes.\<close>

fun decode_nodes ::
  "nat option \<Rightarrow> byte list \<Rightarrow> LearningRecord list \<Rightarrow> (nat \<times> metadata_element list) list \<Rightarrow> LearningRecord list action" where
  "decode_nodes loaded shard records [] = done_with records"
| "decode_nodes loaded shard records ((node, block) # rest) =
     (let shard_index = node div SHARD_SIZE
      in and_with (if loaded \<noteq> Some shard_index then read_required (shard_file shard_index) else done_with shard) (\<lambda>shard.
           case decode_node shard (node mod SHARD_SIZE) block of
             Inl e \<Rightarrow> (\<lambda>io. (Inl e, io))
           | Inr rs \<Rightarrow> decode_nodes (Some shard_index) shard (records @ rs) rest))"

definition decode_directory :: "LearningRecord list action" where
  "decode_directory =
     and_with (read_optional METADATA_FILE) (\<lambda>found.
       case found of
         None \<Rightarrow> done_with []
       | Some bytes \<Rightarrow>
           and_with (read_required LOUDS_FILE) (\<lambda>louds_bytes.
           and_with (read_required LOUDS_CHARS_FILE) (\<lambda>characters.
             case decode_metadata bytes louds_bytes characters of
               Inl e \<Rightarrow> (\<lambda>io. (Inl e, io))
             | Inr blocks \<Rightarrow> decode_nodes None [] [] (enumerate 0 blocks))))"

section \<open>Names\<close>

definition digits_number :: "ustr \<Rightarrow> nat" where
  "digits_number s = foldl (\<lambda>n c. n * 10 + nat (c - 0x30)) 0 s"

lemma digits_number_digits: "n < fuel \<Longrightarrow> digits_number (digits fuel n) = n"
proof (induction fuel arbitrary: n)
  case (Suc fuel)
  show ?case
  proof (cases "n < 10")
    case False
    then have "n div 10 < fuel" using Suc.prems by linarith
    from Suc.IH [OF this] False show ?thesis by (simp add: digits_number_def)
  qed (simp add: digits_number_def)
qed simp

lemma show_nat_inj: "show_nat m = show_nat n \<longleftrightarrow> m = n"
  by (metis digits_number_digits lessI show_nat_def)

text \<open>The final names, which are not names of temporary files.\<close>

definition final_name :: "name \<Rightarrow> bool" where
  "final_name n \<longleftrightarrow> \<not> ends_with n (ascii ''.2'')"

lemma temporary_not_final [simp]: "\<not> final_name (temporary_of n)"
  by (simp add: final_name_def ends_with_def temporary_of_def)

lemma temporary_inj [simp]: "temporary_of m = temporary_of n \<longleftrightarrow> m = n"
  by (simp add: temporary_of_def)

lemma final_names [simp]:
  "final_name LOUDS_FILE" "final_name LOUDS_CHARS_FILE" "final_name METADATA_FILE" "final_name PAUSE_FILE" "final_name (shard_file i)"
  by (simp_all add: final_name_def ends_with_def ascii_def shard_file_def LOUDS_FILE_def LOUDS_CHARS_FILE_def METADATA_FILE_def
      PAUSE_FILE_def)

lemma final_not_temporary [simp]: "final_name n \<Longrightarrow> n \<noteq> temporary_of m" "final_name n \<Longrightarrow> temporary_of m \<noteq> n"
  using temporary_not_final by metis+

lemma last_of: "xs = ys \<Longrightarrow> rev xs = rev ys" by simp

lemma distinct_names [simp]:
  "LOUDS_FILE \<noteq> LOUDS_CHARS_FILE" "LOUDS_FILE \<noteq> METADATA_FILE" "LOUDS_FILE \<noteq> PAUSE_FILE" "LOUDS_CHARS_FILE \<noteq> METADATA_FILE"
  "LOUDS_CHARS_FILE \<noteq> PAUSE_FILE" "METADATA_FILE \<noteq> PAUSE_FILE"
  "LOUDS_CHARS_FILE \<noteq> LOUDS_FILE" "METADATA_FILE \<noteq> LOUDS_FILE" "PAUSE_FILE \<noteq> LOUDS_FILE" "METADATA_FILE \<noteq> LOUDS_CHARS_FILE"
  "PAUSE_FILE \<noteq> LOUDS_CHARS_FILE" "PAUSE_FILE \<noteq> METADATA_FILE"
  by (simp_all add: LOUDS_FILE_def LOUDS_CHARS_FILE_def METADATA_FILE_def PAUSE_FILE_def ascii_def)

lemma shard_names [simp]:
  "shard_file i = shard_file j \<longleftrightarrow> i = j"
  "shard_file i \<noteq> LOUDS_FILE" "shard_file i \<noteq> LOUDS_CHARS_FILE" "shard_file i \<noteq> METADATA_FILE" "shard_file i \<noteq> PAUSE_FILE"
  "LOUDS_FILE \<noteq> shard_file i" "LOUDS_CHARS_FILE \<noteq> shard_file i" "METADATA_FILE \<noteq> shard_file i" "PAUSE_FILE \<noteq> shard_file i"
  by (auto simp: shard_file_def LOUDS_FILE_def LOUDS_CHARS_FILE_def METADATA_FILE_def PAUSE_FILE_def ascii_def show_nat_inj
      dest: last_of)

section \<open>What an action leaves\<close>

abbreviation stored_file :: "Io \<Rightarrow> name \<Rightarrow> byte list option" where
  "stored_file io \<equiv> map_of (io_files io)"

definition leaves :: "'a action \<Rightarrow> Io \<Rightarrow> (Io \<Rightarrow> bool) \<Rightarrow> ('a \<Rightarrow> Io \<Rightarrow> bool) \<Rightarrow> bool" where
  "leaves m io broken good \<longleftrightarrow> (case m io of (Inl e, io') \<Rightarrow> broken io' | (Inr v, io') \<Rightarrow> good v io')"

lemma leaves_and_with:
  "leaves m io broken R \<Longrightarrow> (\<And>v io'. R v io' \<Longrightarrow> leaves (k v) io' broken good) \<Longrightarrow> leaves (and_with m k) io broken good"
  by (fastforce simp: leaves_def and_with_def split: prod.splits sum.splits)

lemma leaves_weaken:
  "leaves m io B R \<Longrightarrow> (\<And>io'. B io' \<Longrightarrow> broken io') \<Longrightarrow> (\<And>v io'. R v io' \<Longrightarrow> good v io') \<Longrightarrow> leaves m io broken good"
  by (auto simp: leaves_def split: prod.splits sum.splits)

lemma next_fault_files [simp]: "io_files (snd (next_fault io)) = io_files io"
  by (simp add: next_fault_def split: list.split)

lemma next_fault_files': "next_fault io = (f, io') \<Longrightarrow> io_files io' = io_files io"
  by (metis next_fault_files snd_conv)

lemma leaves_write:
  "leaves (write_file n bytes) io (\<lambda>io'. \<forall>x. x \<noteq> n \<longrightarrow> stored_file io' x = stored_file io x) (\<lambda>_ io'. stored_file io' = (stored_file io)(n \<mapsto> bytes))"
  by (auto simp: leaves_def write_file_def update_conv' dest: next_fault_files' split: prod.splits Fault.splits option.splits)

lemma leaves_copy:
  assumes "stored_file io source = Some bytes"
  shows "leaves (copy_file source n) io (\<lambda>io'. \<forall>x. x \<noteq> n \<longrightarrow> stored_file io' x = stored_file io x) (\<lambda>_ io'. stored_file io' = (stored_file io)(n \<mapsto> bytes))"
  using leaves_write [of n bytes io] assms by (simp add: leaves_def copy_file_def)

lemma leaves_remove:
  "leaves (remove_file_if_present n) io (\<lambda>io'. stored_file io' = stored_file io) (\<lambda>_ io'. stored_file io' = (stored_file io)(n := None))"
  by (auto simp: leaves_def remove_file_if_present_def delete_conv' dest: next_fault_files' split: prod.splits Fault.splits)

text \<open>The invariant of a loop, whose body may break.\<close>

lemma leaves_for_each:
  assumes "I [] io"
    and "\<And>before x rest io. xs = before @ x # rest \<Longrightarrow> I before io \<Longrightarrow> leaves (f x) io broken (\<lambda>_ io'. I (before @ [x]) io')"
  shows "leaves (for_each f xs) io broken (\<lambda>_ io'. I xs io')"
proof -
  have "xs = before @ rest \<Longrightarrow> I before io \<Longrightarrow> leaves (for_each f rest) io broken (\<lambda>_ io'. I xs io')" for before rest io
  proof (induction rest arbitrary: before io)
    case Nil
    then show ?case by (simp add: leaves_def done_with_def)
  next
    case (Cons x rest)
    show ?case unfolding for_each.simps
    proof (rule leaves_and_with)
      show "leaves (f x) io broken (\<lambda>_ io'. I (before @ [x]) io')" using assms(2) Cons.prems by blast
      show "leaves (for_each f rest) io' broken (\<lambda>_ io'. I xs io')" if "I (before @ [x]) io'" for io'
        using Cons.IH [of "before @ [x]"] Cons.prems(1) that by simp
    qed
  qed
  from this [of "[]" xs io] assms(1) show ?thesis by simp
qed

section \<open>Saving, step by step\<close>

definition same_final :: "(name \<Rightarrow> byte list option) \<Rightarrow> (name \<Rightarrow> byte list option) \<Rightarrow> bool" where
  "same_final f g \<longleftrightarrow> (\<forall>n. final_name n \<longrightarrow> f n = g n)"

definition staged :: "EncodedMemory \<Rightarrow> (name \<Rightarrow> byte list option) \<Rightarrow> bool" where
  "staged files f \<longleftrightarrow>
     f (temporary_of LOUDS_FILE) = Some (em_louds files) \<and> f (temporary_of LOUDS_CHARS_FILE) = Some (em_characters files) \<and>
     f (temporary_of METADATA_FILE) = Some (em_metadata files) \<and>
     (\<forall>i < length (em_shards files). f (temporary_of (shard_file i)) = Some (em_shards files ! i))"

definition published :: "EncodedMemory \<Rightarrow> (name \<Rightarrow> byte list option) \<Rightarrow> bool" where
  "published files f \<longleftrightarrow>
     f LOUDS_FILE = Some (em_louds files) \<and> f LOUDS_CHARS_FILE = Some (em_characters files) \<and>
     f METADATA_FILE = Some (em_metadata files) \<and> (\<forall>i < length (em_shards files). f (shard_file i) = Some (em_shards files ! i))"

lemma leaves_write_temporaries:
  "leaves (write_temporaries files) io
     (\<lambda>io'. same_final (stored_file io') (stored_file io))
     (\<lambda>_ io'. same_final (stored_file io') (stored_file io) \<and> staged files (stored_file io'))"
proof -
  let ?f = "stored_file io"
  let ?g = "?f(temporary_of LOUDS_FILE \<mapsto> em_louds files, temporary_of LOUDS_CHARS_FILE \<mapsto> em_characters files,
      temporary_of METADATA_FILE \<mapsto> em_metadata files)"
  let ?broken = "\<lambda>io'. same_final (stored_file io') ?f"
  have step: "leaves (write_temporary n bytes) io1 ?broken (\<lambda>_ io'. stored_file io' = (stored_file io1)(temporary_of n \<mapsto> bytes))"
    if "same_final (stored_file io1) ?f" for io1 n bytes
    unfolding write_temporary_def
    by (rule leaves_weaken [OF leaves_write]) (use that in \<open>auto simp: same_final_def\<close>)
  have loop: "leaves (for_each (\<lambda>(i, shard). write_temporary (shard_file i) shard) (enumerate 0 (em_shards files))) io1 ?broken
      (\<lambda>_ io'. same_final (stored_file io') ?f \<and> staged files (stored_file io'))"
    if g: "stored_file io1 = ?g" for io1
  proof (rule leaves_weaken [OF leaves_for_each [where I = "\<lambda>done io'. same_final (stored_file io') ?f \<and>
        (\<forall>n. (\<forall>i. n \<noteq> temporary_of (shard_file i)) \<longrightarrow> stored_file io' n = ?g n) \<and>
        (\<forall>(i, shard) \<in> set done. stored_file io' (temporary_of (shard_file i)) = Some shard)"]])
    show "same_final (stored_file io1) ?f \<and> (\<forall>n. (\<forall>i. n \<noteq> temporary_of (shard_file i)) \<longrightarrow> stored_file io1 n = ?g n) \<and>
        (\<forall>(i, shard) \<in> set []. stored_file io1 (temporary_of (shard_file i)) = Some shard)"
      by (simp add: g same_final_def)
  next
    fix before x rest io2
    assume xs: "enumerate 0 (em_shards files) = before @ x # rest"
      and I: "same_final (stored_file io2) ?f \<and> (\<forall>n. (\<forall>i. n \<noteq> temporary_of (shard_file i)) \<longrightarrow> stored_file io2 n = ?g n) \<and>
        (\<forall>(i, shard) \<in> set before. stored_file io2 (temporary_of (shard_file i)) = Some shard)"
    obtain i shard where x: "x = (i, shard)" by force
    have "distinct (map fst (before @ x # rest))" unfolding xs [symmetric] by simp
    then have new: "\<forall>(j, s) \<in> set before. j \<noteq> i" by (force simp: x)
    have "leaves (write_temporary (shard_file i) shard) io2 ?broken
        (\<lambda>_ io'. stored_file io' = (stored_file io2)(temporary_of (shard_file i) \<mapsto> shard))"
      using I by (intro step) simp
    then show "leaves (case x of (i, shard) \<Rightarrow> write_temporary (shard_file i) shard) io2 ?broken
        (\<lambda>_ io'. same_final (stored_file io') ?f \<and> (\<forall>n. (\<forall>i. n \<noteq> temporary_of (shard_file i)) \<longrightarrow> stored_file io' n = ?g n) \<and>
          (\<forall>(i, shard) \<in> set (before @ [x]). stored_file io' (temporary_of (shard_file i)) = Some shard))"
      unfolding x prod.case by (rule leaves_weaken) (use I new in \<open>auto simp: same_final_def x\<close>)
  next
    fix io' assume io': "same_final (stored_file io') ?f \<and> (\<forall>n. (\<forall>i. n \<noteq> temporary_of (shard_file i)) \<longrightarrow> stored_file io' n = ?g n) \<and>
        (\<forall>(i, shard) \<in> set (enumerate 0 (em_shards files)). stored_file io' (temporary_of (shard_file i)) = Some shard)"
    have "stored_file io' (temporary_of (shard_file i)) = Some (em_shards files ! i)" if "i < length (em_shards files)" for i
      using io' that by (auto simp: in_set_enumerate_eq)
    with io' show "same_final (stored_file io') ?f \<and> staged files (stored_file io')" by (simp add: staged_def)
  qed simp
  show ?thesis
    unfolding write_temporaries_def
    by (rule leaves_and_with [OF step], simp add: same_final_def)+ (rule loop, simp)
qed

text \<open>While the files are published, the temporary files and the pause file stay.\<close>

definition paused :: "EncodedMemory \<Rightarrow> (name \<Rightarrow> byte list option) \<Rightarrow> bool" where
  "paused files f \<longleftrightarrow> staged files f \<and> f PAUSE_FILE \<noteq> None"

lemma paused_restored:
  assumes "paused files (stored_file io)" and "final_name n" and "n \<noteq> PAUSE_FILE" and "stored_file io (temporary_of n) = Some bytes"
  shows "leaves (restore_temporary n) io (\<lambda>io'. paused files (stored_file io'))
    (\<lambda>_ io'. paused files (stored_file io') \<and> stored_file io' = (stored_file io)(n \<mapsto> bytes))"
  unfolding restore_temporary_def
  by (rule leaves_weaken [OF leaves_copy [OF assms(4)]])
    (use assms(1-3) in \<open>auto simp: paused_def staged_def\<close>)

lemma leaves_publish:
  assumes "paused files (stored_file io)"
  shows "leaves (publish (length (em_shards files))) io (\<lambda>io'. paused files (stored_file io'))
    (\<lambda>_ io'. paused files (stored_file io') \<and> published files (stored_file io'))"
proof -
  let ?f = "stored_file io" and ?broken = "\<lambda>io'. paused files (stored_file io')"
  let ?C = "\<lambda>io'. stored_file io' LOUDS_CHARS_FILE = Some (em_characters files)"
    and ?M = "\<lambda>io'. stored_file io' METADATA_FILE = Some (em_metadata files)"
  have chars: "leaves (restore_temporary LOUDS_CHARS_FILE) io ?broken (\<lambda>_ io'. paused files (stored_file io') \<and> ?C io')"
    by (rule leaves_weaken [OF paused_restored [OF assms]]) (use assms in \<open>auto simp: paused_def staged_def\<close>)
  have meta: "leaves (restore_temporary METADATA_FILE) io1 ?broken (\<lambda>_ io'. paused files (stored_file io') \<and> ?C io' \<and> ?M io')"
    if p: "paused files (stored_file io1) \<and> ?C io1" for io1
    by (rule leaves_weaken [OF paused_restored [OF conjunct1 [OF p]]]) (use p in \<open>auto simp: paused_def staged_def\<close>)
  let ?I = "\<lambda>done io'. paused files (stored_file io') \<and>
      stored_file io' LOUDS_CHARS_FILE = Some (em_characters files) \<and> stored_file io' METADATA_FILE = Some (em_metadata files) \<and>
      (\<forall>i \<in> set done. stored_file io' (shard_file i) = Some (em_shards files ! i))"
  have shards: "leaves (for_each (\<lambda>i. restore_temporary (shard_file i)) [0..<length (em_shards files)]) io1 ?broken
      (\<lambda>_. ?I [0..<length (em_shards files)])"
    if p: "paused files (stored_file io1) \<and> ?C io1 \<and> ?M io1" for io1
  proof (rule leaves_for_each)
    show "?I [] io1" using p by simp
  next
    fix before i rest io2
    assume xs: "[0..<length (em_shards files)] = before @ i # rest" and I: "?I before io2"
    have "i \<in> set [0..<length (em_shards files)]" unfolding xs by simp
    then have s: "stored_file io2 (temporary_of (shard_file i)) = Some (em_shards files ! i)"
      using I by (simp add: paused_def staged_def)
    show "leaves (restore_temporary (shard_file i)) io2 ?broken (\<lambda>_. ?I (before @ [i]))"
      by (rule leaves_weaken [OF paused_restored [OF _ _ _ s]]) (use I in auto)
  qed
  have louds: "leaves (restore_temporary LOUDS_FILE) io1 ?broken (\<lambda>_ io'. paused files (stored_file io') \<and> published files (stored_file io'))"
    if I: "?I [0..<length (em_shards files)] io1" for io1
  proof (rule leaves_weaken [OF paused_restored [where bytes = "em_louds files"]])
    show "stored_file io1 (temporary_of LOUDS_FILE) = Some (em_louds files)" using I by (simp only: paused_def staged_def)
  qed (use I in \<open>auto simp: published_def\<close>)
  show ?thesis
    unfolding publish_def
    by (rule leaves_and_with [OF chars], rule leaves_and_with [OF meta], assumption, rule leaves_and_with [OF shards], assumption,
        rule louds)
qed

text \<open>
  Whenever saving ends, the old files are there and there is no pause file, or the new files wait behind the pause file;
  when it ends without an error, the new files are there.
\<close>

lemma leaves_save_files:
  assumes "stored_file io PAUSE_FILE = None"
  shows "leaves (save_files files) io
    (\<lambda>io'. same_final (stored_file io') (stored_file io) \<or> paused files (stored_file io'))
    (\<lambda>_ io'. published files (stored_file io') \<and> stored_file io' PAUSE_FILE = None)"
proof -
  let ?broken = "\<lambda>io'. same_final (stored_file io') (stored_file io) \<or> paused files (stored_file io')"
  have temporaries: "leaves (write_temporaries files) io ?broken
      (\<lambda>_ io'. same_final (stored_file io') (stored_file io) \<and> staged files (stored_file io'))"
    by (rule leaves_weaken [OF leaves_write_temporaries]) auto
  have pause: "leaves (write_file PAUSE_FILE []) io1 ?broken (\<lambda>_ io'. paused files (stored_file io'))"
    if s: "same_final (stored_file io1) (stored_file io) \<and> staged files (stored_file io1)" for io1
  proof (rule leaves_weaken [OF leaves_write])
    fix io' assume "\<forall>x. x \<noteq> PAUSE_FILE \<longrightarrow> stored_file io' x = stored_file io1 x"
    moreover from this s assms have "same_final (stored_file io') (stored_file io)" if "stored_file io' PAUSE_FILE = None"
      using that unfolding same_final_def by metis
    ultimately show "?broken io'" using s by (auto simp: paused_def staged_def)
  next
    fix io' assume "stored_file io' = (stored_file io1)(PAUSE_FILE \<mapsto> [])"
    with s show "paused files (stored_file io')" by (simp add: paused_def staged_def)
  qed
  have publishing: "leaves (publish (length (em_shards files))) io1 ?broken
      (\<lambda>_ io'. paused files (stored_file io') \<and> published files (stored_file io'))"
    if "paused files (stored_file io1)" for io1
    by (rule leaves_weaken [OF leaves_publish [OF that]]) auto
  have unpause: "leaves (remove_file_if_present PAUSE_FILE) io1 ?broken
      (\<lambda>_ io'. published files (stored_file io') \<and> stored_file io' PAUSE_FILE = None)"
    if "paused files (stored_file io1) \<and> published files (stored_file io1)" for io1
    by (rule leaves_weaken [OF leaves_remove]) (use that in \<open>auto simp: published_def\<close>)
  show ?thesis
    unfolding save_files_def
    by (rule leaves_and_with [OF temporaries], rule leaves_and_with [OF pause], assumption, rule leaves_and_with [OF publishing],
        assumption, rule unpause)
qed

section \<open>Recovering\<close>

lemma no_fault [simp]: "io_faults io = [] \<Longrightarrow> next_fault io = (Works, io)"
  by (simp add: next_fault_def)

lemma ends_with_iff: "ends_with s p \<longleftrightarrow> (\<exists>q. s = q @ p)"
proof
  assume "ends_with s p"
  then have "rev s = rev p @ drop (length p) (rev s)" unfolding ends_with_def by (metis append_take_drop_id)
  then have "s = rev (drop (length p) (rev s)) @ p" by (metis rev_append rev_rev_ident)
  then show "\<exists>q. s = q @ p" by blast
qed (auto simp: ends_with_def)

lemma trim_shard:
  assumes "ends_with t (ascii ''.loudstxt3.2'')"
  obtains b where "t = temporary_of b" and "trim_temporary t = b" and "ends_with b (ascii ''.loudstxt3'')"
proof -
  obtain q where q: "t = q @ ascii ''.loudstxt3.2''" using assms by (auto simp: ends_with_iff)
  let ?b = "q @ ascii ''.loudstxt3''"
  have t: "t = temporary_of ?b" by (simp add: q temporary_of_def ascii_def)
  have "ends_with ?b (ascii ''.loudstxt3'')" by (auto simp: ends_with_iff)
  moreover have "\<not> ends_with ?b (ascii ''.2'')" by (simp add: ends_with_def ascii_def)
  then have "trim_temporary t = ?b"
    by (subst trim_temporary.simps) (simp add: t temporary_of_def ends_with_def ascii_def trim_temporary.simps [of "q @ _"])
  ultimately show ?thesis using t that by blast
qed

lemma shard_like_names:
  assumes "ends_with b (ascii ''.loudstxt3'')"
  shows "final_name b \<and> b \<noteq> LOUDS_FILE \<and> b \<noteq> LOUDS_CHARS_FILE \<and> b \<noteq> METADATA_FILE \<and> b \<noteq> PAUSE_FILE"
proof -
  obtain q where "b = q @ ascii ''.loudstxt3''" using assms by (auto simp: ends_with_iff)
  then show ?thesis
    by (auto simp: final_name_def ends_with_def ascii_def LOUDS_FILE_def LOUDS_CHARS_FILE_def METADATA_FILE_def PAUSE_FILE_def
        dest: last_of)
qed

lemma restored_ok:
  assumes "io_faults io = []" and "stored_file io (temporary_of n) = Some bytes"
  shows "leaves (restore_temporary n) io (\<lambda>_. False) (\<lambda>_ io'. io_faults io' = [] \<and> stored_file io' = (stored_file io)(n \<mapsto> bytes))"
  using assms by (simp add: leaves_def restore_temporary_def copy_file_def write_file_def update_conv')

lemma recovered_shards:
  fixes io :: Io
  assumes "\<forall>t \<in> set ts. ends_with t (ascii ''.loudstxt3.2'') \<and> stored_file io t \<noteq> None" and "io_faults io = []"
  shows "leaves (for_each (\<lambda>t. restore_temporary (trim_temporary t)) ts) io (\<lambda>_. False)
    (\<lambda>_ io'. io_faults io' = [] \<and> (\<forall>n. \<not> ends_with n (ascii ''.loudstxt3'') \<longrightarrow> stored_file io' n = stored_file io n) \<and>
       (\<forall>b. temporary_of b \<in> set ts \<longrightarrow> stored_file io' b = stored_file io (temporary_of b)))"
proof (rule leaves_for_each [where I = "\<lambda>done io'. io_faults io' = [] \<and>
    (\<forall>n. \<not> ends_with n (ascii ''.loudstxt3'') \<longrightarrow> stored_file io' n = stored_file io n) \<and>
    (\<forall>b. temporary_of b \<in> set done \<longrightarrow> stored_file io' b = stored_file io (temporary_of b))"])
  fix before t rest io1
  assume ts: "ts = before @ t # rest"
    and I: "io_faults io1 = [] \<and> (\<forall>n. \<not> ends_with n (ascii ''.loudstxt3'') \<longrightarrow> stored_file io1 n = stored_file io n) \<and>
      (\<forall>b. temporary_of b \<in> set before \<longrightarrow> stored_file io1 b = stored_file io (temporary_of b))"
  have t: "ends_with t (ascii ''.loudstxt3.2'')" "stored_file io t \<noteq> None" using assms(1) ts by auto
  obtain b where b: "t = temporary_of b" "trim_temporary t = b" "ends_with b (ascii ''.loudstxt3'')" using trim_shard [OF t(1)] by blast
  have "\<not> ends_with t (ascii ''.loudstxt3'')" using shard_like_names [of t] b(1) by auto
  then have same: "stored_file io1 t = stored_file io t" using I by blast
  then obtain bytes where bytes: "stored_file io1 (temporary_of b) = Some bytes" "stored_file io (temporary_of b) = Some bytes"
    using t(2) b(1) by auto
  show "leaves (restore_temporary (trim_temporary t)) io1 (\<lambda>_. False)
      (\<lambda>_ io'. io_faults io' = [] \<and> (\<forall>n. \<not> ends_with n (ascii ''.loudstxt3'') \<longrightarrow> stored_file io' n = stored_file io n) \<and>
        (\<forall>b. temporary_of b \<in> set (before @ [t]) \<longrightarrow> stored_file io' b = stored_file io (temporary_of b)))"
    unfolding b(2) by (rule leaves_weaken [OF restored_ok [OF conjunct1 [OF I] bytes(1)]]) (use I b bytes in auto)
qed (use assms(2) in simp)

lemma shard_temporary:
  "starts_with (temporary_of (shard_file i)) (ascii ''memory'')" "ends_with (temporary_of (shard_file i)) (ascii ''.loudstxt3.2'')"
  by (simp_all add: starts_with_def ends_with_def temporary_of_def shard_file_def ascii_def)

lemma recover_paused:
  assumes "paused files (stored_file io)" and "io_faults io = []"
  shows "leaves recover_if_paused io (\<lambda>_. False)
    (\<lambda>_ io'. io_faults io' = [] \<and> published files (stored_file io') \<and> stored_file io' PAUSE_FILE = None)"
proof -
  let ?f = "stored_file io" and ?B = "\<lambda>_ :: Io. False"
  let ?S = "\<lambda>io'. io_faults io' = [] \<and> (\<forall>n. \<not> final_name n \<longrightarrow> stored_file io' n = ?f n) \<and> stored_file io' PAUSE_FILE \<noteq> None"
  let ?C = "\<lambda>io'. stored_file io' LOUDS_CHARS_FILE = Some (em_characters files)"
    and ?M = "\<lambda>io'. stored_file io' METADATA_FILE = Some (em_metadata files)"
    and ?P = "\<lambda>io'. \<forall>i < length (em_shards files). stored_file io' (shard_file i) = Some (em_shards files ! i)"
  have st: "staged files ?f" and pause: "?f PAUSE_FILE \<noteq> None" using assms(1) by (simp_all add: paused_def)
  have at: "staged files (stored_file io')" if "?S io'" for io' using st that by (simp add: staged_def)
  have chars: "leaves (restore_temporary LOUDS_CHARS_FILE) io ?B (\<lambda>_ io'. ?S io' \<and> ?C io')"
    by (rule leaves_weaken [OF restored_ok [OF assms(2)]]) (use st pause in \<open>auto simp: staged_def\<close>)
  have meta: "leaves (restore_temporary METADATA_FILE) io1 ?B (\<lambda>_ io'. ?S io' \<and> ?C io' \<and> ?M io')" if p: "?S io1 \<and> ?C io1" for io1
    by (rule leaves_weaken [OF restored_ok [where bytes = "em_metadata files"]]) (use p at [of io1] in \<open>auto simp: staged_def\<close>)
  have names: "leaves read_directory io1 ?B (\<lambda>names io'. io' = io1 \<and> names = map fst (io_files io1))" if "?S io1" for io1
    using that by (simp add: leaves_def read_directory_def)
  let ?ts = "\<lambda>names. sort (filter (\<lambda>n. starts_with n (ascii ''memory'') \<and> ends_with n (ascii ''.loudstxt3.2'')) names)"
  have shards: "leaves (for_each (\<lambda>t. restore_temporary (trim_temporary t)) (?ts names)) io1 ?B (\<lambda>_ io'. ?S io' \<and> ?C io' \<and> ?M io' \<and> ?P io')"
    if p: "?S io1 \<and> ?C io1 \<and> ?M io1" and n: "names = map fst (io_files io1)" for io1 names
  proof (rule leaves_weaken [OF recovered_shards])
    show "\<forall>t \<in> set (?ts names). ends_with t (ascii ''.loudstxt3.2'') \<and> stored_file io1 t \<noteq> None"
      by (auto simp: n map_of_eq_None_iff)
    show "io_faults io1 = []" using p by blast
    fix io' assume io': "io_faults io' = [] \<and> (\<forall>n. \<not> ends_with n (ascii ''.loudstxt3'') \<longrightarrow> stored_file io' n = stored_file io1 n) \<and>
       (\<forall>b. temporary_of b \<in> set (?ts names) \<longrightarrow> stored_file io' b = stored_file io1 (temporary_of b))"
    have other: "stored_file io' n = stored_file io1 n" if "\<not> final_name n \<or> n \<in> {LOUDS_CHARS_FILE, METADATA_FILE, PAUSE_FILE}" for n
      using io' shard_like_names [of n] that by blast
    have "stored_file io' (shard_file i) = Some (em_shards files ! i)" if "i < length (em_shards files)" for i
    proof -
      have "stored_file io1 (temporary_of (shard_file i)) = Some (em_shards files ! i)"
        using at [OF conjunct1 [OF p]] that by (simp add: staged_def)
      moreover from this have "temporary_of (shard_file i) \<in> set names" unfolding n by (force dest: map_of_SomeD)
      ultimately show ?thesis using io' by (simp add: shard_temporary)
    qed
    with p io' other show "?S io' \<and> ?C io' \<and> ?M io' \<and> ?P io'" by simp
  qed
  have louds: "leaves (restore_temporary LOUDS_FILE) io1 ?B (\<lambda>_ io'. io_faults io' = [] \<and> published files (stored_file io'))"
    if p: "?S io1 \<and> ?C io1 \<and> ?M io1 \<and> ?P io1" for io1
    by (rule leaves_weaken [OF restored_ok [where bytes = "em_louds files"]])
      (use p at [of io1] in \<open>auto simp: staged_def published_def\<close>)
  have unpause: "leaves (remove_file_if_present PAUSE_FILE) io1 ?B
      (\<lambda>_ io'. io_faults io' = [] \<and> published files (stored_file io') \<and> stored_file io' PAUSE_FILE = None)"
    if "io_faults io1 = [] \<and> published files (stored_file io1)" for io1
    using that by (simp add: leaves_def remove_file_if_present_def delete_conv' published_def)
  have "path_exists PAUSE_FILE io = (True, io)" using assms(2) pause by (simp add: path_exists_def)
  moreover have "leaves (and_with (restore_temporary LOUDS_CHARS_FILE) (\<lambda>_. and_with (restore_temporary METADATA_FILE) (\<lambda>_.
        and_with read_directory (\<lambda>names. and_with (for_each (\<lambda>t. restore_temporary (trim_temporary t)) (?ts names)) (\<lambda>_.
        and_with (restore_temporary LOUDS_FILE) (\<lambda>_. remove_file_if_present PAUSE_FILE)))))) io ?B
      (\<lambda>_ io'. io_faults io' = [] \<and> published files (stored_file io') \<and> stored_file io' PAUSE_FILE = None)"
    by (rule leaves_and_with [OF chars], rule leaves_and_with [OF meta], assumption, rule leaves_and_with [OF names], blast,
        rule leaves_and_with [OF shards], blast, blast, rule leaves_and_with [OF louds], assumption, rule unpause)
  ultimately show ?thesis by (simp add: leaves_def recover_if_paused_def)
qed

section \<open>Reading what is there\<close>

lemma read_no_fault:
  assumes "io_faults io = []"
  shows "read_optional n io = (Inr (stored_file io n), io)"
    and "stored_file io n = Some bytes \<Longrightarrow> read_required n io = (Inr bytes, io)"
    and "read_required n io = ((case stored_file io n of None \<Rightarrow> Inl (IoError n) | Some bytes \<Rightarrow> Inr bytes), io)"
  using assms by (simp_all add: read_optional_def read_required_def split: option.split)

lemma decode_nodes_result:
  assumes "io_faults io = []" and "\<And>s. loaded = Some s \<Longrightarrow> stored_file io (shard_file s) = Some shard"
    and "\<forall>(node, block) \<in> set xs. \<exists>sh. stored_file io (shard_file (node div SHARD_SIZE)) = Some sh \<and>
      decode_node sh (node mod SHARD_SIZE) block = Inr (out node)"
  shows "decode_nodes loaded shard records xs io = (Inr (records @ concat (map (out \<circ> fst) xs)), io)"
  using assms(2,3)
proof (induction xs arbitrary: loaded shard records)
  case Nil
  then show ?case by (simp add: done_with_def)
next
  case (Cons x xs)
  obtain node block where x: "x = (node, block)" by force
  obtain sh where sh: "stored_file io (shard_file (node div SHARD_SIZE)) = Some sh" "decode_node sh (node mod SHARD_SIZE) block = Inr (out node)"
    using Cons.prems(2) x by auto
  have load: "(if loaded \<noteq> Some (node div SHARD_SIZE) then read_required (shard_file (node div SHARD_SIZE)) else done_with shard) io = (Inr sh, io)"
    using Cons.prems(1) sh(1) read_no_fault(2) [OF assms(1) sh(1)] by (auto simp: done_with_def)
  have "decode_nodes (Some (node div SHARD_SIZE)) sh (records @ out node) xs io =
      (Inr ((records @ out node) @ concat (map (out \<circ> fst) xs)), io)"
    by (rule Cons.IH) (use sh(1) Cons.prems(2) in auto)
  then show ?case by (simp add: x Let_def and_with_def load sh(2) comp_def)
qed

lemma decode_nodes_cong:
  assumes "io_faults io = []" and "io_faults io2 = []" and "\<And>i. stored_file io (shard_file i) = stored_file io2 (shard_file i)"
  shows "fst (decode_nodes loaded shard records xs io) = fst (decode_nodes loaded shard records xs io2)"
proof (induction xs arbitrary: loaded shard records)
  case (Cons x xs)
  obtain node block where x: "x = (node, block)" by force
  show ?case
    by (cases "loaded = Some (node div SHARD_SIZE)")
      (auto simp: x Let_def and_with_def done_with_def read_no_fault(3) [OF assms(1)] read_no_fault(3) [OF assms(2)] assms(3) Cons.IH
        split: option.splits sum.splits)
qed (simp add: done_with_def)

lemma decode_directory_cong:
  assumes "io_faults io = []" and "io_faults io2 = []" and "same_final (stored_file io) (stored_file io2)"
  shows "fst (decode_directory io) = fst (decode_directory io2)"
proof -
  have eq: "stored_file io n = stored_file io2 n" if "final_name n" for n
    using assms(3) that by (simp add: same_final_def)
  note nodes = decode_nodes_cong [OF assms(1,2) eq [OF final_names(5)]]
  show ?thesis
    unfolding decode_directory_def and_with_def read_no_fault(1) [OF assms(1)] read_no_fault(1) [OF assms(2)] eq [OF final_names(3)]
    by (auto simp: read_no_fault(3) [OF assms(1)] read_no_fault(3) [OF assms(2)] eq done_with_def nodes
        split: option.splits sum.splits)
qed

lemma chunks_nth:
  "0 < n \<Longrightarrow> j * n + k < length xs \<Longrightarrow> k < n \<Longrightarrow> j < length (chunks n xs) \<and> k < length (chunks n xs ! j) \<and> chunks n xs ! j ! k = xs ! (j * n + k)"
proof (induction n xs arbitrary: j rule: chunks.induct)
  case (1 n xs)
  then have "xs \<noteq> []" by auto
  show ?case
  proof (cases j)
    case 0
    with 1(2-4) \<open>xs \<noteq> []\<close> show ?thesis by (simp add: chunks.simps [of n xs])
  next
    case (Suc i)
    then have "i * n + k < length (drop n xs)" using 1(2-4) by (simp add: algebra_simps)
    moreover from this have "n < length xs" by simp
    ultimately show ?thesis
      using 1(1) [of i] 1(2-4) \<open>xs \<noteq> []\<close> Suc by (simp add: chunks.simps [of n xs] algebra_simps)
  qed
qed

lemma chunks_length: "0 < n \<Longrightarrow> c \<in> set (chunks n xs) \<Longrightarrow> length c \<le> n"
proof (induction n xs rule: chunks.induct)
  case (1 n xs)
  then show ?case by (cases "xs = []") (simp_all add: chunks.simps [of n xs] chunks.simps [of n "[]"], auto)
qed

section \<open>What was saved is read\<close>

text \<open>The records as they are read after saving: in the order of the nodes, at most 255 of a reading.\<close>

definition saved :: "segmenter \<Rightarrow> valuation \<Rightarrow> CharacterIdMap \<Rightarrow> LearningRecord list \<Rightarrow> LearningRecord list" where
  "saved graphemes learning_value characters rs =
     map (\<lambda>i. stored learning_value (rs ! i)) (concat (map (take 255) (blocks_of graphemes characters rs)))"

text \<open>Character identifiers are different for different characters, as \<open>parse_character_ids\<close> makes them.\<close>

definition proper_characters :: "CharacterIdMap \<Rightarrow> bool" where
  "proper_characters characters \<longleftrightarrow> inj_on characters (dom characters)"

definition proper_record :: "segmenter \<Rightarrow> CharacterIdMap \<Rightarrow> LearningRecord \<Rightarrow> bool" where
  "proper_record graphemes characters r \<longleftrightarrow>
     valid_learning_entry graphemes characters (lr_entry r) \<and>
     list_all is_scalar (word (lr_entry r)) \<and> list_all is_scalar (ruby (lr_entry r))"

text \<open>Files whose numbers fit: \<open>u32\<close> for the nodes and for the offsets in a shard.\<close>

definition fits :: "EncodedMemory \<Rightarrow> bool" where
  "fits files \<longleftrightarrow> length (em_characters files) < 2 ^ 32 \<and> list_all (\<lambda>s. length s < 2 ^ 32) (em_shards files)"

lemma those_inj: "inj_on f (dom f) \<Longrightarrow> those (map f xs) = Some ids \<Longrightarrow> those (map f ys) = Some ids \<Longrightarrow> xs = ys"
proof (induction xs arbitrary: ys ids)
  case Nil
  then show ?case by (cases ys) (auto split: option.splits)
next
  case (Cons x xs)
  then obtain i js where i: "f x = Some i" "those (map f xs) = Some js" "ids = i # js" by (auto split: option.splits)
  with Cons.prems(3) obtain y ys' where y: "ys = y # ys'" "f y = Some i" "those (map f ys') = Some js"
    by (cases ys) (auto split: option.splits)
  have "x = y" using Cons.prems(1) i(1) y(2) by (metis domI inj_onD)
  with Cons.IH [OF Cons.prems(1) i(2) y(3)] y(1) show ?case by simp
qed

lemma encode_ids_inj:
  assumes "segments_text graphemes" and "proper_characters characters"
    and "encode_ids graphemes characters s = Some ids" and "encode_ids graphemes characters t = Some ids"
  shows "s = t"
proof -
  have "graphemes s = graphemes t" using assms(2-4) unfolding encode_ids_def proper_characters_def by (rule those_inj)
  then show ?thesis using assms(1) unfolding segments_text_def by metis
qed

lemma proper_writable: "proper_record graphemes characters r \<Longrightarrow> writable_record r"
  by (auto simp: proper_record_def valid_learning_entry_def writable_record_def storable_def list_ex_iff is_control_def)

lemma writable_blocks:
  assumes "segments_text graphemes" and "proper_characters characters" and "list_all (proper_record graphemes characters) rs"
    and "b \<in> set (map (take 255) (blocks_of graphemes characters rs))"
  shows "writable_block rs b"
proof -
  obtain b' where b': "b = take 255 b'" "b' \<in> set (blocks_of graphemes characters rs)" using assms(4) by auto
  obtain q where "\<forall>i\<in>set b'. i < length rs \<and> reading graphemes characters (rs ! i) = Some q" using block_one_reading [OF b'(2)] by blast
  then have q: "\<forall>i\<in>set b. i < length rs \<and> encode_ids graphemes characters (ruby (lr_entry (rs ! i))) = Some q"
    using b'(1) by (auto simp: reading_def dest: in_set_takeD)
  have "\<exists>r. \<forall>i\<in>set b. ruby (lr_entry (rs ! i)) = r"
  proof (cases b)
    case (Cons k ks)
    then show ?thesis using q encode_ids_inj [OF assms(1,2)] by (intro exI [of _ "ruby (lr_entry (rs ! k))"]) auto
  qed simp
  moreover have "\<forall>i\<in>set b. writable_record (rs ! i)"
    using q assms(3) proper_writable by (metis list_all_length)
  moreover have "length b < 256" using b'(1) by simp
  ultimately show ?thesis by (simp add: writable_block_def)
qed

lemma decode_published:
  assumes "segments_text graphemes" and "proper_characters characters" and "list_all (proper_record graphemes characters) rs"
    and "fits (encode_files graphemes learning_value characters rs)" and "io_faults io = []"
    and "published (encode_files graphemes learning_value characters rs) (stored_file io)"
  shows "decode_directory io = (Inr (saved graphemes learning_value characters rs), io)"
proof -
  let ?files = "encode_files graphemes learning_value characters rs"
  let ?blocks = "map (take 255) (blocks_of graphemes characters rs)"
  let ?metas = "map (map (\<lambda>i. element_of (rs ! i))) ?blocks"
  let ?out = "\<lambda>node. map (\<lambda>i. stored learning_value (rs ! i)) (?blocks ! node)"
  let ?chunks = "chunks SHARD_SIZE ?blocks"
  have shards: "em_shards ?files = map (encode_entry_shard learning_value rs) ?chunks"
    by (simp add: encode_files_def Let_def blocks_of_def)
  have "length ?blocks = length (em_characters ?files)" by (simp add: length_blocks encode_files_def Let_def)
  then have n: "length ?blocks < 2 ^ 32" using assms(4) by (simp add: fits_def)
  have nodes: "\<exists>sh. stored_file io (shard_file (node div SHARD_SIZE)) = Some sh \<and> decode_node sh (node mod SHARD_SIZE) block = Inr (?out node)"
    if "(node, block) \<in> set (enumerate 0 ?metas)" for node block
  proof -
    let ?j = "node div SHARD_SIZE" and ?k = "node mod SHARD_SIZE"
    have node: "node < length ?blocks" "block = map (\<lambda>i. element_of (rs ! i)) (?blocks ! node)"
      using that by (auto simp: in_set_enumerate_eq)
    have at: "?j * SHARD_SIZE + ?k = node" by simp
    have c: "?j < length ?chunks" "?k < length (?chunks ! ?j)" "?chunks ! ?j ! ?k = ?blocks ! node"
      using chunks_nth [of SHARD_SIZE ?j ?k ?blocks] node(1) unfolding at by simp_all
    let ?sh = "encode_entry_shard learning_value rs (?chunks ! ?j)"
    have "stored_file io (shard_file ?j) = Some ?sh"
      using assms(6) c(1) by (simp add: published_def shards)
    moreover have "length ?sh < 2 ^ 32" using assms(4) c(1) by (simp add: fits_def shards list_all_length)
    moreover have "length (?chunks ! ?j) \<le> SHARD_SIZE" using c(1) chunks_length [of SHARD_SIZE _ ?blocks] by simp
    moreover have "writable_block rs (?chunks ! ?j ! ?k)"
      unfolding c(3) using writable_blocks [OF assms(1-3)] node(1) nth_mem by blast
    ultimately show ?thesis
      using decode_node_written [of ?k "?chunks ! ?j" rs learning_value] c(2) unfolding c(3) node(2) by blast
  qed
  have "decode_nodes None [] [] (enumerate 0 ?metas) io = (Inr (concat (map (?out \<circ> fst) (enumerate 0 ?metas))), io)"
    using decode_nodes_result [where loaded = None and shard = "[]" and records = "[]", OF assms(5)] nodes by fastforce
  also have "map (?out \<circ> fst) (enumerate 0 ?metas) = map ?out [0..<length ?blocks]"
    by (simp add: map_map [symmetric] del: map_map)
  also have "\<dots> = map (map (\<lambda>i. stored learning_value (rs ! i))) ?blocks"
    by (rule nth_equalityI) simp_all
  also have "concat \<dots> = saved graphemes learning_value characters rs"
    by (simp add: saved_def map_concat comp_def)
  finally have "decode_nodes None [] [] (enumerate 0 ?metas) io = (Inr (saved graphemes learning_value characters rs), io)" .
  moreover have "decode_metadata (em_metadata ?files) (em_louds ?files) (em_characters ?files) = Inr ?metas"
    by (rule decode_metadata_written [OF n])
  ultimately show ?thesis
    using assms(6) by (simp add: decode_directory_def and_with_def read_no_fault(1,2) [OF assms(5)] published_def)
qed

lemma mset_saved:
  assumes "segments_text graphemes" and "list_all (proper_record graphemes characters) rs"
    and "\<forall>b \<in> set (blocks_of graphemes characters rs). length b \<le> 255"
  shows "mset (saved graphemes learning_value characters rs) = mset (map (stored learning_value) rs)"
proof -
  have "\<exists>q. q \<noteq> [] \<and> reading graphemes characters (rs ! i) = Some q" if "i < length rs" for i
  proof -
    have v: "valid_learning_entry graphemes characters (lr_entry (rs ! i))"
      using assms(2) that by (simp add: list_all_length proper_record_def)
    then obtain q where q: "encode_ids graphemes characters (ruby (lr_entry (rs ! i))) = Some q"
      by (auto simp: valid_learning_entry_def)
    have "ruby (lr_entry (rs ! i)) \<noteq> []" using v by (simp add: valid_learning_entry_def)
    then have "graphemes (ruby (lr_entry (rs ! i))) \<noteq> []" using assms(1) unfolding segments_text_def by (metis concat.simps(1))
    then have "q \<noteq> []" using q by (cases "graphemes (ruby (lr_entry (rs ! i)))") (auto simp: encode_ids_def split: option.splits)
    with q show ?thesis by (auto simp: reading_def)
  qed
  then have m: "mset (concat (blocks_of graphemes characters rs)) = mset [0..<length rs]" by (intro mset_blocks) blast
  have "map (take 255) (blocks_of graphemes characters rs) = blocks_of graphemes characters rs"
    using assms(3) by (intro map_idI) simp
  then have "mset (saved graphemes learning_value characters rs) =
      image_mset (\<lambda>i. stored learning_value (rs ! i)) (mset [0..<length rs])"
    by (simp add: saved_def m [symmetric] del: mset_upt)
  also have "\<dots> = mset (map (\<lambda>i. stored learning_value (rs ! i)) [0..<length rs])" by (simp only: mset_map)
  also have "map (\<lambda>i. stored learning_value (rs ! i)) [0..<length rs] = map (stored learning_value) rs"
    by (rule nth_equalityI) simp_all
  finally show ?thesis .
qed

section \<open>Saving without faults\<close>

lemma leaves_for_each_ok:
  assumes "\<And>x io. x \<in> set xs \<Longrightarrow> P io \<Longrightarrow> leaves (f x) io (\<lambda>_. False) (\<lambda>_ io'. P io')" and "P io"
  shows "leaves (for_each f xs) io (\<lambda>_. False) (\<lambda>_ io'. P io')"
  by (rule leaves_for_each [where I = "\<lambda>_. P"]) (use assms in auto)

lemma leaves_and:
  "leaves m io B Q \<Longrightarrow> leaves m io (\<lambda>_. False) R \<Longrightarrow> leaves m io (\<lambda>_. False) (\<lambda>v io'. Q v io' \<and> R v io')"
  by (auto simp: leaves_def split: prod.splits sum.splits)

lemma write_ok: "io_faults io = [] \<Longrightarrow> leaves (write_file n bytes) io (\<lambda>_. False) (\<lambda>_ io'. io_faults io' = [])"
  by (simp add: leaves_def write_file_def)

lemma write_temporaries_ok: "io_faults io = [] \<Longrightarrow> leaves (write_temporaries files) io (\<lambda>_. False) (\<lambda>_ io'. io_faults io' = [])"
  unfolding write_temporaries_def write_temporary_def
  by (rule leaves_and_with [OF write_ok], assumption)+ (rule leaves_for_each_ok, auto intro: write_ok)

lemma restore_ok:
  assumes "io_faults io = [] \<and> paused files (stored_file io)" and "final_name n" and "n \<noteq> PAUSE_FILE"
    and "stored_file io (temporary_of n) \<noteq> None"
  shows "leaves (restore_temporary n) io (\<lambda>_. False) (\<lambda>_ io'. io_faults io' = [] \<and> paused files (stored_file io'))"
proof -
  obtain bytes where b: "stored_file io (temporary_of n) = Some bytes" using assms(4) by auto
  show ?thesis
    by (rule leaves_weaken [OF leaves_and [OF paused_restored [OF conjunct2 [OF assms(1)] assms(2,3) b] restored_ok [OF conjunct1 [OF assms(1)] b]]])
      auto
qed

lemma publish_ok:
  "io_faults io = [] \<and> paused files (stored_file io) \<Longrightarrow>
   leaves (publish (length (em_shards files))) io (\<lambda>_. False) (\<lambda>_ io'. io_faults io' = [] \<and> paused files (stored_file io'))"
proof -
  let ?P = "\<lambda>io. io_faults io = [] \<and> paused files (stored_file io)"
  assume start: "?P io"
  have step: "leaves (restore_temporary n) io1 (\<lambda>_. False) (\<lambda>_. ?P)"
    if p: "?P io1" and n: "n \<in> {LOUDS_FILE, LOUDS_CHARS_FILE, METADATA_FILE} \<or> (\<exists>i < length (em_shards files). n = shard_file i)" for n io1
    using n by (intro restore_ok [OF p]) (use p in \<open>auto simp: paused_def staged_def\<close>)
  have shards: "leaves (for_each (\<lambda>i. restore_temporary (shard_file i)) [0..<length (em_shards files)]) io1 (\<lambda>_. False) (\<lambda>_. ?P)"
    if "?P io1" for io1
    by (rule leaves_for_each_ok) (use that step in auto)
  show ?thesis
    unfolding publish_def
    by (rule leaves_and_with [OF step [OF start]], simp, rule leaves_and_with [OF step], assumption, simp,
        rule leaves_and_with [OF shards], assumption, rule step, assumption, simp)
qed

lemma saving_works:
  assumes "io_faults io = []"
  shows "leaves (save_files files) io (\<lambda>_. False) (\<lambda>_ io'. io_faults io' = [])"
proof -
  have pause: "leaves (write_file PAUSE_FILE []) io1 (\<lambda>_. False) (\<lambda>_ io'. io_faults io' = [] \<and> paused files (stored_file io'))"
    if "(same_final (stored_file io1) (stored_file io) \<and> staged files (stored_file io1)) \<and> io_faults io1 = []" for io1
    by (rule leaves_weaken [OF leaves_and [OF leaves_write write_ok]]) (use that in \<open>auto simp: paused_def staged_def\<close>)
  have unpause: "leaves (remove_file_if_present PAUSE_FILE) io1 (\<lambda>_. False) (\<lambda>_ io'. io_faults io' = [])" if "io_faults io1 = []" for io1
    using that by (simp add: leaves_def remove_file_if_present_def)
  show ?thesis
    unfolding save_files_def
    by (rule leaves_and_with [OF leaves_and [OF leaves_write_temporaries write_temporaries_ok [OF assms]]],
        rule leaves_and_with [OF pause], assumption, rule leaves_and_with [OF publish_ok], assumption, rule unpause, blast)
qed

section \<open>A save after a save that failed\<close>

text \<open>
  \<open>interrupted_save_is_atomic\<close> needs a directory without a pause file. \<open>recover_if_paused\<close> only runs when the memory is
  opened: when publishing fails, the pause file stays, and the next save of the same process writes the temporary files
  under it. If that one is interrupted, the recovery publishes temporary files of both saves.
\<close>

lemma interrupted_second_save_mixes:
  assumes "em_shards first = []" and "em_shards second = []"
  shows "\<exists>io1 io2 io3 e1 e2.
    save_files first \<lparr>io_files = [], io_faults = [Works, Works, Works, Works, Works, Breaks None, Works, Breaks None]\<rparr> = (Inl e1, io1) \<and>
    save_files second io1 = (Inl e2, io2) \<and> recover_if_paused io2 = (Inr (), io3) \<and>
    stored_file io3 LOUDS_FILE = Some (em_louds second) \<and> stored_file io3 METADATA_FILE = Some (em_metadata first)"
proof -
  let ?io = "\<lparr>io_files = [], io_faults = [Works, Works, Works, Works, Works, Breaks None, Works, Breaks None]\<rparr>"
  let ?names = "[temporary_of LOUDS_FILE, temporary_of LOUDS_CHARS_FILE, temporary_of METADATA_FILE, PAUSE_FILE, LOUDS_CHARS_FILE]"
  let ?io1 = "\<lparr>io_files = zip ?names [em_louds first, em_characters first, em_metadata first, [], em_characters first],
    io_faults = [Works, Breaks None]\<rparr>"
  let ?io2 = "\<lparr>io_files = zip ?names [em_louds second, em_characters first, em_metadata first, [], em_characters first], io_faults = []\<rparr>"
  let ?io3 = "\<lparr>io_files = zip [temporary_of LOUDS_FILE, temporary_of LOUDS_CHARS_FILE, temporary_of METADATA_FILE, LOUDS_CHARS_FILE,
      METADATA_FILE, LOUDS_FILE] [em_louds second, em_characters first, em_metadata first, em_characters first, em_metadata first,
      em_louds second], io_faults = []\<rparr>"
  note steps = save_files_def write_temporaries_def write_temporary_def publish_def restore_temporary_def copy_file_def and_with_def
    write_file_def next_fault_def done_with_def assms
  have s1: "save_files first ?io = (Inl (IoError METADATA_FILE), ?io1)" by (simp add: steps)
  have s2: "save_files second ?io1 = (Inl (IoError (temporary_of LOUDS_CHARS_FILE)), ?io2)" by (simp add: steps)
  have no_shards: "\<not> ends_with n (ascii ''.loudstxt3.2'')"
    if "n \<in> set ?names \<union> {METADATA_FILE, LOUDS_FILE}" for n
    using that by (auto simp: ends_with_def temporary_of_def ascii_def LOUDS_FILE_def LOUDS_CHARS_FILE_def METADATA_FILE_def PAUSE_FILE_def)
  have "filter (\<lambda>n. starts_with n (ascii ''memory'') \<and> ends_with n (ascii ''.loudstxt3.2'')) (?names @ [METADATA_FILE]) = []"
    using no_shards by (auto simp: filter_empty_conv)
  then have s3: "recover_if_paused ?io2 = (Inr (), ?io3)"
    by (simp add: recover_if_paused_def path_exists_def read_directory_def remove_file_if_present_def restore_temporary_def copy_file_def
        and_with_def write_file_def next_fault_def done_with_def delete_simps)
  have "stored_file ?io3 LOUDS_FILE = Some (em_louds second) \<and> stored_file ?io3 METADATA_FILE = Some (em_metadata first)" by simp
  with s1 s2 s3 show ?thesis by blast
qed

section \<open>Properties\<close>

lemma kept_proper:
  "list_all (proper_record graphemes characters) rs \<Longrightarrow> list_all (proper_record graphemes characters) (kept_records today max_count rs)"
  by (fastforce simp: kept_records_def list_all_iff proper_record_def dest!: in_set_takeD decay_entries)

text \<open>
  The files of the learning memory keep it: for records whose words have no control characters and whose readings
  have character identifiers, reading a directory that has the written files gives exactly these records again, each
  with its days, count, class and meaning, in some order, as long as no reading has more than 255 records and the
  numbers of the format suffice.
\<close>

theorem learning_files_round_trip:
  assumes "segments_text graphemes" and "proper_characters characters" and "list_all (proper_record graphemes characters) rs"
    and "\<forall>b \<in> set (blocks_of graphemes characters rs). length b \<le> 255"
    and "fits (encode_files graphemes learning_value characters rs)" and "io_faults io = []"
    and "published (encode_files graphemes learning_value characters rs) (stored_file io)"
  shows "\<exists>rs'. decode_directory io = (Inr rs', io) \<and> mset rs' = mset (map (stored learning_value) rs)"
  using decode_published [OF assms(1-3,5-7)] mset_saved [OF assms(1,3,4)] by blast

definition sample_value :: valuation where
  "sample_value n s = 0xC0A00000"

definition sample_directory :: Disk where
  "sample_directory =
     (let files = encode_files scalar_graphemes sample_value sample_characters sample_records
      in [(LOUDS_FILE, em_louds files), (LOUDS_CHARS_FILE, em_characters files), (METADATA_FILE, em_metadata files),
          (shard_file 0, hd (em_shards files))])"

lemma sample_proper:
  "proper_characters sample_characters" "list_all (proper_record scalar_graphemes sample_characters) sample_records"
  by (auto simp: proper_characters_def sample_characters_def inj_on_def) (code_simp)

lemma chunks_one: "xs \<noteq> [] \<Longrightarrow> length xs \<le> n \<Longrightarrow> chunks n xs = [xs]"
  by (cases "n = 0") (simp_all add: chunks.simps [of n xs] chunks.simps [of n "[]"])

lemma sample_blocks: "blocks_of scalar_graphemes sample_characters sample_records = [[], [], [1], [0, 2]]"
  by code_simp

lemma sample_kept: "kept_records 7 10 sample_records = sample_records"
  by code_simp

lemma sample_shards:
  "em_shards (encode_files scalar_graphemes sample_value sample_characters sample_records) =
     [encode_entry_shard sample_value sample_records [[], [], [1], [0, 2]]]"
  using sample_blocks by (simp add: encode_files_def Let_def blocks_of_def chunks_one)

lemma sample_fits: "fits (encode_files scalar_graphemes sample_value sample_characters sample_records)"
proof -
  have "length (em_characters (encode_files scalar_graphemes sample_value sample_characters sample_records)) = 4"
    using arg_cong [OF sample_blocks, of length] by (simp add: length_blocks encode_files_def Let_def)
  moreover have "length (encode_entry_shard sample_value sample_records [[], [], [1], [0, 2]]) < 2 ^ 32"
    by (simp add: encode_entry_shard_def encode_entry_block_def Let_def sample_records_def sample_record_def utf8_def utf8_char_def
        utf8_ints_def)
  ultimately show ?thesis by (simp add: fits_def sample_shards)
qed
theorem learning_files_round_trip_witness:
  "\<exists>rs'. fst (decode_directory \<lparr>io_files = sample_directory, io_faults = []\<rparr>) = Inr rs' \<and>
     mset rs' = mset (map (stored sample_value) sample_records)"
proof -
  let ?io = "\<lparr>io_files = sample_directory, io_faults = []\<rparr>"
  let ?files = "encode_files scalar_graphemes sample_value sample_characters sample_records"
  have "\<forall>b \<in> set (blocks_of scalar_graphemes sample_characters sample_records). length b \<le> 255" by (simp add: sample_blocks)
  moreover note sample_fits
  moreover have "published ?files (stored_file ?io)"
    by (simp add: published_def sample_directory_def Let_def sample_shards)
  ultimately obtain rs' where "decode_directory ?io = (Inr rs', ?io)" "mset rs' = mset (map (stored sample_value) sample_records)"
    using learning_files_round_trip [OF segments_text_scalar sample_proper, of sample_value ?io] by auto
  then show ?thesis by simp
qed



end
