(* ===== verification/Learning_Memory.thy ===== *)
theory Learning_Memory
  imports Learning_Disk
begin

text \<open>
  \<open>crates/converter/src/learning.rs\<close>, the learning memory: what was learned since the last commit (\<open>temporary\<close>) and
  what is on the disk (\<open>persisted\<close>), with an index of each, behind a lock. The clock is an argument of every operation.
  A poisoned lock needs a panic of another thread, which the model does not have.
\<close>

section \<open>The state\<close>

datatype LearningMode = InputAndOutput | OnlyOutput | Nothing

definition uses_memory :: "LearningMode \<Rightarrow> bool" where
  "uses_memory self \<longleftrightarrow> self \<noteq> Nothing"

definition updates_memory :: "LearningMode \<Rightarrow> bool" where
  "updates_memory self \<longleftrightarrow> self = InputAndOutput"

record LearningState =
  ls_characters :: CharacterIdMap
  ls_mode :: LearningMode
  ls_max_count :: nat
  ls_today :: "16 word"
  persisted_index :: MemoryLouds
  persisted :: "LearningRecord list"
  temporary_index :: MemoryTrie
  temporary :: "LearningRecord list"

text \<open>\<open>MemoryLouds::new\<close> never panics: \<open>new_louds_of\<close>.\<close>

abbreviation index_records :: "segmenter \<Rightarrow> CharacterIdMap \<Rightarrow> LearningRecord list \<Rightarrow> MemoryLouds" where
  "index_records graphemes characters rs \<equiv> the (new_louds graphemes characters rs)"

section \<open>Opening and the clock\<close>

text \<open>The directory exists: a failing \<open>create_dir_all\<close> is the first fault.\<close>

definition create_directory :: "unit action" where
  "create_directory io = (case next_fault io of (Works, io) \<Rightarrow> (Inr (), io) | (Breaks _, io) \<Rightarrow> (Inl (IoError []), io))"

definition open_memory :: "segmenter \<Rightarrow> LearningMode \<Rightarrow> nat \<Rightarrow> CharacterIdMap \<Rightarrow> 16 word \<Rightarrow> LearningState action" where
  "open_memory graphemes mode max_count characters today =
     and_with create_directory (\<lambda>_.
     and_with
       (if uses_memory mode then and_with recover_if_paused (\<lambda>_. decode_directory) else done_with []) (\<lambda>rs.
     let rs = (if uses_memory mode
               then decay today (filter (\<lambda>r. valid_learning_entry graphemes characters (lr_entry r)) rs) else rs)
     in done_with
          \<lparr>ls_characters = characters, ls_mode = mode, ls_max_count = max_count, ls_today = today,
           persisted_index = index_records graphemes characters rs, persisted = rs,
           temporary_index = empty_trie, temporary = []\<rparr>))"

definition refresh_day :: "segmenter \<Rightarrow> 16 word \<Rightarrow> LearningState \<Rightarrow> LearningState" where
  "refresh_day graphemes today s =
     (if ls_today s = today then s
      else
        (let p = decay today (persisted s); t = decay today (temporary s)
         in s\<lparr>persisted := p, temporary := t, persisted_index := index_records graphemes (ls_characters s) p,
              temporary_index := new_trie graphemes (ls_characters s) t, ls_today := today\<rparr>))"

section \<open>Looking up\<close>

definition learned_entries :: "valuation \<Rightarrow> LearningState \<Rightarrow> DictionaryEntry list" where
  "learned_entries learning_value s =
     (if \<not> uses_memory (ls_mode s) then []
      else deduplicate_entries (map (learned_entry learning_value) (persisted s @ temporary s)))"

text \<open>The loop over the graphemes; \<open>None\<close> is the early return of nothing.\<close>

fun query_ids :: "CharacterIdMap \<Rightarrow> MatchKind \<Rightarrow> grapheme list \<Rightarrow> byte list option" where
  "query_ids characters kind [] = Some []"
| "query_ids characters kind (g # gs) =
     (case characters g of
        Some i \<Rightarrow> map_option (\<lambda>is. i # is) (query_ids characters kind gs)
      | None \<Rightarrow> if kind = Prefixes then Some [] else None)"

definition lookup_entries :: "segmenter \<Rightarrow> valuation \<Rightarrow> ustr \<Rightarrow> MatchKind \<Rightarrow> nat \<Rightarrow> LearningState \<Rightarrow> DictionaryEntry list" where
  "lookup_entries graphemes learning_value text kind maximum_length s =
     (if \<not> uses_memory (ls_mode s) \<or> text = [] then []
      else
        (case query_ids (ls_characters s) kind (take maximum_length (graphemes text)) of
           None \<Rightarrow> []
         | Some ids \<Rightarrow>
             map (learned_entry learning_value)
               (map (\<lambda>i. persisted s ! i) (louds_lookup (persisted_index s) ids kind) @
                map (\<lambda>i. temporary s ! i) (trie_lookup (temporary_index s) ids kind))))"

definition exact_match :: "segmenter \<Rightarrow> valuation \<Rightarrow> ustr \<Rightarrow> LearningState \<Rightarrow> DictionaryEntry list" where
  "exact_match graphemes learning_value text s = lookup_entries graphemes learning_value text Exact (2 ^ 64 - 1) s"

definition matches_from_start :: "segmenter \<Rightarrow> valuation \<Rightarrow> ustr \<Rightarrow> nat \<Rightarrow> LearningState \<Rightarrow> DictionaryEntry list" where
  "matches_from_start graphemes learning_value text maximum_length s =
     lookup_entries graphemes learning_value text Prefixes maximum_length s"

definition predict :: "segmenter \<Rightarrow> valuation \<Rightarrow> ustr \<Rightarrow> LearningState \<Rightarrow> DictionaryEntry list" where
  "predict graphemes learning_value text s = lookup_entries graphemes learning_value text Completions (2 ^ 64 - 1) s"

section \<open>Learning\<close>

text \<open>\<open>memorize\<close>; a valid entry has identifiers.\<close>

definition memorize :: "segmenter \<Rightarrow> DictionaryEntry \<Rightarrow> LearningState \<Rightarrow> LearningState" where
  "memorize graphemes e s =
     (if \<not> valid_learning_entry graphemes (ls_characters s) e then s
      else
        (let ids = the (encode_ids graphemes (ls_characters s) (ruby e))
         in case find (\<lambda>i. same_entry (lr_entry (temporary s ! i)) e) (trie_lookup (temporary_index s) ids Exact) of
              Some i \<Rightarrow>
                s\<lparr>temporary := (temporary s)
                    [i := (temporary s ! i)\<lparr>lr_count := sat_add (lr_count (temporary s ! i)) 1, last_used_day := ls_today s, lr_entry := e\<rparr>]\<rparr>
            | None \<Rightarrow>
                s\<lparr>temporary_index := trie_insert ids (length (temporary s)) (temporary_index s),
                  temporary := temporary s @ [\<lparr>lr_entry = e, last_used_day = ls_today s, last_updated_day = ls_today s, lr_count = 1\<rparr>]\<rparr>))"

abbreviation memorize_all :: "segmenter \<Rightarrow> DictionaryEntry list \<Rightarrow> LearningState \<Rightarrow> LearningState" where
  "memorize_all graphemes es s \<equiv> fold (memorize graphemes) es s"

text \<open>The entries that an operation memorizes, in this order; no clause is empty (\<open>clauses_joined\<close>).\<close>

definition learned_from :: "DictionaryEntry list \<Rightarrow> DictionaryEntry list" where
  "learned_from es =
     filter learns_individual_word es @ map the (learned_clause_entries es) @
     (if length es > 1 then [the (join_entries es)] else [])"

definition learn :: "segmenter \<Rightarrow> Candidate \<Rightarrow> LearningState \<Rightarrow> LearningState" where
  "learn graphemes c s =
     (if \<not> updates_memory (ls_mode s) then s else memorize_all graphemes (learned_from (entries c)) s)"

datatype PostPredictionKind =
    Additional "DictionaryEntry list"
  | Replacement "DictionaryEntry list" "DictionaryEntry list"

fun prediction_update :: "Candidate \<Rightarrow> PostPredictionKind \<Rightarrow> DictionaryEntry list \<times> DictionaryEntry list" where
  "prediction_update c (Additional es) = (entries c, es)"
| "prediction_update c (Replacement target_entries replacement_entries) =
     (take (length (entries c) - length target_entries) (entries c), replacement_entries)"

definition learn_post_prediction :: "segmenter \<Rightarrow> Candidate \<Rightarrow> PostPredictionKind \<Rightarrow> LearningState \<Rightarrow> LearningState" where
  "learn_post_prediction graphemes c kind s =
     (if \<not> updates_memory (ls_mode s) then s
      else
        (case prediction_update c kind of
           (start, update) \<Rightarrow>
             (let all = start @ update
              in memorize_all graphemes
                   (filter learns_individual_word update @ map the (learned_clause_entries_after all (length start)) @
                    (if length all > 1 then [the (join_entries all)] else [])) s)))"

section \<open>Forgetting, committing and resetting\<close>

type_synonym 'a memory_action = "LearningState \<Rightarrow> Io \<Rightarrow> (LearningError + 'a) \<times> LearningState \<times> Io"

definition forget :: "segmenter \<Rightarrow> valuation \<Rightarrow> Candidate \<Rightarrow> unit memory_action" where
  "forget graphemes learning_value c s io =
     (if \<not> updates_memory (ls_mode s) then (Inr (), s, io)
      else
        (let temporary_targets = map (\<lambda>e. (ruby e, word e)) (entries c);
             persistent_targets = map word (entries c);
             t = filter (\<lambda>r. (ruby (lr_entry r), word (lr_entry r)) \<notin> set temporary_targets) (temporary s);
             s = s\<lparr>temporary := t, temporary_index := new_trie graphemes (ls_characters s) t\<rparr>
         in case save_records graphemes learning_value (ls_characters s) (ls_today s) (ls_max_count s)
                   (filter (\<lambda>r. word (lr_entry r) \<notin> set persistent_targets) (persisted s)) io of
              (Inl e, io) \<Rightarrow> (Inl e, s, io)
            | (Inr p, io) \<Rightarrow>
                (Inr (), s\<lparr>persisted_index := index_records graphemes (ls_characters s) p, persisted := p\<rparr>, io)))"

definition commit_memory :: "segmenter \<Rightarrow> valuation \<Rightarrow> bool memory_action" where
  "commit_memory graphemes learning_value s io =
     (if \<not> updates_memory (ls_mode s) \<or> temporary s = [] then (Inr False, s, io)
      else
        (case save_records graphemes learning_value (ls_characters s) (ls_today s) (ls_max_count s)
                (foldl merge_record (persisted s) (temporary s)) io of
           (Inl e, io) \<Rightarrow> (Inl e, s, io)
         | (Inr p, io) \<Rightarrow>
             (Inr True,
              s\<lparr>persisted_index := index_records graphemes (ls_characters s) p, persisted := p,
                temporary := [], temporary_index := empty_trie\<rparr>, io)))"

definition reset_memory :: "segmenter \<Rightarrow> unit memory_action" where
  "reset_memory graphemes s io =
     (let s = s\<lparr>persisted := [], persisted_index := index_records graphemes (ls_characters s) [],
                temporary := [], temporary_index := empty_trie\<rparr>
      in case and_with read_directory
                (\<lambda>names. for_each (\<lambda>n. if is_memory_file n then remove_file_if_present n else done_with ()) names) io of
           (result, io) \<Rightarrow> (result, s, io))"

section \<open>A reset that is interrupted\<close>

text \<open>
  \<open>reset\<close> removes the files in the order of the directory, without a pause file: when it ends after the topology and before
  the metadata, opening the memory fails from then on, until the files are removed by hand.
\<close>

lemma interrupted_reset_stops_opening:
  assumes "uses_memory mode"
  shows "\<exists>e s' io'.
    reset_memory graphemes s \<lparr>io_files = [(LOUDS_FILE, l), (METADATA_FILE, m)], io_faults = [Works, Works, Breaks None]\<rparr> = (Inl e, s', io') \<and>
    fst (open_memory graphemes mode max_count characters today (io'\<lparr>io_faults := []\<rparr>)) = Inl (IoError LOUDS_FILE)"
proof -
  have memory: "is_memory_file LOUDS_FILE" "is_memory_file METADATA_FILE"
    by (simp_all add: is_memory_file_def LOUDS_FILE_def METADATA_FILE_def ends_with_def ascii_def)
  have "reset_memory graphemes s \<lparr>io_files = [(LOUDS_FILE, l), (METADATA_FILE, m)], io_faults = [Works, Works, Breaks None]\<rparr> =
      (Inl (IoError METADATA_FILE),
       s\<lparr>persisted := [], persisted_index := index_records graphemes (ls_characters s) [], temporary := [], temporary_index := empty_trie\<rparr>,
       \<lparr>io_files = [(METADATA_FILE, m)], io_faults = []\<rparr>)"
    by (simp add: reset_memory_def Let_def and_with_def read_directory_def next_fault_def remove_file_if_present_def done_with_def memory)
  moreover have "fst (open_memory graphemes mode max_count characters today \<lparr>io_files = [(METADATA_FILE, m)], io_faults = []\<rparr>) =
      Inl (IoError LOUDS_FILE)"
    using assms
    by (simp add: open_memory_def and_with_def create_directory_def recover_if_paused_def path_exists_def decode_directory_def
        read_optional_def read_required_def)
  ultimately show ?thesis by simp
qed

end
