(* ===== verification/Learning_Invariant.thy ===== *)
theory Learning_Invariant
  imports Learning_Memory
begin

text \<open>What every operation of the learning memory keeps, and what follows for looking up, learning and forgetting.\<close>

section \<open>The invariant\<close>

definition entry_key :: "DictionaryEntry \<Rightarrow> ustr \<times> ustr \<times> 16 word \<times> 16 word" where
  "entry_key e = (ruby e, word e, left_id e, right_id e)"

lemma same_entry_key: "same_entry l r \<longleftrightarrow> entry_key l = entry_key r"
  by (auto simp: same_entry_def entry_key_def)

definition record_ok :: "segmenter \<Rightarrow> CharacterIdMap \<Rightarrow> 16 word \<Rightarrow> LearningRecord \<Rightarrow> bool" where
  "record_ok graphemes characters today r \<longleftrightarrow> fresh today r \<and> valid_learning_entry graphemes characters (lr_entry r)"

definition memory_ok :: "segmenter \<Rightarrow> LearningState \<Rightarrow> bool" where
  "memory_ok graphemes s \<longleftrightarrow>
     new_louds graphemes (ls_characters s) (persisted s) = Some (persisted_index s) \<and>
     temporary_index s = new_trie graphemes (ls_characters s) (temporary s) \<and>
     list_all (record_ok graphemes (ls_characters s) (ls_today s)) (persisted s) \<and>
     list_all (record_ok graphemes (ls_characters s) (ls_today s)) (temporary s) \<and>
     distinct (map (\<lambda>r. entry_key (lr_entry r)) (temporary s)) \<and>
     (\<not> uses_memory (ls_mode s) \<longrightarrow> persisted s = []) \<and> (\<not> updates_memory (ls_mode s) \<longrightarrow> temporary s = [])"

lemma decay_Nil [simp]: "decay today [] = []"
  by (simp add: decay_def List.map_filter_simps)

lemma new_trie_Nil: "new_trie graphemes characters [] = empty_trie"
  by (simp add: new_trie_def)

lemma new_trie_cong:
  "map (\<lambda>r. ruby (lr_entry r)) rs = map (\<lambda>r. ruby (lr_entry r)) rs' \<Longrightarrow>
   new_trie graphemes characters rs = new_trie graphemes characters rs'"
proof (induction rs arbitrary: rs' rule: rev_induct)
  case (snoc r rs)
  then obtain r' ss where rs': "rs' = ss @ [r']" "map (\<lambda>r. ruby (lr_entry r)) rs = map (\<lambda>r. ruby (lr_entry r)) ss" "ruby (lr_entry r) = ruby (lr_entry r')"
    by (cases rs' rule: rev_cases) auto
  have "length rs = length ss" using arg_cong [OF rs'(2), of length] by simp
  with snoc.IH [OF rs'(2)] rs'(3) show ?case by (simp add: rs'(1) new_trie_snoc reading_def split: option.split)
qed simp

lemma decay_map: "map lr_entry (decay today rs) = map lr_entry (filter (\<lambda>r. decay_record today r \<noteq> None) rs)"
  by (induction rs) (auto simp: decay_def List.map_filter_simps dest: decay_record_fresh split: option.split)

lemma distinct_decay:
  assumes "distinct (map (\<lambda>r. f (lr_entry r)) rs)"
  shows "distinct (map (\<lambda>r. f (lr_entry r)) (decay today rs))"
proof -
  have "map (\<lambda>r. f (lr_entry r)) (decay today rs) = map f (map lr_entry (decay today rs))" by simp
  also have "\<dots> = map (\<lambda>r. f (lr_entry r)) (filter (\<lambda>r. decay_record today r \<noteq> None) rs)" unfolding decay_map by simp
  finally show ?thesis using assms by (simp add: distinct_map_filter)
qed

lemma decay_ok:
  "list_all (\<lambda>r. valid_learning_entry graphemes characters (lr_entry r)) rs \<Longrightarrow>
   list_all (record_ok graphemes characters today) (decay today rs)"
  by (fastforce simp: list_all_iff record_ok_def intro: decay_fresh dest: decay_entries)

lemma ok_valid: "list_all (record_ok graphemes characters today) rs \<Longrightarrow> list_all (\<lambda>r. valid_learning_entry graphemes characters (lr_entry r)) rs"
  by (simp add: list_all_iff record_ok_def)

lemma kept_ok:
  "list_all (record_ok graphemes characters today) rs \<Longrightarrow> list_all (record_ok graphemes characters today) (kept_records today max_count rs)"
proof -
  assume ok: "list_all (record_ok graphemes characters today) rs"
  then have "decay today rs = rs" by (intro decay_id) (simp add: list_all_iff record_ok_def)
  with ok show ?thesis by (auto simp: kept_records_def list_all_iff dest: in_set_takeD)
qed

section \<open>Every operation keeps it\<close>

lemma and_with_Inr: "and_with m k io = (Inr v, io') \<longleftrightarrow> (\<exists>u io1. m io = (Inr u, io1) \<and> k u io1 = (Inr v, io'))"
  by (auto simp: and_with_def split: prod.split sum.split)

lemma open_ok:
  assumes "open_memory graphemes mode max_count characters today io = (Inr s, io')"
  shows "memory_ok graphemes s"
proof -
  let ?kept = "\<lambda>rs. if uses_memory mode then decay today (filter (\<lambda>r. valid_learning_entry graphemes characters (lr_entry r)) rs) else rs"
  let ?mk = "\<lambda>rs. \<lparr>ls_characters = characters, ls_mode = mode, ls_max_count = max_count, ls_today = today,
       persisted_index = index_records graphemes characters (?kept rs), persisted = ?kept rs,
       temporary_index = empty_trie, temporary = []\<rparr>"
  obtain rs io1 io2 where r: "(if uses_memory mode then and_with recover_if_paused (\<lambda>_. decode_directory) else done_with []) io1 = (Inr rs, io2)"
    and s: "done_with (?mk rs) io2 = (Inr s, io')"
    using assms unfolding open_memory_def and_with_Inr Let_def by blast
  have rs: "\<not> uses_memory mode \<Longrightarrow> rs = []" using r by (simp add: done_with_def)
  have s: "s = ?mk rs" using s by (simp only: done_with_def prod.inject sum.inject)
  have "list_all (record_ok graphemes characters today) (?kept rs)"
  proof (cases "uses_memory mode")
    case True
    have "list_all (\<lambda>r. valid_learning_entry graphemes characters (lr_entry r))
        (filter (\<lambda>r. valid_learning_entry graphemes characters (lr_entry r)) rs)" by (simp add: list_all_iff)
    from decay_ok [OF this] True show ?thesis by simp
  qed (simp add: rs)
  then show ?thesis unfolding memory_ok_def s by (simp add: new_louds_of new_trie_Nil rs)
qed

lemma refresh_ok: "memory_ok graphemes s \<Longrightarrow> memory_ok graphemes (refresh_day graphemes today s) \<and> ls_today (refresh_day graphemes today s) = today"
  by (auto simp: memory_ok_def refresh_day_def Let_def new_louds_of decay_ok ok_valid distinct_decay)

lemma sat_add_positive:
  fixes x y :: "'a::len word"
  shows "0 < x \<Longrightarrow> 0 < sat_add x y"
proof -
  assume "0 < x"
  then have "x + y \<noteq> 0" if "unat x + unat y < 2 ^ LENGTH('a)"
    using that by (metis add_is_0 mod_less unat_0 unat_eq_zero unat_word_ariths(1) word_gt_0)
  then show ?thesis by (simp add: sat_add_def word_gt_0)
qed

lemma memorize_ok:
  assumes ok: "memory_ok graphemes s" and mode: "updates_memory (ls_mode s)"
  shows "memory_ok graphemes (memorize graphemes e s)"
proof (cases "valid_learning_entry graphemes (ls_characters s) e")
  case True
  let ?t = "temporary s" and ?characters = "ls_characters s"
  obtain ids where ids: "encode_ids graphemes ?characters (ruby e) = Some ids" using True by (auto simp: valid_learning_entry_def)
  have index: "temporary_index s = new_trie graphemes ?characters ?t" using ok by (simp add: memory_ok_def)
  have hits: "trie_lookup (temporary_index s) ids Exact =
      filter (\<lambda>i. reading graphemes ?characters (?t ! i) = Some ids) [0..<length ?t]"
    unfolding index by (rule lookup_exact [OF new_trie_holds])
  show ?thesis
  proof (cases "find (\<lambda>i. same_entry (lr_entry (?t ! i)) e) (trie_lookup (temporary_index s) ids Exact)")
    case None
    let ?r = "\<lparr>lr_entry = e, last_used_day = ls_today s, last_updated_day = ls_today s, lr_count = 1\<rparr>"
    have new: "entry_key e \<notin> set (map (\<lambda>r. entry_key (lr_entry r)) ?t)"
    proof
      assume "entry_key e \<in> set (map (\<lambda>r. entry_key (lr_entry r)) ?t)"
      then obtain i where i: "i < length ?t" "entry_key (lr_entry (?t ! i)) = entry_key e" by (auto simp: in_set_conv_nth)
      then have "same_entry (lr_entry (?t ! i)) e" by (simp add: same_entry_key)
      moreover have "i \<in> set (trie_lookup (temporary_index s) ids Exact)"
        using i ids by (simp add: hits reading_def entry_key_def)
      ultimately show False using None by (auto simp: find_None_iff)
    qed
    have "memorize graphemes e s = s\<lparr>temporary_index := trie_insert ids (length ?t) (temporary_index s), temporary := ?t @ [?r]\<rparr>"
      using True ids None by (simp add: memorize_def)
    moreover have "record_ok graphemes ?characters (ls_today s) ?r" using True by (simp add: record_ok_def fresh_def)
    ultimately show ?thesis
      using ok mode new ids by (simp add: memory_ok_def new_trie_snoc reading_def)
  next
    case (Some i)
    let ?r = "(?t ! i)\<lparr>lr_count := sat_add (lr_count (?t ! i)) 1, last_used_day := ls_today s, lr_entry := e\<rparr>"
    have i: "i < length ?t" "same_entry (lr_entry (?t ! i)) e"
      using Some by (auto simp: find_Some_iff hits dest!: nth_mem)
    have key: "entry_key (lr_entry (?t ! i)) = entry_key e" using i(2) by (simp add: same_entry_key)
    have m: "memorize graphemes e s = s\<lparr>temporary := ?t[i := ?r]\<rparr>" using True ids Some by (simp add: memorize_def)
    have keys: "map (\<lambda>r. entry_key (lr_entry r)) (?t[i := ?r]) = map (\<lambda>r. entry_key (lr_entry r)) ?t"
      using i(1) key by (simp add: map_update list_update_same_conv)
    have "map (\<lambda>r. ruby (lr_entry r)) (?t[i := ?r]) = map (\<lambda>r. ruby (lr_entry r)) ?t"
      using i by (simp add: map_update list_update_same_conv same_entry_def)
    then have "new_trie graphemes ?characters (?t[i := ?r]) = new_trie graphemes ?characters ?t" by (rule new_trie_cong)
    moreover have "record_ok graphemes ?characters (ls_today s) (?t ! i)" using ok i(1) by (simp add: memory_ok_def list_all_length)
    then have "record_ok graphemes ?characters (ls_today s) ?r"
      using True by (auto simp: record_ok_def fresh_def sat_add_positive)
    then have "list_all (record_ok graphemes ?characters (ls_today s)) (?t[i := ?r])"
      using ok by (auto simp: memory_ok_def list_all_iff dest!: set_update_subset_insert [THEN subsetD])
    ultimately show ?thesis using ok keys by (simp add: memory_ok_def m)
  qed
qed (use ok in \<open>simp add: memorize_def\<close>)

lemma memorize_same [simp]:
  "ls_characters (memorize graphemes e s) = ls_characters s" "ls_mode (memorize graphemes e s) = ls_mode s"
  "ls_today (memorize graphemes e s) = ls_today s" "persisted (memorize graphemes e s) = persisted s"
  "ls_max_count (memorize graphemes e s) = ls_max_count s"
  by (simp_all add: memorize_def Let_def split: option.split)

lemma memorize_all_same:
  "ls_characters (memorize_all graphemes es s) = ls_characters s" "ls_mode (memorize_all graphemes es s) = ls_mode s"
  "ls_today (memorize_all graphemes es s) = ls_today s" "persisted (memorize_all graphemes es s) = persisted s"
  by (induction es arbitrary: s) simp_all

lemma memorize_all_ok: "memory_ok graphemes s \<Longrightarrow> updates_memory (ls_mode s) \<Longrightarrow> memory_ok graphemes (memorize_all graphemes es s)"
  by (induction es arbitrary: s) (simp_all add: memorize_ok)

lemma learn_ok: "memory_ok graphemes s \<Longrightarrow> memory_ok graphemes (learn graphemes c s)"
  by (simp add: learn_def memorize_all_ok)

lemma learn_post_prediction_ok: "memory_ok graphemes s \<Longrightarrow> memory_ok graphemes (learn_post_prediction graphemes c kind s)"
  by (simp add: learn_post_prediction_def memorize_all_ok memorize_ok memorize_all_same Let_def split: prod.split)

lemma save_result:
  assumes "save_records graphemes learning_value characters today max_count rs io = (Inr p, io')"
  shows "p = kept_records today max_count rs"
  using assms by (auto simp: save_records_def Let_def and_with_Inr done_with_def)

lemma forget_ok:
  assumes "memory_ok graphemes s" and "forget graphemes learning_value c s io = (result, s', io')"
  shows "memory_ok graphemes s'"
proof (cases "updates_memory (ls_mode s)")
  case True
  let ?t = "filter (\<lambda>r. (ruby (lr_entry r), word (lr_entry r)) \<notin> set (map (\<lambda>e. (ruby e, word e)) (entries c))) (temporary s)"
  let ?s = "s\<lparr>temporary := ?t, temporary_index := new_trie graphemes (ls_characters s) ?t\<rparr>"
  let ?rest = "filter (\<lambda>r. word (lr_entry r) \<notin> set (map word (entries c))) (persisted s)"
  have s: "memory_ok graphemes ?s" using assms(1) by (auto simp: memory_ok_def list_all_iff distinct_map_filter)
  obtain saved_result io1 where r: "save_records graphemes learning_value (ls_characters s) (ls_today s) (ls_max_count s) ?rest io = (saved_result, io1)"
    by force
  show ?thesis
  proof (cases saved_result)
    case (Inl e)
    with assms(2) True r s show ?thesis by (simp add: forget_def Let_def)
  next
    case (Inr p)
    have "list_all (record_ok graphemes (ls_characters s) (ls_today s)) ?rest" using assms(1) by (auto simp: memory_ok_def list_all_iff)
    then have "list_all (record_ok graphemes (ls_characters s) (ls_today s)) p"
      using kept_ok save_result [OF r [unfolded Inr]] by blast
    moreover have "s' = ?s\<lparr>persisted_index := index_records graphemes (ls_characters s) p, persisted := p\<rparr>"
      using assms(2) True r Inr by (simp add: forget_def Let_def)
    ultimately show ?thesis using s True by (simp add: memory_ok_def new_louds_of uses_memory_def updates_memory_def)
  qed
next
  case False
  with assms show ?thesis by (simp add: forget_def)
qed

lemma merge_record_ok:
  "list_all (record_ok graphemes characters today) rs \<Longrightarrow> record_ok graphemes characters today r \<Longrightarrow>
   list_all (record_ok graphemes characters today) (merge_record rs r)"
  by (induction rs r rule: merge_record.induct) (auto simp: record_ok_def fresh_def sat_add_positive max_def)

lemma merge_records_ok:
  "list_all (record_ok graphemes characters today) rs \<Longrightarrow> list_all (record_ok graphemes characters today) ts \<Longrightarrow>
   list_all (record_ok graphemes characters today) (foldl merge_record rs ts)"
  by (induction ts arbitrary: rs) (simp_all add: merge_record_ok)

lemma commit_ok:
  assumes "memory_ok graphemes s" and "commit_memory graphemes learning_value s io = (result, s', io')"
  shows "memory_ok graphemes s'"
proof (cases "updates_memory (ls_mode s) \<and> temporary s \<noteq> []")
  case True
  let ?merged = "foldl merge_record (persisted s) (temporary s)"
  obtain saved_result io1 where r: "save_records graphemes learning_value (ls_characters s) (ls_today s) (ls_max_count s) ?merged io = (saved_result, io1)"
    by force
  show ?thesis
  proof (cases saved_result)
    case (Inl e)
    with assms True r show ?thesis by (simp add: commit_memory_def)
  next
    case (Inr p)
    have "list_all (record_ok graphemes (ls_characters s) (ls_today s)) ?merged"
      using assms(1) by (intro merge_records_ok) (simp_all add: memory_ok_def)
    then have "list_all (record_ok graphemes (ls_characters s) (ls_today s)) p"
      using kept_ok save_result [OF r [unfolded Inr]] by blast
    moreover have "s' = s\<lparr>persisted_index := index_records graphemes (ls_characters s) p, persisted := p, temporary := [],
        temporary_index := empty_trie\<rparr>"
      using assms(2) True r Inr by (simp add: commit_memory_def)
    ultimately show ?thesis using True by (simp add: memory_ok_def new_louds_of new_trie_Nil uses_memory_def updates_memory_def)
  qed
next
  case False
  with assms show ?thesis by (auto simp: commit_memory_def)
qed

lemma reset_ok: "reset_memory graphemes s io = (result, s', io') \<Longrightarrow> memory_ok graphemes s'"
  by (auto simp: reset_memory_def Let_def memory_ok_def new_louds_of new_trie_Nil split: prod.splits)

section \<open>Reachable states\<close>

text \<open>The memory after any operations, on any days, whatever files break; every operation first takes the day from the clock.\<close>

inductive memory_reached :: "segmenter \<Rightarrow> valuation \<Rightarrow> LearningState \<Rightarrow> Io \<Rightarrow> bool"
  for graphemes :: segmenter and learning_value :: valuation where
  opened: "open_memory graphemes mode max_count characters today io = (Inr s, io') \<Longrightarrow> memory_reached graphemes learning_value s io'"
| asked: "memory_reached graphemes learning_value s io \<Longrightarrow> memory_reached graphemes learning_value (refresh_day graphemes today s) io"
| learned: "memory_reached graphemes learning_value s io \<Longrightarrow>
    memory_reached graphemes learning_value (learn graphemes c (refresh_day graphemes today s)) io"
| predicted: "memory_reached graphemes learning_value s io \<Longrightarrow>
    memory_reached graphemes learning_value (learn_post_prediction graphemes c kind (refresh_day graphemes today s)) io"
| forgotten: "memory_reached graphemes learning_value s io \<Longrightarrow>
    forget graphemes learning_value c (refresh_day graphemes today s) io = (result, s', io') \<Longrightarrow>
    memory_reached graphemes learning_value s' io'"
| committed: "memory_reached graphemes learning_value s io \<Longrightarrow>
    commit_memory graphemes learning_value (refresh_day graphemes today s) io = (outcome, s', io') \<Longrightarrow>
    memory_reached graphemes learning_value s' io'"
| cleared: "memory_reached graphemes learning_value s io \<Longrightarrow>
    reset_memory graphemes (refresh_day graphemes today s) io = (result, s', io') \<Longrightarrow>
    memory_reached graphemes learning_value s' io'"

lemma reached_ok: "memory_reached graphemes learning_value s io \<Longrightarrow> memory_ok graphemes s"
proof (induction rule: memory_reached.induct)
  case (opened mode max_count characters today io s io')
  then show ?case by (rule open_ok)
next
  case (forgotten s io c today result s' io')
  then show ?case using forget_ok refresh_ok by blast
next
  case (committed s io today result s' io')
  then show ?case using commit_ok refresh_ok by blast
next
  case (cleared s io today result s' io')
  then show ?case using reset_ok by blast
qed (simp_all add: refresh_ok learn_ok learn_post_prediction_ok)

section \<open>What looking up finds\<close>

lemma query_exact: "query_ids characters Exact gs = those (map characters gs)"
  by (induction gs) (simp_all split: option.split)

lemma query_prefixes:
  "query_ids characters Prefixes gs = Some (map (\<lambda>g. the (characters g)) (takeWhile (\<lambda>g. characters g \<noteq> None) gs))"
  by (induction gs) (auto split: option.split)

lemma those_map_Some: "those (map f xs) = Some ys \<longleftrightarrow> ys = map (\<lambda>x. the (f x)) xs \<and> (\<forall>x \<in> set xs. f x \<noteq> None)"
  by (induction xs arbitrary: ys) (auto split: option.splits)

text \<open>A reading is the text exactly when it has the text's identifiers.\<close>

lemma reading_is_text:
  assumes "segments_text graphemes" and "proper_characters characters" and "valid_learning_entry graphemes characters (lr_entry r)"
    and "those (map characters (graphemes t)) = Some ids"
  shows "reading graphemes characters r = Some ids \<longleftrightarrow> ruby (lr_entry r) = t"
  using assms encode_ids_inj [OF assms(1,2)] by (auto simp: reading_def encode_ids_def)

lemma exact_match_records:
  assumes "segments_text graphemes" and "proper_characters (ls_characters s)" and "memory_ok graphemes s"
    and "uses_memory (ls_mode s)" and "length (graphemes t) < 2 ^ 64" and "t \<noteq> []"
  shows "exact_match graphemes learning_value t s =
    map (learned_entry learning_value) (filter (\<lambda>r. ruby (lr_entry r) = t) (persisted s @ temporary s))"
proof -
  let ?cs = "ls_characters s"
  have q: "query_ids ?cs Exact (take (2 ^ 64 - 1) (graphemes t)) = those (map ?cs (graphemes t))"
    using assms(5) by (simp add: query_exact)
  have valid: "\<forall>r \<in> set (persisted s @ temporary s). valid_learning_entry graphemes ?cs (lr_entry r)"
    using assms(3) by (auto simp: memory_ok_def list_all_iff record_ok_def)
  show ?thesis
  proof (cases "those (map ?cs (graphemes t))")
    case None
    have "ruby (lr_entry r) \<noteq> t" if "r \<in> set (persisted s @ temporary s)" for r
    proof -
      have "encode_ids graphemes ?cs (ruby (lr_entry r)) \<noteq> None" using valid that by (simp add: valid_learning_entry_def)
      with None show ?thesis unfolding encode_ids_def by metis
    qed
    then have "filter (\<lambda>r. ruby (lr_entry r) = t) (persisted s @ temporary s) = []" by (auto simp: filter_empty_conv)
    with None q show ?thesis by (simp add: exact_match_def lookup_entries_def)
  next
    case (Some ids)
    have "graphemes t \<noteq> []" using assms(1,6) unfolding segments_text_def by (metis concat.simps(1))
    with Some have ids: "ids \<noteq> []" by (auto simp: those_map_Some)
    have p: "new_louds graphemes ?cs (persisted s) = Some (persisted_index s)" "temporary_index s = new_trie graphemes ?cs (temporary s)"
      using assms(3) by (simp_all add: memory_ok_def)
    have "filter (\<lambda>r. reading graphemes ?cs r = Some ids) rs = filter (\<lambda>r. ruby (lr_entry r) = t) rs"
      if "set rs \<subseteq> set (persisted s @ temporary s)" for rs
      using that valid reading_is_text [OF assms(1,2) _ Some] by (intro filter_cong) auto
    from this [of "persisted s"] this [of "temporary s"] show ?thesis
      using assms(4,6) q Some louds_index.exact_records [OF ids, of "persisted s" graphemes ?cs]
        trie_index.exact_records [OF ids, of "temporary s" graphemes ?cs]
      by (simp add: exact_match_def lookup_entries_def p del: map_map)
  qed
qed

end
