(* ===== verification/Learning_Properties.thy ===== *)
theory Learning_Properties
  imports Learning_Invariant
begin

text \<open>What the learning memory promises: exact answers, learning, forgetting, and that a commit survives the program.\<close>

section \<open>Prefixes\<close>

lemma valid_known:
  assumes "valid_learning_entry graphemes characters e"
  shows "\<forall>g \<in> set (graphemes (ruby e)). characters g \<noteq> None"
    and "encode_ids graphemes characters (ruby e) = Some (map (\<lambda>g. the (characters g)) (graphemes (ruby e)))"
proof -
  obtain ids where "those (map characters (graphemes (ruby e))) = Some ids"
    using assms by (auto simp: valid_learning_entry_def encode_ids_def)
  then show "\<forall>g \<in> set (graphemes (ruby e)). characters g \<noteq> None"
    "encode_ids graphemes characters (ruby e) = Some (map (\<lambda>g. the (characters g)) (graphemes (ruby e)))"
    by (simp_all add: those_map_Some encode_ids_def)
qed

lemma prefix_takeWhile: "\<forall>x \<in> set xs. P x \<Longrightarrow> prefix xs (takeWhile P ys) \<longleftrightarrow> prefix xs ys"
proof (induction xs arbitrary: ys)
  case (Cons x xs)
  then show ?case by (cases ys) auto
qed simp

lemma prefix_map_inj:
  "inj_on f A \<Longrightarrow> set xs \<subseteq> A \<Longrightarrow> set ys \<subseteq> A \<Longrightarrow> prefix (map f xs) (map f ys) \<longleftrightarrow> prefix xs ys"
proof (induction xs arbitrary: ys)
  case (Cons x xs)
  then show ?case by (cases ys) (auto simp: inj_on_def)
qed simp

lemma proper_inj: "proper_characters characters \<Longrightarrow> inj_on (\<lambda>g. the (characters g)) {g. characters g \<noteq> None}"
  unfolding proper_characters_def inj_on_def dom_def by fastforce

lemma matches_from_start_records:
  assumes "segments_text graphemes" and "proper_characters (ls_characters s)" and "memory_ok graphemes s"
    and "uses_memory (ls_mode s)" and "t \<noteq> []"
  shows "matches_from_start graphemes learning_value t maximum_length s =
    map (learned_entry learning_value)
      (filter (\<lambda>r. prefix (graphemes (ruby (lr_entry r))) (take maximum_length (graphemes t))) (persisted s @ temporary s))"
proof -
  let ?cs = "ls_characters s" and ?gs = "take maximum_length (graphemes t)"
  let ?known = "takeWhile (\<lambda>g. ?cs g \<noteq> None) ?gs"
  let ?ids = "map (\<lambda>g. the (?cs g)) ?known"
  have p: "new_louds graphemes ?cs (persisted s) = Some (persisted_index s)" "temporary_index s = new_trie graphemes ?cs (temporary s)"
    using assms(3) by (simp_all add: memory_ok_def)
  have same: "(\<exists>p. reading graphemes ?cs r = Some p \<and> p \<noteq> [] \<and> prefix p ?ids) \<longleftrightarrow> prefix (graphemes (ruby (lr_entry r))) ?gs"
    if "r \<in> set (persisted s @ temporary s)" for r
  proof -
    have v: "valid_learning_entry graphemes ?cs (lr_entry r)"
      using assms(3) that by (auto simp: memory_ok_def list_all_iff record_ok_def)
    let ?rs = "graphemes (ruby (lr_entry r))"
    have "?rs \<noteq> []" using v assms(1) unfolding valid_learning_entry_def segments_text_def by (metis concat.simps(1))
    moreover have "set ?rs \<subseteq> {g. ?cs g \<noteq> None}" using valid_known(1) [OF v] by auto
    then have "prefix (map (\<lambda>g. the (?cs g)) ?rs) ?ids \<longleftrightarrow> prefix ?rs ?known"
      by (intro prefix_map_inj [OF proper_inj [OF assms(2)]]) (auto dest: set_takeWhileD)
    moreover have "prefix ?rs ?known \<longleftrightarrow> prefix ?rs ?gs" by (rule prefix_takeWhile) (use valid_known(1) [OF v] in blast)
    ultimately show ?thesis by (simp add: reading_def valid_known(2) [OF v])
  qed
  have f: "filter (\<lambda>r. \<exists>p. reading graphemes ?cs r = Some p \<and> p \<noteq> [] \<and> prefix p ?ids) rs =
      filter (\<lambda>r. prefix (graphemes (ruby (lr_entry r))) ?gs) rs" if "set rs \<subseteq> set (persisted s @ temporary s)" for rs
    using that same by (intro filter_cong) auto
  have "matches_from_start graphemes learning_value t maximum_length s =
      map (learned_entry learning_value)
        (map (\<lambda>i. persisted s ! i) (louds_lookup (persisted_index s) ?ids Prefixes) @
         map (\<lambda>i. temporary s ! i) (trie_lookup (temporary_index s) ?ids Prefixes))"
    using assms(4,5) by (simp add: matches_from_start_def lookup_entries_def query_prefixes)
  then show ?thesis
    using f [of "persisted s"] f [of "temporary s"] louds_index.prefix_records [of "persisted s" graphemes ?cs ?ids]
      trie_index.prefix_records [of "temporary s" graphemes ?cs ?ids] p by (simp del: map_map)
qed

section \<open>Learning\<close>

definition learned_key :: "DictionaryEntry \<Rightarrow> LearningState \<Rightarrow> bool" where
  "learned_key e s \<longleftrightarrow> entry_key e \<in> set (map (\<lambda>r. entry_key (lr_entry r)) (temporary s))"

lemma memorize_keys:
  assumes "memory_ok graphemes s" and "updates_memory (ls_mode s)"
  shows "learned_key k s \<Longrightarrow> learned_key k (memorize graphemes e s)"
    and "valid_learning_entry graphemes (ls_characters s) e \<Longrightarrow> learned_key e (memorize graphemes e s)"
proof -
  let ?keys = "\<lambda>s. map (\<lambda>r. entry_key (lr_entry r)) (temporary s)"
  have "set (?keys (memorize graphemes e s)) =
      (if valid_learning_entry graphemes (ls_characters s) e then insert (entry_key e) (set (?keys s)) else set (?keys s))"
  proof (cases "valid_learning_entry graphemes (ls_characters s) e")
    case True
    then obtain ids where ids: "encode_ids graphemes (ls_characters s) (ruby e) = Some ids" by (auto simp: valid_learning_entry_def)
    have index: "temporary_index s = new_trie graphemes (ls_characters s) (temporary s)" using assms(1) by (simp add: memory_ok_def)
    have hits: "trie_lookup (temporary_index s) ids Exact =
        filter (\<lambda>i. reading graphemes (ls_characters s) (temporary s ! i) = Some ids) [0..<length (temporary s)]"
      unfolding index by (rule lookup_exact [OF new_trie_holds])
    show ?thesis
    proof (cases "find (\<lambda>i. same_entry (lr_entry (temporary s ! i)) e) (trie_lookup (temporary_index s) ids Exact)")
      case (Some i)
      then have i: "i < length (temporary s)" "same_entry (lr_entry (temporary s ! i)) e"
        by (auto simp: find_Some_iff hits dest!: nth_mem)
      then have key: "?keys s ! i = entry_key e" by (simp add: same_entry_key)
      have "?keys (memorize graphemes e s) = (?keys s)[i := entry_key e]"
        using True ids Some by (simp add: memorize_def map_update)
      also have "\<dots> = ?keys s" using key list_update_id [of "?keys s" i] by simp
      finally show ?thesis using key i(1) True by (metis insert_absorb length_map nth_mem)
    qed (simp add: memorize_def True ids)
  qed (simp add: memorize_def)
  then show "learned_key k s \<Longrightarrow> learned_key k (memorize graphemes e s)"
    "valid_learning_entry graphemes (ls_characters s) e \<Longrightarrow> learned_key e (memorize graphemes e s)"
    by (auto simp: learned_key_def)
qed

lemma memorize_all_keys:
  "memory_ok graphemes s \<Longrightarrow> updates_memory (ls_mode s) \<Longrightarrow>
   learned_key k s \<or> (\<exists>e \<in> set es. entry_key e = entry_key k \<and> valid_learning_entry graphemes (ls_characters s) e) \<Longrightarrow>
   learned_key k (memorize_all graphemes es s)"
proof (induction es arbitrary: s)
  case (Cons e es)
  have "learned_key k (memorize graphemes e s) \<or>
      (\<exists>e' \<in> set es. entry_key e' = entry_key k \<and> valid_learning_entry graphemes (ls_characters (memorize graphemes e s)) e')"
  proof -
    from Cons.prems(3) consider "learned_key k s"
      | "entry_key e = entry_key k" "valid_learning_entry graphemes (ls_characters s) e"
      | "\<exists>e' \<in> set es. entry_key e' = entry_key k \<and> valid_learning_entry graphemes (ls_characters s) e'"
      by auto
    then show ?thesis
    proof cases
      case 2
      with memorize_keys(2) [OF Cons.prems(1,2) 2(2)] show ?thesis by (simp add: learned_key_def)
    qed (use memorize_keys(1) [OF Cons.prems(1,2)] in simp_all)
  qed
  with Cons.IH [of "memorize graphemes e s"] Cons.prems(1,2) show ?case by (simp add: memorize_ok)
qed simp

section \<open>Clauses\<close>

definition ranges_ok :: "nat \<Rightarrow> (nat \<times> nat) list \<Rightarrow> bool" where
  "ranges_ok index ranges \<longleftrightarrow> (\<forall>(a, b) \<in> set ranges. a < b \<and> b \<le> index) \<and> sorted (map fst ranges)"

lemma clause_ranges_ok:
  "ranges_ok index ranges \<Longrightarrow> (previous = None \<longleftrightarrow> ranges = []) \<Longrightarrow>
   ranges_ok (index + length es) (clause_ranges_from index previous ranges es)"
proof (induction index previous ranges es rule: clause_ranges_from.induct)
  case (2 index previous ranges e es)
  show ?case
  proof (cases "case previous of None \<Rightarrow> True | Some p \<Rightarrow> is_clause (unat (right_id p)) (unat (left_id e))")
    case True
    have "ranges_ok (Suc index) (ranges @ [(index, index + 1)])"
      using 2(3) by (fastforce simp: ranges_ok_def sorted_append)
    with 2(1) [OF True] True show ?thesis by simp
  next
    case False
    then have "ranges \<noteq> []" using 2(4) by (auto split: option.splits)
    then have split: "ranges = butlast ranges @ [(fst (last ranges), snd (last ranges))]" by simp
    have "ranges_ok index (butlast ranges @ [(fst (last ranges), snd (last ranges))])" using 2(3) split by simp
    then have "ranges_ok (Suc index) (butlast ranges @ [(fst (last ranges), index + 1)])"
      by (fastforce simp: ranges_ok_def sorted_append)
    with 2(2) [OF False] False show ?thesis by simp
  qed
qed simp

lemma adjacent_ranges:
  assumes "(p, q) \<in> set (adjacent (learned_clause_ranges es))"
  shows "fst p < snd q \<and> fst p < length es"
proof -
  let ?rs = "learned_clause_ranges es"
  have ok: "ranges_ok (length es) ?rs"
    using clause_ranges_ok [of 0 "[]" None es] by (simp add: learned_clause_ranges_def ranges_ok_def)
  obtain k where "k < length ?rs - 1" and pq: "p = ?rs ! k" "q = ?rs ! Suc k"
    using assms by (auto simp: adjacent_def in_set_zip nth_tl)
  then have k: "Suc k < length ?rs" "p = ?rs ! k" "q = ?rs ! Suc k" by simp_all
  then have "fst p \<le> fst q" using ok sorted_nth_mono [of "map fst ?rs" k "Suc k"] by (simp add: ranges_ok_def)
  moreover have "fst q < snd q" "snd q \<le> length es" using ok k(1,3) nth_mem [OF k(1)] by (auto simp: ranges_ok_def split_beta)
  ultimately show ?thesis by simp
qed

text \<open>The slices of neighbouring clauses are not empty, so \<open>join_entries\<close> does not panic.\<close>

lemma clauses_joined:
  "None \<notin> set (learned_clause_entries es)" "None \<notin> set (learned_clause_entries_after es start)"
  by (auto simp: learned_clause_entries_def learned_clause_entries_after_def join_entries_def dest!: adjacent_ranges split: if_splits)

section \<open>Committing\<close>

lemma merge_record_keys:
  "set (map (\<lambda>r. entry_key (lr_entry r)) (merge_record rs r)) = insert (entry_key (lr_entry r)) (set (map (\<lambda>r. entry_key (lr_entry r)) rs))"
  by (induction rs r rule: merge_record.induct) (auto simp: same_entry_key)

lemma merge_records_keys:
  "set (map (\<lambda>r. entry_key (lr_entry r)) (foldl merge_record rs ts)) =
   set (map (\<lambda>r. entry_key (lr_entry r)) (rs @ ts))"
  by (induction ts arbitrary: rs) (simp_all add: merge_record_keys [simplified])

lemma merge_records_length: "length (foldl merge_record rs ts) \<le> length rs + length ts"
proof (induction ts arbitrary: rs)
  case (Cons t ts)
  have "length (merge_record rs t) \<le> Suc (length rs)" by (induction rs t rule: merge_record.induct) simp_all
  with Cons [of "merge_record rs t"] show ?case by simp
qed simp

lemma stored_ok: "record_ok graphemes characters today r \<Longrightarrow> record_ok graphemes characters today (stored learning_value r)"
  by (auto simp: record_ok_def fresh_def stored_def valid_learning_entry_def)

lemma in_saved: "r \<in> set (saved graphemes learning_value characters rs) \<Longrightarrow> \<exists>r0 \<in> set rs. r = stored learning_value r0"
  using block_one_reading by (fastforce simp: saved_def dest: in_set_takeD)

lemma reopened:
  assumes "uses_memory mode" and "io_faults io = []" and "stored_file io PAUSE_FILE = None"
    and "decode_directory io = (Inr rs, io)" and "list_all (record_ok graphemes characters today) rs"
  shows "\<exists>s. open_memory graphemes mode max_count characters today io = (Inr s, io) \<and> persisted s = rs \<and> temporary s = []"
proof -
  have "filter (\<lambda>r. valid_learning_entry graphemes characters (lr_entry r)) rs = rs"
    using assms(5) by (intro filter_True) (simp add: list_all_iff record_ok_def)
  moreover have "decay today rs = rs" using assms(5) by (intro decay_id) (simp add: list_all_iff record_ok_def)
  moreover have "recover_if_paused io = (Inr (), io)" using assms(2,3) by (simp add: recover_if_paused_def path_exists_def)
  ultimately show ?thesis
    using assms(1,2,4) by (simp add: open_memory_def and_with_def create_directory_def done_with_def Let_def)
qed

lemma commit_reopen:
  assumes ok: "memory_ok graphemes s" and g: "segments_text graphemes" and c: "proper_characters (ls_characters s)"
    and scalar: "\<forall>r \<in> set (persisted s @ temporary s). list_all is_scalar (word (lr_entry r)) \<and> list_all is_scalar (ruby (lr_entry r))"
    and pause: "stored_file io PAUSE_FILE = None"
    and commit: "commit_memory graphemes learning_value s io = (Inr True, s', io')"
    and fit: "fits (encode_files graphemes learning_value (ls_characters s) (persisted s'))"
    and few: "\<forall>b \<in> set (blocks_of graphemes (ls_characters s) (persisted s')). length b \<le> 255"
    and room: "length (persisted s) + length (temporary s) \<le> ls_max_count s"
  shows "\<exists>s'' io''. open_memory graphemes (ls_mode s) (ls_max_count s) (ls_characters s) (ls_today s) (io'\<lparr>io_faults := []\<rparr>) = (Inr s'', io'') \<and>
    temporary s'' = [] \<and> mset (persisted s'') = mset (map (stored learning_value) (foldl merge_record (persisted s) (temporary s)))"
proof -
  let ?merged = "foldl merge_record (persisted s) (temporary s)" and ?cs = "ls_characters s"
  have mode: "uses_memory (ls_mode s)" and "updates_memory (ls_mode s)" "temporary s \<noteq> []"
    using commit by (auto simp: commit_memory_def uses_memory_def updates_memory_def split: if_splits)
  with commit obtain p where
    p: "save_records graphemes learning_value ?cs (ls_today s) (ls_max_count s) ?merged io = (Inr p, io')" and s': "persisted s' = p"
    by (auto simp: commit_memory_def split: prod.splits sum.splits)
  have merged_ok: "list_all (record_ok graphemes ?cs (ls_today s)) ?merged"
    using ok by (intro merge_records_ok) (simp_all add: memory_ok_def)
  have kept: "p = kept_records (ls_today s) (ls_max_count s) ?merged" by (rule save_result [OF p])
  have p_ok: "list_all (record_ok graphemes ?cs (ls_today s)) p" unfolding kept by (rule kept_ok [OF merged_ok])
  have "decay (ls_today s) ?merged = ?merged" using merged_ok by (intro decay_id) (simp add: list_all_iff record_ok_def)
  then have m: "mset p = mset ?merged"
    using room merge_records_length [of "persisted s" "temporary s"] by (simp add: kept kept_records_def)
  have proper: "list_all (proper_record graphemes ?cs) p"
  proof -
    have "list_all is_scalar (word (lr_entry r)) \<and> list_all is_scalar (ruby (lr_entry r))" if "r \<in> set p" for r
    proof -
      have "r \<in> set ?merged" using that mset_eq_setD [OF m] by simp
      then have "entry_key (lr_entry r) \<in> set (map (\<lambda>r. entry_key (lr_entry r)) (persisted s @ temporary s))"
        using merge_records_keys [of "persisted s" "temporary s"] by auto
      then obtain r0 where "r0 \<in> set (persisted s @ temporary s)" "entry_key (lr_entry r) = entry_key (lr_entry r0)" by auto
      with scalar show ?thesis by (simp add: entry_key_def)
    qed
    with p_ok show ?thesis by (simp add: list_all_iff proper_record_def record_ok_def)
  qed
  let ?io = "io'\<lparr>io_faults := []\<rparr>"
  have "published (encode_files graphemes learning_value ?cs p) (stored_file io') \<and> stored_file io' PAUSE_FILE = None"
    using leaves_save_files [OF pause, of "encode_files graphemes learning_value ?cs p"] p
    by (auto simp: save_records_def Let_def kept [symmetric] and_with_Inr done_with_def leaves_def)
  then have d: "decode_directory ?io = (Inr (saved graphemes learning_value ?cs p), ?io)"
    using fit by (intro decode_published [OF g c proper]) (simp_all add: s')
  have "list_all (record_ok graphemes ?cs (ls_today s)) (saved graphemes learning_value ?cs p)"
    using p_ok in_saved stored_ok by (fastforce simp: list_all_iff)
  from reopened [OF mode _ _ d this, of "ls_max_count s"]
  obtain s'' where "open_memory graphemes (ls_mode s) (ls_max_count s) ?cs (ls_today s) ?io = (Inr s'', ?io)"
    "persisted s'' = saved graphemes learning_value ?cs p" "temporary s'' = []"
    using \<open>published _ _ \<and> _\<close> by auto
  moreover have "mset (saved graphemes learning_value ?cs p) = mset (map (stored learning_value) ?merged)"
    using mset_saved [OF g proper few [unfolded s']] m by simp
  ultimately show ?thesis by auto
qed

section \<open>Properties\<close>

text \<open>
  C20. The learning memory is consistent in every state that openings, questions, learning, forgetting, commits and resets
  reach, on any days and whatever operations on files break: both indexes are those of the current records; every record
  can be encoded, was used within the last 128 days, has been aged up to the last 32 days and has a positive count; no
  entry waits twice for the next commit; and a mode that does not use or update the memory has none.
\<close>

theorem learning_memory_consistent:
  assumes "memory_reached graphemes learning_value s io"
  shows "new_louds graphemes (ls_characters s) (persisted s) = Some (persisted_index s) \<and>
    temporary_index s = new_trie graphemes (ls_characters s) (temporary s) \<and>
    (\<forall>r \<in> set (persisted s @ temporary s).
       valid_learning_entry graphemes (ls_characters s) (lr_entry r) \<and> 0 < lr_count r \<and>
       last_used_day r \<le> ls_today s \<and> unat (ls_today s) < unat (last_used_day r) + 128 \<and>
       last_updated_day r \<le> ls_today s \<and> unat (ls_today s) \<le> unat (last_updated_day r) + 32) \<and>
    distinct (map (\<lambda>r. entry_key (lr_entry r)) (temporary s)) \<and>
    (ls_mode s = Nothing \<longrightarrow> persisted s = []) \<and> (ls_mode s \<noteq> InputAndOutput \<longrightarrow> temporary s = [])"
  using reached_ok [OF assms]
  by (auto simp: memory_ok_def list_all_iff record_ok_def fresh_def uses_memory_def updates_memory_def)

text \<open>
  C21. Looking up is exact in every reachable state: the entries for a reading are those of the records with exactly this
  reading, and the entries at the start of a text those of the records whose characters are its first ones, up to a
  length; first the records on the disk, then those learned since, in their order and each with the value of its count.
\<close>

theorem learned_entries_exact:
  assumes "memory_reached graphemes learning_value s io" and "segments_text graphemes" and "proper_characters (ls_characters s)"
    and "ls_mode s \<noteq> Nothing" and "t \<noteq> []" and "length (graphemes t) < 2 ^ 64"
  shows "exact_match graphemes learning_value t s =
      map (learned_entry learning_value) (filter (\<lambda>r. ruby (lr_entry r) = t) (persisted s @ temporary s)) \<and>
    matches_from_start graphemes learning_value t maximum_length s =
      map (learned_entry learning_value)
        (filter (\<lambda>r. prefix (graphemes (ruby (lr_entry r))) (take maximum_length (graphemes t))) (persisted s @ temporary s))"
  using exact_match_records [OF assms(2,3) reached_ok [OF assms(1)] _ assms(6,5)]
    matches_from_start_records [OF assms(2,3) reached_ok [OF assms(1)] _ assms(5)] assms(4)
  by (simp add: uses_memory_def)

text \<open>
  What was learned is found: when the memory learns from a candidate, each of its entries that is learned by itself,
  each pair of neighbouring clauses and the whole candidate, if they can be encoded, are from then on among the exact
  matches of their reading, with their word and class, and marked as learned.
\<close>

theorem learned_words_found:
  assumes "memory_reached graphemes learning_value s io" and "segments_text graphemes" and "proper_characters (ls_characters s)"
    and "ls_mode s = InputAndOutput" and "e \<in> set (learned_from (entries c))"
    and "valid_learning_entry graphemes (ls_characters s) e" and "length (graphemes (ruby e)) < 2 ^ 64"
  shows "\<exists>x \<in> set (exact_match graphemes learning_value (ruby e) (learn graphemes c s)).
    word x = word e \<and> ruby x = ruby e \<and> left_id x = left_id e \<and> right_id x = right_id e \<and> metadata_contains (metadata x) LEARNED"
proof -
  note ok = reached_ok [OF assms(1)]
  let ?s = "learn graphemes c s"
  have mode: "updates_memory (ls_mode s)" using assms(4) by (simp add: updates_memory_def)
  have s: "?s = memorize_all graphemes (learned_from (entries c)) s" by (simp add: learn_def mode)
  have "learned_key e (memorize_all graphemes (learned_from (entries c)) s)"
    by (rule memorize_all_keys [OF ok mode]) (use assms(5,6) in blast)
  then have key: "learned_key e ?s" unfolding s .
  have same: "ls_characters ?s = ls_characters s" "ls_mode ?s = ls_mode s" unfolding s by (simp_all only: memorize_all_same)
  from key obtain r where r: "r \<in> set (temporary ?s)" "entry_key (lr_entry r) = entry_key e"
    by (auto simp: learned_key_def)
  have "exact_match graphemes learning_value (ruby e) ?s =
      map (learned_entry learning_value) (filter (\<lambda>r. ruby (lr_entry r) = ruby e) (persisted ?s @ temporary ?s))"
    using assms(3,4,6,7)
    by (intro exact_match_records [OF assms(2) _ learn_ok [OF ok]])
      (simp_all add: same uses_memory_def valid_learning_entry_def)
  moreover have "ruby (lr_entry r) = ruby e" using r(2) by (simp add: entry_key_def)
  ultimately have "learned_entry learning_value r \<in> set (exact_match graphemes learning_value (ruby e) ?s)" using r(1) by simp
  then show ?thesis
    by (rule rev_bexI) (use r(2) in \<open>simp add: learned_entry_def entry_key_def metadata_insert_contains\<close>)
qed

text \<open>
  C22. What was forgotten is gone: after forgetting a candidate without an error, nothing the memory knows, on the disk or
  not, has the reading and the word of one of its entries; on the disk not even the word under another reading.
\<close>

theorem forgotten_words_gone:
  assumes "ls_mode s = InputAndOutput" and "forget graphemes learning_value c s io = (Inr (), s', io')" and "e \<in> set (entries c)"
  shows "(\<forall>r \<in> set (persisted s'). word (lr_entry r) \<noteq> word e) \<and>
    (\<forall>r \<in> set (temporary s'). \<not> (ruby (lr_entry r) = ruby e \<and> word (lr_entry r) = word e))"
proof -
  let ?t = "filter (\<lambda>r. (ruby (lr_entry r), word (lr_entry r)) \<notin> set (map (\<lambda>e. (ruby e, word e)) (entries c))) (temporary s)"
  let ?rest = "filter (\<lambda>r. word (lr_entry r) \<notin> set (map word (entries c))) (persisted s)"
  have "updates_memory (ls_mode s)" using assms(1) by (simp add: updates_memory_def)
  with assms(2) obtain p where p: "save_records graphemes learning_value (ls_characters s) (ls_today s) (ls_max_count s) ?rest io = (Inr p, io')"
    and s': "temporary s' = ?t" "persisted s' = p"
    by (auto simp: forget_def Let_def split: prod.splits sum.splits)
  have "word (lr_entry r) \<noteq> word e" if "r \<in> set p" for r
  proof -
    have "r \<in> set (decay (ls_today s) ?rest)"
      using that save_result [OF p] by (auto simp: kept_records_def dest: in_set_takeD)
    then obtain r0 where "r0 \<in> set ?rest" "lr_entry r = lr_entry r0" using decay_entries by blast
    with assms(3) show ?thesis by auto
  qed
  then show ?thesis using assms(3) by (auto simp: s')
qed

text \<open>
  C24. A commit survives the program: when committing reported success, opening the memory again from the same directory
  gives exactly the records that were on the disk and those learned since, merged where they are of one entry, with
  their days, counts and classes, as long as there is room for them, no reading has more than 255 of them, and the
  numbers of the format suffice.
\<close>

theorem commit_survives_reopening:
  assumes "memory_reached graphemes learning_value s io0" and "segments_text graphemes" and "proper_characters (ls_characters s)"
    and "\<forall>r \<in> set (persisted s @ temporary s). list_all is_scalar (word (lr_entry r)) \<and> list_all is_scalar (ruby (lr_entry r))"
    and "stored_file io PAUSE_FILE = None" and "commit_memory graphemes learning_value s io = (Inr True, s', io')"
    and "fits (encode_files graphemes learning_value (ls_characters s) (persisted s'))"
    and "\<forall>b \<in> set (blocks_of graphemes (ls_characters s) (persisted s')). length b \<le> 255"
    and "length (persisted s) + length (temporary s) \<le> ls_max_count s"
  shows "\<exists>s'' io''. open_memory graphemes (ls_mode s) (ls_max_count s) (ls_characters s) (ls_today s) (io'\<lparr>io_faults := []\<rparr>) = (Inr s'', io'') \<and>
    temporary s'' = [] \<and> mset (persisted s'') = mset (map (stored learning_value) (foldl merge_record (persisted s) (temporary s)))"
  by (rule commit_reopen [OF reached_ok [OF assms(1)] assms(2-9)])

text \<open>
  The loop that ages a record ends for every day and every record, also with days that are close to the largest
  number: it halves the count once for each 32 days that are more than 32 days back and moves the day of the last
  update on by as many.
\<close>

theorem ageing_halves:
  "while_option (outdated today) halve r = Some (halve_while today r) \<and>
   halve_while today r =
     (let k = (unat today - unat (last_updated_day r) - 1) div 32
      in r\<lparr>lr_count := drop_bit k (lr_count r), last_updated_day := last_updated_day r + of_nat (32 * k)\<rparr>)"
  using halve_while_option halve_while_closed by blast

section \<open>Witnesses\<close>

definition taught_word :: DictionaryEntry where
  "taught_word = lr_entry (hd sample_records)"

definition learned_candidate :: Candidate where
  "learned_candidate = single scalar_graphemes (word taught_word) 0 (SurfaceCount 2) 501 [taught_word]"

definition empty_memory :: LearningState where
  "empty_memory =
     \<lparr>ls_characters = sample_characters, ls_mode = InputAndOutput, ls_max_count = 10, ls_today = 7,
      persisted_index = index_records scalar_graphemes sample_characters [], persisted = [],
      temporary_index = empty_trie, temporary = []\<rparr>"

definition empty_io :: Io where
  "empty_io = \<lparr>io_files = [], io_faults = []\<rparr>"

definition taught_memory :: LearningState where
  "taught_memory = learn scalar_graphemes learned_candidate empty_memory"

lemma sample_opened: "open_memory scalar_graphemes InputAndOutput 10 sample_characters 7 empty_io = (Inr empty_memory, empty_io)"
  by (simp add: open_memory_def and_with_def create_directory_def empty_io_def uses_memory_def recover_if_paused_def path_exists_def
      decode_directory_def read_optional_def done_with_def Let_def empty_memory_def)

lemma sample_reached:
  "memory_reached scalar_graphemes sample_value empty_memory empty_io" "memory_reached scalar_graphemes sample_value taught_memory empty_io"
proof -
  show e: "memory_reached scalar_graphemes sample_value empty_memory empty_io"
    by (rule memory_reached.opened [OF sample_opened])
  from memory_reached.learned [OF this, of learned_candidate 7]
  show "memory_reached scalar_graphemes sample_value taught_memory empty_io"
    by (simp add: taught_memory_def refresh_day_def empty_memory_def)
qed

lemma sample_taught:
  "taught_memory = empty_memory\<lparr>temporary_index := trie_insert [1, 2] 0 empty_trie,
     temporary := [\<lparr>lr_entry = taught_word, last_used_day = 7, last_updated_day = 7, lr_count = 1\<rparr>]\<rparr>"
proof -
  have v: "valid_learning_entry scalar_graphemes sample_characters taught_word"
    "encode_ids scalar_graphemes sample_characters (ruby taught_word) = Some [1, 2]"
    "learned_from (entries learned_candidate) = [taught_word]" "trie_lookup empty_trie [1, 2] Exact = []"
    by code_simp+
  then show ?thesis by (simp add: taught_memory_def learn_def empty_memory_def updates_memory_def memorize_def)
qed

abbreviation sample_text :: ustr where "sample_text \<equiv> [0x30A2, 0x30A4]"

definition taught_record :: LearningRecord where
  "taught_record = \<lparr>lr_entry = taught_word, last_used_day = 7, last_updated_day = 7, lr_count = 1\<rparr>"

lemma taught_parts:
  "ls_characters taught_memory = sample_characters" "ls_mode taught_memory = InputAndOutput" "ls_max_count taught_memory = 10"
  "ls_today taught_memory = 7" "persisted taught_memory = []" "temporary taught_memory = [taught_record]"
  by (simp_all add: sample_taught empty_memory_def taught_record_def)

lemma taught_word_parts: "ruby taught_word = sample_text" "word taught_word = [0x611B]"
  by (simp_all add: taught_word_def sample_records_def sample_record_def)

theorem learning_memory_consistent_witness:
  "temporary_index taught_memory = new_trie scalar_graphemes sample_characters [taught_record] \<and>
   unat (ls_today taught_memory) < unat (last_used_day taught_record) + 128"
  using learning_memory_consistent [OF sample_reached(2)] by (simp add: taught_parts)

theorem learned_entries_exact_witness:
  "exact_match scalar_graphemes sample_value sample_text taught_memory = [learned_entry sample_value taught_record] \<and>
   matches_from_start scalar_graphemes sample_value [0x30A2, 0x30A4, 0x30A4] 5 taught_memory = [learned_entry sample_value taught_record]"
proof -
  have "exact_match scalar_graphemes sample_value sample_text taught_memory = [learned_entry sample_value taught_record]"
    using learned_entries_exact [OF sample_reached(2) segments_text_scalar, of sample_text] sample_proper(1)
    by (simp add: taught_parts scalar_graphemes_def taught_record_def taught_word_parts)
  moreover have "matches_from_start scalar_graphemes sample_value [0x30A2, 0x30A4, 0x30A4] 5 taught_memory = [learned_entry sample_value taught_record]"
    using learned_entries_exact [OF sample_reached(2) segments_text_scalar, of "[0x30A2, 0x30A4, 0x30A4]" 5] sample_proper(1)
    by (simp add: taught_parts scalar_graphemes_def taught_record_def taught_word_parts)
  ultimately show ?thesis ..
qed

lemma sample_learned:
  "learned_from (entries learned_candidate) = [taught_word]" "valid_learning_entry scalar_graphemes sample_characters taught_word"
  "entries learned_candidate = [taught_word]"
  by code_simp+

theorem learned_words_found_witness:
  "\<exists>x \<in> set (exact_match scalar_graphemes sample_value sample_text taught_memory). word x = [0x611B]"
proof -
  have e: "ls_characters empty_memory = sample_characters" "ls_mode empty_memory = InputAndOutput" by (simp_all add: empty_memory_def)
  have "\<exists>x \<in> set (exact_match scalar_graphemes sample_value (ruby taught_word) (learn scalar_graphemes learned_candidate empty_memory)).
      word x = word taught_word \<and> ruby x = ruby taught_word \<and> left_id x = left_id taught_word \<and>
      right_id x = right_id taught_word \<and> metadata_contains (metadata x) LEARNED"
    by (rule learned_words_found [OF sample_reached(1) segments_text_scalar])
      (simp_all add: e sample_proper(1) sample_learned(2) sample_learned(1), simp add: taught_word_parts scalar_graphemes_def)
  then show ?thesis unfolding taught_memory_def [symmetric] taught_word_parts by blast
qed

lemma saved_without_faults:
  assumes "io_faults io = []"
  shows "\<exists>io'. save_records graphemes learning_value characters today max_count rs io = (Inr (kept_records today max_count rs), io')"
  using saving_works [OF assms]
  by (fastforce simp: save_records_def Let_def and_with_def done_with_def leaves_def split: prod.splits sum.splits)

theorem forgotten_words_gone_witness:
  "\<exists>s' io'. forget scalar_graphemes sample_value learned_candidate taught_memory empty_io = (Inr (), s', io') \<and>
     (\<forall>r \<in> set (temporary s'). \<not> (ruby (lr_entry r) = sample_text \<and> word (lr_entry r) = [0x611B]))"
proof -
  obtain io1 where "save_records scalar_graphemes sample_value sample_characters 7 10 [] empty_io = (Inr (kept_records 7 10 []), io1)"
    using saved_without_faults by (fastforce simp: empty_io_def)
  then obtain s' io' where f: "forget scalar_graphemes sample_value learned_candidate taught_memory empty_io = (Inr (), s', io')"
    by (simp add: forget_def taught_parts updates_memory_def Let_def)
  from forgotten_words_gone [OF taught_parts(2) f, of taught_word]
  have "\<forall>r \<in> set (temporary s'). \<not> (ruby (lr_entry r) = sample_text \<and> word (lr_entry r) = [0x611B])"
    by (simp add: sample_learned(3) taught_word_parts)
  with f show ?thesis by blast
qed

lemma taught_entry: "lr_entry taught_record = taught_word"
  by (simp add: taught_record_def)

lemma taught_kept: "kept_records 7 10 (foldl merge_record [] [taught_record]) = [taught_record]"
  by code_simp

lemma taught_blocks: "blocks_of scalar_graphemes sample_characters [taught_record] = [[], [], [], [0]]"
  by code_simp

lemma taught_fits: "fits (encode_files scalar_graphemes sample_value sample_characters [taught_record])"
proof -
  have "length (em_characters (encode_files scalar_graphemes sample_value sample_characters [taught_record])) = 4"
    using arg_cong [OF taught_blocks, of length] by (simp add: length_blocks encode_files_def Let_def)
  moreover have "em_shards (encode_files scalar_graphemes sample_value sample_characters [taught_record]) =
      [encode_entry_shard sample_value [taught_record] [[], [], [], [0]]]"
    using taught_blocks by (simp add: encode_files_def Let_def blocks_of_def chunks_one)
  moreover have "length (encode_entry_shard sample_value [taught_record] [[], [], [], [0]]) < 2 ^ 32"
    by (simp add: encode_entry_shard_def encode_entry_block_def Let_def taught_record_def taught_word_parts utf8_def utf8_char_def
        utf8_ints_def)
  ultimately show ?thesis by (simp add: fits_def)
qed

theorem commit_survives_reopening_witness:
  "\<exists>s' io' s'' io''. commit_memory scalar_graphemes sample_value taught_memory empty_io = (Inr True, s', io') \<and>
     open_memory scalar_graphemes InputAndOutput 10 sample_characters 7 (io'\<lparr>io_faults := []\<rparr>) = (Inr s'', io'') \<and>
     persisted s'' = [stored sample_value taught_record]"
proof -
  obtain io1 where "save_records scalar_graphemes sample_value sample_characters 7 10 (foldl merge_record [] [taught_record]) empty_io =
      (Inr [taught_record], io1)"
    using saved_without_faults [of empty_io scalar_graphemes sample_value sample_characters 7 10 "foldl merge_record [] [taught_record]"]
    unfolding taught_kept by (auto simp: empty_io_def)
  then obtain s' io' where c: "commit_memory scalar_graphemes sample_value taught_memory empty_io = (Inr True, s', io')"
    and p: "persisted s' = [taught_record]"
    by (simp add: commit_memory_def taught_parts updates_memory_def)
  have scalars: "list_all is_scalar [0x611B] \<and> list_all is_scalar sample_text" by (simp add: is_scalar_def)
  have "\<exists>s'' io''. open_memory scalar_graphemes InputAndOutput 10 sample_characters 7 (io'\<lparr>io_faults := []\<rparr>) = (Inr s'', io'') \<and>
      temporary s'' = [] \<and> mset (persisted s'') = mset (map (stored sample_value) (foldl merge_record [] [taught_record]))"
    using commit_survives_reopening [OF sample_reached(2) segments_text_scalar, of empty_io s' io', unfolded taught_parts] c p
      sample_proper(1) taught_fits scalars
    by (simp add: taught_blocks empty_io_def taught_entry taught_word_parts)
  with c show ?thesis by auto
qed

end
