(* ===== verification/Dictionary_Store.thy ===== *)
theory Dictionary_Store
  imports Learning_Files
begin

text \<open>
  \<open>crates/converter/src/dictionary/store.rs\<close> and \<open>user.rs\<close>: the dictionary behind its files. The files under the root
  are only read; a file is there, missing, or not readable. The store remembers what it loaded: the tries by their first
  grapheme, the shards by their name and the lines of connection costs by their number.
\<close>

section \<open>Files and errors\<close>

datatype FileRead = Found "byte list" | Missing | Unreadable

type_synonym Files = "ustr \<Rightarrow> FileRead"

datatype DictionaryError =
    DictionaryIo ustr
  | BinaryError DictionaryBinaryError
  | LoudsFailure LoudsError
  | LearningFailure LearningError
  | PoisonedCache string

definition read_file :: "Files \<Rightarrow> ustr \<Rightarrow> DictionaryError + byte list" where
  "read_file files n = (case files n of Found bytes \<Rightarrow> Inr bytes | _ \<Rightarrow> Inl (DictionaryIo n))"

definition read_optional_file :: "Files \<Rightarrow> ustr \<Rightarrow> DictionaryError + byte list option" where
  "read_optional_file files n =
     (case files n of Found bytes \<Rightarrow> Inr (Some bytes) | Missing \<Rightarrow> Inr None | Unreadable \<Rightarrow> Inl (DictionaryIo n))"

text \<open>
  \<open>String::from_utf8\<close>: bytes that are not UTF-8 do not come back from the text with replacement characters.
\<close>

definition from_utf8 :: "byte list \<Rightarrow> ustr option" where
  "from_utf8 bytes = (let s = from_utf8_lossy bytes in if utf8 s = bytes then Some s else None)"

section \<open>Names\<close>

text \<open>\<open>encode_utf16\<close> and the format \<open>{unit:04X}\<close>.\<close>

definition utf16_units :: "ustr \<Rightarrow> int list" where
  "utf16_units s =
     concat (map (\<lambda>c. if c < 0x10000 then [c] else [0xD800 + (c - 0x10000) div 0x400, 0xDC00 + (c - 0x10000) mod 0x400]) s)"

definition upper_hex_digit :: "int \<Rightarrow> uchar" where
  "upper_hex_digit d = (if d < 10 then 0x30 + d else 0x37 + d)"

definition hex4 :: "int \<Rightarrow> ustr" where
  "hex4 u = map upper_hex_digit [u div 0x1000, u div 0x100 mod 0x10, u div 0x10 mod 0x10, u mod 0x10]"

definition escaped_identifier :: "ustr \<Rightarrow> ustr" where
  "escaped_identifier v =
     (if v = ascii ''user'' \<or> v = ascii ''memory'' \<or> v = ascii ''user_shortcuts'' then v
      else ascii ''['' @ join (ascii ''_'') (map hex4 (utf16_units v)) @ ascii '']'')"

section \<open>The store\<close>

abbreviation SHARD_SHIFT :: nat where "SHARD_SHIFT \<equiv> 11"
abbreviation SHARD_NODES :: nat where "SHARD_NODES \<equiv> 2048"

definition DEFAULT_CONNECTION_COST :: f32 where
  "DEFAULT_CONNECTION_COST = 0xC1C80000"

record DictionaryMatch =
  surface_end :: nat
  match_entries :: "DictionaryEntry list"

record DictionaryStore =
  ds_characters :: CharacterIdMap
  ds_meanings :: MeaningMatrix
  ds_louds :: "ustr \<rightharpoonup> Louds option"
  ds_shards :: "ustr \<rightharpoonup> byte list"
  ds_lines :: "nat \<rightharpoonup> f32 list option"

definition open_store :: "segmenter \<Rightarrow> Files \<Rightarrow> DictionaryError + DictionaryStore" where
  "open_store graphemes files =
     (case read_file files (ascii ''louds/charID.chid'') of
        Inl e \<Rightarrow> Inl e
      | Inr bytes \<Rightarrow>
          (case from_utf8 bytes of
             None \<Rightarrow> Inl (DictionaryIo (ascii ''louds/charID.chid''))
           | Some content \<Rightarrow>
               (case parse_character_ids graphemes content of
                  Inl e \<Rightarrow> Inl (LoudsFailure e)
                | Inr characters \<Rightarrow>
                    (case read_file files (ascii ''mm.binary'') of
                       Inl e \<Rightarrow> Inl e
                     | Inr matrix \<Rightarrow>
                         (case parse_meaning_matrix matrix of
                            Inl e \<Rightarrow> Inl (BinaryError e)
                          | Inr meanings \<Rightarrow>
                              Inr \<lparr>ds_characters = characters, ds_meanings = meanings, ds_louds = Map.empty,
                                   ds_shards = Map.empty, ds_lines = Map.empty\<rparr>)))))"

type_synonym 'a from_store = "DictionaryStore \<Rightarrow> (DictionaryError + 'a) \<times> DictionaryStore"

definition load_louds :: "Files \<Rightarrow> ustr \<Rightarrow> Louds option from_store" where
  "load_louds files identifier s =
     (case ds_louds s identifier of
        Some v \<Rightarrow> (Inr v, s)
      | None \<Rightarrow>
          (let escaped = escaped_identifier identifier;
               bits = read_optional_file files (ascii ''louds/'' @ escaped @ ascii ''.louds'');
               chars = read_optional_file files (ascii ''louds/'' @ escaped @ ascii ''.loudschars2'')
           in case bits of
                Inl e \<Rightarrow> (Inl e, s)
              | Inr bits \<Rightarrow>
                  (case chars of
                     Inl e \<Rightarrow> (Inl e, s)
                   | Inr chars \<Rightarrow>
                       (case (bits, chars) of
                          (Some bits, Some chars) \<Rightarrow>
                            (case parse_louds bits chars of
                               Inl e \<Rightarrow> (Inl (LoudsFailure e), s)
                             | Inr l \<Rightarrow> (Inr (Some l), s\<lparr>ds_louds := (ds_louds s)(identifier \<mapsto> Some l)\<rparr>))
                        | _ \<Rightarrow> (Inr None, s\<lparr>ds_louds := (ds_louds s)(identifier \<mapsto> None)\<rparr>)))))"

text \<open>The nodes by shard: the \<open>BTreeMap\<close> in its order, each with its slots in the order of the nodes.\<close>

definition by_shard :: "nat list \<Rightarrow> (nat \<times> nat list) list" where
  "by_shard nodes =
     map (\<lambda>shard. (shard, map (\<lambda>n. n mod SHARD_NODES) (filter (\<lambda>n. n div SHARD_NODES = shard) nodes)))
       (sort (remdups (map (\<lambda>n. n div SHARD_NODES) nodes)))"

definition load_shard :: "Files \<Rightarrow> ustr \<Rightarrow> byte list from_store" where
  "load_shard files n s =
     (case ds_shards s n of
        Some bytes \<Rightarrow> (Inr bytes, s)
      | None \<Rightarrow>
          (case read_file files (ascii ''louds/'' @ n @ ascii ''.loudstxt3'') of
             Inl e \<Rightarrow> (Inl e, s)
           | Inr bytes \<Rightarrow> (Inr bytes, s\<lparr>ds_shards := (ds_shards s)(n \<mapsto> bytes)\<rparr>)))"

fun load_shards :: "Files \<Rightarrow> ustr \<Rightarrow> (nat \<times> nat list) list \<Rightarrow> DictionaryEntry list \<Rightarrow> DictionaryEntry list from_store" where
  "load_shards files escaped [] output s = (Inr output, s)"
| "load_shards files escaped ((shard, indices) # rest) output s =
     (case load_shard files (escaped @ show_nat shard) s of
        (Inl e, s) \<Rightarrow> (Inl e, s)
      | (Inr bytes, s) \<Rightarrow>
          (case parse_entry_shard bytes indices of
             Inl e \<Rightarrow> (Inl (BinaryError e), s)
           | Inr es \<Rightarrow> load_shards files escaped rest (output @ es) s))"

definition load_entries :: "Files \<Rightarrow> ustr \<Rightarrow> nat list \<Rightarrow> DictionaryEntry list from_store" where
  "load_entries files identifier nodes = load_shards files (escaped_identifier identifier) (by_shard nodes) []"

definition lookup_key :: "segmenter \<Rightarrow> DictionaryStore \<Rightarrow> ustr \<Rightarrow> (ustr \<times> byte list) option" where
  "lookup_key graphemes s text =
     (case graphemes text of
        [] \<Rightarrow> None
      | g # _ \<Rightarrow> map_option (\<lambda>ids. (g, ids)) (encode_ids graphemes (ds_characters s) text))"

definition store_exact_match :: "segmenter \<Rightarrow> Files \<Rightarrow> ustr \<Rightarrow> DictionaryEntry list from_store" where
  "store_exact_match graphemes files text s =
     (case lookup_key graphemes s text of
        None \<Rightarrow> (Inr [], s)
      | Some (identifier, ids) \<Rightarrow>
          (case load_louds files identifier s of
             (Inl e, s) \<Rightarrow> (Inl e, s)
           | (Inr None, s) \<Rightarrow> (Inr [], s)
           | (Inr (Some l), s) \<Rightarrow>
               (case search l ids of None \<Rightarrow> (Inr [], s) | Some node \<Rightarrow> load_entries files identifier [node] s)))"

text \<open>The loop of \<open>matches_from_start\<close> over the graphemes, which ends where the trie does.\<close>

fun match_graphemes ::
  "Files \<Rightarrow> ustr \<Rightarrow> Louds \<Rightarrow> nat \<Rightarrow> byte list \<Rightarrow> DictionaryMatch list \<Rightarrow> grapheme list \<Rightarrow> DictionaryMatch list from_store" where
  "match_graphemes files identifier l index ids output [] s = (Inr output, s)"
| "match_graphemes files identifier l index ids output (g # gs) s =
     (case ds_characters s g of
        None \<Rightarrow> (Inr output, s)
      | Some i \<Rightarrow>
          (case search l (ids @ [i]) of
             None \<Rightarrow> (Inr output, s)
           | Some node \<Rightarrow>
               (case load_entries files identifier [node] s of
                  (Inl e, s) \<Rightarrow> (Inl e, s)
                | (Inr es, s) \<Rightarrow>
                    match_graphemes files identifier l (Suc index) (ids @ [i])
                      (if es = [] then output else output @ [\<lparr>surface_end = index + 1, match_entries = es\<rparr>]) gs s)))"

definition store_matches_from_start :: "segmenter \<Rightarrow> Files \<Rightarrow> ustr \<Rightarrow> nat \<Rightarrow> DictionaryMatch list from_store" where
  "store_matches_from_start graphemes files text maximum_length s =
     (case graphemes text of
        [] \<Rightarrow> (Inr [], s)
      | identifier # _ \<Rightarrow>
          (case load_louds files identifier s of
             (Inl e, s) \<Rightarrow> (Inl e, s)
           | (Inr None, s) \<Rightarrow> (Inr [], s)
           | (Inr (Some l), s) \<Rightarrow> match_graphemes files identifier l 0 [] [] (take maximum_length (graphemes text)) s))"

definition entries_after_prefix :: "segmenter \<Rightarrow> Files \<Rightarrow> ustr \<Rightarrow> nat \<Rightarrow> nat \<Rightarrow> DictionaryEntry list from_store" where
  "entries_after_prefix graphemes files text maximum_depth maximum_count s =
     (case lookup_key graphemes s text of
        None \<Rightarrow> (Inr [], s)
      | Some (identifier, ids) \<Rightarrow>
          (case load_louds files identifier s of
             (Inl e, s) \<Rightarrow> (Inl e, s)
           | (Inr None, s) \<Rightarrow> (Inr [], s)
           | (Inr (Some l), s) \<Rightarrow> load_entries files identifier (descendants l ids maximum_depth maximum_count) s))"

definition line_value :: "f32 list option \<Rightarrow> nat \<Rightarrow> f32" where
  "line_value line latter =
     (case line of
        Some values \<Rightarrow> if latter < length values then values ! latter else DEFAULT_CONNECTION_COST
      | None \<Rightarrow> DEFAULT_CONNECTION_COST)"

definition connection_cost :: "Files \<Rightarrow> nat \<Rightarrow> nat \<Rightarrow> f32 from_store" where
  "connection_cost files former latter s =
     (case ds_lines s former of
        Some line \<Rightarrow> (Inr (line_value line latter), s)
      | None \<Rightarrow>
          (let path = ascii ''cb/'' @ show_nat former @ ascii ''.binary''
           in case files path of
                Unreadable \<Rightarrow> (Inl (DictionaryIo path), s)
              | Missing \<Rightarrow> (Inr (line_value None latter), s\<lparr>ds_lines := (ds_lines s)(former \<mapsto> None)\<rparr>)
              | Found bytes \<Rightarrow>
                  (case parse_connection_cost_line bytes of
                     Inl e \<Rightarrow> (Inl (BinaryError e), s)
                   | Inr line \<Rightarrow> (Inr (line_value (Some line) latter), s\<lparr>ds_lines := (ds_lines s)(former \<mapsto> Some line)\<rparr>))))"

definition meaning_cost :: "DictionaryStore \<Rightarrow> nat \<Rightarrow> nat \<Rightarrow> f32 option" where
  "meaning_cost s former latter = meaning_value (ds_meanings s) former latter"

section \<open>Predictions without a prefix\<close>

text \<open>\<open>str::parse\<close> of a \<open>u16\<close>; that of an \<open>f32\<close> is an argument.\<close>

definition parse_u16 :: "ustr \<Rightarrow> 16 word option" where
  "parse_u16 v =
     (let ds = (case v of c # rest \<Rightarrow> if c = 0x2B \<and> rest \<noteq> [] then rest else v | [] \<Rightarrow> v);
          n = foldl (\<lambda>n c. n * 10 + (c - 0x30)) 0 ds
      in if ds = [] \<or> list_ex (\<lambda>c. c < 0x30 \<or> 0x39 < c) ds \<or> n \<ge> 2 ^ 16 then None else Some (word_of_int n))"

definition column :: "ustr list \<Rightarrow> nat \<Rightarrow> ustr option" where
  "column columns i = (if i < length columns then Some (columns ! i) else None)"

definition parse_prediction_entry :: "(ustr \<Rightarrow> f32 option) \<Rightarrow> ustr \<Rightarrow> DictionaryEntry" where
  "parse_prediction_entry parse_f32 line =
     (let columns = split_on 0x2C line;
          r = (case column columns 0 of Some v \<Rightarrow> v | None \<Rightarrow> []);
          w = (case column columns 1 of None \<Rightarrow> r | Some v \<Rightarrow> if v = [] then r else v);
          left = (case Option.bind (column columns 2) parse_u16 of Some v \<Rightarrow> v | None \<Rightarrow> 0);
          right = (case Option.bind (column columns 3) parse_u16 of Some v \<Rightarrow> v | None \<Rightarrow> left);
          meaning = (case Option.bind (column columns 4) parse_u16 of Some v \<Rightarrow> v | None \<Rightarrow> 0);
          v = (case Option.bind (column columns 5) parse_f32 of Some v \<Rightarrow> v | None \<Rightarrow> 0xC1F00000)
      in \<lparr>word = w, ruby = r, left_id = left, right_id = right, meaning_id = meaning, base_value = v,
          adjustment = f32_zero, metadata = 0\<rparr>)"

definition zero_hint_entries ::
  "(ustr \<Rightarrow> f32 option) \<Rightarrow> Files \<Rightarrow> 16 word \<Rightarrow> DictionaryError + DictionaryEntry list" where
  "zero_hint_entries parse_f32 files right =
     (let path = ascii ''p/pc_'' @ show_nat (unat right) @ ascii ''.csv''
      in case files path of
           Missing \<Rightarrow> Inr []
         | Unreadable \<Rightarrow> Inl (DictionaryIo path)
         | Found bytes \<Rightarrow>
             (case from_utf8 bytes of
                None \<Rightarrow> Inl (DictionaryIo path)
              | Some content \<Rightarrow> Inr (map (parse_prediction_entry parse_f32) (lines_of content))))"

section \<open>The user's dictionary\<close>

fun user_shards :: "Files \<Rightarrow> ustr \<Rightarrow> nat \<Rightarrow> nat list \<Rightarrow> DictionaryEntry list \<Rightarrow> DictionaryError + DictionaryEntry list" where
  "user_shards files identifier nodes [] output = Inr output"
| "user_shards files identifier nodes (shard # shards) output =
     (case read_optional_file files (identifier @ show_nat shard @ ascii ''.loudstxt3'') of
        Inl e \<Rightarrow> Inl e
      | Inr None \<Rightarrow> user_shards files identifier nodes shards output
      | Inr (Some bytes) \<Rightarrow>
          (case parse_entry_shard bytes [0..<min (nodes - shard * SHARD_NODES) SHARD_NODES] of
             Inl e \<Rightarrow> Inl (BinaryError e)
           | Inr es \<Rightarrow> user_shards files identifier nodes shards (output @ es)))"

definition load_user_entries :: "Files \<Rightarrow> ustr \<Rightarrow> DictionaryError + DictionaryEntry list" where
  "load_user_entries files identifier =
     (case read_optional_file files (identifier @ ascii ''.louds'') of
        Inl e \<Rightarrow> Inl e
      | Inr bits \<Rightarrow>
          (case read_optional_file files (identifier @ ascii ''.loudschars2'') of
             Inl e \<Rightarrow> Inl e
           | Inr chars \<Rightarrow>
               (case (bits, chars) of
                  (Some bits, Some chars) \<Rightarrow>
                    (case parse_louds bits chars of
                       Inl e \<Rightarrow> Inl (LoudsFailure e)
                     | Inr l \<Rightarrow>
                         map_sum id (map (\<lambda>e. e\<lparr>metadata := metadata_insert (metadata e) USER_DICTIONARY\<rparr>))
                           (user_shards files identifier (node_count l) [0..<(node_count l + SHARD_NODES - 1) div SHARD_NODES] []))
                | _ \<Rightarrow> Inr [])))"

definition open_user_dictionary :: "Files \<Rightarrow> DictionaryError + DictionaryEntry list \<times> DictionaryEntry list" where
  "open_user_dictionary files =
     (case load_user_entries files (ascii ''user'') of
        Inl e \<Rightarrow> Inl e
      | Inr es \<Rightarrow>
          (case load_user_entries files (ascii ''user_shortcuts'') of Inl e \<Rightarrow> Inl e | Inr shortcuts \<Rightarrow> Inr (es, shortcuts)))"

section \<open>Caches\<close>

text \<open>What the files hold, read without a cache.\<close>

definition louds_in :: "Files \<Rightarrow> ustr \<Rightarrow> DictionaryError + Louds option" where
  "louds_in files identifier =
     (let escaped = escaped_identifier identifier
      in case read_optional_file files (ascii ''louds/'' @ escaped @ ascii ''.louds'') of
           Inl e \<Rightarrow> Inl e
         | Inr bits \<Rightarrow>
             (case read_optional_file files (ascii ''louds/'' @ escaped @ ascii ''.loudschars2'') of
                Inl e \<Rightarrow> Inl e
              | Inr chars \<Rightarrow>
                  (case (bits, chars) of
                     (Some bits, Some chars) \<Rightarrow> map_sum LoudsFailure Some (parse_louds bits chars)
                   | _ \<Rightarrow> Inr None)))"

definition shard_in :: "Files \<Rightarrow> ustr \<Rightarrow> DictionaryError + byte list" where
  "shard_in files n = read_file files (ascii ''louds/'' @ n @ ascii ''.loudstxt3'')"

definition line_in :: "Files \<Rightarrow> nat \<Rightarrow> DictionaryError + f32 list option" where
  "line_in files former =
     (let path = ascii ''cb/'' @ show_nat former @ ascii ''.binary''
      in case files path of
           Unreadable \<Rightarrow> Inl (DictionaryIo path)
         | Missing \<Rightarrow> Inr None
         | Found bytes \<Rightarrow> map_sum BinaryError Some (parse_connection_cost_line bytes))"

definition caches_ok :: "Files \<Rightarrow> DictionaryStore \<Rightarrow> bool" where
  "caches_ok files s \<longleftrightarrow>
     (\<forall>i v. ds_louds s i = Some v \<longrightarrow> louds_in files i = Inr v) \<and>
     (\<forall>n v. ds_shards s n = Some v \<longrightarrow> shard_in files n = Inr v) \<and>
     (\<forall>k v. ds_lines s k = Some v \<longrightarrow> line_in files k = Inr v)"

text \<open>
  An operation whose answer does not depend on what the caches hold, as long as they hold what the files do, and which
  leaves them so.
\<close>

definition transparent :: "Files \<Rightarrow> 'a from_store \<Rightarrow> bool" where
  "transparent files m \<longleftrightarrow>
     (\<forall>s t. caches_ok files s \<longrightarrow> caches_ok files t \<longrightarrow> ds_characters t = ds_characters s \<longrightarrow>
        fst (m t) = fst (m s) \<and> caches_ok files (snd (m s)) \<and> ds_characters (snd (m s)) = ds_characters s \<and>
        ds_meanings (snd (m s)) = ds_meanings s)"

lemma transparentD:
  assumes "transparent files m" and "caches_ok files s"
  shows transparent_caches: "caches_ok files (snd (m s))"
    and transparent_characters: "ds_characters (snd (m s)) = ds_characters s"
    and transparent_meanings: "ds_meanings (snd (m s)) = ds_meanings s"
    and transparent_answer: "caches_ok files t \<Longrightarrow> ds_characters t = ds_characters s \<Longrightarrow> fst (m t) = fst (m s)"
  using assms unfolding transparent_def by blast+

lemma transparentI:
  assumes "\<And>s. caches_ok files s \<Longrightarrow>
    fst (m s) = a (ds_characters s) \<and> caches_ok files (snd (m s)) \<and> ds_characters (snd (m s)) = ds_characters s \<and>
    ds_meanings (snd (m s)) = ds_meanings s"
  shows "transparent files m"
  unfolding transparent_def using assms by simp

lemma transparent_const: "transparent files (\<lambda>s. (v, s))"
  by (rule transparentI [where a = "\<lambda>_. v"]) simp

lemma transparent_bind:
  assumes m: "transparent files m" and k: "\<And>v. transparent files (k v)"
  shows "transparent files (\<lambda>s. case m s of (Inl e, s) \<Rightarrow> (Inl e, s) | (Inr v, s) \<Rightarrow> k v s)"
  unfolding transparent_def
proof (intro allI impI)
  fix s t assume s: "caches_ok files s" and t: "caches_ok files t" and c: "ds_characters t = ds_characters s"
  let ?b = "\<lambda>s. case m s of (Inl e, s) \<Rightarrow> (Inl e, s) | (Inr v, s) \<Rightarrow> k v s"
  let ?P = "\<lambda>s' r. caches_ok files r \<and> ds_characters r = ds_characters s' \<and> ds_meanings r = ds_meanings s'"
  obtain a s1 where s1: "m s = (a, s1)" by (cases "m s")
  obtain a' t1 where t1: "m t = (a', t1)" by (cases "m t")
  have a: "a' = a" using transparent_answer [OF m s t c] s1 t1 by simp
  have ps: "?P s s1" using transparentD(1-3) [OF m s] s1 by simp
  have pt: "?P t t1" using transparentD(1-3) [OF m t] t1 by simp
  show "fst (?b t) = fst (?b s) \<and> ?P s (snd (?b s))"
  proof (cases a)
    case (Inl e)
    then show ?thesis using s1 t1 a ps by simp
  next
    case (Inr v)
    have b: "?b s = k v s1" "?b t = k v t1" using s1 t1 a Inr by simp_all
    have e: "fst (k v t1) = fst (k v s1)"
      by (rule transparent_answer [OF k]) (use ps pt c in simp_all)
    have "?P s1 (snd (k v s1))" using transparentD(1-3) [OF k, of s1 v] ps by simp
    then show ?thesis using e ps unfolding b by simp
  qed
qed

lemma transparent_if_known:
  assumes "\<And>v. transparent files (k v)"
  shows "transparent files (\<lambda>s. case f (ds_characters s) of None \<Rightarrow> (d, s) | Some v \<Rightarrow> k v s)"
  unfolding transparent_def
proof (intro allI impI)
  fix s t assume s: "caches_ok files s" and t: "caches_ok files t" and c: "ds_characters t = ds_characters s"
  show "fst (case f (ds_characters t) of None \<Rightarrow> (d, t) | Some v \<Rightarrow> k v t) =
        fst (case f (ds_characters s) of None \<Rightarrow> (d, s) | Some v \<Rightarrow> k v s) \<and>
      caches_ok files (snd (case f (ds_characters s) of None \<Rightarrow> (d, s) | Some v \<Rightarrow> k v s)) \<and>
      ds_characters (snd (case f (ds_characters s) of None \<Rightarrow> (d, s) | Some v \<Rightarrow> k v s)) = ds_characters s \<and>
      ds_meanings (snd (case f (ds_characters s) of None \<Rightarrow> (d, s) | Some v \<Rightarrow> k v s)) = ds_meanings s"
  proof (cases "f (ds_characters s)")
    case (Some v)
    then show ?thesis using transparentD(1-3) [OF assms s, of v] transparent_answer [OF assms s t c, of v] c by simp
  qed (use s c in simp)
qed

lemma load_louds_transparent: "transparent files (load_louds files i)"
  by (rule transparentI [where a = "\<lambda>_. louds_in files i"])
    (auto simp: load_louds_def louds_in_def Let_def caches_ok_def split: option.split sum.split)

lemma load_shard_transparent: "transparent files (load_shard files n)"
  by (rule transparentI [where a = "\<lambda>_. shard_in files n"])
    (auto simp: load_shard_def shard_in_def caches_ok_def split: option.split sum.split)

lemma connection_cost_transparent: "transparent files (connection_cost files former latter)"
  by (rule transparentI [where a = "\<lambda>_. map_sum id (\<lambda>line. line_value line latter) (line_in files former)"])
    (auto simp: connection_cost_def line_in_def Let_def caches_ok_def split: option.split sum.split FileRead.split)

lemma load_shards_transparent: "transparent files (load_shards files n shards out)"
proof (induction shards arbitrary: out)
  case Nil
  then show ?case by (simp add: transparent_const flip: fun_eq_iff)
next
  case (Cons p shards)
  obtain shard indices where p: "p = (shard, indices)" by (cases p)
  have "load_shards files n ((shard, indices) # shards) out =
      (\<lambda>s. case load_shard files (n @ show_nat shard) s of
         (Inl e, s) \<Rightarrow> (Inl e, s)
       | (Inr bytes, s) \<Rightarrow>
           (case parse_entry_shard bytes indices of
              Inl e \<Rightarrow> (Inl (BinaryError e), s)
            | Inr es \<Rightarrow> load_shards files n shards (out @ es) s))"
    by (rule ext) simp
  moreover have "transparent files (\<lambda>s. case parse_entry_shard bytes indices of
      Inl e \<Rightarrow> (Inl (BinaryError e), s) | Inr es \<Rightarrow> load_shards files n shards (out @ es) s)" for bytes
    using Cons.IH by (cases "parse_entry_shard bytes indices") (simp_all add: transparent_const)
  ultimately show ?case unfolding p by (simp only: transparent_bind [OF load_shard_transparent])
qed

lemma load_entries_transparent: "transparent files (load_entries files identifier nodes)"
  unfolding load_entries_def by (rule load_shards_transparent)

text \<open>What every lookup does once the trie is loaded: an empty answer without one.\<close>

lemma with_louds_transparent:
  assumes "\<And>l. transparent files (k l)"
  shows "transparent files (\<lambda>s. case load_louds files identifier s of
      (Inl e, s) \<Rightarrow> (Inl e, s) | (Inr None, s) \<Rightarrow> (Inr [], s) | (Inr (Some l), s) \<Rightarrow> k l s)"
proof (rule transparent_bind [OF load_louds_transparent])
  fix v :: "Louds option"
  show "transparent files (\<lambda>s. case v of None \<Rightarrow> (Inr [], s) | Some l \<Rightarrow> k l s)"
    using assms by (cases v) (simp_all add: transparent_const)
qed

lemma match_graphemes_transparent: "transparent files (match_graphemes files identifier l index ids out gs)"
proof (induction gs arbitrary: index ids out)
  case Nil
  then show ?case by (simp add: transparent_const flip: fun_eq_iff)
next
  case (Cons g gs)
  have e: "match_graphemes files identifier l index ids out (g # gs) =
      (\<lambda>s. case ds_characters s g of
        None \<Rightarrow> (Inr out, s)
      | Some i \<Rightarrow>
          (case search l (ids @ [i]) of
             None \<Rightarrow> (Inr out, s)
           | Some node \<Rightarrow>
               (case load_entries files identifier [node] s of
                  (Inl e, s) \<Rightarrow> (Inl e, s)
                | (Inr es, s) \<Rightarrow>
                    match_graphemes files identifier l (Suc index) (ids @ [i])
                      (if es = [] then out else out @ [\<lparr>surface_end = index + 1, match_entries = es\<rparr>]) gs s)))"
    by (rule ext) simp
  show ?case unfolding e
  proof (rule transparent_if_known)
    fix i
    show "transparent files (\<lambda>s. case search l (ids @ [i]) of
             None \<Rightarrow> (Inr out, s)
           | Some node \<Rightarrow>
               (case load_entries files identifier [node] s of
                  (Inl e, s) \<Rightarrow> (Inl e, s)
                | (Inr es, s) \<Rightarrow>
                    match_graphemes files identifier l (Suc index) (ids @ [i])
                      (if es = [] then out else out @ [\<lparr>surface_end = index + 1, match_entries = es\<rparr>]) gs s))"
    proof (cases "search l (ids @ [i])")
      case (Some node)
      then show ?thesis using transparent_bind [OF load_entries_transparent Cons.IH] by simp
    qed (simp add: transparent_const)
  qed
qed

lemma matches_from_start_transparent: "transparent files (store_matches_from_start graphemes files v n)"
proof (cases "graphemes v")
  case Nil
  then show ?thesis by (simp add: store_matches_from_start_def [abs_def] transparent_const)
next
  case (Cons g gs)
  then show ?thesis
    using with_louds_transparent [OF match_graphemes_transparent]
    by (simp add: store_matches_from_start_def [abs_def])
qed

text \<open>A lookup by the key of a text.\<close>

lemma with_key_transparent:
  assumes "\<And>identifier ids. transparent files (k identifier ids)"
  shows "transparent files (\<lambda>s. case lookup_key graphemes s v of
      None \<Rightarrow> (Inr [], s) | Some (identifier, ids) \<Rightarrow> k identifier ids s)"
proof -
  have "transparent files (\<lambda>s. case (case graphemes v of [] \<Rightarrow> None
      | g # _ \<Rightarrow> map_option (\<lambda>ids. (g, ids)) (encode_ids graphemes (ds_characters s) v)) of
      None \<Rightarrow> (Inr [], s) | Some p \<Rightarrow> k (fst p) (snd p) s)"
    by (rule transparent_if_known [where f = "\<lambda>c. case graphemes v of [] \<Rightarrow> None
      | g # _ \<Rightarrow> map_option (\<lambda>ids. (g, ids)) (encode_ids graphemes c v)"]) (rule assms)
  moreover have "(\<lambda>s. case lookup_key graphemes s v of None \<Rightarrow> (Inr [], s) | Some (i, ids) \<Rightarrow> k i ids s) =
      (\<lambda>s. case (case graphemes v of [] \<Rightarrow> None
      | g # _ \<Rightarrow> map_option (\<lambda>ids. (g, ids)) (encode_ids graphemes (ds_characters s) v)) of
      None \<Rightarrow> (Inr [], s) | Some p \<Rightarrow> k (fst p) (snd p) s)"
    by (rule ext) (simp add: lookup_key_def split: list.split option.split)
  ultimately show ?thesis by simp
qed

lemma exact_match_transparent: "transparent files (store_exact_match graphemes files v)"
  unfolding store_exact_match_def [abs_def]
proof (rule with_key_transparent, rule with_louds_transparent)
  fix i ids l
  show "transparent files (\<lambda>s. case search l ids of None \<Rightarrow> (Inr [], s) | Some node \<Rightarrow> load_entries files i [node] s)"
    by (cases "search l ids") (simp_all add: transparent_const load_entries_transparent)
qed

lemma entries_after_prefix_transparent: "transparent files (entries_after_prefix graphemes files v d n)"
  unfolding entries_after_prefix_def [abs_def]
  by (rule with_key_transparent, rule with_louds_transparent, rule load_entries_transparent)

section \<open>The stores a program reaches\<close>

inductive store_reached :: "segmenter \<Rightarrow> Files \<Rightarrow> DictionaryStore \<Rightarrow> DictionaryStore \<Rightarrow> bool"
  for graphemes files s0 where
  store_opened: "store_reached graphemes files s0 s0"
| store_matched: "store_reached graphemes files s0 s \<Longrightarrow>
    store_reached graphemes files s0 (snd (store_exact_match graphemes files v s))"
| store_walked: "store_reached graphemes files s0 s \<Longrightarrow>
    store_reached graphemes files s0 (snd (store_matches_from_start graphemes files v n s))"
| store_continued: "store_reached graphemes files s0 s \<Longrightarrow>
    store_reached graphemes files s0 (snd (entries_after_prefix graphemes files v d n s))"
| store_connected: "store_reached graphemes files s0 s \<Longrightarrow>
    store_reached graphemes files s0 (snd (connection_cost files former latter s))"

lemma opened_caches: "open_store graphemes files = Inr s \<Longrightarrow> caches_ok files s"
  by (auto simp: open_store_def caches_ok_def split: sum.splits option.splits)

lemma reached_caches:
  assumes "store_reached graphemes files s0 s" and "caches_ok files s0"
  shows "caches_ok files s \<and> ds_characters s = ds_characters s0 \<and> ds_meanings s = ds_meanings s0"
  using assms
  by (induction rule: store_reached.induct)
    (auto simp: transparentD [OF exact_match_transparent] transparentD [OF matches_from_start_transparent]
       transparentD [OF entries_after_prefix_transparent] transparentD [OF connection_cost_transparent])

text \<open>
  C25. The caches of the dictionary store are not observable. After any sequence of exact matches, walks from the start,
  continuations and connection costs over files that do not change, every lookup answers (entries or error) what it
  answers on a store that was just opened.
\<close>

theorem store_caches_transparent:
  assumes "open_store graphemes files = Inr s0" and "store_reached graphemes files s0 s"
  shows "fst (store_exact_match graphemes files v s) = fst (store_exact_match graphemes files v s0) \<and>
    fst (store_matches_from_start graphemes files v n s) = fst (store_matches_from_start graphemes files v n s0) \<and>
    fst (entries_after_prefix graphemes files v d n s) = fst (entries_after_prefix graphemes files v d n s0) \<and>
    fst (connection_cost files former latter s) = fst (connection_cost files former latter s0) \<and>
    meaning_cost s former latter = meaning_cost s0 former latter"
proof -
  note s0 = opened_caches [OF assms(1)]
  note s = reached_caches [OF assms(2) s0]
  show ?thesis
    using s by (simp add: transparent_answer [OF exact_match_transparent s0]
        transparent_answer [OF matches_from_start_transparent s0] meaning_cost_def
        transparent_answer [OF entries_after_prefix_transparent s0] transparent_answer [OF connection_cost_transparent s0])
qed

section \<open>The walk from the start\<close>

definition entries_at :: "nat \<Rightarrow> DictionaryMatch list \<Rightarrow> DictionaryEntry list" where
  "entries_at k ms = (case find (\<lambda>m. surface_end m = k) ms of Some m \<Rightarrow> match_entries m | None \<Rightarrow> [])"

lemma entries_at_simps [simp]:
  "entries_at k [] = []"
  "entries_at k (m # ms) = (if surface_end m = k then match_entries m else entries_at k ms)"
  by (simp_all add: entries_at_def)

lemma entries_at_later: "\<forall>m \<in> set ms. k < surface_end m \<Longrightarrow> entries_at k ms = []"
  by (induction ms) auto

lemma search_from_append:
  "search_from l node (xs @ ys) = Option.bind (search_from l node xs) (\<lambda>n. search_from l n ys)"
  by (induction xs arbitrary: node) (auto split: option.split)

lemma search_longer: "search l xs = None \<Longrightarrow> search l (xs @ ys) = None"
  by (simp add: search_def search_from_append)

lemma those_append:
  "those (xs @ ys) = Option.bind (those xs) (\<lambda>a. map_option (\<lambda>b. a @ b) (those ys))"
proof (induction xs)
  case Nil
  then show ?case by (cases "those ys") auto
next
  case (Cons x xs)
  then show ?case by (cases x; cases "those xs"; cases "those ys") auto
qed

text \<open>The exact match of a list of graphemes whose trie is loaded.\<close>

definition exact_in :: "Files \<Rightarrow> ustr \<Rightarrow> Louds \<Rightarrow> DictionaryStore \<Rightarrow> grapheme list \<Rightarrow> DictionaryError + DictionaryEntry list" where
  "exact_in files i l s gs =
     (case those (map (ds_characters s) gs) of
        None \<Rightarrow> Inr []
      | Some ids \<Rightarrow>
          (case search l ids of None \<Rightarrow> Inr [] | Some node \<Rightarrow> fst (load_entries files i [node] s)))"

lemma exact_in_stops:
  assumes "those (map (ds_characters s) past) = Some ids" and "ds_characters s g = None \<or>
    (\<exists>j. ds_characters s g = Some j \<and> search l (ids @ [j]) = None)"
  shows "exact_in files i l s (past @ g # gs) = Inr []"
  using assms search_longer [of l "ids @ [j]" for j]
  by (auto simp: exact_in_def those_append split: option.split)

lemma match_graphemes_exact:
  assumes "match_graphemes files i l (length past) ids out gs s = (Inr ms, t)"
    and "caches_ok files s" and "caches_ok files s0" and "ds_characters s = ds_characters s0"
    and "those (map (ds_characters s0) past) = Some ids"
  shows "\<exists>new. ms = out @ new \<and> (\<forall>m \<in> set new. length past < surface_end m) \<and>
    (\<forall>k. 0 < k \<longrightarrow> k \<le> length gs \<longrightarrow>
       exact_in files i l s0 (past @ take k gs) = Inr (entries_at (length past + k) new))"
  using assms
proof (induction gs arbitrary: past ids out s)
  case Nil
  then show ?case by simp
next
  case (Cons g gs)
  have stop: "\<forall>k. 0 < k \<longrightarrow> k \<le> length (g # gs) \<longrightarrow> exact_in files i l s0 (past @ take k (g # gs)) = Inr []"
    if "ds_characters s0 g = None \<or> (\<exists>j. ds_characters s0 g = Some j \<and> search l (ids @ [j]) = None)"
    using exact_in_stops [OF Cons.prems(5) that] by (auto simp: take_Cons' )
  show ?case
  proof (cases "\<exists>j node. ds_characters s0 g = Some j \<and> search l (ids @ [j]) = Some node")
    case False
    then have st: "ds_characters s0 g = None \<or> (\<exists>j. ds_characters s0 g = Some j \<and> search l (ids @ [j]) = None)"
      by (cases "ds_characters s0 g") auto
    have "ms = out" using Cons.prems(1,4) False by (auto split: option.splits)
    then show ?thesis using stop [OF st] by (intro exI [of _ "[]"]) simp
  next
    case True
    then obtain j node where j: "ds_characters s0 g = Some j" "search l (ids @ [j]) = Some node" by blast
    let ?out = "\<lambda>es. if es = [] then out else out @ [\<lparr>surface_end = length past + 1, match_entries = es\<rparr>]"
    obtain es s1 where es: "load_entries files i [node] s = (Inr es, s1)"
      and rest: "match_graphemes files i l (length (past @ [g])) (ids @ [j]) (?out es) gs s1 = (Inr ms, t)"
      using Cons.prems(1,4) j by (cases "load_entries files i [node] s") (auto split: sum.splits)
    have s1: "caches_ok files s1" "ds_characters s1 = ds_characters s0"
      using transparentD(1,2) [OF load_entries_transparent Cons.prems(2), of i "[node]"] es Cons.prems(4) by simp_all
    have e0: "fst (load_entries files i [node] s0) = Inr es"
      using transparent_answer [OF load_entries_transparent Cons.prems(2,3), of i "[node]"] Cons.prems(4) es by simp
    have ids: "those (map (ds_characters s0) (past @ [g])) = Some (ids @ [j])"
      using Cons.prems(5) j by (simp add: those_append)
    from Cons.IH [OF rest s1(1) Cons.prems(3) s1(2) ids] obtain new where new: "ms = ?out es @ new"
      "\<forall>m \<in> set new. length (past @ [g]) < surface_end m"
      "\<And>k. 0 < k \<Longrightarrow> k \<le> length gs \<Longrightarrow>
        exact_in files i l s0 ((past @ [g]) @ take k gs) = Inr (entries_at (length (past @ [g]) + k) new)" by blast
    let ?new = "(if es = [] then [] else [\<lparr>surface_end = length past + 1, match_entries = es\<rparr>]) @ new"
    have first: "exact_in files i l s0 (past @ [g]) = Inr es"
      using ids j e0 by (simp add: exact_in_def)
    have none: "entries_at (length past + 1) new = []"
      by (rule entries_at_later) (use new(2) in simp)
    have "exact_in files i l s0 (past @ take k (g # gs)) = Inr (entries_at (length past + k) ?new)"
      if k: "0 < k" "k \<le> length (g # gs)" for k
    proof (cases "k = 1")
      case True
      then show ?thesis using first none by simp
    next
      case False
      then obtain k' where k': "k = Suc k'" "0 < k'" "k' \<le> length gs" using k by (cases k) auto
      then show ?thesis using new(3) [of k'] by simp
    qed
    then show ?thesis using new(1,2) by (intro exI [of _ ?new]) auto
  qed
qed

text \<open>
  C26. The walk of \<open>matches_from_start\<close> is the exact matches of the prefixes, in one pass over the trie: where it answers,
  it holds at each length up to the maximum the entries \<open>exact_match\<close> gives for that prefix, and nothing where that has
  none, although the walk ends at the first grapheme the trie does not have. (A prefix that ends between graphemes is
  segmented as it was in the text.)
\<close>

theorem matches_are_exact_matches:
  assumes "open_store graphemes files = Inr s0" and "store_reached graphemes files s0 s" and "store_reached graphemes files s0 s'"
    and "store_matches_from_start graphemes files v n s = (Inr ms, t)"
    and "0 < k" and "k \<le> n" and "k \<le> length (graphemes v)"
    and "graphemes (concat (take k (graphemes v))) = take k (graphemes v)"
  shows "fst (store_exact_match graphemes files (concat (take k (graphemes v))) s') = Inr (entries_at k ms)"
proof -
  note s0 = opened_caches [OF assms(1)]
  note s = reached_caches [OF assms(2) s0] and s' = reached_caches [OF assms(3) s0]
  obtain g gs where g: "graphemes v = g # gs" using assms(5,7) by (cases "graphemes v") auto
  obtain r s1 where r: "load_louds files g s = (r, s1)" by (cases "load_louds files g s")
  obtain s2 where s2: "load_louds files g s0 = (r, s2)"
    using transparent_answer [OF load_louds_transparent, of files s s0 g] s s0 r by (cases "load_louds files g s0") auto
  have ok: "caches_ok files s1" "ds_characters s1 = ds_characters s0" "caches_ok files s2" "ds_characters s2 = ds_characters s0"
    using transparentD(1,2) [OF load_louds_transparent, of files s g] transparentD(1,2) [OF load_louds_transparent s0, of g]
      s r s2 by simp_all
  have start: "take k (graphemes v) = g # take (k - 1) gs" using g assms(5) by (cases k) simp_all
  have key: "lookup_key graphemes s0 (concat (take k (graphemes v))) =
      map_option (\<lambda>ids. (g, ids)) (those (map (ds_characters s0) (take k (graphemes v))))"
    using assms(8) start by (simp add: lookup_key_def encode_ids_def)
  have "fst (store_exact_match graphemes files (concat (take k (graphemes v))) s0) = Inr (entries_at k ms)"
  proof (cases r)
    case (Inl e)
    then show ?thesis using assms(4) g r by (simp add: store_matches_from_start_def)
  next
    case (Inr o1)
    show ?thesis
    proof (cases o1)
      case None
      then show ?thesis using assms(4) g r s2 Inr key
        by (auto simp: store_matches_from_start_def store_exact_match_def split: option.split)
    next
      case (Some l)
      have "match_graphemes files g l (length []) [] [] (take n (graphemes v)) s1 = (Inr ms, t)"
        using assms(4) g r Inr Some by (simp add: store_matches_from_start_def)
      from match_graphemes_exact [OF this ok(1,3)] ok
      have "exact_in files g l s2 (take k (take n (graphemes v))) = Inr (entries_at k ms)"
        using assms(5-7) by auto
      then have "exact_in files g l s2 (take k (graphemes v)) = Inr (entries_at k ms)"
        using assms(6) by (simp add: min_absorb1)
      then show ?thesis using s2 Inr Some key ok(4)
        by (auto simp: store_exact_match_def exact_in_def split: option.split)
    qed
  qed
  then show ?thesis
    using transparent_answer [OF exact_match_transparent s0, of s'] s' by simp
qed

section \<open>A sample dictionary\<close>

definition sample_shard :: "byte list" where
  "sample_shard = [3, 0, 14, 0, 0, 0, 14, 0, 0, 0, 14, 0, 0, 0, 1, 0, 7, 0, 7, 0, 1, 0, 0, 0, 0, 0, 0x61, 9, 0x41]"

definition sample_files :: Files where
  "sample_files n =
     (if n = ascii ''louds/charID.chid'' then Found [0x61, 0x62]
      else if n = ascii ''mm.binary'' then Found (replicate (4 * (MEANING_COUNT * MEANING_COUNT)) 0)
      else if n = ascii ''louds/[0061].louds'' then Found [0, 0, 0, 0, 0, 0, 0, 0xA0]
      else if n = ascii ''louds/[0061].loudschars2'' then Found [0, 0, 0]
      else if n = ascii ''louds/[0061]0.loudstxt3'' then Found sample_shard
      else Missing)"

definition single_graphemes :: segmenter where
  "single_graphemes v = map (\<lambda>c. [c]) v"

definition stored_entry :: DictionaryEntry where
  "stored_entry = \<lparr>word = ascii ''A'', ruby = ascii ''a'', left_id = 7, right_id = 7, meaning_id = 1, base_value = 0,
     adjustment = f32_zero, metadata = 0\<rparr>"

definition sample_store :: "MeaningMatrix \<Rightarrow> DictionaryStore" where
  "sample_store mm = \<lparr>ds_characters = map_of [([0x62], 1), ([0x61], 0)], ds_meanings = mm, ds_louds = Map.empty,
      ds_shards = Map.empty, ds_lines = Map.empty\<rparr>"

lemma sample_walk: "fst (store_matches_from_start single_graphemes sample_files (ascii ''ab'') 2 (sample_store mm)) =
    Inr [\<lparr>surface_end = 1, match_entries = [stored_entry]\<rparr>]"
  by code_simp

lemma concat_replicate: "concat (replicate n (replicate k x)) = replicate (k * n) x"
  by (induction n) (simp_all add: replicate_add add.commute)

lemma sample_meanings: "\<exists>mm. parse_meaning_matrix (replicate (4 * (MEANING_COUNT * MEANING_COUNT)) 0) = Inr mm"
proof -
  have "chunks 4 (concat (replicate n (replicate 4 x))) = replicate n (replicate 4 x)" for n and x :: byte
    by (rule chunks_concat) (simp_all add: list_all_iff)
  then have "chunks 4 (replicate (4 * n) (0 :: byte)) = replicate n (replicate 4 0)" for n
    by (simp add: concat_replicate)
  note c = this [of "MEANING_COUNT * MEANING_COUNT"]
  show ?thesis unfolding parse_meaning_matrix_def Let_def c by simp
qed

lemma store_sample_opened: "\<exists>mm. open_store single_graphemes sample_files = Inr (sample_store mm)"
proof -
  obtain mm where mm: "parse_meaning_matrix (replicate (4 * (MEANING_COUNT * MEANING_COUNT)) 0) = Inr mm"
    using sample_meanings by blast
  have ids: "sample_files (ascii ''louds/charID.chid'') = Found [0x61, 0x62]"
    and matrix: "sample_files (ascii ''mm.binary'') = Found (replicate (4 * (MEANING_COUNT * MEANING_COUNT)) 0)"
    by (simp_all add: sample_files_def ascii_def)
  have "from_utf8 [0x61, 0x62] = Some [0x61, 0x62]" by code_simp
  moreover have "parse_character_ids single_graphemes [0x61, 0x62] = Inr (map_of [([0x62], 1), ([0x61], 0)])"
    by (simp add: parse_character_ids_def single_graphemes_def upt_rec)
  ultimately have "open_store single_graphemes sample_files = Inr (sample_store mm)"
    unfolding open_store_def read_file_def ids matrix by (simp only: mm sum.case FileRead.case option.case sample_store_def)
  then show ?thesis by blast
qed

lemma matches_are_exact_matches_witness:
  "\<exists>s ms. fst (store_matches_from_start single_graphemes sample_files (ascii ''ab'') 2 s) = Inr ms \<and>
     fst (store_exact_match single_graphemes sample_files (ascii ''a'') s) = Inr (entries_at 1 ms) \<and> entries_at 1 ms = [stored_entry]"
proof -
  obtain mm where mm: "open_store single_graphemes sample_files = Inr (sample_store mm)" using store_sample_opened by blast
  let ?ms = "[\<lparr>surface_end = 1, match_entries = [stored_entry]\<rparr>]"
  obtain t where t: "store_matches_from_start single_graphemes sample_files (ascii ''ab'') 2 (sample_store mm) = (Inr ?ms, t)"
    using sample_walk [of mm] by (cases "store_matches_from_start single_graphemes sample_files (ascii ''ab'') 2 (sample_store mm)") simp
  have "fst (store_exact_match single_graphemes sample_files (concat (take 1 (single_graphemes (ascii ''ab'')))) (sample_store mm)) =
      Inr (entries_at 1 ?ms)"
    by (rule matches_are_exact_matches [OF mm store_opened store_opened t]) (simp_all add: single_graphemes_def ascii_def)
  then show ?thesis using t by (intro exI [of _ "sample_store mm"] exI [of _ ?ms]) (simp add: single_graphemes_def ascii_def)
qed

lemma store_caches_transparent_witness:
  "\<exists>s0 s. ds_shards s \<noteq> Map.empty \<and>
     fst (store_matches_from_start single_graphemes sample_files (ascii ''ab'') 2 s) =
       fst (store_matches_from_start single_graphemes sample_files (ascii ''ab'') 2 s0) \<and>
     fst (store_matches_from_start single_graphemes sample_files (ascii ''ab'') 2 s0) = Inr [\<lparr>surface_end = 1, match_entries = [stored_entry]\<rparr>]"
proof -
  obtain mm where mm: "open_store single_graphemes sample_files = Inr (sample_store mm)" using store_sample_opened by blast
  let ?s = "snd (store_matches_from_start single_graphemes sample_files (ascii ''ab'') 2 (sample_store mm))"
  have r: "store_reached single_graphemes sample_files (sample_store mm) ?s" by (rule store_walked, rule store_opened)
  have "ds_shards ?s (ascii ''[0061]0'') = Some sample_shard" by code_simp
  then have "ds_shards ?s \<noteq> Map.empty" by (metis option.distinct(1))
  then show ?thesis using store_caches_transparent [OF mm r, of "ascii ''ab''" 2 0 0 0] sample_walk by blast
qed

end
