(* ===== verification/F32_Arith.thy ===== *)
theory F32_Arith
  imports F32
begin

unbundle bit_operations_syntax

text \<open>
  Multiplication, division and the remaining operations on \<open>f32\<close> the lattice and the typo correction use, and the
  monotonicity of rounding and addition, on which the optimality of the search rests.
\<close>

section \<open>Operations\<close>

text \<open>The magnitude nearest to the ratio \<open>p / q\<close> of units, ties to even.\<close>

definition magnitude_of_ratio :: "int \<Rightarrow> int \<Rightarrow> int" where
  "magnitude_of_ratio p q =
     (let s = max 0 (bitlen (p div q) - 24);
          d = q * 2 ^ nat s; n = p div d; r = p mod d;
          n' = (if 2 * r > d \<or> 2 * r = d \<and> odd n then n + 1 else n)
      in min (s * 2 ^ 23 + n') (255 * 2 ^ 23))"

definition f32_mul :: "f32 \<Rightarrow> f32 \<Rightarrow> f32" where
  "f32_mul a b =
     (let s = (f32_sign a \<noteq> f32_sign b)
      in if f32_is_nan a \<or> f32_is_nan b then f32_nan
         else if f32_is_infinite a \<or> f32_is_infinite b
           then (if magnitude a = 0 \<or> magnitude b = 0 then f32_nan else with_sign s (255 * 2 ^ 23))
         else with_sign s (magnitude_of_ratio (\<bar>units a\<bar> * \<bar>units b\<bar>) (2 ^ 149)))"

definition f32_div :: "f32 \<Rightarrow> f32 \<Rightarrow> f32" where
  "f32_div a b =
     (let s = (f32_sign a \<noteq> f32_sign b)
      in if f32_is_nan a \<or> f32_is_nan b then f32_nan
         else if f32_is_infinite a then (if f32_is_infinite b then f32_nan else with_sign s (255 * 2 ^ 23))
         else if f32_is_infinite b then with_sign s 0
         else if magnitude b = 0 then (if magnitude a = 0 then f32_nan else with_sign s (255 * 2 ^ 23))
         else with_sign s (magnitude_of_ratio (\<bar>units a\<bar> * 2 ^ 149) \<bar>units b\<bar>))"

text \<open>The operator \<open>-\<close> flips the sign bit; \<open>n as f32\<close>.\<close>

definition f32_negate :: "f32 \<Rightarrow> f32" where
  "f32_negate a = a XOR 0x80000000"

definition f32_sub :: "f32 \<Rightarrow> f32 \<Rightarrow> f32" where
  "f32_sub a b = f32_add a (f32_negate b)"

definition f32_of_nat :: "nat \<Rightarrow> f32" where
  "f32_of_nat n = with_sign False (magnitude_of_units (int n * 2 ^ 149))"

text \<open>The operator \<open>>=\<close>.\<close>

definition f32_ge :: "f32 \<Rightarrow> f32 \<Rightarrow> bool" where
  "f32_ge a b \<longleftrightarrow> \<not> f32_is_nan a \<and> \<not> f32_is_nan b \<and> f32_key b \<le> f32_key a"

lemma sample_products:
  "f32_mul 0xC1600000 0x3F000000 = 0xC0E00000" "f32_mul 0x3F19999A 0x3F333333 = 0x3ED70A3E"
  "f32_div 0xC0000000 0x40400000 = 0xBF2AAAAB" "f32_of_nat 3 = 0x40400000" "f32_sub 0xC1500000 0xC1880000 = 0x40800000"
  by code_simp+

section \<open>Monotonicity\<close>

definition rounded :: "nat \<Rightarrow> int \<Rightarrow> int" where
  "rounded s a =
     (let q = a div 2 ^ s; r = a mod 2 ^ s; half = 2 ^ (s - 1)
      in if r > half \<or> r = half \<and> odd q then q + 1 else q)"

lemma rounded_mono: "a \<le> b \<Longrightarrow> rounded s a \<le> rounded s b"
proof -
  assume ab: "a \<le> b"
  have q: "a div 2 ^ s \<le> b div 2 ^ s" using ab by (simp add: zdiv_mono1)
  show ?thesis
  proof (cases "a div 2 ^ s = b div 2 ^ s")
    case True
    have "a mod 2 ^ s \<le> b mod 2 ^ s"
      using ab True div_mult_mod_eq [of a "2 ^ s"] div_mult_mod_eq [of b "2 ^ s"] by simp
    then show ?thesis using True by (auto simp: rounded_def Let_def)
  next
    case False
    then show ?thesis using q by (auto simp: rounded_def Let_def)
  qed
qed

lemma bitlen_long:
  assumes "2 ^ 24 \<le> a"
  shows "24 < bitlen a" and "2 ^ nat (bitlen a - 1) \<le> a" and "a < 2 ^ nat (bitlen a)"
proof -
  have pos: "0 < a" using assms by (rule less_le_trans [rotated]) simp
  show b: "2 ^ nat (bitlen a - 1) \<le> a" "a < 2 ^ nat (bitlen a)" using bitlen_bounds [OF pos] by auto
  show "24 < bitlen a"
  proof (rule ccontr)
    assume "\<not> 24 < bitlen a"
    then have "nat (bitlen a) \<le> 24" by simp
    then have "(2::int) ^ nat (bitlen a) \<le> 2 ^ 24" by (intro power_increasing) auto
    then show False using b assms by linarith
  qed
qed

lemma magnitude_of_units_rounded:
  "magnitude_of_units a =
     (if a < 2 ^ 24 then a else min ((bitlen a - 24) * 2 ^ 23 + rounded (nat (bitlen a - 24)) a) (255 * 2 ^ 23))"
proof (cases "a < 2 ^ 24")
  case False
  then have "nat (bitlen a - 24 - 1) = nat (bitlen a - 24) - 1" using bitlen_long(1) [of a] by simp
  then show ?thesis using False by (simp add: magnitude_of_units_def rounded_def Let_def)
qed (simp add: magnitude_of_units_def)

lemma quotient_bounds:
  assumes "2 ^ 24 \<le> a"
  shows "2 ^ 23 \<le> a div 2 ^ nat (bitlen a - 24)" and "a div 2 ^ nat (bitlen a - 24) < 2 ^ 24"
proof -
  note b = bitlen_long [OF assms]
  let ?s = "nat (bitlen a - 24)"
  have e: "nat (bitlen a - 1) = 23 + ?s" "nat (bitlen a) = 24 + ?s" using b(1) by auto
  have l: "2 ^ 23 * 2 ^ ?s \<le> a" and u: "a < 2 ^ 24 * 2 ^ ?s" using b(2,3) unfolding e power_add by auto
  have "(2 ^ 23 * 2 ^ ?s) div 2 ^ ?s \<le> a div 2 ^ ?s" by (rule zdiv_mono1 [OF l]) simp
  then show "2 ^ 23 \<le> a div 2 ^ ?s" by simp
  show "a div 2 ^ ?s < 2 ^ 24"
  proof (rule ccontr)
    assume "\<not> a div 2 ^ ?s < 2 ^ 24"
    then have "2 ^ 24 * 2 ^ ?s \<le> a div 2 ^ ?s * 2 ^ ?s" by (intro mult_right_mono) auto
    also have "\<dots> \<le> a" using div_mult_mod_eq [of a "2 ^ ?s"] pos_mod_sign [of "2 ^ ?s" a] zero_less_power [of "2::int" ?s] by linarith
    finally show False using u by simp
  qed
qed

lemma rounded_bounds:
  assumes "2 ^ 24 \<le> a"
  shows "2 ^ 23 \<le> rounded (nat (bitlen a - 24)) a" and "rounded (nat (bitlen a - 24)) a \<le> 2 ^ 24"
  using quotient_bounds [OF assms] by (auto simp: rounded_def Let_def)

lemma bitlen_mono:
  assumes "0 < a" and "a \<le> b"
  shows "bitlen a \<le> bitlen b"
proof (rule ccontr)
  assume "\<not> bitlen a \<le> bitlen b"
  then have "nat (bitlen b) \<le> nat (bitlen a - 1)" by simp
  then have "(2::int) ^ nat (bitlen b) \<le> 2 ^ nat (bitlen a - 1)" by (intro power_increasing) auto
  moreover have "2 ^ nat (bitlen a - 1) \<le> a" using bitlen_bounds [of a] assms by auto
  moreover have "b < 2 ^ nat (bitlen b)" using bitlen_bounds [of b] assms by auto
  ultimately show False using assms(2) by linarith
qed

lemma magnitude_of_units_mono:
  assumes "0 \<le> a" and "a \<le> b"
  shows "magnitude_of_units a \<le> magnitude_of_units b"
proof (cases "b < 2 ^ 24")
  case True
  then show ?thesis using assms by (simp add: magnitude_of_units_def)
next
  case b: False
  note bb = bitlen_long(1) [of b] rounded_bounds [of b]
  show ?thesis
  proof (cases "a < 2 ^ 24")
    case True
    have "2 ^ 24 \<le> (bitlen b - 24) * 2 ^ 23 + rounded (nat (bitlen b - 24)) b" using bb b by simp
    then show ?thesis using True b by (simp add: magnitude_of_units_rounded)
  next
    case a: False
    have l: "bitlen a \<le> bitlen b" using a assms by (intro bitlen_mono) auto
    have "(bitlen a - 24) * 2 ^ 23 + rounded (nat (bitlen a - 24)) a \<le> (bitlen b - 24) * 2 ^ 23 + rounded (nat (bitlen b - 24)) b"
    proof (cases "bitlen a = bitlen b")
      case True
      then show ?thesis using rounded_mono [OF assms(2)] by simp
    next
      case False
      then have "bitlen a + 1 \<le> bitlen b" using l by simp
      then have "(bitlen a + 1 - 24) * 2 ^ 23 \<le> (bitlen b - 24) * 2 ^ 23" by simp
      then show ?thesis using rounded_bounds [of a] a bb b by (simp add: algebra_simps)
    qed
    then show ?thesis using a b by (simp add: magnitude_of_units_rounded)
  qed
qed

lemma magnitude_of_units_bounds:
  assumes "0 \<le> a"
  shows "0 \<le> magnitude_of_units a" and "magnitude_of_units a \<le> 255 * 2 ^ 23"
proof -
  show "0 \<le> magnitude_of_units a"
    using magnitude_of_units_mono [of 0 a] assms by (simp add: magnitude_of_units_def)
  show "magnitude_of_units a \<le> 255 * 2 ^ 23"
    using assms by (cases "a < 2 ^ 24") (simp_all add: magnitude_of_units_rounded)
qed

lemma units_of_magnitude_mono:
  assumes "0 \<le> m" and "m \<le> n"
  shows "units_of_magnitude m \<le> units_of_magnitude n"
proof -
  define e f e' f' where "e = m div 2 ^ 23" and "f = m mod 2 ^ 23" and "e' = n div 2 ^ 23" and "f' = n mod (2 ^ 23 :: int)"
  note d = e_def f_def e'_def f'_def
  have m: "m = e * 2 ^ 23 + f" and n: "n = e' * 2 ^ 23 + f'" by (simp_all add: d)
  have f: "0 \<le> f" "f < 2 ^ 23" "0 \<le> f'" "f' < 2 ^ 23" by (simp_all add: d)
  have e: "0 \<le> e" "e \<le> e'" using assms by (simp_all add: d zdiv_mono1 pos_imp_zdiv_nonneg_iff)
  have u: "units_of_magnitude m = (if e = 0 then f else (2 ^ 23 + f) * 2 ^ nat (e - 1))"
    "units_of_magnitude n = (if e' = 0 then f' else (2 ^ 23 + f') * 2 ^ nat (e' - 1))"
    by (simp_all add: units_of_magnitude_def Let_def d)
  consider "e = e'" | "e = 0" "0 < e'" | "0 < e" "e < e'" using e by linarith
  then show ?thesis
  proof cases
    case 1
    then have "f \<le> f'" using assms(2) m n by simp
    then show ?thesis using 1 by (simp add: u)
  next
    case 2
    have "(1::int) \<le> 2 ^ nat (e' - 1)" by simp
    then have "(2 ^ 23 + f') * 1 \<le> (2 ^ 23 + f') * 2 ^ nat (e' - 1)" using f by (intro mult_left_mono) auto
    moreover have "f \<le> (2 ^ 23 + f') * 1" using f by simp
    ultimately have "f \<le> (2 ^ 23 + f') * 2 ^ nat (e' - 1)" by linarith
    moreover have "units_of_magnitude m = f" "units_of_magnitude n = (2 ^ 23 + f') * 2 ^ nat (e' - 1)"
      using 2 unfolding u by auto
    ultimately show ?thesis by simp
  next
    case 3
    have "(2 ^ 23 + f) * 2 ^ nat (e - 1) \<le> 2 ^ 24 * 2 ^ nat (e - 1)" using f by (intro mult_right_mono) auto
    also have "(2::int) ^ 24 * 2 ^ nat (e - 1) = 2 ^ 23 * 2 ^ nat e"
      using 3 by (simp flip: power_add power_Suc add: nat_diff_distrib)
    also have "\<dots> \<le> 2 ^ 23 * 2 ^ nat (e' - 1)" using 3 by (intro mult_left_mono power_increasing) auto
    also have "\<dots> \<le> (2 ^ 23 + f') * 2 ^ nat (e' - 1)" using f by (intro mult_right_mono) auto
    finally show ?thesis using 3 by (simp add: u)
  qed
qed

text \<open>Scores: not NaN and not positive.\<close>

definition nonpositive :: "f32 \<Rightarrow> bool" where
  "nonpositive x \<longleftrightarrow> \<not> f32_is_nan x \<and> f32_key x \<le> 0"

lemma nonpositive_zero [simp]: "nonpositive f32_zero"
  by (simp add: nonpositive_def f32_zero_def f32_is_nan_def f32_key_def magnitude_def f32_sign_def)

lemma units_nonpositive: "nonpositive x \<Longrightarrow> units x = - units_of_magnitude (- f32_key x)"
  using magnitude_bounds [of x]
  by (auto simp: nonpositive_def units_def f32_key_def units_of_magnitude_def split: if_splits)

lemma units_of_magnitude_nonneg: "0 \<le> m \<Longrightarrow> 0 \<le> units_of_magnitude m"
  using units_of_magnitude_mono [of 0 m] by (simp add: units_of_magnitude_def)

lemma key_with_sign:
  assumes "0 \<le> m" and "m \<le> 255 * 2 ^ 23"
  shows "f32_key (with_sign s m) = (if s then - m else m)" and "\<not> f32_is_nan (with_sign s m)"
  using with_sign_parts [of m s] assms by (auto simp: f32_key_def f32_is_nan_def)

lemma key_least: "nonpositive x \<Longrightarrow> - (255 * 2 ^ 23) \<le> f32_key x"
  using magnitude_bounds [of x] by (auto simp: nonpositive_def f32_is_nan_def f32_key_def)

lemma key_infinite: "nonpositive x \<Longrightarrow> f32_is_infinite x \<longleftrightarrow> f32_key x = - (255 * 2 ^ 23)"
  using magnitude_bounds [of x] by (auto simp: nonpositive_def f32_is_infinite_def f32_key_def split: if_splits)

lemma key_add_finite:
  assumes "nonpositive a" and "nonpositive b" and "\<not> f32_is_infinite a" and "\<not> f32_is_infinite b"
  shows "f32_key (f32_add a b) = - magnitude_of_units (units_of_magnitude (- f32_key a) + units_of_magnitude (- f32_key b))"
    and "\<not> f32_is_nan (f32_add a b)"
proof -
  define u where "u = units_of_magnitude (- f32_key a) + units_of_magnitude (- f32_key b)"
  have u: "0 \<le> u" using assms(1,2) by (simp add: u_def units_of_magnitude_nonneg nonpositive_def)
  have k: "units a + units b = - u" using assms(1,2) by (simp add: u_def units_nonpositive)
  have nan: "\<not> f32_is_nan a" "\<not> f32_is_nan b" using assms by (simp_all add: nonpositive_def)
  have add: "f32_add a b = (if u = 0 then with_sign (f32_sign a \<and> f32_sign b) 0 else with_sign True (magnitude_of_units u))"
    using u nan assms(3,4) by (simp add: f32_add_def k)
  have "f32_key (f32_add a b) = - magnitude_of_units u \<and> \<not> f32_is_nan (f32_add a b)"
  proof (cases "u = 0")
    case True
    then show ?thesis unfolding add using key_with_sign [of 0] by (simp add: magnitude_of_units_def)
  next
    case False
    then show ?thesis
      unfolding add using key_with_sign [OF magnitude_of_units_bounds [OF u], of True] by simp
  qed
  then show "f32_key (f32_add a b) = - magnitude_of_units (units_of_magnitude (- f32_key a) + units_of_magnitude (- f32_key b))"
    and "\<not> f32_is_nan (f32_add a b)" by (simp_all add: u_def)
qed

lemma add_infinite:
  assumes "nonpositive a" and "nonpositive b" and "f32_is_infinite a \<or> f32_is_infinite b"
  shows "f32_key (f32_add a b) = - (255 * 2 ^ 23)" and "\<not> f32_is_nan (f32_add a b)"
proof -
  have s: "f32_is_infinite x \<Longrightarrow> nonpositive x \<Longrightarrow> f32_sign x" for x
    by (auto simp: nonpositive_def f32_is_infinite_def f32_key_def split: if_splits)
  have nan: "\<not> f32_is_nan a" "\<not> f32_is_nan b" using assms by (simp_all add: nonpositive_def)
  show "f32_key (f32_add a b) = - (255 * 2 ^ 23)" "\<not> f32_is_nan (f32_add a b)"
    using assms s [of a] s [of b] nan key_infinite [of a] key_infinite [of b] by (auto simp: f32_add_def)
qed

lemma nonpositive_add [simp]: "nonpositive a \<Longrightarrow> nonpositive b \<Longrightarrow> nonpositive (f32_add a b)"
proof (cases "f32_is_infinite a \<or> f32_is_infinite b")
  case True
  assume "nonpositive a" "nonpositive b"
  then show ?thesis using add_infinite [OF _ _ True] by (simp add: nonpositive_def)
next
  case False
  assume n: "nonpositive a" "nonpositive b"
  have "0 \<le> units_of_magnitude (- f32_key a) + units_of_magnitude (- f32_key b)"
    using n by (simp add: units_of_magnitude_nonneg nonpositive_def)
  then show ?thesis using key_add_finite [OF n] False magnitude_of_units_bounds(1) by (simp add: nonpositive_def)
qed

text \<open>A better score stays at least as good when the same score is added to both.\<close>

lemma add_mono_nonpositive:
  assumes "nonpositive a" and "nonpositive b" and "nonpositive c" and "f32_key a \<le> f32_key b"
  shows "f32_key (f32_add a c) \<le> f32_key (f32_add b c)"
proof (cases "f32_is_infinite a \<or> f32_is_infinite c")
  case True
  have "f32_key (f32_add a c) = - (255 * 2 ^ 23)" using assms True by (intro add_infinite)
  then show ?thesis using key_least [of "f32_add b c"] assms by simp
next
  case False
  have b: "\<not> f32_is_infinite b"
    using False assms key_infinite [of a] key_infinite [of b] key_least [of a] by auto
  have "units_of_magnitude (- f32_key b) \<le> units_of_magnitude (- f32_key a)"
    using assms by (intro units_of_magnitude_mono) (auto simp: nonpositive_def)
  then have "magnitude_of_units (units_of_magnitude (- f32_key b) + units_of_magnitude (- f32_key c)) \<le>
      magnitude_of_units (units_of_magnitude (- f32_key a) + units_of_magnitude (- f32_key c))"
    using assms by (intro magnitude_of_units_mono add_mono add_nonneg_nonneg units_of_magnitude_nonneg)
      (auto simp: nonpositive_def)
  then show ?thesis using key_add_finite(1) assms False b by simp
qed

end
