(* ===== verification/Typo.thy ===== *)
theory Typo
  imports Composing_Edit F32_Arith
begin

text \<open>
  \<open>crates/converter/src/typo.rs\<close>: the enumeration of readings that differ from the input by a few typing errors. The
  result of the source is a \<open>HashMap\<close>; here it is the list of its entries in the order they were first put in, and the
  order in which the map gives them is an argument of the lattice.
\<close>

definition MAXIMUM_PENALTY :: f32 where
  "MAXIMUM_PENALTY = 0x41280000"

record TypoPrefix =
  tp_ruby :: ustr
  tp_consumed :: nat
  tp_penalty :: f32

definition render :: "InputTableRegistry \<Rightarrow> InputElement list \<Rightarrow> ustr" where
  "render tables elements = surface_text (insert_elements tables elements new_composing)"

definition is_stable_prefix :: "InputTableRegistry \<Rightarrow> InputElement list \<Rightarrow> nat \<Rightarrow> InputElement list \<Rightarrow> bool" where
  "is_stable_prefix tables typed consumed elements \<longleftrightarrow>
     consumed \<ge> length typed \<or> prefix (render tables elements) (render tables (elements @ [typed ! consumed]))"

definition replacement_table :: "(ustr \<times> (ustr \<times> f32) list) list" where
  "replacement_table =
   [
    ([0x30AB], [([0x30AC], 0x40E00000)]), ([0x30AD], [([0x30AE], 0x40600000)]),
    ([0x30AF], [([0x30B0], 0x40600000)]), ([0x30B1], [([0x30B2], 0x40600000)]),
    ([0x30B3], [([0x30B4], 0x40600000)]), ([0x30B5], [([0x30B6], 0x40600000)]),
    ([0x30B7], [([0x30B8], 0x40600000)]), ([0x30B9], [([0x30BA], 0x40600000)]),
    ([0x30BB], [([0x30BC], 0x40600000)]), ([0x30BD], [([0x30BE], 0x40600000)]),
    ([0x30BF], [([0x30C0], 0x40C00000)]), ([0x30C1], [([0x30C2], 0x40600000)]),
    ([0x30C4], [([0x30C3], 0x40C00000), ([0x30C5], 0x40900000)]), ([0x30C6], [([0x30C7], 0x40C00000)]),
    ([0x30C8], [([0x30C9], 0x40900000)]), ([0x30CF], [([0x30D0], 0x40900000), ([0x30D1], 0x40C00000)]),
    ([0x30D2], [([0x30D3], 0x40600000), ([0x30D4], 0x40900000)]), ([0x30D5], [([0x30D6], 0x40600000), ([0x30D7], 0x40900000)]),
    ([0x30D8], [([0x30D9], 0x40600000), ([0x30DA], 0x40900000)]), ([0x30DB], [([0x30DC], 0x40600000), ([0x30DD], 0x40900000)]),
    ([0x30D0], [([0x30D1], 0x40600000)]), ([0x30D3], [([0x30D4], 0x40600000)]),
    ([0x30D6], [([0x30D7], 0x40600000)]), ([0x30D9], [([0x30DA], 0x40600000)]),
    ([0x30DC], [([0x30DD], 0x40600000)]), ([0x30E4], [([0x30E3], 0x40600000)]),
    ([0x30E6], [([0x30E5], 0x40600000)]), ([0x30E8], [([0x30E7], 0x40600000)])
   ]"

definition direct_replacements :: "InputElement \<Rightarrow> (ustr \<times> f32) list" where
  "direct_replacements e =
     (if input_style e \<noteq> Direct then []
      else
        (case piece e of
           Character v \<Rightarrow> (case map_of replacement_table (to_katakana v) of Some rs \<Rightarrow> rs | None \<Rightarrow> [])
         | _ \<Rightarrow> []))"

fun characters_of :: "InputElement list \<Rightarrow> ustr option" where
  "characters_of [] = Some []"
| "characters_of (e # es) = (case piece e of Character v \<Rightarrow> map_option ((@) v) (characters_of es) | _ \<Rightarrow> None)"

definition roman_table :: "(ustr \<times> ustr) list" where
  "roman_table =
     map (\<lambda>(a, b). (ascii a, ascii b))
       [(''bs'', ''ba''), (''no'', ''bo''), (''li'', ''ki''), (''lo'', ''ko''), (''lu'', ''ku''), (''my'', ''mu''),
        (''tp'', ''to''), (''ts'', ''ta''), (''wi'', ''wo''), (''pu'', ''ou'')]"

definition roman_replacement :: "InputElement list \<Rightarrow> ustr option" where
  "roman_replacement es =
     (if \<not> list_all (\<lambda>e. input_style e = RomanToKana \<or> input_style e = Mapped DefaultRomanToKana) es then None
      else Option.bind (characters_of es) (map_of roman_table))"

text \<open>\<open>entry(..).and_modify(..).or_insert(..)\<close> with the smaller penalty.\<close>

fun record_prefix :: "ustr \<Rightarrow> nat \<Rightarrow> f32 \<Rightarrow> TypoPrefix list \<Rightarrow> TypoPrefix list" where
  "record_prefix r consumed penalty [] = [\<lparr>tp_ruby = r, tp_consumed = consumed, tp_penalty = penalty\<rparr>]"
| "record_prefix r consumed penalty (p # ps) =
     (if tp_ruby p = r \<and> tp_consumed p = consumed then p\<lparr>tp_penalty := f32_min (tp_penalty p) penalty\<rparr> # ps
      else p # record_prefix r consumed penalty ps)"

text \<open>The first part of \<open>enumerate\<close>: the reading so far is recorded, and one as long as allowed ends the branch.\<close>

definition visit ::
  "segmenter \<Rightarrow> InputTableRegistry \<Rightarrow> nat \<Rightarrow> InputElement list \<Rightarrow> nat \<Rightarrow> f32 \<Rightarrow> bool \<Rightarrow> InputElement list \<Rightarrow>
   TypoPrefix list \<Rightarrow> TypoPrefix list \<times> bool" where
  "visit graphemes tables maximum_length typed consumed penalty changed elements found =
     (if consumed > 0 \<and> changed
      then
        (let r = to_katakana (render tables elements);
             n = length (graphemes r)
         in (if n \<le> maximum_length \<and> is_stable_prefix tables typed consumed elements
             then record_prefix r consumed penalty found else found,
             n \<ge> maximum_length))
      else (found, False))"

function enumerate_typos ::
  "segmenter \<Rightarrow> InputTableRegistry \<Rightarrow> nat \<Rightarrow> InputElement list \<Rightarrow> nat \<Rightarrow> f32 \<Rightarrow> bool \<Rightarrow> InputElement list \<Rightarrow>
   TypoPrefix list \<Rightarrow> TypoPrefix list" where
  "enumerate_typos graphemes tables maximum_length typed consumed penalty changed elements found =
     (case visit graphemes tables maximum_length typed consumed penalty changed elements found of
        (found, full) \<Rightarrow>
          if full \<or> consumed \<ge> length typed \<or> consumed \<ge> maximum_length then found
          else
            (let kept = enumerate_typos graphemes tables maximum_length typed (consumed + 1) penalty changed
                          (elements @ [typed ! consumed]) found
             in if f32_ge penalty MAXIMUM_PENALTY then kept
                else
                  (let replaced =
                         fold (\<lambda>(r, weight) out.
                             enumerate_typos graphemes tables maximum_length typed (consumed + 1) (f32_add penalty weight) True
                               (elements @ [character_element r Direct]) out)
                           (direct_replacements (typed ! consumed)) kept
                   in case (if consumed + 1 < length typed then roman_replacement (take 2 (drop consumed typed)) else None) of
                        None \<Rightarrow> replaced
                      | Some r \<Rightarrow>
                          enumerate_typos graphemes tables maximum_length typed (consumed + 2) (f32_add penalty 0x40600000) True
                            (elements @ map (\<lambda>c. character_element [c] RomanToKana) r) replaced)))"
  by pat_completeness auto

termination
  by (relation "measure (\<lambda>(_, _, _, typed, consumed, _). length typed - consumed)") auto

declare enumerate_typos.simps [simp del]

definition typo_prefixes :: "segmenter \<Rightarrow> InputTableRegistry \<Rightarrow> nat \<Rightarrow> InputElement list \<Rightarrow> TypoPrefix list" where
  "typo_prefixes graphemes tables maximum_length typed =
     enumerate_typos graphemes tables maximum_length typed 0 f32_zero False [] []"

end
