(* ===== verification/Lattice.thy ===== *)
theory Lattice
  imports Session Learning_Memory Dictionary_Store Typo
begin

text \<open>
  \<open>crates/converter/src/lattice.rs\<close>: the conversion of a composing text into candidates. The words the dictionary and
  the learning memory have for each position are the nodes of a lattice; a pass over its positions hands the best paths
  from node to node, and the paths that reach the end become candidates.

  The answers of the dictionary and of the learning memory are a record of functions (the caches of the store are not
  observable, \<open>Dictionary_Store\<close>). An access outside of a vector, on which the program stops, is an error of its own. The
  order in which a \<open>HashMap\<close> gives its entries is an argument.
\<close>

section \<open>Results\<close>

datatype ConvertError = LookupFailed DictionaryError | OutOfBounds

fun then_do :: "'e + 'a \<Rightarrow> ('a \<Rightarrow> 'e + 'b) \<Rightarrow> 'e + 'b" where
  "then_do (Inl e) k = Inl e"
| "then_do (Inr v) k = k v"

fun looked_up :: "DictionaryError + 'a \<Rightarrow> ConvertError + 'a" where
  "looked_up (Inl e) = Inl (LookupFailed e)"
| "looked_up (Inr v) = Inr v"

fun fold_result :: "('x \<Rightarrow> 'a \<Rightarrow> 'e + 'a) \<Rightarrow> 'x list \<Rightarrow> 'a \<Rightarrow> 'e + 'a" where
  "fold_result f [] a = Inr a"
| "fold_result f (x # xs) a = then_do (f x a) (fold_result f xs)"

definition element_at :: "'a list \<Rightarrow> nat \<Rightarrow> ConvertError + 'a" where
  "element_at xs i = (if i < length xs then Inr (xs ! i) else Inl OutOfBounds)"

section \<open>Lookups\<close>

record Lookups =
  find_prefixes :: "ustr \<Rightarrow> nat \<Rightarrow> DictionaryError + DictionaryMatch list"
  find_exact :: "ustr \<Rightarrow> DictionaryError + DictionaryEntry list"
  find_after :: "ustr \<Rightarrow> nat \<Rightarrow> nat \<Rightarrow> DictionaryError + DictionaryEntry list"
  find_cost :: "nat \<Rightarrow> nat \<Rightarrow> DictionaryError + f32"
  find_meaning :: "nat \<Rightarrow> nat \<Rightarrow> f32 option"
  learned_prefixes :: "ustr \<Rightarrow> nat \<Rightarrow> DictionaryEntry list"
  learned_exact :: "ustr \<Rightarrow> DictionaryEntry list"
  learned_predictions :: "ustr \<Rightarrow> DictionaryEntry list"

text \<open>The lookups of an opened store and of a learning memory, if the converter was given one.\<close>

definition lookups_of :: "segmenter \<Rightarrow> Files \<Rightarrow> DictionaryStore \<Rightarrow> valuation \<Rightarrow> LearningState option \<Rightarrow> Lookups" where
  "lookups_of graphemes files s learning_value memory =
     \<lparr>find_prefixes = (\<lambda>v n. fst (store_matches_from_start graphemes files v n s)),
      find_exact = (\<lambda>v. fst (store_exact_match graphemes files v s)),
      find_after = (\<lambda>v d n. fst (entries_after_prefix graphemes files v d n s)),
      find_cost = (\<lambda>former latter. fst (connection_cost files former latter s)),
      find_meaning = meaning_cost s,
      learned_prefixes = (\<lambda>v n. case memory of None \<Rightarrow> [] | Some m \<Rightarrow> matches_from_start graphemes learning_value v n m),
      learned_exact = (\<lambda>v. case memory of None \<Rightarrow> [] | Some m \<Rightarrow> exact_match graphemes learning_value v m),
      learned_predictions = (\<lambda>v. case memory of None \<Rightarrow> [] | Some m \<Rightarrow> predict graphemes learning_value v m)\<rparr>"

section \<open>Positions\<close>

abbreviation (input) MAXIMUM_DICTIONARY_LENGTH :: nat where "MAXIMUM_DICTIONARY_LENGTH \<equiv> 20"
abbreviation (input) BOS_MEANING_ID :: nat where "BOS_MEANING_ID \<equiv> 500"
abbreviation (input) BOS_CLASS_ID :: nat where "BOS_CLASS_ID \<equiv> 0"

definition DICTIONARY_THRESHOLD :: f32 where
  "DICTIONARY_THRESHOLD = 0xC1880000"

datatype LatticeIndex = InputIndex nat | SurfaceIndex nat

fun range_end :: "LatticeRange \<Rightarrow> LatticeIndex" where
  "range_end (InputRange f t) = InputIndex t"
| "range_end (SurfaceRange f t) = SurfaceIndex t"

fun starts_at_zero :: "LatticeRange \<Rightarrow> bool" where
  "starts_at_zero (InputRange f t) = (f = 0)"
| "starts_at_zero (SurfaceRange f t) = (f = 0)"

datatype DualIndex = DualInput nat | DualSurface nat | DualBoth nat nat

fun dual_input :: "DualIndex \<Rightarrow> nat option" where
  "dual_input (DualInput i) = Some i"
| "dual_input (DualBoth i s) = Some i"
| "dual_input (DualSurface s) = None"

fun dual_surface :: "DualIndex \<Rightarrow> nat option" where
  "dual_surface (DualSurface s) = Some s"
| "dual_surface (DualBoth i s) = Some s"
| "dual_surface (DualInput i) = None"

record DualIndexMap =
  input_to_surface :: "nat \<rightharpoonup> nat"
  surface_to_input :: "nat \<rightharpoonup> nat"
  identity_map :: bool

type_synonym map_order = "(nat \<rightharpoonup> nat) \<Rightarrow> (nat \<times> nat) list"

definition invert_entries :: "(nat \<times> nat) list \<Rightarrow> nat \<rightharpoonup> nat" where
  "invert_entries kvs = fold (\<lambda>(i, s) m. case m s of None \<Rightarrow> m(s \<mapsto> i) | Some _ \<Rightarrow> m) kvs Map.empty"

definition new_index_map :: "map_order \<Rightarrow> InputTableRegistry \<Rightarrow> ComposingText \<Rightarrow> DualIndexMap" where
  "new_index_map hash_order tables c =
     (let m = input_to_surface_map tables c
      in \<lparr>input_to_surface = m, surface_to_input = invert_entries (hash_order m),
          identity_map = (length (input c) = length (surface c) \<and> list_all (\<lambda>i. m i = Some i) [0..<Suc (length (input c))])\<rparr>)"

definition dual :: "DualIndexMap \<Rightarrow> LatticeIndex \<Rightarrow> DualIndex" where
  "dual m i =
     (if identity_map m then (case i of InputIndex i \<Rightarrow> DualBoth i i | SurfaceIndex i \<Rightarrow> DualBoth i i)
      else
        (case i of
           InputIndex i \<Rightarrow> (case input_to_surface m i of Some s \<Rightarrow> DualBoth i s | None \<Rightarrow> DualInput i)
         | SurfaceIndex s \<Rightarrow> (case surface_to_input m s of Some i \<Rightarrow> DualBoth i s | None \<Rightarrow> DualSurface s)))"

text \<open>The loop of \<open>indices\<close> over the inputs, with the surface positions passed so far.\<close>

fun index_loop :: "DualIndexMap \<Rightarrow> nat \<Rightarrow> nat list \<Rightarrow> nat \<Rightarrow> DualIndex list \<Rightarrow> DualIndex list \<times> nat" where
  "index_loop m surface_count [] pointer out = (out, pointer)"
| "index_loop m surface_count (i # is) pointer out =
     (case input_to_surface m i of
        None \<Rightarrow> index_loop m surface_count is pointer (out @ [DualInput i])
      | Some s \<Rightarrow>
          index_loop m surface_count is (s + 1)
            (out @ map DualSurface [min pointer s..<s] @
             [if pointer \<le> s \<and> s < surface_count then DualBoth i s else DualInput i]))"

definition lattice_indices :: "DualIndexMap \<Rightarrow> nat \<Rightarrow> nat \<Rightarrow> DualIndex list" where
  "lattice_indices m input_count surface_count =
     (if identity_map m then map (\<lambda>i. DualBoth i i) [0..<min input_count surface_count]
      else
        (case index_loop m surface_count [0..<input_count] 0 [] of
           (out, pointer) \<Rightarrow> out @ map DualSurface [min pointer surface_count..<surface_count]))"

section \<open>Words\<close>

text \<open>\<open>should_remove\<close>: words below the threshold, which is higher for short words.\<close>

definition should_remove :: "segmenter \<Rightarrow> DictionaryEntry \<Rightarrow> bool" where
  "should_remove graphemes e =
     (let distance = f32_sub (entry_value e) DICTIONARY_THRESHOLD
      in if f32_lt distance f32_zero then True
         else
           (let n = length (graphemes (word e))
            in n = 0 \<or> f32_lt (f32_div 0xC0000000 (f32_of_nat n)) (f32_negate distance)))"

definition typo_adjustment :: "segmenter \<Rightarrow> DictionaryEntry \<Rightarrow> f32 \<Rightarrow> f32" where
  "typo_adjustment graphemes e penalty =
     (let n = f32_of_nat (max 1 (length (graphemes (word e))));
          ratio = (if 147 \<le> unat (left_id e) \<and> unat (left_id e) \<le> 554 then 0x40200000 else 0x3F800000)
      in f32_mul (f32_mul (f32_div 0xBF800000 n) penalty) ratio)"

definition includes_meaning :: "DictionaryEntry \<Rightarrow> bool" where
  "includes_meaning e =
     (let l = unat (left_id e); r = unat (right_id e)
      in 895 \<le> l \<and> l \<le> 1280 \<or> 895 \<le> r \<and> r \<le> 1280 \<or> 1297 \<le> l \<and> l \<le> 1305 \<or> 1297 \<le> r \<and> r \<le> 1305 \<or>
         word_type l = 1 \<or> word_type r = 1)"

definition plain_entry :: "ustr \<Rightarrow> ustr \<Rightarrow> f32 \<Rightarrow> DictionaryEntry" where
  "plain_entry w r v =
     \<lparr>word = w, ruby = r, left_id = 1288, right_id = 1288, meaning_id = 501, base_value = v, adjustment = f32_zero,
      metadata = 0\<rparr>"

definition single_character_entries :: "ustr \<Rightarrow> DictionaryEntry list" where
  "single_character_entries katakana =
     (let hiragana = to_hiragana katakana
      in map (\<lambda>(w, v). plain_entry w katakana v)
           (if hiragana = katakana then [(katakana, 0xC1600000)] else [(hiragana, 0xC1500000), (katakana, 0xC1600000)]))"

section \<open>Constraints\<close>

text \<open>\<open>PrefixConstraint\<close> of \<open>zenz.rs\<close>: the bytes a candidate has to begin with, or to be.\<close>

record FixedPrefix =
  fp_byte_count :: nat
  fp_ruby_count :: nat

record PrefixConstraint =
  pc_bytes :: "byte list"
  has_eos :: bool
  ignore_memory_and_user_dictionary :: bool
  fixed_prefix :: "FixedPrefix option"

definition can_continue :: "PrefixConstraint \<Rightarrow> byte list \<Rightarrow> bool" where
  "can_continue p candidate =
     (if has_eos p then length candidate \<le> length (pc_bytes p) \<and> prefix candidate (pc_bytes p)
      else prefix candidate (pc_bytes p) \<or> prefix (pc_bytes p) candidate)"

definition is_satisfied_by :: "PrefixConstraint \<Rightarrow> byte list \<Rightarrow> bool" where
  "is_satisfied_by p candidate = (if has_eos p then candidate = pc_bytes p else prefix (pc_bytes p) candidate)"

definition enforces_constraint :: "PrefixConstraint \<Rightarrow> DictionaryEntry \<Rightarrow> bool" where
  "enforces_constraint p e \<longleftrightarrow>
     \<not> ignore_memory_and_user_dictionary p \<and> \<not> metadata_contains (metadata e) LEARNED \<and>
     \<not> metadata_contains (metadata e) USER_DICTIONARY"

definition bytes_match_fixed_prefix :: "PrefixConstraint \<Rightarrow> byte list \<Rightarrow> bool" where
  "bytes_match_fixed_prefix p candidate =
     (case fixed_prefix p of
        None \<Rightarrow> True
      | Some f \<Rightarrow>
          if fp_byte_count f > length (pc_bytes p) then False
          else
            (let expected = take (fp_byte_count f) (pc_bytes p);
                 compared = min (length candidate) (fp_byte_count f)
             in take compared expected = take compared candidate))"

section \<open>Paths and nodes\<close>

datatype RegisteredPath =
  RegisteredPath (path_entry: DictionaryEntry) (path_range: LatticeRange) (path_previous: "RegisteredPath option")
    (path_total: f32)

text \<open>The walk along \<open>previous\<close>, reversed: the path from its first word.\<close>

fun path_list :: "RegisteredPath \<Rightarrow> RegisteredPath list" where
  "path_list (RegisteredPath e r prev t) =
     (case prev of None \<Rightarrow> [] | Some p \<Rightarrow> path_list p) @ [RegisteredPath e r prev t]"

definition path_bytes :: "RegisteredPath \<Rightarrow> byte list" where
  "path_bytes p = concat (map (\<lambda>q. utf8 (word (path_entry q))) (path_list p))"

text \<open>The two tests of a path, and of a path with a word behind it.\<close>

definition may_continue :: "PrefixConstraint \<Rightarrow> DictionaryEntry \<Rightarrow> byte list \<Rightarrow> bool" where
  "may_continue p e bytes = (if enforces_constraint p e then can_continue p bytes else bytes_match_fixed_prefix p bytes)"

definition may_complete :: "PrefixConstraint \<Rightarrow> DictionaryEntry \<Rightarrow> byte list \<Rightarrow> bool" where
  "may_complete p e bytes = (if enforces_constraint p e then is_satisfied_by p bytes else bytes_match_fixed_prefix p bytes)"

record Predecessor =
  pred_path :: "RegisteredPath option"
  pred_total :: f32

record LatticeNode =
  node_entry :: DictionaryEntry
  node_range :: LatticeRange
  predecessors :: "Predecessor list"

record LatticeState =
  nodes :: "LatticeNode list"
  surface_nodes :: "nat list list"
  input_nodes :: "nat list list"

definition new_node :: "DictionaryEntry \<Rightarrow> LatticeRange \<Rightarrow> nat \<Rightarrow> LatticeNode" where
  "new_node e r start =
     \<lparr>node_entry = e, node_range = r,
      predecessors = (if start = 0 then [\<lparr>pred_path = None, pred_total = f32_zero\<rparr>] else [])\<rparr>"

definition push_surface_node :: "nat \<Rightarrow> DictionaryEntry \<times> nat \<Rightarrow> LatticeState \<Rightarrow> LatticeState" where
  "push_surface_node start p l =
     l\<lparr>nodes := nodes l @ [new_node (fst p) (SurfaceRange start (snd p)) start],
       surface_nodes := (surface_nodes l)[start := surface_nodes l ! start @ [length (nodes l)]]\<rparr>"

definition push_input_node :: "nat \<Rightarrow> DictionaryEntry \<times> nat \<Rightarrow> LatticeState \<Rightarrow> LatticeState" where
  "push_input_node start p l =
     l\<lparr>nodes := nodes l @ [new_node (fst p) (InputRange start (snd p)) start],
       input_nodes := (input_nodes l)[start := input_nodes l ! start @ [length (nodes l)]]\<rparr>"

text \<open>The words that begin at a position of the surface, with their ends, in the order of their nodes.\<close>

definition word_fits :: "segmenter \<Rightarrow> ustr \<Rightarrow> nat \<Rightarrow> DictionaryEntry \<Rightarrow> bool" where
  "word_fits graphemes tail_text rest e =
     (let n = length (graphemes (ruby e))
      in \<not> (n = 0 \<or> n > MAXIMUM_DICTIONARY_LENGTH \<or> n > rest \<or> \<not> prefix (ruby e) tail_text \<or> should_remove graphemes e))"

definition surface_words ::
  "segmenter \<Rightarrow> Lookups \<Rightarrow> DictionaryEntry list \<Rightarrow> nat \<Rightarrow> grapheme list \<Rightarrow> nat \<Rightarrow> ConvertError + (DictionaryEntry \<times> nat) list" where
  "surface_words graphemes lk additional surface_count katakana start =
     (if start > length katakana then Inl OutOfBounds
      else
        (let tail_text = concat (drop start katakana)
         in then_do (looked_up (find_prefixes lk tail_text MAXIMUM_DICTIONARY_LENGTH)) (\<lambda>matches.
            then_do (element_at katakana start) (\<lambda>g.
              Inr (concat (map (\<lambda>m. map (\<lambda>e. (e, start + surface_end m))
                                    (filter (\<lambda>e. \<not> should_remove graphemes e) (match_entries m))) matches) @
                   map (\<lambda>e. (e, start + 1)) (single_character_entries g) @
                   map (\<lambda>e. (e, start + length (graphemes (ruby e))))
                     (filter (word_fits graphemes tail_text (surface_count - start))
                        (additional @ learned_prefixes lk tail_text MAXIMUM_DICTIONARY_LENGTH)))))))"

text \<open>The words for the readings that differ from the input at a position by typing errors.\<close>

definition typo_entries ::
  "segmenter \<Rightarrow> Lookups \<Rightarrow> DictionaryEntry list \<Rightarrow> nat \<Rightarrow> TypoPrefix \<Rightarrow> ConvertError + (DictionaryEntry \<times> nat) list" where
  "typo_entries graphemes lk additional start p =
     then_do (looked_up (find_exact lk (tp_ruby p))) (\<lambda>es.
       Inr (map (\<lambda>e. (e, start + tp_consumed p))
             (filter (\<lambda>e. \<not> should_remove graphemes e)
               (map (\<lambda>e. entry_adjusted (typo_adjustment graphemes e (tp_penalty p)) e)
                 (es @ filter (\<lambda>e. ruby e = tp_ruby p) additional @ learned_exact lk (tp_ruby p))))))"

type_synonym typo_order = "TypoPrefix list \<Rightarrow> TypoPrefix list"

definition input_words ::
  "segmenter \<Rightarrow> InputTableRegistry \<Rightarrow> typo_order \<Rightarrow> Lookups \<Rightarrow> DictionaryEntry list \<Rightarrow> InputElement list \<Rightarrow> nat \<Rightarrow>
   ConvertError + (DictionaryEntry \<times> nat) list" where
  "input_words graphemes tables arrange lk additional es start =
     map_sum id concat
       (collect (map (typo_entries graphemes lk additional start)
         (arrange (typo_prefixes graphemes tables MAXIMUM_DICTIONARY_LENGTH (drop start es)))))"

definition push_surface_words ::
  "segmenter \<Rightarrow> Lookups \<Rightarrow> DictionaryEntry list \<Rightarrow> nat \<Rightarrow> grapheme list \<Rightarrow> nat \<Rightarrow> LatticeState \<Rightarrow> ConvertError + LatticeState" where
  "push_surface_words graphemes lk additional surface_count katakana start l =
     then_do (surface_words graphemes lk additional surface_count katakana start) (\<lambda>ws.
       Inr (fold (push_surface_node start) ws l))"

definition push_input_words ::
  "segmenter \<Rightarrow> InputTableRegistry \<Rightarrow> typo_order \<Rightarrow> Lookups \<Rightarrow> DictionaryEntry list \<Rightarrow> InputElement list \<Rightarrow> nat \<Rightarrow> LatticeState \<Rightarrow>
   ConvertError + LatticeState" where
  "push_input_words graphemes tables arrange lk additional es start l =
     then_do (input_words graphemes tables arrange lk additional es start) (\<lambda>ws.
       Inr (fold (push_input_node start) ws l))"

section \<open>The search\<close>

text \<open>\<open>rposition\<close>: the last place whose element satisfies the test.\<close>

definition rposition :: "('a \<Rightarrow> bool) \<Rightarrow> 'a list \<Rightarrow> nat option" where
  "rposition P xs = find (\<lambda>i. P (xs ! i)) (rev [0..<length xs])"

definition insert_predecessor :: "Predecessor list \<Rightarrow> Predecessor \<Rightarrow> nat \<Rightarrow> Predecessor list" where
  "insert_predecessor ps p limit =
     (let i = (case rposition (\<lambda>q. f32_ge (pred_total q) (pred_total p)) ps of Some i \<Rightarrow> i + 1 | None \<Rightarrow> 0)
      in if i = limit then ps
         else
           (let kept = (if length ps \<ge> limit then butlast ps else ps)
            in take i kept @ [p] @ drop i kept))"

record Search =
  sr_lookups :: Lookups
  sr_limit :: nat
  sr_context :: ConversionContext
  sr_constraint :: "PrefixConstraint option"
  sr_map :: DualIndexMap
  sr_surface_count :: nat
  sr_input_count :: nat

text \<open>The paths that end with a node: each of its predecessors with the word behind it.\<close>

definition complete_path :: "Search \<Rightarrow> LatticeNode \<Rightarrow> Predecessor \<Rightarrow> ConvertError + RegisteredPath" where
  "complete_path sr n p =
     then_do
       (if starts_at_zero (node_range n)
        then looked_up (find_cost (sr_lookups sr) (unat (ctx_right_id (sr_context sr))) (unat (left_id (node_entry n))))
        else Inr f32_zero)
       (\<lambda>head_connection.
         Inr (RegisteredPath (node_entry n) (node_range n) (pred_path p)
                (f32_add (f32_add (pred_total p) (entry_value (node_entry n))) head_connection)))"

definition completed_paths :: "Search \<Rightarrow> LatticeNode \<Rightarrow> ConvertError + RegisteredPath list" where
  "completed_paths sr n =
     then_do (collect (map (complete_path sr n) (predecessors n))) (\<lambda>ps.
       Inr (filter (\<lambda>p. case sr_constraint sr of None \<Rightarrow> True | Some k \<Rightarrow> may_continue k (node_entry n) (path_bytes p)) ps))"

text \<open>The nodes at an index; a position outside of the vectors stops the program.\<close>

definition nodes_at :: "LatticeState \<Rightarrow> DualIndex \<Rightarrow> ConvertError + nat list" where
  "nodes_at l i =
     then_do (case dual_surface i of Some s \<Rightarrow> element_at (surface_nodes l) s | None \<Rightarrow> Inr []) (\<lambda>ss.
     then_do (case dual_input i of Some j \<Rightarrow> element_at (input_nodes l) j | None \<Rightarrow> Inr []) (\<lambda>js. Inr (ss @ js)))"

definition hand_to :: "Search \<Rightarrow> DictionaryEntry \<Rightarrow> RegisteredPath list \<Rightarrow> nat \<Rightarrow> LatticeState \<Rightarrow> ConvertError + LatticeState" where
  "hand_to sr e done_paths j l =
     (let next = nodes l ! j
      in then_do (looked_up (find_cost (sr_lookups sr) (unat (right_id e)) (unat (left_id (node_entry next))))) (\<lambda>connection.
           (let handed =
                  filter (\<lambda>p. case sr_constraint sr of None \<Rightarrow> True
                      | Some k \<Rightarrow> may_continue k (node_entry next) (path_bytes p @ utf8 (word (node_entry next)))) done_paths;
                ps = fold (\<lambda>p ps. insert_predecessor ps \<lparr>pred_path = Some p, pred_total = f32_add (path_total p) connection\<rparr>
                                    (sr_limit sr)) handed (predecessors next)
            in Inr (l\<lparr>nodes := (nodes l)[j := next\<lparr>predecessors := ps\<rparr>]\<rparr>))))"

definition reaches_end :: "Search \<Rightarrow> DualIndex \<Rightarrow> bool" where
  "reaches_end sr i \<longleftrightarrow> dual_surface i = Some (sr_surface_count sr) \<or> dual_input i = Some (sr_input_count sr)"

definition visit_node :: "Search \<Rightarrow> nat \<Rightarrow> LatticeState \<times> RegisteredPath list \<Rightarrow> ConvertError + LatticeState \<times> RegisteredPath list" where
  "visit_node sr j lr =
     (case lr of (l, found_paths) \<Rightarrow>
        (let n = nodes l ! j
         in if predecessors n = [] then Inr (l, found_paths)
            else
              then_do (completed_paths sr n) (\<lambda>done_paths.
                (let next_index = dual (sr_map sr) (range_end (node_range n))
                 in if reaches_end sr next_index
                    then Inr (l, found_paths @
                               filter (\<lambda>p. case sr_constraint sr of None \<Rightarrow> True
                                   | Some k \<Rightarrow> may_complete k (node_entry n) (path_bytes p)) done_paths)
                    else
                      then_do (nodes_at l next_index) (\<lambda>next_nodes.
                      then_do (fold_result (hand_to sr (node_entry n) done_paths) next_nodes l) (\<lambda>l. Inr (l, found_paths)))))))"

definition visit_index :: "Search \<Rightarrow> DualIndex \<Rightarrow> LatticeState \<times> RegisteredPath list \<Rightarrow> ConvertError + LatticeState \<times> RegisteredPath list" where
  "visit_index sr i lr = then_do (nodes_at (fst lr) i) (\<lambda>js. fold_result (visit_node sr) js lr)"

section \<open>Candidates\<close>

record Clause =
  cl_text :: ustr
  cl_value :: f32
  cl_meaning_id :: nat
  cl_ranges :: "LatticeRange list"
  cl_entry_end :: nat

definition first_clause_of :: "ConversionContext \<Rightarrow> Clause" where
  "first_clause_of ctx =
     \<lparr>cl_text = [], cl_value = f32_zero, cl_meaning_id = unat (ctx_meaning_id ctx), cl_ranges = [], cl_entry_end = 0\<rparr>"

text \<open>The loop of \<open>make_candidate\<close>: the clauses so far, the class behind the last word and the number of words.\<close>

definition clause_step :: "RegisteredPath \<Rightarrow> Clause list \<times> nat \<times> nat \<Rightarrow> Clause list \<times> nat \<times> nat" where
  "clause_step p st =
     (case st of (clauses, previous_right, n) \<Rightarrow>
        (let e = path_entry p;
             continue_clause = (cl_text (last clauses) = [] \<or> \<not> is_clause previous_right (unat (left_id e)));
             clauses =
               (if continue_clause then clauses
                else clauses @ [\<lparr>cl_text = [], cl_value = path_total p,
                                 cl_meaning_id = (if includes_meaning e then unat (meaning_id e) else BOS_MEANING_ID),
                                 cl_ranges = [], cl_entry_end = n\<rparr>]);
             c = last clauses;
             c = c\<lparr>cl_text := cl_text c @ word e, cl_value := path_total p, cl_ranges := cl_ranges c @ [path_range p],
                   cl_entry_end := n,
                   cl_meaning_id :=
                     (if cl_meaning_id c = BOS_MEANING_ID \<and> unat (meaning_id e) \<noteq> BOS_MEANING_ID \<or> includes_meaning e
                      then unat (meaning_id e) else cl_meaning_id c)\<rparr>
         in (butlast clauses @ [c], unat (right_id e), Suc n)))"

definition clauses_of :: "ConversionContext \<Rightarrow> RegisteredPath list \<Rightarrow> Clause list" where
  "clauses_of ctx ps = fst (fold clause_step ps ([first_clause_of ctx], BOS_CLASS_ID, 0))"

fun meaning_loop :: "Lookups \<Rightarrow> nat list \<Rightarrow> nat \<times> f32 \<Rightarrow> nat \<times> f32" where
  "meaning_loop lk [] (previous, v) = (previous, v)"
| "meaning_loop lk (m # ms) (previous, v) =
     meaning_loop lk ms (m, f32_add v (case find_meaning lk previous m of Some c \<Rightarrow> c | None \<Rightarrow> f32_zero))"

definition saturated_u16 :: "nat \<Rightarrow> 16 word" where
  "saturated_u16 n = (if n < 2 ^ 16 then of_nat n else - 1)"

definition is_input_range :: "LatticeRange \<Rightarrow> bool" where
  "is_input_range r = (case r of InputRange _ _ \<Rightarrow> True | _ \<Rightarrow> False)"

definition make_candidate :: "segmenter \<Rightarrow> Lookups \<Rightarrow> ConversionContext \<Rightarrow> RegisteredPath \<Rightarrow> Candidate" where
  "make_candidate graphemes lk ctx p =
     (let ps = path_list p;
          clauses = clauses_of ctx ps;
          es = map path_entry ps;
          (previous_meaning, meaning_value) = meaning_loop lk (map cl_meaning_id clauses) (BOS_MEANING_ID, f32_zero);
          fc = hd clauses
      in \<lparr>cand_text = concat (map cl_text clauses),
          cand_value = f32_add (cl_value (last clauses)) meaning_value,
          composing_count =
            (case reduce combine_counts (map range_count (concat (map cl_ranges clauses))) of Some k \<Rightarrow> k | None \<Rightarrow> InputCount 0),
          last_meaning_id = saturated_u16 previous_meaning,
          entries = es, ruby_count = ruby_total graphemes es, is_learning_target = True,
          is_typo_correction = list_ex (\<lambda>q. is_input_range (path_range q)) ps,
          first_clause = Some \<lparr>fc_text = cl_text fc, fc_value = cl_value fc, fc_meaning_id = cl_meaning_id fc,
                                fc_ranges = cl_ranges fc, fc_entry_end = cl_entry_end fc\<rparr>\<rparr>)"

definition unique_candidates :: "Candidate list \<Rightarrow> Candidate list" where
  "unique_candidates cs = sort_by by_value (unique cs)"

section \<open>Conversion\<close>

record Converter =
  cv_graphemes :: segmenter
  cv_order :: map_order
  cv_arrange :: typo_order
  cv_lookups :: Lookups

record ConversionModifiers =
  additional_entries :: "DictionaryEntry list"
  need_typo_correction :: bool
  constraint :: "PrefixConstraint option"

definition build_lattice ::
  "Converter \<Rightarrow> InputTableRegistry \<Rightarrow> ConversionModifiers \<Rightarrow> ComposingText \<Rightarrow> ConvertError + LatticeState" where
  "build_lattice cv tables md c =
     (let surface_count = length (surface c);
          katakana = cv_graphemes cv (to_katakana (surface_text c));
          l = \<lparr>nodes = [], surface_nodes = replicate surface_count [], input_nodes = replicate (length (input c)) []\<rparr>
      in then_do (fold_result (push_surface_words (cv_graphemes cv) (cv_lookups cv) (additional_entries md) surface_count katakana)
                     [0..<surface_count] l) (\<lambda>l.
           if need_typo_correction md
           then fold_result (push_input_words (cv_graphemes cv) tables (cv_arrange cv) (cv_lookups cv) (additional_entries md) (input c))
                  [0..<length (input c)] l
           else Inr l))"

definition search_of :: "Converter \<Rightarrow> InputTableRegistry \<Rightarrow> nat \<Rightarrow> ConversionContext \<Rightarrow> ConversionModifiers \<Rightarrow> ComposingText \<Rightarrow> Search" where
  "search_of cv tables limit ctx md c =
     \<lparr>sr_lookups = cv_lookups cv, sr_limit = limit, sr_context = ctx, sr_constraint = constraint md,
      sr_map = new_index_map (cv_order cv) tables c, sr_surface_count = length (surface c),
      sr_input_count = length (input c)\<rparr>"

definition search_paths ::
  "Converter \<Rightarrow> InputTableRegistry \<Rightarrow> nat \<Rightarrow> ConversionContext \<Rightarrow> ConversionModifiers \<Rightarrow> ComposingText \<Rightarrow>
   ConvertError + RegisteredPath list" where
  "search_paths cv tables limit ctx md c =
     then_do (build_lattice cv tables md c) (\<lambda>l.
     then_do (fold_result (visit_index (search_of cv tables limit ctx md c))
                 (lattice_indices (new_index_map (cv_order cv) tables c) (length (input c)) (length (surface c))) (l, []))
       (\<lambda>lr. Inr (snd lr)))"

definition convert_modified ::
  "Converter \<Rightarrow> InputTableRegistry \<Rightarrow> nat \<Rightarrow> ConversionContext \<Rightarrow> ConversionModifiers \<Rightarrow> ComposingText \<Rightarrow>
   ConvertError + Candidate list" where
  "convert_modified cv tables limit ctx md c =
     (if limit = 0 \<or> is_empty_composing c then Inr []
      else
        then_do (search_paths cv tables limit ctx md c) (\<lambda>paths.
          Inr (unique_candidates
                (sort_by by_value (map (make_candidate (cv_graphemes cv) (cv_lookups cv) ctx) paths)))))"

definition convert_with_entries ::
  "Converter \<Rightarrow> InputTableRegistry \<Rightarrow> nat \<Rightarrow> ConversionContext \<Rightarrow> DictionaryEntry list \<Rightarrow> ComposingText \<Rightarrow>
   ConvertError + Candidate list" where
  "convert_with_entries cv tables limit ctx es c =
     convert_modified cv tables limit ctx \<lparr>additional_entries = es, need_typo_correction = False, constraint = None\<rparr> c"

definition convert_with_entries_and_typo ::
  "Converter \<Rightarrow> InputTableRegistry \<Rightarrow> nat \<Rightarrow> ConversionContext \<Rightarrow> DictionaryEntry list \<Rightarrow> bool \<Rightarrow> ComposingText \<Rightarrow>
   ConvertError + Candidate list" where
  "convert_with_entries_and_typo cv tables limit ctx es typo c =
     convert_modified cv tables limit ctx \<lparr>additional_entries = es, need_typo_correction = typo, constraint = None\<rparr> c"

definition convert_with_entries_and_prefix_constraint ::
  "Converter \<Rightarrow> InputTableRegistry \<Rightarrow> nat \<Rightarrow> ConversionContext \<Rightarrow> DictionaryEntry list \<Rightarrow> PrefixConstraint \<Rightarrow> ComposingText \<Rightarrow>
   ConvertError + Candidate list" where
  "convert_with_entries_and_prefix_constraint cv tables limit ctx es k c =
     convert_modified cv tables limit ctx \<lparr>additional_entries = es, need_typo_correction = False, constraint = Some k\<rparr> c"

section \<open>Predictions\<close>

definition PREDICTION_UNUSABLE_RIGHT_IDS :: "nat list" where
  "PREDICTION_UNUSABLE_RIGHT_IDS =
     [13, 14, 15, 16, 17, 18, 25, 26, 27, 28, 33, 34, 40, 41, 42, 46, 47, 50, 56, 57, 58, 59, 60, 61, 62, 63, 64, 74,
      75, 76, 77, 78, 79, 86, 87, 88, 93, 94, 95, 99, 100, 103, 107, 108, 109, 110, 111, 112, 119, 120, 121, 122,
      127, 128, 134, 135, 136, 140, 141, 144, 369, 372, 373, 377, 378, 379, 380, 381, 382, 389, 390, 391, 392, 397,
      398, 401, 402, 404, 405, 406, 408, 410, 411, 412, 413, 416, 417, 418, 419, 420, 421, 426, 427, 431, 433, 434,
      437, 438, 441, 442, 443, 447, 448, 450, 452, 455, 457, 462, 463, 464, 470, 471, 472, 476, 477, 480, 483, 489,
      490, 493, 494, 495, 496, 504, 527, 528, 533, 534, 537, 540, 542, 548, 551, 553, 561, 562, 564, 565, 566, 567,
      569, 571, 572, 574, 575, 576, 577, 579, 581, 582, 585, 587, 589, 590, 591, 594, 595, 596, 597, 598, 600, 601,
      603, 604, 606, 609, 611, 614, 617, 618, 620, 621, 622, 624, 626, 627, 629, 630, 631, 634, 636, 638, 641, 642,
      644, 647, 648, 650, 653, 654, 656, 659, 660, 662, 665, 666, 668, 671, 672, 673, 675, 676, 677, 678, 681, 682,
      683, 684, 687, 688, 691, 692, 693, 694, 697, 698, 699, 700, 703, 704, 707, 708, 709, 710, 713, 714, 715, 716,
      721, 722, 724, 725, 727, 729, 730, 732, 733, 736, 737, 739, 740, 742, 744, 745, 747, 748, 750, 752, 753, 755,
      756, 758, 760, 761, 763, 764, 766, 768, 769, 770, 771, 774, 775, 776, 777, 778, 779, 780, 781, 782, 783, 786,
      787, 790, 791, 793, 794, 795, 798, 800, 801, 804, 805, 806, 807, 810, 811, 814, 815, 816, 820, 821, 822, 823,
      824, 825, 829, 830, 831, 835, 837, 840, 842, 845, 847, 850, 852, 855, 859, 860, 862, 865, 866, 868, 869, 871,
      872, 873, 875, 877, 878, 880, 881, 884, 885, 887, 888, 889, 890, 891, 893, 895, 896, 898, 899, 900, 901, 903,
      905, 906, 908, 909, 910, 911, 913, 915, 916, 917, 918, 921, 922, 923, 924, 925, 928, 929, 931, 932, 934, 935,
      936, 939, 941, 943, 944, 945, 946, 947, 948, 949, 950, 951, 952, 958, 959, 960, 961, 962, 963, 964, 965, 966,
      967, 973, 974, 975, 976, 977, 983, 984, 985, 986, 987, 988, 989, 990, 995, 996, 997, 998, 999, 1000, 1001,
      1002, 1007, 1008, 1009, 1010, 1015, 1016, 1017, 1018, 1021, 1022, 1023, 1024, 1029, 1030, 1031, 1032, 1033,
      1034, 1035, 1036, 1041, 1042, 1043, 1044, 1045, 1046, 1047, 1048, 1057, 1058, 1060, 1061, 1063, 1065, 1066,
      1067, 1068, 1069, 1070, 1071, 1072, 1073, 1074, 1075, 1076, 1077, 1078, 1079, 1080, 1081, 1082, 1083, 1084,
      1085, 1086, 1087, 1088, 1089, 1090, 1104, 1105, 1106, 1107, 1108, 1109, 1110, 1111, 1112, 1113, 1114, 1115,
      1116, 1117, 1118, 1119, 1120, 1121, 1122, 1123, 1124, 1125, 1126, 1127, 1128, 1129, 1130, 1131, 1132, 1133,
      1134, 1135, 1136, 1137, 1138, 1139, 1140, 1141, 1142, 1143, 1144, 1145, 1146, 1147, 1148, 1149, 1150, 1151,
      1152, 1153, 1154, 1155, 1156, 1157, 1158, 1159, 1160, 1161, 1162, 1163, 1164, 1165, 1166, 1167, 1168, 1182,
      1183, 1184, 1185, 1186, 1187, 1188, 1189, 1190, 1191, 1192, 1193, 1194, 1208, 1209, 1210, 1211, 1212, 1213,
      1214, 1215, 1220, 1221, 1222, 1223, 1224, 1225, 1226, 1227, 1228, 1229, 1230, 1231, 1240, 1241, 1242, 1243,
      1248, 1249, 1250, 1251, 1256, 1257, 1258, 1259, 1260, 1261, 1262, 1263, 1268, 1269, 1270, 1271, 1276, 1278]"

text \<open>The table is sorted, so that its binary search finds exactly its members.\<close>

definition prediction_usable :: "16 word \<Rightarrow> bool" where
  "prediction_usable right \<longleftrightarrow> unat right \<notin> set PREDICTION_UNUSABLE_RIGHT_IDS"

text \<open>\<open>score_entries\<close>: the value of the words, the class behind them and the meanings of the clauses so far.\<close>

fun score_loop :: "Lookups \<Rightarrow> nat \<Rightarrow> DictionaryEntry list \<Rightarrow> f32 \<times> 16 word \<times> nat list \<Rightarrow> ConvertError + f32 \<times> 16 word \<times> nat list" where
  "score_loop lk i [] st = Inr st"
| "score_loop lk i (e # es) (v, previous_right, meanings) =
     (let meanings =
            (if i > 0 \<and> is_clause (unat previous_right) (unat (left_id e))
             then meanings @ [if includes_meaning e then unat (meaning_id e) else BOS_MEANING_ID] else meanings);
          meanings =
            (if last meanings = BOS_MEANING_ID \<and> unat (meaning_id e) \<noteq> BOS_MEANING_ID \<or> includes_meaning e
             then butlast meanings @ [unat (meaning_id e)] else meanings)
      in then_do (looked_up (find_cost lk (unat previous_right) (unat (left_id e)))) (\<lambda>cost.
           score_loop lk (Suc i) es (f32_add v (f32_add cost (entry_value e)), right_id e, meanings)))"

definition score_entries :: "Lookups \<Rightarrow> ConversionContext \<Rightarrow> DictionaryEntry list \<Rightarrow> ConvertError + f32 \<times> 16 word \<times> 16 word" where
  "score_entries lk ctx es =
     (if es = [] then Inr (f32_zero, ctx_right_id ctx, ctx_meaning_id ctx)
      else
        then_do (score_loop lk 0 es (f32_zero, ctx_right_id ctx, [unat (ctx_meaning_id ctx)])) (\<lambda>(v, right, meanings).
          (case meaning_loop lk meanings (unat (ctx_meaning_id ctx), v) of
             (previous_meaning, v) \<Rightarrow> Inr (v, right, saturated_u16 previous_meaning))))"

definition prediction_of ::
  "segmenter \<Rightarrow> Lookups \<Rightarrow> DictionaryEntry list \<Rightarrow> f32 \<times> 16 word \<times> 16 word \<Rightarrow> nat \<Rightarrow> nat \<Rightarrow> DictionaryEntry \<Rightarrow>
   ConvertError + Candidate" where
  "prediction_of graphemes lk prefix_entries scored consumed prefix_count e =
     (case scored of (prefix_value, prefix_right, prefix_meaning) \<Rightarrow>
        (let penalty = f32_negate (f32_of_nat (length (graphemes (ruby e)) - prefix_count));
             meaning = (if includes_meaning e
                        then (case find_meaning lk (unat prefix_meaning) (unat (meaning_id e)) of Some v \<Rightarrow> v | None \<Rightarrow> f32_zero)
                        else f32_zero)
         in then_do (looked_up (find_cost lk (unat prefix_right) (unat (left_id e)))) (\<lambda>cost.
              Inr (single graphemes (concat (map word prefix_entries) @ word e)
                     (f32_add (f32_add (f32_add (f32_add prefix_value cost) (entry_value e)) meaning) penalty)
                     (SurfaceCount consumed) (if includes_meaning e then meaning_id e else prefix_meaning)
                     (prefix_entries @ [e])))))"

definition maximum_prediction_depth :: "nat \<Rightarrow> nat" where
  "maximum_prediction_depth prefix_count = (if prefix_count = 1 then 3 else if prefix_count = 2 then 5 else 2 ^ 64 - 1)"

definition predictions_for_prefix ::
  "segmenter \<Rightarrow> Lookups \<Rightarrow> DictionaryEntry list \<Rightarrow> DictionaryEntry list \<Rightarrow> f32 \<times> 16 word \<times> 16 word \<Rightarrow> nat \<Rightarrow> ustr \<Rightarrow>
   ConvertError + Candidate list" where
  "predictions_for_prefix graphemes lk additional prefix_entries scored consumed p =
     (let prefix_count = length (graphemes p)
      in then_do (looked_up (find_after lk p (maximum_prediction_depth prefix_count) 700)) (\<lambda>es.
           collect (map (prediction_of graphemes lk prefix_entries scored consumed prefix_count)
             (filter (\<lambda>e. prediction_usable (right_id e)) es @
              filter (\<lambda>e. prefix p (ruby e) \<and> ruby e \<noteq> p) additional @ learned_predictions lk p))))"

definition predict_for_ruby_prefixes ::
  "segmenter \<Rightarrow> Lookups \<Rightarrow> DictionaryEntry list \<Rightarrow> ustr list \<Rightarrow> DictionaryEntry list \<Rightarrow> nat \<Rightarrow> nat \<Rightarrow> ConversionContext \<Rightarrow>
   ConvertError + Candidate list" where
  "predict_for_ruby_prefixes graphemes lk additional ruby_prefixes prefix_entries consumed limit ctx =
     then_do (score_entries lk ctx prefix_entries) (\<lambda>scored.
     then_do (collect (map (predictions_for_prefix graphemes lk additional prefix_entries scored consumed) ruby_prefixes))
       (\<lambda>css. Inr (take limit (unique_candidates (sort_by by_value (concat css))))))"

definition clause_starts :: "DictionaryEntry list \<Rightarrow> nat list" where
  "clause_starts es =
     0 # filter (\<lambda>i. is_clause (unat (right_id (es ! (i - 1)))) (unat (left_id (es ! i)))) [1..<length es]"

text \<open>The loop over the clauses from the last one, which ends with the second that has predictions.\<close>

fun clause_predictions ::
  "(ustr \<Rightarrow> DictionaryEntry list \<Rightarrow> ConvertError + Candidate list) \<Rightarrow> DictionaryEntry list \<Rightarrow> nat list \<Rightarrow> nat \<Rightarrow>
   Candidate list \<Rightarrow> ConvertError + Candidate list" where
  "clause_predictions run es [] groups out = Inr out"
| "clause_predictions run es (start # starts) groups out =
     then_do (run (concat (map ruby (drop start es))) (take start es)) (\<lambda>found.
       (let out = out @ found; groups = (if found \<noteq> [] then groups + 1 else groups)
        in if groups = 2
           then (if start > 0
                 then then_do (run (concat (map ruby es)) []) (\<lambda>whole. Inr (out @ whole)) else Inr out)
           else clause_predictions run es starts groups out))"

definition predict_from_candidate ::
  "segmenter \<Rightarrow> Lookups \<Rightarrow> DictionaryEntry list \<Rightarrow> ComposingText \<Rightarrow> Candidate \<Rightarrow> nat \<Rightarrow> ConversionContext \<Rightarrow>
   ConvertError + Candidate list" where
  "predict_from_candidate graphemes lk additional c cand limit ctx =
     (if entries cand = [] then Inr []
      else
        then_do (clause_predictions
            (\<lambda>r prefix_entries. predict_for_ruby_prefixes graphemes lk additional [r] prefix_entries (length (surface c)) 5 ctx)
            (entries cand) (rev (clause_starts (entries cand))) 0 [])
          (\<lambda>out. Inr (take limit (sort_by by_value (unique_candidates out)))))"

text \<open>The prefixes of \<open>predict_whole_input\<close>: \<open>None\<close> is its early return.\<close>

definition whole_input_prefixes :: "InputTableRegistry \<Rightarrow> ComposingText \<Rightarrow> ustr list option" where
  "whole_input_prefixes tables c =
     (let style = (if input c = [] then Direct else input_style (last (input c)));
          surf = surface_text c;
          roman_count = length (takeWhile is_ascii_alphabetic (rev surf))
      in if style = Direct \<or> roman_count = 0 then Some [to_katakana surf]
         else
           (let split = length surf - roman_count
            in if take split surf = [] then None
               else
                 Some (case resolve tables style of
                         None \<Rightarrow> []
                       | Some t \<Rightarrow> map (\<lambda>s. to_katakana (take split surf) @ s) (possible_nexts t (drop split surf)))))"

definition predict_whole_input ::
  "segmenter \<Rightarrow> Lookups \<Rightarrow> InputTableRegistry \<Rightarrow> DictionaryEntry list \<Rightarrow> ComposingText \<Rightarrow> nat \<Rightarrow> ConversionContext \<Rightarrow>
   ConvertError + Candidate list" where
  "predict_whole_input graphemes lk tables additional c limit ctx =
     (case whole_input_prefixes tables c of
        None \<Rightarrow> Inr []
      | Some ps \<Rightarrow>
          predict_for_ruby_prefixes graphemes lk additional ps [] (length (graphemes (surface_text c))) limit ctx)"

definition predict_with_entries ::
  "Converter \<Rightarrow> InputTableRegistry \<Rightarrow> nat \<Rightarrow> ConversionContext \<Rightarrow> DictionaryEntry list \<Rightarrow> ComposingText \<Rightarrow>
   ConvertError + Candidate list" where
  "predict_with_entries cv tables limit ctx additional c =
     (if limit = 0 \<or> is_empty_composing c then Inr []
      else
        (let g = cv_graphemes cv; lk = cv_lookups cv
         in then_do (convert_with_entries cv tables 1 ctx additional c) (\<lambda>converted.
            then_do (if converted = [] then Inr [] else predict_from_candidate g lk additional c (hd converted) limit ctx)
              (\<lambda>predictions.
                if predictions \<noteq> [] then Inr predictions
                else predict_whole_input g lk tables additional c limit ctx))))"

section \<open>Single words and representations\<close>

definition word_candidates :: "segmenter \<Rightarrow> Lookups \<Rightarrow> ComposingText \<Rightarrow> ConvertError + Candidate list" where
  "word_candidates graphemes lk c =
     (if is_empty_composing c then Inr []
      else
        then_do (looked_up (find_prefixes lk (to_katakana (surface_text c)) MAXIMUM_DICTIONARY_LENGTH)) (\<lambda>matches.
          Inr (sort_by by_ruby_and_value
            (unique_candidates
              (concat (map (\<lambda>m. map (\<lambda>e. single graphemes (word e) (entry_value e) (SurfaceCount (surface_end m)) (meaning_id e) [e])
                                  (match_entries m)) matches))))))"

definition katakana_score :: "ustr \<Rightarrow> f32" where
  "katakana_score v =
     fold (\<lambda>c score. f32_mul score
        (if c \<in> {0x30D7, 0x30F4, 0x30DA, 0x30A3, 0x30D5} then 0x3F000000
         else if c \<in> {0x30E5, 0x30D4, 0x30DD} then 0x3F19999A
         else if c \<in> {0x30D1, 0x30A9, 0x30B0, 0x30FC, 0x30E0} then 0x3F333333
         else 0x3F800000)) v 0x3F800000"

definition representation_candidate :: "segmenter \<Rightarrow> ustr \<Rightarrow> ustr \<Rightarrow> f32 \<Rightarrow> ComposingCount \<Rightarrow> Candidate" where
  "representation_candidate graphemes w r v amount = single graphemes w v amount 501 [plain_entry w r v]"

text \<open>\<open>str::to_uppercase\<close> is an argument.\<close>

definition representation_candidates ::
  "segmenter \<Rightarrow> (ustr \<Rightarrow> ustr) \<Rightarrow> ComposingText \<Rightarrow> bool \<Rightarrow> bool \<Rightarrow> Candidate list" where
  "representation_candidates graphemes to_uppercase c full_width half_width =
     (let katakana = to_katakana (surface_text c); amount = InputCount (length (input c))
      in map (\<lambda>(w, v). representation_candidate graphemes w katakana v amount)
           ([(katakana, f32_mul 0xC1600000 (katakana_score katakana)), (to_hiragana katakana, 0xC1680000),
             (to_uppercase katakana, 0xC169999A)] @
            (if full_width then [(to_full_width katakana, 0xC16B3333)] else []) @
            (if half_width then [(to_half_width katakana, 0xC1700000)] else [])))"

end
