(* ===== verification/Lattice_Positions.thy ===== *)
theory Lattice_Positions
  imports Lattice
begin

text \<open>
  The positions of the lattice: the map from the input to the surface is monotone, so that the pass over the dual indices
  meets every position of the surface exactly once and in order.
\<close>

section \<open>Results\<close>

lemma then_do_Inr: "then_do r k = Inr v \<longleftrightarrow> (\<exists>a. r = Inr a \<and> k a = Inr v)"
  by (cases r) auto

lemma looked_up_Inr [simp]: "looked_up r = Inr v \<longleftrightarrow> r = Inr v"
  by (cases r) auto

lemma element_at_Inr: "element_at xs i = Inr v \<longleftrightarrow> i < length xs \<and> v = xs ! i"
  by (auto simp: element_at_def)

lemma fold_result_append:
  "fold_result f (xs @ ys) a = then_do (fold_result f xs a) (fold_result f ys)"
proof (induction xs arbitrary: a)
  case (Cons x xs)
  then show ?case by (cases "f x a") simp_all
qed simp

text \<open>An invariant indexed by what was processed.\<close>

lemma fold_result_invariant:
  assumes "fold_result f xs a = Inr b" and "P [] a"
    and "\<And>ys x zs a a'. xs = ys @ x # zs \<Longrightarrow> P ys a \<Longrightarrow> f x a = Inr a' \<Longrightarrow> P (ys @ [x]) a'"
  shows "P xs b"
proof -
  have "P ys' b'" if "xs = ys' @ zs'" "fold_result f ys' a = Inr b'" for ys' zs' b'
    using that
  proof (induction ys' arbitrary: zs' b' rule: rev_induct)
    case Nil
    then show ?case using assms(2) by simp
  next
    case (snoc y ys)
    then show ?case using assms(3) [of ys y zs'] by (auto simp: fold_result_append then_do_Inr)
  qed
  from this [of xs "[]"] assms(1) show ?thesis by simp
qed

text \<open>A fold whose steps all succeed succeeds.\<close>

lemma fold_result_succeeds:
  assumes "P a" and "\<And>x a. x \<in> set xs \<Longrightarrow> P a \<Longrightarrow> \<exists>a'. f x a = Inr a' \<and> P a'"
  shows "\<exists>b. fold_result f xs a = Inr b \<and> P b"
  using assms
proof (induction xs arbitrary: a)
  case (Cons x xs)
  then obtain a' where "f x a = Inr a'" "P a'" by force
  with Cons.IH [of a'] Cons.prems(2) show ?case by auto
qed simp

section \<open>The map\<close>

definition map_ok :: "DualIndexMap \<Rightarrow> nat \<Rightarrow> nat \<Rightarrow> bool" where
  "map_ok m input_count surface_count \<longleftrightarrow>
     (\<forall>i s. input_to_surface m i = Some s \<longrightarrow> i \<le> input_count \<and> s \<le> surface_count \<and> (i = input_count \<longrightarrow> s = surface_count)) \<and>
     (\<forall>i j s t. input_to_surface m i = Some s \<longrightarrow> input_to_surface m j = Some t \<longrightarrow> i \<le> j \<longrightarrow> s \<le> t) \<and>
     (\<forall>i s. surface_to_input m s = Some i \<longrightarrow> input_to_surface m i = Some s) \<and>
     (identity_map m \<longrightarrow> input_count = surface_count)"

text \<open>What the iteration over a \<open>HashMap\<close> gives is entries of the map.\<close>

definition iterates :: "map_order \<Rightarrow> bool" where
  "iterates ord \<longleftrightarrow> (\<forall>m. \<forall>(i, s) \<in> set (ord m). m i = Some s)"

lemma invert_entries_Some: "invert_entries kvs s = Some i \<Longrightarrow> (i, s) \<in> set kvs"
proof -
  have "fold (\<lambda>(i, s) m. case m s of None \<Rightarrow> m(s \<mapsto> i) | Some _ \<Rightarrow> m) kvs m s = Some i \<Longrightarrow>
      m s = Some i \<or> (i, s) \<in> set kvs" for m
    by (induction kvs arbitrary: m) (fastforce split: option.splits if_splits)+
  from this [of Map.empty] show "invert_entries kvs s = Some i \<Longrightarrow> (i, s) \<in> set kvs" by (simp add: invert_entries_def)
qed

lemma input_to_surface_map_stable:
  assumes "input_to_surface_map tables c i = Some s"
  shows "i \<le> length (input c) \<and> stable_upto tables (input c) i (length (input c)) \<and> s = len_at tables (input c) i"
proof (cases "has_identity_mapping c")
  case True
  with assms have i: "i \<le> length (input c)" "s = i"
    by (auto simp: input_to_surface_map_def simp del: upt_Suc dest!: map_of_SomeD)
  have "\<forall>e \<in> set (input c). input_style e = Direct" using True by (auto simp: has_identity_mapping_def list_all_iff)
  then have "stable_upto tables (input c) i (length (input c))" by (rule direct_stable) simp
  moreover have "len_at tables (input c) i = i"
    using True i direct_characters_len [of "take i (input c)" tables]
    by (auto simp: len_at_convert has_identity_mapping_def list_all_iff dest: in_set_takeD)
  ultimately show ?thesis using i by simp
next
  case False
  with assms obtain b where "b \<in> set (independent_boundaries tables c)" "ip_input b = i" "ip_surface b = s"
    by (auto simp: input_to_surface_map_def dest: map_of_stack)
  then show ?thesis by (auto simp: independent_boundaries_stable stable_pairs_mem)
qed

lemma new_index_map_ok:
  assumes "composing_ok tables c" and "iterates ord"
  shows "map_ok (new_index_map ord tables c) (length (input c)) (length (surface c))"
proof -
  let ?es = "input c"
  have sc: "length (surface c) = len_at tables ?es (length ?es)"
    using assms(1) by (simp add: composing_ok_def len_at_convert)
  have m: "input_to_surface (new_index_map ord tables c) = input_to_surface_map tables c"
    by (simp add: new_index_map_def Let_def)
  have inv: "surface_to_input (new_index_map ord tables c) s = Some i \<Longrightarrow> input_to_surface_map tables c i = Some s" for i s
    using assms(2) invert_entries_Some [of "ord (input_to_surface_map tables c)" s i]
    by (auto simp: new_index_map_def Let_def iterates_def)
  have mono: "s \<le> t" if "input_to_surface_map tables c i = Some s" "input_to_surface_map tables c j = Some t" "i \<le> j" for i j s t
    using input_to_surface_map_stable [OF that(1)] input_to_surface_map_stable [OF that(2)] that(3)
      stable_len_mono [of tables ?es i "length ?es" j] by simp
  have bound: "i \<le> length ?es \<and> s \<le> length (surface c) \<and> (i = length ?es \<longrightarrow> s = length (surface c))"
    if "input_to_surface_map tables c i = Some s" for i s
    using input_to_surface_map_stable [OF that] stable_len_mono [of tables ?es i "length ?es" "length ?es"] sc by auto
  show ?thesis
    unfolding map_ok_def m
  proof (intro conjI allI impI)
    fix i j s t assume "input_to_surface_map tables c i = Some s" "input_to_surface_map tables c j = Some t" "i \<le> j"
    then show "s \<le> t" by (rule mono)
  next
    fix i s assume e: "input_to_surface_map tables c i = Some s"
    from bound [OF e] show "i \<le> length ?es" "s \<le> length (surface c)" "i = length ?es \<Longrightarrow> s = length (surface c)"
      by blast+
  next
    fix i s assume "surface_to_input (new_index_map ord tables c) s = Some i"
    then show "input_to_surface_map tables c i = Some s" by (rule inv)
  next
    assume "identity_map (new_index_map ord tables c)"
    then show "length ?es = length (surface c)" by (simp add: new_index_map_def Let_def)
  qed
qed

section \<open>The indices\<close>

lemma map_filter_dual_surfaces [simp]: "List.map_filter dual_surface (map DualSurface xs) = xs"
  by (induction xs) simp_all

lemma map_filter_append [simp]: "List.map_filter f (xs @ ys) = List.map_filter f xs @ List.map_filter f ys"
  by (induction xs) (simp_all add: List.map_filter_simps split: option.split)

lemma upt_join: "i \<le> j \<Longrightarrow> j \<le> k \<Longrightarrow> [i..<k] = [i..<j] @ [j..<k]"
  using upt_add_eq_append [of i j "k - j"] by simp

text \<open>
  The pass: up to the pointer every surface position was met once and in order, and the pointer is not ahead of what the
  next inputs stand for by more than one.
\<close>

lemma index_loop_surfaces:
  assumes "map_ok m ic sc" and "index_loop m sc [i..<ic] p out = (out', p')" and "i \<le> ic"
    and "List.map_filter dual_surface out = [0..<min p sc]"
    and "\<forall>j s. i \<le> j \<longrightarrow> input_to_surface m j = Some s \<longrightarrow> p \<le> s + 1"
    and "\<forall>d \<in> set out. \<forall>j. dual_input d = Some j \<longrightarrow> j < ic"
  shows "List.map_filter dual_surface out' = [0..<min p' sc] \<and> (\<forall>d \<in> set out'. \<forall>j. dual_input d = Some j \<longrightarrow> j < ic)"
  using assms(2-6)
proof (induction "ic - i" arbitrary: i p out)
  case 0
  then show ?case by simp
next
  case (Suc n)
  then have i: "[i..<ic] = i # [Suc i..<ic]" "i < ic" by (simp_all add: upt_conv_Cons)
  show ?case
  proof (cases "input_to_surface m i")
    case None
    show ?thesis
      by (rule Suc.hyps(1) [of "Suc i" p "out @ [DualInput i]"])
        (use Suc.prems Suc.hyps(2) i None in \<open>auto simp: List.map_filter_simps dest: Suc_leD\<close>)
  next
    case (Some s)
    let ?new = "map DualSurface [min p s..<s] @ [if p \<le> s \<and> s < sc then DualBoth i s else DualInput i]"
    have s: "s \<le> sc" using assms(1) Some by (auto simp: map_ok_def)
    have p: "p \<le> s + 1" using Suc.prems(4) Some by blast
    have "List.map_filter dual_surface (out @ ?new) = [0..<min (s + 1) sc]"
    proof (cases "p \<le> s")
      case True
      then show ?thesis
      proof (cases "s < sc")
        case True
        have "[0..<p] @ [p..<s] @ [s] = [0..<Suc s]" using \<open>p \<le> s\<close> upt_join [of 0 p s] by simp
        then show ?thesis using True \<open>p \<le> s\<close> Suc.prems(3) by (simp add: List.map_filter_simps)
      next
        case False
        then have "s = sc" using s by simp
        moreover have "[0..<p] @ [p..<s] = [0..<s]" using \<open>p \<le> s\<close> upt_join [of 0 p s] by simp
        ultimately show ?thesis using \<open>p \<le> s\<close> Suc.prems(3) by (simp add: List.map_filter_simps)
      qed
    next
      case False
      then have "p = s + 1" using p by simp
      then show ?thesis using Suc.prems(3) by (simp add: List.map_filter_simps)
    qed
    moreover have "\<forall>j t. Suc i \<le> j \<longrightarrow> input_to_surface m j = Some t \<longrightarrow> s + 1 \<le> t + 1"
      using assms(1) Some unfolding map_ok_def by (metis Suc_leD add_le_cancel_right)
    ultimately show ?thesis
      by (intro Suc.hyps(1) [of "Suc i" "s + 1" "out @ ?new"])
        (use Suc.prems Suc.hyps(2) i Some in \<open>auto split: if_splits\<close>)
  qed
qed

text \<open>Every position of the surface, once and in order; and only positions the vectors have.\<close>

lemma lattice_indices_surfaces:
  assumes "map_ok m ic sc"
  shows "List.map_filter dual_surface (lattice_indices m ic sc) = [0..<sc] \<and>
    (\<forall>d \<in> set (lattice_indices m ic sc). \<forall>j. dual_input d = Some j \<longrightarrow> j < ic)"
proof (cases "identity_map m")
  case True
  then have "ic = sc" using assms by (simp add: map_ok_def)
  moreover have "List.map_filter dual_surface (map (\<lambda>i. DualBoth i i) xs) = xs" for xs :: "nat list"
    by (induction xs) (simp_all add: List.map_filter_simps)
  ultimately show ?thesis using True by (auto simp: lattice_indices_def)
next
  case False
  obtain out p where l: "index_loop m sc [0..<ic] 0 [] = (out, p)" by fastforce
  have "List.map_filter dual_surface out = [0..<min p sc] \<and> (\<forall>d \<in> set out. \<forall>j. dual_input d = Some j \<longrightarrow> j < ic)"
    by (rule index_loop_surfaces [OF assms l]) (simp_all add: List.map_filter_simps)
  moreover have "[0..<min p sc] @ [min p sc..<sc] = [0..<sc]" using upt_join [of 0 "min p sc" sc] by simp
  ultimately show ?thesis using False l by (auto simp: lattice_indices_def)
qed

lemma dual_surface_of_surface [simp]: "dual_surface (dual m (SurfaceIndex s)) = Some s"
  by (auto simp: dual_def split: option.split)

lemma dual_input_of_surface:
  assumes "map_ok m ic sc" and "s < sc" and "dual_input (dual m (SurfaceIndex s)) = Some i"
  shows "i < ic"
proof (cases "identity_map m")
  case True
  then show ?thesis using assms by (auto simp: dual_def map_ok_def)
next
  case False
  with assms(3) have "surface_to_input m s = Some i" by (auto simp: dual_def split: option.splits)
  then have "input_to_surface m i = Some s" using assms(1) by (simp add: map_ok_def)
  then show ?thesis using assms(1,2) by (fastforce simp: map_ok_def)
qed

end
