(* ===== verification/Lattice_Best.thy ===== *)
theory Lattice_Best
  imports Lattice_Positions
begin

text \<open>
  What a node keeps of the paths that are handed to it: the best \<open>limit\<close> of them, in stable order. The reference is the
  library's stable sort.
\<close>

section \<open>One insertion\<close>

abbreviation score :: "Predecessor \<Rightarrow> int" where
  "score p \<equiv> f32_key (pred_total p)"

definition ranked :: "Predecessor list \<Rightarrow> bool" where
  "ranked ps \<longleftrightarrow> sorted (map (\<lambda>p. - score p) ps) \<and> (\<forall>p \<in> set ps. \<not> f32_is_nan (pred_total p))"

lemma ranked_Nil [simp]: "ranked []"
  by (simp add: ranked_def)

lemma ranked_hd: "ranked ps \<Longrightarrow> p \<in> set ps \<Longrightarrow> score p \<le> score (hd ps)"
  by (cases ps) (auto simp: ranked_def)

lemma find_rev_upt: "find P (rev [0..<Suc n]) = (if P n then Some n else find P (rev [0..<n]))"
  by simp

lemma rposition_split:
  assumes "\<forall>x \<in> set as. P x" and "\<forall>x \<in> set bs. \<not> P x"
  shows "rposition P (as @ bs) = (if as = [] then None else Some (length as - 1))"
  using assms
proof (induction bs rule: rev_induct)
  case Nil
  then show ?case
    by (cases as rule: rev_cases) (simp_all add: rposition_def nth_append)
next
  case (snoc b bs)
  have "((as @ bs @ [b]) ! i) = ((as @ bs) ! i)" if "i \<in> set (rev [0..<length (as @ bs)])" for i
    using that nth_append [of "as @ bs" "[b]" i] by simp
  then have "find (\<lambda>i. P ((as @ bs @ [b]) ! i)) (rev [0..<length (as @ bs)]) = find (\<lambda>i. P ((as @ bs) ! i)) (rev [0..<length (as @ bs)])"
    by (intro find_cong refl) simp
  moreover have "\<not> P ((as @ bs @ [b]) ! length (as @ bs))"
    using snoc.prems nth_append_length [of "as @ bs" b "[]"] by simp
  ultimately have "rposition P (as @ bs @ [b]) = rposition P (as @ bs)" by (simp add: rposition_def)
  then show ?case using snoc by simp
qed

text \<open>In a sorted list the elements up to a key are in front.\<close>

lemma sorted_split:
  fixes f :: "'a \<Rightarrow> 'k::linorder"
  assumes "sorted (map f ys)"
  shows "takeWhile (\<lambda>y. f y \<le> k) ys = filter (\<lambda>y. f y \<le> k) ys \<and> dropWhile (\<lambda>y. f y \<le> k) ys = filter (\<lambda>y. k < f y) ys"
  using assms
proof (induction ys)
  case (Cons y ys)
  show ?case
  proof (cases "f y \<le> k")
    case True
    then show ?thesis using Cons by (simp add: not_less)
  next
    case False
    then have k: "\<forall>z \<in> set (y # ys). k < f z" using Cons.prems by auto
    then have "filter (\<lambda>y. f y \<le> k) (y # ys) = []" "filter (\<lambda>y. k < f y) (y # ys) = y # ys"
      unfolding filter_empty_conv filter_id_conv by (auto simp: not_le)
    then show ?thesis using False by simp
  qed
qed simp

lemma ranked_split:
  assumes "ranked ps" and "\<not> f32_is_nan (pred_total p)"
  shows "takeWhile (\<lambda>q. f32_ge (pred_total q) (pred_total p)) ps = filter (\<lambda>q. score p \<le> score q) ps"
    and "dropWhile (\<lambda>q. f32_ge (pred_total q) (pred_total p)) ps = filter (\<lambda>q. score q < score p) ps"
proof -
  have "takeWhile (\<lambda>q. f32_ge (pred_total q) (pred_total p)) ps = takeWhile (\<lambda>q. - score q \<le> - score p) ps"
    "dropWhile (\<lambda>q. f32_ge (pred_total q) (pred_total p)) ps = dropWhile (\<lambda>q. - score q \<le> - score p) ps"
    using assms by (auto intro!: takeWhile_cong dropWhile_cong simp: ranked_def f32_ge_def)
  then show "takeWhile (\<lambda>q. f32_ge (pred_total q) (pred_total p)) ps = filter (\<lambda>q. score p \<le> score q) ps"
    "dropWhile (\<lambda>q. f32_ge (pred_total q) (pred_total p)) ps = filter (\<lambda>q. score q < score p) ps"
    using sorted_split [of "\<lambda>q. - score q" ps "- score p"] assms(1) by (simp_all add: ranked_def)
qed

definition ranked_insert :: "Predecessor \<Rightarrow> Predecessor list \<Rightarrow> Predecessor list" where
  "ranked_insert p ps = filter (\<lambda>q. score p \<le> score q) ps @ [p] @ filter (\<lambda>q. score q < score p) ps"

lemma insert_predecessor_ranked:
  assumes "ranked ps" and "\<not> f32_is_nan (pred_total p)" and "length ps \<le> n" and "0 < n"
  shows "insert_predecessor ps p n = take n (ranked_insert p ps)"
proof -
  let ?P = "\<lambda>q. f32_ge (pred_total q) (pred_total p)"
  define as bs where "as = takeWhile ?P ps" and "bs = dropWhile ?P ps"
  have ps: "ps = as @ bs" by (simp add: as_def bs_def)
  have r: "ranked_insert p ps = as @ [p] @ bs"
    by (simp add: ranked_insert_def as_def bs_def ranked_split [OF assms(1,2)])
  have a: "\<forall>q \<in> set as. ?P q" by (auto simp: as_def dest: set_takeWhileD)
  have b: "\<forall>q \<in> set bs. \<not> ?P q"
    unfolding bs_def ranked_split [OF assms(1,2)] by (auto simp: f32_ge_def)
  have i: "(case rposition ?P ps of Some i \<Rightarrow> i + 1 | None \<Rightarrow> 0) = length as"
    unfolding ps by (simp add: rposition_split [OF a b])
  show ?thesis
  proof (cases "length as = n")
    case True
    then have "bs = []" using assms(3) ps by simp
    then show ?thesis using True i ps r by (simp add: insert_predecessor_def)
  next
    case False
    show ?thesis
    proof (cases "length ps \<ge> n")
      case True
      then have l: "length bs = n - length as" "bs \<noteq> []" "length as < n" using assms(3) ps False by auto
      then have "take n (as @ [p] @ bs) = as @ [p] @ butlast bs"
        using l by (cases "n - length as") (simp_all add: butlast_conv_take)
      then show ?thesis using True False i r l unfolding ps by (simp add: insert_predecessor_def butlast_append)
    next
      case False
      then show ?thesis using i r \<open>length as \<noteq> n\<close> unfolding ps by (simp add: insert_predecessor_def)
    qed
  qed
qed

lemma set_ranked_insert [simp]: "set (ranked_insert p ps) = insert p (set ps)"
  by (auto simp: ranked_insert_def)

lemma ranked_ranked_insert: "ranked ps \<Longrightarrow> \<not> f32_is_nan (pred_total p) \<Longrightarrow> ranked (ranked_insert p ps)"
  by (auto simp: ranked_def ranked_insert_def sorted_append sorted_map intro: sorted_wrt_filter)

lemma ranked_take: "ranked ps \<Longrightarrow> ranked (take n ps)"
  by (auto simp: ranked_def take_map [symmetric] sorted_wrt_take dest: in_set_takeD)

text \<open>What insertion gives a node: ranked, no more than allowed, not empty, with the best score in front.\<close>

lemma insert_predecessor_props:
  assumes "ranked ps" and "\<not> f32_is_nan (pred_total p)" and "length ps \<le> n" and "0 < n"
  shows "ranked (insert_predecessor ps p n)" and "length (insert_predecessor ps p n) \<le> n"
    and "set (insert_predecessor ps p n) \<subseteq> insert p (set ps)" and "insert_predecessor ps p n \<noteq> []"
    and "q \<in> insert p (set ps) \<Longrightarrow> score q \<le> score (hd (insert_predecessor ps p n))"
proof -
  note i = insert_predecessor_ranked [OF assms] and r = ranked_ranked_insert [OF assms(1,2)]
  show "ranked (insert_predecessor ps p n)" unfolding i by (rule ranked_take [OF r])
  show "length (insert_predecessor ps p n) \<le> n" unfolding i by simp
  show "set (insert_predecessor ps p n) \<subseteq> insert p (set ps)" unfolding i using set_take_subset [of n] by fastforce
  have ne: "ranked_insert p ps \<noteq> []" by (simp add: ranked_insert_def)
  then show "insert_predecessor ps p n \<noteq> []" using assms(4) unfolding i by simp
  have "hd (take n (ranked_insert p ps)) = hd (ranked_insert p ps)" using assms(4) ne by simp
  then show "q \<in> insert p (set ps) \<Longrightarrow> score q \<le> score (hd (insert_predecessor ps p n))"
    using ranked_hd [OF r, of q] unfolding i by simp
qed

section \<open>Many insertions\<close>

lemma sort_key_snoc:
  fixes f :: "'a \<Rightarrow> 'k::linorder"
  shows "sort_key f (xs @ [x]) = filter (\<lambda>y. f y \<le> f x) (sort_key f xs) @ [x] @ filter (\<lambda>y. f x < f y) (sort_key f xs)"
proof -
  let ?s = "sort_key f xs"
  have split: "mset (filter (\<lambda>y. f y \<le> f x) ?s) + mset (filter (\<lambda>y. f x < f y) ?s) = mset ?s"
    by (metis (mono_tags, lifting) filter_cong mset_filter multiset_partition not_le)
  then have m: "mset (filter (\<lambda>y. f y \<le> f x) ?s @ [x] @ filter (\<lambda>y. f x < f y) ?s) = mset (xs @ [x])" by simp
  have "sorted (map f (filter P ?s))" for P by (simp add: sorted_filter)
  then have o: "sorted (map f (filter (\<lambda>y. f y \<le> f x) ?s @ [x] @ filter (\<lambda>y. f x < f y) ?s))"
    by (auto simp: sorted_append)
  have stable: "filter (\<lambda>y. f k = f y) ?s = filter (\<lambda>y. f k = f y) xs" for k
    using sort_key_stable [of f "f k" xs] by (simp add: eq_commute)
  have st: "filter (\<lambda>y. f k = f y) (filter (\<lambda>y. f y \<le> f x) ?s @ [x] @ filter (\<lambda>y. f x < f y) ?s) =
      filter (\<lambda>y. f k = f y) (xs @ [x])" for k
  proof (cases "f k \<le> f x")
    case True
    then have "filter (\<lambda>y. f k = f y) (filter (\<lambda>y. f y \<le> f x) ?s) = filter (\<lambda>y. f k = f y) ?s"
      "filter (\<lambda>y. f k = f y) (filter (\<lambda>y. f x < f y) ?s) = []"
      unfolding filter_filter filter_empty_conv by (auto intro!: filter_cong)
    then show ?thesis by (simp only: filter_append stable) simp
  next
    case False
    then have "filter (\<lambda>y. f k = f y) (filter (\<lambda>y. f y \<le> f x) ?s) = []"
      "filter (\<lambda>y. f k = f y) (filter (\<lambda>y. f x < f y) ?s) = filter (\<lambda>y. f k = f y) ?s"
      unfolding filter_filter filter_empty_conv by (auto intro!: filter_cong)
    moreover have "f k \<noteq> f x" using False by auto
    ultimately show ?thesis by (simp only: filter_append stable) simp
  qed
  show ?thesis by (rule properties_for_sort_key [OF m _ o]) (rule st)
qed

lemma take_filters:
  assumes "sorted (map f (xs :: 'a list))"
  shows "take n (filter (\<lambda>y. f y \<le> (k :: int)) (take n xs) @ [x] @ filter (\<lambda>y. k < f y) (take n xs)) =
    take n (filter (\<lambda>y. f y \<le> k) xs @ [x] @ filter (\<lambda>y. k < f y) xs)"
proof -
  have s: "filter (\<lambda>y. f y \<le> k) ys = takeWhile (\<lambda>y. f y \<le> k) ys" "filter (\<lambda>y. k < f y) ys = dropWhile (\<lambda>y. f y \<le> k) ys"
    if "sorted (map f ys)" for ys
    using sorted_split [OF that, of k] by simp_all
  have st: "sorted (map f (take n xs))" using assms by (simp add: take_map [symmetric] sorted_wrt_take)
  define as bs where "as = takeWhile (\<lambda>y. f y \<le> k) xs" and "bs = dropWhile (\<lambda>y. f y \<le> k) xs"
  have xs: "xs = as @ bs" by (simp add: as_def bs_def)
  have a: "\<forall>y \<in> set as. f y \<le> k" by (auto simp: as_def dest: set_takeWhileD)
  have b: "bs = [] \<or> \<not> f (hd bs) \<le> k" using hd_dropWhile [of "\<lambda>y. f y \<le> k" xs] by (auto simp: bs_def)
  have t: "takeWhile (\<lambda>y. f y \<le> k) (take n xs) = take n as" "dropWhile (\<lambda>y. f y \<le> k) (take n xs) = take (n - length as) bs"
  proof -
    have "takeWhile (\<lambda>y. f y \<le> k) (take (n - length as) bs) = []" "dropWhile (\<lambda>y. f y \<le> k) (take (n - length as) bs) = take (n - length as) bs"
      using b by (cases bs; cases "n - length as"; simp)+
    then show "takeWhile (\<lambda>y. f y \<le> k) (take n xs) = take n as" "dropWhile (\<lambda>y. f y \<le> k) (take n xs) = take (n - length as) bs"
      using a by (auto simp: xs takeWhile_append dropWhile_append dest: in_set_takeD)
  qed
  show ?thesis
    unfolding s [OF assms] s [OF st] t as_def [symmetric] bs_def [symmetric]
    by (cases "n - length as") (auto simp: take_Cons' min_def)
qed

lemma insertions_ranked:
  assumes "\<forall>p \<in> set ps. \<not> f32_is_nan (pred_total p)" and "0 < n"
  shows "fold (\<lambda>p acc. insert_predecessor acc p n) ps [] = take n (sort_key (\<lambda>p. - score p) ps)"
  using assms(1)
proof (induction ps rule: rev_induct)
  case (snoc p ps)
  let ?s = "sort_key (\<lambda>p. - score p) ps"
  have r: "ranked (take n ?s)" using snoc.prems by (intro ranked_take) (auto simp: ranked_def)
  have "insert_predecessor (take n ?s) p n = take n (ranked_insert p (take n ?s))"
    using r snoc.prems assms(2) by (intro insert_predecessor_ranked) auto
  also have "\<dots> = take n (sort_key (\<lambda>p. - score p) (ps @ [p]))"
    using take_filters [of "\<lambda>p. - score p" ?s n "- score p" p] by (simp add: ranked_insert_def sort_key_snoc)
  finally show ?case using snoc by simp
qed simp

text \<open>
  Whatever paths are handed to a node, in whatever order, \<open>insert_predecessor\<close> leaves it with the best \<open>limit\<close> of
  them in the order of a stable sort by descending score, where paths of equal score stay in the order they came.
\<close>

theorem predecessors_are_best:
  assumes "\<forall>p \<in> set ps. \<not> f32_is_nan (pred_total p)" and "0 < n"
  shows "fold (\<lambda>p acc. insert_predecessor acc p n) ps [] = take n (sort_key (\<lambda>p. - f32_key (pred_total p)) ps)"
  by (rule insertions_ranked [OF assms])

lemma predecessors_are_best_witness:
  "map pred_total (fold (\<lambda>p acc. insert_predecessor acc p 2)
     [\<lparr>pred_path = None, pred_total = 0xC0000000\<rparr>, \<lparr>pred_path = None, pred_total = 0xBF800000\<rparr>,
      \<lparr>pred_path = None, pred_total = 0\<rparr>] []) = [0, 0xBF800000]"
proof -
  let ?ps = "[\<lparr>pred_path = None, pred_total = 0xC0000000\<rparr>, \<lparr>pred_path = None, pred_total = 0xBF800000\<rparr>,
      \<lparr>pred_path = None, pred_total = 0\<rparr>]"
  have "\<forall>p \<in> set ?ps. \<not> f32_is_nan (pred_total p)" by code_simp
  then have "fold (\<lambda>p acc. insert_predecessor acc p 2) ?ps [] = take 2 (sort_key (\<lambda>p. - f32_key (pred_total p)) ?ps)"
    by (rule predecessors_are_best) simp
  also have "map pred_total \<dots> = [0, 0xBF800000]" by code_simp
  finally show ?thesis .
qed

end
