(* ===== verification/Lattice_Search.thy ===== *)
theory Lattice_Search
  imports Lattice_Best
begin

text \<open>
  The search finds the best path. The reference is the set of all paths of words through the lattice, with the scores the
  code gives them; the theorem needs that rounding is monotone (\<open>F32_Arith\<close>).
\<close>

section \<open>All paths\<close>

type_synonym placed_word = "DictionaryEntry \<times> LatticeRange"

inductive lattice_path :: "Lookups \<Rightarrow> ConversionContext \<Rightarrow> placed_word set \<Rightarrow> RegisteredPath \<Rightarrow> bool"
  for lk ctx ws where
  first_word: "(e, SurfaceRange 0 t) \<in> ws \<Longrightarrow>
    find_cost lk (unat (ctx_right_id ctx)) (unat (left_id e)) = Inr h \<Longrightarrow>
    lattice_path lk ctx ws
      (RegisteredPath e (SurfaceRange 0 t) None (f32_add (f32_add f32_zero (entry_value e)) h))"
| next_word: "lattice_path lk ctx ws p \<Longrightarrow> path_range p = SurfaceRange r s \<Longrightarrow> 0 < s \<Longrightarrow> (e, SurfaceRange s t) \<in> ws \<Longrightarrow>
    find_cost lk (unat (right_id (path_entry p))) (unat (left_id e)) = Inr k \<Longrightarrow>
    lattice_path lk ctx ws
      (RegisteredPath e (SurfaceRange s t) (Some p) (f32_add (f32_add (f32_add (path_total p) k) (entry_value e)) f32_zero))"

inductive_cases lattice_path_cases: "lattice_path lk ctx ws p"

definition costs_nonpositive :: "Lookups \<Rightarrow> bool" where
  "costs_nonpositive lk \<longleftrightarrow> (\<forall>former latter v. find_cost lk former latter = Inr v \<longrightarrow> nonpositive v)"

lemma entry_value_nonpositive [simp]: "nonpositive (entry_value e)"
  by (auto simp: entry_value_def f32_min_def nonpositive_def f32_lt_def f32_zero_def f32_is_nan_def f32_key_def
      magnitude_def f32_sign_def)

lemma lattice_path_nonpositive:
  assumes "costs_nonpositive lk" and "lattice_path lk ctx ws p"
  shows "nonpositive (path_total p)"
  using assms(2) by induction (use assms(1) in \<open>simp_all add: costs_nonpositive_def\<close>)

lemma lattice_path_last: "lattice_path lk ctx ws p \<Longrightarrow> (path_entry p, path_range p) \<in> ws"
  by (cases rule: lattice_path.cases) auto

section \<open>Better predecessors\<close>

definition better :: "Predecessor list \<Rightarrow> Predecessor list \<Rightarrow> bool" where
  "better ps qs \<longleftrightarrow> (\<forall>p \<in> set ps. \<exists>q \<in> set qs. score p \<le> score q)"

lemma better_refl [simp]: "better ps ps"
  by (auto simp: better_def)

lemma better_trans: "better ps qs \<Longrightarrow> better qs rs \<Longrightarrow> better ps rs"
  unfolding better_def by (meson order_trans)

lemma insertions:
  assumes "ranked acc" and "length acc \<le> n" and "0 < n" and "\<forall>p \<in> set ps. \<not> f32_is_nan (pred_total p)"
  shows "ranked (fold (\<lambda>p acc. insert_predecessor acc p n) ps acc)
    \<and> length (fold (\<lambda>p acc. insert_predecessor acc p n) ps acc) \<le> n
    \<and> set (fold (\<lambda>p acc. insert_predecessor acc p n) ps acc) \<subseteq> set acc \<union> set ps
    \<and> better (acc @ ps) (fold (\<lambda>p acc. insert_predecessor acc p n) ps acc)"
  using assms(1,2,4)
proof (induction ps arbitrary: acc)
  case (Cons p ps)
  let ?a = "insert_predecessor acc p n"
  have p: "\<not> f32_is_nan (pred_total p)" using Cons.prems(3) by simp
  note i = insert_predecessor_props [OF Cons.prems(1) p Cons.prems(2) assms(3)]
  have b: "better (acc @ [p]) ?a"
    unfolding better_def
  proof
    fix q assume "q \<in> set (acc @ [p])"
    then have "score q \<le> score (hd ?a)" by (intro i(5)) auto
    then show "\<exists>r \<in> set ?a. score q \<le> score r" using i(4) by (intro bexI [of _ "hd ?a"]) simp_all
  qed
  have IH: "ranked (fold (\<lambda>p acc. insert_predecessor acc p n) ps ?a)
    \<and> length (fold (\<lambda>p acc. insert_predecessor acc p n) ps ?a) \<le> n
    \<and> set (fold (\<lambda>p acc. insert_predecessor acc p n) ps ?a) \<subseteq> set ?a \<union> set ps
    \<and> better (?a @ ps) (fold (\<lambda>p acc. insert_predecessor acc p n) ps ?a)"
    by (rule Cons.IH [OF i(1,2)]) (use Cons.prems(3) in simp)
  have "better (acc @ p # ps) (?a @ ps)"
    using b unfolding better_def by auto
  then show ?case using IH i(3) better_trans by fastforce
qed simp

section \<open>The state of the search\<close>

definition placed_words :: "LatticeState \<Rightarrow> placed_word list" where
  "placed_words l = map (\<lambda>n. (node_entry n, node_range n)) (nodes l)"

abbreviation preds :: "LatticeState \<Rightarrow> nat \<Rightarrow> Predecessor list" where
  "preds l j \<equiv> predecessors (nodes l ! j)"

definition word_start :: "placed_word \<Rightarrow> nat" where
  "word_start w = (case snd w of SurfaceRange s t \<Rightarrow> s | InputRange s t \<Rightarrow> s)"

text \<open>Every word of the surface is at its start and has an end behind it.\<close>

definition words_ok :: "nat \<Rightarrow> placed_word list \<Rightarrow> nat list list \<Rightarrow> bool" where
  "words_ok sc ws sn \<longleftrightarrow>
     length sn = sc \<and>
     (\<forall>j < length ws. \<exists>s t. snd (ws ! j) = SurfaceRange s t \<and> s < t \<and> t \<le> sc \<and> j \<in> set (sn ! s)) \<and>
     (\<forall>s < sc. \<forall>j \<in> set (sn ! s). j < length ws \<and> word_start (ws ! j) = s)"

definition search_ok :: "Search \<Rightarrow> bool" where
  "search_ok sr \<longleftrightarrow> sr_constraint sr = None \<and> 0 < sr_limit sr \<and> costs_nonpositive (sr_lookups sr) \<and>
     map_ok (sr_map sr) (sr_input_count sr) (sr_surface_count sr)"

abbreviation search_path :: "Search \<Rightarrow> placed_word list \<Rightarrow> RegisteredPath \<Rightarrow> bool" where
  "search_path sr ws \<equiv> lattice_path (sr_lookups sr) (sr_context sr) (set ws)"

abbreviation cost_between :: "Search \<Rightarrow> DictionaryEntry \<Rightarrow> DictionaryEntry \<Rightarrow> DictionaryError + f32" where
  "cost_between sr e f \<equiv> find_cost (sr_lookups sr) (unat (right_id e)) (unat (left_id f))"

text \<open>A predecessor of a word is a path up to its start, with the cost of the connection.\<close>

definition handed :: "Search \<Rightarrow> placed_word list \<Rightarrow> nat \<Rightarrow> Predecessor \<Rightarrow> bool" where
  "handed sr ws j q \<longleftrightarrow>
     (\<exists>p r k. pred_path q = Some p \<and> search_path sr ws p \<and> path_range p = SurfaceRange r (word_start (ws ! j)) \<and>
        cost_between sr (path_entry p) (fst (ws ! j)) = Inr k \<and> pred_total q = f32_add (path_total p) k)"

text \<open>The nodes keep their words, and their predecessors are what they should be.\<close>

definition lattice_ok :: "Search \<Rightarrow> placed_word list \<Rightarrow> nat list list \<Rightarrow> LatticeState \<Rightarrow> bool" where
  "lattice_ok sr ws sn l \<longleftrightarrow>
     placed_words l = ws \<and> surface_nodes l = sn \<and> input_nodes l = replicate (sr_input_count sr) [] \<and>
     words_ok (sr_surface_count sr) ws sn \<and>
     (\<forall>j < length ws. if word_start (ws ! j) = 0 then preds l j = [\<lparr>pred_path = None, pred_total = f32_zero\<rparr>]
        else ranked (preds l j) \<and> length (preds l j) \<le> sr_limit sr \<and> (\<forall>q \<in> set (preds l j). handed sr ws j q))"

text \<open>What the search owes to the paths that end with one of the words visited.\<close>

definition served :: "Search \<Rightarrow> placed_word list \<Rightarrow> LatticeState \<Rightarrow> RegisteredPath list \<Rightarrow> RegisteredPath \<Rightarrow> bool" where
  "served sr ws l found p \<longleftrightarrow>
     (\<forall>r. path_range p = SurfaceRange r (sr_surface_count sr) \<longrightarrow>
        (\<exists>q \<in> set found. f32_key (path_total p) \<le> f32_key (path_total q))) \<and>
     (\<forall>r j k. j < length ws \<longrightarrow> path_range p = SurfaceRange r (word_start (ws ! j)) \<longrightarrow>
        cost_between sr (path_entry p) (fst (ws ! j)) = Inr k \<longrightarrow>
        (\<exists>q \<in> set (preds l j). f32_key (f32_add (path_total p) k) \<le> score q))"

definition complete_found :: "Search \<Rightarrow> placed_word list \<Rightarrow> RegisteredPath list \<Rightarrow> bool" where
  "complete_found sr ws found \<longleftrightarrow>
     (\<forall>p \<in> set found. search_path sr ws p \<and> (\<exists>r. path_range p = SurfaceRange r (sr_surface_count sr)))"

definition progress :: "Search \<Rightarrow> placed_word list \<Rightarrow> nat list list \<Rightarrow> nat set \<Rightarrow> LatticeState \<times> RegisteredPath list \<Rightarrow> bool" where
  "progress sr ws sn visited lr \<longleftrightarrow>
     lattice_ok sr ws sn (fst lr) \<and> complete_found sr ws (snd lr) \<and>
     (\<forall>p. search_path sr ws p \<longrightarrow> (path_entry p, path_range p) \<in> (\<lambda>j. ws ! j) ` visited \<longrightarrow> served sr ws (fst lr) (snd lr) p)"

lemma node_of_word:
  assumes "lattice_ok sr ws sn l" and "j < length ws"
  shows "j < length (nodes l)" and "node_entry (nodes l ! j) = fst (ws ! j)" and "node_range (nodes l ! j) = snd (ws ! j)"
  using assms by (auto simp: lattice_ok_def placed_words_def)

lemma word_range:
  assumes "words_ok sc ws sn" and "j < length ws"
  obtains t where "snd (ws ! j) = SurfaceRange (word_start (ws ! j)) t" and "word_start (ws ! j) < t" and "t \<le> sc"
    and "j \<in> set (sn ! word_start (ws ! j))"
proof -
  from assms obtain s t where "snd (ws ! j) = SurfaceRange s t" "s < t" "t \<le> sc" "j \<in> set (sn ! s)"
    unfolding words_ok_def by blast
  moreover from this have "word_start (ws ! j) = s" by (simp add: word_start_def)
  ultimately show thesis using that by simp
qed

section \<open>Completing paths\<close>

lemma handed_nonpositive:
  assumes "search_ok sr" and "handed sr ws j q"
  shows "nonpositive (pred_total q)"
proof -
  have c: "costs_nonpositive (sr_lookups sr)" using assms(1) by (simp add: search_ok_def)
  from assms(2) obtain p k where "search_path sr ws p" "pred_total q = f32_add (path_total p) k"
    "find_cost (sr_lookups sr) (unat (right_id (path_entry p))) (unat (left_id (fst (ws ! j)))) = Inr k"
    unfolding handed_def by blast
  then show ?thesis using lattice_path_nonpositive [OF c] c by (simp add: costs_nonpositive_def)
qed

lemma completed_paths_all:
  assumes "search_ok sr" and "completed_paths sr n = Inr cs"
  shows "map (complete_path sr n) (predecessors n) = map Inr cs"
  using assms by (auto simp: completed_paths_def search_ok_def then_do_Inr collect_Inr)

lemma complete_path_Inr:
  "complete_path sr n q = Inr c \<longleftrightarrow>
     (\<exists>h. (if starts_at_zero (node_range n)
           then find_cost (sr_lookups sr) (unat (ctx_right_id (sr_context sr))) (unat (left_id (node_entry n))) = Inr h
           else h = f32_zero) \<and>
          c = RegisteredPath (node_entry n) (node_range n) (pred_path q)
                (f32_add (f32_add (pred_total q) (entry_value (node_entry n))) h))"
  by (auto simp: complete_path_def then_do_Inr)

lemma completed_sound:
  assumes ok: "search_ok sr" "lattice_ok sr ws sn l" "j < length ws" and cs: "completed_paths sr (nodes l ! j) = Inr cs"
    and c: "c \<in> set cs"
  shows "search_path sr ws c \<and> (path_entry c, path_range c) = ws ! j"
proof -
  note n = node_of_word [OF ok(2,3)]
  have w: "words_ok (sr_surface_count sr) ws sn" using ok(2) by (simp add: lattice_ok_def)
  obtain t where t: "snd (ws ! j) = SurfaceRange (word_start (ws ! j)) t" using word_range [OF w ok(3)] by blast
  have mem: "(fst (ws ! j), SurfaceRange (word_start (ws ! j)) t) \<in> set ws" using ok(3) t by (metis nth_mem prod.collapse)
  obtain q where q: "q \<in> set (preds l j)" "complete_path sr (nodes l ! j) q = Inr c"
    using completed_paths_all [OF ok(1) cs] c by (metis imageE image_eqI list.set_map)
  show ?thesis
  proof (cases "word_start (ws ! j) = 0")
    case True
    then have "q = \<lparr>pred_path = None, pred_total = f32_zero\<rparr>" using ok(2,3) q(1) by (auto simp: lattice_ok_def)
    moreover from this q(2) True t obtain h where
      "find_cost (sr_lookups sr) (unat (ctx_right_id (sr_context sr))) (unat (left_id (fst (ws ! j)))) = Inr h"
      "c = RegisteredPath (fst (ws ! j)) (SurfaceRange 0 t) None (f32_add (f32_add f32_zero (entry_value (fst (ws ! j)))) h)"
      by (auto simp: complete_path_Inr n)
    ultimately show ?thesis using first_word [of "fst (ws ! j)" t "set ws"] mem True t by (auto simp: prod_eq_iff)
  next
    case False
    then have "handed sr ws j q" using ok(2,3) q(1) by (auto simp: lattice_ok_def)
    then obtain p r k where p: "pred_path q = Some p" "search_path sr ws p" "path_range p = SurfaceRange r (word_start (ws ! j))"
      "cost_between sr (path_entry p) (fst (ws ! j)) = Inr k" "pred_total q = f32_add (path_total p) k"
      unfolding handed_def by blast
    have "c = RegisteredPath (fst (ws ! j)) (SurfaceRange (word_start (ws ! j)) t) (Some p)
        (f32_add (f32_add (f32_add (path_total p) k) (entry_value (fst (ws ! j)))) f32_zero)"
      using q(2) False t p by (auto simp: complete_path_Inr n)
    then show ?thesis using next_word [OF p(2,3) _ mem p(4)] False t by (auto simp: prod_eq_iff)
  qed
qed

lemma completed_best:
  assumes ok: "search_ok sr" "lattice_ok sr ws sn l" "j < length ws" and cs: "completed_paths sr (nodes l ! j) = Inr cs"
    and p: "search_path sr ws p" "(path_entry p, path_range p) = ws ! j"
    and before: "\<And>p'. search_path sr ws p' \<Longrightarrow> word_start (path_entry p', path_range p') < word_start (ws ! j) \<Longrightarrow>
      served sr ws l found p'"
  shows "\<exists>c \<in> set cs. f32_key (path_total p) \<le> f32_key (path_total c)"
proof -
  note n = node_of_word [OF ok(2,3)]
  have w: "words_ok (sr_surface_count sr) ws sn" using ok(2) by (simp add: lattice_ok_def)
  have costs: "costs_nonpositive (sr_lookups sr)" using ok(1) by (simp add: search_ok_def)
  have done_with: "complete_path sr (nodes l ! j) q = Inr c \<Longrightarrow> q \<in> set (preds l j) \<Longrightarrow> c \<in> set cs" for q c
    using completed_paths_all [OF ok(1) cs] by (metis image_eqI imageE list.set_map sum.inject(2))
  have all: "\<exists>c. complete_path sr (nodes l ! j) q = Inr c" if "q \<in> set (preds l j)" for q
    using completed_paths_all [OF ok(1) cs] that by (metis imageE image_eqI list.set_map)
  show ?thesis using p(1)
  proof (cases rule: lattice_path.cases)
    case (first_word e t h)
    then have z: "word_start (ws ! j) = 0" "snd (ws ! j) = SurfaceRange 0 t" "fst (ws ! j) = e"
      using p(2) by (auto simp: word_start_def simp flip: p(2))
    then have "preds l j = [\<lparr>pred_path = None, pred_total = f32_zero\<rparr>]" using ok(2,3) by (auto simp: lattice_ok_def)
    then have "p \<in> set cs"
      using first_word z by (intro done_with [of "\<lparr>pred_path = None, pred_total = f32_zero\<rparr>"]) (auto simp: complete_path_Inr n)
    then show ?thesis by blast
  next
    case (next_word p' r s e t k)
    then have z: "word_start (ws ! j) = s" "snd (ws ! j) = SurfaceRange s t" "fst (ws ! j) = e"
      by (auto simp: word_start_def simp flip: p(2))
    obtain i where i: "i < length ws" "ws ! i = (path_entry p', path_range p')"
      using lattice_path_last [OF next_word(2)] by (metis in_set_conv_nth)
    have "word_start (path_entry p', path_range p') < s"
      using word_range [OF w i(1)] next_word(3) i(2) by (metis LatticeRange.inject(2) snd_conv)
    then have "served sr ws l found p'" using before next_word(2) z(1) by simp
    then obtain q where q: "q \<in> set (preds l j)" "f32_key (f32_add (path_total p') k) \<le> score q"
      using ok(3) next_word(3,6) z unfolding served_def by blast
    obtain c where c: "complete_path sr (nodes l ! j) q = Inr c" using all [OF q(1)] by blast
    have h: "handed sr ws j q" using ok(2,3) q(1) z(1) next_word(4) by (auto simp: lattice_ok_def)
    have "nonpositive (pred_total q)" "nonpositive (f32_add (path_total p') k)"
      using handed_nonpositive [OF ok(1) h] lattice_path_nonpositive [OF costs next_word(2)] costs next_word(6)
      by (auto simp: costs_nonpositive_def)
    then have "f32_key (f32_add (f32_add (f32_add (path_total p') k) (entry_value e)) f32_zero) \<le>
        f32_key (f32_add (f32_add (pred_total q) (entry_value e)) f32_zero)"
      using q(2) by (intro add_mono_nonpositive) simp_all
    moreover have "path_total c = f32_add (f32_add (pred_total q) (entry_value e)) f32_zero"
      using c z next_word(4) by (auto simp: complete_path_Inr n)
    ultimately show ?thesis using done_with [OF c q(1)] next_word(1) by (intro bexI [of _ c]) simp_all
  qed
qed

section \<open>Handing paths on\<close>

text \<open>What one call of \<open>hand_to\<close> does to the lattice.\<close>

lemma hand_to_Inr:
  assumes "search_ok sr" and "hand_to sr e cs j l = Inr l'"
  obtains k where "find_cost (sr_lookups sr) (unat (right_id e)) (unat (left_id (node_entry (nodes l ! j)))) = Inr k"
    and "l' = l\<lparr>nodes := (nodes l)[j := (nodes l ! j)\<lparr>predecessors :=
        fold (\<lambda>p acc. insert_predecessor acc p (sr_limit sr))
          (map (\<lambda>p. \<lparr>pred_path = Some p, pred_total = f32_add (path_total p) k\<rparr>) cs) (preds l j)\<rparr>]\<rparr>"
  using assms by (auto simp: hand_to_def search_ok_def then_do_Inr fold_map comp_def Let_def)

text \<open>One node gets the paths of another, whose word ends where its own begins.\<close>

lemma hand_to_step:
  assumes ok: "search_ok sr" "lattice_ok sr ws sn l" and j: "j < length ws" "0 < word_start (ws ! j)"
    and cs: "\<forall>c \<in> set cs. search_path sr ws c \<and> path_entry c = e \<and> (\<exists>r. path_range c = SurfaceRange r (word_start (ws ! j)))"
    and h: "hand_to sr e cs j l = Inr l'"
  shows "lattice_ok sr ws sn l'" and "\<forall>i. i < length ws \<longrightarrow> better (preds l i) (preds l' i)"
    and "\<forall>c \<in> set cs. \<forall>k. cost_between sr e (fst (ws ! j)) = Inr k \<longrightarrow>
      (\<exists>q \<in> set (preds l' j). f32_key (f32_add (path_total c) k) \<le> score q)"
proof -
  note n = node_of_word [OF ok(2) j(1)]
  have costs: "costs_nonpositive (sr_lookups sr)" and limit: "0 < sr_limit sr" using ok(1) by (simp_all add: search_ok_def)
  obtain k where "cost_between sr e (node_entry (nodes l ! j)) = Inr k"
    and l': "l' = l\<lparr>nodes := (nodes l)[j := (nodes l ! j)\<lparr>predecessors :=
        fold (\<lambda>p acc. insert_predecessor acc p (sr_limit sr))
          (map (\<lambda>p. \<lparr>pred_path = Some p, pred_total = f32_add (path_total p) k\<rparr>) cs) (preds l j)\<rparr>]\<rparr>"
    by (rule hand_to_Inr [OF ok(1) h])
  then have k: "cost_between sr e (fst (ws ! j)) = Inr k" by (simp only: n(2))
  let ?new = "map (\<lambda>p. \<lparr>pred_path = Some p, pred_total = f32_add (path_total p) k\<rparr>) cs"
  let ?r = "fold (\<lambda>p acc. insert_predecessor acc p (sr_limit sr)) ?new (preds l j)"
  have before: "ranked (preds l j)" "length (preds l j) \<le> sr_limit sr" "\<forall>q \<in> set (preds l j). handed sr ws j q"
    using ok(2) j by (auto simp: lattice_ok_def)
  have nan: "\<forall>p \<in> set ?new. \<not> f32_is_nan (pred_total p)"
  proof
    fix q assume "q \<in> set ?new"
    then obtain c where "c \<in> set cs" "q = \<lparr>pred_path = Some c, pred_total = f32_add (path_total c) k\<rparr>" by auto
    moreover have "nonpositive (path_total c)" using cs \<open>c \<in> set cs\<close> lattice_path_nonpositive [OF costs] by blast
    moreover have "nonpositive k" using k costs unfolding costs_nonpositive_def by blast
    ultimately show "\<not> f32_is_nan (pred_total q)" using nonpositive_add [of "path_total c" k] by (simp add: nonpositive_def)
  qed
  note r = insertions [OF before(1,2) limit nan]
  have new: "\<forall>q \<in> set ?new. handed sr ws j q"
  proof
    fix q assume "q \<in> set ?new"
    then obtain c where c: "c \<in> set cs" "q = \<lparr>pred_path = Some c, pred_total = f32_add (path_total c) k\<rparr>" by auto
    with cs obtain s where "search_path sr ws c" "path_entry c = e" "path_range c = SurfaceRange s (word_start (ws ! j))" by blast
    then show "handed sr ws j q" using c k unfolding handed_def by (intro exI [of _ c] exI [of _ s] exI [of _ k]) simp
  qed
  have pr: "preds l' i = (if i = j then ?r else preds l i)" for i
    using n(1) unfolding l' by (cases "i = j") simp_all
  have pw: "placed_words l' = placed_words l"
    using n(1) unfolding l' placed_words_def by (simp add: map_update) (simp add: list_update_same_conv)
  have all: "\<forall>q \<in> set ?r. handed sr ws j q" using r before(3) new by blast
  have rest: "surface_nodes l' = surface_nodes l" "input_nodes l' = input_nodes l" by (simp_all add: l')
  have nodes_ok: "if word_start (ws ! i) = 0 then preds l' i = [\<lparr>pred_path = None, pred_total = f32_zero\<rparr>]
        else ranked (preds l' i) \<and> length (preds l' i) \<le> sr_limit sr \<and> (\<forall>q \<in> set (preds l' i). handed sr ws i q)"
    if "i < length ws" for i
  proof (cases "i = j")
    case True
    then show ?thesis using r all j(2) by (simp add: pr)
  next
    case False
    then show ?thesis using ok(2) that by (simp add: pr lattice_ok_def)
  qed
  show "lattice_ok sr ws sn l'"
    using ok(2) nodes_ok unfolding lattice_ok_def pw rest by blast
  have rb: "better (preds l j @ ?new) ?r" using r by blast
  have rs: "preds l' j = ?r" by (simp add: pr)
  have "better (preds l j) (preds l' j)" using rb unfolding rs better_def by simp
  then show "\<forall>i. i < length ws \<longrightarrow> better (preds l i) (preds l' i)" by (metis better_refl pr)
  show "\<forall>c \<in> set cs. \<forall>k. cost_between sr e (fst (ws ! j)) = Inr k \<longrightarrow>
      (\<exists>q \<in> set (preds l' j). f32_key (f32_add (path_total c) k) \<le> score q)"
  proof (intro ballI allI impI)
    fix c k' assume c: "c \<in> set cs" and "cost_between sr e (fst (ws ! j)) = Inr k'"
    then have "k' = k" using k by simp
    have "\<lparr>pred_path = Some c, pred_total = f32_add (path_total c) k\<rparr> \<in> set (preds l j @ ?new)" using c by simp
    from rb [unfolded better_def, rule_format, OF this]
    show "\<exists>q \<in> set (preds l' j). f32_key (f32_add (path_total c) k') \<le> score q"
      unfolding rs \<open>k' = k\<close> by simp
  qed
qed

text \<open>All nodes at a position get them.\<close>

lemma hand_to_all:
  assumes ok: "search_ok sr" "lattice_ok sr ws sn l"
    and js: "\<forall>j \<in> set js. j < length ws \<and> word_start (ws ! j) = t" and t: "0 < t"
    and cs: "\<forall>c \<in> set cs. search_path sr ws c \<and> path_entry c = e \<and> (\<exists>r. path_range c = SurfaceRange r t)"
    and h: "fold_result (hand_to sr e cs) js l = Inr l'"
  shows "lattice_ok sr ws sn l' \<and> (\<forall>i. i < length ws \<longrightarrow> better (preds l i) (preds l' i)) \<and>
    (\<forall>j \<in> set js. \<forall>c \<in> set cs. \<forall>k. cost_between sr e (fst (ws ! j)) = Inr k \<longrightarrow>
      (\<exists>q \<in> set (preds l' j). f32_key (f32_add (path_total c) k) \<le> score q))"
proof (rule fold_result_invariant [OF h, where P = "\<lambda>ys l'. lattice_ok sr ws sn l' \<and>
    (\<forall>i. i < length ws \<longrightarrow> better (preds l i) (preds l' i)) \<and>
    (\<forall>j \<in> set ys. \<forall>c \<in> set cs. \<forall>k. cost_between sr e (fst (ws ! j)) = Inr k \<longrightarrow>
      (\<exists>q \<in> set (preds l' j). f32_key (f32_add (path_total c) k) \<le> score q))"])
  show "lattice_ok sr ws sn l \<and> (\<forall>i. i < length ws \<longrightarrow> better (preds l i) (preds l i)) \<and>
    (\<forall>j \<in> set []. \<forall>c \<in> set cs. \<forall>k. cost_between sr e (fst (ws ! j)) = Inr k \<longrightarrow>
      (\<exists>q \<in> set (preds l j). f32_key (f32_add (path_total c) k) \<le> score q))"
    using ok(2) by simp
next
  fix ys j zs l1 l2
  assume split: "js = ys @ j # zs" and step: "hand_to sr e cs j l1 = Inr l2"
    and IH: "lattice_ok sr ws sn l1 \<and> (\<forall>i. i < length ws \<longrightarrow> better (preds l i) (preds l1 i)) \<and>
    (\<forall>j \<in> set ys. \<forall>c \<in> set cs. \<forall>k. cost_between sr e (fst (ws ! j)) = Inr k \<longrightarrow>
      (\<exists>q \<in> set (preds l1 j). f32_key (f32_add (path_total c) k) \<le> score q))"
  have j: "j < length ws" "word_start (ws ! j) = t" and ys: "\<forall>i \<in> set ys. i < length ws" using js split by auto
  have c: "\<forall>c \<in> set cs. search_path sr ws c \<and> path_entry c = e \<and> (\<exists>r. path_range c = SurfaceRange r (word_start (ws ! j)))"
    using cs j by simp
  note s = hand_to_step [OF ok(1) conjunct1 [OF IH] j(1) _ c step]
  have pos: "0 < word_start (ws ! j)" using t j by simp
  have b: "\<forall>i. i < length ws \<longrightarrow> better (preds l i) (preds l2 i)"
    using IH s(2) [OF pos] better_trans by blast
  have old: "\<exists>q \<in> set (preds l2 i). f32_key (f32_add (path_total c) k) \<le> score q"
    if "i \<in> set ys" "c \<in> set cs" "cost_between sr e (fst (ws ! i)) = Inr k" for i c k
  proof -
    from IH that obtain q where q: "q \<in> set (preds l1 i)" "f32_key (f32_add (path_total c) k) \<le> score q" by blast
    have "better (preds l1 i) (preds l2 i)" using s(2) [OF pos] ys that(1) by blast
    then obtain q' where "q' \<in> set (preds l2 i)" "score q \<le> score q'" using q(1) unfolding better_def by blast
    then show ?thesis using q(2) by (meson order_trans)
  qed
  show "lattice_ok sr ws sn l2 \<and> (\<forall>i. i < length ws \<longrightarrow> better (preds l i) (preds l2 i)) \<and>
    (\<forall>j \<in> set (ys @ [j]). \<forall>c \<in> set cs. \<forall>k. cost_between sr e (fst (ws ! j)) = Inr k \<longrightarrow>
      (\<exists>q \<in> set (preds l2 j). f32_key (f32_add (path_total c) k) \<le> score q))"
    using s(1) [OF pos] b old s(3) [OF pos] by auto
qed

section \<open>Visiting a node\<close>

lemma served_mono:
  assumes "served sr ws l found p" and "\<forall>i. i < length ws \<longrightarrow> better (preds l i) (preds l' i)" and "set found \<subseteq> set found'"
  shows "served sr ws l' found' p"
  unfolding served_def
proof (intro conjI allI impI)
  fix r assume "path_range p = SurfaceRange r (sr_surface_count sr)"
  then show "\<exists>q \<in> set found'. f32_key (path_total p) \<le> f32_key (path_total q)"
    using assms(1,3) unfolding served_def by blast
next
  fix r j k assume j: "j < length ws" "path_range p = SurfaceRange r (word_start (ws ! j))"
    "cost_between sr (path_entry p) (fst (ws ! j)) = Inr k"
  then obtain q where q: "q \<in> set (preds l j)" "f32_key (f32_add (path_total p) k) \<le> score q"
    using assms(1) unfolding served_def by blast
  from assms(2) j(1) q(1) obtain q' where "q' \<in> set (preds l' j)" "score q \<le> score q'" unfolding better_def by blast
  with q(2) show "\<exists>q \<in> set (preds l' j). f32_key (f32_add (path_total p) k) \<le> score q" by (meson order_trans)
qed

lemma nodes_at_index:
  assumes "lattice_ok sr ws sn l" and "\<And>s. dual_surface d = Some s \<Longrightarrow> s < sr_surface_count sr"
    and "\<And>i. dual_input d = Some i \<Longrightarrow> i < sr_input_count sr"
  shows "nodes_at l d = Inr (case dual_surface d of Some s \<Rightarrow> sn ! s | None \<Rightarrow> [])"
proof -
  have sn: "surface_nodes l = sn" "length sn = sr_surface_count sr" "input_nodes l = replicate (sr_input_count sr) []"
    using assms(1) by (auto simp: lattice_ok_def words_ok_def)
  have i: "(case dual_input d of Some j \<Rightarrow> element_at (input_nodes l) j | None \<Rightarrow> Inr []) = Inr []"
    using assms(3) sn by (auto simp: element_at_def split: option.split)
  show ?thesis
    using assms(2) sn i by (cases "dual_surface d") (simp_all add: nodes_at_def element_at_def)
qed

lemma visit_node_progress:
  assumes ok: "search_ok sr" and pr: "progress sr ws sn visited lr" and j: "j < length ws"
    and before: "\<And>i. i < length ws \<Longrightarrow> word_start (ws ! i) < word_start (ws ! j) \<Longrightarrow> i \<in> visited"
    and v: "visit_node sr j lr = Inr lr'"
  shows "progress sr ws sn (insert j visited) lr'"
proof -
  obtain l found where lr: "lr = (l, found)" by (cases lr)
  have lok: "lattice_ok sr ws sn l" and fok: "complete_found sr ws found"
    and old: "\<And>p. search_path sr ws p \<Longrightarrow> (path_entry p, path_range p) \<in> (\<lambda>j. ws ! j) ` visited \<Longrightarrow> served sr ws l found p"
    using pr by (auto simp: progress_def lr)
  have w: "words_ok (sr_surface_count sr) ws sn" using lok by (simp add: lattice_ok_def)
  note n = node_of_word [OF lok j]
  obtain t where t: "snd (ws ! j) = SurfaceRange (word_start (ws ! j)) t" "word_start (ws ! j) < t" "t \<le> sr_surface_count sr"
    using word_range [OF w j] by blast
  have earlier: "served sr ws l found p'"
    if p': "search_path sr ws p'" "word_start (path_entry p', path_range p') < word_start (ws ! j)" for p'
  proof -
    obtain i where i: "i < length ws" "ws ! i = (path_entry p', path_range p')"
      using lattice_path_last [OF p'(1)] by (metis in_set_conv_nth)
    then have "i \<in> visited" using before p'(2) by simp
    then show ?thesis using old [OF p'(1)] i(2) by (metis imageI)
  qed
  note best = completed_best [OF ok lok j _ _ _ earlier]
  show ?thesis
  proof (cases "preds l j = []")
    case True
    then have "lr' = lr" using v by (simp add: visit_node_def lr)
    moreover have "completed_paths sr (nodes l ! j) = Inr []" using True by (simp add: completed_paths_def)
    from best [OF this] have "(path_entry p, path_range p) \<noteq> ws ! j" if "search_path sr ws p" for p using that by auto
    ultimately show ?thesis using pr unfolding progress_def by auto
  next
    case False
    obtain cs where cs: "completed_paths sr (nodes l ! j) = Inr cs"
      using v False by (auto simp: visit_node_def lr then_do_Inr Let_def)
    have sound: "search_path sr ws c" "path_entry c = fst (ws ! j)" "path_range c = SurfaceRange (word_start (ws ! j)) t"
      if "c \<in> set cs" for c
      using completed_sound [OF ok lok j cs that] t(1) by (auto simp: prod_eq_iff)
    have m: "map_ok (sr_map sr) (sr_input_count sr) (sr_surface_count sr)" and con: "sr_constraint sr = None"
      using ok by (simp_all add: search_ok_def)
    let ?d = "dual (sr_map sr) (SurfaceIndex t)"
    have d: "dual (sr_map sr) (range_end (node_range (nodes l ! j))) = ?d" using n t(1) by simp
    show ?thesis
    proof (cases "t = sr_surface_count sr")
      case True
      then have "reaches_end sr ?d" by (simp add: reaches_end_def)
      then have lr': "lr' = (l, found @ cs)" using v False cs con by (simp add: visit_node_def lr d Let_def)
      have new: "served sr ws l (found @ cs) p" if p: "search_path sr ws p" "(path_entry p, path_range p) = ws ! j" for p
      proof -
        obtain c where "c \<in> set cs" "f32_key (path_total p) \<le> f32_key (path_total c)" using best [OF cs p] by blast
        moreover have "word_start (ws ! i) < t" if "i < length ws" for i
          using word_range [OF w that] True by (metis order_less_le_trans)
        moreover have "path_range p = SurfaceRange (word_start (ws ! j)) t" using p(2) t(1) by (metis snd_conv)
        ultimately show ?thesis unfolding served_def by force
      qed
      have "complete_found sr ws (found @ cs)" using fok sound True by (auto simp: complete_found_def)
      moreover have "served sr ws l (found @ cs) p"
        if "search_path sr ws p" "(path_entry p, path_range p) \<in> (\<lambda>j. ws ! j) ` insert j visited" for p
        using that new served_mono [OF old, of p l "found @ cs"] by auto
      ultimately show ?thesis using lok by (simp add: progress_def lr')
    next
      case False
      then have ts: "t < sr_surface_count sr" using t(3) by simp
      have "\<not> reaches_end sr ?d"
        using False dual_input_of_surface [OF m ts] by (auto simp: reaches_end_def)
      moreover have nx: "nodes_at l ?d = Inr (sn ! t)"
        using nodes_at_index [OF lok, of ?d] ts dual_input_of_surface [OF m ts] by simp
      ultimately obtain l' where l': "fold_result (hand_to sr (fst (ws ! j)) cs) (sn ! t) l = Inr l'" "lr' = (l', found)"
        using v \<open>preds l j \<noteq> []\<close> cs by (auto simp: visit_node_def lr d n(2) Let_def then_do_Inr)
      have js: "\<forall>i \<in> set (sn ! t). i < length ws \<and> word_start (ws ! i) = t" using w ts by (auto simp: words_ok_def)
      have t0: "0 < t" using t(2) by simp
      have csok: "\<forall>c \<in> set cs. search_path sr ws c \<and> path_entry c = fst (ws ! j) \<and> (\<exists>r. path_range c = SurfaceRange r t)"
        using sound by blast
      note h = hand_to_all [OF ok lok js t0 csok l'(1)]
      have new: "served sr ws l' found p" if p: "search_path sr ws p" "(path_entry p, path_range p) = ws ! j" for p
      proof -
        have range: "path_range p = SurfaceRange (word_start (ws ! j)) t" and e: "path_entry p = fst (ws ! j)"
          using p(2) t(1) by (auto simp: prod_eq_iff)
        obtain c where c: "c \<in> set cs" "f32_key (path_total p) \<le> f32_key (path_total c)" using best [OF cs p] by blast
        have costs: "costs_nonpositive (sr_lookups sr)" using ok by (simp add: search_ok_def)
        have "\<exists>q \<in> set (preds l' i). f32_key (f32_add (path_total p) k) \<le> score q"
          if i: "i < length ws" "word_start (ws ! i) = t" "cost_between sr (path_entry p) (fst (ws ! i)) = Inr k" for i k
        proof -
          have "i \<in> set (sn ! t)" using word_range [OF w i(1)] i(2) by metis
          then obtain q where q: "q \<in> set (preds l' i)" "f32_key (f32_add (path_total c) k) \<le> score q"
            using h c(1) i(3) e by metis
          have "nonpositive k" using costs i(3) unfolding costs_nonpositive_def by blast
          then have "f32_key (f32_add (path_total p) k) \<le> f32_key (f32_add (path_total c) k)"
            using add_mono_nonpositive lattice_path_nonpositive [OF costs] p(1) sound(1) [OF c(1)] c(2) by blast
          then show ?thesis using q by (meson order_trans)
        qed
        then show ?thesis using range False unfolding served_def by auto
      qed
      have "served sr ws l' found p"
        if "search_path sr ws p" "(path_entry p, path_range p) \<in> (\<lambda>j. ws ! j) ` insert j visited" for p
        using that new served_mono [OF old, of p l' found] h by auto
      then show ?thesis using h fok by (simp add: progress_def l'(2))
    qed
  qed
qed

section \<open>The whole pass\<close>

lemma visit_nodes_progress:
  assumes ok: "search_ok sr" and pr: "progress sr ws sn visited lr"
    and js: "\<forall>j \<in> set js. j < length ws \<and> word_start (ws ! j) = s"
    and before: "\<And>i. i < length ws \<Longrightarrow> word_start (ws ! i) < s \<Longrightarrow> i \<in> visited"
    and v: "fold_result (visit_node sr) js lr = Inr lr'"
  shows "progress sr ws sn (visited \<union> set js) lr'"
proof (rule fold_result_invariant [OF v, where P = "\<lambda>ys. progress sr ws sn (visited \<union> set ys)"])
  show "progress sr ws sn (visited \<union> set []) lr" using pr by simp
next
  fix ys j zs a a' assume s: "js = ys @ j # zs" "progress sr ws sn (visited \<union> set ys) a" "visit_node sr j a = Inr a'"
  have "progress sr ws sn (insert j (visited \<union> set ys)) a'"
    by (rule visit_node_progress [OF ok s(2) _ _ s(3)]) (use js before s(1) in auto)
  then show "progress sr ws sn (visited \<union> set (ys @ [j])) a'" by simp
qed

definition words_before :: "placed_word list \<Rightarrow> nat \<Rightarrow> nat set" where
  "words_before ws s = {j. j < length ws \<and> word_start (ws ! j) < s}"

lemma words_before_Suc:
  assumes "words_ok sc ws sn" and "s < sc"
  shows "words_before ws (Suc s) = words_before ws s \<union> set (sn ! s)"
proof -
  have "j \<in> set (sn ! s)" if "j < length ws" "word_start (ws ! j) = s" for j
    using word_range [OF assms(1) that(1)] that(2) by metis
  moreover have "\<forall>j \<in> set (sn ! s). j < length ws \<and> word_start (ws ! j) = s" using assms by (simp add: words_ok_def)
  ultimately show ?thesis by (auto simp: words_before_def less_Suc_eq)
qed

lemma map_filter_Cons: "List.map_filter f (x # xs) = (case f x of None \<Rightarrow> [] | Some y \<Rightarrow> [y]) @ List.map_filter f xs"
  by (simp add: List.map_filter_simps split: option.split)

lemma visit_index_progress:
  assumes ok: "search_ok sr" and pr: "progress sr ws sn (words_before ws k) lr"
    and d: "dual_surface d = None \<or> dual_surface d = Some k" "\<And>s. dual_surface d = Some s \<Longrightarrow> s < sr_surface_count sr"
      "\<And>i. dual_input d = Some i \<Longrightarrow> i < sr_input_count sr"
    and v: "visit_index sr d lr = Inr lr'"
  shows "progress sr ws sn (words_before ws (case dual_surface d of None \<Rightarrow> k | Some s \<Rightarrow> Suc k)) lr'"
proof -
  have lok: "lattice_ok sr ws sn (fst lr)" using pr by (simp add: progress_def)
  then have w: "words_ok (sr_surface_count sr) ws sn" by (simp add: lattice_ok_def)
  have n: "nodes_at (fst lr) d = Inr (case dual_surface d of Some s \<Rightarrow> sn ! s | None \<Rightarrow> [])"
    by (rule nodes_at_index [OF lok d(2,3)])
  show ?thesis
  proof (cases "dual_surface d")
    case None
    then show ?thesis using v n pr by (simp add: visit_index_def)
  next
    case (Some s)
    then have s: "s = k" "k < sr_surface_count sr" using d by auto
    have "fold_result (visit_node sr) (sn ! k) lr = Inr lr'" using v n Some s by (simp add: visit_index_def)
    then have "progress sr ws sn (words_before ws k \<union> set (sn ! k)) lr'"
      by (rule visit_nodes_progress [OF ok pr, rotated 2]) (use w s in \<open>auto simp: words_ok_def words_before_def\<close>)
    then show ?thesis using Some words_before_Suc [OF w s(2)] by simp
  qed
qed

text \<open>A prefix of the indices has met a prefix of the positions.\<close>

lemma index_split:
  assumes "List.map_filter dual_surface (ys @ d # zs) = [0..<sc]"
  shows "dual_surface d = None \<or> dual_surface d = Some (length (List.map_filter dual_surface ys))"
    and "dual_surface d = Some s \<Longrightarrow> s < sc"
proof -
  let ?k = "length (List.map_filter dual_surface ys)"
  show "dual_surface d = None \<or> dual_surface d = Some ?k"
  proof (cases "dual_surface d")
    case (Some s)
    then have e: "List.map_filter dual_surface ys @ s # List.map_filter dual_surface zs = [0..<sc]"
      using assms by (simp add: map_filter_Cons)
    then have "?k < sc" by (metis add_Suc_right diff_zero length_Cons length_append length_upt less_add_Suc1)
    moreover have "[0..<sc] ! ?k = s" using e by (metis nth_append_length)
    ultimately show ?thesis using Some by simp
  qed simp
  show "s < sc" if "dual_surface d = Some s"
  proof -
    have "s \<in> set (List.map_filter dual_surface (ys @ d # zs))" using that by (simp add: map_filter_Cons)
    then show ?thesis unfolding assms by simp
  qed
qed

lemma search_progress:
  assumes ok: "search_ok sr" and lok: "lattice_ok sr ws sn l"
    and ds: "List.map_filter dual_surface ds = [0..<sr_surface_count sr]"
      "\<forall>d \<in> set ds. \<forall>i. dual_input d = Some i \<longrightarrow> i < sr_input_count sr"
    and v: "fold_result (visit_index sr) ds (l, []) = Inr lr"
  shows "progress sr ws sn {..<length ws} lr"
proof -
  have "progress sr ws sn (words_before ws (length (List.map_filter dual_surface ds))) lr"
  proof (rule fold_result_invariant [OF v, where P = "\<lambda>ys. progress sr ws sn (words_before ws (length (List.map_filter dual_surface ys)))"])
    show "progress sr ws sn (words_before ws (length (List.map_filter dual_surface []))) (l, [])"
      using lok by (simp add: progress_def complete_found_def words_before_def List.map_filter_simps)
  next
    fix ys d zs a a' assume s: "ds = ys @ d # zs" "progress sr ws sn (words_before ws (length (List.map_filter dual_surface ys))) a"
      "visit_index sr d a = Inr a'"
    have "progress sr ws sn (words_before ws (case dual_surface d of None \<Rightarrow> length (List.map_filter dual_surface ys)
        | Some _ \<Rightarrow> Suc (length (List.map_filter dual_surface ys)))) a'"
      by (rule visit_index_progress [OF ok s(2) _ _ _ s(3)])
        (use index_split [of ys d zs "sr_surface_count sr"] ds s(1) in auto)
    then show "progress sr ws sn (words_before ws (length (List.map_filter dual_surface (ys @ [d])))) a'"
      by (cases "dual_surface d") (simp_all add: map_filter_Cons List.map_filter_simps)
  qed
  moreover have "words_ok (sr_surface_count sr) ws sn" using lok by (simp add: lattice_ok_def)
  then have "words_before ws (sr_surface_count sr) = {..<length ws}"
    using word_range by (fastforce simp: words_before_def)
  ultimately show ?thesis using ds(1) by simp
qed

text \<open>What the search finds: paths to the end, and for every path to the end one that is as good.\<close>

lemma search_finds_best:
  assumes "search_ok sr" and "lattice_ok sr ws sn l"
    and "List.map_filter dual_surface ds = [0..<sr_surface_count sr]"
      "\<forall>d \<in> set ds. \<forall>i. dual_input d = Some i \<longrightarrow> i < sr_input_count sr"
    and "fold_result (visit_index sr) ds (l, []) = Inr (l', found)"
  shows "complete_found sr ws found"
    and "search_path sr ws p \<Longrightarrow> path_range p = SurfaceRange r (sr_surface_count sr) \<Longrightarrow>
      \<exists>q \<in> set found. f32_key (path_total p) \<le> f32_key (path_total q)"
proof -
  note pr = search_progress [OF assms]
  then show "complete_found sr ws found" by (simp add: progress_def)
  assume p: "search_path sr ws p" "path_range p = SurfaceRange r (sr_surface_count sr)"
  have "(path_entry p, path_range p) \<in> (\<lambda>j. ws ! j) ` {..<length ws}"
    using lattice_path_last [OF p(1)] by (metis in_set_conv_nth image_eqI lessThan_iff)
  then have "served sr ws l' found p" using pr p(1) by (simp add: progress_def)
  then show "\<exists>q \<in> set found. f32_key (path_total p) \<le> f32_key (path_total q)" using p(2) unfolding served_def by blast
qed

end
