(* ===== verification/Lattice_Convert.thy ===== *)
theory Lattice_Convert
  imports Lattice_Search
begin

text \<open>
  The lattice that is built from a text, and what a conversion makes of it: the best path is found, a conversion never
  reads outside of its vectors, and every candidate stands for the whole text.
\<close>

section \<open>The lattice that is built\<close>

text \<open>
  What the code relies on: the katakana text has as many graphemes as the surface, its tails are same_graphemes as it is, and
  the prefixes the dictionary finds end inside of the text.
\<close>

definition same_graphemes :: "segmenter \<Rightarrow> ComposingText \<Rightarrow> bool" where
  "same_graphemes graphemes c \<longleftrightarrow>
     (let katakana = graphemes (to_katakana (surface_text c))
      in length katakana = length (surface c) \<and>
         (\<forall>s < length katakana. graphemes (concat (drop s katakana)) = drop s katakana))"

definition prefixes_bounded :: "segmenter \<Rightarrow> Lookups \<Rightarrow> bool" where
  "prefixes_bounded graphemes lk \<longleftrightarrow>
     (\<forall>v n ms m. find_prefixes lk v n = Inr ms \<longrightarrow> m \<in> set ms \<longrightarrow> 0 < surface_end m \<and> surface_end m \<le> length (graphemes v))"

text \<open>The store's lookups are.\<close>

lemma match_graphemes_ends:
  assumes "match_graphemes files i l index ids out gs s = (Inr ms, t)" and "m \<in> set ms"
  shows "m \<in> set out \<or> index < surface_end m \<and> surface_end m \<le> index + length gs"
  using assms
proof (induction files i l index ids out gs s rule: match_graphemes.induct)
  case (2 files i l index ids out g gs s)
  then show ?case by (fastforce split: option.splits prod.splits sum.splits if_splits)
qed simp

lemma store_prefixes_bounded: "prefixes_bounded graphemes (lookups_of graphemes files s learning_value memory)"
  unfolding prefixes_bounded_def
proof (intro allI impI)
  fix v n ms m
  assume "find_prefixes (lookups_of graphemes files s learning_value memory) v n = Inr ms" and m: "m \<in> set ms"
  then have r: "fst (store_matches_from_start graphemes files v n s) = Inr ms" by (simp add: lookups_of_def)
  show "0 < surface_end m \<and> surface_end m \<le> length (graphemes v)"
  proof (cases "graphemes v")
    case Nil
    then show ?thesis using r m by (simp add: store_matches_from_start_def)
  next
    case (Cons g gs)
    obtain x s1 where x: "load_louds files g s = (x, s1)" by fastforce
    show ?thesis
    proof (cases "\<exists>l. x = Inr (Some l)")
      case True
      then obtain l where l: "x = Inr (Some l)" by blast
      obtain t where "match_graphemes files g l 0 [] [] (take n (graphemes v)) s1 = (Inr ms, t)"
        using r Cons x l by (cases "match_graphemes files g l 0 [] [] (take n (graphemes v)) s1") (simp add: store_matches_from_start_def)
      from match_graphemes_ends [OF this m] show ?thesis by simp
    next
      case False
      then show ?thesis using r m Cons x
        by (cases x) (auto simp: store_matches_from_start_def split: option.splits)
    qed
  qed
qed

definition word_in :: "nat \<Rightarrow> nat \<Rightarrow> DictionaryEntry \<times> nat \<Rightarrow> bool" where
  "word_in sc start p \<longleftrightarrow> start < snd p \<and> snd p \<le> sc"

lemma single_character_entries_ne: "single_character_entries g \<noteq> []"
  by (simp add: single_character_entries_def Let_def)

lemma surface_words_in:
  assumes "prefixes_bounded graphemes lk" and "length katakana = sc"
    and "graphemes (concat (drop start katakana)) = drop start katakana" and "start < sc"
    and "surface_words graphemes lk additional sc katakana start = Inr ws"
  shows "\<forall>p \<in> set ws. word_in sc start p" and "\<exists>p \<in> set ws. snd p = start + 1 \<and> word (fst p) = to_hiragana (katakana ! start)"
proof -
  let ?t = "concat (drop start katakana)"
  let ?known = "\<lambda>matches. concat (map (\<lambda>m. map (\<lambda>e. (e, start + surface_end m))
                                    (filter (\<lambda>e. \<not> should_remove graphemes e) (match_entries m))) matches)"
  let ?chars = "map (\<lambda>e. (e, start + 1)) (single_character_entries (katakana ! start))"
  let ?learned = "map (\<lambda>e. (e, start + length (graphemes (ruby e))))
      (filter (word_fits graphemes ?t (sc - start)) (additional @ learned_prefixes lk ?t 20))"
  from assms(2,4,5) obtain matches where m: "find_prefixes lk ?t 20 = Inr matches"
    and ws: "ws = ?known matches @ ?chars @ ?learned"
    by (auto simp: surface_words_def then_do_Inr element_at_Inr Let_def)
  have known: "word_in sc start p" if "p \<in> set (?known matches)" for p
  proof -
    from that obtain x where x: "x \<in> set matches" "snd p = start + surface_end x" by auto
    with assms(1) m have "0 < surface_end x \<and> surface_end x \<le> length (graphemes ?t)" unfolding prefixes_bounded_def by blast
    then show ?thesis using x(2) assms(2-4) by (auto simp: word_in_def)
  qed
  have learned: "word_in sc start p" if "p \<in> set ?learned" for p
    using that assms(4) by (auto simp: word_in_def word_fits_def Let_def)
  show "\<forall>p \<in> set ws. word_in sc start p"
  proof
    fix p assume "p \<in> set ws"
    then consider "p \<in> set (?known matches)" | "p \<in> set ?chars" | "p \<in> set ?learned" unfolding ws by fastforce
    then show "word_in sc start p"
    proof cases
      case 2
      then show ?thesis using assms(4) by (auto simp: word_in_def)
    qed (use known learned in blast)+
  qed
  have "\<exists>e \<in> set (single_character_entries (katakana ! start)). word e = to_hiragana (katakana ! start)"
    by (simp add: single_character_entries_def plain_entry_def Let_def)
  then obtain e where e: "e \<in> set (single_character_entries (katakana ! start))" "word e = to_hiragana (katakana ! start)"
    by blast
  have "set ?chars \<subseteq> set ws" unfolding ws set_append by blast
  moreover have "(e, start + 1) \<in> set ?chars" using e(1) by simp
  ultimately have "(e, start + 1) \<in> set ws" by blast
  then show "\<exists>p \<in> set ws. snd p = start + 1 \<and> word (fst p) = to_hiragana (katakana ! start)"
    using e(2) by (intro bexI [of _ "(e, start + 1)"]) simp_all
qed

text \<open>The words of the first positions are nodes; so is a word of one grapheme at each.\<close>

definition built :: "nat \<Rightarrow> nat \<Rightarrow> nat \<Rightarrow> LatticeState \<Rightarrow> bool" where
  "built ic sc k l \<longleftrightarrow>
     length (surface_nodes l) = sc \<and> input_nodes l = replicate ic [] \<and>
     (\<forall>j < length (nodes l). \<exists>s t. node_range (nodes l ! j) = SurfaceRange s t \<and> s < t \<and> t \<le> sc \<and> s < sc \<and>
        j \<in> set (surface_nodes l ! s) \<and>
        predecessors (nodes l ! j) = (if s = 0 then [\<lparr>pred_path = None, pred_total = f32_zero\<rparr>] else [])) \<and>
     (\<forall>s < sc. \<forall>j \<in> set (surface_nodes l ! s). j < length (nodes l) \<and> (\<exists>t. node_range (nodes l ! j) = SurfaceRange s t)) \<and>
     (\<forall>s < k. \<exists>j < length (nodes l). node_range (nodes l ! j) = SurfaceRange s (s + 1))"

lemma built_push:
  assumes b: "built ic sc k l" and s: "start < sc" and p: "word_in sc start p"
  shows "built ic sc k (push_surface_node start p l)"
proof -
  let ?l = "push_surface_node start p l"
  have n: "nodes ?l = nodes l @ [new_node (fst p) (SurfaceRange start (snd p)) start]"
    and sn: "surface_nodes ?l = (surface_nodes l)[start := surface_nodes l ! start @ [length (nodes l)]]"
    and inn: "input_nodes ?l = input_nodes l"
    by (simp_all add: push_surface_node_def)
  have len: "length (surface_nodes l) = sc" using b by (simp add: built_def)
  have sub: "set (surface_nodes l ! i) \<subseteq> set (surface_nodes ?l ! i)" if "i < sc" for i
    using that len unfolding sn by (cases "i = start") auto
  have node: "nodes ?l ! j = nodes l ! j" if "j < length (nodes l)" for j
    using that unfolding n by (simp add: nth_append)
  have last: "nodes ?l ! length (nodes l) = new_node (fst p) (SurfaceRange start (snd p)) start"
    unfolding n by (simp add: nth_append)
  have "\<exists>i t. node_range (nodes ?l ! j) = SurfaceRange i t \<and> i < t \<and> t \<le> sc \<and> i < sc \<and>
        j \<in> set (surface_nodes ?l ! i) \<and>
        predecessors (nodes ?l ! j) = (if i = 0 then [\<lparr>pred_path = None, pred_total = f32_zero\<rparr>] else [])"
    if j: "j < length (nodes ?l)" for j
  proof (cases "j < length (nodes l)")
    case True
    then obtain i t where "node_range (nodes l ! j) = SurfaceRange i t" "i < t" "t \<le> sc" "i < sc"
      "j \<in> set (surface_nodes l ! i)"
      "predecessors (nodes l ! j) = (if i = 0 then [\<lparr>pred_path = None, pred_total = f32_zero\<rparr>] else [])"
      using b unfolding built_def by blast
    then show ?thesis unfolding node [OF True] using sub by blast
  next
    case False
    then have "j = length (nodes l)" using j n by simp
    then show ?thesis unfolding last [symmetric] using last p s len by (simp add: sn new_node_def word_in_def)
  qed
  moreover have "j < length (nodes ?l) \<and> (\<exists>t. node_range (nodes ?l ! j) = SurfaceRange i t)"
    if j: "i < sc" "j \<in> set (surface_nodes ?l ! i)" for i j
  proof (cases "j \<in> set (surface_nodes l ! i)")
    case True
    then have "j < length (nodes l)" "\<exists>t. node_range (nodes l ! j) = SurfaceRange i t" using b j(1) by (auto simp: built_def)
    then show ?thesis using node n by simp
  next
    case False
    then have "i = start" "j = length (nodes l)" using j len unfolding sn by (cases "i = start"; auto)+
    then show ?thesis using last n by (simp add: new_node_def)
  qed
  moreover have "\<exists>j < length (nodes ?l). node_range (nodes ?l ! j) = SurfaceRange i (i + 1)" if ik: "i < k" for i
  proof -
    have "\<forall>s < k. \<exists>j < length (nodes l). node_range (nodes l ! j) = SurfaceRange s (s + 1)" using b unfolding built_def by blast
    then obtain j where "j < length (nodes l)" "node_range (nodes l ! j) = SurfaceRange i (i + 1)" using ik by blast
    then show ?thesis using node n by (intro exI [of _ j]) simp
  qed
  ultimately show ?thesis using b len unfolding built_def sn inn by (simp add: sn)
qed

lemma built_push_all:
  assumes "built ic sc k l" and "start < sc" and "\<forall>p \<in> set ps. word_in sc start p"
  shows "built ic sc k (fold (push_surface_node start) ps l)"
  using assms by (induction ps arbitrary: l) (simp_all add: built_push)

lemma nodes_push: "nodes (fold (push_surface_node start) ps l) =
    nodes l @ map (\<lambda>p. new_node (fst p) (SurfaceRange start (snd p)) start) ps"
  by (induction ps arbitrary: l) (simp_all add: push_surface_node_def)

lemma built_next:
  assumes b: "built ic sc k l" and k: "k < sc" and ps: "\<forall>p \<in> set ps. word_in sc k p" "\<exists>p \<in> set ps. snd p = k + 1"
  shows "built ic sc (Suc k) (fold (push_surface_node k) ps l)"
proof -
  let ?l = "fold (push_surface_node k) ps l"
  have r: "built ic sc k ?l" by (rule built_push_all [OF b k ps(1)])
  obtain i where i: "i < length ps" "snd (ps ! i) = k + 1" using ps(2) by (metis in_set_conv_nth)
  have "nodes ?l ! (length (nodes l) + i) = new_node (fst (ps ! i)) (SurfaceRange k (k + 1)) k"
    using i by (simp add: nodes_push)
  moreover have "length (nodes l) + i < length (nodes ?l)" using i by (simp add: nodes_push)
  ultimately have "\<exists>j < length (nodes ?l). node_range (nodes ?l ! j) = SurfaceRange k (k + 1)"
    by (metis LatticeNode.select_convs(2) new_node_def)
  then show ?thesis using r unfolding built_def by (simp add: less_Suc_eq)
qed

lemma build_lattice_built:
  assumes "same_graphemes (cv_graphemes cv) c" and "prefixes_bounded (cv_graphemes cv) (cv_lookups cv)"
    and "\<not> need_typo_correction md" and "build_lattice cv tables md c = Inr l"
  shows "built (length (input c)) (length (surface c)) (length (surface c)) l"
proof -
  let ?sc = "length (surface c)" and ?ic = "length (input c)" and ?g = "cv_graphemes cv"
  let ?ks = "?g (to_katakana (surface_text c))"
  let ?l0 = "\<lparr>nodes = [], surface_nodes = replicate ?sc [], input_nodes = replicate ?ic []\<rparr>"
  have seg: "length ?ks = ?sc" "\<And>s. s < ?sc \<Longrightarrow> ?g (concat (drop s ?ks)) = drop s ?ks"
    using assms(1) by (auto simp: same_graphemes_def Let_def)
  have f: "fold_result (push_surface_words ?g (cv_lookups cv) (additional_entries md) ?sc ?ks) [0..<?sc] ?l0 = Inr l"
    using assms(3,4) by (auto simp: build_lattice_def then_do_Inr Let_def)
  have "built ?ic ?sc (length [0..<?sc]) l"
  proof (rule fold_result_invariant [OF f, where P = "\<lambda>ys. built ?ic ?sc (length ys)"])
    show "built ?ic ?sc (length []) ?l0" by (simp add: built_def)
  next
    fix ys k zs a a'
    assume s: "[0..<?sc] = ys @ k # zs" "built ?ic ?sc (length ys) a"
      "push_surface_words ?g (cv_lookups cv) (additional_entries md) ?sc ?ks k a = Inr a'"
    have "length ys < ?sc" using arg_cong [OF s(1), of length] by simp
    moreover have "k = [0..<?sc] ! length ys" unfolding s(1) by simp
    ultimately have k: "k = length ys" "k < ?sc" by simp_all
    obtain ps where ps: "surface_words ?g (cv_lookups cv) (additional_entries md) ?sc ?ks k = Inr ps"
      "a' = fold (push_surface_node k) ps a"
      using s(3) by (auto simp: push_surface_words_def then_do_Inr)
    note w = surface_words_in [OF assms(2) seg(1) seg(2) [OF k(2)] k(2) ps(1)]
    have "built ?ic ?sc (Suc k) a'"
      unfolding ps(2) by (rule built_next [OF _ k(2) w(1)]) (use s(2) k(1) w(2) in auto)
    then show "built ?ic ?sc (length (ys @ [k])) a'" using k(1) by simp
  qed
  then show ?thesis by simp
qed

section \<open>The search of a conversion\<close>

lemma built_node:
  assumes "built ic sc k l" and "j < length (nodes l)"
  obtains s t where "node_range (nodes l ! j) = SurfaceRange s t" and "s < t" and "t \<le> sc" and "s < sc"
    and "j \<in> set (surface_nodes l ! s)"
    and "predecessors (nodes l ! j) = (if s = 0 then [\<lparr>pred_path = None, pred_total = f32_zero\<rparr>] else [])"
  using assms unfolding built_def by blast

lemma length_placed_words [simp]: "length (placed_words l) = length (nodes l)"
  by (simp add: placed_words_def)

lemma built_words:
  assumes "built ic sc k l"
  shows "words_ok sc (placed_words l) (surface_nodes l)"
  unfolding words_ok_def
proof (intro conjI allI impI ballI)
  show "length (surface_nodes l) = sc" using assms by (simp add: built_def)
next
  fix j assume j: "j < length (placed_words l)"
  then have "j < length (nodes l)" by simp
  from built_node [OF assms this] obtain s t where
    "node_range (nodes l ! j) = SurfaceRange s t" "s < t" "t \<le> sc" "j \<in> set (surface_nodes l ! s)" by blast
  then show "\<exists>s t. snd (placed_words l ! j) = SurfaceRange s t \<and> s < t \<and> t \<le> sc \<and> j \<in> set (surface_nodes l ! s)"
    using j by (simp add: placed_words_def)
next
  fix s j assume "s < sc" "j \<in> set (surface_nodes l ! s)"
  then have "j < length (nodes l)" "\<exists>t. node_range (nodes l ! j) = SurfaceRange s t" using assms by (auto simp: built_def)
  then show "j < length (placed_words l)" "word_start (placed_words l ! j) = s" by (auto simp: placed_words_def word_start_def)
qed

lemma built_lattice_ok:
  assumes "built (sr_input_count sr) (sr_surface_count sr) k l"
  shows "lattice_ok sr (placed_words l) (surface_nodes l) l"
proof -
  have "if word_start (placed_words l ! j) = 0 then preds l j = [\<lparr>pred_path = None, pred_total = f32_zero\<rparr>] else preds l j = []"
    if j: "j < length (placed_words l)" for j
  proof -
    have "j < length (nodes l)" using j by simp
    from built_node [OF assms this] obtain s t where "node_range (nodes l ! j) = SurfaceRange s t"
      "preds l j = (if s = 0 then [\<lparr>pred_path = None, pred_total = f32_zero\<rparr>] else [])" by blast
    then show ?thesis using j by (simp add: placed_words_def word_start_def)
  qed
  then show ?thesis
    using built_words [OF assms] assms unfolding lattice_ok_def by (auto simp: built_def)
qed

text \<open>The hypotheses of the conversions below, for a plain conversion: neither typo correction nor a constraint.\<close>

definition convertible :: "Converter \<Rightarrow> InputTableRegistry \<Rightarrow> ComposingText \<Rightarrow> bool" where
  "convertible cv tables c \<longleftrightarrow>
     composing_ok tables c \<and> iterates (cv_order cv) \<and> same_graphemes (cv_graphemes cv) c \<and>
     prefixes_bounded (cv_graphemes cv) (cv_lookups cv)"

definition plain :: "ConversionModifiers \<Rightarrow> bool" where
  "plain md \<longleftrightarrow> \<not> need_typo_correction md \<and> constraint md = None"

lemma search_of_ok:
  assumes "convertible cv tables c" and "costs_nonpositive (cv_lookups cv)" and "constraint md = None" and "0 < limit"
  shows "search_ok (search_of cv tables limit ctx md c)"
  using assms new_index_map_ok [of tables c "cv_order cv"] by (simp add: search_ok_def search_of_def convertible_def)

lemma search_of_indices:
  assumes "convertible cv tables c"
  shows "List.map_filter dual_surface (lattice_indices (new_index_map (cv_order cv) tables c) (length (input c)) (length (surface c))) =
      [0..<length (surface c)]"
    and "\<forall>d \<in> set (lattice_indices (new_index_map (cv_order cv) tables c) (length (input c)) (length (surface c))).
      \<forall>i. dual_input d = Some i \<longrightarrow> i < length (input c)"
  using lattice_indices_surfaces [OF new_index_map_ok] assms by (auto simp: convertible_def)

text \<open>All paths through the lattice of a text, from its start to its end.\<close>

definition whole_path :: "Converter \<Rightarrow> ConversionContext \<Rightarrow> LatticeState \<Rightarrow> ComposingText \<Rightarrow> RegisteredPath \<Rightarrow> bool" where
  "whole_path cv ctx l c p \<longleftrightarrow>
     lattice_path (cv_lookups cv) ctx (set (placed_words l)) p \<and> (\<exists>r. path_range p = SurfaceRange r (length (surface c)))"

lemma search_best:
  assumes "convertible cv tables c" and "costs_nonpositive (cv_lookups cv)" and "plain md" and "0 < limit"
    and "build_lattice cv tables md c = Inr l" and "search_paths cv tables limit ctx md c = Inr found"
  shows "(\<forall>q \<in> set found. whole_path cv ctx l c q) \<and>
    (\<forall>p. whole_path cv ctx l c p \<longrightarrow> (\<exists>q \<in> set found. f32_key (path_total p) \<le> f32_key (path_total q)))"
proof -
  let ?sr = "search_of cv tables limit ctx md c"
  have sr: "sr_lookups ?sr = cv_lookups cv" "sr_context ?sr = ctx" "sr_surface_count ?sr = length (surface c)"
    "sr_input_count ?sr = length (input c)" by (simp_all add: search_of_def)
  have ok: "search_ok ?sr" using assms(1-4) by (intro search_of_ok) (simp_all add: plain_def)
  have "built (length (input c)) (length (surface c)) (length (surface c)) l"
    using assms(1,3,5) by (intro build_lattice_built) (auto simp: convertible_def plain_def)
  then have lok: "lattice_ok ?sr (placed_words l) (surface_nodes l) l"
    by (intro built_lattice_ok [where k = "length (surface c)"]) (simp add: sr)
  obtain l' where f: "fold_result (visit_index ?sr)
      (lattice_indices (new_index_map (cv_order cv) tables c) (length (input c)) (length (surface c))) (l, []) = Inr (l', found)"
    using assms(5,6) by (auto simp: search_paths_def then_do_Inr)
  note best = search_finds_best [OF ok lok _ _ f, unfolded sr, OF search_of_indices [OF assms(1)]]
  show ?thesis using best unfolding whole_path_def complete_found_def sr by blast
qed

text \<open>
  C27. The search of the lattice is sound and optimal. Without typo correction and constraint, every path it finds is a
  chain of words of the lattice from the start to the end of the text with the score of its words and connections, and for
  every such chain it finds one that is at least as good in \<open>f32\<close> arithmetic, however small the number of predecessors a
  node keeps. (Costs are not positive and not NaN, as the scores of the dictionary are.)
\<close>

theorem search_finds_best_path:
  assumes "convertible cv tables c" and "costs_nonpositive (cv_lookups cv)" and "plain md" and "0 < limit"
    and "build_lattice cv tables md c = Inr l" and "search_paths cv tables limit ctx md c = Inr found"
  shows "(\<forall>q \<in> set found. whole_path cv ctx l c q) \<and>
    (\<forall>p. whole_path cv ctx l c p \<longrightarrow> (\<exists>q \<in> set found. f32_key (path_total p) \<le> f32_key (path_total q)))"
  by (rule search_best [OF assms])

section \<open>Accesses\<close>

lemma fold_result_error:
  assumes "fold_result f xs a = Inl e" and "P a" and "\<And>x a a'. x \<in> set xs \<Longrightarrow> P a \<Longrightarrow> f x a = Inr a' \<Longrightarrow> P a'"
    and "\<And>x a. x \<in> set xs \<Longrightarrow> P a \<Longrightarrow> f x a = Inl e \<Longrightarrow> Q"
  shows Q
  using assms
proof (induction xs arbitrary: a)
  case (Cons x xs)
  show ?case
  proof (cases "f x a")
    case (Inl e')
    then have "f x a = Inl e" using Cons.prems(1) by simp
    then show ?thesis using Cons.prems(4) [of x a] Cons.prems(2) by simp
  next
    case (Inr b)
    then have "P b" "fold_result f xs b = Inl e" using Cons.prems(1-3) by auto
    then show ?thesis using Cons.IH [of b] Cons.prems(3,4) by (metis list.set_intros(2))
  qed
qed simp

lemma fold_result_keeps:
  assumes "fold_result f xs a = Inr b" and "P a" and "\<And>x a a'. x \<in> set xs \<Longrightarrow> P a \<Longrightarrow> f x a = Inr a' \<Longrightarrow> P a'"
  shows "P b"
  by (rule fold_result_invariant [OF assms(1), where P = "\<lambda>_. P"]) (use assms(2,3) in auto)

lemma then_do_Inl: "then_do r k = Inl e \<longleftrightarrow> r = Inl e \<or> (\<exists>a. r = Inr a \<and> k a = Inl e)"
  by (cases r) auto

lemma looked_up_Inl: "looked_up r = Inl e \<Longrightarrow> e \<noteq> OutOfBounds"
  by (cases r) auto

lemma collect_Inl: "collect rs = Inl e \<Longrightarrow> Inl e \<in> set rs"
  by (induction rs rule: collect.induct) (auto split: sum.splits)

text \<open>The vectors are long enough for every node.\<close>

definition in_bounds :: "Search \<Rightarrow> LatticeState \<Rightarrow> bool" where
  "in_bounds sr l \<longleftrightarrow>
     length (surface_nodes l) = sr_surface_count sr \<and> input_nodes l = replicate (sr_input_count sr) [] \<and>
     (\<forall>j < length (nodes l). \<exists>s t. node_range (nodes l ! j) = SurfaceRange s t \<and> t \<le> sr_surface_count sr) \<and>
     (\<forall>s < sr_surface_count sr. \<forall>j \<in> set (surface_nodes l ! s). j < length (nodes l))"

lemma in_bounds_index:
  assumes "in_bounds sr l" and "\<And>s. dual_surface d = Some s \<Longrightarrow> s < sr_surface_count sr"
    and "\<And>i. dual_input d = Some i \<Longrightarrow> i < sr_input_count sr"
  obtains js where "nodes_at l d = Inr js" and "\<forall>j \<in> set js. j < length (nodes l)"
proof -
  have i: "(case dual_input d of Some j \<Rightarrow> element_at (input_nodes l) j | None \<Rightarrow> Inr []) = Inr []"
    using assms(1,3) by (auto simp: element_at_def in_bounds_def split: option.split)
  show thesis
  proof (cases "dual_surface d")
    case None
    then show thesis using that [of "[]"] i by (simp add: nodes_at_def)
  next
    case (Some s)
    then show thesis using that [of "surface_nodes l ! s"] i assms(1,2) by (simp add: nodes_at_def element_at_def in_bounds_def)
  qed
qed

lemma hand_to_in_bounds:
  assumes "in_bounds sr l" and "hand_to sr e cs j l = Inr l'"
  shows "in_bounds sr l' \<and> length (nodes l') = length (nodes l) \<and> (\<forall>i. node_range (nodes l' ! i) = node_range (nodes l ! i))"
proof -
  obtain ps where l': "l' = l\<lparr>nodes := (nodes l)[j := (nodes l ! j)\<lparr>predecessors := ps\<rparr>]\<rparr>"
    using assms(2) by (auto simp: hand_to_def then_do_Inr Let_def)
  have r: "node_range (nodes l' ! i) = node_range (nodes l ! i)" for i
    unfolding l' by (cases "i = j"; cases "j < length (nodes l)") (simp_all add: list_update_beyond)
  have "length (nodes l') = length (nodes l)" "surface_nodes l' = surface_nodes l" "input_nodes l' = input_nodes l"
    by (simp_all add: l')
  then show ?thesis using r assms(1) unfolding in_bounds_def by simp
qed

lemma hand_to_all_in_bounds:
  assumes "in_bounds sr l" and "fold_result (hand_to sr e cs) js l = Inr l'"
  shows "in_bounds sr l' \<and> length (nodes l') = length (nodes l)"
  by (rule fold_result_keeps [OF assms(2), where P = "\<lambda>l'. in_bounds sr l' \<and> length (nodes l') = length (nodes l)"])
    (use assms(1) hand_to_in_bounds in \<open>simp, metis\<close>)

lemma complete_path_in_bounds: "Inl OutOfBounds \<noteq> complete_path sr n p"
  by (cases "find_cost (sr_lookups sr) (unat (ctx_right_id (sr_context sr))) (unat (left_id (node_entry n)))")
    (simp_all add: complete_path_def)

lemma visit_node_in_bounds:
  assumes m: "map_ok (sr_map sr) (sr_input_count sr) (sr_surface_count sr)" and l: "in_bounds sr (fst lr)"
    and j: "j < length (nodes (fst lr))"
  shows "visit_node sr j lr = Inr lr' \<Longrightarrow> in_bounds sr (fst lr') \<and> length (nodes (fst lr')) = length (nodes (fst lr))"
    and "visit_node sr j lr \<noteq> Inl OutOfBounds"
proof -
  obtain l found where lr: "lr = (l, found)" by (cases lr)
  obtain s t where t: "node_range (nodes l ! j) = SurfaceRange s t" "t \<le> sr_surface_count sr"
    using l j by (auto simp: in_bounds_def lr)
  let ?d = "dual (sr_map sr) (SurfaceIndex t)"
  have cp: "completed_paths sr n \<noteq> Inl OutOfBounds" for n
    using collect_Inl [of "map (complete_path sr n) (predecessors n)" OutOfBounds] complete_path_in_bounds [of sr n]
    by (auto simp: completed_paths_def then_do_Inl)
  have ht: "fold_result (hand_to sr e cs) js l \<noteq> Inl OutOfBounds" for e cs js
  proof
    assume "fold_result (hand_to sr e cs) js l = Inl OutOfBounds"
    then show False
      by (rule fold_result_error [where P = "\<lambda>_. True"]) (auto simp: hand_to_def then_do_Inl Let_def dest!: looked_up_Inl)
  qed
  have "t < sr_surface_count sr" if "\<not> reaches_end sr ?d" using that t(2) by (auto simp: reaches_end_def order_less_le)
  then have "\<exists>js. nodes_at l ?d = Inr js" if "\<not> reaches_end sr ?d"
    using in_bounds_index [of sr l ?d] l dual_input_of_surface [OF m] that by (metis dual_surface_of_surface fst_conv lr option.inject)
  then show "visit_node sr j lr \<noteq> Inl OutOfBounds"
    using cp ht by (auto simp: visit_node_def lr t Let_def then_do_Inl)
  assume v: "visit_node sr j lr = Inr lr'"
  show "in_bounds sr (fst lr') \<and> length (nodes (fst lr')) = length (nodes (fst lr))"
  proof (cases "preds l j = [] \<or> reaches_end sr ?d")
    case True
    then have "fst lr' = l" using v by (auto simp: visit_node_def lr t Let_def then_do_Inr split: if_splits)
    then show ?thesis using l lr by simp
  next
    case False
    then obtain cs js l' where f: "fold_result (hand_to sr (node_entry (nodes l ! j)) cs) js l = Inr l'" and "lr' = (l', found)"
      using v by (auto simp: visit_node_def lr t Let_def then_do_Inr)
    have "in_bounds sr l" using l lr by simp
    from hand_to_all_in_bounds [OF this f] show ?thesis using lr \<open>lr' = (l', found)\<close> by simp
  qed
qed

lemma visit_index_in_bounds:
  assumes m: "map_ok (sr_map sr) (sr_input_count sr) (sr_surface_count sr)" and l: "in_bounds sr (fst lr)"
    and d: "\<And>s. dual_surface d = Some s \<Longrightarrow> s < sr_surface_count sr" "\<And>i. dual_input d = Some i \<Longrightarrow> i < sr_input_count sr"
  shows "visit_index sr d lr = Inr lr' \<Longrightarrow> in_bounds sr (fst lr')" and "visit_index sr d lr \<noteq> Inl OutOfBounds"
proof -
  obtain js where js: "nodes_at (fst lr) d = Inr js" "\<forall>j \<in> set js. j < length (nodes (fst lr))"
    using in_bounds_index [OF l d] by blast
  let ?P = "\<lambda>a. in_bounds sr (fst a) \<and> length (nodes (fst a)) = length (nodes (fst lr))"
  have step: "?P a'" if "j \<in> set js" "?P a" "visit_node sr j a = Inr a'" for j a a'
    using visit_node_in_bounds(1) [OF m, of a j a'] that js(2) by auto
  show "in_bounds sr (fst lr')" if v: "visit_index sr d lr = Inr lr'"
  proof -
    have f: "fold_result (visit_node sr) js lr = Inr lr'" using v js(1) by (simp add: visit_index_def)
    have "?P lr'" by (rule fold_result_keeps [OF f, where P = ?P]) (use l in simp, use step in blast)
    then show ?thesis by simp
  qed
  show "visit_index sr d lr \<noteq> Inl OutOfBounds"
  proof
    assume "visit_index sr d lr = Inl OutOfBounds"
    then have "fold_result (visit_node sr) js lr = Inl OutOfBounds" using js(1) by (simp add: visit_index_def)
    then show False
    proof (rule fold_result_error [where P = ?P])
      fix j a assume j: "j \<in> set js" "?P a" and e: "visit_node sr j a = Inl OutOfBounds"
      have "j < length (nodes (fst a))" using j js(2) by simp
      from visit_node_in_bounds(2) [OF m _ this] j(2) e show False by blast
    qed (use l step in blast)+
  qed
qed

lemma build_lattice_in_bounds:
  assumes "same_graphemes (cv_graphemes cv) c" and "\<not> need_typo_correction md"
  shows "build_lattice cv tables md c \<noteq> Inl OutOfBounds"
proof
  let ?sc = "length (surface c)" and ?g = "cv_graphemes cv"
  let ?ks = "?g (to_katakana (surface_text c))"
  assume "build_lattice cv tables md c = Inl OutOfBounds"
  then have "fold_result (push_surface_words ?g (cv_lookups cv) (additional_entries md) ?sc ?ks) [0..<?sc]
      \<lparr>nodes = [], surface_nodes = replicate ?sc [], input_nodes = replicate (length (input c)) []\<rparr> = Inl OutOfBounds"
    using assms(2) by (auto simp: build_lattice_def then_do_Inl Let_def)
  then show False
    by (rule fold_result_error [where P = "\<lambda>_. True"])
      (use assms(1) in \<open>auto simp: push_surface_words_def surface_words_def then_do_Inl element_at_def same_graphemes_def Let_def
         dest!: looked_up_Inl split: if_splits\<close>)
qed

lemma conversion_in_bounds:
  assumes "convertible cv tables c" and "\<not> need_typo_correction md"
  shows "convert_modified cv tables limit ctx md c \<noteq> Inl OutOfBounds"
proof
  let ?sr = "search_of cv tables limit ctx md c"
  let ?ds = "lattice_indices (new_index_map (cv_order cv) tables c) (length (input c)) (length (surface c))"
  assume "convert_modified cv tables limit ctx md c = Inl OutOfBounds"
  then have "search_paths cv tables limit ctx md c = Inl OutOfBounds"
    by (auto simp: convert_modified_def then_do_Inl split: if_splits)
  moreover have seg: "same_graphemes (cv_graphemes cv) c" and pb: "prefixes_bounded (cv_graphemes cv) (cv_lookups cv)"
    using assms(1) by (auto simp: convertible_def)
  ultimately obtain l where l: "build_lattice cv tables md c = Inr l"
    and f: "fold_result (visit_index ?sr) ?ds (l, []) = Inl OutOfBounds"
    using build_lattice_in_bounds [OF seg assms(2)] by (auto simp: search_paths_def then_do_Inl)
  have m: "map_ok (sr_map ?sr) (sr_input_count ?sr) (sr_surface_count ?sr)"
    using assms(1) new_index_map_ok [of tables c "cv_order cv"] by (simp add: search_of_def convertible_def)
  have "built (length (input c)) (length (surface c)) (length (surface c)) l"
    by (rule build_lattice_built [OF seg pb assms(2) l])
  then have b: "in_bounds ?sr (fst (l, []))" unfolding in_bounds_def built_def by (auto simp: search_of_def)
  have ds: "s < sr_surface_count ?sr" if dd: "d \<in> set ?ds" "dual_surface d = Some s" for d s
  proof -
    obtain ys zs where "?ds = ys @ d # zs" using dd(1) by (meson split_list)
    then show ?thesis using index_split(2) search_of_indices(1) [OF assms(1)] dd(2) by (simp add: search_of_def)
  qed
  have di: "i < sr_input_count ?sr" if "d \<in> set ?ds" "dual_input d = Some i" for d i
    using search_of_indices(2) [OF assms(1)] that by (simp add: search_of_def)
  show False
    by (rule fold_result_error [OF f, where P = "\<lambda>a. in_bounds ?sr (fst a)"])
      (use b visit_index_in_bounds [OF m] ds di in blast)+
qed


text \<open>Where the lookups answer, the conversion does.\<close>

definition lookups_answer :: "Lookups \<Rightarrow> bool" where
  "lookups_answer lk \<longleftrightarrow>
     (\<forall>v n. \<exists>ms. find_prefixes lk v n = Inr ms) \<and> (\<forall>former latter. \<exists>v. find_cost lk former latter = Inr v)"

lemma lookups_answer_cost: "lookups_answer lk \<Longrightarrow> looked_up (find_cost lk a b) \<noteq> Inl e"
  unfolding lookups_answer_def by (metis looked_up.simps(2) sum.distinct(1))

lemma lookups_answer_prefixes: "lookups_answer lk \<Longrightarrow> looked_up (find_prefixes lk v n) \<noteq> Inl e"
  unfolding lookups_answer_def by (metis looked_up.simps(2) sum.distinct(1))

lemma element_at_Inl: "element_at xs i = Inl e \<Longrightarrow> e = OutOfBounds"
  by (simp add: element_at_def split: if_splits)

lemma nodes_at_Inl: "nodes_at l d = Inl e \<Longrightarrow> e = OutOfBounds"
  by (auto simp: nodes_at_def then_do_Inl dest: element_at_Inl split: option.splits)

lemma complete_path_answers: "lookups_answer (sr_lookups sr) \<Longrightarrow> complete_path sr n p \<noteq> Inl e"
  by (auto simp: complete_path_def then_do_Inl lookups_answer_cost split: if_splits)

lemma completed_paths_answer: "lookups_answer (sr_lookups sr) \<Longrightarrow> completed_paths sr n \<noteq> Inl e"
proof
  assume a: "lookups_answer (sr_lookups sr)" and "completed_paths sr n = Inl e"
  then have "collect (map (complete_path sr n) (predecessors n)) = Inl e" by (auto simp: completed_paths_def then_do_Inl)
  from collect_Inl [OF this] obtain p where "complete_path sr n p = Inl e" by auto
  then show False using complete_path_answers [OF a] by blast
qed

lemma visit_node_answers: "lookups_answer (sr_lookups sr) \<Longrightarrow> visit_node sr j lr = Inl e \<Longrightarrow> e = OutOfBounds"
proof (cases lr)
  case (Pair l found)
  assume a: "lookups_answer (sr_lookups sr)" and v: "visit_node sr j lr = Inl e"
  have hand: False if "fold_result (hand_to sr x ps) js l = Inl e" for x ps js
    by (rule fold_result_error [OF that, where P = "\<lambda>_. True"])
      (use a in \<open>auto simp: hand_to_def then_do_Inl lookups_answer_cost Let_def\<close>)
  show ?thesis
    using v hand nodes_at_Inl by (auto simp: Pair visit_node_def then_do_Inl completed_paths_answer [OF a] Let_def split: if_splits)
qed

lemma build_lattice_answers:
  assumes "lookups_answer (cv_lookups cv)" and "\<not> need_typo_correction md" and "build_lattice cv tables md c = Inl e"
  shows "e = OutOfBounds"
proof -
  let ?sc = "length (surface c)" and ?g = "cv_graphemes cv"
  let ?ks = "?g (to_katakana (surface_text c))"
  have "fold_result (push_surface_words ?g (cv_lookups cv) (additional_entries md) ?sc ?ks) [0..<?sc]
      \<lparr>nodes = [], surface_nodes = replicate ?sc [], input_nodes = replicate (length (input c)) []\<rparr> = Inl e"
    using assms(2,3) by (auto simp: build_lattice_def then_do_Inl Let_def)
  then show ?thesis
    by (rule fold_result_error [where P = "\<lambda>_. True"])
      (use assms(1) in \<open>auto simp: push_surface_words_def surface_words_def then_do_Inl lookups_answer_prefixes Let_def
         dest: element_at_Inl split: if_splits\<close>)
qed

lemma conversion_answers:
  assumes "convertible cv tables c" and "\<not> need_typo_correction md" and "lookups_answer (cv_lookups cv)"
  obtains cs where "convert_modified cv tables limit ctx md c = Inr cs"
proof (cases "convert_modified cv tables limit ctx md c")
  case (Inl e)
  let ?sr = "search_of cv tables limit ctx md c"
  have "sr_lookups ?sr = cv_lookups cv" by (simp add: search_of_def)
  then have a: "lookups_answer (sr_lookups ?sr)" using assms(3) by simp
  have "search_paths cv tables limit ctx md c = Inl e"
    using Inl by (auto simp: convert_modified_def then_do_Inl split: if_splits)
  then consider "build_lattice cv tables md c = Inl e"
    | l ds where "fold_result (visit_index ?sr) ds (l, []) = Inl e"
    by (auto simp: search_paths_def then_do_Inl)
  then have "e = OutOfBounds"
  proof cases
    case 1
    then show ?thesis using build_lattice_answers [OF assms(3,2)] by blast
  next
    case 2
    have index: "e = OutOfBounds" if "visit_index ?sr d lr = Inl e" for d lr
    proof (cases "nodes_at (fst lr) d")
      case (Inr js)
      then have "fold_result (visit_node ?sr) js lr = Inl e" using that by (simp add: visit_index_def)
      then show ?thesis by (rule fold_result_error [where P = "\<lambda>_. True"]) (use visit_node_answers [OF a] in auto)
    next
      case (Inl e')
      then show ?thesis using that nodes_at_Inl [OF Inl] by (simp add: visit_index_def)
    qed
    show ?thesis by (rule fold_result_error [OF 2, where P = "\<lambda>_. True"]) (use index in auto)
  qed
  then show ?thesis using Inl conversion_in_bounds [OF assms(1,2)] by blast
qed (rule that)

end
