(* ===== verification/Lattice_Candidates.thy ===== *)
theory Lattice_Candidates
  imports Lattice_Convert Session_Result
begin

text \<open>
  From paths to candidates: the clauses a path falls into join to its words, and every candidate of a conversion stands
  for the whole text.
\<close>

section \<open>Clauses\<close>

lemma clause_step_joins:
  assumes "clauses \<noteq> []" and "clause_step p (clauses, r, n) = (clauses', r', n')"
  shows "clauses' \<noteq> [] \<and> concat (map cl_text clauses') = concat (map cl_text clauses) @ word (path_entry p) \<and>
    concat (map cl_ranges clauses') = concat (map cl_ranges clauses) @ [path_range p]"
proof -
  have last: "concat (map f xs) = concat (map f (butlast xs)) @ f (last xs)" if "xs \<noteq> []" for xs and f :: "Clause \<Rightarrow> 'a list"
    using arg_cong [OF append_butlast_last_id [OF that], of "\<lambda>ys. concat (map f ys)"] by simp
  show ?thesis
    using assms(2) last [OF assms(1), of cl_text] last [OF assms(1), of cl_ranges]
    by (auto simp: clause_step_def Let_def split: if_splits)
qed

lemma clauses_join:
  assumes "clauses \<noteq> []"
  shows "fst (fold clause_step ps (clauses, r, n)) \<noteq> [] \<and>
    concat (map cl_text (fst (fold clause_step ps (clauses, r, n)))) =
      concat (map cl_text clauses) @ concat (map (\<lambda>p. word (path_entry p)) ps) \<and>
    concat (map cl_ranges (fst (fold clause_step ps (clauses, r, n)))) = concat (map cl_ranges clauses) @ map path_range ps"
  using assms
proof (induction ps arbitrary: clauses r n)
  case (Cons p ps)
  obtain clauses' r' n' where s: "clause_step p (clauses, r, n) = (clauses', r', n')" by (cases "clause_step p (clauses, r, n)")
  note j = clause_step_joins [OF Cons.prems s]
  then show ?case using Cons.IH [of clauses' r' n'] s by simp
qed simp

lemma clauses_of_join:
  "clauses_of ctx ps \<noteq> []"
  "concat (map cl_text (clauses_of ctx ps)) = concat (map (\<lambda>p. word (path_entry p)) ps)"
  "concat (map cl_ranges (clauses_of ctx ps)) = map path_range ps"
  using clauses_join [of "[first_clause_of ctx]" ps 0 0] by (simp_all add: clauses_of_def first_clause_of_def)

lemma make_candidate_parts:
  "cand_text (make_candidate graphemes lk ctx p) = concat (map word (entries (make_candidate graphemes lk ctx p)))"
  "entries (make_candidate graphemes lk ctx p) = map path_entry (path_list p)"
  "composing_count (make_candidate graphemes lk ctx p) =
     (case reduce combine_counts (map (\<lambda>q. range_count (path_range q)) (path_list p)) of Some k \<Rightarrow> k | None \<Rightarrow> InputCount 0)"
  "is_typo_correction (make_candidate graphemes lk ctx p) \<longleftrightarrow> (\<exists>q \<in> set (path_list p). is_input_range (path_range q))"
  by (auto simp: make_candidate_def Let_def clauses_of_join list_ex_iff comp_def split: prod.split)

section \<open>The span of a path\<close>

definition words_forward :: "placed_word set \<Rightarrow> bool" where
  "words_forward ws \<longleftrightarrow> (\<forall>(e, r) \<in> ws. \<exists>s t. r = SurfaceRange s t \<and> s < t)"

lemma path_span:
  assumes "lattice_path lk ctx ws p" and "words_forward ws" and "path_range p = SurfaceRange r t"
  shows "\<exists>n ns. map (\<lambda>q. range_count (path_range q)) (path_list p) = map SurfaceCount (n # ns) \<and> n + sum_list ns = t \<and>
    (\<forall>q \<in> set (path_list p). \<not> is_input_range (path_range q) \<and> (path_entry q, path_range q) \<in> ws)"
  using assms(1,3)
proof (induction arbitrary: r t)
  case (first_word e t' h)
  then show ?case by (intro exI [of _ t] exI [of _ "[]"]) (auto simp: is_input_range_def)
next
  case (next_word p r' s e t' k)
  have st: "s < t'" using assms(2) next_word.hyps(4) by (auto simp: words_forward_def)
  obtain n ns where n: "map (\<lambda>q. range_count (path_range q)) (path_list p) = map SurfaceCount (n # ns)" "n + sum_list ns = s"
    "\<forall>q \<in> set (path_list p). \<not> is_input_range (path_range q) \<and> (path_entry q, path_range q) \<in> ws"
    using next_word.IH [OF next_word.hyps(2)] by blast
  let ?q = "RegisteredPath e (SurfaceRange s t') (Some p) (f32_add (f32_add (f32_add (path_total p) k) (entry_value e)) f32_zero)"
  have l: "path_list ?q = path_list p @ [?q]" by simp
  have "map (\<lambda>q. range_count (path_range q)) (path_list ?q) = map SurfaceCount (n # ns @ [t' - s])"
    unfolding l by (simp add: n(1))
  moreover have "n + sum_list (ns @ [t' - s]) = t" using n(2) st next_word.prems by simp
  moreover have "\<forall>q \<in> set (path_list ?q). \<not> is_input_range (path_range q) \<and> (path_entry q, path_range q) \<in> ws"
    unfolding l using n(3) next_word.hyps(4) by (simp add: is_input_range_def)
  ultimately show ?case by blast
qed

lemma built_forward: "built ic sc k l \<Longrightarrow> words_forward (set (placed_words l))"
  unfolding words_forward_def
proof (clarify)
  fix e r assume b: "built ic sc k l" and "(e, r) \<in> set (placed_words l)"
  then obtain j where "j < length (nodes l)" "r = node_range (nodes l ! j)"
    by (auto simp: placed_words_def in_set_conv_nth)
  with built_node [OF b] show "\<exists>s t. r = SurfaceRange s t \<and> s < t" by blast
qed

section \<open>There is a path\<close>

lemma built_single_word:
  assumes "built ic sc k l" and "s < k"
  obtains e where "(e, SurfaceRange s (Suc s)) \<in> set (placed_words l)"
proof -
  have "\<forall>s < k. \<exists>j < length (nodes l). node_range (nodes l ! j) = SurfaceRange s (s + 1)"
    using assms(1) unfolding built_def by blast
  with assms(2) obtain j where j: "j < length (nodes l)" "node_range (nodes l ! j) = SurfaceRange s (Suc s)" by auto
  then have "placed_words l ! j = (node_entry (nodes l ! j), SurfaceRange s (Suc s))" by (simp add: placed_words_def)
  then show thesis using that j(1) by (metis length_placed_words nth_mem)
qed

lemma built_path:
  assumes "built ic sc sc l" and "lookups_answer lk" and "s < sc"
  shows "\<exists>p r. lattice_path lk ctx (set (placed_words l)) p \<and> path_range p = SurfaceRange r (Suc s)"
  using assms(3)
proof (induction s)
  case 0
  from built_single_word [OF assms(1) 0] obtain e where m: "(e, SurfaceRange 0 (Suc 0)) \<in> set (placed_words l)" by blast
  obtain h where "find_cost lk (unat (ctx_right_id ctx)) (unat (left_id e)) = Inr h"
    using assms(2) unfolding lookups_answer_def by blast
  from first_word [OF m this] show ?case by (meson RegisteredPath.sel(2))
next
  case (Suc s)
  then obtain p r where p: "lattice_path lk ctx (set (placed_words l)) p" "path_range p = SurfaceRange r (Suc s)" by auto
  from built_single_word [OF assms(1) Suc.prems] obtain e where
    m: "(e, SurfaceRange (Suc s) (Suc (Suc s))) \<in> set (placed_words l)" by blast
  obtain k where "find_cost lk (unat (right_id (path_entry p))) (unat (left_id e)) = Inr k"
    using assms(2) unfolding lookups_answer_def by blast
  from next_word [OF p _ m this] show ?case by (meson RegisteredPath.sel(2) zero_less_Suc)
qed

section \<open>The words have a text\<close>

lemma segments_Nil: "segments_text graphemes \<Longrightarrow> graphemes [] = []"
proof -
  assume "segments_text graphemes"
  then have "concat (graphemes []) = []" "[] \<notin> set (graphemes [])" by (simp_all add: segments_text_def)
  then show ?thesis by (cases "graphemes []") auto
qed

lemma should_keep: "\<not> should_remove graphemes e \<Longrightarrow> segments_text graphemes \<Longrightarrow> word e \<noteq> []"
  by (auto simp: should_remove_def Let_def segments_Nil split: if_splits)

lemma surface_words_nonempty:
  assumes "segments_text graphemes" and "[] \<notin> set katakana"
    and "surface_words graphemes lk additional sc katakana start = Inr ws" and "p \<in> set ws"
  shows "word (fst p) \<noteq> []"
proof -
  let ?t = "concat (drop start katakana)"
  from assms(3) obtain matches where start: "start < length katakana" and "find_prefixes lk ?t 20 = Inr matches"
    and ws: "ws = concat (map (\<lambda>m. map (\<lambda>e. (e, start + surface_end m))
                                    (filter (\<lambda>e. \<not> should_remove graphemes e) (match_entries m))) matches) @
      map (\<lambda>e. (e, start + 1)) (single_character_entries (katakana ! start)) @
      map (\<lambda>e. (e, start + length (graphemes (ruby e))))
        (filter (word_fits graphemes ?t (sc - start)) (additional @ learned_prefixes lk ?t 20))"
    by (auto simp: surface_words_def then_do_Inr element_at_Inr Let_def split: if_splits)
  have "katakana ! start \<noteq> []" using start assms(2) by (metis nth_mem)
  then have single: "e \<in> set (single_character_entries (katakana ! start)) \<Longrightarrow> word e \<noteq> []" for e
    by (auto simp: single_character_entries_def plain_entry_def to_hiragana_def Let_def split: if_splits)
  have fits: "word_fits graphemes ?t n e \<Longrightarrow> word e \<noteq> []" for n e
    using should_keep [of graphemes e] assms(1) by (auto simp: word_fits_def Let_def)
  show ?thesis using assms(4) single fits should_keep [OF _ assms(1)] unfolding ws by auto
qed

lemma build_lattice_words:
  assumes "segments_text (cv_graphemes cv)" and "\<not> need_typo_correction md" and "build_lattice cv tables md c = Inr l"
  shows "\<forall>n \<in> set (nodes l). word (node_entry n) \<noteq> []"
proof -
  let ?sc = "length (surface c)" and ?g = "cv_graphemes cv"
  let ?ks = "?g (to_katakana (surface_text c))"
  have ks: "[] \<notin> set ?ks" using assms(1) by (simp add: segments_text_def)
  have f: "fold_result (push_surface_words ?g (cv_lookups cv) (additional_entries md) ?sc ?ks) [0..<?sc]
      \<lparr>nodes = [], surface_nodes = replicate ?sc [], input_nodes = replicate (length (input c)) []\<rparr> = Inr l"
    using assms(2,3) by (auto simp: build_lattice_def then_do_Inr Let_def)
  show ?thesis
  proof (rule fold_result_keeps [OF f, where P = "\<lambda>l. \<forall>n \<in> set (nodes l). word (node_entry n) \<noteq> []"])
    fix k a a' assume a: "\<forall>n \<in> set (nodes a). word (node_entry n) \<noteq> []"
      and "push_surface_words ?g (cv_lookups cv) (additional_entries md) ?sc ?ks k a = Inr a'"
    then obtain ps where "surface_words ?g (cv_lookups cv) (additional_entries md) ?sc ?ks k = Inr ps"
      "a' = fold (push_surface_node k) ps a" by (auto simp: push_surface_words_def then_do_Inr)
    with surface_words_nonempty [OF assms(1) ks] a show "\<forall>n \<in> set (nodes a'). word (node_entry n) \<noteq> []"
      by (auto simp: nodes_push new_node_def)
  qed simp
qed

section \<open>What a conversion answers\<close>

interpretation value_order: keyed_comparison by_value "\<lambda>c. - total_key (cand_value c)"
  by unfold_locales (auto simp: by_value_def total_cmp_def cmp_def)

lemma unique_candidates_facts:
  "distinct (texts (unique_candidates cs))" "set (texts (unique_candidates cs)) = set (texts cs) - {[]}"
  "set (unique_candidates cs) \<subseteq> set cs" "sorted (map (\<lambda>c. - total_key (cand_value c)) (unique_candidates cs))"
proof -
  have m: "mset (unique_candidates cs) = mset (unique cs)"
    by (simp add: unique_candidates_def value_order.sort_by_key)
  have "mset (texts (unique_candidates cs)) = mset (texts (unique cs))" using m by (simp add: mset_map)
  then show "distinct (texts (unique_candidates cs))" using unique_distinct mset_eq_imp_distinct_iff by blast
  have "set (unique_candidates cs) = set (unique cs)" using m by (rule mset_eq_setD)
  then show "set (texts (unique_candidates cs)) = set (texts cs) - {[]}" "set (unique_candidates cs) \<subseteq> set cs"
    using unique_texts [of cs] unique_subset [of cs] by simp_all
  show "sorted (map (\<lambda>c. - total_key (cand_value c)) (unique_candidates cs))"
    by (simp add: unique_candidates_def value_order.sort_by_key)
qed

lemma conversion_covers:
  assumes "convertible cv tables c" and "segments_text (cv_graphemes cv)" and "costs_nonpositive (cv_lookups cv)" and "plain md"
    and "convert_modified cv tables limit ctx md c = Inr cs"
  shows "(\<forall>x \<in> set cs. composing_count x = SurfaceCount (length (surface c)) \<and> cand_text x = concat (map word (entries x)) \<and>
      cand_text x \<noteq> [] \<and> \<not> is_typo_correction x) \<and>
    distinct (map cand_text cs) \<and> sorted (map (\<lambda>x. - total_key (cand_value x)) cs)"
proof (cases "limit = 0 \<or> is_empty_composing c")
  case True
  then show ?thesis using assms(5) by (simp add: convert_modified_def)
next
  case False
  obtain paths where paths: "search_paths cv tables limit ctx md c = Inr paths"
    and cs: "cs = unique_candidates (sort_by by_value (map (make_candidate (cv_graphemes cv) (cv_lookups cv) ctx) paths))"
    using assms(5) False by (auto simp: convert_modified_def then_do_Inr)
  obtain l where l: "build_lattice cv tables md c = Inr l" using paths by (auto simp: search_paths_def then_do_Inr)
  have b: "built (length (input c)) (length (surface c)) (length (surface c)) l"
    using assms(1,4) l by (intro build_lattice_built) (auto simp: convertible_def plain_def)
  have sound: "whole_path cv ctx l c q" if "q \<in> set paths" for q
    using search_best [OF assms(1,3,4) _ l paths] False that by blast
  have cand: "composing_count x = SurfaceCount (length (surface c)) \<and> cand_text x = concat (map word (entries x)) \<and> \<not> is_typo_correction x"
    if q: "q \<in> set paths" "x = make_candidate (cv_graphemes cv) (cv_lookups cv) ctx q" for q x
  proof -
    obtain r where p: "lattice_path (cv_lookups cv) ctx (set (placed_words l)) q" "path_range q = SurfaceRange r (length (surface c))"
      using sound [OF q(1)] unfolding whole_path_def by blast
    obtain n ns where "map (\<lambda>q. range_count (path_range q)) (path_list q) = map SurfaceCount (n # ns)"
      "n + sum_list ns = length (surface c)" "\<forall>q \<in> set (path_list q). \<not> is_input_range (path_range q)"
      using path_span [OF p(1) built_forward [OF b] p(2)] by blast
    then show ?thesis
      using reduce_surface_counts [of n ns] unfolding q(2) make_candidate_parts(3,4) by (simp add: make_candidate_parts(1))
  qed
  have "set cs \<subseteq> make_candidate (cv_graphemes cv) (cv_lookups cv) ctx ` set paths"
    using unique_candidates_facts(3) unfolding cs by fastforce
  moreover have "[] \<notin> set (texts cs)" using unique_candidates_facts(2) unfolding cs by blast
  ultimately show ?thesis
    using cand unique_candidates_facts(1,4) unfolding cs by (fastforce simp: image_iff)
qed

text \<open>
  C28. Every candidate of a plain conversion stands for the whole composing text: it consumes exactly the graphemes of the
  surface, its text is what its words join to and is not empty, and it is not marked as a typo correction. The candidates
  have distinct texts and descending values.
\<close>

theorem candidates_cover_text:
  assumes "convertible cv tables c" and "segments_text (cv_graphemes cv)" and "costs_nonpositive (cv_lookups cv)" and "plain md"
    and "convert_modified cv tables limit ctx md c = Inr cs"
  shows "(\<forall>x \<in> set cs. composing_count x = SurfaceCount (length (surface c)) \<and> cand_text x = concat (map word (entries x)) \<and>
      cand_text x \<noteq> [] \<and> \<not> is_typo_correction x) \<and>
    distinct (map cand_text cs) \<and> sorted (map (\<lambda>x. - total_key (cand_value x)) cs)"
  by (rule conversion_covers [OF assms])

lemma conversion_candidates:
  assumes "convertible cv tables c" and "segments_text (cv_graphemes cv)" and "costs_nonpositive (cv_lookups cv)" and "plain md"
    and "lookups_answer (cv_lookups cv)" and "0 < limit" and "surface c \<noteq> []"
  shows "\<exists>cs. convert_modified cv tables limit ctx md c = Inr cs \<and> cs \<noteq> []"
proof -
  obtain cs where answer: "convert_modified cv tables limit ctx md c = Inr cs"
    by (rule conversion_answers [OF assms(1) _ assms(5), where md = md and limit = limit and ctx = ctx])
      (use assms(4) in \<open>simp_all add: plain_def\<close>)
  have ne: "\<not> is_empty_composing c" using assms(7) assms(1) by (auto simp: is_empty_composing_def convertible_def composing_ok_def)
  obtain paths where paths: "search_paths cv tables limit ctx md c = Inr paths"
    and cs: "cs = unique_candidates (sort_by by_value (map (make_candidate (cv_graphemes cv) (cv_lookups cv) ctx) paths))"
    using assms(6) answer ne by (auto simp: convert_modified_def then_do_Inr)
  obtain l where l: "build_lattice cv tables md c = Inr l" using paths by (auto simp: search_paths_def then_do_Inr)
  have b: "built (length (input c)) (length (surface c)) (length (surface c)) l"
    using assms(1,4) l by (intro build_lattice_built) (auto simp: convertible_def plain_def)
  note best = search_best [OF assms(1,3,4,6) l paths]
  obtain n where n: "length (surface c) = Suc n" using assms(7) by (cases "length (surface c)") auto
  then obtain p r where "lattice_path (cv_lookups cv) ctx (set (placed_words l)) p" "path_range p = SurfaceRange r (Suc n)"
    using built_path [OF b assms(5), where s = n and ctx = ctx] by auto
  then have "whole_path cv ctx l c p" using n by (auto simp: whole_path_def)
  then obtain q where q: "q \<in> set paths" using best by blast
  then have w: "lattice_path (cv_lookups cv) ctx (set (placed_words l)) q" using best by (auto simp: whole_path_def)
  let ?x = "make_candidate (cv_graphemes cv) (cv_lookups cv) ctx q"
  have "q \<in> set (path_list q)" by (cases q) simp
  moreover have "word (path_entry q) \<noteq> []"
    using lattice_path_last [OF w] build_lattice_words [OF assms(2) _ l] assms(4) by (auto simp: placed_words_def plain_def)
  ultimately have "cand_text ?x \<noteq> []" unfolding make_candidate_parts(1,2) by auto
  then have "cand_text ?x \<in> set (texts cs)" using q unfolding cs unique_candidates_facts(2) by auto
  then have "cs \<noteq> []" by auto
  then show ?thesis using answer by blast
qed


end
