(* ===== verification/Lattice_Sample.thy ===== *)
theory Lattice_Sample
  imports Lattice_Candidates
begin

text \<open>
  A dictionary of one word for a text of two kana, on which the theorems about the conversion are applied, and a text
  that stops the program.
\<close>

section \<open>A small dictionary\<close>

definition sample_word :: DictionaryEntry where
  "sample_word = \<lparr>word = [0x611B], ruby = [0x30A2, 0x30A4], left_id = 1285, right_id = 1285, meaning_id = 501,
     base_value = 0xC1000000, adjustment = f32_zero, metadata = 0\<rparr>"

definition sample_lookups :: Lookups where
  "sample_lookups =
     \<lparr>find_prefixes = (\<lambda>v n. Inr (if take 2 v = [0x30A2, 0x30A4] then [\<lparr>surface_end = 2, match_entries = [sample_word]\<rparr>] else [])),
      find_exact = (\<lambda>_. Inr []), find_after = (\<lambda>_ _ _. Inr []), find_cost = (\<lambda>_ _. Inr 0xC0000000),
      find_meaning = (\<lambda>_ _. None), learned_prefixes = (\<lambda>_ _. []), learned_exact = (\<lambda>_. []),
      learned_predictions = (\<lambda>_. [])\<rparr>"

definition sample_order :: map_order where
  "sample_order m = concat (map (\<lambda>i. case m i of Some s \<Rightarrow> [(i, s)] | None \<Rightarrow> []) [0..<10])"

definition sample_converter :: Converter where
  "sample_converter = \<lparr>cv_graphemes = scalar_graphemes, cv_order = sample_order, cv_arrange = id, cv_lookups = sample_lookups\<rparr>"

definition sample_kana :: ComposingText where
  "sample_kana = \<lparr>cursor = 2, input = map (\<lambda>v. character_element v Direct) [[0x3042], [0x3044]], surface = [[0x3042], [0x3044]]\<rparr>"

definition plain_modifiers :: ConversionModifiers where
  "plain_modifiers = \<lparr>additional_entries = [], need_typo_correction = False, constraint = None\<rparr>"

lemma scalar_graphemes_concat: "concat (scalar_graphemes v) = v"
  by (simp add: scalar_graphemes_def)

lemma scalar_graphemes_drop: "scalar_graphemes (concat (drop s (scalar_graphemes v))) = drop s (scalar_graphemes v)"
  by (simp add: scalar_graphemes_def drop_map comp_def flip: map_concat)

lemma same_graphemes_scalar:
  assumes "\<forall>g \<in> set (surface c). length g = 1"
  shows "same_graphemes scalar_graphemes c"
proof -
  have "length (concat gs) = length gs" if "\<forall>g \<in> set gs. length g = 1" for gs :: "grapheme list"
    using that by (induction gs) simp_all
  then have "length (surface_text c) = length (surface c)" using assms by (simp add: surface_text_def)
  then have "length (scalar_graphemes (to_katakana (surface_text c))) = length (surface c)"
    by (simp add: scalar_graphemes_def to_katakana_def)
  then show ?thesis using scalar_graphemes_drop unfolding same_graphemes_def Let_def by blast
qed

lemma sample_convertible: "convertible sample_converter sample_registry sample_kana"
proof -
  have "composing_ok sample_registry sample_kana"
    unfolding composing_ok_def by (simp add: sample_kana_def) code_simp
  moreover have "iterates sample_order"
    by (auto simp: iterates_def sample_order_def split: option.splits)
  moreover have "same_graphemes scalar_graphemes sample_kana"
    by (rule same_graphemes_scalar) (simp add: sample_kana_def)
  moreover have "prefixes_bounded scalar_graphemes sample_lookups"
  proof -
    have "2 \<le> length v" if "take 2 v = [0x30A2, 0x30A4]" for v :: ustr
      using arg_cong [OF that, of length] by simp
    then show ?thesis by (auto simp: prefixes_bounded_def sample_lookups_def scalar_graphemes_def split: if_splits)
  qed
  ultimately show ?thesis by (simp add: convertible_def sample_converter_def)
qed

lemma sample_costs: "costs_nonpositive (cv_lookups sample_converter)" "lookups_answer (cv_lookups sample_converter)"
proof -
  have "nonpositive 0xC0000000" by code_simp
  then show "costs_nonpositive (cv_lookups sample_converter)"
    by (auto simp: costs_nonpositive_def sample_converter_def sample_lookups_def)
  show "lookups_answer (cv_lookups sample_converter)"
    by (auto simp: lookups_answer_def sample_converter_def sample_lookups_def)
qed

lemma sample_plain: "plain plain_modifiers"
  by (simp add: plain_def plain_modifiers_def)

lemma sample_segments: "segments_text (cv_graphemes sample_converter)"
  using segments_text_scalar by (simp add: sample_converter_def)

section \<open>Applications\<close>

definition sample_conversion :: "ConvertError + Candidate list" where
  "sample_conversion = convert_modified sample_converter sample_registry 1 default_context plain_modifiers sample_kana"

lemma sample_conversion_answers: obtains cs where "sample_conversion = Inr cs"
  using conversion_answers [OF sample_convertible _ sample_costs(2)] sample_plain
  unfolding sample_conversion_def plain_def by blast

lemma search_finds_best_path_witness:
  "\<exists>l found. build_lattice sample_converter sample_registry plain_modifiers sample_kana = Inr l \<and>
     search_paths sample_converter sample_registry 1 default_context plain_modifiers sample_kana = Inr found \<and>
     (\<forall>p. whole_path sample_converter default_context l sample_kana p \<longrightarrow>
        (\<exists>q \<in> set found. f32_key (path_total p) \<le> f32_key (path_total q)))"
proof -
  obtain cs where cs: "sample_conversion = Inr cs" by (rule sample_conversion_answers)
  have "\<not> is_empty_composing sample_kana" by (simp add: is_empty_composing_def sample_kana_def)
  then obtain found where found:
      "search_paths sample_converter sample_registry 1 default_context plain_modifiers sample_kana = Inr found"
    using cs by (auto simp: sample_conversion_def convert_modified_def then_do_Inr)
  then obtain l where l: "build_lattice sample_converter sample_registry plain_modifiers sample_kana = Inr l"
    by (auto simp: search_paths_def then_do_Inr)
  show ?thesis
    using search_finds_best_path [OF sample_convertible sample_costs(1) sample_plain _ l found] l found by auto
qed


lemma candidates_cover_text_witness:
  "\<exists>cs. sample_conversion = Inr cs \<and> (\<forall>x \<in> set cs. composing_count x = SurfaceCount 2 \<and> cand_text x \<noteq> [])"
proof -
  obtain cs where cs: "sample_conversion = Inr cs" by (rule sample_conversion_answers)
  have "length (surface sample_kana) = 2" by (simp add: sample_kana_def)
  then show ?thesis
    using candidates_cover_text [OF sample_convertible sample_segments sample_costs(1) sample_plain cs [unfolded sample_conversion_def]] cs
    by auto
qed


section \<open>A mark typed alone\<close>

text \<open>
  Unicode joins the voiced sound mark U+3099 to the kana before it. The surface keeps a grapheme of each event, so a kana and
  a mark that arrive in two events are two graphemes of the surface but one of the text, and the conversion indexes the
  graphemes of the text with the positions of the surface.
\<close>

fun join_marks :: segmenter where
  "join_marks [] = []"
| "join_marks (x # xs) =
     (case join_marks xs of
        [] \<Rightarrow> [[x]]
      | g # gs \<Rightarrow> if hd g = 0x3099 then (x # g) # gs else [x] # g # gs)"

definition marked_kana :: ComposingText where
  "marked_kana =
     insert_str join_marks sample_registry [0x3099] Direct (insert_str join_marks sample_registry [0x304B] Direct new_composing)"

lemma separate_mark_out_of_bounds:
  "convert_modified (sample_converter\<lparr>cv_graphemes := join_marks\<rparr>) sample_registry 1 default_context plain_modifiers marked_kana =
     Inl OutOfBounds"
proof -
  let ?cv = "sample_converter\<lparr>cv_graphemes := join_marks\<rparr>"
  have c: "surface marked_kana = [[0x304B], [0x3099]]" "input marked_kana \<noteq> []" by code_simp+
  have ks: "join_marks (to_katakana (surface_text marked_kana)) = [[0x30AB, 0x3099]]"
    unfolding surface_text_def c(1) by code_simp
  have r: "surface_words join_marks sample_lookups [] 2 [[0x30AB, 0x3099]] 1 = Inl OutOfBounds"
    by (simp add: surface_words_def sample_lookups_def element_at_def)
  let ?push = "push_surface_words join_marks sample_lookups [] 2 [[0x30AB, 0x3099]]"
  have stops: "fold_result ?push [0, Suc 0] l0 = Inl OutOfBounds" for l0
  proof -
    obtain l where "?push 0 l0 = Inr l"
      by (simp add: push_surface_words_def surface_words_def sample_lookups_def element_at_def)
    moreover have "?push (Suc 0) l = Inl OutOfBounds" using r by (simp add: push_surface_words_def)
    ultimately show ?thesis by simp
  qed
  have "[0..<2] = [0, Suc 0]" by (simp add: upt_rec)
  then have "build_lattice ?cv sample_registry plain_modifiers marked_kana = Inl OutOfBounds"
    using ks c stops by (simp add: build_lattice_def sample_converter_def plain_modifiers_def numeral_2_eq_2)
  then show ?thesis using c by (simp add: convert_modified_def search_paths_def is_empty_composing_def)
qed

end
