(* ===== verification/Zenz_Prompt.thy ===== *)
theory Zenz_Prompt
  imports Lattice
begin

text \<open>
  \<open>crates/converter/src/zenz.rs\<close>, the texts around the model: the constraint its answers put on a conversion, the
  prompts, and their normalization. Counts of graphemes use the segmenter.
\<close>

section \<open>Tags\<close>

definition INPUT_TAG :: uchar where "INPUT_TAG = 0xEE00"
definition OUTPUT_TAG :: uchar where "OUTPUT_TAG = 0xEE01"
definition CONTEXT_TAG :: uchar where "CONTEXT_TAG = 0xEE02"
definition PROFILE_TAG :: uchar where "PROFILE_TAG = 0xEE03"
definition TOPIC_TAG :: uchar where "TOPIC_TAG = 0xEE04"
definition STYLE_TAG :: uchar where "STYLE_TAG = 0xEE05"
definition PREFERENCE_TAG :: uchar where "PREFERENCE_TAG = 0xEE06"
definition RIGHT_CONTEXT_TAG :: uchar where "RIGHT_CONTEXT_TAG = 0xEE07"
definition ALIGNMENT_SEPARATOR :: uchar where "ALIGNMENT_SEPARATOR = 0xEE08"

section \<open>Constraints\<close>

definition no_constraint :: PrefixConstraint where
  "no_constraint = \<lparr>pc_bytes = [], has_eos = False, ignore_memory_and_user_dictionary = False, fixed_prefix = None\<rparr>"

definition new_constraint :: "byte list \<Rightarrow> PrefixConstraint" where
  "new_constraint bytes = no_constraint\<lparr>pc_bytes := bytes\<rparr>"

definition is_empty_constraint :: "PrefixConstraint \<Rightarrow> bool" where
  "is_empty_constraint p \<longleftrightarrow> pc_bytes p = [] \<and> \<not> has_eos p"

text \<open>The place of the first window of bytes that is the separator.\<close>

definition find_window :: "byte list \<Rightarrow> byte list \<Rightarrow> nat option" where
  "find_window w bytes = find (\<lambda>i. take (length w) (drop i bytes) = w) [0..<length bytes + 1 - length w]"

definition normalized :: "byte list \<Rightarrow> bool \<Rightarrow> bool \<Rightarrow> PrefixConstraint" where
  "normalized bytes default_has_eos ignores =
     (case find_window (utf8 [ALIGNMENT_SEPARATOR]) bytes of
        Some i \<Rightarrow> \<lparr>pc_bytes = take i bytes, has_eos = True, ignore_memory_and_user_dictionary = ignores, fixed_prefix = None\<rparr>
      | None \<Rightarrow>
          \<lparr>pc_bytes = bytes, has_eos = default_has_eos, ignore_memory_and_user_dictionary = ignores, fixed_prefix = None\<rparr>)"

section \<open>Prompts\<close>

definition grapheme_prefix :: "segmenter \<Rightarrow> ustr \<Rightarrow> nat \<Rightarrow> ustr" where
  "grapheme_prefix graphemes v n = concat (take n (graphemes v))"

definition grapheme_suffix :: "segmenter \<Rightarrow> ustr \<Rightarrow> nat \<Rightarrow> ustr" where
  "grapheme_suffix graphemes v n = concat (drop (length (graphemes v) - n) (graphemes v))"

definition v3_conditions :: "segmenter \<Rightarrow> ZenzV3Config \<Rightarrow> ustr list" where
  "v3_conditions graphemes config =
     List.map_filter
       (\<lambda>(tag, v). case v of
           None \<Rightarrow> None
         | Some v \<Rightarrow> if v = [] then None else Some (tag # grapheme_suffix graphemes v 25))
       [(PROFILE_TAG, v3_profile config), (TOPIC_TAG, v3_topic config), (STYLE_TAG, v3_style config),
        (PREFERENCE_TAG, v3_preference config)]"

definition or_empty :: "ustr option \<Rightarrow> ustr" where
  "or_empty v = (case v of Some v \<Rightarrow> v | None \<Rightarrow> [])"

definition or_default :: "nat \<Rightarrow> nat option \<Rightarrow> nat" where
  "or_default d n = (case n of Some n \<Rightarrow> n | None \<Rightarrow> d)"

text \<open>The contexts both kinds of prompt of the third version have.\<close>

definition tagged_contexts :: "ustr \<Rightarrow> ustr \<Rightarrow> ustr" where
  "tagged_contexts l r = (if l = [] then [] else CONTEXT_TAG # l) @ (if r = [] then [] else RIGHT_CONTEXT_TAG # r)"

definition input_prediction_prompt :: "segmenter \<Rightarrow> ustr \<Rightarrow> ustr \<Rightarrow> ZenzVersionConfig \<Rightarrow> ustr option" where
  "input_prediction_prompt graphemes left_context composing_text version =
     (case version of
        V2 _ \<Rightarrow> None
      | V3 config \<Rightarrow>
          Some (concat (v3_conditions graphemes config) @
            tagged_contexts (grapheme_suffix graphemes left_context (or_default 40 (v3_max_left_context_length config)))
              (grapheme_prefix graphemes (or_empty (v3_right_context config)) (or_default 40 (v3_max_right_context_length config))) @
            INPUT_TAG # to_katakana composing_text))"

definition typo_correction_prefix :: "ustr \<Rightarrow> ustr" where
  "typo_correction_prefix left_context =
     (if left_context = [] then [INPUT_TAG] else CONTEXT_TAG # left_context @ [INPUT_TAG])"

definition should_insert_alignment_separator :: "segmenter \<Rightarrow> ustr \<Rightarrow> nat option \<Rightarrow> bool" where
  "should_insert_alignment_separator graphemes v cursor_position \<longleftrightarrow>
     (case cursor_position of Some p \<Rightarrow> p < length (graphemes v) | None \<Rightarrow> False)"

definition aligned_input :: "segmenter \<Rightarrow> ustr \<Rightarrow> nat option \<Rightarrow> bool \<Rightarrow> ustr" where
  "aligned_input graphemes v cursor_position enabled =
     (case cursor_position of
        Some p \<Rightarrow>
          if enabled \<and> should_insert_alignment_separator graphemes v cursor_position
          then concat (take p (graphemes v)) @ ALIGNMENT_SEPARATOR # concat (drop p (graphemes v)) else v
      | None \<Rightarrow> v)"

text \<open>The words of the prompts: the dictionary, the profile, an utterance, and the dot between conditions.\<close>

definition DICTIONARY_LABEL :: ustr where "DICTIONARY_LABEL = [0x8F9E, 0x66F8, 0x3A]"
definition PROFILE_LABEL :: ustr where "PROFILE_LABEL = [0x30D7, 0x30ED, 0x30D5, 0x30A3, 0x30FC, 0x30EB, 0x3A]"
definition UTTERANCE_LABEL :: ustr where "UTTERANCE_LABEL = [0x30FB, 0x767A, 0x8A00, 0x3A]"

definition candidate_evaluation_v2 :: "segmenter \<Rightarrow> ustr \<Rightarrow> ustr \<Rightarrow> ZenzV2Config \<Rightarrow> ustr" where
  "candidate_evaluation_v2 graphemes v user_prompt config =
     (let conditions =
            (if user_prompt = [] then [] else [DICTIONARY_LABEL @ user_prompt]) @
            (case v2_profile config of
               Some p \<Rightarrow> if p = [] then [] else [PROFILE_LABEL @ grapheme_suffix graphemes p 25]
             | None \<Rightarrow> []);
          l = grapheme_suffix graphemes (or_empty (v2_left_context config)) (or_default 40 (v2_max_left_context_length config))
      in if conditions \<noteq> []
         then INPUT_TAG # v @ CONTEXT_TAG # join [0x30FB] conditions @ UTTERANCE_LABEL @ l @ [OUTPUT_TAG]
         else if l \<noteq> [] then INPUT_TAG # v @ CONTEXT_TAG # l @ [OUTPUT_TAG]
         else INPUT_TAG # v @ [OUTPUT_TAG])"

definition candidate_evaluation_v3 :: "segmenter \<Rightarrow> ustr \<Rightarrow> nat option \<Rightarrow> ustr \<Rightarrow> ZenzV3Config \<Rightarrow> ustr" where
  "candidate_evaluation_v3 graphemes v cursor_position user_prompt config =
     (if user_prompt = [] then [] else DICTIONARY_LABEL @ user_prompt) @
     concat (v3_conditions graphemes config) @
     tagged_contexts
       (grapheme_suffix graphemes (or_empty (v3_left_context config)) (or_default 40 (v3_max_left_context_length config)))
       (grapheme_prefix graphemes (or_empty (v3_right_context config)) (or_default 40 (v3_max_right_context_length config))) @
     INPUT_TAG # aligned_input graphemes v cursor_position (v3_enable_alignment_separator config) @ [OUTPUT_TAG]"

fun candidate_evaluation :: "segmenter \<Rightarrow> ustr \<Rightarrow> nat option \<Rightarrow> ustr \<Rightarrow> ZenzVersionConfig \<Rightarrow> ustr" where
  "candidate_evaluation graphemes v cursor_position user_prompt (V2 config) =
     candidate_evaluation_v2 graphemes v user_prompt config"
| "candidate_evaluation graphemes v cursor_position user_prompt (V3 config) =
     candidate_evaluation_v3 graphemes v cursor_position user_prompt config"

definition candidate_text_for_evaluation :: "segmenter \<Rightarrow> ustr \<Rightarrow> ustr \<Rightarrow> nat option \<Rightarrow> ZenzVersionConfig \<Rightarrow> ustr" where
  "candidate_text_for_evaluation graphemes candidate_text v cursor_position version =
     (if (case version of V3 config \<Rightarrow> v3_enable_alignment_separator config | V2 _ \<Rightarrow> False) \<and>
         should_insert_alignment_separator graphemes v cursor_position
      then candidate_text @ [ALIGNMENT_SEPARATOR] else candidate_text)"

definition normalize_for_model :: "ustr \<Rightarrow> ustr" where
  "normalize_for_model v = filter (\<lambda>c. c \<noteq> 0x0A) (map (\<lambda>c. if c = 0x20 then 0x3000 else c) v)"

fun appending_left_context :: "ZenzVersionConfig \<Rightarrow> ustr \<Rightarrow> ZenzVersionConfig" where
  "appending_left_context (V2 config) fixed = V2 (config\<lparr>v2_left_context := Some (or_empty (v2_left_context config) @ fixed)\<rparr>)"
| "appending_left_context (V3 config) fixed = V3 (config\<lparr>v3_left_context := Some (or_empty (v3_left_context config) @ fixed)\<rparr>)"

end
