(* ===== verification/Zenz.thy ===== *)
theory Zenz
  imports Zenz_Prompt
begin

text \<open>
  \<open>crates/converter/src/zenz.rs\<close>, the model's part: how a candidate is evaluated token by token, the caches of the
  evaluator, and the generation of further input. The language model is a record of functions: what it answers depends on
  what it is asked only. \<open>exp\<close> and \<open>ln\<close> of \<open>f32\<close>, whose precision the language leaves open, are arguments.
\<close>

section \<open>Comparisons\<close>

definition f32_le :: "f32 \<Rightarrow> f32 \<Rightarrow> bool" where
  "f32_le a b \<longleftrightarrow> f32_ge b a"

definition f32_eq :: "f32 \<Rightarrow> f32 \<Rightarrow> bool" where
  "f32_eq a b \<longleftrightarrow> \<not> f32_is_nan a \<and> \<not> f32_is_nan b \<and> f32_key a = f32_key b"

record FloatFunctions =
  fl_exp :: "f32 \<Rightarrow> f32"
  fl_ln :: "f32 \<Rightarrow> f32"

section \<open>The model\<close>

datatype ZenzInferenceError = Message ustr | ContextCapacity (ce_tokens: nat) (ce_capacity: nat)

fun is_context_capacity_exceeded :: "ZenzInferenceError \<Rightarrow> bool" where
  "is_context_capacity_exceeded (ContextCapacity n c) = True"
| "is_context_capacity_exceeded (Message m) = False"

fun show_inference_error :: "ZenzInferenceError \<Rightarrow> ustr" where
  "show_inference_error (Message m) = m"
| "show_inference_error (ContextCapacity n c) =
     ascii ''inference requires '' @ show_nat n @ ascii '' tokens, exceeding context capacity '' @ show_nat c"

definition show_int :: "int \<Rightarrow> ustr" where
  "show_int i = (if i < 0 then 0x2D # show_nat (nat (- i)) else show_nat (nat i))"

datatype ZenzInferenceSequence = Evaluation | InputPrediction

record ZenzLanguageModel =
  vocabulary_size :: nat
  eos_token :: int
  tokenize :: "ustr \<Rightarrow> bool \<Rightarrow> ZenzInferenceError + int list"
  token_to_piece :: "int \<Rightarrow> ZenzInferenceError + byte list"
  next_logits :: "int list \<Rightarrow> ZenzInferenceError + f32 list"
  logits_for_suffix :: "int list \<Rightarrow> nat \<Rightarrow> ZenzInferenceSequence \<Rightarrow> ZenzInferenceError + f32 list"

text \<open>The implementation of \<open>logits_for_suffix\<close> the trait provides.\<close>

definition logits_row :: "nat \<Rightarrow> (int list \<Rightarrow> ZenzInferenceError + f32 list) \<Rightarrow> int list \<Rightarrow> nat \<Rightarrow> ZenzInferenceError + f32 list" where
  "logits_row vocabulary next tokens i =
     then_do (next (take (Suc i) tokens)) (\<lambda>row.
       if length row \<noteq> vocabulary
       then Inl (Message (ascii ''model returned '' @ show_nat (length row) @ ascii '' logits for a vocabulary of '' @ show_nat vocabulary))
       else Inr row)"

definition default_logits_for_suffix ::
  "nat \<Rightarrow> (int list \<Rightarrow> ZenzInferenceError + f32 list) \<Rightarrow> int list \<Rightarrow> nat \<Rightarrow> ZenzInferenceError + f32 list" where
  "default_logits_for_suffix vocabulary next tokens start_index =
     (if start_index \<ge> length tokens
      then Inl (Message (ascii ''logits start index '' @ show_nat start_index @ ascii '' is outside '' @
                 show_nat (length tokens) @ ascii '' input tokens''))
      else map_sum id concat (collect (map (logits_row vocabulary next tokens) [start_index..<length tokens])))"

definition tokenize_for_model :: "ZenzLanguageModel \<Rightarrow> ustr \<Rightarrow> bool \<Rightarrow> ZenzInferenceError + int list" where
  "tokenize_for_model lm v add_special = tokenize lm (normalize_for_model v) add_special"

type_synonym TokenProbabilityModel = "int list \<Rightarrow> nat \<Rightarrow> f32 list option"

record ZenzPersonalization =
  alpha :: f32
  base_model :: TokenProbabilityModel
  personal_model :: TokenProbabilityModel

record AlternativeConstraint =
  probability_ratio :: f32
  alt_bytes :: "byte list"

datatype CandidateEvaluation =
  Pass f32 "AlternativeConstraint list"
| FixRequired "byte list"
| WholeResult ustr

record ZenzEvaluationRequest =
  er_input :: ustr
  er_cursor_position :: "nat option"
  er_candidate :: Candidate
  er_rich :: bool
  er_constraint :: PrefixConstraint
  er_personalization :: "ZenzPersonalization option"
  er_version :: ZenzVersionConfig

section \<open>One token\<close>

definition personalized_logits ::
  "FloatFunctions \<Rightarrow> f32 list \<Rightarrow> int list \<Rightarrow> ZenzPersonalization option \<Rightarrow> f32 list option" where
  "personalized_logits fl logits candidate_prefix personalization =
     (case personalization of
        None \<Rightarrow> None
      | Some p \<Rightarrow>
          if \<not> f32_lt f32_zero (alpha p) \<or> candidate_prefix = [] then None
          else
            (case (base_model p candidate_prefix (length logits), personal_model p candidate_prefix (length logits)) of
               (Some b, Some q) \<Rightarrow>
                 if length b \<noteq> length logits \<or> length q \<noteq> length logits then None
                 else
                   Some (map (\<lambda>(l, b, q). f32_add l (f32_mul (alpha p)
                       (f32_sub (fl_ln fl (f32_add q 0x33D6BF95)) (fl_ln fl (f32_add b 0x33D6BF95)))))
                     (zip logits (zip b q)))
             | _ \<Rightarrow> None))"

text \<open>The logits a candidate is judged by.\<close>

definition evaluated_logits ::
  "FloatFunctions \<Rightarrow> ZenzPersonalization option \<Rightarrow> f32 list \<Rightarrow> int list \<Rightarrow> f32 list" where
  "evaluated_logits fl personalization row candidate_prefix =
     (case personalized_logits fl row candidate_prefix personalization of Some e \<Rightarrow> e | None \<Rightarrow> row)"

definition strict_argmax :: "f32 list \<Rightarrow> nat" where
  "strict_argmax logits = fold (\<lambda>i m. if f32_lt (logits ! m) (logits ! i) then i else m) [1..<length logits] 0"

definition learning_priority :: "segmenter \<Rightarrow> ustr \<Rightarrow> f32" where
  "learning_priority graphemes r =
     (let n = length (graphemes r)
      in if 1 \<le> n \<and> n \<le> 4 then f32_of_nat (n + 2) else if 5 \<le> n \<and> n \<le> 15 then f32_of_nat (n * 2) else 0x41F00000)"

definition is_learned :: "DictionaryEntry \<Rightarrow> bool" where
  "is_learned e = metadata_contains (metadata e) LEARNED"

definition word_priorities ::
  "FloatFunctions \<Rightarrow> segmenter \<Rightarrow> ZenzLanguageModel \<Rightarrow> DictionaryEntry \<Rightarrow> ZenzInferenceError + f32 list" where
  "word_priorities fl graphemes lm e =
     then_do (tokenize_for_model lm (word e) False) (\<lambda>ts.
       Inr (replicate (length ts) (if is_learned e then fl_ln fl (learning_priority graphemes (ruby e)) else f32_zero)))"

definition learned_token_priorities ::
  "FloatFunctions \<Rightarrow> segmenter \<Rightarrow> ZenzLanguageModel \<Rightarrow> DictionaryEntry list \<Rightarrow> nat \<Rightarrow> ZenzInferenceError + f32 list" where
  "learned_token_priorities fl graphemes lm es n =
     (if \<not> list_ex is_learned es then Inr []
      else
        then_do (collect (map (word_priorities fl graphemes lm) es)) (\<lambda>pss.
          Inr (take n (concat pss @ replicate (n - length (concat pss)) f32_zero))))"

text \<open>\<open>i32::try_from\<close> of an index into the vocabulary.\<close>

definition token_of_index :: "nat \<Rightarrow> ZenzInferenceError + int" where
  "token_of_index i = (if int i < 2 ^ 31 then Inr (int i) else Inl (Message (ascii ''vocabulary exceeds i32'')))"

text \<open>What a token that is not the most likely one means: the evaluation ends with a verdict, or the token is accepted.\<close>

definition token_verdict ::
  "ZenzLanguageModel \<Rightarrow> f32 list \<Rightarrow> f32 \<Rightarrow> nat \<Rightarrow> byte list \<Rightarrow> ZenzInferenceError + CandidateEvaluation option" where
  "token_verdict lm evaluated priority k so_far =
     (let m = strict_argmax evaluated
      in if m = k then Inr None
         else if token_of_index m = Inr (eos_token lm)
           then Inr (Some (WholeResult (case from_utf8 so_far of Some s \<Rightarrow> s | None \<Rightarrow> [])))
         else if f32_eq priority f32_zero \<or> f32_le (f32_add (evaluated ! k) priority) (evaluated ! m)
           then then_do (token_of_index m) (\<lambda>t. then_do (token_to_piece lm t) (\<lambda>b. Inr (Some (FixRequired (so_far @ b)))))
         else Inr None)"

text \<open>The next likely tokens, for rich candidates.\<close>

definition token_order :: "nat \<times> f32 \<Rightarrow> nat \<times> f32 \<Rightarrow> Ordering" where
  "token_order l r = then_with (total_cmp (snd r) (snd l)) (cmp (fst l) (fst r))"

definition token_alternatives ::
  "FloatFunctions \<Rightarrow> ZenzLanguageModel \<Rightarrow> f32 list \<Rightarrow> byte list \<Rightarrow> ZenzInferenceError + AlternativeConstraint list" where
  "token_alternatives fl lm evaluated so_far =
     (let m = strict_argmax evaluated
      in collect (map (\<lambda>(i, logit).
             then_do (token_of_index i) (\<lambda>t.
             then_do (token_to_piece lm t) (\<lambda>b.
               Inr \<lparr>probability_ratio = fl_exp fl (f32_sub logit (evaluated ! m)), alt_bytes = so_far @ b\<rparr>)))
           (filter (\<lambda>(i, logit). i \<noteq> m) (take 3 (sort_by token_order (enumerate 0 evaluated))))))"

section \<open>All tokens\<close>

definition best_alternatives :: "AlternativeConstraint list \<Rightarrow> AlternativeConstraint list" where
  "best_alternatives alts = take 5 (sort_by (\<lambda>l r. total_cmp (probability_ratio r) (probability_ratio l)) alts)"

text \<open>The loop: the score, the alternatives and the bytes so far.\<close>

fun evaluate_loop ::
  "FloatFunctions \<Rightarrow> ZenzLanguageModel \<Rightarrow> ZenzPersonalization option \<Rightarrow> bool \<Rightarrow> int list \<Rightarrow> f32 list \<Rightarrow> (nat \<Rightarrow> f32 list) \<Rightarrow>
   nat list \<Rightarrow> f32 \<times> AlternativeConstraint list \<times> byte list \<Rightarrow> ZenzInferenceError + CandidateEvaluation" where
  "evaluate_loop fl lm personalization rich tokens priorities row [] (score, alts, so_far) = Inr (Pass score (best_alternatives alts))"
| "evaluate_loop fl lm personalization rich tokens priorities row (i # is) (score, alts, so_far) =
     (let t = tokens ! i;
          evaluated = evaluated_logits fl personalization (row i) (take i tokens);
          m = strict_argmax evaluated
      in if t < 0 \<or> int (vocabulary_size lm) \<le> t
         then Inl (Message (ascii ''invalid candidate token '' @ show_int t))
         else
           then_do (token_verdict lm evaluated (if i < length priorities then priorities ! i else f32_zero) (nat t) so_far)
             (\<lambda>verdict. case verdict of
                Some v \<Rightarrow> Inr v
              | None \<Rightarrow>
                  then_do (if rich \<and> m = nat t then token_alternatives fl lm evaluated so_far else Inr []) (\<lambda>new.
                  then_do (token_to_piece lm t) (\<lambda>b.
                    evaluate_loop fl lm personalization rich tokens priorities row is
                      (f32_add score (evaluated ! m), alts @ new, so_far @ b)))))"

text \<open>The row of logits for a token, in the answer for all tokens that are not addressed.\<close>

definition logits_of_token :: "f32 list \<Rightarrow> nat \<Rightarrow> nat \<Rightarrow> nat \<Rightarrow> f32 list" where
  "logits_of_token logits vocabulary addressed i = take vocabulary (drop ((i - addressed) * vocabulary) logits)"

definition evaluate_candidate_tokens ::
  "FloatFunctions \<Rightarrow> segmenter \<Rightarrow> ZenzLanguageModel \<Rightarrow> ZenzEvaluationRequest \<Rightarrow> int list \<Rightarrow> ustr \<Rightarrow> nat \<Rightarrow>
   ZenzInferenceError + CandidateEvaluation" where
  "evaluate_candidate_tokens fl graphemes lm request prompt_tokens candidate_text addressed_token_count =
     then_do (tokenize_for_model lm candidate_text False) (\<lambda>tokens.
     then_do (learned_token_priorities fl graphemes lm (entries (er_candidate request)) (length tokens)) (\<lambda>priorities.
       (let addressed = min addressed_token_count (length tokens); vocabulary = vocabulary_size lm
        in then_do (collect (map (token_to_piece lm) (take addressed tokens))) (\<lambda>pieces.
             if tokens = [] then Inr (Pass f32_zero [])
             else if prompt_tokens = [] then Inl (Message (ascii ''candidate evaluation prompt produced no tokens''))
             else if addressed = length tokens then Inr (Pass f32_zero [])
             else
               then_do (logits_for_suffix lm (prompt_tokens @ butlast tokens) (length prompt_tokens - 1 + addressed) Evaluation)
                 (\<lambda>logits.
                   if int ((length tokens - addressed) * vocabulary) \<ge> 2 ^ 64
                   then Inl (Message (ascii ''candidate logits size overflow''))
                   else if length logits \<noteq> (length tokens - addressed) * vocabulary \<or> vocabulary = 0
                   then Inl (Message (ascii ''model returned '' @ show_nat (length logits) @ ascii '' logits for '' @
                              show_nat (length tokens) @ ascii '' candidate tokens and a vocabulary of '' @ show_nat vocabulary))
                   else
                     evaluate_loop fl lm (er_personalization request) (er_rich request) tokens priorities
                       (logits_of_token logits vocabulary addressed) [addressed..<length tokens] (f32_zero, [], concat pieces))))))"

end
