(* ===== verification/Zenz_Evaluator.thy ===== *)
theory Zenz_Evaluator
  imports Zenz
begin

text \<open>
  \<open>crates/converter/src/zenz.rs\<close>, the evaluator: its two caches, the candidates whose beginning is fixed by an accepted
  prediction, and the generation of further input. A panic (\<open>expect\<close>) is an error of its own. The position that a message about bytes
  outside of UTF-8 ends with is left out.
\<close>

section \<open>The caches\<close>

record 'v CacheEntry =
  ce_value :: 'v
  entry_access :: "64 word"

text \<open>The entries of the \<open>HashMap\<close> as a list without order; the least recently used is the first with the least index.\<close>

record ('k, 'v) LruCache =
  lru_capacity :: nat
  access_index :: "64 word"
  lru_entries :: "('k \<times> 'v CacheEntry) list"

definition new_lru :: "nat \<Rightarrow> ('k, 'v) LruCache" where
  "new_lru n = \<lparr>lru_capacity = max n 1, access_index = 0, lru_entries = []\<rparr>"

definition lru_get :: "'k \<Rightarrow> ('k, 'v) LruCache \<Rightarrow> 'v option \<times> ('k, 'v) LruCache" where
  "lru_get k c =
     (case map_of (lru_entries c) k of
        None \<Rightarrow> (None, c)
      | Some e \<Rightarrow>
          (Some (ce_value e),
           c\<lparr>access_index := access_index c + 1,
             lru_entries := map (\<lambda>(k', e'). (k', if k' = k then e'\<lparr>entry_access := access_index c + 1\<rparr> else e')) (lru_entries c)\<rparr>))"

fun least_recent :: "('k \<times> 'v CacheEntry) list \<Rightarrow> 'k option" where
  "least_recent [] = None"
| "least_recent ((k, e) # kvs) =
     (case least_recent kvs of
        None \<Rightarrow> Some k
      | Some k' \<Rightarrow>
          (case map_of kvs k' of
             Some e' \<Rightarrow> if entry_access e \<le> entry_access e' then Some k else Some k'
           | None \<Rightarrow> Some k))"

definition lru_insert :: "'k \<Rightarrow> 'v \<Rightarrow> ('k, 'v) LruCache \<Rightarrow> ('k, 'v) LruCache" where
  "lru_insert k v c =
     (let kept = (if map_of (lru_entries c) k = None \<and> length (lru_entries c) \<ge> lru_capacity c
                  then (case least_recent (lru_entries c) of
                          Some old \<Rightarrow> filter (\<lambda>(k', e). k' \<noteq> old) (lru_entries c)
                        | None \<Rightarrow> lru_entries c)
                  else lru_entries c)
      in c\<lparr>access_index := access_index c + 1,
           lru_entries := AList.update k \<lparr>ce_value = v, entry_access = access_index c + 1\<rparr> kept\<rparr>)"

section \<open>The evaluator\<close>

record CandidateSegment =
  cs_word :: ustr
  cs_ruby :: ustr
  cs_is_learned :: bool

record EvaluationCacheKey =
  ek_prompt :: ustr
  ek_candidate_text_for_evaluation :: ustr
  ek_original_candidate_text :: ustr
  ek_prefix_constraint :: PrefixConstraint
  ek_request_rich_candidates :: bool
  ek_reuses_addressed_prefix :: bool
  ek_candidate_segments :: "CandidateSegment list"

record ZenzEvaluator =
  evaluations :: "(EvaluationCacheKey, CandidateEvaluation) LruCache"
  prompt_tokens :: "(ustr, int list) LruCache"
  previous_evaluation_prompt :: ustr

definition default_evaluator :: ZenzEvaluator where
  "default_evaluator = \<lparr>evaluations = new_lru 256, prompt_tokens = new_lru 128, previous_evaluation_prompt = []\<rparr>"

definition user_dictionary_prompt :: "DictionaryEntry list \<Rightarrow> ustr" where
  "user_dictionary_prompt es =
     concat (map (\<lambda>e. word e @ [0x28] @ to_hiragana (ruby e) @ [0x29])
       (filter (\<lambda>e. metadata_contains (metadata e) USER_DICTIONARY) es))"

definition request_prompt :: "segmenter \<Rightarrow> ZenzEvaluationRequest \<Rightarrow> ustr" where
  "request_prompt graphemes request =
     candidate_evaluation graphemes (er_input request) (er_cursor_position request)
       (user_dictionary_prompt (entries (er_candidate request))) (er_version request)"

definition request_text :: "segmenter \<Rightarrow> ZenzEvaluationRequest \<Rightarrow> ustr" where
  "request_text graphemes request =
     candidate_text_for_evaluation graphemes (cand_text (er_candidate request)) (er_input request)
       (er_cursor_position request) (er_version request)"

definition evaluation_key :: "segmenter \<Rightarrow> bool \<Rightarrow> ZenzEvaluationRequest \<Rightarrow> EvaluationCacheKey" where
  "evaluation_key graphemes reuses request =
     \<lparr>ek_prompt = request_prompt graphemes request, ek_candidate_text_for_evaluation = request_text graphemes request,
      ek_original_candidate_text = cand_text (er_candidate request), ek_prefix_constraint = er_constraint request,
      ek_request_rich_candidates = er_rich request, ek_reuses_addressed_prefix = reuses,
      ek_candidate_segments =
        map (\<lambda>e. \<lparr>cs_word = word e, cs_ruby = ruby e, cs_is_learned = is_learned e\<rparr>) (entries (er_candidate request))\<rparr>"

text \<open>The loop over the graphemes of the candidate that the constraint already has.\<close>

fun addressed_prefix :: "byte list \<Rightarrow> grapheme list \<Rightarrow> ustr \<Rightarrow> ustr" where
  "addressed_prefix bytes [] so_far = so_far"
| "addressed_prefix bytes (g # gs) so_far =
     (if prefix (utf8 (so_far @ g)) bytes then addressed_prefix bytes gs (so_far @ g) else so_far)"

definition addressed_tokens ::
  "segmenter \<Rightarrow> ZenzLanguageModel \<Rightarrow> bool \<Rightarrow> ZenzEvaluationRequest \<Rightarrow> ZenzInferenceError + nat" where
  "addressed_tokens graphemes lm reuses request =
     (if \<not> reuses then Inr 0
      else
        (let p = addressed_prefix (pc_bytes (er_constraint request)) (graphemes (cand_text (er_candidate request))) []
         in if p = [] then Inr 0 else map_sum id length (tokenize_for_model lm p False)))"

definition cached_prompt_tokens ::
  "ZenzLanguageModel \<Rightarrow> ustr \<Rightarrow> (ustr, int list) LruCache \<Rightarrow> (ustr, int list) LruCache \<times> (ZenzInferenceError + int list)" where
  "cached_prompt_tokens lm prompt c =
     (case lru_get prompt c of
        (Some ts, c) \<Rightarrow> (c, Inr ts)
      | (None, c) \<Rightarrow>
          (case tokenize_for_model lm prompt True of Inl e \<Rightarrow> (c, Inl e) | Inr ts \<Rightarrow> (lru_insert prompt ts c, Inr ts)))"

definition evaluate_as_is ::
  "FloatFunctions \<Rightarrow> segmenter \<Rightarrow> ZenzLanguageModel \<Rightarrow> ZenzEvaluationRequest \<Rightarrow> ZenzEvaluator \<Rightarrow>
   ZenzEvaluator \<times> (ZenzInferenceError + CandidateEvaluation)" where
  "evaluate_as_is fl graphemes lm request ev =
     (let prompt = request_prompt graphemes request;
          normalized_prompt = normalize_for_model prompt;
          reuses = (previous_evaluation_prompt ev = normalized_prompt \<and> \<not> er_rich request);
          key = (if er_personalization request = None then Some (evaluation_key graphemes reuses request) else None);
          (cached, evs) = (case key of Some k \<Rightarrow> lru_get k (evaluations ev) | None \<Rightarrow> (None, evaluations ev));
          ev = ev\<lparr>previous_evaluation_prompt := normalized_prompt, evaluations := evs\<rparr>
      in case cached of
           Some r \<Rightarrow> (ev, Inr r)
         | None \<Rightarrow>
             (case cached_prompt_tokens lm prompt (prompt_tokens ev) of
                (pts, tokens) \<Rightarrow>
                  (let ev = ev\<lparr>prompt_tokens := pts\<rparr>
                   in case then_do tokens (\<lambda>ts. then_do (addressed_tokens graphemes lm reuses request) (\<lambda>n.
                             evaluate_candidate_tokens fl graphemes lm request ts (request_text graphemes request) n)) of
                        Inl e \<Rightarrow> (ev, Inl e)
                      | Inr r \<Rightarrow>
                          (case key of
                             Some k \<Rightarrow> ev\<lparr>evaluations := lru_insert k r (evaluations ev)\<rparr>
                           | None \<Rightarrow> ev, Inr r))))"

section \<open>A fixed beginning\<close>

datatype EvaluationError = InferenceFailed ZenzInferenceError | ExpectationFailed

fun inferred :: "ZenzInferenceError + 'a \<Rightarrow> EvaluationError + 'a" where
  "inferred (Inl e) = Inl (InferenceFailed e)"
| "inferred (Inr v) = Inr v"

definition drop_graphemes :: "segmenter \<Rightarrow> ustr \<Rightarrow> nat \<Rightarrow> ustr option" where
  "drop_graphemes graphemes v n = (if n \<le> length (graphemes v) then Some (concat (drop n (graphemes v))) else None)"

text \<open>\<open>str::get\<close> of the range from a byte: nothing when it is inside of a character.\<close>

fun get_from_byte :: "nat \<Rightarrow> ustr \<Rightarrow> ustr option" where
  "get_from_byte n s =
     (if n = 0 then Some s
      else
        (case s of
           [] \<Rightarrow> None
         | c # cs \<Rightarrow> if length (utf8_char c) \<le> n then get_from_byte (n - length (utf8_char c)) cs else None))"

declare get_from_byte.simps [simp del]

fun first_remaining :: "nat \<Rightarrow> nat \<Rightarrow> DictionaryEntry list \<Rightarrow> DictionaryEntry list" where
  "first_remaining byte_count covered [] = []"
| "first_remaining byte_count covered (e # es) =
     (if covered + length (utf8 (word e)) > byte_count then e # es
      else first_remaining byte_count (covered + length (utf8 (word e))) es)"

definition dropping_fixed_entries :: "DictionaryEntry list \<Rightarrow> nat \<Rightarrow> DictionaryEntry list" where
  "dropping_fixed_entries es byte_count = first_remaining byte_count 0 es"

fun prepend_fixed :: "byte list \<Rightarrow> ustr \<Rightarrow> CandidateEvaluation \<Rightarrow> CandidateEvaluation" where
  "prepend_fixed fixed fixed_text (Pass score alts) = Pass score (map (\<lambda>a. a\<lparr>alt_bytes := fixed @ alt_bytes a\<rparr>) alts)"
| "prepend_fixed fixed fixed_text (FixRequired bytes) = FixRequired (fixed @ bytes)"
| "prepend_fixed fixed fixed_text (WholeResult s) = WholeResult (fixed_text @ s)"

text \<open>The guard of \<open>evaluate\<close>: the fixed beginning is one of the candidate and of the input.\<close>

definition fixed_prefix_applies :: "segmenter \<Rightarrow> ZenzEvaluationRequest \<Rightarrow> FixedPrefix \<Rightarrow> bool" where
  "fixed_prefix_applies graphemes request f \<longleftrightarrow>
     \<not> (fp_byte_count f = 0 \<or> length (utf8 (cand_text (er_candidate request))) < fp_byte_count f \<or>
        length (pc_bytes (er_constraint request)) < fp_byte_count f \<or>
        \<not> prefix (take (fp_byte_count f) (pc_bytes (er_constraint request))) (utf8 (cand_text (er_candidate request))) \<or>
        length (graphemes (er_input request)) < fp_ruby_count f \<or>
        (case er_cursor_position request of Some p \<Rightarrow> p < fp_ruby_count f | None \<Rightarrow> False))"

definition remaining_request ::
  "ZenzEvaluationRequest \<Rightarrow> FixedPrefix \<Rightarrow> ustr \<Rightarrow> ustr \<Rightarrow> ustr \<Rightarrow> ZenzEvaluationRequest" where
  "remaining_request request f fixed_text remaining_input remaining_text =
     request\<lparr>er_input := remaining_input,
             er_cursor_position := map_option (\<lambda>p. p - fp_ruby_count f) (er_cursor_position request),
             er_candidate := (er_candidate request)\<lparr>cand_text := remaining_text,
               entries := dropping_fixed_entries (entries (er_candidate request)) (fp_byte_count f)\<rparr>,
             er_constraint := (er_constraint request)\<lparr>pc_bytes := drop (fp_byte_count f) (pc_bytes (er_constraint request)),
               fixed_prefix := None\<rparr>,
             er_version := appending_left_context (er_version request) fixed_text\<rparr>"

definition evaluate ::
  "FloatFunctions \<Rightarrow> segmenter \<Rightarrow> ZenzLanguageModel \<Rightarrow> ZenzEvaluationRequest \<Rightarrow> ZenzEvaluator \<Rightarrow>
   ZenzEvaluator \<times> (EvaluationError + CandidateEvaluation)" where
  "evaluate fl graphemes lm request ev =
     (let as_is = map_prod id inferred (evaluate_as_is fl graphemes lm request ev)
      in case fixed_prefix (er_constraint request) of
           None \<Rightarrow> as_is
         | Some f \<Rightarrow>
             if \<not> fixed_prefix_applies graphemes request f then as_is
             else
               (let fixed = take (fp_byte_count f) (pc_bytes (er_constraint request))
                in case from_utf8 fixed of
                     None \<Rightarrow> (ev, Inl (InferenceFailed (Message (ascii ''fixed prefix is not UTF-8''))))
                   | Some fixed_text \<Rightarrow>
                       (case (drop_graphemes graphemes (er_input request) (fp_ruby_count f),
                              get_from_byte (fp_byte_count f) (cand_text (er_candidate request))) of
                          (Some remaining_input, Some remaining_text) \<Rightarrow>
                            (case evaluate_as_is fl graphemes lm
                                    (remaining_request request f fixed_text remaining_input remaining_text) ev of
                               (ev, Inl e) \<Rightarrow> (ev, Inl (InferenceFailed e))
                             | (ev, Inr r) \<Rightarrow> (ev, Inr (prepend_fixed fixed fixed_text r)))
                        | _ \<Rightarrow> (ev, Inl ExpectationFailed))))"

text \<open>\<open>evaluate_candidate\<close>: an evaluator of its own.\<close>

definition evaluate_candidate ::
  "FloatFunctions \<Rightarrow> segmenter \<Rightarrow> ZenzLanguageModel \<Rightarrow> ZenzEvaluationRequest \<Rightarrow> EvaluationError + CandidateEvaluation" where
  "evaluate_candidate fl graphemes lm request = snd (evaluate fl graphemes lm request default_evaluator)"

section \<open>Generating input\<close>

record ZenzInputGenerationRequest =
  gr_left_context :: ustr
  gr_composing_text :: ustr
  gr_count :: nat
  gr_min_length :: nat
  gr_max_entropy :: "f32 option"
  gr_version :: ZenzVersionConfig
  gr_possible_nexts :: "ustr list"

definition is_allowed :: "ustr list \<Rightarrow> ustr \<Rightarrow> bool" where
  "is_allowed nexts v \<longleftrightarrow>
     (let allowed = filter (\<lambda>p. p \<noteq> []) nexts
      in allowed = [] \<or> list_ex (\<lambda>p. prefix (to_katakana v) p) allowed)"

definition token_penalty :: "int list \<Rightarrow> int \<Rightarrow> f32" where
  "token_penalty tokens t =
     fold (\<lambda>(i, u) p. if u = t then f32_add p (f32_div 0x40000000 (f32_of_nat (length tokens - i))) else p)
       (enumerate 0 tokens) f32_zero"

record TokenScan =
  sum_exp :: f32
  sum_exp_value :: f32
  best_value :: f32
  best_character :: "ustr option"

text \<open>One token of the vocabulary; \<open>best_next_text\<close> is the text so far with \<open>best_character\<close>.\<close>

definition scan_token ::
  "FloatFunctions \<Rightarrow> segmenter \<Rightarrow> ZenzLanguageModel \<Rightarrow> ustr list \<Rightarrow> int list \<Rightarrow> ustr \<Rightarrow> nat \<times> f32 \<Rightarrow> TokenScan \<Rightarrow>
   ZenzInferenceError + TokenScan" where
  "scan_token fl graphemes lm nexts tokens predicted x sc =
     then_do (token_of_index (fst x)) (\<lambda>t.
       (let v = f32_div (snd x) (f32_add 0x3F800000 (token_penalty tokens t));
            e = fl_exp fl v;
            sc = sc\<lparr>sum_exp := f32_add (sum_exp sc) e, sum_exp_value := f32_add (sum_exp_value sc) (f32_mul e v)\<rparr>
        in if f32_le v (best_value sc) then Inr sc
           else
             then_do (token_to_piece lm t) (\<lambda>bytes.
               case from_utf8 bytes of
                 None \<Rightarrow> Inr sc
               | Some s \<Rightarrow>
                   (case graphemes s of
                      [] \<Rightarrow> Inr sc
                    | g # gs \<Rightarrow>
                        if is_allowed nexts (predicted @ g)
                        then Inr (sc\<lparr>best_value := v, best_character := Some g\<rparr>) else Inr sc))))"

definition ends_by_entropy :: "FloatFunctions \<Rightarrow> f32 option \<Rightarrow> TokenScan \<Rightarrow> bool" where
  "ends_by_entropy fl max_entropy sc \<longleftrightarrow>
     (case max_entropy of
        None \<Rightarrow> False
      | Some m \<Rightarrow>
          f32_lt f32_zero (sum_exp sc) \<and>
          f32_ge (f32_sub (fl_ln fl (sum_exp sc)) (f32_div (sum_exp_value sc) (sum_exp sc))) m)"

definition sentence_ends :: "ustr set" where
  "sentence_ends = {[0x3001], [0x3002], [0xFF01], [0xFF1F]}"

text \<open>The loop; the first argument is the number of turns left.\<close>

fun generate_loop ::
  "nat \<Rightarrow> FloatFunctions \<Rightarrow> segmenter \<Rightarrow> ZenzLanguageModel \<Rightarrow> ZenzInputGenerationRequest \<Rightarrow> nat \<Rightarrow> int list \<Rightarrow> ustr \<Rightarrow> nat \<Rightarrow>
   ZenzInferenceError + ustr" where
  "generate_loop 0 fl graphemes lm request min_length tokens predicted n = Inr predicted"
| "generate_loop (Suc k) fl graphemes lm request min_length tokens predicted n =
     then_do (next_logits lm tokens) (\<lambda>logits.
       if length logits \<noteq> vocabulary_size lm \<or> logits = []
       then Inl (Message (ascii ''model returned '' @ show_nat (length logits) @ ascii '' logits for a vocabulary of '' @
                  show_nat (vocabulary_size lm)))
       else
         then_do (fold_result (scan_token fl graphemes lm (gr_possible_nexts request) tokens predicted) (enumerate 0 logits)
                    \<lparr>sum_exp = f32_zero, sum_exp_value = f32_zero, best_value = 0xFF800000, best_character = None\<rparr>)
           (\<lambda>sc.
             if n \<ge> min_length \<and> ends_by_entropy fl (gr_max_entropy request) sc then Inr predicted
             else
               (case best_character sc of
                  None \<Rightarrow> Inr predicted
                | Some g \<Rightarrow>
                    if g \<in> sentence_ends \<and> n \<ge> min_length then Inr predicted
                    else
                      then_do (tokenize_for_model lm g False) (\<lambda>appended.
                        if appended = [] then Inr (predicted @ g)
                        else generate_loop k fl graphemes lm request min_length (tokens @ appended) (predicted @ g) (Suc n)))))"

definition generate_next_input ::
  "FloatFunctions \<Rightarrow> segmenter \<Rightarrow> ZenzLanguageModel \<Rightarrow> ZenzInputGenerationRequest \<Rightarrow> ZenzInferenceError + ustr" where
  "generate_next_input fl graphemes lm request =
     (if gr_count request = 0 then Inr []
      else
        (case input_prediction_prompt graphemes (gr_left_context request) (gr_composing_text request) (gr_version request) of
           None \<Rightarrow> Inr []
         | Some prompt \<Rightarrow>
             then_do (tokenize_for_model lm prompt True) (\<lambda>tokens.
               generate_loop (gr_count request) fl graphemes lm request (max 1 (min (gr_min_length request) (gr_count request)))
                 tokens [] 0)))"

end
