(* ===== verification/Neural.thy ===== *)
theory Neural
  imports Zenz_Evaluator
begin

text \<open>
  The neural conversion: \<open>crates/daemon/src/zenz.rs\<close>, which lets the model review the drafts of the lattice, and the
  operations of \<open>crates/converter/src/session.rs\<close> it calls. The converter is the one that has the learning memory of the
  session. The handle of the model and its bindings only pass calls on.
\<close>

section \<open>Drafts of a session\<close>

definition constrain_zenz_prefix :: "segmenter \<Rightarrow> PrefixConstraint \<Rightarrow> ConversionSession \<Rightarrow> PrefixConstraint" where
  "constrain_zenz_prefix graphemes k s =
     (case accepted_prediction s of
        None \<Rightarrow> k
      | Some c \<Rightarrow>
          (let bytes = utf8 (candidate_dictionary_text c);
               k = (if prefix bytes (pc_bytes k) then k else new_constraint bytes)
           in k\<lparr>fixed_prefix := Some \<lparr>fp_byte_count = length bytes, fp_ruby_count = length (graphemes (candidate_reading c))\<rparr>\<rparr>))"

definition request_zenz_draft ::
  "Converter \<Rightarrow> InputTableRegistry \<Rightarrow> nat \<Rightarrow> PrefixConstraint \<Rightarrow> ConversionSession \<Rightarrow>
   ConversionSession \<times> (ConvertError + Candidate list)" where
  "request_zenz_draft cv tables n k s =
     (let k = constrain_zenz_prefix (cv_graphemes cv) k s
      in case (if is_empty_constraint k
               then convert_with_entries cv tables n (conv_context s) (additional_dictionary s) (composing s)
               else convert_with_entries_and_prefix_constraint cv tables n (conv_context s) (additional_dictionary s) k (composing s)) of
           Inl e \<Rightarrow> (s, Inl e)
         | Inr cs \<Rightarrow> (s\<lparr>candidates := cs\<rparr>, Inr cs))"

definition set_zenz_candidates :: "Candidate list \<Rightarrow> ConversionSession \<Rightarrow> ConversionSession" where
  "set_zenz_candidates cs s = s\<lparr>candidates := cs\<rparr>"

section \<open>The cache of a conversion\<close>

record ZenzConversionCache =
  cc_input :: ustr
  cc_constraint :: PrefixConstraint
  satisfying_candidate :: "Candidate option"
  evaluated_satisfying_candidate :: "Candidate option"

definition empty_zenz_cache :: ZenzConversionCache where
  "empty_zenz_cache =
     \<lparr>cc_input = [], cc_constraint = no_constraint, satisfying_candidate = None, evaluated_satisfying_candidate = None\<rparr>"

text \<open>The words of a candidate for as much of the input as their readings cover.\<close>

fun covered_bytes :: "ustr \<Rightarrow> DictionaryEntry list \<Rightarrow> byte list" where
  "covered_bytes remaining [] = []"
| "covered_bytes remaining (e # es) =
     (case strip_prefix (ruby e) remaining of None \<Rightarrow> [] | Some next \<Rightarrow> utf8 (word e) @ covered_bytes next es)"

definition constraint_for :: "ZenzConversionCache \<Rightarrow> ustr \<Rightarrow> PrefixConstraint" where
  "constraint_for cache v =
     (case satisfying_candidate cache of
        Some c \<Rightarrow> new_constraint (covered_bytes v (entries c))
      | None \<Rightarrow>
          if prefix (cc_input cache) v
          then no_constraint\<lparr>pc_bytes := pc_bytes (cc_constraint cache),
                 ignore_memory_and_user_dictionary := ignore_memory_and_user_dictionary (cc_constraint cache)\<rparr>
          else no_constraint)"

section \<open>Judging drafts\<close>

definition best_candidate :: "Candidate list \<Rightarrow> (nat \<times> Candidate) option" where
  "best_candidate cs = max_by (\<lambda>l r. total_cmp (cand_value (snd l)) (cand_value (snd r))) (enumerate 0 cs)"

definition heuristic_retry_validation :: "Candidate \<Rightarrow> bool" where
  "heuristic_retry_validation c \<longleftrightarrow> \<not> list_ex (\<lambda>x. x = 0x3099 \<or> x = 0x309A) (cand_text c)"

definition candidate_satisfies :: "Candidate \<Rightarrow> PrefixConstraint \<Rightarrow> bool" where
  "candidate_satisfies c k \<longleftrightarrow>
     (if has_eos k then utf8 (cand_text c) = pc_bytes k else prefix (pc_bytes k) (utf8 (cand_text c)))"

definition candidate_uses_personal_dictionary :: "Candidate \<Rightarrow> bool" where
  "candidate_uses_personal_dictionary c \<longleftrightarrow>
     list_ex (\<lambda>e. metadata_contains (metadata e) LEARNED \<or> metadata_contains (metadata e) USER_DICTIONARY) (entries c)"

definition retry_candidate :: "Candidate list \<Rightarrow> nat \<Rightarrow> PrefixConstraint \<Rightarrow> nat option" where
  "retry_candidate cs current k =
     find (\<lambda>i. i \<noteq> current \<and> candidate_satisfies (cs ! i) k \<and> heuristic_retry_validation (cs ! i)) [0..<length cs]"

datatype ReviewAction = Fail | Retry nat | Research

definition retry_or_research :: "nat option \<Rightarrow> ReviewAction" where
  "retry_or_research i = (case i of Some i \<Rightarrow> Retry i | None \<Rightarrow> Research)"

text \<open>The constraint after the rejection, and what to do.\<close>

definition review_rejection ::
  "PrefixConstraint \<Rightarrow> PrefixConstraint \<Rightarrow> Candidate list \<Rightarrow> nat \<Rightarrow> Candidate \<Rightarrow> PrefixConstraint \<times> ReviewAction" where
  "review_rejection k next cs current c =
     (if k = next then
        (if \<not> ignore_memory_and_user_dictionary k \<and> candidate_uses_personal_dictionary c
         then (k\<lparr>ignore_memory_and_user_dictionary := True\<rparr>, retry_or_research (retry_candidate cs current next))
         else (k, Fail))
      else
        (next,
         if prefix (pc_bytes k) (pc_bytes next) then retry_or_research (retry_candidate cs current next) else Research))"

section \<open>The conversion\<close>

record ZenzConversionOptions =
  zo_version :: ZenzVersionConfig
  zo_rich :: bool
  zo_inference_limit :: nat
  zo_personalization :: "ZenzPersonalization option"

datatype ZenzConversionError = DictionaryFailed ConvertError | InferenceError EvaluationError

text \<open>What stays the same during a conversion.\<close>

record NeuralCall =
  nc_floats :: FloatFunctions
  nc_converter :: Converter
  nc_tables :: InputTableRegistry
  nc_model :: ZenzLanguageModel
  nc_options :: ZenzConversionOptions
  nc_lattice_input :: ustr
  nc_model_input :: ustr
  nc_cursor_position :: nat
  nc_defers :: bool
  nc_cache :: ZenzConversionCache

text \<open>The variables of the loop.\<close>

record Review =
  rv_session :: ConversionSession
  rv_evaluator :: ZenzEvaluator
  rv_constraint :: PrefixConstraint
  rv_constructed :: "Candidate list"
  rv_inserted :: "Candidate list"
  rv_draft :: "Candidate list"
  rv_index :: nat
  rv_candidate :: Candidate

type_synonym neural_result =
  "ConversionSession \<times> ZenzEvaluator \<times> ZenzConversionCache \<times> (ZenzConversionError + Candidate option)"

definition updated_cache ::
  "NeuralCall \<Rightarrow> PrefixConstraint \<Rightarrow> Candidate option \<Rightarrow> Candidate option \<Rightarrow> ZenzConversionCache" where
  "updated_cache nc k satisfying evaluated =
     \<lparr>cc_input = nc_lattice_input nc, cc_constraint = k, satisfying_candidate = satisfying,
      evaluated_satisfying_candidate = evaluated\<rparr>"

definition finish_review ::
  "NeuralCall \<Rightarrow> Review \<Rightarrow> PrefixConstraint \<Rightarrow> Candidate option \<Rightarrow> Candidate option \<Rightarrow> Candidate option \<Rightarrow> neural_result" where
  "finish_review nc rv k satisfying evaluated answer =
     (set_zenz_candidates (rv_inserted rv) (rv_session rv), rv_evaluator rv, updated_cache nc k satisfying evaluated, Inr answer)"

text \<open>The head of the outer loop: a draft for the constraint, or the end of the conversion.\<close>

definition start_search :: "NeuralCall \<Rightarrow> Review \<Rightarrow> neural_result + Review" where
  "start_search nc rv =
     (let k = rv_constraint rv;
          n = (if is_empty_constraint k then 2 else if zo_rich (nc_options nc) then 3 else 1)
      in case request_zenz_draft (nc_converter nc) (nc_tables nc) n k (rv_session rv) of
           (s, Inl e) \<Rightarrow> Inl (s, rv_evaluator rv, nc_cache nc, Inl (DictionaryFailed e))
         | (s, Inr draft) \<Rightarrow>
             (let rv = rv\<lparr>rv_session := s, rv_constructed := rv_constructed rv @ draft, rv_draft := draft\<rparr>
              in case best_candidate draft of
                   None \<Rightarrow> Inl (finish_review nc rv no_constraint None None None)
                 | Some (i, c) \<Rightarrow> Inr (rv\<lparr>rv_index := i, rv_candidate := c\<rparr>)))"

definition insert_at_one :: "'a \<Rightarrow> 'a list \<Rightarrow> 'a list" where
  "insert_at_one x xs = take 1 xs @ x # drop 1 xs"

text \<open>\<open>insert_rich_candidates\<close>: the session, the candidates, and the error of a draft.\<close>

fun insert_rich_candidates ::
  "Converter \<Rightarrow> InputTableRegistry \<Rightarrow> Candidate list \<Rightarrow> AlternativeConstraint list \<Rightarrow> ConversionSession \<Rightarrow> Candidate list \<Rightarrow>
   ConversionSession \<times> Candidate list \<times> ConvertError option" where
  "insert_rich_candidates cv tables constructed [] s inserted = (s, inserted, None)"
| "insert_rich_candidates cv tables constructed (a # alts) s inserted =
     (if \<not> f32_lt 0x3E800000 (probability_ratio a) then insert_rich_candidates cv tables constructed alts s inserted
      else
        (let k = normalized (alt_bytes a) False False
         in case max_by (\<lambda>l r. total_cmp (cand_value l) (cand_value r)) (filter (\<lambda>c. candidate_satisfies c k) constructed) of
              Some c \<Rightarrow> insert_rich_candidates cv tables constructed alts s (insert_at_one c inserted)
            | None \<Rightarrow>
                if \<not> f32_lt 0x3F000000 (probability_ratio a) then insert_rich_candidates cv tables constructed alts s inserted
                else
                  (case request_zenz_draft cv tables 3 k s of
                     (s, Inl e) \<Rightarrow> (s, inserted, Some e)
                   | (s, Inr draft) \<Rightarrow>
                       insert_rich_candidates cv tables constructed alts s
                         (case best_candidate draft of Some (i, c) \<Rightarrow> insert_at_one c inserted | None \<Rightarrow> inserted))))"

definition evaluation_request :: "NeuralCall \<Rightarrow> Review \<Rightarrow> ZenzEvaluationRequest" where
  "evaluation_request nc rv =
     \<lparr>er_input = nc_model_input nc, er_cursor_position = Some (nc_cursor_position nc), er_candidate = rv_candidate rv,
      er_rich = zo_rich (nc_options nc), er_constraint = rv_constraint rv,
      er_personalization = zo_personalization (nc_options nc), er_version = zo_version (nc_options nc)\<rparr>"

definition accept_candidate :: "NeuralCall \<Rightarrow> Review \<Rightarrow> AlternativeConstraint list \<Rightarrow> neural_result" where
  "accept_candidate nc rv alts =
     (case (if zo_rich (nc_options nc)
            then insert_rich_candidates (nc_converter nc) (nc_tables nc) (rv_constructed rv) (rev alts) (rv_session rv) (rv_inserted rv)
            else (rv_session rv, rv_inserted rv, None)) of
        (s, inserted, Some e) \<Rightarrow> (s, rv_evaluator rv, nc_cache nc, Inl (DictionaryFailed e))
      | (s, inserted, None) \<Rightarrow>
          finish_review nc (rv\<lparr>rv_session := s, rv_inserted := inserted\<rparr>) (rv_constraint rv) (Some (rv_candidate rv))
            (Some (rv_candidate rv)) (Some (rv_candidate rv)))"

text \<open>What a rejected candidate leads to: the end, another candidate of the draft, or a new search.\<close>

definition next_constraint :: "Review \<Rightarrow> byte list \<Rightarrow> bool \<Rightarrow> PrefixConstraint" where
  "next_constraint rv bytes ends =
     (normalized bytes ends (ignore_memory_and_user_dictionary (rv_constraint rv)))
       \<lparr>fixed_prefix := fixed_prefix (rv_constraint rv)\<rparr>"

definition reject_candidate :: "NeuralCall \<Rightarrow> Review \<Rightarrow> PrefixConstraint \<Rightarrow> neural_result + Review" where
  "reject_candidate nc rv next =
     (case review_rejection (rv_constraint rv) next (rv_draft rv) (rv_index rv) (rv_candidate rv) of
        (k, Fail) \<Rightarrow> Inl (finish_review nc rv no_constraint None None None)
      | (k, Retry i) \<Rightarrow> Inr (rv\<lparr>rv_constraint := k, rv_index := i, rv_candidate := rv_draft rv ! i\<rparr>)
      | (k, Research) \<Rightarrow> start_search nc (rv\<lparr>rv_constraint := k\<rparr>))"

text \<open>The review of a candidate with the number of inferences that remain.\<close>

fun review_loop :: "nat \<Rightarrow> NeuralCall \<Rightarrow> Review \<Rightarrow> neural_result" where
  "review_loop remaining nc rv =
     (let rv = rv\<lparr>rv_inserted := rv_candidate rv # rv_inserted rv\<rparr>
      in case remaining of
           0 \<Rightarrow> finish_review nc rv (rv_constraint rv) (Some (rv_candidate rv)) None None
         | Suc k \<Rightarrow>
             if nc_defers nc
             then (let evaluated = (if is_empty_constraint (rv_constraint rv) then None
                                    else evaluated_satisfying_candidate (nc_cache nc))
                   in finish_review nc rv (rv_constraint rv) evaluated evaluated None)
             else
               (case evaluate (nc_floats nc) (cv_graphemes (nc_converter nc)) (nc_model nc) (evaluation_request nc rv) (rv_evaluator rv) of
                  (ev, Inl e) \<Rightarrow> (rv_session rv, ev, nc_cache nc, Inl (InferenceError e))
                | (ev, Inr verdict) \<Rightarrow>
                    (let rv = rv\<lparr>rv_evaluator := ev\<rparr>
                     in case verdict of
                          Pass total_score alts \<Rightarrow> accept_candidate nc rv alts
                        | FixRequired bytes \<Rightarrow>
                            (case reject_candidate nc rv (next_constraint rv bytes False) of
                               Inl r \<Rightarrow> r | Inr rv \<Rightarrow> review_loop k nc rv)
                        | WholeResult s \<Rightarrow>
                            (case reject_candidate nc rv (next_constraint rv (utf8 s) True) of
                               Inl r \<Rightarrow> r | Inr rv \<Rightarrow> review_loop k nc rv))))"

declare review_loop.simps [simp del]

definition neural_call ::
  "FloatFunctions \<Rightarrow> Converter \<Rightarrow> InputTableRegistry \<Rightarrow> ZenzLanguageModel \<Rightarrow> ZenzConversionOptions \<Rightarrow> ZenzConversionCache \<Rightarrow>
   ConversionSession \<Rightarrow> NeuralCall" where
  "neural_call fl cv tables lm options cache s =
     \<lparr>nc_floats = fl, nc_converter = cv, nc_tables = tables, nc_model = lm, nc_options = options,
      nc_lattice_input = to_katakana (surface_text (composing s)),
      nc_model_input = to_katakana (surface_text (zenz_model_composing s)),
      nc_cursor_position = cursor (zenz_model_composing s),
      nc_defers = (\<not> zo_rich options \<and> zo_personalization options = None \<and> pending_zenz_suffix_count tables s > 0),
      nc_cache = cache\<rparr>"

definition zenz_convert ::
  "FloatFunctions \<Rightarrow> Converter \<Rightarrow> InputTableRegistry \<Rightarrow> ZenzLanguageModel \<Rightarrow> ZenzConversionOptions \<Rightarrow> ConversionSession \<Rightarrow>
   ZenzEvaluator \<Rightarrow> ZenzConversionCache \<Rightarrow> neural_result" where
  "zenz_convert fl cv tables lm options s ev cache =
     (let nc = neural_call fl cv tables lm options cache s;
          rv = \<lparr>rv_session = s, rv_evaluator = ev,
                rv_constraint = constrain_zenz_prefix (cv_graphemes cv) (constraint_for cache (nc_lattice_input nc)) s,
                rv_constructed = [], rv_inserted = [], rv_draft = [], rv_index = 0,
                rv_candidate = single (cv_graphemes cv) [] f32_zero (InputCount 0) 0 []\<rparr>
      in case start_search nc rv of Inl r \<Rightarrow> r | Inr rv \<Rightarrow> review_loop (zo_inference_limit options) nc rv)"

section \<open>Predicting input\<close>

definition remaining_prediction :: "segmenter \<Rightarrow> ZenzPredictionCache \<Rightarrow> ComposingText \<Rightarrow> nat \<Rightarrow> ustr option" where
  "remaining_prediction graphemes cache c n =
     (if n = 0 then None
      else
        (let original = graphemes (zc_original_surface cache);
             base = concat (take (length original - zc_suffix_count cache) original);
             predicted_insert =
               (if zc_input_style cache = RomanToKana then to_hiragana (zc_predicted_text cache) else zc_predicted_text cache)
         in case strip_prefix base (surface_text c) of
              None \<Rightarrow> None
            | Some current \<Rightarrow>
                if \<not> prefix current predicted_insert then None
                else
                  (let remaining = concat (take n (drop (length (graphemes current)) (graphemes (zc_predicted_text cache))))
                   in if remaining = [] then None else Some remaining)))"

definition last_input_style :: "ComposingText \<Rightarrow> InputStyle" where
  "last_input_style c = (if input c = [] then Direct else input_style (last (input c)))"

text \<open>The cached prediction, if it was made for the same circumstances and still continues the text.\<close>

definition cached_prediction ::
  "segmenter \<Rightarrow> ZenzVersionConfig \<Rightarrow> ustr \<Rightarrow> nat \<Rightarrow> ConversionSession \<Rightarrow> ustr option" where
  "cached_prediction graphemes version left_context n s =
     (case zenz_prediction_cache s of
        None \<Rightarrow> None
      | Some cache \<Rightarrow>
          if zc_left_context cache = left_context \<and> zc_version cache = version \<and>
             zc_input_style cache = last_input_style (composing s)
          then remaining_prediction graphemes cache (composing s) n else None)"

definition predict_next_input_text ::
  "FloatFunctions \<Rightarrow> segmenter \<Rightarrow> InputTableRegistry \<Rightarrow> ZenzLanguageModel \<Rightarrow> ZenzVersionConfig \<Rightarrow> ustr \<Rightarrow> nat \<Rightarrow> f32 option \<Rightarrow>
   ConversionSession \<Rightarrow> ConversionSession \<times> (ZenzInferenceError + ustr \<times> nat)" where
  "predict_next_input_text fl graphemes tables lm version left_context n max_entropy s =
     (case cached_prediction graphemes version left_context n s of
        Some p \<Rightarrow> (s, Inr (p, 0))
      | None \<Rightarrow>
          (let source = predictive_input_source (composing s) tables
           in case generate_next_input fl graphemes lm
                     \<lparr>gr_left_context = left_context, gr_composing_text = base_surface source, gr_count = n, gr_min_length = 1,
                      gr_max_entropy = max_entropy, gr_version = version, gr_possible_nexts = possible_nexts_of source\<rparr> of
                Inl e \<Rightarrow> (s, Inl e)
              | Inr predicted \<Rightarrow>
                  (s\<lparr>zenz_prediction_cache :=
                       (if predicted = [] then None
                        else Some \<lparr>zc_left_context = left_context, zc_version = version,
                               zc_input_style = last_input_style (composing s), zc_original_surface = surface_text (composing s),
                               zc_suffix_count = dropped_suffix_count source, zc_predicted_text = predicted\<rparr>)\<rparr>,
                   Inr (predicted, dropped_suffix_count source))))"

text \<open>The errors of the dictionary come as they are shown, like everywhere in \<open>Session\<close>.\<close>

datatype ZenzPredictionError = PredictionDictionary ustr | PredictionInference EvaluationError

text \<open>\<open>request_zenz_prediction\<close>; the evaluation of the predicted text is a function on the session and a state of its own.\<close>

definition predicted_session ::
  "segmenter \<Rightarrow> InputTableRegistry \<Rightarrow> ustr \<Rightarrow> nat \<Rightarrow> ConversionSession \<Rightarrow> ConversionSession" where
  "predicted_session graphemes tables predicted suffix_count s =
     (let style = last_input_style (composing s);
          inserted = (if style = RomanToKana then to_hiragana predicted else predicted);
          c = (if suffix_count > 0 then delete_backward tables suffix_count (composing s) else composing s)
      in s\<lparr>composing := insert_str graphemes tables inserted style c, full_composing := None, candidates := []\<rparr>)"

definition request_zenz_prediction ::
  "'m Services \<Rightarrow> FloatFunctions \<Rightarrow> InputTableRegistry \<Rightarrow> ZenzLanguageModel \<Rightarrow> ZenzVersionConfig \<Rightarrow> ustr \<Rightarrow>
   (ConversionSession \<Rightarrow> 'w \<Rightarrow> ConversionSession \<times> 'w \<times> ZenzPredictionError option) \<Rightarrow> 'm \<Rightarrow> 'w \<Rightarrow> ConversionSession \<Rightarrow>
   ConversionSession \<times> 'w \<times> (ZenzPredictionError + Candidate list)" where
  "request_zenz_prediction sv fl tables lm version left_context evaluate_prediction mem w s =
     (case predictions sv tables 5 (additional_dictionary s) (map_option candidate_dictionary_text (accepted_prediction s)) mem s of
        (s, Inl e) \<Rightarrow> (s, w, Inl (PredictionDictionary e))
      | (s, Inr ps) \<Rightarrow>
          if ps \<noteq> [] then (s, w, Inr ps)
          else
            (case predict_next_input_text fl (sv_graphemes sv) tables lm version left_context 10 (Some 0x40400000) s of
               (s, Inl e) \<Rightarrow> (s, w, Inl (PredictionInference (InferenceFailed e)))
             | (s, Inr (predicted, suffix_count)) \<Rightarrow>
                 if predicted = [] then (s, w, Inr [])
                 else
                   (case evaluate_prediction (predicted_session (sv_graphemes sv) tables predicted suffix_count s) w of
                      (ps, w, Some e) \<Rightarrow> (s, w, Inl e)
                    | (ps, w, None) \<Rightarrow>
                        (s, w, Inr (map (\<lambda>c. c\<lparr>composing_count := SurfaceCount (length (surface (composing s)))\<rparr>) (candidates ps))))))"

end
