(* ===== verification/Zenz_Cache.thy ===== *)
theory Zenz_Cache
  imports Zenz_Evaluator
begin

text \<open>
  The caches of the evaluator are not observable: whatever it was asked before, it answers as one without them. They also
  never grow over their capacities.
\<close>

section \<open>The caches\<close>

definition lru_all :: "('k \<Rightarrow> 'v \<Rightarrow> bool) \<Rightarrow> ('k, 'v) LruCache \<Rightarrow> bool" where
  "lru_all P c \<longleftrightarrow> (\<forall>(k, e) \<in> set (lru_entries c). P k (ce_value e))"

definition lru_ok :: "('k, 'v) LruCache \<Rightarrow> bool" where
  "lru_ok c \<longleftrightarrow> distinct (map fst (lru_entries c)) \<and> length (lru_entries c) \<le> lru_capacity c \<and> 0 < lru_capacity c"

lemma new_lru_ok [simp]: "lru_ok (new_lru n)" "lru_all P (new_lru n)" "lru_capacity (new_lru n) = max n 1"
  by (simp_all add: new_lru_def lru_ok_def lru_all_def)

lemma lru_get_None: "lru_get k c = (None, c') \<Longrightarrow> c' = c \<and> k \<notin> fst ` set (lru_entries c)"
  by (auto simp: lru_get_def map_of_eq_None_iff split: option.splits)

lemma lru_get_Some:
  assumes "lru_get k c = (Some v, c')" and "lru_all P c"
  shows "P k v"
proof -
  obtain e where "map_of (lru_entries c) k = Some e" "v = ce_value e"
    using assms(1) by (auto simp: lru_get_def split: option.splits)
  then show ?thesis using assms(2) map_of_SomeD unfolding lru_all_def by fast
qed

lemma lru_get_keeps:
  assumes "lru_get k c = (r, c')"
  shows "lru_all P c \<Longrightarrow> lru_all P c'" and "lru_ok c \<Longrightarrow> lru_ok c'" and "lru_capacity c' = lru_capacity c"
proof -
  have m: "map (fst \<circ> (\<lambda>(k', e'). (k', f k' e'))) kvs = map fst kvs" for f kvs
    by (induction kvs) auto
  show "lru_all P c \<Longrightarrow> lru_all P c'"
    using assms by (fastforce simp: lru_get_def lru_all_def split: option.splits if_splits)
  show "lru_ok c \<Longrightarrow> lru_ok c'" "lru_capacity c' = lru_capacity c"
    using assms by (auto simp: lru_get_def lru_ok_def m split: option.splits)
qed

lemma set_update: "set (AList.update k v kvs) \<subseteq> insert (k, v) (set kvs)"
  by (induction kvs) auto

lemma length_update: "length (AList.update k v kvs) = (if k \<in> fst ` set kvs then length kvs else Suc (length kvs))"
  by (induction kvs) auto

lemma least_recent_in: "kvs \<noteq> [] \<Longrightarrow> \<exists>k \<in> fst ` set kvs. least_recent kvs = Some k"
proof (induction kvs)
  case (Cons kv kvs)
  then show ?case by (cases kv; cases "kvs = []") (fastforce split: option.splits)+
qed simp

definition lru_kept :: "'k \<Rightarrow> ('k, 'v) LruCache \<Rightarrow> ('k \<times> 'v CacheEntry) list" where
  "lru_kept k c =
     (if map_of (lru_entries c) k = None \<and> length (lru_entries c) \<ge> lru_capacity c
      then (case least_recent (lru_entries c) of Some old \<Rightarrow> filter (\<lambda>(k', e). k' \<noteq> old) (lru_entries c) | None \<Rightarrow> lru_entries c)
      else lru_entries c)"

lemma lru_kept_facts:
  assumes "lru_ok c"
  shows "set (lru_kept k c) \<subseteq> set (lru_entries c)" and "distinct (map fst (lru_kept k c))"
    and "k \<notin> fst ` set (lru_entries c) \<Longrightarrow> length (lru_kept k c) < lru_capacity c" and "length (lru_kept k c) \<le> lru_capacity c"
proof -
  have d: "distinct (map fst (filter P kvs))" if "distinct (map fst kvs)" for P and kvs :: "('a \<times> 'b CacheEntry) list"
    using that by (induction kvs) auto
  show "set (lru_kept k c) \<subseteq> set (lru_entries c)" by (auto simp: lru_kept_def split: option.splits)
  show "distinct (map fst (lru_kept k c))" using assms d by (auto simp: lru_kept_def lru_ok_def split: option.splits)
  show "length (lru_kept k c) \<le> lru_capacity c"
    using assms by (auto simp: lru_kept_def lru_ok_def split: option.splits intro: le_trans [OF length_filter_le])
  show "length (lru_kept k c) < lru_capacity c" if k: "k \<notin> fst ` set (lru_entries c)"
  proof (cases "length (lru_entries c) \<ge> lru_capacity c")
    case True
    then have "lru_entries c \<noteq> []" using assms by (auto simp: lru_ok_def)
    from least_recent_in [OF this] obtain old where old: "old \<in> fst ` set (lru_entries c)" "least_recent (lru_entries c) = Some old"
      by blast
    then obtain e where "(old, e) \<in> set (lru_entries c)" by force
    then have "length (filter (\<lambda>(k', e). k' \<noteq> old) (lru_entries c)) < length (lru_entries c)"
      by (intro length_filter_less [of "(old, e)"]) auto
    then show ?thesis using True k old(2) assms by (simp add: lru_kept_def lru_ok_def map_of_eq_None_iff)
  qed (simp add: lru_kept_def)
qed

lemma lru_insert_keeps:
  assumes "lru_ok c"
  shows "lru_ok (lru_insert k v c)" and "lru_capacity (lru_insert k v c) = lru_capacity c"
    and "lru_all P c \<Longrightarrow> P k v \<Longrightarrow> lru_all P (lru_insert k v c)"
proof -
  let ?e = "\<lparr>ce_value = v, entry_access = access_index c + 1\<rparr>"
  have e: "lru_entries (lru_insert k v c) = AList.update k ?e (lru_kept k c)" "lru_capacity (lru_insert k v c) = lru_capacity c"
    by (simp_all add: lru_insert_def lru_kept_def Let_def)
  note kept = lru_kept_facts [OF assms, of k]
  show "lru_capacity (lru_insert k v c) = lru_capacity c" by (rule e(2))
  have "k \<notin> fst ` set (lru_kept k c) \<Longrightarrow> k \<in> fst ` set (lru_entries c) \<Longrightarrow> False"
    by (auto simp: lru_kept_def map_of_eq_None_iff split: if_splits)
  then have "length (AList.update k ?e (lru_kept k c)) \<le> lru_capacity c"
    using kept(3,4) by (auto simp: length_update Suc_le_eq)
  then show "lru_ok (lru_insert k v c)"
    using assms distinct_update [OF kept(2)] by (simp add: lru_ok_def e)
  show "lru_all P (lru_insert k v c)" if "lru_all P c" "P k v"
    using that set_update [of k ?e "lru_kept k c"] kept(1) unfolding lru_all_def e by fastforce
qed

section \<open>The key of an evaluation says everything about it\<close>

text \<open>An evaluation without caches.\<close>

definition fresh_evaluation ::
  "FloatFunctions \<Rightarrow> segmenter \<Rightarrow> ZenzLanguageModel \<Rightarrow> bool \<Rightarrow> ZenzEvaluationRequest \<Rightarrow> ZenzInferenceError + CandidateEvaluation" where
  "fresh_evaluation fl graphemes lm reuses request =
     then_do (tokenize_for_model lm (request_prompt graphemes request) True) (\<lambda>ts.
     then_do (addressed_tokens graphemes lm reuses request) (\<lambda>n.
       evaluate_candidate_tokens fl graphemes lm request ts (request_text graphemes request) n))"

definition segment_of :: "DictionaryEntry \<Rightarrow> CandidateSegment" where
  "segment_of e = \<lparr>cs_word = word e, cs_ruby = ruby e, cs_is_learned = is_learned e\<rparr>"

lemma learned_token_priorities_segments:
  assumes "map segment_of es = map segment_of es'"
  shows "learned_token_priorities fl graphemes lm es n = learned_token_priorities fl graphemes lm es' n"
proof -
  let ?w = "\<lambda>s. then_do (tokenize_for_model lm (cs_word s) False) (\<lambda>ts.
      Inr (replicate (length ts) (if cs_is_learned s then fl_ln fl (learning_priority graphemes (cs_ruby s)) else f32_zero)))"
  have w: "map (word_priorities fl graphemes lm) xs = map ?w (map segment_of xs)" for xs
    by (simp add: word_priorities_def segment_of_def)
  have l: "list_ex is_learned xs = list_ex cs_is_learned (map segment_of xs)" for xs
    by (simp add: list_ex_iff segment_of_def)
  show ?thesis unfolding learned_token_priorities_def w l assms ..
qed

lemma fresh_evaluation_key:
  assumes "evaluation_key graphemes reuses q = evaluation_key graphemes reuses' q'"
    and "er_personalization q = None" and "er_personalization q' = None"
  shows "fresh_evaluation fl graphemes lm reuses q = fresh_evaluation fl graphemes lm reuses' q'"
proof -
  have same: "request_prompt graphemes q = request_prompt graphemes q'" "request_text graphemes q = request_text graphemes q'"
    "cand_text (er_candidate q) = cand_text (er_candidate q')" "er_constraint q = er_constraint q'" "er_rich q = er_rich q'"
    "reuses = reuses'" "map segment_of (entries (er_candidate q)) = map segment_of (entries (er_candidate q'))"
    using assms(1) by (simp_all add: evaluation_key_def segment_of_def [abs_def])
  show ?thesis
    unfolding fresh_evaluation_def addressed_tokens_def evaluate_candidate_tokens_def same assms(2,3)
      learned_token_priorities_segments [OF same(7)] ..
qed

section \<open>Evaluations\<close>

definition evaluator_ok :: "FloatFunctions \<Rightarrow> segmenter \<Rightarrow> ZenzLanguageModel \<Rightarrow> ZenzEvaluator \<Rightarrow> bool" where
  "evaluator_ok fl graphemes lm ev \<longleftrightarrow>
     lru_ok (evaluations ev) \<and> lru_capacity (evaluations ev) = 256 \<and> lru_ok (prompt_tokens ev) \<and>
     lru_capacity (prompt_tokens ev) = 128 \<and>
     lru_all (\<lambda>k r. \<forall>reuses q. er_personalization q = None \<longrightarrow> evaluation_key graphemes reuses q = k \<longrightarrow>
                fresh_evaluation fl graphemes lm reuses q = Inr r) (evaluations ev) \<and>
     lru_all (\<lambda>prompt ts. tokenize_for_model lm prompt True = Inr ts) (prompt_tokens ev)"

lemma default_evaluator_ok: "evaluator_ok fl graphemes lm default_evaluator"
  by (simp add: evaluator_ok_def default_evaluator_def)

lemma cached_prompt_tokens_ok:
  assumes "lru_ok c" and "lru_all (\<lambda>prompt ts. tokenize_for_model lm prompt True = Inr ts) c"
    and "cached_prompt_tokens lm prompt c = (c', r)"
  shows "r = tokenize_for_model lm prompt True \<and> lru_ok c' \<and> lru_capacity c' = lru_capacity c \<and>
    lru_all (\<lambda>prompt ts. tokenize_for_model lm prompt True = Inr ts) c'"
proof -
  obtain v c1 where g: "lru_get prompt c = (v, c1)" by fastforce
  note kept = lru_get_keeps [OF g]
  show ?thesis
  proof (cases v)
    case (Some ts)
    then show ?thesis
      using assms kept g lru_get_Some [OF g [unfolded Some] assms(2)] by (auto simp: cached_prompt_tokens_def)
  next
    case None
    let ?Q = "lru_all (\<lambda>prompt ts. tokenize_for_model lm prompt True = Inr ts)"
    have ok: "lru_ok c1" "?Q c1" using kept(1,2) assms(1,2) by blast+
    show ?thesis
    proof (cases "tokenize_for_model lm prompt True")
      case (Inl e)
      then show ?thesis using assms(3) g None ok kept(3) by (simp add: cached_prompt_tokens_def)
    next
      case (Inr ts)
      then have "?Q (lru_insert prompt ts c1)" by (intro lru_insert_keeps(3) [OF ok])
      then show ?thesis
        using assms(3) g None Inr kept(3) lru_insert_keeps(1,2) [OF ok(1)] by (auto simp: cached_prompt_tokens_def)
    qed
  qed
qed

lemma evaluate_as_is_ok:
  assumes ok: "evaluator_ok fl graphemes lm ev" and e: "evaluate_as_is fl graphemes lm request ev = (ev', r)"
  shows "evaluator_ok fl graphemes lm ev'" and "previous_evaluation_prompt ev' = normalize_for_model (request_prompt graphemes request)"
    and "r = fresh_evaluation fl graphemes lm
      (previous_evaluation_prompt ev = normalize_for_model (request_prompt graphemes request) \<and> \<not> er_rich request) request"
proof -
  let ?prompt = "request_prompt graphemes request"
  let ?reuses = "previous_evaluation_prompt ev = normalize_for_model ?prompt \<and> \<not> er_rich request"
  let ?P = "\<lambda>k r. \<forall>reuses q. er_personalization q = None \<longrightarrow> evaluation_key graphemes reuses q = k \<longrightarrow>
                fresh_evaluation fl graphemes lm reuses q = Inr r"
  define key where "key = (if er_personalization request = None then Some (evaluation_key graphemes ?reuses request) else None)"
  obtain cached evs where c: "(case key of Some k \<Rightarrow> lru_get k (evaluations ev) | None \<Rightarrow> (None, evaluations ev)) = (cached, evs)"
    by fastforce
  have evs: "lru_ok evs \<and> lru_capacity evs = 256 \<and> lru_all ?P evs"
    using ok c lru_get_keeps [of _ "evaluations ev" cached evs] by (auto simp: evaluator_ok_def split: option.splits)
  obtain pts tokens where p: "cached_prompt_tokens lm ?prompt (prompt_tokens ev) = (pts, tokens)" by fastforce
  have pts: "tokens = tokenize_for_model lm ?prompt True \<and> lru_ok pts \<and> lru_capacity pts = 128 \<and>
      lru_all (\<lambda>prompt ts. tokenize_for_model lm prompt True = Inr ts) pts"
    using cached_prompt_tokens_ok [OF _ _ p] ok by (auto simp: evaluator_ok_def)
  have fresh: "then_do tokens (\<lambda>ts. then_do (addressed_tokens graphemes lm ?reuses request) (\<lambda>n.
      evaluate_candidate_tokens fl graphemes lm request ts (request_text graphemes request) n)) =
    fresh_evaluation fl graphemes lm ?reuses request"
    using pts by (simp add: fresh_evaluation_def)
  note unfolded = e [unfolded evaluate_as_is_def Let_def, folded key_def, unfolded c prod.case]
  show "evaluator_ok fl graphemes lm ev'" "previous_evaluation_prompt ev' = normalize_for_model ?prompt"
    "r = fresh_evaluation fl graphemes lm ?reuses request"
  proof -
    have "evaluator_ok fl graphemes lm ev' \<and> previous_evaluation_prompt ev' = normalize_for_model ?prompt \<and>
      r = fresh_evaluation fl graphemes lm ?reuses request"
    proof (cases cached)
      case (Some v)
      then obtain k where k: "key = Some k" "lru_get k (evaluations ev) = (Some v, evs)" using c by (auto split: option.splits)
      have "lru_all ?P (evaluations ev)" using ok by (simp add: evaluator_ok_def)
      from lru_get_Some [OF k(2) this] k(1) have "fresh_evaluation fl graphemes lm ?reuses request = Inr v"
        unfolding key_def by (simp split: if_splits)
      moreover have "ev' = ev\<lparr>previous_evaluation_prompt := normalize_for_model ?prompt, evaluations := evs\<rparr>" "r = Inr v"
        using unfolded unfolding Some by auto
      ultimately show ?thesis using evs ok by (simp add: evaluator_ok_def)
    next
      case None
      let ?ev = "ev\<lparr>previous_evaluation_prompt := normalize_for_model ?prompt, evaluations := evs, prompt_tokens := pts\<rparr>"
      have u: "(case fresh_evaluation fl graphemes lm ?reuses request of
          Inl e \<Rightarrow> (?ev, Inl e)
        | Inr r \<Rightarrow> (case key of Some k \<Rightarrow> ?ev\<lparr>evaluations := lru_insert k r (evaluations ?ev)\<rparr> | None \<Rightarrow> ?ev, Inr r)) = (ev', r)"
        using unfolded unfolding None by (simp add: p fresh)
      show ?thesis
      proof (cases "fresh_evaluation fl graphemes lm ?reuses request")
        case (Inl e)
        then show ?thesis using u evs pts by (auto simp: evaluator_ok_def)
      next
        case (Inr v)
        have "?P k v" if "key = Some k" for k
          using that Inr fresh_evaluation_key [of graphemes _ _ ?reuses request fl lm] unfolding key_def by (auto split: if_splits)
        then have "lru_all ?P (lru_insert k v evs)" "lru_ok (lru_insert k v evs)" "lru_capacity (lru_insert k v evs) = 256"
          if "key = Some k" for k
          using that evs lru_insert_keeps(1,2) [of evs k v] lru_insert_keeps(3) [of evs ?P k v] by auto
        then show ?thesis using u evs pts Inr by (cases key) (auto simp: evaluator_ok_def)
      qed
    qed
    then show "evaluator_ok fl graphemes lm ev'" "previous_evaluation_prompt ev' = normalize_for_model ?prompt"
      "r = fresh_evaluation fl graphemes lm ?reuses request" by simp_all
  qed
qed

lemma evaluate_ok:
  assumes "evaluator_ok fl graphemes lm ev"
  shows "evaluator_ok fl graphemes lm (fst (evaluate fl graphemes lm request ev))"
proof -
  have f: "evaluator_ok fl graphemes lm (fst (evaluate_as_is fl graphemes lm q ev))" for q
    using evaluate_as_is_ok(1) [OF assms] by (metis prod.collapse)
  show ?thesis
    using assms f evaluate_as_is_ok(1) [OF assms]
    by (auto simp: evaluate_def Let_def split: option.split prod.split sum.split)
qed

lemma evaluate_answer:
  assumes "evaluator_ok fl graphemes lm ev" and "evaluator_ok fl graphemes lm ev2"
    and "previous_evaluation_prompt ev = previous_evaluation_prompt ev2"
  shows "snd (evaluate fl graphemes lm request ev) = snd (evaluate fl graphemes lm request ev2)"
proof -
  have "snd (evaluate_as_is fl graphemes lm q ev) = snd (evaluate_as_is fl graphemes lm q ev2)" for q
    using evaluate_as_is_ok(3) [OF assms(1), of q] evaluate_as_is_ok(3) [OF assms(2), of q] assms(3)
    by (cases "evaluate_as_is fl graphemes lm q ev"; cases "evaluate_as_is fl graphemes lm q ev2") simp
  then have s: "\<exists>x y r. evaluate_as_is fl graphemes lm q ev = (x, r) \<and> evaluate_as_is fl graphemes lm q ev2 = (y, r)" for q
    by (metis prod.collapse)
  obtain x y r where as_is: "evaluate_as_is fl graphemes lm request ev = (x, r)" "evaluate_as_is fl graphemes lm request ev2 = (y, r)"
    using s by blast
  show ?thesis
  proof (cases "fixed_prefix (er_constraint request)")
    case None
    then show ?thesis by (simp add: evaluate_def as_is)
  next
    case (Some f)
    show ?thesis
    proof (cases "fixed_prefix_applies graphemes request f")
      case True
      have "snd (case evaluate_as_is fl graphemes lm q ev of (ev, Inl e) \<Rightarrow> (ev, Inl (InferenceFailed e)) | (ev, Inr r) \<Rightarrow> (ev, Inr (g r))) =
        snd (case evaluate_as_is fl graphemes lm q ev2 of (ev, Inl e) \<Rightarrow> (ev, Inl (InferenceFailed e)) | (ev, Inr r) \<Rightarrow> (ev, Inr (g r)))"
        for q and g :: "CandidateEvaluation \<Rightarrow> CandidateEvaluation"
        using s [of q] by (auto split: sum.splits)
      then show ?thesis using Some True by (auto simp: evaluate_def Let_def split: option.split)
    next
      case False
      then show ?thesis using Some by (simp add: evaluate_def as_is)
    qed
  qed
qed

text \<open>The evaluator after a sequence of requests.\<close>

definition evaluator_after ::
  "FloatFunctions \<Rightarrow> segmenter \<Rightarrow> ZenzLanguageModel \<Rightarrow> ZenzEvaluationRequest list \<Rightarrow> ZenzEvaluator" where
  "evaluator_after fl graphemes lm requests =
     fold (\<lambda>q ev. fst (evaluate fl graphemes lm q ev)) requests default_evaluator"

lemma evaluator_after_ok: "evaluator_ok fl graphemes lm (evaluator_after fl graphemes lm requests)"
proof -
  have "evaluator_ok fl graphemes lm ev \<Longrightarrow> evaluator_ok fl graphemes lm (fold (\<lambda>q ev. fst (evaluate fl graphemes lm q ev)) requests ev)"
    for ev by (induction requests arbitrary: ev) (simp_all add: evaluate_ok)
  then show ?thesis using default_evaluator_ok by (simp add: evaluator_after_def)
qed


end
