(* ===== verification/Zenz_Properties.thy ===== *)
theory Zenz_Properties
  imports Zenz_Cache Lattice_Positions
begin

text \<open>
  What an evaluation says about a candidate, that a fixed beginning is kept and never stops the program, and what is
  generated as further input; and a small model on which the theorems are applied.
\<close>

section \<open>The first disagreement\<close>

text \<open>
  The model agrees with a token when it is the most likely one, or when it was learned with a priority that makes it the
  most likely one and the model does not want to end.
\<close>

definition token_stands :: "ZenzLanguageModel \<Rightarrow> f32 list \<Rightarrow> f32 \<Rightarrow> nat \<Rightarrow> bool" where
  "token_stands lm evaluated priority k \<longleftrightarrow>
     (let m = strict_argmax evaluated
      in m = k \<or>
         token_of_index m \<noteq> Inr (eos_token lm) \<and> \<not> f32_eq priority f32_zero \<and>
         \<not> f32_le (f32_add (evaluated ! k) priority) (evaluated ! m))"

lemma token_verdict_cases:
  assumes "token_verdict lm evaluated priority k b = Inr v"
  shows "v = None \<longleftrightarrow> token_stands lm evaluated priority k"
    and "v = Some (FixRequired c) \<Longrightarrow> \<exists>p. token_to_piece lm (int (strict_argmax evaluated)) = Inr p \<and> c = b @ p"
    and "v = Some (WholeResult s) \<Longrightarrow> int (strict_argmax evaluated) = eos_token lm \<and> s = (case from_utf8 b of Some s \<Rightarrow> s | None \<Rightarrow> [])"
    and "v \<noteq> Some (Pass score alts)"
  using assms
  by (auto simp: token_verdict_def token_stands_def token_of_index_def Let_def then_do_Inr split: if_splits)

definition priority_at :: "f32 list \<Rightarrow> nat \<Rightarrow> f32" where
  "priority_at priorities i = (if i < length priorities then priorities ! i else f32_zero)"

text \<open>What the loop does, for any logits \<open>j i\<close> the tokens are judged by.\<close>

definition loop_meaning ::
  "ZenzLanguageModel \<Rightarrow> (nat \<Rightarrow> f32 list) \<Rightarrow> (nat \<Rightarrow> bool) \<Rightarrow> int list \<Rightarrow> nat list \<Rightarrow> f32 \<Rightarrow> byte list \<Rightarrow> CandidateEvaluation \<Rightarrow> bool" where
  "loop_meaning lm j agrees tokens is score so_far r \<longleftrightarrow>
     (case r of
        Pass total_score alts \<Rightarrow>
          (\<forall>i \<in> set is. agrees i) \<and> total_score = fold (\<lambda>i s. f32_add s (j i ! strict_argmax (j i))) is score \<and> length alts \<le> 5
      | FixRequired b \<Rightarrow>
          (\<exists>xs i zs ps p. is = xs @ i # zs \<and> (\<forall>x \<in> set xs. agrees x) \<and> \<not> agrees i \<and>
             collect (map (\<lambda>x. token_to_piece lm (tokens ! x)) xs) = Inr ps \<and>
             token_to_piece lm (int (strict_argmax (j i))) = Inr p \<and> b = so_far @ concat ps @ p)
      | WholeResult s \<Rightarrow>
          (\<exists>xs i zs ps. is = xs @ i # zs \<and> (\<forall>x \<in> set xs. agrees x) \<and> \<not> agrees i \<and>
             collect (map (\<lambda>x. token_to_piece lm (tokens ! x)) xs) = Inr ps \<and> int (strict_argmax (j i)) = eos_token lm \<and>
             s = (case from_utf8 (so_far @ concat ps) of Some s \<Rightarrow> s | None \<Rightarrow> [])))"

lemma loop_meaning_Cons:
  assumes "loop_meaning lm j agrees tokens is (f32_add score (j i ! strict_argmax (j i))) (so_far @ b) r" and "agrees i"
    and "token_to_piece lm (tokens ! i) = Inr b"
  shows "loop_meaning lm j agrees tokens (i # is) score so_far r"
proof -
  have c: "collect (map (\<lambda>x. token_to_piece lm (tokens ! x)) (i # xs)) = Inr (b # ps)"
    if "collect (map (\<lambda>x. token_to_piece lm (tokens ! x)) xs) = Inr ps" for xs ps using that assms(3) by simp
  show ?thesis
  proof (cases r)
    case (Pass total_score alts)
    then show ?thesis using assms(1,2) by (simp add: loop_meaning_def)
  next
    case (FixRequired bytes)
    then obtain xs k zs ps p where "is = xs @ k # zs" "\<forall>x \<in> set xs. agrees x" "\<not> agrees k"
      "collect (map (\<lambda>x. token_to_piece lm (tokens ! x)) xs) = Inr ps"
      "token_to_piece lm (int (strict_argmax (j k))) = Inr p" "bytes = (so_far @ b) @ concat ps @ p"
      using assms(1) by (auto simp: loop_meaning_def)
    then have "i # is = (i # xs) @ k # zs \<and> (\<forall>x \<in> set (i # xs). agrees x) \<and> \<not> agrees k \<and>
      collect (map (\<lambda>x. token_to_piece lm (tokens ! x)) (i # xs)) = Inr (b # ps) \<and>
      token_to_piece lm (int (strict_argmax (j k))) = Inr p \<and> bytes = so_far @ concat (b # ps) @ p"
      using c assms(2) by simp
    then show ?thesis unfolding FixRequired loop_meaning_def CandidateEvaluation.case by blast
  next
    case (WholeResult s)
    then obtain xs k zs ps where "is = xs @ k # zs" "\<forall>x \<in> set xs. agrees x" "\<not> agrees k"
      "collect (map (\<lambda>x. token_to_piece lm (tokens ! x)) xs) = Inr ps" "int (strict_argmax (j k)) = eos_token lm"
      "s = (case from_utf8 ((so_far @ b) @ concat ps) of Some s \<Rightarrow> s | None \<Rightarrow> [])"
      using assms(1) by (auto simp: loop_meaning_def)
    then have "i # is = (i # xs) @ k # zs \<and> (\<forall>x \<in> set (i # xs). agrees x) \<and> \<not> agrees k \<and>
      collect (map (\<lambda>x. token_to_piece lm (tokens ! x)) (i # xs)) = Inr (b # ps) \<and> int (strict_argmax (j k)) = eos_token lm \<and>
      s = (case from_utf8 (so_far @ concat (b # ps)) of Some s \<Rightarrow> s | None \<Rightarrow> [])"
      using c assms(2) by simp
    then show ?thesis unfolding WholeResult loop_meaning_def CandidateEvaluation.case by blast
  qed
qed

lemma evaluate_loop_meaning:
  assumes "evaluate_loop fl lm personalization rich tokens priorities row is (score, alts, so_far) = Inr r"
  shows "loop_meaning lm (\<lambda>i. evaluated_logits fl personalization (row i) (take i tokens))
    (\<lambda>i. token_stands lm (evaluated_logits fl personalization (row i) (take i tokens)) (priority_at priorities i) (nat (tokens ! i)))
    tokens is score so_far r"
  using assms
proof (induction "is" arbitrary: score alts so_far)
  case Nil
  then show ?case by (auto simp: loop_meaning_def best_alternatives_def)
next
  case (Cons i "is")
  let ?j = "\<lambda>i. evaluated_logits fl personalization (row i) (take i tokens)"
  let ?agrees = "\<lambda>i. token_stands lm (?j i) (priority_at priorities i) (nat (tokens ! i))"
  obtain v where v: "token_verdict lm (?j i) (priority_at priorities i) (nat (tokens ! i)) so_far = Inr v"
    and rest: "(case v of Some v \<Rightarrow> Inr v
      | None \<Rightarrow>
          then_do (if rich \<and> strict_argmax (?j i) = nat (tokens ! i) then token_alternatives fl lm (?j i) so_far else Inr []) (\<lambda>new.
          then_do (token_to_piece lm (tokens ! i)) (\<lambda>b.
            evaluate_loop fl lm personalization rich tokens priorities row is
              (f32_add score (?j i ! strict_argmax (?j i)), alts @ new, so_far @ b)))) = Inr r"
    using Cons.prems by (auto simp: Let_def then_do_Inr priority_at_def split: if_splits)
  note c = token_verdict_cases [OF v]
  show ?case
  proof (cases v)
    case None
    then obtain new b where "token_to_piece lm (tokens ! i) = Inr b"
      and e: "evaluate_loop fl lm personalization rich tokens priorities row is
              (f32_add score (?j i ! strict_argmax (?j i)), alts @ new, so_far @ b) = Inr r"
      using rest unfolding None option.case then_do_Inr by blast
    then show ?thesis using loop_meaning_Cons [OF Cons.IH [OF e]] c(1) None by blast
  next
    case (Some w)
    have ends: "\<not> ?agrees i" using c(1) Some by simp
    have r: "r = w" using rest Some by simp
    have i: "i # is = [] @ i # is \<and> (\<forall>x \<in> set []. ?agrees x) \<and> collect (map (\<lambda>x. token_to_piece lm (tokens ! x)) []) = Inr []"
      by simp
    show ?thesis
    proof (cases w)
      case (Pass total_score new)
      then show ?thesis using c(4) Some by blast
    next
      case (FixRequired bytes)
      then obtain p where "token_to_piece lm (int (strict_argmax (?j i))) = Inr p" "bytes = so_far @ concat [] @ p"
        using c(2) Some by auto
      then show ?thesis unfolding r FixRequired loop_meaning_def CandidateEvaluation.case using i ends by blast
    next
      case (WholeResult s)
      then have "int (strict_argmax (?j i)) = eos_token lm" "s = (case from_utf8 (so_far @ concat []) of Some s \<Rightarrow> s | None \<Rightarrow> [])"
        using c(3) Some by auto
      then show ?thesis unfolding r WholeResult loop_meaning_def CandidateEvaluation.case using i ends by blast
    qed
  qed
qed

definition judged_logits ::
  "FloatFunctions \<Rightarrow> ZenzLanguageModel \<Rightarrow> ZenzEvaluationRequest \<Rightarrow> int list \<Rightarrow> f32 list \<Rightarrow> nat \<Rightarrow> nat \<Rightarrow> f32 list" where
  "judged_logits fl lm request tokens logits addressed i =
     evaluated_logits fl (er_personalization request) (logits_of_token logits (vocabulary_size lm) addressed i) (take i tokens)"

definition model_agrees ::
  "FloatFunctions \<Rightarrow> ZenzLanguageModel \<Rightarrow> ZenzEvaluationRequest \<Rightarrow> int list \<Rightarrow> f32 list \<Rightarrow> f32 list \<Rightarrow> nat \<Rightarrow> nat \<Rightarrow> bool" where
  "model_agrees fl lm request tokens priorities logits addressed i \<longleftrightarrow>
     token_stands lm (judged_logits fl lm request tokens logits addressed i) (priority_at priorities i) (nat (tokens ! i))"

lemma collect_append: "collect xs = Inr as \<Longrightarrow> collect ys = Inr bs \<Longrightarrow> collect (xs @ ys) = Inr (as @ bs)"
  by (simp add: collect_Inr)

text \<open>
  C32. An evaluation finds the first disagreement. The candidate passes exactly where the model agrees with each of its
  tokens, with the sum of the best logits as score and at most five alternatives; otherwise the answer is about the first
  token the model does not agree with: the bytes of the tokens before it followed by the token the model wants, or, where
  the model wants to end, the text of the tokens before it.
\<close>

theorem evaluation_finds_first_disagreement:
  assumes tokens: "tokenize_for_model lm candidate_text False = Inr tokens"
    and priorities: "learned_token_priorities fl graphemes lm (entries (er_candidate request)) (length tokens) = Inr priorities"
    and addressed: "addressed < length tokens"
    and logits: "logits_for_suffix lm (prompt @ butlast tokens) (length prompt - 1 + addressed) Evaluation = Inr logits"
    and result: "evaluate_candidate_tokens fl graphemes lm request prompt candidate_text addressed = Inr r"
  shows "case r of
      Pass total_score alts \<Rightarrow>
        (\<forall>i \<in> {addressed..<length tokens}. model_agrees fl lm request tokens priorities logits addressed i) \<and>
        total_score = fold (\<lambda>i s. f32_add s (judged_logits fl lm request tokens logits addressed i !
          strict_argmax (judged_logits fl lm request tokens logits addressed i))) [addressed..<length tokens] f32_zero \<and>
        length alts \<le> 5
    | FixRequired b \<Rightarrow>
        (\<exists>i ps p. addressed \<le> i \<and> i < length tokens \<and>
          (\<forall>x \<in> {addressed..<i}. model_agrees fl lm request tokens priorities logits addressed x) \<and>
          \<not> model_agrees fl lm request tokens priorities logits addressed i \<and>
          collect (map (token_to_piece lm) (take i tokens)) = Inr ps \<and>
          token_to_piece lm (int (strict_argmax (judged_logits fl lm request tokens logits addressed i))) = Inr p \<and>
          b = concat ps @ p)
    | WholeResult s \<Rightarrow>
        (\<exists>i ps. addressed \<le> i \<and> i < length tokens \<and>
          (\<forall>x \<in> {addressed..<i}. model_agrees fl lm request tokens priorities logits addressed x) \<and>
          \<not> model_agrees fl lm request tokens priorities logits addressed i \<and>
          collect (map (token_to_piece lm) (take i tokens)) = Inr ps \<and>
          int (strict_argmax (judged_logits fl lm request tokens logits addressed i)) = eos_token lm \<and>
          s = (case from_utf8 (concat ps) of Some s \<Rightarrow> s | None \<Rightarrow> []))"
proof -
  let ?row = "logits_of_token logits (vocabulary_size lm) addressed"
  have min: "min addressed (length tokens) = addressed" "tokens \<noteq> []" using addressed by auto
  obtain pre where pre: "collect (map (token_to_piece lm) (take addressed tokens)) = Inr pre"
    and loop: "evaluate_loop fl lm (er_personalization request) (er_rich request) tokens priorities ?row
      [addressed..<length tokens] (f32_zero, [], concat pre) = Inr r"
    using result addressed logits unfolding evaluate_candidate_tokens_def tokens priorities then_do.simps Let_def min(1)
    by (auto simp: then_do_Inr min(2) split: if_splits)
  have meaning: "loop_meaning lm (judged_logits fl lm request tokens logits addressed)
    (model_agrees fl lm request tokens priorities logits addressed) tokens [addressed..<length tokens] f32_zero (concat pre) r"
    using evaluate_loop_meaning [OF loop] unfolding judged_logits_def model_agrees_def by simp
  have split: "addressed \<le> i \<and> i < length tokens \<and> set xs = {addressed..<i} \<and>
      collect (map (token_to_piece lm) (take i tokens)) = Inr (pre @ ps)"
    if xs: "[addressed..<length tokens] = xs @ i # zs" and ps: "collect (map (\<lambda>x. token_to_piece lm (tokens ! x)) xs) = Inr ps"
    for xs i zs ps
  proof -
    have l: "length xs < length tokens - addressed" using arg_cong [OF xs, of length] by simp
    have "[addressed..<length tokens] ! length xs = i" unfolding xs by simp
    then have i: "i = addressed + length xs" using l by simp
    have t: "xs = take (length xs) [addressed..<length tokens]" unfolding xs by simp
    then have x: "xs = [addressed..<i]" using i l by (simp add: take_upt)
    have il: "addressed \<le> i" "i < length tokens" using i l by linarith+
    then have "take i tokens = take addressed tokens @ map ((!) tokens) [addressed..<i]"
      by (intro nth_equalityI) (auto simp: nth_append)
    then have "map (token_to_piece lm) (take i tokens) =
        map (token_to_piece lm) (take addressed tokens) @ map (\<lambda>x. token_to_piece lm (tokens ! x)) xs"
      by (simp add: x comp_def)
    then have "collect (map (token_to_piece lm) (take i tokens)) = Inr (pre @ ps)" using collect_append [OF pre ps] by simp
    moreover have "set xs = {addressed..<i}" unfolding x by simp
    ultimately show ?thesis using il by blast
  qed
  show ?thesis
  proof (cases r)
    case (Pass total_score alts)
    then show ?thesis using meaning by (simp add: loop_meaning_def)
  next
    case (FixRequired b)
    then obtain xs i zs ps p where xs: "[addressed..<length tokens] = xs @ i # zs"
      and agree: "\<forall>x \<in> set xs. model_agrees fl lm request tokens priorities logits addressed x"
        "\<not> model_agrees fl lm request tokens priorities logits addressed i"
      and ps: "collect (map (\<lambda>x. token_to_piece lm (tokens ! x)) xs) = Inr ps"
      and p: "token_to_piece lm (int (strict_argmax (judged_logits fl lm request tokens logits addressed i))) = Inr p"
        "b = concat (pre @ ps) @ p"
      using meaning by (auto simp: loop_meaning_def)
    note s = split [OF xs ps]
    show ?thesis using s agree p unfolding FixRequired CandidateEvaluation.case
      by (intro exI [of _ i] exI [of _ "pre @ ps"] exI [of _ p]) simp
  next
    case (WholeResult t)
    then obtain xs i zs ps where xs: "[addressed..<length tokens] = xs @ i # zs"
      and agree: "\<forall>x \<in> set xs. model_agrees fl lm request tokens priorities logits addressed x"
        "\<not> model_agrees fl lm request tokens priorities logits addressed i"
      and ps: "collect (map (\<lambda>x. token_to_piece lm (tokens ! x)) xs) = Inr ps"
      and p: "int (strict_argmax (judged_logits fl lm request tokens logits addressed i)) = eos_token lm"
        "t = (case from_utf8 (concat (pre @ ps)) of Some s \<Rightarrow> s | None \<Rightarrow> [])"
      using meaning by (auto simp: loop_meaning_def)
    note s = split [OF xs ps]
    show ?thesis using s agree p unfolding WholeResult CandidateEvaluation.case
      by (intro exI [of _ i] exI [of _ "pre @ ps"]) simp
  qed
qed

section \<open>A fixed beginning\<close>

lemma decode_first_scalar:
  assumes "0 \<le> a" and "a < 256" and "\<forall>b \<in> set rest. 0 \<le> b \<and> b < 256"
  shows "is_scalar (fst (decode_first a rest))"
  using assms
  by (auto simp: decode_first_def is_scalar_def continuation_def second_of_three_def second_of_four_def REPLACEMENT_def
      split: list.splits if_splits)

lemma decode_utf8_scalar: "\<forall>b \<in> set bs. 0 \<le> b \<and> b < 256 \<Longrightarrow> list_all is_scalar (decode_utf8 bs)"
proof (induction bs rule: decode_utf8.induct)
  case (2 a rest)
  have "\<forall>b \<in> set (drop (snd (decode_first a rest)) (a # rest)). 0 \<le> b \<and> b < 256"
    using 2(2) by (auto dest!: in_set_dropD)
  then show ?case using 2 decode_first_scalar [of a rest] by (simp add: decode_utf8.simps(2))
qed simp

lemma from_utf8_scalar: "from_utf8 bytes = Some s \<Longrightarrow> list_all is_scalar s \<and> utf8 s = bytes"
proof -
  assume "from_utf8 bytes = Some s"
  moreover have "0 \<le> uint b \<and> uint b < 256" for b :: byte using uint_lt2p [of b] by simp
  ultimately show ?thesis
    using decode_utf8_scalar [of "map uint bytes"] by (auto simp: from_utf8_def from_utf8_lossy_def Let_def split: if_splits)
qed

text \<open>Where the bytes of one string begin those of another, the string begins the other.\<close>

lemma utf8_begins:
  assumes "list_all is_scalar s" and "list_all is_scalar t" and "utf8 t = utf8 s @ bytes"
  shows "\<exists>u. t = s @ u"
  using assms
proof (induction s arbitrary: t)
  case (Cons c s)
  have c: "utf8 (c # s) = utf8_char c @ utf8 s" for c s by (simp add: utf8_def)
  have "utf8_char c \<noteq> []" by (simp add: utf8_char_def utf8_ints_def)
  then obtain d u where t: "t = d # u" using Cons.prems(3) by (cases t) (auto simp: utf8_def)
  have bytes: "map uint (utf8 t) = utf8_ints d @ map uint (utf8 u)"
    "map uint (utf8 t) = utf8_ints c @ map uint (utf8 s @ bytes)"
    using Cons.prems(1,2) by (simp add: t c uint_utf8_char) (use Cons.prems(1) in \<open>simp add: Cons.prems(3) c uint_utf8_char\<close>)
  have "d # decode_utf8 (map uint (utf8 u)) = c # decode_utf8 (map uint (utf8 s @ bytes))"
    using arg_cong [OF bytes(1) [symmetric, unfolded bytes(2)], of decode_utf8] Cons.prems(1,2) decode_utf8_char
    by (simp add: t)
  then have "d = c" by simp
  then have "utf8 u = utf8 s @ bytes" using Cons.prems(3) by (simp add: t c)
  then show ?case using Cons.IH [of u] Cons.prems(1,2) \<open>d = c\<close> by (auto simp: t)
qed simp

lemma get_from_byte_append: "get_from_byte (length (utf8 s)) (s @ u) = Some u"
proof (induction s)
  case (Cons c s)
  have "0 < length (utf8_char c)" by (simp add: utf8_char_def utf8_ints_def)
  then show ?case using Cons by (simp add: utf8_def get_from_byte.simps [of _ "_ # _"])
qed (simp add: utf8_def get_from_byte.simps)

text \<open>
  C33. A fixed beginning is kept and never stops the program. Where the constraint has a fixed prefix that begins the
  candidate and the input, the two \<open>expect\<close> of the source hold, and every answer begins with the fixed bytes: the fix, the
  whole result and each alternative.
\<close>

theorem fixed_beginning_kept:
  assumes "list_all is_scalar (cand_text (er_candidate request))" and "fixed_prefix (er_constraint request) = Some f"
    and "fixed_prefix_applies graphemes request f"
  shows "case snd (evaluate fl graphemes lm request ev) of
      Inl e \<Rightarrow> e \<noteq> ExpectationFailed
    | Inr (FixRequired b) \<Rightarrow> prefix (take (fp_byte_count f) (pc_bytes (er_constraint request))) b
    | Inr (WholeResult s) \<Rightarrow> prefix (take (fp_byte_count f) (pc_bytes (er_constraint request))) (utf8 s)
    | Inr (Pass total_score alts) \<Rightarrow>
        list_all (\<lambda>a. prefix (take (fp_byte_count f) (pc_bytes (er_constraint request))) (alt_bytes a)) alts"
proof -
  let ?fixed = "take (fp_byte_count f) (pc_bytes (er_constraint request))" and ?text = "cand_text (er_candidate request)"
  note g = assms(3) [unfolded fixed_prefix_applies_def]
  have app: "utf8 (s @ t) = utf8 s @ utf8 t" for s t by (simp add: utf8_def)
  show ?thesis
  proof (cases "from_utf8 ?fixed")
    case None
    then show ?thesis using assms(2,3) by (simp add: evaluate_def)
  next
    case (Some s)
    note s = from_utf8_scalar [OF Some]
    obtain bytes where "utf8 ?text = utf8 s @ bytes" using g s by (auto simp: prefix_def)
    then obtain u where u: "?text = s @ u" using utf8_begins [OF _ assms(1)] s by blast
    have "length (utf8 s) = fp_byte_count f" using g s by simp
    then have t: "get_from_byte (fp_byte_count f) ?text = Some u" unfolding u using get_from_byte_append by metis
    obtain v where v: "drop_graphemes graphemes (er_input request) (fp_ruby_count f) = Some v"
      using g by (simp add: drop_graphemes_def)
    obtain ev' r where r: "evaluate_as_is fl graphemes lm (remaining_request request f s v u) ev = (ev', r)" by fastforce
    have e: "evaluate fl graphemes lm request ev =
      (case r of Inl e \<Rightarrow> (ev', Inl (InferenceFailed e)) | Inr r \<Rightarrow> (ev', Inr (prepend_fixed ?fixed s r)))"
      using assms(2,3) by (simp add: evaluate_def Some t v r split: sum.split)
    show ?thesis
    proof (cases r)
      case (Inr x)
      then show ?thesis unfolding e using s by (cases x) (simp_all add: list_all_iff app)
    qed (simp add: e)
  qed
qed

section \<open>Generated input\<close>

text \<open>The best character of a scan begins a piece of the model and is allowed behind the text so far.\<close>

definition scanned :: "segmenter \<Rightarrow> ZenzLanguageModel \<Rightarrow> ustr list \<Rightarrow> ustr \<Rightarrow> grapheme \<Rightarrow> bool" where
  "scanned graphemes lm nexts predicted g \<longleftrightarrow>
     is_allowed nexts (predicted @ g) \<and>
     (\<exists>t bytes s gs. token_to_piece lm t = Inr bytes \<and> from_utf8 bytes = Some s \<and> graphemes s = g # gs)"

lemma scan_token_scanned:
  assumes "scan_token fl graphemes lm nexts tokens predicted x sc = Inr sc'"
    and "\<forall>g. best_character sc = Some g \<longrightarrow> scanned graphemes lm nexts predicted g"
  shows "\<forall>g. best_character sc' = Some g \<longrightarrow> scanned graphemes lm nexts predicted g"
proof -
  obtain t where "token_of_index (fst x) = Inr t" using assms(1) by (auto simp: scan_token_def then_do_Inr)
  define v where "v = f32_div (snd x) (f32_add 0x3F800000 (token_penalty tokens t))"
  define sc1 where "sc1 = sc\<lparr>sum_exp := f32_add (sum_exp sc) (fl_exp fl v),
      sum_exp_value := f32_add (sum_exp_value sc) (f32_mul (fl_exp fl v) v)\<rparr>"
  have same: "best_character sc1 = best_character sc" by (simp add: sc1_def)
  have step: "(if f32_le v (best_value sc1) then Inr sc1
     else
       then_do (token_to_piece lm t) (\<lambda>bytes.
         case from_utf8 bytes of
           None \<Rightarrow> Inr sc1
         | Some s \<Rightarrow>
             (case graphemes s of
                [] \<Rightarrow> Inr sc1
              | g # gs \<Rightarrow>
                  if is_allowed nexts (predicted @ g) then Inr (sc1\<lparr>best_value := v, best_character := Some g\<rparr>) else Inr sc1))) = Inr sc'"
    using assms(1) unfolding scan_token_def Let_def \<open>token_of_index (fst x) = Inr t\<close> then_do.simps v_def sc1_def .
  show ?thesis
  proof (cases "best_character sc' = best_character sc")
    case False
    then have "\<not> f32_le v (best_value sc1)" using step same by (auto split: if_splits)
    then obtain bytes where b: "token_to_piece lm t = Inr bytes" using step by (auto simp: then_do_Inr)
    with step \<open>\<not> f32_le v (best_value sc1)\<close> False same obtain s g gs where "from_utf8 bytes = Some s" "graphemes s = g # gs"
      "is_allowed nexts (predicted @ g)" "best_character sc' = Some g"
      by (auto split: option.splits list.splits if_splits)
    then show ?thesis using b unfolding scanned_def by auto
  qed (use assms(2) in simp)
qed

lemma scan_tokens_scanned:
  assumes "fold_result (scan_token fl graphemes lm nexts tokens predicted) xs sc = Inr sc'" and "best_character sc = None"
    and "best_character sc' = Some g"
  shows "scanned graphemes lm nexts predicted g"
proof -
  let ?P = "\<lambda>sc. \<forall>g. best_character sc = Some g \<longrightarrow> scanned graphemes lm nexts predicted g"
  have "?P sc'"
    by (rule fold_result_invariant [OF assms(1), where P = "\<lambda>_. ?P"]) (use assms(2) scan_token_scanned in \<open>simp, blast\<close>)
  then show ?thesis using assms(3) by blast
qed

definition generated :: "segmenter \<Rightarrow> ZenzLanguageModel \<Rightarrow> ustr list \<Rightarrow> ustr \<Rightarrow> nat \<Rightarrow> ustr \<Rightarrow> bool" where
  "generated graphemes lm nexts predicted k s \<longleftrightarrow>
     (\<exists>gs. s = predicted @ concat gs \<and> length gs \<le> k \<and>
        (\<forall>i < length gs. scanned graphemes lm nexts (predicted @ concat (take i gs)) (gs ! i)))"

lemma generated_Nil: "generated graphemes lm nexts predicted k predicted"
  by (auto simp: generated_def intro: exI [of _ "[]"])

lemma generated_Cons:
  assumes "scanned graphemes lm nexts predicted g" and "generated graphemes lm nexts (predicted @ g) k s"
  shows "generated graphemes lm nexts predicted (Suc k) s"
proof -
  obtain gs where gs: "s = (predicted @ g) @ concat gs" "length gs \<le> k"
    "\<forall>i < length gs. scanned graphemes lm nexts ((predicted @ g) @ concat (take i gs)) (gs ! i)"
    using assms(2) unfolding generated_def by blast
  have "scanned graphemes lm nexts (predicted @ concat (take i (g # gs))) ((g # gs) ! i)" if "i < length (g # gs)" for i
    using that assms(1) gs(3) by (cases i) simp_all
  then show ?thesis using gs(1,2) unfolding generated_def by (intro exI [of _ "g # gs"]) auto
qed

lemma generate_loop_generated:
  assumes "generate_loop k fl graphemes lm request min_length tokens predicted n = Inr s"
  shows "generated graphemes lm (gr_possible_nexts request) predicted k s"
  using assms
proof (induction k arbitrary: tokens predicted n)
  case (Suc k)
  let ?nexts = "gr_possible_nexts request"
  let ?sc0 = "\<lparr>sum_exp = f32_zero, sum_exp_value = f32_zero, best_value = 0xFF800000, best_character = None\<rparr>"
  obtain logits sc where
    sc: "fold_result (scan_token fl graphemes lm ?nexts tokens predicted) (enumerate 0 logits) ?sc0 = Inr sc"
    and rest: "(if n \<ge> min_length \<and> ends_by_entropy fl (gr_max_entropy request) sc then Inr predicted
             else
               (case best_character sc of
                  None \<Rightarrow> Inr predicted
                | Some g \<Rightarrow>
                    if g \<in> sentence_ends \<and> n \<ge> min_length then Inr predicted
                    else
                      then_do (tokenize_for_model lm g False) (\<lambda>appended.
                        if appended = [] then Inr (predicted @ g)
                        else generate_loop k fl graphemes lm request min_length (tokens @ appended) (predicted @ g) (Suc n)))) = Inr s"
    using Suc.prems by (auto simp: then_do_Inr split: if_splits)
  show ?case
  proof (cases "s = predicted")
    case False
    obtain g where g: "best_character sc = Some g"
      using rest False by (cases "best_character sc") (auto split: if_splits)
    have "then_do (tokenize_for_model lm g False) (\<lambda>appended.
        if appended = [] then Inr (predicted @ g)
        else generate_loop k fl graphemes lm request min_length (tokens @ appended) (predicted @ g) (Suc n)) = Inr s"
      using rest False unfolding g option.case by (simp split: if_split_asm)
    then obtain appended where s: "(if appended = [] then Inr (predicted @ g)
        else generate_loop k fl graphemes lm request min_length (tokens @ appended) (predicted @ g) (Suc n)) = Inr s"
      unfolding then_do_Inr by blast
    have "generated graphemes lm ?nexts (predicted @ g) k s"
      using s Suc.IH generated_Nil [of graphemes lm ?nexts "predicted @ g" k] by (cases "appended = []") auto
    then show ?thesis using generated_Cons [OF scan_tokens_scanned [OF sc _ g]] by simp
  qed (simp add: generated_Nil)
qed (simp add: generated_Nil)

text \<open>
  C34. The input that is generated is one the request allows: at most \<open>count\<close> graphemes, each the first of a piece the model
  has, such that every beginning of the text is the beginning of one of the possible continuations, if there are any.
\<close>

theorem generated_input_allowed:
  assumes "generate_next_input fl graphemes lm request = Inr s"
  shows "\<exists>gs. s = concat gs \<and> length gs \<le> gr_count request \<and>
    (\<forall>i < length gs. is_allowed (gr_possible_nexts request) (concat (take (Suc i) gs)) \<and>
       (\<exists>t bytes v vs. token_to_piece lm t = Inr bytes \<and> from_utf8 bytes = Some v \<and> graphemes v = gs ! i # vs))"
proof -
  have "generated graphemes lm (gr_possible_nexts request) [] (gr_count request) s"
    using assms generate_loop_generated generated_Nil
    by (auto simp: generate_next_input_def then_do_Inr split: if_splits option.splits)
  then obtain gs where "s = concat gs" "length gs \<le> gr_count request"
    "\<forall>i < length gs. scanned graphemes lm (gr_possible_nexts request) (concat (take i gs)) (gs ! i)"
    unfolding generated_def by auto
  then show ?thesis by (intro exI [of _ gs]) (simp add: scanned_def take_Suc_conv_app_nth)
qed

section \<open>A small model\<close>

text \<open>It knows three tokens: the end and two letters, and always prefers the second letter.\<close>

definition sample_model :: ZenzLanguageModel where
  "sample_model =
     \<lparr>vocabulary_size = 3, eos_token = 0, tokenize = (\<lambda>v special. Inr (map (\<lambda>c. if c = 0x62 then 2 else 1) v)),
      token_to_piece = (\<lambda>t. Inr [if t = 2 then 0x62 else 0x61]), next_logits = (\<lambda>ts. Inr [0, 0, 0x3F800000]),
      logits_for_suffix = (\<lambda>ts i sequence. Inr (concat (replicate (length ts - i) [0, 0, 0x3F800000])))\<rparr>"

definition sample_floats :: FloatFunctions where
  "sample_floats = \<lparr>fl_exp = (\<lambda>x. 0x3F800000), fl_ln = (\<lambda>x. 0)\<rparr>"

definition sample_request :: "PrefixConstraint \<Rightarrow> ZenzEvaluationRequest" where
  "sample_request k =
     \<lparr>er_input = [0x61, 0x62], er_cursor_position = Some 2,
      er_candidate = single scalar_graphemes [0x62, 0x61] 0 (SurfaceCount 2) 0 [], er_rich = False, er_constraint = k,
      er_personalization = None, er_version = V2 \<lparr>v2_profile = None, v2_left_context = None, v2_max_left_context_length = None\<rparr>\<rparr>"

lemma evaluation_finds_first_disagreement_witness:
  "evaluate_candidate_tokens sample_floats scalar_graphemes sample_model (sample_request no_constraint) [1] [0x62, 0x61] 0 =
     Inr (FixRequired [0x62, 0x62]) \<and>
   (\<exists>i ps p. i < length [2, 1 :: int] \<and> collect (map (token_to_piece sample_model) (take i [2, 1])) = Inr ps \<and>
      [0x62, 0x62] = concat ps @ p)"
proof -
  have "tokenize_for_model sample_model [0x62, 0x61] False = Inr [2, 1]" by code_simp
  moreover have "learned_token_priorities sample_floats scalar_graphemes sample_model
    (entries (er_candidate (sample_request no_constraint))) (length [2, 1 :: int]) = Inr []" by code_simp
  moreover have "logits_for_suffix sample_model ([1] @ butlast [2, 1]) (length [1 :: int] - 1 + 0) Evaluation =
    Inr [0, 0, 0x3F800000, 0, 0, 0x3F800000]" by code_simp
  moreover have r: "evaluate_candidate_tokens sample_floats scalar_graphemes sample_model (sample_request no_constraint) [1] [0x62, 0x61] 0 =
     Inr (FixRequired [0x62, 0x62])" by code_simp
  ultimately show ?thesis
    using evaluation_finds_first_disagreement [of sample_model "[0x62, 0x61]" "[2, 1]" sample_floats scalar_graphemes
        "sample_request no_constraint" "[]" 0 "[1]" "[0, 0, 0x3F800000, 0, 0, 0x3F800000]" "FixRequired [0x62, 0x62]"]
    unfolding CandidateEvaluation.case by blast
qed

definition sample_fixed :: PrefixConstraint where
  "sample_fixed = (new_constraint [0x62])\<lparr>fixed_prefix := Some \<lparr>fp_byte_count = 1, fp_ruby_count = 1\<rparr>\<rparr>"

lemma fixed_beginning_kept_witness:
  "case snd (evaluate sample_floats scalar_graphemes sample_model (sample_request sample_fixed) default_evaluator) of
      Inl e \<Rightarrow> e \<noteq> ExpectationFailed
    | Inr (FixRequired b) \<Rightarrow> prefix [0x62] b
    | Inr (WholeResult s) \<Rightarrow> prefix [0x62] (utf8 s)
    | Inr (Pass total_score alts) \<Rightarrow> list_all (\<lambda>a. prefix [0x62] (alt_bytes a)) alts"
proof -
  let ?f = "\<lparr>fp_byte_count = 1, fp_ruby_count = 1\<rparr>"
  have a: "list_all is_scalar (cand_text (er_candidate (sample_request sample_fixed)))" by code_simp
  have f: "fixed_prefix (er_constraint (sample_request sample_fixed)) = Some ?f" by code_simp
  have g: "fixed_prefix_applies scalar_graphemes (sample_request sample_fixed) ?f" by code_simp
  have t: "take (fp_byte_count ?f) (pc_bytes (er_constraint (sample_request sample_fixed))) = [0x62]" by code_simp
  show ?thesis
    using fixed_beginning_kept [OF a f g, of sample_floats sample_model default_evaluator] unfolding t .
qed

definition sample_generation :: ZenzInputGenerationRequest where
  "sample_generation =
     \<lparr>gr_left_context = [], gr_composing_text = [], gr_count = 1, gr_min_length = 1, gr_max_entropy = None,
      gr_version = V3 \<lparr>v3_profile = None, v3_topic = None, v3_style = None, v3_preference = None, v3_left_context = None,
        v3_right_context = None, v3_max_left_context_length = None, v3_max_right_context_length = None,
        v3_enable_alignment_separator = False\<rparr>, gr_possible_nexts = []\<rparr>"

lemma generated_input_allowed_witness:
  "generate_next_input sample_floats scalar_graphemes (sample_model\<lparr>vocabulary_size := 1, next_logits := \<lambda>ts. Inr [0x3F800000]\<rparr>)
     sample_generation = Inr [0x61] \<and> (\<exists>gs. [0x61 :: uchar] = concat gs \<and> length gs \<le> 1)"
proof -
  have g: "generate_next_input sample_floats scalar_graphemes
     (sample_model\<lparr>vocabulary_size := 1, next_logits := \<lambda>ts. Inr [0x3F800000]\<rparr>) sample_generation = Inr [0x61]" by code_simp
  have "gr_count sample_generation = 1" by (simp add: sample_generation_def)
  then show ?thesis using generated_input_allowed [OF g] g by auto
qed

end
