(* ===== verification/Lattice_Constraint.thy ===== *)
theory Lattice_Constraint
  imports Lattice_Candidates
begin

text \<open>
  Every candidate of a conversion with a constraint is one the constraint allows.
\<close>

lemma complete_path_entry: "complete_path sr n p = Inr q \<Longrightarrow> path_entry q = node_entry n"
  by (auto simp: complete_path_def then_do_Inr)

lemma completed_paths_entry:
  assumes "completed_paths sr n = Inr ps" and "p \<in> set ps"
  shows "path_entry p = node_entry n"
proof -
  obtain qs where qs: "collect (map (complete_path sr n) (predecessors n)) = Inr qs" "set ps \<subseteq> set qs"
    using assms(1) by (auto simp: completed_paths_def then_do_Inr)
  have "Inr p \<in> set (map (complete_path sr n) (predecessors n))" using qs assms(2) by (auto simp: collect_Inr)
  then show ?thesis using complete_path_entry by auto
qed

definition allowed_paths :: "PrefixConstraint \<Rightarrow> RegisteredPath list \<Rightarrow> bool" where
  "allowed_paths k ps \<longleftrightarrow> (\<forall>p \<in> set ps. may_complete k (path_entry p) (path_bytes p))"

lemma visit_node_allowed:
  assumes "visit_node sr j lr = Inr lr'" and "sr_constraint sr = Some k" and "allowed_paths k (snd lr)"
  shows "allowed_paths k (snd lr')"
proof (cases lr)
  case (Pair l found)
  show ?thesis
  proof (cases "snd lr' = found")
    case False
    then obtain ps where ps: "completed_paths sr (nodes l ! j) = Inr ps"
      and f: "snd lr' = found @ filter (\<lambda>p. may_complete k (node_entry (nodes l ! j)) (path_bytes p)) ps"
      using assms(1,2) by (auto simp: Pair visit_node_def Let_def then_do_Inr split: if_splits)
    show ?thesis using assms(3) completed_paths_entry [OF ps] unfolding f by (auto simp: Pair allowed_paths_def)
  qed (use assms(3) Pair in simp)
qed

lemma search_paths_allowed:
  assumes "search_paths cv tables limit ctx md c = Inr found" and "constraint md = Some k"
  shows "allowed_paths k found"
proof -
  let ?sr = "search_of cv tables limit ctx md c"
  have sr: "sr_constraint ?sr = Some k" using assms(2) by (simp add: search_of_def)
  obtain l lr where f: "fold_result (visit_index ?sr)
      (lattice_indices (new_index_map (cv_order cv) tables c) (length (input c)) (length (surface c))) (l, []) = Inr lr"
    and found: "found = snd lr"
    using assms(1) by (auto simp: search_paths_def then_do_Inr)
  have index: "allowed_paths k (snd b)" if v: "visit_index ?sr d a = Inr b" and a: "allowed_paths k (snd a)" for d a b
  proof -
    obtain js where "fold_result (visit_node ?sr) js a = Inr b" using v by (auto simp: visit_index_def then_do_Inr)
    then show ?thesis
      by (rule fold_result_keeps [where P = "\<lambda>a. allowed_paths k (snd a)"]) (use a visit_node_allowed sr in blast)+
  qed
  have "allowed_paths k (snd lr)"
    by (rule fold_result_keeps [OF f, where P = "\<lambda>a. allowed_paths k (snd a)"]) (use index in \<open>auto simp: allowed_paths_def\<close>)
  then show ?thesis by (simp add: found)
qed

lemma path_list_last: "path_list p \<noteq> []" "last (path_list p) = p"
  by (cases p; simp)+

lemma utf8_concat: "utf8 (concat vs) = concat (map utf8 vs)"
  by (induction vs) (simp_all add: utf8_def)

lemma constrained_candidates:
  assumes "convert_modified cv tables limit ctx md c = Inr cs" and "constraint md = Some k" and "x \<in> set cs"
  shows "entries x \<noteq> [] \<and> may_complete k (last (entries x)) (utf8 (cand_text x))"
proof (cases "limit = 0 \<or> is_empty_composing c")
  case True
  then show ?thesis using assms(1,3) by (simp add: convert_modified_def)
next
  case False
  obtain paths where paths: "search_paths cv tables limit ctx md c = Inr paths"
    and cs: "cs = unique_candidates (sort_by by_value (map (make_candidate (cv_graphemes cv) (cv_lookups cv) ctx) paths))"
    using assms(1) False by (auto simp: convert_modified_def then_do_Inr)
  obtain p where p: "p \<in> set paths" and x: "x = make_candidate (cv_graphemes cv) (cv_lookups cv) ctx p"
    using assms(3) unique_candidates_facts(3) unfolding cs by fastforce
  have e: "entries x = map path_entry (path_list p)" "utf8 (cand_text x) = path_bytes p"
    unfolding x by (simp_all add: make_candidate_parts(1,2) path_bytes_def utf8_concat comp_def)
  have "last (entries x) = path_entry p" using path_list_last by (simp add: e(1) last_map)
  then show ?thesis
    using search_paths_allowed [OF paths assms(2)] p e path_list_last(1) by (simp add: allowed_paths_def)
qed

end
