(* ===== verification/Neural_Properties.thy ===== *)
theory Neural_Properties
  imports Neural Zenz_Properties Lattice_Constraint
begin

text \<open>
  What the neural conversion presents: drafts of the lattice only, the approved one in front, at most one for each
  inference, and none that contradicts an accepted prediction.
\<close>

section \<open>Choices among drafts\<close>

interpretation value_rank: keyed_comparison "\<lambda>l r. total_cmp (cand_value l) (cand_value r)" "\<lambda>c. total_key (cand_value c)"
  by unfold_locales (simp add: total_cmp_def)

interpretation indexed_rank: keyed_comparison "\<lambda>l r. total_cmp (cand_value (snd l)) (cand_value (snd r))"
  "\<lambda>p :: nat \<times> Candidate. total_key (cand_value (snd p))"
  by unfold_locales (simp add: total_cmp_def)

lemma best_candidate_Some: "best_candidate cs = Some (i, c) \<Longrightarrow> i < length cs \<and> c = cs ! i"
  using indexed_rank.max_by_mem [of "enumerate 0 cs" "(i, c)"] by (auto simp: best_candidate_def in_set_enumerate_eq)

lemma retry_candidate_Some: "retry_candidate cs current k = Some i \<Longrightarrow> i < length cs"
  by (auto simp: retry_candidate_def find_Some_iff)

lemma review_rejection_Retry: "review_rejection k next cs current c = (k', Retry i) \<Longrightarrow> i < length cs"
  using retry_candidate_Some by (auto simp: review_rejection_def retry_or_research_def split: if_splits option.splits)

section \<open>Drafts\<close>

definition drafts :: "Converter \<Rightarrow> InputTableRegistry \<Rightarrow> ConversionSession \<Rightarrow> Candidate set" where
  "drafts cv tables s = {c. \<exists>n k cs. snd (request_zenz_draft cv tables n k s) = Inr cs \<and> c \<in> set cs}"

lemma request_zenz_draft_candidates:
  "snd (request_zenz_draft cv tables n k (s\<lparr>candidates := xs\<rparr>)) = snd (request_zenz_draft cv tables n k s)"
  "\<exists>ys. fst (request_zenz_draft cv tables n k (s\<lparr>candidates := xs\<rparr>)) = s\<lparr>candidates := ys\<rparr>"
proof -
  have k: "constrain_zenz_prefix g k (s\<lparr>candidates := xs\<rparr>) = constrain_zenz_prefix g k s" for g
    by (simp add: constrain_zenz_prefix_def accepted_prediction_def split: option.split)
  show "snd (request_zenz_draft cv tables n k (s\<lparr>candidates := xs\<rparr>)) = snd (request_zenz_draft cv tables n k s)"
    unfolding request_zenz_draft_def k by (simp add: Let_def additional_dictionary_def split: sum.split)
  show "\<exists>ys. fst (request_zenz_draft cv tables n k (s\<lparr>candidates := xs\<rparr>)) = s\<lparr>candidates := ys\<rparr>"
    unfolding request_zenz_draft_def Let_def by (auto split: sum.split)
qed

lemma request_zenz_draft_drafts:
  assumes "request_zenz_draft cv tables n k (s\<lparr>candidates := xs\<rparr>) = (s', Inr cs)"
  shows "set cs \<subseteq> drafts cv tables s" and "\<exists>ys. s' = s\<lparr>candidates := ys\<rparr>"
proof -
  have "snd (request_zenz_draft cv tables n k s) = Inr cs"
    using assms request_zenz_draft_candidates(1) [where cv = cv and tables = tables and n = n and k = k and s = s and xs = xs] by simp
  then show "set cs \<subseteq> drafts cv tables s" unfolding drafts_def by blast
  show "\<exists>ys. s' = s\<lparr>candidates := ys\<rparr>"
    using assms request_zenz_draft_candidates(2) [where cv = cv and tables = tables and n = n and k = k and s = s and xs = xs] by simp
qed

section \<open>The loop\<close>

definition review_ok :: "NeuralCall \<Rightarrow> ConversionSession \<Rightarrow> Review \<Rightarrow> bool" where
  "review_ok nc s rv \<longleftrightarrow>
     (\<exists>xs. rv_session rv = s\<lparr>candidates := xs\<rparr>) \<and>
     evaluator_ok (nc_floats nc) (cv_graphemes (nc_converter nc)) (nc_model nc) (rv_evaluator rv) \<and>
     set (rv_constructed rv @ rv_inserted rv @ rv_draft rv) \<subseteq> drafts (nc_converter nc) (nc_tables nc) s"

definition candidate_ok :: "Review \<Rightarrow> bool" where
  "candidate_ok rv \<longleftrightarrow> rv_candidate rv \<in> set (rv_draft rv)"

text \<open>The model passes a candidate under some constraint.\<close>

definition approved :: "NeuralCall \<Rightarrow> Candidate \<Rightarrow> bool" where
  "approved nc c \<longleftrightarrow>
     (\<exists>rv ev total_score alts. rv_candidate rv = c \<and>
        evaluate (nc_floats nc) (cv_graphemes (nc_converter nc)) (nc_model nc) (evaluation_request nc rv) (rv_evaluator rv) =
          (ev, Inr (Pass total_score alts)))"

definition result_ok :: "NeuralCall \<Rightarrow> ConversionSession \<Rightarrow> nat \<Rightarrow> neural_result \<Rightarrow> bool" where
  "result_ok nc s n r \<longleftrightarrow>
     (case r of (s', ev, cache, answer) \<Rightarrow>
        \<exists>xs. s' = s\<lparr>candidates := xs\<rparr> \<and>
          (case answer of
             Inl e \<Rightarrow> True
           | Inr a \<Rightarrow>
               set xs \<subseteq> drafts (nc_converter nc) (nc_tables nc) s \<and>
               length xs \<le> n + (if zo_rich (nc_options nc) then 5 else 0) \<and>
               (case a of None \<Rightarrow> True
                | Some c \<Rightarrow> xs \<noteq> [] \<and> hd xs = c \<and> approved nc c \<and> satisfying_candidate cache = Some c)))"

lemma finish_review_ok:
  assumes "review_ok nc s rv" and "length (rv_inserted rv) \<le> n + (if zo_rich (nc_options nc) then 5 else 0)"
    and "\<And>c. answer = Some c \<Longrightarrow> rv_inserted rv \<noteq> [] \<and> hd (rv_inserted rv) = c \<and> approved nc c \<and> satisfying = Some c"
  shows "result_ok nc s n (finish_review nc rv k satisfying evaluated answer)"
  using assms
  by (auto simp: finish_review_def result_ok_def review_ok_def set_zenz_candidates_def updated_cache_def split: option.split)

lemma result_ok_mono: "result_ok nc s m r \<Longrightarrow> m \<le> n \<Longrightarrow> result_ok nc s n r"
  by (fastforce simp: result_ok_def split: prod.splits sum.splits)

lemma start_search_ok:
  assumes "review_ok nc s rv"
  shows "case start_search nc rv of
      Inl r \<Rightarrow> result_ok nc s (length (rv_inserted rv)) r
    | Inr rv' \<Rightarrow> review_ok nc s rv' \<and> candidate_ok rv' \<and> rv_inserted rv' = rv_inserted rv"
proof -
  let ?k = "rv_constraint rv"
  let ?n = "if is_empty_constraint ?k then 2 else if zo_rich (nc_options nc) then 3 else 1"
  obtain xs where xs: "rv_session rv = s\<lparr>candidates := xs\<rparr>" using assms by (auto simp: review_ok_def)
  obtain s' r where d: "request_zenz_draft (nc_converter nc) (nc_tables nc) ?n ?k (rv_session rv) = (s', r)" by fastforce
  show ?thesis
  proof (cases r)
    case (Inl e)
    obtain ys where "s' = s\<lparr>candidates := ys\<rparr>"
      using request_zenz_draft_candidates(2) [of "nc_converter nc" "nc_tables nc" ?n ?k xs s] d xs by auto
    then show ?thesis using d Inl by (auto simp: start_search_def Let_def result_ok_def)
  next
    case (Inr draft)
    note dr = request_zenz_draft_drafts [OF d [unfolded xs Inr]]
    let ?rv = "rv\<lparr>rv_session := s', rv_constructed := rv_constructed rv @ draft, rv_draft := draft\<rparr>"
    have ok: "review_ok nc s ?rv" using assms dr by (auto simp: review_ok_def)
    show ?thesis
    proof (cases "best_candidate draft")
      case None
      then show ?thesis using d Inr finish_review_ok [OF ok, of "length (rv_inserted rv)" None] by (simp add: start_search_def Let_def)
    next
      case (Some p)
      obtain i c where p: "p = (i, c)" by fastforce
      then have "c \<in> set draft" using best_candidate_Some [of draft i c] Some by auto
      moreover have "review_ok nc s (?rv\<lparr>rv_index := i, rv_candidate := c\<rparr>)" using ok by (simp add: review_ok_def)
      ultimately show ?thesis using d Inr Some p by (simp add: start_search_def Let_def candidate_ok_def)
    qed
  qed
qed

lemma insert_at_one_facts: "set (insert_at_one x xs) = insert x (set xs)" "length (insert_at_one x xs) = Suc (length xs)"
  "xs \<noteq> [] \<Longrightarrow> insert_at_one x xs \<noteq> [] \<and> hd (insert_at_one x xs) = hd xs"
  by (cases xs; auto simp: insert_at_one_def)+

lemma insert_rich_candidates_ok:
  assumes "insert_rich_candidates cv tables constructed alts (s\<lparr>candidates := xs\<rparr>) inserted = (s', inserted', e)"
    and "set constructed \<subseteq> drafts cv tables s" and "set inserted \<subseteq> drafts cv tables s" and "inserted \<noteq> []"
  shows "(\<exists>ys. s' = s\<lparr>candidates := ys\<rparr>) \<and> set inserted' \<subseteq> drafts cv tables s \<and> inserted' \<noteq> [] \<and> hd inserted' = hd inserted \<and>
    length inserted' \<le> length inserted + length alts"
  using assms
proof (induction alts arbitrary: xs inserted)
  case Nil
  then show ?case by auto
next
  case (Cons a alts)
  let ?k = "normalized (alt_bytes a) False False"
  let ?best = "max_by (\<lambda>l r. total_cmp (cand_value l) (cand_value r)) (filter (\<lambda>c. candidate_satisfies c ?k) constructed)"
  have step: ?case if "insert_rich_candidates cv tables constructed alts (s\<lparr>candidates := ys\<rparr>) ins = (s', inserted', e)"
    and "set ins \<subseteq> drafts cv tables s" and "ins \<noteq> []" and "hd ins = hd inserted" and "length ins \<le> Suc (length inserted)" for ys ins
    using Cons.IH [OF that(1) Cons.prems(2) that(2,3)] that(4,5) by auto
  show ?case
  proof (cases "f32_lt 0x3E800000 (probability_ratio a)")
    case False
    then show ?thesis using step [of xs inserted] Cons.prems by simp
  next
    case likely: True
    show ?thesis
    proof (cases ?best)
      case (Some c)
      have "c \<in> set constructed" using value_rank.max_by_mem [OF Some] by simp
      then have "c \<in> drafts cv tables s" using Cons.prems(2) by blast
      then show ?thesis
        using step [of xs "insert_at_one c inserted"] Cons.prems likely Some insert_at_one_facts(3) [OF Cons.prems(4), of c]
        by (simp add: Let_def insert_at_one_facts(1,2))
    next
      case None
      show ?thesis
      proof (cases "f32_lt 0x3F000000 (probability_ratio a)")
        case False
        then show ?thesis using step [of xs inserted] Cons.prems likely None by (simp add: Let_def)
      next
        case True
        obtain s1 r where d: "request_zenz_draft cv tables 3 ?k (s\<lparr>candidates := xs\<rparr>) = (s1, r)" by fastforce
        show ?thesis
        proof (cases r)
          case (Inl err)
          obtain ys where "s1 = s\<lparr>candidates := ys\<rparr>"
            using request_zenz_draft_candidates(2) [of cv tables 3 ?k xs s] d by auto
          then show ?thesis using Cons.prems likely None True d Inl by (auto simp: Let_def)
        next
          case (Inr draft)
          note dr = request_zenz_draft_drafts [OF d [unfolded Inr]]
          let ?ins = "case best_candidate draft of Some (i, c) \<Rightarrow> insert_at_one c inserted | None \<Rightarrow> inserted"
          have best: "c \<in> drafts cv tables s" if "best_candidate draft = Some (i, c)" for i c
            using best_candidate_Some [OF that] dr(1) by auto
          have ins: "set ?ins \<subseteq> drafts cv tables s" "?ins \<noteq> []" "hd ?ins = hd inserted" "length ?ins \<le> Suc (length inserted)"
            by (use Cons.prems(3,4) best in \<open>auto simp: insert_at_one_facts split: option.split\<close>)
          obtain ys where "s1 = s\<lparr>candidates := ys\<rparr>" using dr(2) by blast
          then have "insert_rich_candidates cv tables constructed alts (s\<lparr>candidates := ys\<rparr>) ?ins = (s', inserted', e)"
            using Cons.prems(1) likely None True d Inr by (simp add: Let_def)
          then show ?thesis by (rule step) (use ins in simp_all)
        qed
      qed
    qed
  qed
qed

lemma evaluation_alternatives:
  assumes "evaluate_candidate_tokens fl graphemes lm request ts v n = Inr (Pass total_score alts)"
  shows "length alts \<le> 5"
proof -
  consider "alts = []" | tokens priorities row "is" pre where
    "evaluate_loop fl lm (er_personalization request) (er_rich request) tokens priorities row is (f32_zero, [], pre) =
       Inr (Pass total_score alts)"
    using assms by (auto simp: evaluate_candidate_tokens_def Let_def then_do_Inr split: if_splits)
  then show ?thesis
  proof cases
    case 2
    from evaluate_loop_meaning [OF this] show ?thesis by (simp add: loop_meaning_def)
  qed simp
qed

lemma evaluate_alternatives:
  assumes "evaluator_ok fl graphemes lm ev" and "evaluate fl graphemes lm request ev = (ev', Inr (Pass total_score alts))"
  shows "length alts \<le> 5"
proof -
  have as_is: "length as \<le> 5" if "evaluate_as_is fl graphemes lm q ev = (ev1, Inr (Pass x as))" for q ev1 x as
    using evaluate_as_is_ok(3) [OF assms(1) that, symmetric] evaluation_alternatives
    by (auto simp: fresh_evaluation_def then_do_Inr)
  have fixed: "\<exists>as. r = Pass total_score as \<and> length as = length alts"
    if "prepend_fixed b t r = Pass total_score alts" for b t r
    using that by (cases r) auto
  have plain: "length alts \<le> 5" if "map_prod id inferred (evaluate_as_is fl graphemes lm request ev) = (ev', Inr (Pass total_score alts))"
  proof -
    obtain ev1 r where e: "evaluate_as_is fl graphemes lm request ev = (ev1, r)" by fastforce
    then have "r = Inr (Pass total_score alts)" using that by (cases r) auto
    then show ?thesis using as_is e by blast
  qed
  show ?thesis
    using assms(2) plain as_is fixed
    by (auto simp: evaluate_def Let_def split: option.splits prod.splits sum.splits if_splits) (metis as_is fixed)+
qed

lemma accept_candidate_ok:
  assumes ok: "review_ok nc s rv" and first: "rv_inserted rv \<noteq> []" "hd (rv_inserted rv) = rv_candidate rv"
    and a: "approved nc (rv_candidate rv)" and alts: "length alts \<le> 5"
  shows "result_ok nc s (length (rv_inserted rv)) (accept_candidate nc rv alts)"
proof (cases "zo_rich (nc_options nc)")
  case False
  then show ?thesis using ok first a by (simp add: accept_candidate_def, intro finish_review_ok) (auto simp: review_ok_def)
next
  case True
  obtain xs where xs: "rv_session rv = s\<lparr>candidates := xs\<rparr>" using ok by (auto simp: review_ok_def)
  obtain s' inserted e where r: "insert_rich_candidates (nc_converter nc) (nc_tables nc) (rv_constructed rv) (rev alts)
      (s\<lparr>candidates := xs\<rparr>) (rv_inserted rv) = (s', inserted, e)" using prod_cases3 by blast
  have i: "(\<exists>ys. s' = s\<lparr>candidates := ys\<rparr>) \<and> set inserted \<subseteq> drafts (nc_converter nc) (nc_tables nc) s \<and> inserted \<noteq> [] \<and>
      hd inserted = hd (rv_inserted rv) \<and> length inserted \<le> length (rv_inserted rv) + length (rev alts)"
    by (rule insert_rich_candidates_ok [OF r]) (use ok first in \<open>auto simp: review_ok_def\<close>)
  show ?thesis
  proof (cases e)
    case None
    let ?rv = "rv\<lparr>rv_session := s', rv_inserted := inserted\<rparr>"
    have "review_ok nc s ?rv" using ok i by (auto simp: review_ok_def)
    then have "result_ok nc s (length (rv_inserted rv))
        (finish_review nc ?rv (rv_constraint rv) (Some (rv_candidate rv)) (Some (rv_candidate rv)) (Some (rv_candidate rv)))"
      by (rule finish_review_ok) (use i alts True first a in auto)
    then show ?thesis using True r None by (simp add: accept_candidate_def xs)
  next
    case (Some err)
    then show ?thesis using True r i by (auto simp: accept_candidate_def xs result_ok_def)
  qed
qed

lemma reject_candidate_ok:
  assumes "review_ok nc s rv"
  shows "case reject_candidate nc rv next of
      Inl r \<Rightarrow> result_ok nc s (length (rv_inserted rv)) r
    | Inr rv' \<Rightarrow> review_ok nc s rv' \<and> candidate_ok rv' \<and> rv_inserted rv' = rv_inserted rv"
proof -
  obtain k action where r: "review_rejection (rv_constraint rv) next (rv_draft rv) (rv_index rv) (rv_candidate rv) = (k, action)"
    by fastforce
  show ?thesis
  proof (cases action)
    case Fail
    then show ?thesis
      using r finish_review_ok [OF assms, of "length (rv_inserted rv)" None] by (simp add: reject_candidate_def)
  next
    case (Retry i)
    then show ?thesis using r review_rejection_Retry assms by (auto simp: reject_candidate_def review_ok_def candidate_ok_def)
  next
    case Research
    have "review_ok nc s (rv\<lparr>rv_constraint := k\<rparr>)" using assms by (simp add: review_ok_def)
    from start_search_ok [OF this] show ?thesis
      using r Research by (cases "start_search nc (rv\<lparr>rv_constraint := k\<rparr>)") (simp_all add: reject_candidate_def)
  qed
qed

lemma review_loop_ok:
  assumes "review_ok nc s rv" and "candidate_ok rv"
  shows "result_ok nc s (length (rv_inserted rv) + remaining + 1) (review_loop remaining nc rv)"
  using assms
proof (induction remaining arbitrary: rv)
  case (0 rv)
  let ?rv = "rv\<lparr>rv_inserted := rv_candidate rv # rv_inserted rv\<rparr>"
  have "review_ok nc s ?rv" using 0 by (auto simp: review_ok_def candidate_ok_def)
  from finish_review_ok [OF this, of _ None] show ?case by (simp add: review_loop.simps)
next
  case (Suc remaining rv)
  let ?rv = "rv\<lparr>rv_inserted := rv_candidate rv # rv_inserted rv\<rparr>"
  let ?n = "length (rv_inserted rv) + Suc remaining + 1"
  have ok: "review_ok nc s ?rv" using Suc.prems by (auto simp: review_ok_def candidate_ok_def)
  show ?case
  proof (cases "nc_defers nc")
    case True
    from finish_review_ok [OF ok, of ?n None] show ?thesis using True by (simp add: review_loop.simps [of "Suc _"] Let_def)
  next
    case False
    obtain ev verdict where e: "evaluate (nc_floats nc) (cv_graphemes (nc_converter nc)) (nc_model nc) (evaluation_request nc ?rv)
        (rv_evaluator ?rv) = (ev, verdict)" by fastforce
    have eok: "evaluator_ok (nc_floats nc) (cv_graphemes (nc_converter nc)) (nc_model nc) (rv_evaluator ?rv)"
      using ok by (simp add: review_ok_def)
    have evok: "evaluator_ok (nc_floats nc) (cv_graphemes (nc_converter nc)) (nc_model nc) ev"
      using evaluate_ok [OF eok, of "evaluation_request nc ?rv"] by (simp only: e fst_conv)
    let ?rv2 = "?rv\<lparr>rv_evaluator := ev\<rparr>"
    have ok2: "review_ok nc s ?rv2" using ok evok by (simp add: review_ok_def)
    have next_step: "result_ok nc s ?n (case reject_candidate nc ?rv2 next of Inl r \<Rightarrow> r | Inr rv \<Rightarrow> review_loop remaining nc rv)"
      for "next"
    proof (cases "reject_candidate nc ?rv2 next")
      case (Inl r)
      then have "result_ok nc s (length (rv_inserted ?rv2)) r" using reject_candidate_ok [OF ok2, of "next"] by simp
      then show ?thesis unfolding Inl sum.case by (rule result_ok_mono) simp
    next
      case (Inr rv')
      then have r: "review_ok nc s rv'" "candidate_ok rv'" "rv_inserted rv' = rv_inserted ?rv2"
        using reject_candidate_ok [OF ok2, of "next"] by auto
      from Suc.IH [OF r(1,2)] show ?thesis unfolding Inr sum.case by (rule result_ok_mono) (simp add: r(3))
    qed
    show ?thesis
    proof (cases verdict)
      case (Inl err)
      obtain xs where "rv_session rv = s\<lparr>candidates := xs\<rparr>" using Suc.prems(1) by (auto simp: review_ok_def)
      then show ?thesis using False e Inl by (auto simp: review_loop.simps [of "Suc _"] Let_def result_ok_def)
    next
      case (Inr v)
      show ?thesis
      proof (cases v)
        case (Pass total_score alts)
        have "approved nc (rv_candidate rv)"
          unfolding approved_def by (rule exI [of _ ?rv]) (use e Inr Pass in auto)
        moreover have "length alts \<le> 5" using evaluate_alternatives [OF eok] e Inr Pass by blast
        ultimately have "result_ok nc s (length (rv_inserted ?rv2)) (accept_candidate nc ?rv2 alts)"
          by (intro accept_candidate_ok [OF ok2]) simp_all
        then have "result_ok nc s ?n (accept_candidate nc ?rv2 alts)" by (rule result_ok_mono) simp
        then show ?thesis using False e Inr Pass by (simp add: review_loop.simps [of "Suc _"] Let_def)
      next
        case (FixRequired bytes)
        then show ?thesis using next_step False e Inr by (simp add: review_loop.simps [of "Suc _"] Let_def)
      next
        case (WholeResult t)
        then show ?thesis using next_step False e Inr by (simp add: review_loop.simps [of "Suc _"] Let_def)
      qed
    qed
  qed
qed

section \<open>The conversion\<close>

lemma zenz_convert_ok:
  assumes "evaluator_ok fl (cv_graphemes cv) lm ev"
  shows "result_ok (neural_call fl cv tables lm options cache s) s (Suc (zo_inference_limit options))
    (zenz_convert fl cv tables lm options s ev cache)"
proof -
  let ?nc = "neural_call fl cv tables lm options cache s"
  let ?rv = "\<lparr>rv_session = s, rv_evaluator = ev,
      rv_constraint = constrain_zenz_prefix (cv_graphemes cv) (constraint_for cache (nc_lattice_input ?nc)) s,
      rv_constructed = [], rv_inserted = [], rv_draft = [], rv_index = 0,
      rv_candidate = single (cv_graphemes cv) [] f32_zero (InputCount 0) 0 []\<rparr>"
  have ok: "review_ok ?nc s ?rv"
    using assms by (auto simp: review_ok_def neural_call_def intro: exI [of _ "candidates s"])
  show ?thesis
  proof (cases "start_search ?nc ?rv")
    case (Inl r)
    then have "result_ok ?nc s 0 r" using start_search_ok [OF ok] by simp
    then show ?thesis using Inl result_ok_mono [of ?nc s 0 r] by (simp add: zenz_convert_def)
  next
    case (Inr rv)
    then have "review_ok ?nc s rv" "candidate_ok rv" "rv_inserted rv = []" using start_search_ok [OF ok] by auto
    from review_loop_ok [OF this(1,2), of "zo_inference_limit options"] this(3) show ?thesis
      using Inr by (simp add: zenz_convert_def)
  qed
qed


section \<open>Accepted predictions\<close>

definition agrees_with :: "byte list \<Rightarrow> byte list \<Rightarrow> bool" where
  "agrees_with a b \<longleftrightarrow> prefix a b \<or> prefix b a"

lemma may_complete_agrees:
  assumes "may_complete k e bytes" and "prefix accepted (pc_bytes k)"
    and "fixed_prefix k = Some \<lparr>fp_byte_count = length accepted, fp_ruby_count = n\<rparr>"
  shows "agrees_with accepted bytes"
proof (cases "enforces_constraint k e")
  case True
  then have "prefix (pc_bytes k) bytes" using assms(1) by (auto simp: may_complete_def is_satisfied_by_def split: if_splits)
  then show ?thesis using assms(2) prefix_order.trans unfolding agrees_with_def by blast
next
  case False
  let ?n = "min (length bytes) (length accepted)"
  have a: "take (length accepted) (pc_bytes k) = accepted" using assms(2) by (auto simp: prefix_def)
  have "take ?n accepted = take ?n bytes"
    using assms(1,3) False by (simp add: may_complete_def bytes_match_fixed_prefix_def Let_def a split: if_splits)
  then show ?thesis
    unfolding agrees_with_def by (cases "length accepted \<le> length bytes"; simp add: min_def) (metis take_is_prefix nat_le_linear take_all)+
qed

lemma drafts_agree:
  assumes "accepted_prediction s = Some p" and "c \<in> drafts cv tables s"
  shows "agrees_with (utf8 (candidate_dictionary_text p)) (utf8 (cand_text c))"
proof -
  let ?accepted = "utf8 (candidate_dictionary_text p)"
  obtain n k cs where d: "snd (request_zenz_draft cv tables n k s) = Inr cs" "c \<in> set cs" using assms(2) by (auto simp: drafts_def)
  let ?k = "constrain_zenz_prefix (cv_graphemes cv) k s"
  have k: "prefix ?accepted (pc_bytes ?k)" "\<exists>m. fixed_prefix ?k = Some \<lparr>fp_byte_count = length ?accepted, fp_ruby_count = m\<rparr>"
    using assms(1) by (auto simp: constrain_zenz_prefix_def Let_def new_constraint_def no_constraint_def)
  show ?thesis
  proof (cases "is_empty_constraint ?k")
    case True
    then have "?accepted = []" using k(1) by (simp add: is_empty_constraint_def)
    then show ?thesis by (simp add: agrees_with_def)
  next
    case False
    then have "convert_with_entries_and_prefix_constraint cv tables n (conv_context s) (additional_dictionary s) ?k (composing s) = Inr cs"
      using d(1) by (auto simp: request_zenz_draft_def Let_def split: sum.splits)
    then have "may_complete ?k (last (entries c)) (utf8 (cand_text c))"
      using constrained_candidates d(2) unfolding convert_with_entries_and_prefix_constraint_def by fastforce
    then show ?thesis using may_complete_agrees k by blast
  qed
qed


end
