(* ===== verification/Neural_Sample.thy ===== *)
theory Neural_Sample
  imports Neural_Properties Lattice_Sample
begin

text \<open>
  The theorems about the neural conversion on the small dictionary and the small model, with an accepted prediction.
\<close>

lemma request_zenz_draft_answers:
  assumes "convertible cv tables (composing s)" and "lookups_answer (cv_lookups cv)"
  obtains s' cs where "request_zenz_draft cv tables n k s = (s', Inr cs)"
proof -
  have c: "\<exists>cs. convert_modified cv tables n (conv_context s) \<lparr>additional_entries = es, need_typo_correction = False, constraint = x\<rparr>
      (composing s) = Inr cs" for es x
    by (rule conversion_answers [OF assms(1) _ assms(2),
        where md = "\<lparr>additional_entries = es, need_typo_correction = False, constraint = x\<rparr>" and limit = n and ctx = "conv_context s"])
      auto
  have "\<exists>cs. snd (request_zenz_draft cv tables n k s) = Inr cs"
    using c by (auto simp: request_zenz_draft_def Let_def convert_with_entries_def convert_with_entries_and_prefix_constraint_def
        split: sum.split) (metis sum.distinct(1))+
  then show thesis using that by (metis prod.collapse)
qed

text \<open>Without inferences the conversion ends with the best draft.\<close>

lemma start_search_answers:
  assumes "convertible (nc_converter nc) (nc_tables nc) (composing (rv_session rv))" and "lookups_answer (cv_lookups (nc_converter nc))"
  shows "(\<exists>s' ev' cache' answer. start_search nc rv = Inl (s', ev', cache', Inr answer)) \<or> (\<exists>rv'. start_search nc rv = Inr rv')"
proof -
  let ?n = "if is_empty_constraint (rv_constraint rv) then 2 else if zo_rich (nc_options nc) then 3 else 1"
  obtain s1 cs where d: "request_zenz_draft (nc_converter nc) (nc_tables nc) ?n (rv_constraint rv) (rv_session rv) = (s1, Inr cs)"
    by (rule request_zenz_draft_answers [OF assms])
  show ?thesis
    unfolding start_search_def Let_def d prod.case sum.case by (cases "best_candidate cs") (auto simp: finish_review_def)
qed

lemma zenz_convert_answers:
  assumes "convertible cv tables (composing s)" and "lookups_answer (cv_lookups cv)" and "zo_inference_limit options = 0"
  obtains s' ev' cache' answer where "zenz_convert fl cv tables lm options s ev cache = (s', ev', cache', Inr answer)"
proof -
  let ?nc = "neural_call fl cv tables lm options cache s"
  let ?rv = "\<lparr>rv_session = s, rv_evaluator = ev,
      rv_constraint = constrain_zenz_prefix (cv_graphemes cv) (constraint_for cache (nc_lattice_input ?nc)) s,
      rv_constructed = [], rv_inserted = [], rv_draft = [], rv_index = 0,
      rv_candidate = single (cv_graphemes cv) [] f32_zero (InputCount 0) 0 []\<rparr>"
  have "(\<exists>s' ev' cache' answer. start_search ?nc ?rv = Inl (s', ev', cache', Inr answer)) \<or> (\<exists>rv'. start_search ?nc ?rv = Inr rv')"
    by (rule start_search_answers) (use assms(1,2) in \<open>simp_all add: neural_call_def\<close>)
  then have "\<exists>s' ev' cache' answer. zenz_convert fl cv tables lm options s ev cache = (s', ev', cache', Inr answer)"
    using assms(3) by (auto simp: zenz_convert_def Let_def review_loop.simps [of 0] finish_review_def)
  then show thesis using that by blast
qed

definition sample_accepted :: Candidate where
  "sample_accepted = single scalar_graphemes [0x4E9C] 0 (SurfaceCount 1) 0 [plain_entry [0x4E9C] [0x30A2] 0]"

definition accepting_session :: ConversionSession where
  "accepting_session = new_session\<lparr>composing := sample_kana, accepted_prediction_of := Some sample_accepted\<rparr>"

definition sample_options :: ZenzConversionOptions where
  "sample_options =
     \<lparr>zo_version = V2 \<lparr>v2_profile = None, v2_left_context = None, v2_max_left_context_length = None\<rparr>, zo_rich = False,
      zo_inference_limit = 0, zo_personalization = None\<rparr>"

definition neural_sample :: neural_result where
  "neural_sample = zenz_convert sample_floats sample_converter sample_registry sample_model sample_options accepting_session
     (evaluator_after sample_floats (cv_graphemes sample_converter) sample_model []) empty_zenz_cache"

lemma neural_sample_answers: obtains s' ev' cache' answer where "neural_sample = (s', ev', cache', Inr answer)"
proof -
  have c: "convertible sample_converter sample_registry (composing accepting_session)"
    using sample_convertible by (simp add: accepting_session_def)
  show thesis
    unfolding neural_sample_def
    by (rule zenz_convert_answers [OF c sample_costs(2), where options = sample_options and fl = sample_floats and lm = sample_model
        and ev = "evaluator_after sample_floats (cv_graphemes sample_converter) sample_model []" and cache = empty_zenz_cache])
      (simp_all add: sample_options_def that [unfolded neural_sample_def sample_options_def])
qed



end
