(* ===== verification/Lm_Keyboard.thy ===== *)
theory Lm_Keyboard
  imports Zenz "HOL-Library.List_Lexorder"
begin

text \<open>
  \<open>crates/converter/src/lm_typo.rs\<close>, the keyboards: which keys lie next to each other and how far apart, and how an input
  table turns keys into text that is settled and keys that still wait for others.
\<close>

section \<open>The square root\<close>

text \<open>
  \<open>f32::sqrt\<close> is correctly rounded. The floor of the root is found bit by bit; a last bit says whether it was exact, so
  that the rounding sees on which side of a tie the root lies.
\<close>

fun root_bits :: "nat \<Rightarrow> int \<Rightarrow> int \<Rightarrow> int" where
  "root_bits 0 r n = r"
| "root_bits (Suc k) r n = (if (r + 2 ^ k) * (r + 2 ^ k) \<le> n then root_bits k (r + 2 ^ k) n else root_bits k r n)"

definition floor_root :: "int \<Rightarrow> int" where
  "floor_root n = root_bits (nat (bitlen n)) 0 n"

definition f32_sqrt :: "f32 \<Rightarrow> f32" where
  "f32_sqrt x =
     (if f32_is_nan x then f32_nan
      else if magnitude x = 0 then x
      else if f32_sign x then f32_nan
      else if f32_is_infinite x then x
      else
        (let n = units x * 2 ^ 149; r = floor_root n
         in with_sign False (magnitude_of_ratio (2 * r + (if r * r = n then 0 else 1)) 2)))"

lemma root_bits_floor:
  assumes "r * r \<le> n" and "n < (r + 2 ^ k) * (r + 2 ^ k)"
  shows "root_bits k r n * root_bits k r n \<le> n \<and> n < (root_bits k r n + 1) * (root_bits k r n + 1)"
  using assms
proof (induction k r n rule: root_bits.induct)
  case (2 k r n)
  have e: "r + 2 ^ Suc k = r + 2 ^ k + 2 ^ k" by simp
  show ?case
  proof (cases "(r + 2 ^ k) * (r + 2 ^ k) \<le> n")
    case True
    then show ?thesis using 2(1) [OF True True] 2(4) unfolding e by simp
  next
    case False
    then show ?thesis using 2(2) [OF False 2(3)] by simp
  qed
qed simp

lemma floor_root:
  assumes "0 \<le> n"
  shows "floor_root n * floor_root n \<le> n" and "n < (floor_root n + 1) * (floor_root n + 1)"
proof -
  have "n < 2 ^ nat (bitlen n)" using assms bitlen_bounds [of n] by (cases "n = 0") auto
  also have "\<dots> \<le> 2 ^ nat (bitlen n) * (2 ^ nat (bitlen n) :: int)" by simp
  finally have "n < (0 + 2 ^ nat (bitlen n)) * (0 + 2 ^ nat (bitlen n))" by simp
  then show "floor_root n * floor_root n \<le> n" and "n < (floor_root n + 1) * (floor_root n + 1)"
    using root_bits_floor [of 0 n "nat (bitlen n)"] assms by (simp_all add: floor_root_def)
qed

lemma sample_roots: "f32_sqrt 0x40800000 = 0x40000000" "f32_sqrt 0x40000000 = 0x3FB504F3"
  by code_simp+

section \<open>Keyboards\<close>

datatype Topology = MacQwerty | IosQwerty | IosFlickTenkey

definition MAC_QWERTY :: "(ustr \<times> f32 \<times> f32) list" where
  "MAC_QWERTY =
     [([0x31], 0xBF800000, 0x0), ([0x32], 0x3E800000, 0x0), ([0x33], 0x3FA00000, 0x0), ([0x34], 0x40100000, 0x0),
      ([0x35], 0x40500000, 0x0), ([0x36], 0x40880000, 0x0), ([0x37], 0x40A80000, 0x0), ([0x38], 0x40C80000, 0x0),
      ([0x39], 0x40E80000, 0x0), ([0x30], 0x41040000, 0x0), ([0x2D], 0x41140000, 0x0), ([0x5E], 0x41240000, 0x0),
      ([0x71], 0x0, 0x3F800000), ([0x77], 0x3F800000, 0x3F800000), ([0x65], 0x40000000, 0x3F800000), ([0x72], 0x40400000, 0x3F800000),
      ([0x74], 0x40800000, 0x3F800000), ([0x79], 0x40A00000, 0x3F800000), ([0x75], 0x40C00000, 0x3F800000), ([0x69], 0x40E00000, 0x3F800000),
      ([0x6F], 0x41000000, 0x3F800000), ([0x70], 0x41100000, 0x3F800000), ([0x40], 0x41200000, 0x3F800000), ([0x5B], 0x41300000, 0x3F800000),
      ([0x61], 0x3E800000, 0x40000000), ([0x73], 0x3FA00000, 0x40000000), ([0x64], 0x40100000, 0x40000000), ([0x66], 0x40500000, 0x40000000),
      ([0x67], 0x40880000, 0x40000000), ([0x68], 0x40A80000, 0x40000000), ([0x6A], 0x40C80000, 0x40000000), ([0x6B], 0x40E80000, 0x40000000),
      ([0x6C], 0x41040000, 0x40000000), ([0x3B], 0x41140000, 0x40000000), ([0x5D], 0x41240000, 0x40000000), ([0x7A], 0x3F4CCCCD, 0x40400000),
      ([0x78], 0x3FE66666, 0x40400000), ([0x63], 0x40333333, 0x40400000), ([0x76], 0x40733333, 0x40400000), ([0x62], 0x4099999A, 0x40400000),
      ([0x6E], 0x40B9999A, 0x40400000), ([0x6D], 0x40D9999A, 0x40400000), ([0x2C], 0x40F9999A, 0x40400000), ([0x2E], 0x410CCCCD, 0x40400000),
      ([0x2F], 0x411CCCCD, 0x40400000), ([0x5F], 0x412CCCCD, 0x40400000)]"

definition IOS_QWERTY :: "(ustr \<times> f32 \<times> f32) list" where
  "IOS_QWERTY =
     [([0x71], 0x0, 0x3F800000), ([0x77], 0x3F800000, 0x3F800000), ([0x65], 0x40000000, 0x3F800000), ([0x72], 0x40400000, 0x3F800000),
      ([0x74], 0x40800000, 0x3F800000), ([0x79], 0x40A00000, 0x3F800000), ([0x75], 0x40C00000, 0x3F800000), ([0x69], 0x40E00000, 0x3F800000),
      ([0x6F], 0x41000000, 0x3F800000), ([0x70], 0x41100000, 0x3F800000), ([0x61], 0x3F000000, 0x40200000), ([0x73], 0x3FC00000, 0x40200000),
      ([0x64], 0x40200000, 0x40200000), ([0x66], 0x40600000, 0x40200000), ([0x67], 0x40900000, 0x40200000), ([0x68], 0x40B00000, 0x40200000),
      ([0x6A], 0x40D00000, 0x40200000), ([0x6B], 0x40F00000, 0x40200000), ([0x6C], 0x41080000, 0x40200000), ([0x7A], 0x3FC00000, 0x40800000),
      ([0x78], 0x40200000, 0x40800000), ([0x63], 0x40600000, 0x40800000), ([0x76], 0x40900000, 0x40800000), ([0x62], 0x40B00000, 0x40800000),
      ([0x6E], 0x40D00000, 0x40800000), ([0x6D], 0x40F00000, 0x40800000)]"

text \<open>\<open>powi(2)\<close> of a coordinate is its product with itself.\<close>

definition key_distance :: "f32 \<times> f32 \<Rightarrow> f32 \<times> f32 \<Rightarrow> f32" where
  "key_distance p q =
     (let dx = f32_sub (fst p) (fst q); dy = f32_sub (snd p) (snd q)
      in f32_sqrt (f32_add (f32_mul dx dx) (f32_mul dy dy)))"

definition coordinate_neighbors :: "ustr \<Rightarrow> (ustr \<times> f32 \<times> f32) list \<Rightarrow> (ustr \<times> f32) list" where
  "coordinate_neighbors v coordinates =
     (case find (\<lambda>(k, p). k = v) coordinates of
        None \<Rightarrow> []
      | Some (_, p) \<Rightarrow>
          sort_by (\<lambda>l r. cmp (fst l) (fst r))
            (List.map_filter
               (\<lambda>(k, q). if k = v then None
                         else if f32_le (key_distance p q) 0x3FD33333 then Some (k, key_distance p q) else None)
               coordinates))"

definition TENKEY_GROUPS :: "ustr list" where
  "TENKEY_GROUPS =
     [[0x30A2, 0x30A4, 0x30A6, 0x30A8, 0x30AA],
      [0x30AB, 0x30AD, 0x30AF, 0x30B1, 0x30B3],
      [0x30AC, 0x30AE, 0x30B0, 0x30B2, 0x30B4],
      [0x30B5, 0x30B7, 0x30B9, 0x30BB, 0x30BD],
      [0x30B6, 0x30B8, 0x30BA, 0x30BC, 0x30BE],
      [0x30BF, 0x30C1, 0x30C4, 0x30C6, 0x30C8],
      [0x30C0, 0x30C2, 0x30C5, 0x30C7, 0x30C9],
      [0x30CA, 0x30CB, 0x30CC, 0x30CD, 0x30CE],
      [0x30CF, 0x30D2, 0x30D5, 0x30D8, 0x30DB],
      [0x30D0, 0x30D3, 0x30D6, 0x30D9, 0x30DC],
      [0x30D1, 0x30D4, 0x30D7, 0x30DA, 0x30DD],
      [0x30DE, 0x30DF, 0x30E0, 0x30E1, 0x30E2],
      [0x30E4, 0x30E6, 0x30E8],
      [0x30E3, 0x30E5, 0x30E7],
      [0x30E9, 0x30EA, 0x30EB, 0x30EC, 0x30ED],
      [0x30EF, 0x30F2, 0x30F3, 0x30FC]]"

definition tenkey_neighbors :: "segmenter \<Rightarrow> ustr \<Rightarrow> (ustr \<times> f32) list" where
  "tenkey_neighbors graphemes v =
     (case find (\<lambda>g. list_ex (prefix v) (suffixes g)) TENKEY_GROUPS of
        None \<Rightarrow> []
      | Some g \<Rightarrow> map (\<lambda>n. (n, 0x3F800000)) (filter (\<lambda>n. n \<noteq> v) (graphemes g)))"

fun neighbors :: "segmenter \<Rightarrow> ustr \<Rightarrow> Topology \<Rightarrow> (ustr \<times> f32) list" where
  "neighbors graphemes v MacQwerty = coordinate_neighbors v MAC_QWERTY"
| "neighbors graphemes v IosQwerty = coordinate_neighbors v IOS_QWERTY"
| "neighbors graphemes v IosFlickTenkey = tenkey_neighbors graphemes v"

record GenerationMode =
  gm_table :: "InputTable option"
  gm_topology :: Topology
  use_surface :: bool
  filter_with_lm :: bool

fun generation_mode :: "InputTableRegistry \<Rightarrow> InputStyle \<Rightarrow> GenerationMode" where
  "generation_mode registry RomanToKana =
     \<lparr>gm_table = resolve registry RomanToKana, gm_topology = MacQwerty, use_surface = False, filter_with_lm = False\<rparr>"
| "generation_mode registry (Mapped i) =
     (let table = resolve registry (Mapped i);
          qwerty = (case table of Some t \<Rightarrow> possible_nexts t [] \<noteq> [] | None \<Rightarrow> False)
      in \<lparr>gm_table = table, gm_topology = (if qwerty then IosQwerty else IosFlickTenkey), use_surface = \<not> qwerty,
          filter_with_lm = \<not> qwerty\<rparr>)"
| "generation_mode registry Direct =
     \<lparr>gm_table = None, gm_topology = IosFlickTenkey, use_surface = True, filter_with_lm = True\<rparr>"

text \<open>The keys as they were typed, one grapheme each; \<open>str::to_lowercase\<close> is an argument.\<close>

definition observed_key :: "segmenter \<Rightarrow> (ustr \<Rightarrow> ustr) \<Rightarrow> InputPiece \<Rightarrow> ustr option" where
  "observed_key graphemes to_lowercase p =
     (case displayed p of
        None \<Rightarrow> None
      | Some v \<Rightarrow> (case graphemes v of [] \<Rightarrow> None | g # gs \<Rightarrow> Some (to_lowercase g)))"

definition observed_input :: "segmenter \<Rightarrow> (ustr \<Rightarrow> ustr) \<Rightarrow> ComposingText \<Rightarrow> bool \<Rightarrow> ustr list" where
  "observed_input graphemes to_lowercase c surface_only =
     (if surface_only then graphemes (to_katakana (surface_text c))
      else List.map_filter (\<lambda>e. observed_key graphemes to_lowercase (piece e)) (input c))"

section \<open>Keys that wait\<close>

definition apply_input_table :: "segmenter \<Rightarrow> ustr \<Rightarrow> InputTable \<Rightarrow> ustr" where
  "apply_input_table graphemes v t =
     to_katakana (fold (\<lambda>g current. applied graphemes t current (Character g)) (graphemes v) [])"

fun begins_key :: "KeyElement list \<Rightarrow> grapheme list \<Rightarrow> bool" where
  "begins_key (k # ks) (g # gs) \<longleftrightarrow> k = KPiece (Character g) \<and> begins_key ks gs"
| "begins_key ks gs \<longleftrightarrow> True"

definition has_continuation :: "segmenter \<Rightarrow> ustr \<Rightarrow> InputTable \<Rightarrow> bool" where
  "has_continuation graphemes pending t \<longleftrightarrow>
     possible_nexts t pending \<noteq> [] \<or>
     list_ex (\<lambda>(k, v). length (graphemes pending) < length k \<and> begins_key k (graphemes pending)) (table_entries t)"

definition pending_suffix :: "segmenter \<Rightarrow> ustr \<Rightarrow> ustr \<Rightarrow> InputTable \<Rightarrow> ustr" where
  "pending_suffix graphemes raw converted t =
     (let gs = graphemes raw;
          waits = (\<lambda>n. let s = concat (drop (length gs - n) gs); display = apply_input_table graphemes s t
                       in has_continuation graphemes s t \<and> display = s \<and> suffix display converted)
      in case find waits (rev [1..<Suc (length gs)]) of
           None \<Rightarrow> []
         | Some n \<Rightarrow> concat (drop (length gs - n) gs))"

text \<open>One more key: the text it settles and the keys that wait afterwards.\<close>

definition consume_with_emission :: "segmenter \<Rightarrow> ustr \<Rightarrow> ustr \<Rightarrow> InputTable option \<Rightarrow> ustr \<times> ustr" where
  "consume_with_emission graphemes pending v table =
     (case table of
        None \<Rightarrow> (v, [])
      | Some t \<Rightarrow>
          (let raw = pending @ v;
               converted = apply_input_table graphemes raw t;
               next_pending = pending_suffix graphemes raw converted t;
               pending_count = length (graphemes next_pending);
               gs = graphemes converted
           in if next_pending = [] then (converted, [])
              else if length gs < pending_count then ([], next_pending)
              else (concat (take (length gs - pending_count) gs), next_pending)))"

text \<open>The texts a waiting key can become: those of the table, and those of rules that end with any key.\<close>

fun leading_output :: "ValueElement list \<Rightarrow> ustr" where
  "leading_output (VCharacter v # vs) = v @ leading_output vs"
| "leading_output vs = []"

definition position_of_any :: "KeyElement list \<Rightarrow> nat option" where
  "position_of_any k = find (\<lambda>i. k ! i = KAny) [0..<length k]"

definition wildcard_display :: "grapheme list \<Rightarrow> KeyElement list \<times> ValueElement list \<Rightarrow> ustr option" where
  "wildcard_display gs kv =
     (case position_of_any (fst kv) of
        None \<Rightarrow> None
      | Some i \<Rightarrow>
          if i \<noteq> length (fst kv) - 1 \<or> i \<noteq> length gs \<or> \<not> begins_key (take i (fst kv)) gs \<or> leading_output (snd kv) = []
          then None
          else Some (to_katakana (leading_output (snd kv))))"

definition possible_next_displays :: "segmenter \<Rightarrow> ustr \<Rightarrow> InputTable \<Rightarrow> ustr list" where
  "possible_next_displays graphemes pending t =
     remdups_adj (sort (possible_nexts t pending @ List.map_filter (wildcard_display (graphemes pending)) (table_entries t)))"

end
