(* ===== verification/Lm_Scorer.thy ===== *)
theory Lm_Scorer
  imports Lm_Keyboard
begin

text \<open>
  \<open>crates/converter/src/lm_typo.rs\<close>, \<open>LmScorer\<close>: the scores of texts by a language model, with four caches that grow during
  a correction. An operation is a function on the scorer that returns an answer or an error. The lemmas show that no answer
  depends on what the caches hold.
\<close>

section \<open>The scorer\<close>

record LmScorer =
  scorer_prompt :: "int list"
  token_cache :: "ustr \<rightharpoonup> int list"
  distribution_cache :: "int list \<rightharpoonup> f32 list"
  pending_token_cache :: "ustr \<rightharpoonup> int list"
  pending_score_cache :: "int list \<times> ustr \<rightharpoonup> f32"

type_synonym 'a scoring = "LmScorer \<Rightarrow> (ZenzInferenceError + 'a) \<times> LmScorer"

definition give :: "'a \<Rightarrow> 'a scoring" where
  "give x sc = (Inr x, sc)"

definition give_up :: "ZenzInferenceError \<Rightarrow> 'a scoring" where
  "give_up e sc = (Inl e, sc)"

definition score_then :: "'a scoring \<Rightarrow> ('a \<Rightarrow> 'b scoring) \<Rightarrow> 'b scoring" where
  "score_then m f sc = (case m sc of (Inl e, sc) \<Rightarrow> (Inl e, sc) | (Inr x, sc) \<Rightarrow> f x sc)"

text \<open>A cache in front of a computation: what it holds is the answer, what is computed is put into it.\<close>

definition memoized :: "(LmScorer \<Rightarrow> 'a option) \<Rightarrow> ('a \<Rightarrow> LmScorer \<Rightarrow> LmScorer) \<Rightarrow> 'a scoring \<Rightarrow> 'a scoring" where
  "memoized look put compute sc =
     (case look sc of Some x \<Rightarrow> (Inr x, sc) | None \<Rightarrow> score_then compute (\<lambda>x sc. (Inr x, put x sc)) sc)"

definition new_scorer :: "int list \<Rightarrow> LmScorer" where
  "new_scorer ts =
     \<lparr>scorer_prompt = ts, token_cache = (\<lambda>_. None), distribution_cache = (\<lambda>_. None), pending_token_cache = (\<lambda>_. None),
      pending_score_cache = (\<lambda>_. None)\<rparr>"

text \<open>\<open>LmScorer::new\<close>.\<close>

definition scorer_for :: "ZenzLanguageModel \<Rightarrow> ustr \<Rightarrow> ZenzInferenceError + LmScorer" where
  "scorer_for lm prompt = map_sum id new_scorer (tokenize_for_model lm prompt False)"

definition scorer_tokens :: "ZenzLanguageModel \<Rightarrow> ustr \<Rightarrow> int list scoring" where
  "scorer_tokens lm v =
     memoized (\<lambda>sc. token_cache sc v) (\<lambda>ts sc. sc\<lparr>token_cache := (token_cache sc)(v \<mapsto> ts)\<rparr>)
       (\<lambda>sc. (tokenize_for_model lm v False, sc))"

text \<open>\<open>f32::max\<close>, and the logarithms of the probabilities behind logits.\<close>

definition f32_max :: "f32 \<Rightarrow> f32 \<Rightarrow> f32" where
  "f32_max a b = (if f32_is_nan a then b else if f32_is_nan b then a else if f32_lt a b then b else a)"

definition f32_maximum :: "f32 list \<Rightarrow> f32" where
  "f32_maximum xs = fold (\<lambda>x m. f32_max m x) xs 0xFF800000"

definition sum_exp_below :: "FloatFunctions \<Rightarrow> f32 \<Rightarrow> f32 list \<Rightarrow> f32" where
  "sum_exp_below fl m xs = fold (\<lambda>x subtotal. f32_add subtotal (fl_exp fl (f32_sub x m))) xs f32_zero"

definition log_probabilities :: "FloatFunctions \<Rightarrow> f32 list \<Rightarrow> f32 list" where
  "log_probabilities fl logits =
     (let m = f32_maximum logits; normalization = f32_add m (fl_ln fl (sum_exp_below fl m logits))
      in map (\<lambda>x. f32_sub x normalization) logits)"

definition computed_distribution :: "FloatFunctions \<Rightarrow> ZenzLanguageModel \<Rightarrow> int list \<Rightarrow> f32 list scoring" where
  "computed_distribution fl lm emitted sc =
     (then_do (next_logits lm (scorer_prompt sc @ emitted)) (\<lambda>logits.
        if length logits \<noteq> vocabulary_size lm \<or> logits = []
        then Inl (Message (ascii ''model returned '' @ show_nat (length logits) @ ascii '' logits for a vocabulary of '' @
                           show_nat (vocabulary_size lm)))
        else Inr (log_probabilities fl logits)), sc)"

definition next_log_probabilities :: "FloatFunctions \<Rightarrow> ZenzLanguageModel \<Rightarrow> int list \<Rightarrow> f32 list scoring" where
  "next_log_probabilities fl lm emitted =
     memoized (\<lambda>sc. distribution_cache sc emitted) (\<lambda>ps sc. sc\<lparr>distribution_cache := (distribution_cache sc)(emitted \<mapsto> ps)\<rparr>)
       (computed_distribution fl lm emitted)"

text \<open>\<open>usize::try_from(token).ok().filter(..)\<close>.\<close>

definition token_index :: "int \<Rightarrow> 'a list \<Rightarrow> nat option" where
  "token_index t ps = (if 0 \<le> t \<and> nat t < length ps then Some (nat t) else None)"

fun append_tokens ::
  "FloatFunctions \<Rightarrow> ZenzLanguageModel \<Rightarrow> int list \<Rightarrow> int list \<Rightarrow> f32 \<Rightarrow> (int list \<times> f32) option scoring" where
  "append_tokens fl lm [] ts subtotal = give (Some (ts, subtotal))"
| "append_tokens fl lm (t # rest) ts subtotal =
     score_then (next_log_probabilities fl lm ts) (\<lambda>ps.
       case token_index t ps of
         None \<Rightarrow> give None
       | Some i \<Rightarrow> append_tokens fl lm rest (ts @ [t]) (f32_add subtotal (ps ! i)))"

definition append_and_score ::
  "FloatFunctions \<Rightarrow> ZenzLanguageModel \<Rightarrow> int list \<Rightarrow> ustr \<Rightarrow> (int list \<times> f32) option scoring" where
  "append_and_score fl lm emitted v =
     score_then (scorer_tokens lm v) (\<lambda>added. append_tokens fl lm added emitted f32_zero)"

text \<open>The likeliest tokens that are one grapheme; tokens without text are passed over.\<close>

definition single_grapheme :: "segmenter \<Rightarrow> ZenzLanguageModel \<Rightarrow> nat \<Rightarrow> grapheme option" where
  "single_grapheme graphemes lm i =
     (if int i < 2 ^ 31
      then (case token_to_piece lm (int i) of
              Inl e \<Rightarrow> None
            | Inr bytes \<Rightarrow>
                (case from_utf8 bytes of
                   None \<Rightarrow> None
                 | Some v \<Rightarrow> (case graphemes v of [g] \<Rightarrow> Some g | _ \<Rightarrow> None)))
      else None)"

fun distinct_characters :: "segmenter \<Rightarrow> ZenzLanguageModel \<Rightarrow> nat \<Rightarrow> nat list \<Rightarrow> grapheme list \<Rightarrow> grapheme list" where
  "distinct_characters graphemes lm n [] result = result"
| "distinct_characters graphemes lm n (i # is) result =
     (case single_grapheme graphemes lm i of
        None \<Rightarrow> distinct_characters graphemes lm n is result
      | Some g \<Rightarrow>
          if g \<in> set result then distinct_characters graphemes lm n is result
          else if length (result @ [g]) = n then result @ [g]
          else distinct_characters graphemes lm n is (result @ [g]))"

definition top_characters :: "FloatFunctions \<Rightarrow> segmenter \<Rightarrow> ZenzLanguageModel \<Rightarrow> int list \<Rightarrow> nat \<Rightarrow> grapheme list scoring" where
  "top_characters fl graphemes lm emitted n =
     (if n = 0 then give []
      else
        score_then (next_log_probabilities fl lm emitted) (\<lambda>ps.
          give (distinct_characters graphemes lm n
                  (take (n * 4) (sort_by (\<lambda>l r. total_cmp (ps ! r) (ps ! l)) [0..<length ps])) [])))"

text \<open>The tokens a waiting key can begin with, and the logarithm of their probability together.\<close>

fun first_tokens :: "segmenter \<Rightarrow> ZenzLanguageModel \<Rightarrow> ustr list \<Rightarrow> int list \<Rightarrow> int list scoring" where
  "first_tokens graphemes lm [] result = give result"
| "first_tokens graphemes lm (display # ds) result =
     (case graphemes display of
        [] \<Rightarrow> first_tokens graphemes lm ds result
      | g # gs \<Rightarrow>
          score_then (scorer_tokens lm g) (\<lambda>encoded.
            first_tokens graphemes lm ds
              (if length encoded = 1 \<and> hd encoded \<notin> set result then result @ [hd encoded] else result)))"

definition pending_tokens :: "segmenter \<Rightarrow> ZenzLanguageModel \<Rightarrow> ustr \<Rightarrow> InputTable \<Rightarrow> int list scoring" where
  "pending_tokens graphemes lm pending t =
     memoized (\<lambda>sc. pending_token_cache sc pending)
       (\<lambda>ts sc. sc\<lparr>pending_token_cache := (pending_token_cache sc)(pending \<mapsto> ts)\<rparr>)
       (score_then (first_tokens graphemes lm (possible_next_displays graphemes pending t) []) (\<lambda>ts. give (sort ts)))"

definition is_finite :: "f32 \<Rightarrow> bool" where
  "is_finite x \<longleftrightarrow> \<not> f32_is_nan x \<and> \<not> f32_is_infinite x"

definition tokens_log_probability :: "FloatFunctions \<Rightarrow> int list \<Rightarrow> f32 list \<Rightarrow> f32 option" where
  "tokens_log_probability fl ts ps =
     (let values = List.map_filter (\<lambda>t. map_option ((!) ps) (token_index t ps)) ts;
          m = f32_maximum values;
          subtotal = sum_exp_below fl m values
      in if \<not> is_finite m then None
         else if f32_le subtotal f32_zero then None
         else Some (f32_add m (fl_ln fl subtotal)))"

definition computed_pending ::
  "FloatFunctions \<Rightarrow> segmenter \<Rightarrow> ZenzLanguageModel \<Rightarrow> ustr \<Rightarrow> int list \<Rightarrow> InputTable \<Rightarrow> f32 option scoring" where
  "computed_pending fl graphemes lm pending emitted t =
     score_then (pending_tokens graphemes lm pending t) (\<lambda>ts.
       if ts = [] then give None
       else score_then (next_log_probabilities fl lm emitted) (\<lambda>ps. give (tokens_log_probability fl ts ps)))"

definition put_pending_score :: "int list \<times> ustr \<Rightarrow> f32 option \<Rightarrow> LmScorer \<Rightarrow> LmScorer" where
  "put_pending_score k r sc =
     (case r of None \<Rightarrow> sc | Some x \<Rightarrow> sc\<lparr>pending_score_cache := (pending_score_cache sc)(k \<mapsto> x)\<rparr>)"

definition pending_proxy_log_probability ::
  "FloatFunctions \<Rightarrow> segmenter \<Rightarrow> ZenzLanguageModel \<Rightarrow> ustr \<Rightarrow> int list \<Rightarrow> InputTable option \<Rightarrow> f32 option scoring" where
  "pending_proxy_log_probability fl graphemes lm pending emitted table =
     (if pending = [] then give (Some f32_zero)
      else
        (case table of
           None \<Rightarrow> give None
         | Some t \<Rightarrow>
             memoized (\<lambda>sc. map_option Some (pending_score_cache sc (emitted, pending))) (put_pending_score (emitted, pending))
               (computed_pending fl graphemes lm pending emitted t)))"

section \<open>The caches do not show\<close>

text \<open>The caches of a scorer hold what a new scorer with the same prompt computes.\<close>

definition scorer_ok ::
  "FloatFunctions \<Rightarrow> segmenter \<Rightarrow> ZenzLanguageModel \<Rightarrow> InputTable option \<Rightarrow> int list \<Rightarrow> LmScorer \<Rightarrow> bool" where
  "scorer_ok fl graphemes lm table prompt sc \<longleftrightarrow>
     scorer_prompt sc = prompt \<and>
     (\<forall>v ts. token_cache sc v = Some ts \<longrightarrow> tokenize_for_model lm v False = Inr ts) \<and>
     (\<forall>e ps. distribution_cache sc e = Some ps \<longrightarrow> fst (computed_distribution fl lm e (new_scorer prompt)) = Inr ps) \<and>
     (\<forall>p ts. pending_token_cache sc p = Some ts \<longrightarrow>
        (\<exists>t. table = Some t \<and> fst (pending_tokens graphemes lm p t (new_scorer prompt)) = Inr ts)) \<and>
     (\<forall>e p x. pending_score_cache sc (e, p) = Some x \<longrightarrow>
        (\<exists>t. table = Some t \<and> fst (computed_pending fl graphemes lm p e t (new_scorer prompt)) = Inr (Some x)))"

lemma new_scorer_caches [simp]:
  "scorer_prompt (new_scorer prompt) = prompt" "token_cache (new_scorer prompt) v = None"
  "distribution_cache (new_scorer prompt) e = None" "pending_token_cache (new_scorer prompt) v = None"
  "pending_score_cache (new_scorer prompt) k = None"
  by (simp_all add: new_scorer_def)

lemma new_scorer_ok [simp]: "scorer_ok fl graphemes lm table prompt (new_scorer prompt)"
  unfolding scorer_ok_def by simp

text \<open>A computation is settled if every scorer with such caches gives the answer of a new one and keeps the caches so.\<close>

definition settled ::
  "FloatFunctions \<Rightarrow> segmenter \<Rightarrow> ZenzLanguageModel \<Rightarrow> InputTable option \<Rightarrow> int list \<Rightarrow> 'a scoring \<Rightarrow> bool" where
  "settled fl graphemes lm table prompt m \<longleftrightarrow>
     (\<forall>sc. scorer_ok fl graphemes lm table prompt sc \<longrightarrow>
        fst (m sc) = fst (m (new_scorer prompt)) \<and> scorer_ok fl graphemes lm table prompt (snd (m sc)))"

lemma settledD:
  assumes "settled fl graphemes lm table prompt m" and "scorer_ok fl graphemes lm table prompt sc"
  shows "fst (m sc) = fst (m (new_scorer prompt))" and "scorer_ok fl graphemes lm table prompt (snd (m sc))"
  using assms unfolding settled_def by blast+

lemma settled_give [simp, intro]: "settled fl graphemes lm table prompt (give x)"
  by (simp add: settled_def give_def)

lemma settled_then [intro]:
  assumes "settled fl graphemes lm table prompt m" and "\<And>x. settled fl graphemes lm table prompt (f x)"
  shows "settled fl graphemes lm table prompt (score_then m f)"
  unfolding settled_def
proof (intro allI impI)
  fix sc assume ok: "scorer_ok fl graphemes lm table prompt sc"
  obtain r s where ms: "m sc = (r, s)" by fastforce
  obtain r' s' where mn: "m (new_scorer prompt) = (r', s')" by fastforce
  have r: "r' = r" and s: "scorer_ok fl graphemes lm table prompt s"
    using settledD [OF assms(1) ok] by (simp_all add: ms mn)
  have s': "scorer_ok fl graphemes lm table prompt s'"
    using settledD(2) [OF assms(1) new_scorer_ok] by (simp add: mn)
  show "fst (score_then m f sc) = fst (score_then m f (new_scorer prompt)) \<and>
      scorer_ok fl graphemes lm table prompt (snd (score_then m f sc))"
    using s settledD [OF assms(2) s] settledD(1) [OF assms(2) s'] by (cases r) (simp_all add: score_then_def ms mn r)
qed

lemma settled_memoized:
  assumes "settled fl graphemes lm table prompt compute"
    and "\<And>sc x. scorer_ok fl graphemes lm table prompt sc \<Longrightarrow> look sc = Some x \<Longrightarrow> fst (compute (new_scorer prompt)) = Inr x"
    and "\<And>sc x. scorer_ok fl graphemes lm table prompt sc \<Longrightarrow> fst (compute (new_scorer prompt)) = Inr x \<Longrightarrow>
      scorer_ok fl graphemes lm table prompt (put x sc)"
  shows "settled fl graphemes lm table prompt (memoized look put compute)"
    and "scorer_ok fl graphemes lm table prompt sc \<Longrightarrow> fst (memoized look put compute sc) = fst (compute (new_scorer prompt))"
proof -
  have m: "fst (memoized look put compute sc) = fst (compute (new_scorer prompt)) \<and>
      scorer_ok fl graphemes lm table prompt (snd (memoized look put compute sc))"
    if ok: "scorer_ok fl graphemes lm table prompt sc" for sc
  proof (cases "look sc")
    case None
    obtain r s where r: "compute sc = (r, s)" by fastforce
    have a: "fst (compute (new_scorer prompt)) = r" and s: "scorer_ok fl graphemes lm table prompt s"
      using settledD [OF assms(1) ok] by (simp_all add: r)
    show ?thesis using assms(3) [OF s] s a by (cases r) (simp_all add: memoized_def score_then_def None r)
  qed (use ok assms(2) in \<open>auto simp: memoized_def\<close>)
  show "settled fl graphemes lm table prompt (memoized look put compute)"
    using m m [OF new_scorer_ok] by (simp add: settled_def)
  show "scorer_ok fl graphemes lm table prompt sc \<Longrightarrow> fst (memoized look put compute sc) = fst (compute (new_scorer prompt))"
    using m by blast
qed

lemma settled_tokens [intro]: "settled fl graphemes lm table prompt (scorer_tokens lm v)"
  unfolding scorer_tokens_def
  by (rule settled_memoized) (auto simp: settled_def scorer_ok_def)

lemma settled_computed_distribution: "settled fl graphemes lm table prompt (computed_distribution fl lm emitted)"
  by (simp add: settled_def computed_distribution_def scorer_ok_def)

lemma settled_distribution [intro]: "settled fl graphemes lm table prompt (next_log_probabilities fl lm emitted)"
  unfolding next_log_probabilities_def
  by (rule settled_memoized [OF settled_computed_distribution]) (auto simp: scorer_ok_def)

lemma settled_append_tokens [intro]: "settled fl graphemes lm table prompt (append_tokens fl lm added ts subtotal)"
proof (induction added arbitrary: ts subtotal)
  case (Cons t added)
  have "settled fl graphemes lm table prompt
      (case token_index t ps of None \<Rightarrow> give None | Some i \<Rightarrow> append_tokens fl lm added (ts @ [t]) (f32_add subtotal (ps ! i)))" for ps
    using Cons by (cases "token_index t ps") simp_all
  then show ?case unfolding append_tokens.simps by (intro settled_then settled_distribution)
qed simp

lemma settled_append [intro]: "settled fl graphemes lm table prompt (append_and_score fl lm emitted v)"
  unfolding append_and_score_def by (intro settled_then settled_tokens settled_append_tokens)

lemma settled_top [intro]: "settled fl graphemes lm table prompt (top_characters fl g lm emitted n)"
  by (auto simp: top_characters_def)

lemma settled_first_tokens [intro]: "settled fl graphemes lm table prompt (first_tokens graphemes lm ds result)"
proof (induction ds arbitrary: result)
  case (Cons d ds)
  note IH = Cons
  show ?case
  proof (cases "graphemes d")
    case (Cons g gs)
    show ?thesis unfolding first_tokens.simps Cons list.case by (intro settled_then settled_tokens IH)
  qed (simp add: IH)
qed simp

lemma settled_pending_tokens [intro]: "settled fl graphemes lm (Some t) prompt (pending_tokens graphemes lm pending t)"
proof -
  let ?compute = "score_then (first_tokens graphemes lm (possible_next_displays graphemes pending t) []) (\<lambda>ts. give (sort ts))"
  have c: "settled fl graphemes lm (Some t) prompt ?compute" by (intro settled_then settled_first_tokens settled_give)
  have n: "fst (pending_tokens graphemes lm pending t (new_scorer prompt)) = fst (?compute (new_scorer prompt))"
    by (simp add: pending_tokens_def memoized_def score_then_def split: prod.split sum.split)
  show ?thesis
    unfolding pending_tokens_def
    by (rule settled_memoized [OF c]) (auto simp: scorer_ok_def simp flip: n)
qed

lemma settled_computed_pending [intro]:
  "settled fl graphemes lm (Some t) prompt (computed_pending fl graphemes lm pending emitted t)"
proof -
  have "settled fl graphemes lm (Some t) prompt
      (if ts = [] then give None
       else score_then (next_log_probabilities fl lm emitted) (\<lambda>ps. give (tokens_log_probability fl ts ps)))" for ts
    by (cases "ts = []") (auto intro!: settled_then settled_distribution)
  then show ?thesis unfolding computed_pending_def by (intro settled_then settled_pending_tokens)
qed

lemma settled_pending [intro]:
  "settled fl graphemes lm table prompt (pending_proxy_log_probability fl graphemes lm pending emitted table)"
proof (cases table)
  case (Some t)
  have "settled fl graphemes lm (Some t) prompt
      (memoized (\<lambda>sc. map_option Some (pending_score_cache sc (emitted, pending))) (put_pending_score (emitted, pending))
        (computed_pending fl graphemes lm pending emitted t))"
    by (rule settled_memoized [OF settled_computed_pending])
      (auto simp: scorer_ok_def put_pending_score_def split: option.split)
  then show ?thesis by (auto simp: pending_proxy_log_probability_def Some)
qed (auto simp: pending_proxy_log_probability_def)

end
