(* ===== verification/Lm_Typo.thy ===== *)
theory Lm_Typo
  imports Lm_Scorer Protocol
begin

text \<open>
  \<open>crates/converter/src/lm_typo.rs\<close>, the search: a beam of hypotheses about what was meant by the keys that were typed. A
  hypothesis takes a key as it is or a neighbor of it, leaves out a key next to the one before, or swaps two keys; its score
  is that of the language model less the costs of what it changed.
\<close>

section \<open>Hypotheses\<close>

record LmTypoConfig =
  beam_size :: nat
  top_k :: nat
  typo_n_best :: nat
  max_steps :: "nat option"
  substitution_cost :: f32
  deletion_cost :: f32
  transposition_cost :: f32

definition default_lm_typo :: LmTypoConfig where
  "default_lm_typo =
     \<lparr>beam_size = 32, top_k = 64, typo_n_best = 5, max_steps = None, substitution_cost = 0x40000000,
      deletion_cost = 0x40400000, transposition_cost = 0x40000000\<rparr>"

record Hypothesis =
  hy_corrected :: "ustr list"
  hy_emitted_text :: ustr
  hy_emitted_tokens :: "int list"
  hy_position :: nat
  hy_previous :: "ustr option"
  hy_pending :: ustr
  hy_proxy :: f32
  hy_channel_cost :: f32
  hy_lm_score :: f32
  hy_score :: f32

definition initial_hypothesis :: Hypothesis where
  "initial_hypothesis =
     \<lparr>hy_corrected = [], hy_emitted_text = [], hy_emitted_tokens = [], hy_position = 0, hy_previous = None, hy_pending = [],
      hy_proxy = f32_zero, hy_channel_cost = f32_zero, hy_lm_score = f32_zero, hy_score = f32_zero\<rparr>"

text \<open>What stays the same during a correction.\<close>

record Correction =
  co_floats :: FloatFunctions
  co_graphemes :: segmenter
  co_model :: ZenzLanguageModel
  co_mode :: GenerationMode
  co_config :: LmTypoConfig
  co_observed :: "ustr list"

definition compare_hypotheses :: "Hypothesis \<Rightarrow> Hypothesis \<Rightarrow> Ordering" where
  "compare_hypotheses l r = then_with (total_cmp (hy_score r) (hy_score l)) (cmp (hy_corrected l) (hy_corrected r))"

text \<open>Several keys one after the other: the text they settle, and what waits.\<close>

fun consume_all :: "segmenter \<Rightarrow> InputTable option \<Rightarrow> ustr \<times> ustr \<Rightarrow> ustr list \<Rightarrow> ustr \<times> ustr" where
  "consume_all graphemes table st [] = st"
| "consume_all graphemes table st (v # vs) =
     (case consume_with_emission graphemes (snd st) v table of (e, p) \<Rightarrow> consume_all graphemes table (fst st @ e, p) vs)"

section \<open>Extending a hypothesis\<close>

definition advanced :: "Hypothesis \<Rightarrow> ustr list \<Rightarrow> nat \<Rightarrow> f32 \<Rightarrow> ustr \<Rightarrow> ustr \<Rightarrow> int list \<Rightarrow> f32 \<Rightarrow> f32 \<Rightarrow> Hypothesis" where
  "advanced h added n addition emitted pending ts emitted_score proxy =
     (let channel = f32_add (hy_channel_cost h) addition;
          lm = f32_add (f32_add (f32_sub (hy_lm_score h) (hy_proxy h)) emitted_score) proxy
      in h\<lparr>hy_corrected := hy_corrected h @ added, hy_emitted_text := hy_emitted_text h @ emitted, hy_emitted_tokens := ts,
           hy_position := hy_position h + n, hy_previous := (if added = [] then None else Some (last added)),
           hy_pending := pending, hy_proxy := proxy, hy_channel_cost := channel, hy_lm_score := lm,
           hy_score := f32_sub lm channel\<rparr>)"

text \<open>An empty text that waits has a proxy score, so the \<open>unreachable\<close> of the source is the answer that never comes.\<close>

definition evaluate_advance ::
  "Correction \<Rightarrow> Hypothesis \<Rightarrow> ustr list \<Rightarrow> nat \<Rightarrow> f32 \<Rightarrow> ustr \<Rightarrow> ustr \<Rightarrow> Hypothesis option scoring" where
  "evaluate_advance co h added n addition emitted pending =
     (if \<not> is_finite (hy_proxy h) then give None
      else
        score_then (append_and_score (co_floats co) (co_model co) (hy_emitted_tokens h) emitted) (\<lambda>r.
          case r of
            None \<Rightarrow> give None
          | Some (ts, emitted_score) \<Rightarrow>
              score_then (pending_proxy_log_probability (co_floats co) (co_graphemes co) (co_model co) pending ts
                            (gm_table (co_mode co))) (\<lambda>p.
                give (map_option (advanced h added n addition emitted pending ts emitted_score) p))))"

definition add_advance :: "Correction \<Rightarrow> Hypothesis \<Rightarrow> ustr list \<Rightarrow> nat \<Rightarrow> f32 \<Rightarrow> Hypothesis list scoring" where
  "add_advance co h true_sequence n addition =
     (if true_sequence = [] then give []
      else
        (case consume_all (co_graphemes co) (gm_table (co_mode co)) ([], hy_pending h) true_sequence of
           (emitted, pending) \<Rightarrow>
             (let final = hy_position h + n - 1
              in if final = length (co_observed co) - 1 \<and> pending \<noteq> [] \<and>
                    (last true_sequence \<noteq> co_observed co ! final \<or> f32_lt f32_zero addition)
                 then give []
                 else
                   score_then (evaluate_advance co h true_sequence n addition emitted pending)
                     (\<lambda>r. give (case r of None \<Rightarrow> [] | Some h \<Rightarrow> [h])))))"

fun score_each :: "('a \<Rightarrow> 'b list scoring) \<Rightarrow> 'a list \<Rightarrow> 'b list scoring" where
  "score_each f [] = give []"
| "score_each f (x # xs) = score_then (f x) (\<lambda>ys. score_then (score_each f xs) (\<lambda>zs. give (ys @ zs)))"

text \<open>The first part of \<open>expand_hypothesis\<close>: the key itself and its neighbors, with what each costs.\<close>

definition targets :: "Correction \<Rightarrow> Hypothesis \<Rightarrow> (ustr \<times> f32) list scoring" where
  "targets co h =
     (let current = co_observed co ! hy_position h;
          near = neighbors (co_graphemes co) current (gm_topology (co_mode co));
          priced = map (\<lambda>(t, d). (t, f32_mul (substitution_cost (co_config co)) d))
      in if filter_with_lm (co_mode co)
         then score_then (top_characters (co_floats co) (co_graphemes co) (co_model co) (hy_emitted_tokens h) (top_k (co_config co)))
                (\<lambda>likely. give ((current, f32_zero) # priced (filter (\<lambda>(t, d). t \<in> set likely) near)))
         else give ((current, f32_zero) # priced near))"

text \<open>The second part: the key is left out if it lies next to the one before it.\<close>

definition previous_distance :: "Correction \<Rightarrow> Hypothesis \<Rightarrow> f32 option" where
  "previous_distance co h =
     (case hy_previous h of
        None \<Rightarrow> None
      | Some p \<Rightarrow>
          map_option snd (find (\<lambda>(n, d). n = co_observed co ! hy_position h)
            (neighbors (co_graphemes co) p (gm_topology (co_mode co)))))"

definition leave_out :: "Correction \<Rightarrow> Hypothesis \<Rightarrow> Hypothesis list scoring" where
  "leave_out co h =
     (case (if Suc (hy_position h) < length (co_observed co) then previous_distance co h else None) of
        None \<Rightarrow> give []
      | Some d \<Rightarrow>
          score_then (pending_proxy_log_probability (co_floats co) (co_graphemes co) (co_model co) (hy_pending h)
                        (hy_emitted_tokens h) (gm_table (co_mode co))) (\<lambda>r.
            give
              (case r of
                 None \<Rightarrow> []
               | Some proxy \<Rightarrow>
                   (let channel = f32_add (hy_channel_cost h) (f32_mul (deletion_cost (co_config co)) d);
                        lm = f32_add (f32_sub (hy_lm_score h) (hy_proxy h)) proxy
                    in [h\<lparr>hy_position := Suc (hy_position h), hy_channel_cost := channel, hy_proxy := proxy,
                          hy_lm_score := lm, hy_score := f32_sub lm channel\<rparr>]))))"

text \<open>The third part: the key and the next one change places.\<close>

definition transpose_keys :: "Correction \<Rightarrow> Hypothesis \<Rightarrow> Hypothesis list scoring" where
  "transpose_keys co h =
     (let i = hy_position h; obs = co_observed co
      in if Suc i < length obs \<and> obs ! i \<noteq> obs ! Suc i
         then add_advance co h [obs ! Suc i, obs ! i] 2 (transposition_cost (co_config co))
         else give [])"

definition expand_hypothesis :: "Correction \<Rightarrow> Hypothesis \<Rightarrow> Hypothesis list scoring" where
  "expand_hypothesis co h =
     score_then (targets co h) (\<lambda>ts.
       score_then (score_each (\<lambda>(t, addition). add_advance co h [t] 1 addition) ts) (\<lambda>advances.
         score_then (leave_out co h) (\<lambda>shorter.
           score_then (transpose_keys co h) (\<lambda>swapped. give (advances @ shorter @ swapped)))))"

text \<open>The keys that are left are taken as they are.\<close>

definition complete_hypothesis :: "Correction \<Rightarrow> Hypothesis \<Rightarrow> Hypothesis option scoring" where
  "complete_hypothesis co h =
     (if length (co_observed co) \<le> hy_position h then give (Some h)
      else if \<not> is_finite (hy_proxy h) then give None
      else
        (let rest = drop (hy_position h) (co_observed co)
         in case consume_all (co_graphemes co) (gm_table (co_mode co)) ([], hy_pending h) rest of
              (emitted, pending) \<Rightarrow>
                score_then (append_and_score (co_floats co) (co_model co) (hy_emitted_tokens h) emitted) (\<lambda>r.
                  case r of
                    None \<Rightarrow> give None
                  | Some (ts, emitted_score) \<Rightarrow>
                      score_then (pending_proxy_log_probability (co_floats co) (co_graphemes co) (co_model co) pending ts
                                    (gm_table (co_mode co))) (\<lambda>p.
                        give (map_option
                          (\<lambda>proxy.
                             let lm = f32_add (f32_add (f32_sub (hy_lm_score h) (hy_proxy h)) emitted_score) proxy
                             in h\<lparr>hy_corrected := hy_corrected h @ rest, hy_emitted_text := hy_emitted_text h @ emitted,
                                  hy_emitted_tokens := ts, hy_position := length (co_observed co),
                                  hy_previous := Some (last rest), hy_pending := pending, hy_proxy := proxy,
                                  hy_lm_score := lm, hy_score := f32_sub lm (hy_channel_cost h)\<rparr>) p)))))"

section \<open>The search\<close>

definition is_complete :: "Correction \<Rightarrow> Hypothesis \<Rightarrow> bool" where
  "is_complete co h \<longleftrightarrow> hy_position h = length (co_observed co)"

fun beam_search :: "nat \<Rightarrow> Correction \<Rightarrow> Hypothesis list \<Rightarrow> Hypothesis list scoring" where
  "beam_search 0 co beam = give beam"
| "beam_search (Suc n) co beam =
     (if list_all (is_complete co) beam then give beam
      else
        score_then (score_each (\<lambda>h. if is_complete co h then give [h] else expand_hypothesis co h) beam) (\<lambda>expanded.
          if expanded = [] then give beam
          else beam_search n co (take (beam_size (co_config co)) (sort_by compare_hypotheses expanded))))"

definition candidate_of_hypothesis :: "Hypothesis \<Rightarrow> LmTypoCandidate" where
  "candidate_of_hypothesis h =
     \<lparr>corrected_input = concat (hy_corrected h), converted_text = hy_emitted_text h @ hy_pending h, score = hy_score h,
      lm_score = hy_lm_score h, channel_cost = hy_channel_cost h, prominence = f32_zero\<rparr>"

text \<open>
  The \<open>HashMap\<close> by the corrected input, as the list of its values. They are sorted by score and corrected input, which no
  two share, so the order in which the map gives them does not matter.
\<close>

definition insert_typo :: "LmTypoCandidate \<Rightarrow> LmTypoCandidate list \<Rightarrow> LmTypoCandidate list" where
  "insert_typo c cs =
     (case find (\<lambda>x. corrected_input x = corrected_input c) cs of
        None \<Rightarrow> cs @ [c]
      | Some existing \<Rightarrow>
          if f32_lt (score existing) (score c)
          then map (\<lambda>x. if corrected_input x = corrected_input c then c else x) cs
          else cs)"

definition compare_typos :: "LmTypoCandidate \<Rightarrow> LmTypoCandidate \<Rightarrow> Ordering" where
  "compare_typos l r = then_with (total_cmp (score r) (score l)) (cmp (corrected_input l) (corrected_input r))"

definition rank_typos :: "FloatFunctions \<Rightarrow> nat \<Rightarrow> Hypothesis list \<Rightarrow> LmTypoCandidate list" where
  "rank_typos fl n hs =
     (let cs = take n (sort_by compare_typos (fold insert_typo (map candidate_of_hypothesis hs) []))
      in map (\<lambda>c. c\<lparr>prominence := fl_exp fl (f32_sub (score c) (score (hd cs)))\<rparr>) cs)"

definition option_list :: "'a option \<Rightarrow> 'a list" where
  "option_list r = (case r of None \<Rightarrow> [] | Some x \<Rightarrow> [x])"

text \<open>The search with a scorer, from the beam of the initial hypothesis to all that are complete.\<close>

definition search_corrections :: "Correction \<Rightarrow> Hypothesis list scoring" where
  "search_corrections co =
     (let steps = (case max_steps (co_config co) of Some n \<Rightarrow> n | None \<Rightarrow> length (co_observed co) * 2 + 8)
      in score_then (beam_search steps co [initial_hypothesis]) (\<lambda>beam.
           score_then (score_each (\<lambda>h. score_then (complete_hypothesis co h) (\<lambda>r. give (option_list r))) beam) (\<lambda>completed.
             score_then (complete_hypothesis co initial_hypothesis) (\<lambda>original. give (completed @ option_list original)))))"

definition correction_for ::
  "FloatFunctions \<Rightarrow> segmenter \<Rightarrow> (ustr \<Rightarrow> ustr) \<Rightarrow> ZenzLanguageModel \<Rightarrow> ComposingText \<Rightarrow> InputStyle \<Rightarrow> InputTableRegistry \<Rightarrow>
   LmTypoConfig \<Rightarrow> Correction" where
  "correction_for fl graphemes to_lowercase lm c style registry config =
     (let mode = generation_mode registry style
      in \<lparr>co_floats = fl, co_graphemes = graphemes, co_model = lm, co_mode = mode,
          co_config = config\<lparr>beam_size := max (beam_size config) 1, top_k := max (top_k config) 1,
                             typo_n_best := max (typo_n_best config) 1\<rparr>,
          co_observed = observed_input graphemes to_lowercase c (use_surface mode)\<rparr>)"

definition experimental_typo_correction ::
  "FloatFunctions \<Rightarrow> segmenter \<Rightarrow> (ustr \<Rightarrow> ustr) \<Rightarrow> ZenzLanguageModel \<Rightarrow> ustr \<Rightarrow> ComposingText \<Rightarrow> InputStyle \<Rightarrow>
   InputTableRegistry \<Rightarrow> LmTypoConfig \<Rightarrow> ZenzInferenceError + LmTypoCandidate list" where
  "experimental_typo_correction fl graphemes to_lowercase lm left_context c style registry config =
     (let co = correction_for fl graphemes to_lowercase lm c style registry config
      in if co_observed co = [] then Inr []
         else
           then_do (scorer_for lm (typo_correction_prefix left_context)) (\<lambda>sc.
             map_sum id (rank_typos fl (typo_n_best (co_config co))) (fst (search_corrections co sc))))"

end
