(* ===== verification/Assembly.thy ===== *)
theory Assembly
  imports Neural Lattice_Candidates Lm_Typo Engine_State
begin

text \<open>
  The parts together: the services of a session on the lattice, and those of the engine on the neural conversion. What
  the session and the engine leave open is filled in with the models of \<open>lattice.rs\<close> and \<open>daemon/src/zenz.rs\<close>; a converter is
  given for each learning memory.
\<close>

section \<open>The services\<close>

text \<open>The calls of \<open>ConversionSession\<close> to the converter; \<open>show_error\<close> is the text of an error of the dictionary.\<close>

definition with_lattice ::
  "('m option \<Rightarrow> Converter) \<Rightarrow> (ustr \<Rightarrow> ustr) \<Rightarrow> (ConvertError \<Rightarrow> ustr) \<Rightarrow> InputTableRegistry \<Rightarrow> 'm Services \<Rightarrow> 'm Services" where
  "with_lattice cv_of to_uppercase show_error registry sv =
     sv\<lparr>sv_convert := (\<lambda>mem c n ctx es typo.
          map_sum show_error id (convert_with_entries_and_typo (cv_of mem) registry n ctx es typo c)),
        sv_predict := (\<lambda>mem c n ctx es. map_sum show_error id (predict_with_entries (cv_of mem) registry n ctx es c)),
        sv_words := (\<lambda>mem c. map_sum show_error id (word_candidates (cv_graphemes (cv_of mem)) (cv_lookups (cv_of mem)) c)),
        sv_representations := representation_candidates (sv_graphemes sv) to_uppercase\<rparr>"

fun engine_error :: "(ConvertError \<Rightarrow> ustr) \<Rightarrow> ZenzConversionError \<Rightarrow> ZenzError" where
  "engine_error show_error (DictionaryFailed e) = ZenzFailed (show_error e)"
| "engine_error show_error (InferenceError (InferenceFailed e)) =
     (if is_context_capacity_exceeded e then ContextCapacityExceeded else ZenzFailed (show_inference_error e))"
| "engine_error show_error (InferenceError ExpectationFailed) = ZenzFailed []"

fun prediction_error :: "ZenzPredictionError \<Rightarrow> ZenzError" where
  "prediction_error (PredictionDictionary e) = ZenzFailed e"
| "prediction_error (PredictionInference e) = engine_error (\<lambda>_. []) (InferenceError e)"

text \<open>
  The two closures of \<open>request_candidates_for_active_target\<close>. The evaluator is shared by all sessions; a predicted text is
  evaluated with an empty cache and without rich candidates.
\<close>

definition engine_options :: "nat \<Rightarrow> ZenzPersonalization option \<Rightarrow> ZenzVersionConfig \<Rightarrow> bool \<Rightarrow> ZenzConversionOptions" where
  "engine_options limit personalization version rich =
     \<lparr>zo_version = version, zo_rich = rich, zo_inference_limit = limit, zo_personalization = personalization\<rparr>"

definition evaluate_predicted ::
  "FloatFunctions \<Rightarrow> Converter \<Rightarrow> InputTableRegistry \<Rightarrow> ZenzLanguageModel \<Rightarrow> ZenzConversionOptions \<Rightarrow> (ConvertError \<Rightarrow> ustr) \<Rightarrow>
   ConversionSession \<Rightarrow> ZenzEvaluator \<Rightarrow> ConversionSession \<times> ZenzEvaluator \<times> ZenzPredictionError option" where
  "evaluate_predicted fl cv registry lm options show_error s ev =
     (case zenz_convert fl cv registry lm options s ev empty_zenz_cache of
        (s, ev, cache, Inr c) \<Rightarrow> (s, ev, None)
      | (s, ev, cache, Inl (DictionaryFailed e)) \<Rightarrow> (s, ev, Some (PredictionDictionary (show_error e)))
      | (s, ev, cache, Inl (InferenceError e)) \<Rightarrow> (s, ev, Some (PredictionInference e)))"

definition neural_services ::
  "FloatFunctions \<Rightarrow> ('m option \<Rightarrow> Converter) \<Rightarrow> InputTableRegistry \<Rightarrow> ZenzLanguageModel \<Rightarrow> nat \<Rightarrow> ZenzPersonalization option \<Rightarrow>
   (ConvertError \<Rightarrow> ustr) \<Rightarrow> 'm Services \<Rightarrow>
   (ZenzEvaluator \<Rightarrow> ustr \<Rightarrow> ComposingText \<Rightarrow> InputStyle \<Rightarrow> ZenzEvaluator \<times> (ZenzError + LmTypoCandidate list)) \<Rightarrow>
   ('m, ZenzEvaluator, ZenzConversionCache) EngineServices" where
  "neural_services fl cv_of registry lm limit personalization show_error sv typo =
     \<lparr>es_session = sv, es_empty_cache = empty_zenz_cache,
      es_zenz_convert = (\<lambda>ev mem s cache version rich.
        case zenz_convert fl (cv_of mem) registry lm (engine_options limit personalization version rich) s ev cache of
          (s, ev, cache, r) \<Rightarrow> (ev, candidates s, cache, map_sum (engine_error show_error) id r)),
      es_zenz_prediction = (\<lambda>ev mem s version left_context.
        case request_zenz_prediction sv fl registry lm version left_context
               (evaluate_predicted fl (cv_of mem) registry lm (engine_options limit personalization version False) show_error)
               (the mem) ev s of
          (s, ev, r) \<Rightarrow> (ev, stable_prediction_cache s, zenz_prediction_cache s, map_sum prediction_error id r)),
      es_typo_correction = typo\<rparr>"

text \<open>The typing errors a client asks for, by the search with the n-gram model; the search has no state of its own.\<close>

definition typo_service ::
  "FloatFunctions \<Rightarrow> segmenter \<Rightarrow> (ustr \<Rightarrow> ustr) \<Rightarrow> ZenzLanguageModel \<Rightarrow> InputTableRegistry \<Rightarrow> LmTypoConfig \<Rightarrow>
   ZenzEvaluator \<Rightarrow> ustr \<Rightarrow> ComposingText \<Rightarrow> InputStyle \<Rightarrow> ZenzEvaluator \<times> (ZenzError + LmTypoCandidate list)" where
  "typo_service fl graphemes to_lowercase lm registry costs ev left_context c style =
     (ev, map_sum (\<lambda>e. engine_error (\<lambda>_. []) (InferenceError (InferenceFailed e))) id
            (experimental_typo_correction fl graphemes to_lowercase lm left_context c style registry costs))"

section \<open>A request has candidates\<close>

lemma leading_candidates_nonempty:
  assumes "x \<in> set (take 5 full)" and "cand_text x \<noteq> []"
  shows "leading_candidates graphemes options (\<lambda>_. True) full predicted foreign s \<noteq> []"
proof -
  let ?l1 = "unique (take 5 full @ shortcut_candidates graphemes s)"
  let ?l2 = "if japanese_prediction options = Automatic then unique (?l1 @ predicted) else ?l1"
  let ?l3 = "if foreign_prediction options = Automatic then unique (?l2 @ foreign) else ?l2"
  have u: "cand_text x \<in> set (texts cs) \<Longrightarrow> cand_text x \<in> set (texts (unique cs))" for cs
    using assms(2) unfolding unique_texts by simp
  have "cand_text x \<in> set (texts ?l1)" by (rule u) (use assms(1) in simp)
  then have "cand_text x \<in> set (texts ?l2)" using u [of "?l1 @ predicted"] by simp
  then have "cand_text x \<in> set (texts ?l3)" using u [of "?l2 @ foreign"] by simp
  then have "cand_text x \<in> set (texts (sort_by by_value ?l3))" unfolding sort_by_texts(1) .
  then have "sort_by by_value ?l3 \<noteq> []" by (metis list.map_disc_iff list.set(1) empty_iff)
  then have l: "take 5 (sort_by by_value ?l3) \<noteq> []" by simp
  have exact: "ensure_exact kata full leading \<noteq> []" if "leading \<noteq> []" for kata leading
    using that by (auto simp: ensure_exact_def Let_def split: option.split)
  have "leading_candidates graphemes options (\<lambda>_. True) full predicted foreign s =
      ensure_exact (to_katakana (surface_text (composing s))) full (take 5 (sort_by by_value ?l3))"
    by (simp add: leading_candidates_def Let_def)
  then show ?thesis using exact [OF l] by metis
qed

lemma main_candidates_nonempty: "leading \<noteq> [] \<Longrightarrow> main_candidates sv options None leading fcs ws s \<noteq> []"
  by (cases leading) (auto simp: main_candidates_def matches_prefix_def Let_def split: prod.split)


end
