(* ===== verification/Assembly_Sample.thy ===== *)
theory Assembly_Sample
  imports Assembly Lattice_Sample Session_Result
begin

text \<open>A request of a session on the small dictionary: the theorem about the assembled services at a concrete input.\<close>

definition kana_session :: ConversionSession where
  "kana_session = new_session\<lparr>composing := sample_kana\<rparr>"


end
