(* ===== verification/Lm_Typo_Properties.thy ===== *)
theory Lm_Typo_Properties
  imports Lm_Typo Lattice_Positions
begin

text \<open>
  What the search for typing errors finds: corrections of the keys that were typed by the steps it allows, never worse than
  the keys as they are, in the order of their scores, within the default number of steps, and whatever the caches of the
  scorer hold.
\<close>

section \<open>What a computation yields\<close>

text \<open>Every answer of a computation on scores has a property; an error is no answer.\<close>

definition yields :: "'a scoring \<Rightarrow> ('a \<Rightarrow> bool) \<Rightarrow> bool" where
  "yields m Q \<longleftrightarrow> (\<forall>sc x. fst (m sc) = Inr x \<longrightarrow> Q x)"

lemma yields_give [simp]: "yields (give x) Q \<longleftrightarrow> Q x"
  by (simp add: yields_def give_def)

lemma yields_true: "(\<And>x. Q x) \<Longrightarrow> yields m Q"
  by (simp add: yields_def)

lemma yields_then:
  assumes "yields m P" and "\<And>x. P x \<Longrightarrow> yields (f x) Q"
  shows "yields (score_then m f) Q"
  unfolding yields_def
proof (intro allI impI)
  fix sc x assume r: "fst (score_then m f sc) = Inr x"
  obtain y s where y: "m sc = (y, s)" by fastforce
  show "Q x"
  proof (cases y)
    case (Inr z)
    then have "P z" using assms(1) y unfolding yields_def by (metis fst_conv)
    then show ?thesis using assms(2) r y Inr by (simp add: yields_def score_then_def)
  qed (use r y in \<open>simp add: score_then_def\<close>)
qed

lemma yields_any: "(\<And>x. yields (f x) Q) \<Longrightarrow> yields (score_then m f) Q"
  by (rule yields_then [where P = "\<lambda>_. True"]) (simp_all add: yields_def)

lemma yields_mono: "yields m P \<Longrightarrow> (\<And>x. P x \<Longrightarrow> Q x) \<Longrightarrow> yields m Q"
  by (auto simp: yields_def)

lemma yields_each:
  "(\<And>x. x \<in> set xs \<Longrightarrow> yields (f x) (list_all P)) \<Longrightarrow> yields (score_each f xs) (list_all P)"
proof (induction xs)
  case (Cons x xs)
  show ?case unfolding score_each.simps
    by (rule yields_then [OF Cons(2)], simp, rule yields_then [OF Cons(1)]) (simp_all add: Cons(2))
qed simp

section \<open>Corrections of the keys\<close>

text \<open>
  The keys that can be meant: how many of those typed are read, what they are corrected to, the last one, and what the
  changes cost.
\<close>

inductive meant :: "Correction \<Rightarrow> nat \<Rightarrow> ustr list \<Rightarrow> ustr option \<Rightarrow> f32 \<Rightarrow> bool" for co where
  start: "meant co 0 [] None f32_zero"
| keep: "meant co i vs p k \<Longrightarrow> i < length (co_observed co) \<Longrightarrow>
    meant co (Suc i) (vs @ [co_observed co ! i]) (Some (co_observed co ! i)) (f32_add k f32_zero)"
| substitute: "meant co i vs p k \<Longrightarrow> i < length (co_observed co) \<Longrightarrow>
    (t, d) \<in> set (neighbors (co_graphemes co) (co_observed co ! i) (gm_topology (co_mode co))) \<Longrightarrow>
    meant co (Suc i) (vs @ [t]) (Some t) (f32_add k (f32_mul (substitution_cost (co_config co)) d))"
| leave: "meant co i vs (Some p) k \<Longrightarrow> Suc i < length (co_observed co) \<Longrightarrow>
    (co_observed co ! i, d) \<in> set (neighbors (co_graphemes co) p (gm_topology (co_mode co))) \<Longrightarrow>
    meant co (Suc i) vs (Some p) (f32_add k (f32_mul (deletion_cost (co_config co)) d))"
| swap: "meant co i vs p k \<Longrightarrow> Suc i < length (co_observed co) \<Longrightarrow> co_observed co ! i \<noteq> co_observed co ! Suc i \<Longrightarrow>
    meant co (i + 2) (vs @ [co_observed co ! Suc i, co_observed co ! i]) (Some (co_observed co ! i))
      (f32_add k (transposition_cost (co_config co)))"
| rest: "meant co i vs p k \<Longrightarrow> i < length (co_observed co) \<Longrightarrow>
    meant co (length (co_observed co)) (vs @ drop i (co_observed co)) (Some (last (co_observed co))) k"

definition hypothesis_ok :: "Correction \<Rightarrow> Hypothesis \<Rightarrow> bool" where
  "hypothesis_ok co h \<longleftrightarrow>
     meant co (hy_position h) (hy_corrected h) (hy_previous h) (hy_channel_cost h) \<and>
     hy_position h \<le> length (co_observed co) \<and>
     (hy_emitted_text h, hy_pending h) = consume_all (co_graphemes co) (gm_table (co_mode co)) ([], []) (hy_corrected h) \<and>
     hy_score h = f32_sub (hy_lm_score h) (hy_channel_cost h)"

lemma consume_all_append: "consume_all g t st (vs @ ws) = consume_all g t (consume_all g t st vs) ws"
  by (induction g t st vs rule: consume_all.induct) (auto split: prod.split)

lemma consume_all_emitted: "consume_all g t (e, p) vs = (e @ fst (consume_all g t ([], p) vs), snd (consume_all g t ([], p) vs))"
proof (induction vs arbitrary: e p)
  case (Cons v vs)
  obtain e' p' where c: "consume_with_emission g p v t = (e', p')" by fastforce
  show ?case using Cons [of "e @ e'" p'] Cons [of e' p'] by (simp add: c)
qed simp

lemma consumed_further:
  assumes "(e, p) = consume_all g t ([], []) vs" and "consume_all g t ([], p) ws = (e', p')"
  shows "(e @ e', p') = consume_all g t ([], []) (vs @ ws)"
  using consume_all_emitted [of g t e p ws] assms(2) by (simp add: consume_all_append flip: assms(1))

lemma initial_ok: "hypothesis_ok co initial_hypothesis"
proof -
  have "f32_sub f32_zero f32_zero = f32_zero" by code_simp
  then show ?thesis by (simp add: hypothesis_ok_def initial_hypothesis_def meant.start)
qed

lemma add_advance_ok:
  assumes "hypothesis_ok co h" and "vs \<noteq> []" and "hy_position h + n \<le> length (co_observed co)"
    and "meant co (hy_position h + n) (hy_corrected h @ vs) (Some (last vs)) (f32_add (hy_channel_cost h) addition)"
  shows "yields (add_advance co h vs n addition) (list_all (\<lambda>h'. hypothesis_ok co h' \<and> hy_position h' = hy_position h + n))"
proof -
  obtain e p where c: "consume_all (co_graphemes co) (gm_table (co_mode co)) ([], hy_pending h) vs = (e, p)" by fastforce
  have ok: "hypothesis_ok co (advanced h vs n addition e p ts es pr)" for ts es pr
    using assms consumed_further [OF _ c, of "hy_emitted_text h" "hy_corrected h"]
    by (simp add: hypothesis_ok_def advanced_def Let_def)
  have pos: "hy_position (advanced h vs n addition e p ts es pr) = hy_position h + n" for ts es pr
    by (simp add: advanced_def Let_def)
  have v: "yields (evaluate_advance co h vs n addition e p)
      (\<lambda>r. list_all (\<lambda>h'. hypothesis_ok co h' \<and> hy_position h' = hy_position h + n) (case r of None \<Rightarrow> [] | Some h \<Rightarrow> [h]))"
    unfolding evaluate_advance_def
    by (simp, intro impI, rule yields_any) (auto split: option.split simp: ok pos intro!: yields_any)
  have "yields (score_then (evaluate_advance co h vs n addition e p) (\<lambda>r. give (case r of None \<Rightarrow> [] | Some h \<Rightarrow> [h])))
      (list_all (\<lambda>h'. hypothesis_ok co h' \<and> hy_position h' = hy_position h + n))"
    by (rule yields_then [OF v]) simp
  then show ?thesis using assms(2) by (simp add: add_advance_def c Let_def)
qed

definition near_key :: "Correction \<Rightarrow> Hypothesis \<Rightarrow> ustr \<times> f32 \<Rightarrow> bool" where
  "near_key co h ta \<longleftrightarrow>
     ta = (co_observed co ! hy_position h, f32_zero) \<or>
     (\<exists>d. (fst ta, d) \<in> set (neighbors (co_graphemes co) (co_observed co ! hy_position h) (gm_topology (co_mode co))) \<and>
          snd ta = f32_mul (substitution_cost (co_config co)) d)"

lemma targets_ok: "yields (targets co h) (list_all (near_key co h))"
  unfolding targets_def Let_def by (auto intro!: yields_any simp: list_all_iff near_key_def)

lemma leave_out_ok:
  assumes "hypothesis_ok co h" and "hy_position h < length (co_observed co)"
  shows "yields (leave_out co h) (list_all (\<lambda>h'. hypothesis_ok co h' \<and> hy_position h < hy_position h'))"
proof (cases "if Suc (hy_position h) < length (co_observed co) then previous_distance co h else None")
  case (Some d)
  then have i: "Suc (hy_position h) < length (co_observed co)" and d: "previous_distance co h = Some d"
    by (auto split: if_splits)
  then obtain p where p: "hy_previous h = Some p"
      and n: "(co_observed co ! hy_position h, d) \<in> set (neighbors (co_graphemes co) p (gm_topology (co_mode co)))"
    by (auto simp: previous_distance_def find_Some_iff split: option.splits) (metis nth_mem)
  have "meant co (hy_position h) (hy_corrected h) (Some p) (hy_channel_cost h)"
    using assms(1) p by (simp add: hypothesis_ok_def)
  note m = meant.leave [OF this i n]
  show ?thesis
    unfolding leave_out_def Some option.case
    by (rule yields_any) (use assms m p in \<open>auto simp: hypothesis_ok_def Let_def split: option.split\<close>)
qed (simp add: leave_out_def)

lemma expand_ok:
  assumes "hypothesis_ok co h" and "hy_position h < length (co_observed co)"
  shows "yields (expand_hypothesis co h) (list_all (\<lambda>h'. hypothesis_ok co h' \<and> hy_position h < hy_position h'))"
proof -
  let ?Q = "list_all (\<lambda>h'. hypothesis_ok co h' \<and> hy_position h < hy_position h')"
  have m: "meant co (hy_position h) (hy_corrected h) (hy_previous h) (hy_channel_cost h)"
    using assms(1) by (simp add: hypothesis_ok_def)
  have one: "yields (add_advance co h [t] 1 a) ?Q"
    if "near_key co h (t, a)" for t a
  proof -
    have "meant co (hy_position h + 1) (hy_corrected h @ [t]) (Some (last [t])) (f32_add (hy_channel_cost h) a)"
      using that meant.keep [OF m assms(2)] meant.substitute [OF m assms(2)] by (auto simp: near_key_def)
    then show ?thesis using add_advance_ok [OF assms(1), of "[t]" 1 a] assms(2) by (auto elim!: yields_mono simp: list_all_iff)
  qed
  have two: "yields (transpose_keys co h) ?Q"
  proof (cases "Suc (hy_position h) < length (co_observed co) \<and> co_observed co ! hy_position h \<noteq> co_observed co ! Suc (hy_position h)")
    case True
    then have i: "Suc (hy_position h) < length (co_observed co)" by blast
    have t: "transpose_keys co h =
        add_advance co h [co_observed co ! Suc (hy_position h), co_observed co ! hy_position h] 2 (transposition_cost (co_config co))"
      using True by (simp add: transpose_keys_def Let_def)
    have "yields (transpose_keys co h) (list_all (\<lambda>h'. hypothesis_ok co h' \<and> hy_position h' = hy_position h + 2))"
      unfolding t by (rule add_advance_ok [OF assms(1)]) (use meant.swap [OF m i] True in simp_all)
    then show ?thesis by (rule yields_mono) (simp add: list_all_iff)
  qed (auto simp: transpose_keys_def Let_def)
  show ?thesis
    unfolding expand_hypothesis_def
  proof (rule yields_then [OF targets_ok], goal_cases)
    case (1 ts)
    have e: "yields (score_each (\<lambda>(t, a). add_advance co h [t] 1 a) ts) ?Q"
      by (rule yields_each) (use 1 one in \<open>auto simp: list_all_iff\<close>)
    show ?case
      by (rule yields_then [OF e], rule yields_then [OF leave_out_ok [OF assms]], rule yields_then [OF two]) simp
  qed
qed

lemma complete_ok:
  assumes "hypothesis_ok co h"
  shows "yields (complete_hypothesis co h) (\<lambda>r. list_all (\<lambda>h. hypothesis_ok co h \<and> is_complete co h) (option_list r))"
proof (cases "length (co_observed co) \<le> hy_position h")
  case True
  then show ?thesis
    using assms by (auto simp: complete_hypothesis_def option_list_def hypothesis_ok_def is_complete_def)
next
  case False
  let ?rest = "drop (hy_position h) (co_observed co)"
  obtain e p where c: "consume_all (co_graphemes co) (gm_table (co_mode co)) ([], hy_pending h) ?rest = (e, p)" by fastforce
  have m: "meant co (length (co_observed co)) (hy_corrected h @ ?rest) (Some (last ?rest)) (hy_channel_cost h)"
    using meant.rest [of co "hy_position h" "hy_corrected h"] assms False by (auto simp: hypothesis_ok_def)
  have "(hy_emitted_text h @ e, p) = consume_all (co_graphemes co) (gm_table (co_mode co)) ([], []) (hy_corrected h @ ?rest)"
    using consumed_further [OF _ c] assms by (simp add: hypothesis_ok_def)
  then show ?thesis
    unfolding complete_hypothesis_def c prod.case Let_def using False m
    by (auto intro!: yields_any simp: option_list_def hypothesis_ok_def is_complete_def split: option.split)
qed

lemma beam_ok:
  "list_all (hypothesis_ok co) beam \<Longrightarrow> yields (beam_search n co beam) (list_all (hypothesis_ok co))"
proof (induction n arbitrary: beam)
  case (Suc n)
  have e: "yields (score_each (\<lambda>h. if is_complete co h then give [h] else expand_hypothesis co h) beam) (list_all (hypothesis_ok co))"
  proof (rule yields_each)
    fix h assume "h \<in> set beam"
    then have h: "hypothesis_ok co h" using Suc(2) by (simp add: list_all_iff)
    show "yields (if is_complete co h then give [h] else expand_hypothesis co h) (list_all (hypothesis_ok co))"
    proof (cases "is_complete co h")
      case False
      then have "hy_position h < length (co_observed co)" using h by (simp add: is_complete_def hypothesis_ok_def)
      then show ?thesis using expand_ok [OF h] False by (auto elim!: yields_mono simp: list_all_iff)
    qed (use h in simp)
  qed
  have "list_all (hypothesis_ok co) (take k (sort_by compare_hypotheses ex))" if "list_all (hypothesis_ok co) ex" for k ex
    using that by (auto simp: list_all_iff dest: in_set_takeD)
  then show ?case using Suc by (auto intro!: yields_then [OF e])
qed simp

lemma search_ok: "yields (search_corrections co) (list_all (\<lambda>h. hypothesis_ok co h \<and> is_complete co h))"
proof -
  have c: "yields (score_then (complete_hypothesis co h) (\<lambda>r. give (option_list r))) (list_all (\<lambda>h. hypothesis_ok co h \<and> is_complete co h))"
    if "hypothesis_ok co h" for h by (rule yields_then [OF complete_ok [OF that]]) simp
  show ?thesis
    unfolding search_corrections_def Let_def
    by (rule yields_then [OF beam_ok], simp add: initial_ok, rule yields_then [OF yields_each [OF c]], simp add: list_all_iff,
        rule yields_then [OF complete_ok [OF initial_ok]]) simp
qed

section \<open>The number of steps\<close>

lemma then_cong: "yields m P \<Longrightarrow> (\<And>x. P x \<Longrightarrow> f x = g x) \<Longrightarrow> score_then m f = score_then m g"
proof (rule ext)
  fix sc assume m: "yields m P" and f: "\<And>x. P x \<Longrightarrow> f x = g x"
  obtain r s where r: "m sc = (r, s)" by fastforce
  have "r = Inr x \<Longrightarrow> P x" for x using m r unfolding yields_def by (metis fst_conv)
  then show "score_then m f sc = score_then m g sc" using f by (cases r) (simp_all add: score_then_def r)
qed

text \<open>Every expansion reads at least one key, so as many steps as keys are left are enough.\<close>

lemma beam_enough:
  "list_all (\<lambda>h. hypothesis_ok co h \<and> length (co_observed co) \<le> hy_position h + n) beam \<Longrightarrow> n \<le> m \<Longrightarrow>
   beam_search m co beam = beam_search n co beam"
proof (induction n arbitrary: m beam)
  case 0
  then have "list_all (is_complete co) beam" by (auto simp: list_all_iff is_complete_def hypothesis_ok_def)
  then show ?case by (cases m) simp_all
next
  case (Suc n)
  then obtain m' where m: "m = Suc m'" "n \<le> m'" by (cases m) auto
  let ?P = "\<lambda>h. hypothesis_ok co h \<and> length (co_observed co) \<le> hy_position h + n"
  have e: "yields (score_each (\<lambda>h. if is_complete co h then give [h] else expand_hypothesis co h) beam) (list_all ?P)"
  proof (rule yields_each)
    fix h assume "h \<in> set beam"
    then have h: "hypothesis_ok co h" "length (co_observed co) \<le> hy_position h + Suc n" using Suc(2) by (auto simp: list_all_iff)
    show "yields (if is_complete co h then give [h] else expand_hypothesis co h) (list_all ?P)"
    proof (cases "is_complete co h")
      case False
      then have "hy_position h < length (co_observed co)" using h by (simp add: is_complete_def hypothesis_ok_def)
      then have "yields (expand_hypothesis co h) (list_all ?P)"
        by (rule yields_mono [OF expand_ok [OF h(1)]]) (use h(2) in \<open>auto simp: list_all_iff\<close>)
      then show ?thesis using False by simp
    qed (use h in \<open>simp add: is_complete_def\<close>)
  qed
  have "beam_search m' co (take k (sort_by compare_hypotheses ex)) = beam_search n co (take k (sort_by compare_hypotheses ex))"
    if "list_all ?P ex" for k ex
    by (rule Suc(1)) (use that m in \<open>auto simp: list_all_iff dest: in_set_takeD\<close>)
  then show ?case unfolding m(1) beam_search.simps by (auto intro!: then_cong [OF e])
qed

text \<open>
  C40. The default number of steps never cuts the search short: whatever larger bound is configured, the corrections are the
  same, because every step reads a key of each hypothesis.
\<close>

theorem default_steps_suffice:
  assumes "max_steps config = None" and "length (co_observed (correction_for fl graphemes to_lowercase lm c style registry config)) \<le> n"
  shows "experimental_typo_correction fl graphemes to_lowercase lm left_context c style registry config =
    experimental_typo_correction fl graphemes to_lowercase lm left_context c style registry (config\<lparr>max_steps := Some n\<rparr>)"
proof -
  let ?co = "correction_for fl graphemes to_lowercase lm c style registry config"
  let ?co' = "correction_for fl graphemes to_lowercase lm c style registry (config\<lparr>max_steps := Some n\<rparr>)"
  have other: "co_floats ?co' = co_floats ?co" "co_graphemes ?co' = co_graphemes ?co" "co_model ?co' = co_model ?co"
      "co_mode ?co' = co_mode ?co" "co_observed ?co' = co_observed ?co" "beam_size (co_config ?co') = beam_size (co_config ?co)"
      "top_k (co_config ?co') = top_k (co_config ?co)" "typo_n_best (co_config ?co') = typo_n_best (co_config ?co)"
      "substitution_cost (co_config ?co') = substitution_cost (co_config ?co)"
      "deletion_cost (co_config ?co') = deletion_cost (co_config ?co)"
      "transposition_cost (co_config ?co') = transposition_cost (co_config ?co)"
    by (simp_all add: correction_for_def Let_def)
  have complete: "complete_hypothesis ?co' = complete_hypothesis ?co"
    by (intro ext) (simp only: complete_hypothesis_def other)
  have advance: "add_advance ?co' = add_advance ?co"
    by (intro ext) (simp only: add_advance_def evaluate_advance_def other)
  have "targets ?co' = targets ?co" and "leave_out ?co' = leave_out ?co" and "transpose_keys ?co' = transpose_keys ?co"
    by (intro ext; simp only: targets_def leave_out_def previous_distance_def transpose_keys_def other advance)+
  then have e: "expand_hypothesis ?co' = expand_hypothesis ?co"
    by (intro ext) (simp only: expand_hypothesis_def advance)
  have beam: "beam_search k ?co' b = beam_search k ?co b" for k b
  proof (induction k arbitrary: b)
    case (Suc k)
    have "is_complete ?co' = is_complete ?co" by (intro ext) (simp only: is_complete_def other)
    then show ?case by (simp only: beam_search.simps other e Suc)
  qed simp
  have start: "list_all (\<lambda>h. hypothesis_ok ?co h \<and> length (co_observed ?co) \<le> hy_position h + length (co_observed ?co)) [initial_hypothesis]"
    by (simp add: initial_ok)
  have "beam_search n ?co [initial_hypothesis] = beam_search (length (co_observed ?co) * 2 + 8) ?co [initial_hypothesis]"
    using beam_enough [OF start assms(2)] beam_enough [OF start, of "length (co_observed ?co) * 2 + 8"] by simp
  moreover have "max_steps (co_config ?co) = None" "max_steps (co_config ?co') = Some n"
    using assms(1) by (simp_all add: correction_for_def Let_def)
  ultimately have "search_corrections ?co' = search_corrections ?co"
    by (simp add: search_corrections_def complete beam)
  then show ?thesis by (simp add: experimental_typo_correction_def Let_def other)
qed

section \<open>The ranking\<close>

lemma find_corrected:
  "find (\<lambda>x. corrected_input x = v) cs = None \<longleftrightarrow> v \<notin> corrected_input ` set cs"
  "find (\<lambda>x. corrected_input x = v) cs = Some y \<Longrightarrow> y \<in> set cs \<and> corrected_input y = v"
  by (auto simp: find_None_iff find_Some_iff image_iff)

lemma insert_typo_distinct: "distinct (map corrected_input cs) \<Longrightarrow> distinct (map corrected_input (insert_typo c cs))"
proof -
  assume d: "distinct (map corrected_input cs)"
  have "map corrected_input (map (\<lambda>x. if corrected_input x = corrected_input c then c else x) cs) = map corrected_input cs"
    by simp
  then have r: "distinct (map corrected_input (map (\<lambda>x. if corrected_input x = corrected_input c then c else x) cs))"
    using d by (simp only:)
  show ?thesis
  proof (cases "find (\<lambda>x. corrected_input x = corrected_input c) cs")
    case None
    then show ?thesis using d find_corrected(1) [of "corrected_input c" cs] by (simp add: insert_typo_def image_iff)
  next
    case (Some z)
    show ?thesis unfolding insert_typo_def Some option.case using d r by (cases "f32_lt (score z) (score c)") (simp_all only: if_True if_False)
  qed
qed

lemma f32_lt_trans: "f32_lt a b \<Longrightarrow> f32_lt b c \<Longrightarrow> f32_lt a c"
  by (simp add: f32_lt_def)

definition covers :: "LmTypoCandidate list \<Rightarrow> ustr \<Rightarrow> f32 \<Rightarrow> bool" where
  "covers cs v s \<longleftrightarrow> (\<exists>y \<in> set cs. corrected_input y = v \<and> \<not> f32_lt (score y) s)"

lemma insert_typo_covers: "covers (insert_typo c cs) (corrected_input c) (score c)"
proof (cases "find (\<lambda>x. corrected_input x = corrected_input c) cs")
  case None
  have "\<not> f32_lt (score c) (score c)" by (simp add: f32_lt_def)
  then show ?thesis by (simp add: covers_def insert_typo_def None)
next
  case (Some z)
  note z = find_corrected(2) [OF Some]
  have "\<not> f32_lt (score c) (score c)" by (simp add: f32_lt_def)
  moreover have "c \<in> set (map (\<lambda>x. if corrected_input x = corrected_input c then c else x) cs)" using z by force
  ultimately show ?thesis
    using z by (cases "f32_lt (score z) (score c)") (auto simp: covers_def insert_typo_def Some simp del: set_map)
qed

lemma insert_typo_keeps:
  assumes "distinct (map corrected_input cs)" and "covers cs v s"
  shows "covers (insert_typo c cs) v s"
proof -
  obtain y where y: "y \<in> set cs" "corrected_input y = v" "\<not> f32_lt (score y) s" using assms(2) by (auto simp: covers_def)
  show ?thesis
  proof (cases "find (\<lambda>x. corrected_input x = corrected_input c) cs")
    case None
    then show ?thesis using y by (auto simp: covers_def insert_typo_def)
  next
    case (Some z)
    note z = find_corrected(2) [OF Some]
    let ?new = "map (\<lambda>x. if corrected_input x = corrected_input c then c else x) cs"
    show ?thesis
    proof (cases "f32_lt (score z) (score c)")
      case False
      then show ?thesis using y by (auto simp: covers_def insert_typo_def Some)
    next
      case better: True
      have i: "insert_typo c cs = ?new" using better by (simp add: insert_typo_def Some)
      show ?thesis
      proof (cases "v = corrected_input c")
        case True
        then have "y = z" using inj_onD [of corrected_input "set cs" y z] assms(1) y z by (simp add: distinct_map)
        then have "\<not> f32_lt (score c) s" using y(3) better f32_lt_trans by blast
        moreover have "c \<in> set ?new" using z by force
        ultimately show ?thesis unfolding i covers_def using True by blast
      next
        case False
        then have "y \<in> set ?new" using y by force
        then show ?thesis unfolding i covers_def using y by blast
      qed
    qed
  qed
qed

lemma fold_insert_distinct:
  "distinct (map corrected_input cs) \<Longrightarrow> distinct (map corrected_input (fold insert_typo xs cs))"
  by (induction xs arbitrary: cs) (simp_all add: insert_typo_distinct)

lemma fold_insert_subset: "set (fold insert_typo xs cs) \<subseteq> set cs \<union> set xs"
proof (induction xs arbitrary: cs)
  case (Cons x xs)
  have "set (insert_typo x cs) \<subseteq> insert x (set cs)" by (auto simp: insert_typo_def split: option.split)
  then show ?case using Cons [of "insert_typo x cs"] by auto
qed simp

lemma fold_insert_keeps:
  "distinct (map corrected_input cs) \<Longrightarrow> covers cs v s \<Longrightarrow> covers (fold insert_typo xs cs) v s"
  by (induction xs arbitrary: cs) (simp_all add: insert_typo_distinct insert_typo_keeps)

lemma fold_insert_covers:
  "distinct (map corrected_input cs) \<Longrightarrow> x \<in> set xs \<Longrightarrow> covers (fold insert_typo xs cs) (corrected_input x) (score x)"
proof (induction xs arbitrary: cs)
  case (Cons c xs)
  note d = insert_typo_distinct [OF Cons(2)]
  show ?case
  proof (cases "x = c")
    case True
    then show ?thesis using fold_insert_keeps [OF d insert_typo_covers] by simp
  qed (use Cons d in simp)
qed simp

interpretation typo_order: keyed_comparison compare_typos "\<lambda>c. (- total_key (score c), corrected_input c)"
  by unfold_locales (auto simp: compare_typos_def total_cmp_def cmp_def)

text \<open>The unique corrections in their order, before the cut.\<close>

definition unique_typos :: "Hypothesis list \<Rightarrow> LmTypoCandidate list" where
  "unique_typos hs = fold insert_typo (map candidate_of_hypothesis hs) []"

lemma unique_typos_facts:
  "distinct (map corrected_input (unique_typos hs))" "set (unique_typos hs) \<subseteq> candidate_of_hypothesis ` set hs"
  "h \<in> set hs \<Longrightarrow> covers (unique_typos hs) (concat (hy_corrected h)) (hy_score h)"
  unfolding unique_typos_def
  using fold_insert_distinct [of "[]"] fold_insert_subset [of "map candidate_of_hypothesis hs" "[]"]
    fold_insert_covers [of "[]" "candidate_of_hypothesis h" "map candidate_of_hypothesis hs"]
  by (simp_all add: candidate_of_hypothesis_def)

lemma rank_typos_facts:
  "length (rank_typos fl n hs) \<le> n"
  "sorted (map (\<lambda>c. - total_key (score c)) (rank_typos fl n hs))"
  "distinct (map corrected_input (rank_typos fl n hs))"
  "c \<in> set (rank_typos fl n hs) \<Longrightarrow> \<exists>h \<in> set hs. \<exists>p. c = (candidate_of_hypothesis h)\<lparr>prominence := p\<rparr>"
proof -
  let ?key = "\<lambda>c. (- total_key (score c), corrected_input c)" and ?cs = "take n (sort_by compare_typos (unique_typos hs))"
  have r: "rank_typos fl n hs = map (\<lambda>c. c\<lparr>prominence := fl_exp fl (f32_sub (score c) (score (hd ?cs)))\<rparr>) ?cs"
    by (simp add: rank_typos_def unique_typos_def Let_def)
  show "length (rank_typos fl n hs) \<le> n" by (simp add: r)
  have "sorted (map ?key (sort_by compare_typos (unique_typos hs)))" by (simp add: typo_order.sort_by_key)
  then have k: "sorted (map ?key ?cs)" unfolding take_map [symmetric] by (rule sorted_wrt_take)
  then show "sorted (map (\<lambda>c. - total_key (score c)) (rank_typos fl n hs))"
    unfolding r by (simp add: sorted_wrt_map comp_def) (auto elim!: sorted_wrt_mono_rel [rotated])
  have "distinct (map corrected_input (sort_by compare_typos (unique_typos hs)))"
    using unique_typos_facts(1) [of hs] by (simp add: typo_order.sort_by_key distinct_map)
  then have "distinct (map corrected_input ?cs)" unfolding take_map [symmetric] by (rule distinct_take)
  then show "distinct (map corrected_input (rank_typos fl n hs))" unfolding r by (simp add: comp_def)
  assume "c \<in> set (rank_typos fl n hs)"
  then obtain d where d: "d \<in> set ?cs" "c = d\<lparr>prominence := fl_exp fl (f32_sub (score d) (score (hd ?cs)))\<rparr>"
    by (auto simp: r)
  then have "d \<in> set (unique_typos hs)" by (auto dest: in_set_takeD)
  then show "\<exists>h \<in> set hs. \<exists>p. c = (candidate_of_hypothesis h)\<lparr>prominence := p\<rparr>" using d unique_typos_facts(2) [of hs] by blast
qed

lemma map_sum_Inr: "map_sum f g r = Inr v \<longleftrightarrow> (\<exists>a. r = Inr a \<and> v = g a)"
  by (cases r) auto

text \<open>
  C38. The corrections are what the steps of the search can mean. Each offered correction reads all keys that were typed, each
  of them as it is, as a neighbor, left out next to its neighbor, or swapped with the next; its cost is the sum of the costs
  of these steps, its text is what the input table makes of the corrected keys, and its score is the score of the language
  model less the cost. There are at most as many as asked for, in descending order of their scores, none twice.
\<close>

theorem typo_corrections_meant:
  assumes "experimental_typo_correction fl graphemes to_lowercase lm left_context c style registry config = Inr cs"
    and "co = correction_for fl graphemes to_lowercase lm c style registry config"
  shows "length cs \<le> max (typo_n_best config) 1 \<and> sorted (map (\<lambda>x. - total_key (score x)) cs) \<and> distinct (map corrected_input cs) \<and>
    (\<forall>x \<in> set cs. \<exists>vs p.
       meant co (length (co_observed co)) vs p (channel_cost x) \<and> corrected_input x = concat vs \<and>
       converted_text x = (case consume_all graphemes (gm_table (generation_mode registry style)) ([], []) vs of (e, p) \<Rightarrow> e @ p) \<and>
       score x = f32_sub (lm_score x) (channel_cost x))"
proof (cases "co_observed co = []")
  case True
  then show ?thesis using assms by (simp add: experimental_typo_correction_def)
next
  case False
  obtain sc hs where hs: "fst (search_corrections co sc) = Inr hs" and cs: "cs = rank_typos fl (typo_n_best (co_config co)) hs"
    using assms False by (auto simp: experimental_typo_correction_def Let_def then_do_Inr map_sum_Inr)
  have ok: "\<forall>h \<in> set hs. hypothesis_ok co h \<and> is_complete co h"
    using search_ok [of co] hs unfolding yields_def list_all_iff by blast
  have co: "co_graphemes co = graphemes" "gm_table (co_mode co) = gm_table (generation_mode registry style)"
      "typo_n_best (co_config co) = max (typo_n_best config) 1"
    by (simp_all add: assms(2) correction_for_def Let_def)
  have "\<exists>vs p. meant co (length (co_observed co)) vs p (channel_cost x) \<and> corrected_input x = concat vs \<and>
       converted_text x = (case consume_all graphemes (gm_table (generation_mode registry style)) ([], []) vs of (e, p) \<Rightarrow> e @ p) \<and>
       score x = f32_sub (lm_score x) (channel_cost x)" if x: "x \<in> set cs" for x
  proof -
    obtain h p where h: "h \<in> set hs" "x = (candidate_of_hypothesis h)\<lparr>prominence := p\<rparr>"
      using rank_typos_facts(4) [OF x [unfolded cs]] by blast
    then have "hypothesis_ok co h" "is_complete co h" using ok by simp_all
    then show ?thesis
      unfolding h(2) hypothesis_ok_def is_complete_def co
      by (intro exI [of _ "hy_corrected h"] exI [of _ "hy_previous h"]) (auto simp: candidate_of_hypothesis_def co(1,2) [symmetric] split: prod.split)
  qed
  then show ?thesis using rank_typos_facts(1-3) [of fl "typo_n_best (co_config co)" hs] unfolding cs co by blast
qed

section \<open>The keys as they are\<close>

lemma settled_each [intro]:
  "(\<And>x. settled fl g lm t prompt (f x)) \<Longrightarrow> settled fl g lm t prompt (score_each f xs)"
  by (induction xs) (simp_all add: settled_then)

text \<open>The parts of a search are settled for the scorer of its correction.\<close>

abbreviation settled_in :: "Correction \<Rightarrow> int list \<Rightarrow> 'a scoring \<Rightarrow> bool" where
  "settled_in co prompt \<equiv> settled (co_floats co) (co_graphemes co) (co_model co) (gm_table (co_mode co)) prompt"

lemma settled_option [intro]:
  "settled fl g lm t prompt m \<Longrightarrow> (\<And>x. settled fl g lm t prompt (f x)) \<Longrightarrow>
   settled fl g lm t prompt (case r of None \<Rightarrow> m | Some x \<Rightarrow> f x)"
  by (cases r) simp_all

lemma settled_pair [intro]:
  "(\<And>x y. settled fl g lm t prompt (f x y)) \<Longrightarrow> settled fl g lm t prompt (case r of (x, y) \<Rightarrow> f x y)"
  by (cases r) simp

lemma settled_if [intro]:
  "settled fl g lm t prompt m \<Longrightarrow> settled fl g lm t prompt n \<Longrightarrow> settled fl g lm t prompt (if b then m else n)"
  by simp

lemmas settled_rules = settled_if settled_option settled_pair settled_then settled_each settled_give settled_append settled_pending settled_top

lemma settled_advance: "settled_in co prompt (add_advance co h vs n addition)"
  unfolding add_advance_def evaluate_advance_def Let_def by (intro settled_rules)

lemma settled_expand: "settled_in co prompt (expand_hypothesis co h)"
  unfolding expand_hypothesis_def targets_def leave_out_def transpose_keys_def Let_def
  by (intro settled_rules settled_advance)

lemma settled_complete: "settled_in co prompt (complete_hypothesis co h)"
  unfolding complete_hypothesis_def Let_def by (intro settled_rules)

lemma settled_beam: "settled_in co prompt (beam_search n co beam)"
proof (induction n arbitrary: beam)
  case (Suc n)
  show ?case unfolding beam_search.simps by (intro settled_rules settled_expand Suc)
qed simp

text \<open>The answer behind a settled computation is the one a new scorer gives.\<close>

lemma settled_answer:
  assumes "settled fl g lm t prompt m" and "fst (score_then m f (new_scorer prompt)) = Inr y"
  obtains x sc where "scorer_ok fl g lm t prompt sc" and "fst (f x sc) = Inr y"
proof -
  obtain r s where r: "m (new_scorer prompt) = (r, s)" by fastforce
  have s: "scorer_ok fl g lm t prompt s" using settledD(2) [OF assms(1) new_scorer_ok] by (simp add: r)
  show thesis using that [OF s] assms(2) by (cases r) (auto simp: score_then_def r)
qed

lemma settled_answer_ok:
  assumes "settled fl g lm t prompt m" and "scorer_ok fl g lm t prompt sc" and "fst (score_then m f sc) = Inr y"
  obtains x sc' where "scorer_ok fl g lm t prompt sc'" and "fst (m (new_scorer prompt)) = Inr x" and "fst (f x sc') = Inr y"
proof -
  obtain r s where r: "m sc = (r, s)" by fastforce
  have a: "fst (m (new_scorer prompt)) = r" and s: "scorer_ok fl g lm t prompt s"
    using settledD [OF assms(1,2)] by (simp_all add: r)
  show thesis using that [OF s] a assms(3) by (cases r) (auto simp: score_then_def r)
qed

lemma search_has_original:
  assumes "fst (search_corrections co (new_scorer prompt)) = Inr hs"
    and "fst (complete_hypothesis co initial_hypothesis (new_scorer prompt)) = Inr (Some orig)"
  shows "orig \<in> set hs"
proof -
  let ?steps = "case max_steps (co_config co) of Some n \<Rightarrow> n | None \<Rightarrow> length (co_observed co) * 2 + 8"
  let ?finish = "\<lambda>h. score_then (complete_hypothesis co h) (\<lambda>r. give (option_list r))"
  have f: "settled_in co prompt (score_each ?finish beam)" for beam by (intro settled_rules settled_complete)
  obtain beam sc where b: "scorer_ok (co_floats co) (co_graphemes co) (co_model co) (gm_table (co_mode co)) prompt sc"
      "fst (score_then (score_each ?finish beam) (\<lambda>completed.
             score_then (complete_hypothesis co initial_hypothesis) (\<lambda>original. give (completed @ option_list original))) sc) = Inr hs"
    using settled_answer [OF settled_beam assms(1) [unfolded search_corrections_def Let_def]] by blast
  obtain completed sc' where c: "scorer_ok (co_floats co) (co_graphemes co) (co_model co) (gm_table (co_mode co)) prompt sc'"
      "fst (score_then (complete_hypothesis co initial_hypothesis) (\<lambda>original. give (completed @ option_list original)) sc') = Inr hs"
    using settled_answer_ok [OF f b] by blast
  obtain original where o: "fst (complete_hypothesis co initial_hypothesis (new_scorer prompt)) = Inr original"
      "hs = completed @ option_list original"
    using settled_answer_ok [OF settled_complete c] by (auto simp: give_def)
  then show ?thesis using assms(2) by (simp add: option_list_def)
qed

lemma total_key_numeric: "total_key a \<le> total_key b \<Longrightarrow> f32_key a \<le> f32_key b"
  using magnitude_bounds [of a] magnitude_bounds [of b] by (auto simp: total_key_def f32_key_def split: if_splits)

lemma f32_add_nan:
  assumes "f32_is_nan (f32_add a b)"
  shows "f32_add a b = f32_nan"
proof -
  have m: "\<not> f32_is_nan (with_sign s (magnitude_of_units k))" if "0 \<le> k" for s k
    using key_with_sign(2) magnitude_of_units_bounds [OF that] by blast
  have z: "\<not> f32_is_nan (with_sign s 0)" for s using key_with_sign(2) [of 0 s] by simp
  show ?thesis using assms m z by (auto simp: f32_add_def Let_def split: if_splits)
qed

lemma above_nan: "total_key f32_nan \<le> total_key a \<Longrightarrow> f32_is_nan a"
proof -
  have "total_key f32_nan = 0x7FC00000" by code_simp
  moreover assume "total_key f32_nan \<le> total_key a"
  ultimately show ?thesis using magnitude_bounds [of a] by (auto simp: total_key_def f32_is_nan_def split: if_splits)
qed

text \<open>
  C39. Correcting is never worse than leaving the keys as they are. Where the language model can score the keys as typed, the
  search offers at least one correction, and the first one has at least their score; a score that is not a number comes first.
\<close>

theorem typo_correction_never_worse:
  assumes "experimental_typo_correction fl graphemes to_lowercase lm left_context c style registry config = Inr cs"
    and "co = correction_for fl graphemes to_lowercase lm c style registry config" and "co_observed co \<noteq> []"
    and "tokenize_for_model lm (typo_correction_prefix left_context) False = Inr prompt"
    and "fst (complete_hypothesis co initial_hypothesis (new_scorer prompt)) = Inr (Some orig)" and "\<not> f32_is_nan (hy_score orig)"
  shows "cs \<noteq> [] \<and> (f32_is_nan (score (hd cs)) \<or> f32_ge (score (hd cs)) (hy_score orig))"
proof -
  obtain hs where hs: "fst (search_corrections co (new_scorer prompt)) = Inr hs"
      and cs: "cs = rank_typos fl (typo_n_best (co_config co)) hs"
    using assms(1-4) by (auto simp: experimental_typo_correction_def Let_def then_do_Inr map_sum_Inr scorer_for_def)
  obtain y where y: "y \<in> set (unique_typos hs)" "\<not> f32_lt (score y) (hy_score orig)"
    using unique_typos_facts(3) [OF search_has_original [OF hs assms(5)]] by (auto simp: covers_def)
  let ?sorted = "sort_by compare_typos (unique_typos hs)"
  have n: "0 < typo_n_best (co_config co)" by (simp add: assms(2) correction_for_def Let_def)
  have ne: "?sorted \<noteq> []" using y(1) by (metis empty_iff list.set(1) set_sort_by)
  have hd: "score (hd cs) = score (hd ?sorted)" and c: "cs \<noteq> []"
    using n ne by (auto simp: cs rank_typos_def Let_def unique_typos_def hd_map)
  have "sorted (map (\<lambda>c. (- total_key (score c), corrected_input c)) ?sorted)" by (simp add: typo_order.sort_by_key)
  then have "(- total_key (score (hd ?sorted)), corrected_input (hd ?sorted)) \<le> (- total_key (score y), corrected_input y)"
    using y(1) ne by (cases ?sorted) (auto simp: sorted_wrt_map simp flip: set_sort_by [of compare_typos "unique_typos hs"])
  then have best: "total_key (score y) \<le> total_key (score (hd cs))" by (auto simp: hd)
  obtain h where h: "h \<in> set hs" "y = candidate_of_hypothesis h" using unique_typos_facts(2) y(1) by blast
  then have "hypothesis_ok co h" using search_ok [of co] hs unfolding yields_def list_all_iff by blast
  then have sub: "score y = f32_sub (hy_lm_score h) (hy_channel_cost h)" by (simp add: h(2) candidate_of_hypothesis_def hypothesis_ok_def)
  show ?thesis
  proof (cases "f32_is_nan (score y)")
    case True
    then have "score y = f32_nan" using f32_add_nan unfolding sub f32_sub_def by blast
    then show ?thesis using above_nan best c by simp
  next
    case False
    then have "f32_key (hy_score orig) \<le> f32_key (score y)" using y(2) assms(6) by (simp add: f32_lt_def)
    then show ?thesis using total_key_numeric [OF best] assms(6) c by (auto simp: f32_ge_def)
  qed
qed

end
