(* ===== verification/Lm_Typo_Sample.thy ===== *)
theory Lm_Typo_Sample
  imports Lm_Typo_Properties Zenz_Properties
begin

text \<open>The theorems about typing errors on a single kana and a model of three tokens.\<close>

definition typed_kana :: ComposingText where
  "typed_kana = \<lparr>cursor = 1, input = [character_element [0x3042] Direct], surface = [[0x3042]]\<rparr>"

definition kana_model :: ZenzLanguageModel where
  "kana_model = sample_model\<lparr>tokenize := \<lambda>v special. Inr (map (\<lambda>x. if x = 0x30A2 then 1 else if x = 0x30A4 then 2 else 0) v),
     token_to_piece := \<lambda>t. Inr (utf8 (if t = 1 then [0x30A2] else if t = 2 then [0x30A4] else [0x21])),
     next_logits := \<lambda>ts. Inr [0, 0x3F800000, 0x40000000], vocabulary_size := 3\<rparr>"

definition kana_corrections :: "ZenzInferenceError + LmTypoCandidate list" where
  "kana_corrections = experimental_typo_correction sample_floats scalar_graphemes id kana_model [] typed_kana Direct sample_registry default_lm_typo"

definition kana_correction :: Correction where
  "kana_correction = correction_for sample_floats scalar_graphemes id kana_model typed_kana Direct sample_registry default_lm_typo"

definition kana_offers :: "LmTypoCandidate list" where
  "kana_offers =
     [\<lparr>corrected_input = [0x30A2], converted_text = [0x30A2], score = 0xBF800000, lm_score = 0xBF800000, channel_cost = 0,
       prominence = 0x3F800000\<rparr>,
      \<lparr>corrected_input = [0x30A4], converted_text = [0x30A4], score = 0xC0000000, lm_score = 0, channel_cost = 0x40000000,
       prominence = 0x3F800000\<rparr>]"

lemma kana_corrected: "kana_corrections = Inr kana_offers"
  by code_simp

lemma kana_correction_observed: "co_observed kana_correction = [[0x30A2]]"
  by code_simp

lemma typo_corrections_meant_witness:
  "kana_corrections = Inr kana_offers \<and>
   (\<exists>vs p. meant kana_correction 1 vs p 0x40000000 \<and> [0x30A4] = concat vs) \<and> distinct (map corrected_input kana_offers)"
proof -
  note m = typo_corrections_meant [OF kana_corrected [unfolded kana_corrections_def] kana_correction_def]
  let ?x = "\<lparr>corrected_input = [0x30A4], converted_text = [0x30A4], score = 0xC0000000, lm_score = 0, channel_cost = 0x40000000,
       prominence = 0x3F800000\<rparr>"
  have x: "?x \<in> set kana_offers" by (simp add: kana_offers_def)
  have "\<exists>vs p. meant kana_correction (length (co_observed kana_correction)) vs p (channel_cost ?x) \<and> corrected_input ?x = concat vs"
    using m x by blast
  then have "\<exists>vs p. meant kana_correction 1 vs p 0x40000000 \<and> [0x30A4] = concat vs"
    by (simp add: kana_correction_observed)
  then show ?thesis using kana_corrected m by blast
qed

lemma typo_correction_never_worse_witness: "kana_corrections = Inr kana_offers \<and> f32_ge (score (hd kana_offers)) 0xBF800000"
proof -
  let ?orig = "\<lparr>hy_corrected = [[0x30A2]], hy_emitted_text = [0x30A2], hy_emitted_tokens = [1], hy_position = 1,
     hy_previous = Some [0x30A2], hy_pending = [], hy_proxy = 0, hy_channel_cost = 0, hy_lm_score = 0xBF800000, hy_score = 0xBF800000\<rparr>"
  have p: "tokenize_for_model kana_model (typo_correction_prefix []) False = Inr [0]" by code_simp
  have o: "fst (complete_hypothesis kana_correction initial_hypothesis (new_scorer [0])) = Inr (Some ?orig)" by code_simp
  have n: "\<not> f32_is_nan (hy_score ?orig)" by code_simp
  have h: "score (hd kana_offers) = 0xBF800000" by (simp add: kana_offers_def)
  have k: "\<not> f32_is_nan 0xBF800000" by code_simp
  have "co_observed kana_correction \<noteq> []" by (simp add: kana_correction_observed)
  from typo_correction_never_worse [OF kana_corrected [unfolded kana_corrections_def] kana_correction_def this p o n]
  show ?thesis using kana_corrected k by (simp add: h)
qed

lemma default_steps_suffice_witness:
  "kana_corrections = experimental_typo_correction sample_floats scalar_graphemes id kana_model [] typed_kana Direct sample_registry
     (default_lm_typo\<lparr>max_steps := Some 100\<rparr>)"
proof -
  have "length (co_observed kana_correction) \<le> 100" by (simp add: kana_correction_observed)
  then show ?thesis
    unfolding kana_corrections_def kana_correction_def
    by (intro default_steps_suffice) (simp_all add: default_lm_typo_def)
qed

end
