(* ===== verification/Spec2Isabelle.thy ===== *)
theory Spec2Isabelle
  imports Session_Result Engine_Input Engine_Fallback Connection Server Custom_Table Learning_Properties Dictionary_Store Lattice_Sample Neural_Sample Assembly_Sample Lm_Typo_Sample
begin

text \<open>
  A verification library for beanKey, a Japanese input method written in Rust. The crates are under \<open>src/crates\<close>:
  \<open>converter\<close> turns typed keys into kana and kana into candidates, \<open>daemon\<close> keeps a session for each client and
  speaks to it over a socket. Clients send keys; the engine of the daemon (\<open>daemon/src/engine.rs\<close>) drives one conversion
  session for each session identifier (\<open>converter/src/session.rs\<close>); the session owns the composing text
  (\<open>converter/src/input\<close>) and asks the lattice (\<open>converter/src/lattice.rs\<close>), which asks the dictionary
  (\<open>converter/src/dictionary\<close>) and the learning memory (\<open>converter/src/learning.rs\<close>).

  \<^bold>\<open>Shared theories.\<close>
  \<^item> \<open>Prelude\<close>: strings as lists of scalar values, orderings and stable sorting, lists. \<open>Strings\<close>: the functions of \<open>str\<close>
    the sources call. \<open>Bytes\<close>, \<open>Utf8\<close>: little-endian integers and UTF-8. \<open>Codec\<close>: the interface of a decoder that
    leaves what follows a value.
  \<^item> \<open>F32\<close>, \<open>F32_Arith\<close>: IEEE binary32 on its bit patterns, rounded to nearest even; addition is monotone where both
    sides are not positive, which the search relies on.

  \<^bold>\<open>The composing text.\<close>
  \<^item> \<open>Kana\<close> (\<open>kana.rs\<close>), \<open>Input_Table\<close> (\<open>input/table.rs\<close>), \<open>Custom_Table\<close> (\<open>input/custom.rs\<close>): the rewriting rules, the
    choice of the best rule, and tables as text (round trip).
  \<^item> \<open>Composing\<close> (\<open>input/composing.rs\<close>): the history of typed elements, the surface it converts to and the cursor.
    \<open>Composing_Stable\<close>: no later element rewrites across an independent boundary. \<open>Composing_Edit\<close>: \<open>composing_ok\<close>, the
    surface is the conversion of the history, is kept by every operation, and deleting, inserting and completing change
    exactly the text they should.

  \<^bold>\<open>The dictionary.\<close>
  \<^item> \<open>Louds\<close>, \<open>Dictionary_Binary\<close> (\<open>dictionary/louds.rs\<close>, \<open>binary.rs\<close>): the tries and the blocks of entries.
  \<^item> \<open>Dictionary_Store\<close> (\<open>dictionary/store.rs\<close>, \<open>user.rs\<close>): the lookups over the files and their caches, which no answer
    shows; the walk over prefixes gives the exact matches of each.

  \<^bold>\<open>The learning memory\<close> (\<open>learning.rs\<close>, \<open>learning/index.rs\<close>).
  \<^item> \<open>Learning\<close>, \<open>Learning_Memory\<close>: records, ageing, merging, and every operation. \<open>Learning_Files\<close>, \<open>Learning_Disk\<close>: the
    bytes, and the directory as a sequence of file operations each of which can be the last one, or fail.
  \<^item> \<open>Memory_Index\<close>, \<open>Memory_Trie\<close>, \<open>Memory_Blocks\<close>, \<open>Memory_Louds\<close>: the two indexes, and that the written index answers
    like the trie. The locale \<open>record_index\<close> states what the memory needs of an index; trie and LOUDS interpret it.
  \<^item> \<open>Learning_Invariant\<close>, \<open>Learning_Properties\<close>: the invariant, exact lookups, learning, forgetting, and that a commit
    survives reopening; \<open>Learning_Disk\<close> that a save interrupted anywhere leaves the old or the new memory.

  \<^bold>\<open>The conversion\<close> (\<open>lattice.rs\<close>, \<open>typo.rs\<close>, the constraints of \<open>zenz.rs\<close>).
  \<^item> \<open>Candidate\<close>: entries, candidates, ranges. \<open>Typo\<close>: readings with typing errors. \<open>Lattice\<close>: nodes, the pass over the
    positions, clauses, candidates, predictions.
  \<^item> \<open>Lattice_Best\<close>: a node keeps the best paths of a stable sort. \<open>Lattice_Positions\<close>: the pass meets each position of
    the surface once and in order. \<open>Lattice_Search\<close>: against the set of all paths of words, the search is sound and finds
    the best path. \<open>Lattice_Convert\<close>, \<open>Lattice_Candidates\<close>: the same for a conversion, which stays inside of its vectors,
    never comes out empty, and whose candidates stand for the whole text. \<open>Lattice_Sample\<close>: a concrete dictionary.

  \<^bold>\<open>The neural conversion\<close> (\<open>converter/src/zenz.rs\<close>, \<open>daemon/src/zenz.rs\<close>).
  \<^item> \<open>Zenz_Prompt\<close>: constraints, tags and the texts the model gets. \<open>Zenz\<close>: the verdict on a candidate, token by token.
    \<open>Zenz_Evaluator\<close>: the two caches, candidates with a fixed beginning, generating input.
  \<^item> \<open>Zenz_Cache\<close>: the caches do not show in any answer. \<open>Zenz_Properties\<close>: what a verdict means, fixed beginnings, and
    which inputs are generated.
  \<^item> \<open>Neural\<close>: the drafts, the loop of reviews and the prediction of input. \<open>Lattice_Constraint\<close>: a conversion keeps its
    constraint. \<open>Neural_Properties\<close>: what the client gets are drafts of the lattice that agree with an accepted prediction.
    \<open>Neural_Sample\<close>: a concrete conversion.
  \<^item> \<open>Lm_Keyboard\<close>, \<open>Lm_Scorer\<close>, \<open>Lm_Typo\<close> (\<open>lm_typo.rs\<close>): the keyboards and waiting keys, the scores of a language model
    behind four caches, and the beam search for typing errors. \<open>Lm_Typo_Properties\<close>: what is offered are corrections by the
    steps of the search with their costs, never worse than the keys as typed, and the default number of steps is enough; for
    this the caches of the scorer are shown not to change any answer. \<open>Lm_Typo_Sample\<close>: a concrete correction.

  \<^bold>\<open>The session and the engine.\<close>
  \<^item> \<open>Session\<close> (\<open>session.rs\<close>), \<open>Session_Edit\<close>, \<open>Session_Result\<close>: requests, their candidates, completing a candidate.
  \<^item> \<open>Engine_State\<close>, \<open>Engine\<close> (\<open>engine.rs\<close>): the data of a session of the engine and its handlers, in the monad of a state
    and a failure. \<open>Engine_Logic\<close> is a weakest precondition for it; \<open>Engine_Invariant\<close>, \<open>Engine_Handlers\<close>,
    \<open>Engine_Reachable\<close> carry the invariant through every handler and to every session of every connection.
  \<^item> \<open>Engine_Properties\<close>, \<open>Engine_Answers\<close>, \<open>Engine_Input\<close>, \<open>Engine_Fallback\<close>: identifiers and order, what answers tell,
    behaviour over several keys, and the conversion without a model. \<open>Engine_Sample\<close>: a small engine.
  \<^item> \<open>Assembly\<close>: the services of the session on the lattice and those of the engine on the neural conversion; a request
    has candidates. \<open>Assembly_Sample\<close>: a concrete request.

  \<^bold>\<open>The daemon.\<close>
  \<^item> \<open>Protocol\<close>, \<open>Frame\<close>, \<open>Wire\<close>, \<open>Connection\<close> (\<open>daemon/src/lib.rs\<close>, \<open>server.rs\<close>): messages, frames, the loop of one client,
    which for every byte stream refines the sequence of its requests. \<open>Server\<close>: accepting clients, as a step relation.

  \<^bold>\<open>Parameters.\<close> The segmentation into grapheme clusters (a crate) is a function; where a theorem needs more of it than
  \<open>segments_text\<close> it says so (\<open>same_graphemes\<close>). Also parameters are the services behind a session and the engine
  (\<open>Services\<close>, \<open>EngineServices\<close>), the transport of protocol messages, the clock, the contents of the dictionary files, the
  parsing of a decimal \<open>f32\<close>, the value of a learned record (a logarithm), \<open>str::to_uppercase\<close>, the order in which a
  \<open>HashMap\<close> gives its entries, the language model (\<open>ZenzLanguageModel\<close>, a record of functions) and \<open>exp\<close> and \<open>ln\<close> of
  \<open>f32\<close> (\<open>FloatFunctions\<close>).

  \<^bold>\<open>Bounds and fuel.\<close> Integers are words where their width matters and otherwise natural numbers; a subtraction that
  would wrap is an explicit test. The walks over a trie (\<open>trie_below\<close>, \<open>encode_levels\<close>) have the number of nodes as fuel,
  and a trie is never deeper; the decimal digits of a number have the number as fuel. \<open>review_loop\<close> and \<open>generate_loop\<close> count the inferences and the
  turns that remain, and \<open>beam_search\<close> the steps, as the code does. Every other loop is a total function.

  \<^bold>\<open>Not modelled.\<close> The model and its bindings (\<open>llama\<close>, \<open>SharedZenzModel\<close>, which only lock and call it), and
  the n-gram model of \<open>ngram.rs\<close>, whose probabilities are \<open>f64\<close> over a trie and a tokenizer of other crates: both are
  instances of the record of a language model. Dates, templates, spell checking and emoji (\<open>special.rs\<close>, \<open>template.rs\<close>,
  \<open>foreign.rs\<close>, \<open>text_replacer.rs\<close>), which are services of the session here, and the predictions after a composition
  (\<open>post_prediction.rs\<close>) beyond the kinds the learning memory learns from. The command line, the TOML file and logging. The table of \<open>input/roman.rs\<close> is data; the theorems
  hold for all tables.

  \<^bold>\<open>What modelling showed.\<close> \<open>Learning_Disk.interrupted_second_save_mixes\<close> and
  \<open>Learning_Memory.interrupted_reset_stops_opening\<close>: two interruptions after which the learning memory cannot be opened.
  \<open>Custom_Table.blank_rule_dropped\<close>, \<open>Custom_Table.empty_value_dropped\<close>: rules the check accepts and the parser drops.
  \<open>Lattice_Sample.separate_mark_out_of_bounds\<close>: a text that stops the conversion.
\<close>

end
